(* ===== verification/Prelude.thy ===== *)
theory Prelude
  imports Main "HOL-Library.Sublist"
begin

text \<open>
  Shared vocabulary of the development.  It models no file of the repository: it
  holds the result type that stands for "returns or raises", the small part of
  Python's string library the agent uses, and generic lemmas on lists.

  Python strings are modelled as \<open>string\<close> (a list of characters).  Letters are
  ASCII letters: \<open>py_lower\<close> maps \<open>A\<close>..\<open>Z\<close> and leaves every other character alone, which
  is \<open>str.lower\<close> on ASCII text.  Clock readings are integers counting one fixed tick;
  the code only subtracts and compares them.
\<close>

named_theorems res_simps \<open>evaluation rules of the result monad\<close>
named_theorems sub_intros \<open>facts that a filtered list is a subsequence of its input\<close>

section \<open>Results: a value or a raised exception\<close>

datatype py_exc =
    ReError
  | ValueError string
  | KeyError string
  | RuntimeError string
  | AttributeError string
  | TypeError string
  | OSError string

type_synonym 'a res = "py_exc + 'a"

fun bindR :: "'a res \<Rightarrow> ('a \<Rightarrow> 'b res) \<Rightarrow> 'b res" where
  "bindR (Inl e) f = Inl e"
| "bindR (Inr a) f = f a"

text \<open>Python's \<open>any(p(x) for x in xs)\<close>: stops at the first \<open>True\<close>, and an exception of
  \<open>p\<close> propagates if it comes before one.\<close>

fun anyR :: "('a \<Rightarrow> bool res) \<Rightarrow> 'a list \<Rightarrow> bool res" where
  "anyR p [] = Inr False"
| "anyR p (x # xs) = bindR (p x) (\<lambda>b. if b then Inr True else anyR p xs)"

text \<open>The loop \<open>for x in xs: if p(x): return x\<close>.\<close>

fun findR :: "('a \<Rightarrow> bool res) \<Rightarrow> 'a list \<Rightarrow> 'a option res" where
  "findR p [] = Inr None"
| "findR p (x # xs) = bindR (p x) (\<lambda>b. if b then Inr (Some x) else findR p xs)"

text \<open>The loop that splits a list by a test that may raise: the elements that pass and
  the elements that fail, in order.\<close>

fun partR :: "('a \<Rightarrow> bool res) \<Rightarrow> 'a list \<Rightarrow> ('a list \<times> 'a list) res" where
  "partR p [] = Inr ([], [])"
| "partR p (x # xs) = bindR (p x) (\<lambda>b. bindR (partR p xs)
     (\<lambda>(ys, zs). Inr (if b then (x # ys, zs) else (ys, x # zs))))"

lemma bindR_Inr_iff [res_simps]: "(bindR m f = Inr b) = (\<exists>a. m = Inr a \<and> f a = Inr b)"
  by (cases m) auto

lemma bindR_Inl_iff [res_simps]:
  "(bindR m f = Inl e) = (m = Inl e \<or> (\<exists>a. m = Inr a \<and> f a = Inl e))"
  by (cases m) auto

lemma bindR_assoc: "bindR (bindR m f) g = bindR m (\<lambda>a. bindR (f a) g)"
  by (cases m) auto

lemma bindR_cong [fundef_cong]:
  "m = m' \<Longrightarrow> (\<And>a. m' = Inr a \<Longrightarrow> f a = f' a) \<Longrightarrow> bindR m f = bindR m' f'"
  by (cases m') auto

lemma anyR_cong [fundef_cong]:
  "xs = ys \<Longrightarrow> (\<And>x. x \<in> set ys \<Longrightarrow> p x = q x) \<Longrightarrow> anyR p xs = anyR q ys"
  by (induction ys arbitrary: xs) (auto intro: bindR_cong)

lemma anyR_total:
  "(\<And>x. x \<in> set xs \<Longrightarrow> p x = Inr (q x)) \<Longrightarrow> anyR p xs = Inr (\<exists>x \<in> set xs. q x)"
  by (induction xs) auto

lemma anyR_TrueD: "anyR p xs = Inr True \<Longrightarrow> \<exists>x \<in> set xs. p x = Inr True"
  by (induction xs) (auto simp: res_simps split: if_splits)

lemma anyR_FalseD: "anyR p xs = Inr False \<Longrightarrow> x \<in> set xs \<Longrightarrow> p x = Inr False"
  by (induction xs) (auto simp: res_simps split: if_splits)

lemma findR_SomeD: "findR p xs = Inr (Some x) \<Longrightarrow> x \<in> set xs \<and> p x = Inr True"
  by (induction xs) (auto simp: res_simps split: if_splits)

lemma findR_NoneD: "findR p xs = Inr None \<Longrightarrow> x \<in> set xs \<Longrightarrow> p x = Inr False"
  by (induction xs) (auto simp: res_simps split: if_splits)

lemma findR_total:
  "(\<And>x. x \<in> set xs \<Longrightarrow> p x = Inr (q x)) \<Longrightarrow> findR p xs = Inr (find q xs)"
  by (induction xs) auto

lemma findR_append:
  "findR p (xs @ ys) =
     bindR (findR p xs) (\<lambda>m. case m of None \<Rightarrow> findR p ys | Some x \<Rightarrow> Inr (Some x))"
proof (induction xs)
  case (Cons x xs)
  then show ?case by (cases "p x") auto
qed simp

lemma partR_filter:
  "partR p xs = Inr (ys, zs) \<Longrightarrow>
     ys = filter (\<lambda>x. p x = Inr True) xs \<and> zs = filter (\<lambda>x. p x \<noteq> Inr True) xs"
  by (induction xs arbitrary: ys zs) (auto simp: res_simps split: if_splits)

lemma partR_total:
  "(\<And>x. x \<in> set xs \<Longrightarrow> p x = Inr (q x)) \<Longrightarrow>
     partR p xs = Inr (filter q xs, filter (\<lambda>x. \<not> q x) xs)"
  by (induction xs) auto

lemma partR_length: "partR p xs = Inr (ys, zs) \<Longrightarrow> length ys + length zs = length xs"
  by (induction xs arbitrary: ys zs) (auto simp: res_simps split: if_splits)

section \<open>Strings\<close>

definition lower_char :: "char \<Rightarrow> char" where
  "lower_char c = (let n = (of_char c :: int) in if 65 \<le> n \<and> n \<le> 90 then char_of (n + 32) else c)"

definition py_lower :: "string \<Rightarrow> string" where
  "py_lower s = map lower_char s"

definition upper_char :: "char \<Rightarrow> char" where
  "upper_char c = (let n = (of_char c :: int) in if 97 \<le> n \<and> n \<le> 122 then char_of (n - 32) else c)"

definition py_upper :: "string \<Rightarrow> string" where
  "py_upper s = map upper_char s"

lemma lower_char_idem [simp]: "lower_char (lower_char c) = lower_char c"
  by (simp add: lower_char_def Let_def)

lemma py_lower_idem [simp]: "py_lower (py_lower s) = py_lower s"
  by (simp add: py_lower_def)

lemma length_py_lower [simp]: "length (py_lower s) = length s"
  by (simp add: py_lower_def)

lemma py_lower_eq_Nil [simp]: "py_lower s = [] \<longleftrightarrow> s = []"
  by (simp add: py_lower_def)

lemma py_lower_append [simp]: "py_lower (s @ t) = py_lower s @ py_lower t"
  by (simp add: py_lower_def)

text \<open>\<open>str.strip()\<close> on the ASCII whitespace characters.\<close>

definition py_space :: "char \<Rightarrow> bool" where
  "py_space c = (let n = (of_char c :: int) in (9 \<le> n \<and> n \<le> 13) \<or> (28 \<le> n \<and> n \<le> 32))"

definition py_strip :: "string \<Rightarrow> string" where
  "py_strip s = rev (dropWhile py_space (rev (dropWhile py_space s)))"

text \<open>\<open>s.split(sep)\<close> for a one-character separator: always at least one piece.\<close>

fun split_on :: "char \<Rightarrow> string \<Rightarrow> string list" where
  "split_on sep [] = [[]]"
| "split_on sep (c # cs) =
     (if c = sep then [] # split_on sep cs
      else case split_on sep cs of [] \<Rightarrow> [[c]] | p # ps \<Rightarrow> (c # p) # ps)"

text \<open>\<open>sep.join(ps)\<close>.\<close>

fun join_with :: "string \<Rightarrow> string list \<Rightarrow> string" where
  "join_with sep [] = []"
| "join_with sep [p] = p"
| "join_with sep (p # q # ps) = p @ sep @ join_with sep (q # ps)"

lemma split_on_not_Nil [simp]: "split_on sep s \<noteq> []"
  by (induction s) (auto split: list.splits)

lemma join_with_Cons_char [simp]: "join_with sep ((c # p) # ps) = c # join_with sep (p # ps)"
  by (cases ps) auto

lemma join_split: "join_with [sep] (split_on sep s) = s"
proof (induction s)
  case Nil
  then show ?case by simp
next
  case (Cons c cs)
  then show ?case by (cases "split_on sep cs") auto
qed

lemma split_on_no_sep: "p \<in> set (split_on sep s) \<Longrightarrow> sep \<notin> set p"
  by (induction s arbitrary: p) (auto split: list.splits if_splits)

lemma split_on_single: "sep \<notin> set s \<Longrightarrow> split_on sep s = [s]"
  by (induction s) auto

text \<open>Decimal rendering of integers, as an f-string does it, and its inverse.\<close>

definition digit_char :: "int \<Rightarrow> char" where
  "digit_char d = char_of (48 + d)"

function pos_str :: "int \<Rightarrow> string" where
  "pos_str n = (if n < 10 then [digit_char n] else pos_str (n div 10) @ [digit_char (n mod 10)])"
  by pat_completeness auto
termination
  by (relation "measure nat") auto

declare pos_str.simps [simp del]

definition int_str :: "int \<Rightarrow> string" where
  "int_str i = (if i < 0 then CHR ''-'' # pos_str (- i) else pos_str i)"

definition is_digit :: "char \<Rightarrow> bool" where
  "is_digit c = (let n = (of_char c :: int) in 48 \<le> n \<and> n \<le> 57)"

definition digit_val :: "char \<Rightarrow> int" where
  "digit_val c = (of_char c :: int) - 48"

fun dec_val :: "int \<Rightarrow> string \<Rightarrow> int" where
  "dec_val acc [] = acc"
| "dec_val acc (c # cs) = dec_val (10 * acc + digit_val c) cs"

lemma of_char_digit: "0 \<le> d \<Longrightarrow> d < 10 \<Longrightarrow> (of_char (digit_char d) :: int) = 48 + d"
  by (simp add: digit_char_def)

lemma digit_val_char: "0 \<le> d \<Longrightarrow> d < 10 \<Longrightarrow> digit_val (digit_char d) = d"
  by (simp add: digit_val_def of_char_digit)

lemma is_digit_char: "0 \<le> d \<Longrightarrow> d < 10 \<Longrightarrow> is_digit (digit_char d)"
  by (simp add: is_digit_def of_char_digit)

lemma dec_val_append: "dec_val acc (s @ t) = dec_val (dec_val acc s) t"
  by (induction s arbitrary: acc) auto

lemma dec_val_pos_str: "0 \<le> n \<Longrightarrow> dec_val 0 (pos_str n) = n"
proof (induction n rule: pos_str.induct)
  case (1 n)
  then show ?case
    by (subst pos_str.simps) (auto simp: dec_val_append digit_val_char)
qed

lemma pos_str_digits: "0 \<le> n \<Longrightarrow> list_all is_digit (pos_str n)"
proof (induction n rule: pos_str.induct)
  case (1 n)
  then show ?case
    by (subst pos_str.simps) (auto simp: is_digit_char)
qed

lemma pos_str_not_Nil [simp]: "pos_str n \<noteq> []"
  by (subst pos_str.simps) simp

lemma int_str_not_Nil [simp]: "int_str n \<noteq> []"
  by (simp add: int_str_def)

lemma dec_val_int_str: "0 \<le> n \<Longrightarrow> dec_val 0 (int_str n) = n"
  by (simp add: int_str_def dec_val_pos_str)

lemma int_str_nonneg_inj: "0 \<le> m \<Longrightarrow> 0 \<le> n \<Longrightarrow> int_str m = int_str n \<longleftrightarrow> m = n"
  by (metis dec_val_int_str)

section \<open>Lists\<close>

lemma length_filter_split: "length (filter P xs) + length (filter (\<lambda>x. \<not> P x) xs) = length xs"
  by (rule sum_length_filter_compl)

lemma subseq_filter [sub_intros, intro, simp]: "subseq (filter P xs) xs"
  by simp

lemma subseq_trans_filter: "subseq xs ys \<Longrightarrow> subseq (filter P xs) ys"
  by (rule subseq_order.trans [OF subseq_filter])

lemma subseq_set: "subseq xs ys \<Longrightarrow> set xs \<subseteq> set ys"
  by (induction rule: list_emb.induct) auto

text \<open>\<open>dict.fromkeys\<close> order: the first occurrence of each element, in order.\<close>

fun dedup :: "'a list \<Rightarrow> 'a list" where
  "dedup [] = []"
| "dedup (x # xs) = x # filter (\<lambda>y. y \<noteq> x) (dedup xs)"

lemma set_dedup [simp]: "set (dedup xs) = set xs"
  by (induction xs) auto

lemma distinct_dedup [simp]: "distinct (dedup xs)"
  by (induction xs) auto

lemma dedup_id: "distinct xs \<Longrightarrow> dedup xs = xs"
proof (induction xs)
  case (Cons x xs)
  then have "filter (\<lambda>y. y \<noteq> x) xs = xs" by (intro filter_True) auto
  with Cons show ?case by simp
qed simp

end
