(* ===== verification/GraphTypes.thy ===== *)
theory GraphTypes
  imports Prelude
begin

text \<open>
  The data the pipeline passes around: graph nodes, chain steps and findings
  (\<open>agent/schema/graph_types.py\<close>), normalised events (\<open>agent/schema/ocsf_types.py\<close>) and
  the \<open>ExtractedEntities\<close> container with its edge dictionaries
  (\<open>agent/processor/entity_extractor.py\<close>).  A \<open>datetime\<close> is its epoch value in
  microseconds, the resolution Python keeps; \<open>None\<close> fields are options.  An edge
  dictionary is a record with the keys the extractor writes.
\<close>

type_synonym datetime = int

section \<open>Graph nodes\<close>

record user_node =
  un_id :: string
  un_name :: "string option"
  un_uid :: "string option"
  un_first_seen :: datetime
  un_last_seen :: datetime

record process_node =
  pn_id :: string
  pn_name :: string
  pn_pid :: int
  pn_cmd_line :: "string option"
  pn_exe_path :: "string option"
  pn_hostname :: string
  pn_start_time :: "datetime option"
  pn_parent_pid :: "int option"
  pn_bundle_id :: "string option"
  pn_code_signed :: "bool option"
  pn_signing_authority :: "string option"

record ip_node =
  ipn_id :: string
  ipn_address :: string
  ipn_is_private :: bool
  ipn_first_seen :: datetime
  ipn_last_seen :: datetime
  ipn_country :: string
  ipn_city :: string
  ipn_isp :: string
  ipn_org :: string
  ipn_asn :: string
  ipn_is_hosting :: bool
  ipn_is_proxy :: bool
  ipn_classification :: string
  ipn_provider_name :: string
  ipn_reverse_dns :: string

record domain_node =
  dn_id :: string
  dn_name :: string
  dn_first_seen :: datetime
  dn_last_seen :: datetime
  dn_is_dga_candidate :: bool
  dn_tld :: string

record file_node =
  fn_id :: string
  fn_path :: string
  fn_hash_sha256 :: "string option"
  fn_size :: "int option"
  fn_first_seen :: datetime
  fn_last_seen :: datetime

record registry_key_node =
  rk_id :: string
  rk_path :: string
  rk_value_name :: "string option"
  rk_value_data :: "string option"
  rk_previous_data :: "string option"
  rk_first_seen :: datetime
  rk_last_seen :: datetime

section \<open>Chain steps and findings\<close>

record chain_step =
  cs_entity_type :: string
  cs_entity_id :: string
  cs_entity_name :: string
  cs_pid :: "int option"
  cs_timestamp :: "datetime option"
  cs_cmd_line :: "string option"
  cs_container_id :: "string option"

definition mk_chain_step :: "string \<Rightarrow> string \<Rightarrow> string \<Rightarrow> int option \<Rightarrow> chain_step" where
  "mk_chain_step ty i n p =
     \<lparr>cs_entity_type = ty, cs_entity_id = i, cs_entity_name = n, cs_pid = p,
      cs_timestamp = None, cs_cmd_line = None, cs_container_id = None\<rparr>"

record security_finding =
  sf_id :: string
  sf_timestamp :: datetime
  sf_severity :: string
  sf_title :: string
  sf_description :: string
  sf_affected_entities :: "string list"
  sf_evidence_event_ids :: "int list"
  sf_recommendation :: string
  sf_chain :: "chain_step list"
  sf_affected_pids :: "int list"
  sf_iocs :: "(string \<times> string list) list"
  sf_trigger_pid :: "int option"
  sf_trigger_timestamp :: "datetime option"

section \<open>Normalised events\<close>

record ocsf_metadata =
  md_original_time :: "datetime option"
  md_log_source :: string

record process_info =
  pi_pid :: int
  pi_name :: string
  pi_cmd_line :: string
  pi_exe_path :: string
  pi_parent_pid :: "int option"
  pi_created_time :: "datetime option"

record user_info =
  ui_name :: string
  ui_uid :: string

record network_endpoint =
  ne_ip :: string
  ne_port :: int
  ne_hostname :: string

record process_activity =
  pa_activity_id :: int
  pa_severity_id :: int
  pa_time :: datetime
  pa_actor :: "user_info option"
  pa_process :: process_info
  pa_device :: string
  pa_metadata :: ocsf_metadata

record network_activity =
  na_activity_id :: int
  na_severity_id :: int
  na_time :: datetime
  na_src_endpoint :: "network_endpoint option"
  na_dst_endpoint :: "network_endpoint option"
  na_process :: "process_info option"
  na_device :: string
  na_metadata :: ocsf_metadata

record authentication =
  au_activity_id :: int
  au_status_id :: int
  au_severity_id :: int
  au_time :: datetime
  au_user :: user_info
  au_src_endpoint :: "network_endpoint option"
  au_device :: string
  au_metadata :: ocsf_metadata

record dns_activity =
  da_activity_id :: int
  da_severity_id :: int
  da_time :: datetime
  da_process :: "process_info option"
  da_query_domain :: string
  da_resolved_ips :: "string list"
  da_device :: string
  da_metadata :: ocsf_metadata

record file_activity =
  fa_activity_id :: int
  fa_severity_id :: int
  fa_time :: datetime
  fa_process :: "process_info option"
  fa_file_path :: string
  fa_file_hash :: "string option"
  fa_file_size :: "int option"
  fa_device :: string
  fa_metadata :: ocsf_metadata

record registry_activity =
  ra_activity_id :: int
  ra_severity_id :: int
  ra_time :: datetime
  ra_process :: "process_info option"
  ra_reg_path :: string
  ra_value_name :: "string option"
  ra_value_data :: "string option"
  ra_previous_data :: "string option"
  ra_device :: string
  ra_metadata :: ocsf_metadata

datatype ocsf_event =
    ProcessActivity process_activity
  | NetworkActivity network_activity
  | Authentication authentication
  | DnsActivity dns_activity
  | FileActivity file_activity
  | RegistryActivity registry_activity

section \<open>Extracted entities\<close>

record spawned_edge =
  se_user_id :: string
  se_process_id :: string
  se_timestamp :: datetime
  se_activity_id :: int
  se_event_id :: int

record connected_edge =
  ce_process_id :: string
  ce_ip_id :: string
  ce_timestamp :: datetime
  ce_dst_port :: int
  ce_protocol :: string
  ce_direction :: string
  ce_event_id :: int

record resolved_edge =
  re_process_id :: string
  re_domain_id :: string
  re_timestamp :: datetime
  re_event_id :: int

record resolves_to_edge =
  rt_domain_id :: string
  rt_ip_id :: string
  rt_timestamp :: datetime
  rt_event_id :: int

record file_edge =
  fe_process_id :: string
  fe_file_id :: string
  fe_operation :: string
  fe_timestamp :: datetime
  fe_event_id :: int

record registry_edge =
  ge_process_id :: string
  ge_registry_id :: string
  ge_operation :: string
  ge_timestamp :: datetime
  ge_event_id :: int

datatype risk_indicator =
    PersistenceRisk string string string string string string
  | ConnectionRisk string string string

record entities =
  users :: "user_node list"
  processes :: "process_node list"
  ips :: "ip_node list"
  domains :: "domain_node list"
  files :: "file_node list"
  registry_keys :: "registry_key_node list"
  spawned_edges :: "spawned_edge list"
  connected_edges :: "connected_edge list"
  resolved_edges :: "resolved_edge list"
  resolves_to_edges :: "resolves_to_edge list"
  file_edges :: "file_edge list"
  registry_edges :: "registry_edge list"
  risk_indicators :: "risk_indicator list"

text \<open>\<open>ExtractedEntities()\<close>.\<close>

definition empty_entities :: entities where
  "empty_entities =
     \<lparr>users = [], processes = [], ips = [], domains = [], files = [], registry_keys = [],
      spawned_edges = [], connected_edges = [], resolved_edges = [], resolves_to_edges = [],
      file_edges = [], registry_edges = [], risk_indicators = []\<rparr>"

section \<open>Measures and orders on batches\<close>

text \<open>How many nodes and edges a batch holds: what the filters count.\<close>

definition item_count :: "entities \<Rightarrow> nat" where
  "item_count e =
     length (users e) + length (processes e) + length (ips e) + length (domains e)
     + length (files e) + length (registry_keys e) + length (spawned_edges e)
     + length (connected_edges e) + length (resolved_edges e) + length (resolves_to_edges e)
     + length (file_edges e) + length (registry_edges e)"

text \<open>One batch is obtained from another by leaving items out.\<close>

definition sub_entities :: "entities \<Rightarrow> entities \<Rightarrow> bool" where
  "sub_entities d e \<longleftrightarrow>
     subseq (users d) (users e) \<and> subseq (processes d) (processes e)
     \<and> subseq (ips d) (ips e) \<and> subseq (domains d) (domains e) \<and> subseq (files d) (files e)
     \<and> subseq (registry_keys d) (registry_keys e)
     \<and> subseq (spawned_edges d) (spawned_edges e)
     \<and> subseq (connected_edges d) (connected_edges e)
     \<and> subseq (resolved_edges d) (resolved_edges e)
     \<and> subseq (resolves_to_edges d) (resolves_to_edges e)
     \<and> subseq (file_edges d) (file_edges e) \<and> subseq (registry_edges d) (registry_edges e)
     \<and> risk_indicators d = risk_indicators e"

text \<open>No edge points at a node that is not in the batch.\<close>

definition closed_entities :: "entities \<Rightarrow> bool" where
  "closed_entities e \<longleftrightarrow>
     (\<forall>x \<in> set (spawned_edges e).
        se_user_id x \<in> un_id ` set (users e) \<and> se_process_id x \<in> pn_id ` set (processes e))
     \<and> (\<forall>x \<in> set (connected_edges e).
        ce_process_id x \<in> pn_id ` set (processes e) \<and> ce_ip_id x \<in> ipn_id ` set (ips e))
     \<and> (\<forall>x \<in> set (resolved_edges e).
        re_process_id x \<in> pn_id ` set (processes e) \<and> re_domain_id x \<in> dn_id ` set (domains e))
     \<and> (\<forall>x \<in> set (resolves_to_edges e).
        rt_domain_id x \<in> dn_id ` set (domains e) \<and> rt_ip_id x \<in> ipn_id ` set (ips e))
     \<and> (\<forall>x \<in> set (file_edges e).
        fe_process_id x \<in> pn_id ` set (processes e) \<and> fe_file_id x \<in> fn_id ` set (files e))
     \<and> (\<forall>x \<in> set (registry_edges e).
        ge_process_id x \<in> pn_id ` set (processes e)
        \<and> ge_registry_id x \<in> rk_id ` set (registry_keys e))"

lemma sub_entities_refl [simp]: "sub_entities e e"
  by (simp add: sub_entities_def)

lemma sub_entities_trans: "sub_entities c d \<Longrightarrow> sub_entities d e \<Longrightarrow> sub_entities c e"
  unfolding sub_entities_def by (auto intro: subseq_order.trans)

lemma sub_entities_count: "sub_entities d e \<Longrightarrow> item_count d \<le> item_count e"
  unfolding sub_entities_def item_count_def
  by (auto dest!: list_emb_length intro!: add_mono)

end
