(* ===== verification/EventQueue.thy ===== *)
theory EventQueue
  imports GraphTypes Prelude
begin

text \<open>
  The SQLite queue of \<open>agent/queue/sqlite_queue.py\<close> (tables in \<open>agent/schema/queue_schema.py\<close>):
  the queue of raw events, the forwarding queue and the store of findings.  A table is the
  list of its rows in rowid order with the counter of \<open>AUTOINCREMENT\<close>; each operation is one
  transaction, and the clock of SQLite is the argument \<open>now\<close>.  The columns that the code
  fills with \<open>json.dumps\<close> of its own values hold those values; the texts that other code
  pushes are parsed by the parameter \<open>loads\<close>, which stands for \<open>json.loads\<close> (\<open>None\<close> when it
  raises).  The locale \<open>work_queue\<close> is the contract both queues offer to the threads that
  drain them: the abstract queue is the list of its pending items.
\<close>

section \<open>Tables\<close>

record event_row =
  eq_id :: int
  eq_raw :: string
  eq_created :: datetime
  eq_processed :: bool

record fwd_row =
  fw_id :: int
  fw_type :: string
  fw_payload :: string
  fw_created :: datetime
  fw_retry :: int
  fw_last_retry :: "datetime option"
  fw_status :: string

record queue_db =
  q_events :: "event_row list"
  q_event_seq :: int
  q_findings :: "security_finding list"
  q_fwd :: "fwd_row list"
  q_fwd_seq :: int

definition init_queue_db :: queue_db where
  "init_queue_db = \<lparr>q_events = [], q_event_seq = 0, q_findings = [], q_fwd = [], q_fwd_seq = 0\<rparr>"

text \<open>\<open>LIMIT ?\<close>: a negative limit means no limit.\<close>

definition sql_limit :: "int \<Rightarrow> 'a list \<Rightarrow> 'a list" where
  "sql_limit n xs = (if n < 0 then xs else take (nat n) xs)"

section \<open>Raw events\<close>

definition push :: "datetime \<Rightarrow> string \<Rightarrow> queue_db \<Rightarrow> int \<times> queue_db" where
  "push now raw q =
     (let i = q_event_seq q + 1;
          r = \<lparr>eq_id = i, eq_raw = raw, eq_created = now, eq_processed = False\<rparr>
      in (i, q\<lparr>q_events := q_events q @ [r], q_event_seq := i\<rparr>))"

fun push_many :: "datetime \<Rightarrow> string list \<Rightarrow> queue_db \<Rightarrow> queue_db" where
  "push_many now [] q = q"
| "push_many now (e # es) q = push_many now es (snd (push now e q))"

text \<open>\<open>SELECT id, raw_json \<dots> WHERE processed = 0 ORDER BY id ASC LIMIT ?\<close>.\<close>

definition pending_rows :: "int \<Rightarrow> queue_db \<Rightarrow> (int \<times> string) list" where
  "pending_rows n q =
     sql_limit n (map (\<lambda>r. (eq_id r, eq_raw r)) (sort_key eq_id (filter (\<lambda>r. \<not> eq_processed r) (q_events q))))"

text \<open>\<open>[(row["id"], json.loads(row["raw_json"])) for row in rows]\<close>: one bad row makes the
  whole call raise.\<close>

fun parse_rows :: "(string \<Rightarrow> 'j option) \<Rightarrow> (int \<times> string) list \<Rightarrow> (int \<times> 'j) list res" where
  "parse_rows loads [] = Inr []"
| "parse_rows loads ((i, raw) # rs) = (case loads raw of
     None \<Rightarrow> Inl (ValueError ''JSONDecodeError'')
   | Some j \<Rightarrow> bindR (parse_rows loads rs) (\<lambda>ps. Inr ((i, j) # ps)))"

definition pop_batch :: "(string \<Rightarrow> 'j option) \<Rightarrow> int \<Rightarrow> queue_db \<Rightarrow> (int \<times> 'j) list res" where
  "pop_batch loads n q = parse_rows loads (pending_rows n q)"

definition mark_processed :: "int list \<Rightarrow> queue_db \<Rightarrow> queue_db" where
  "mark_processed ids q =
     (if ids = [] then q
      else q\<lparr>q_events := map (\<lambda>r. if eq_id r \<in> set ids then r\<lparr>eq_processed := True\<rparr> else r) (q_events q)\<rparr>)"

definition recent_rows :: "int \<Rightarrow> queue_db \<Rightarrow> event_row list" where
  "recent_rows n q = sql_limit n (sort_key (\<lambda>r. - eq_id r) (q_events q))"

fun parse_recent :: "(string \<Rightarrow> 'j option) \<Rightarrow> event_row list \<Rightarrow> ('j \<times> int \<times> datetime \<times> bool) list res" where
  "parse_recent loads [] = Inr []"
| "parse_recent loads (r # rs) = (case loads (eq_raw r) of
     None \<Rightarrow> Inl (ValueError ''JSONDecodeError'')
   | Some j \<Rightarrow> bindR (parse_recent loads rs) (\<lambda>ps. Inr ((j, eq_id r, eq_created r, eq_processed r) # ps)))"

definition get_recent_events ::
    "(string \<Rightarrow> 'j option) \<Rightarrow> int \<Rightarrow> queue_db \<Rightarrow> ('j \<times> int \<times> datetime \<times> bool) list res" where
  "get_recent_events loads n q = parse_recent loads (recent_rows n q)"

definition max_processed_id :: "queue_db \<Rightarrow> int" where
  "max_processed_id q = (case map eq_id (filter eq_processed (q_events q)) of
     [] \<Rightarrow> 0 | i # is \<Rightarrow> foldl max i is)"

definition get_processed_since ::
    "(string \<Rightarrow> 'j option) \<Rightarrow> int \<Rightarrow> int \<Rightarrow> queue_db \<Rightarrow> (int \<times> 'j) list res" where
  "get_processed_since loads since n q = parse_rows loads
     (sql_limit n (map (\<lambda>r. (eq_id r, eq_raw r))
       (sort_key eq_id (filter (\<lambda>r. eq_processed r \<and> since < eq_id r) (q_events q)))))"

definition count_unprocessed :: "queue_db \<Rightarrow> nat" where
  "count_unprocessed q = length (filter (\<lambda>r. \<not> eq_processed r) (q_events q))"

text \<open>Times are counted in microseconds.\<close>

definition prune_old_events :: "datetime \<Rightarrow> int \<Rightarrow> queue_db \<Rightarrow> nat \<times> queue_db" where
  "prune_old_events now hours q =
     (let kept = filter (\<lambda>r. \<not> (eq_processed r \<and> eq_created r < now - hours * 3600000000)) (q_events q)
      in (length (q_events q) - length kept, q\<lparr>q_events := kept\<rparr>))"

section \<open>The forwarding queue\<close>

definition push_forwarding :: "datetime \<Rightarrow> string \<Rightarrow> string \<Rightarrow> queue_db \<Rightarrow> int \<times> queue_db" where
  "push_forwarding now ty payload q =
     (let i = q_fwd_seq q + 1;
          r = \<lparr>fw_id = i, fw_type = ty, fw_payload = payload, fw_created = now, fw_retry = 0,
               fw_last_retry = None, fw_status = ''pending''\<rparr>
      in (i, q\<lparr>q_fwd := q_fwd q @ [r], q_fwd_seq := i\<rparr>))"

definition pop_forwarding_batch :: "int \<Rightarrow> queue_db \<Rightarrow> (int \<times> string \<times> string) list" where
  "pop_forwarding_batch n q =
     sql_limit n (map (\<lambda>r. (fw_id r, fw_type r, fw_payload r))
       (sort_key fw_id (filter (\<lambda>r. fw_status r = ''pending'') (q_fwd q))))"

definition mark_forwarded :: "int list \<Rightarrow> queue_db \<Rightarrow> queue_db" where
  "mark_forwarded ids q =
     (if ids = [] then q else q\<lparr>q_fwd := filter (\<lambda>r. fw_id r \<notin> set ids) (q_fwd q)\<rparr>)"

definition mark_forward_failed :: "datetime \<Rightarrow> int list \<Rightarrow> int \<Rightarrow> queue_db \<Rightarrow> queue_db" where
  "mark_forward_failed now ids max_retries q =
     (if ids = [] then q
      else let rows = map (\<lambda>r. if fw_id r \<in> set ids
             then r\<lparr>fw_retry := fw_retry r + 1, fw_last_retry := Some now\<rparr> else r) (q_fwd q)
        in q\<lparr>q_fwd := filter (\<lambda>r. \<not> (fw_retry r > max_retries \<and> fw_id r \<in> set ids)) rows\<rparr>)"

definition forwarding_queue_depth :: "queue_db \<Rightarrow> nat" where
  "forwarding_queue_depth q = length (filter (\<lambda>r. fw_status r = ''pending'') (q_fwd q))"

section \<open>Findings\<close>

text \<open>\<open>INSERT OR REPLACE\<close>: a row with the same primary key goes, the new one gets a new
  rowid.  The table has no columns for the trigger of a finding: what is read back has the
  defaults there.\<close>

definition finding_row :: "security_finding \<Rightarrow> security_finding" where
  "finding_row f = f\<lparr>sf_trigger_pid := None, sf_trigger_timestamp := None\<rparr>"

definition store_finding :: "security_finding \<Rightarrow> queue_db \<Rightarrow> queue_db" where
  "store_finding f q =
     q\<lparr>q_findings := filter (\<lambda>g. sf_id g \<noteq> sf_id f) (q_findings q) @ [finding_row f]\<rparr>"

definition newest_first :: "security_finding list \<Rightarrow> security_finding list" where
  "newest_first fs = sort_key (\<lambda>f. - sf_timestamp f) fs"

definition get_findings :: "int \<Rightarrow> string option \<Rightarrow> queue_db \<Rightarrow> security_finding list" where
  "get_findings limit sev q =
     (case sev of
        Some s \<Rightarrow> if s \<noteq> [] then sql_limit limit (newest_first (filter (\<lambda>f. sf_severity f = s) (q_findings q)))
                  else sql_limit limit (newest_first (q_findings q))
      | None \<Rightarrow> sql_limit limit (newest_first (q_findings q)))"

definition get_finding_by_id :: "string \<Rightarrow> queue_db \<Rightarrow> security_finding option" where
  "get_finding_by_id i q = find (\<lambda>f. sf_id f = i) (q_findings q)"

definition get_findings_in_range :: "datetime \<Rightarrow> datetime \<Rightarrow> queue_db \<Rightarrow> security_finding list" where
  "get_findings_in_range a b q =
     newest_first (filter (\<lambda>f. a \<le> sf_timestamp f \<and> sf_timestamp f \<le> b) (q_findings q))"

definition get_findings_for_pids :: "int list \<Rightarrow> queue_db \<Rightarrow> security_finding list" where
  "get_findings_for_pids pids q =
     (if pids = [] then []
      else filter (\<lambda>f. set pids \<inter> set (sf_affected_pids f) \<noteq> {})
        (take 100 (newest_first (filter (\<lambda>f. sf_affected_pids f \<noteq> []) (q_findings q)))))"

fun severity_order :: "string \<Rightarrow> int" where
  "severity_order s =
     (if s = ''info'' then 0 else if s = ''low'' then 1 else if s = ''medium'' then 2
      else if s = ''high'' then 3 else if s = ''critical'' then 4 else 0)"

definition merge_finding ::
    "int list option \<Rightarrow> string option \<Rightarrow> string option \<Rightarrow> security_finding \<Rightarrow> security_finding" where
  "merge_finding ids descr sev f =
     f\<lparr>sf_evidence_event_ids := (case ids of
          Some is \<Rightarrow> if is \<noteq> [] then dedup (sf_evidence_event_ids f @ is) else sf_evidence_event_ids f
        | None \<Rightarrow> sf_evidence_event_ids f),
       sf_description := (case descr of Some d \<Rightarrow> if d \<noteq> [] then d else sf_description f
        | None \<Rightarrow> sf_description f),
       sf_severity := (case sev of
          Some s \<Rightarrow> if s \<noteq> [] \<and> severity_order s > severity_order (sf_severity f) then s else sf_severity f
        | None \<Rightarrow> sf_severity f)\<rparr>"

definition update_finding ::
    "string \<Rightarrow> int list option \<Rightarrow> string option \<Rightarrow> string option \<Rightarrow> queue_db \<Rightarrow> bool \<times> queue_db" where
  "update_finding i ids descr sev q = (case get_finding_by_id i q of
     None \<Rightarrow> (False, q)
   | Some f \<Rightarrow> (True, q\<lparr>q_findings :=
       map (\<lambda>g. if sf_id g = i then merge_finding ids descr sev f else g) (q_findings q)\<rparr>))"

section \<open>The contract of a queue that is drained in batches\<close>

text \<open>Rounds of the loop that takes a batch and acknowledges it: what was taken, and the state
  in the end.\<close>

fun drain_with ::
    "(int \<Rightarrow> 's \<Rightarrow> (int \<times> 'a) list) \<Rightarrow> (int list \<Rightarrow> 's \<Rightarrow> 's) \<Rightarrow> int \<Rightarrow> nat \<Rightarrow> 's \<Rightarrow> (int \<times> 'a) list \<times> 's" where
  "drain_with take_batch ack n 0 s = ([], s)"
| "drain_with take_batch ack n (Suc k) s =
     (let b = take_batch n s; (bs, s') = drain_with take_batch ack n k (ack (map fst b) s)
      in (b @ bs, s'))"

locale work_queue =
  fixes inv :: "'s \<Rightarrow> bool"
    and pending :: "'s \<Rightarrow> (int \<times> 'a) list"
    and put :: "'a \<Rightarrow> 's \<Rightarrow> int \<times> 's"
    and take_batch :: "int \<Rightarrow> 's \<Rightarrow> (int \<times> 'a) list"
    and ack :: "int list \<Rightarrow> 's \<Rightarrow> 's"
  assumes inv_put: "inv s \<Longrightarrow> put x s = (i, s') \<Longrightarrow> inv s'"
    and inv_ack: "inv s \<Longrightarrow> inv (ack ids s)"
    and pending_put: "inv s \<Longrightarrow> put x s = (i, s') \<Longrightarrow> pending s' = pending s @ [(i, x)]"
    and pending_ack: "inv s \<Longrightarrow> pending (ack ids s) = filter (\<lambda>p. fst p \<notin> set ids) (pending s)"
    and pending_ids: "inv s \<Longrightarrow> sorted_wrt (<) (map fst (pending s))"
    and batch: "inv s \<Longrightarrow> 0 \<le> n \<Longrightarrow> take_batch n s = take (nat n) (pending s)"
begin

lemma distinct_ids: "inv s \<Longrightarrow> distinct (map fst (pending s))"
  using pending_ids strict_sorted_iff by blast

lemma ack_batch:
  assumes "inv s" "0 \<le> n"
  shows "pending (ack (map fst (take_batch n s)) s) = drop (nat n) (pending s)"
proof -
  let ?ps = "pending s"
  have "filter (\<lambda>p. fst p \<notin> set (map fst (take m ps))) ps = drop m ps"
    if "distinct (map fst ps)" for m and ps :: "(int \<times> 'a) list"
  proof -
    have "set (map fst (take m ps)) \<inter> set (map fst (drop m ps)) = {}"
      using that by (metis append_take_drop_id distinct_append map_append)
    then have "filter (\<lambda>p. fst p \<notin> set (map fst (take m ps))) (drop m ps) = drop m ps"
      by (intro filter_True) auto
    moreover have "filter (\<lambda>p. fst p \<notin> set (map fst (take m ps))) (take m ps) = []"
      by (intro filter_False) auto
    ultimately show ?thesis by (metis append_take_drop_id append_Nil filter_append)
  qed
  from this [OF distinct_ids [OF assms(1)]] show ?thesis
    by (simp add: pending_ack [OF assms(1)] batch [OF assms])
qed

lemma drain_takes:
  "inv s \<Longrightarrow> 0 \<le> n \<Longrightarrow> drain_with take_batch ack n k s = (bs, s') \<Longrightarrow>
     bs = take (k * nat n) (pending s) \<and> pending s' = drop (k * nat n) (pending s) \<and> inv s'"
proof (induction k arbitrary: s bs)
  case (Suc k)
  obtain bs1 where d: "drain_with take_batch ack n k (ack (map fst (take_batch n s)) s) = (bs1, s')"
    and bs: "bs = take_batch n s @ bs1"
    using Suc.prems(3) by (auto simp: Let_def split: prod.splits)
  from Suc.IH [OF inv_ack [OF Suc.prems(1)] Suc.prems(2) d] ack_batch [OF Suc.prems(1,2)]
  show ?case by (simp add: bs batch [OF Suc.prems(1,2)] take_add [symmetric] add.commute)
qed simp

text \<open>With a positive batch size the queue is emptied, in order, every item exactly once.\<close>

lemma drain_all:
  assumes "inv s" "0 < n" "length (pending s) \<le> k" "drain_with take_batch ack n k s = (bs, s')"
  shows "bs = pending s \<and> pending s' = []"
proof -
  have "length (pending s) \<le> k * nat n"
    using assms(2,3) by (metis le_trans mult.right_neutral mult_le_mono2 nat_0_less_mult_iff Suc_leI One_nat_def zero_less_nat_eq)
  with drain_takes [OF assms(1) _ assms(4)] assms(2) show ?thesis by simp
qed

end

section \<open>Both queues keep the contract\<close>

definition events_inv :: "queue_db \<Rightarrow> bool" where
  "events_inv q \<longleftrightarrow> sorted_wrt (<) (map eq_id (q_events q)) \<and> (\<forall>r \<in> set (q_events q). eq_id r \<le> q_event_seq q)"

definition pending_events :: "queue_db \<Rightarrow> (int \<times> string) list" where
  "pending_events q = map (\<lambda>r. (eq_id r, eq_raw r)) (filter (\<lambda>r. \<not> eq_processed r) (q_events q))"

definition fwd_inv :: "queue_db \<Rightarrow> bool" where
  "fwd_inv q \<longleftrightarrow> sorted_wrt (<) (map fw_id (q_fwd q)) \<and> (\<forall>r \<in> set (q_fwd q). fw_id r \<le> q_fwd_seq q)
     \<and> (\<forall>r \<in> set (q_fwd q). fw_status r = ''pending'')"

definition pending_fwd :: "queue_db \<Rightarrow> (int \<times> string \<times> string) list" where
  "pending_fwd q = map (\<lambda>r. (fw_id r, fw_type r, fw_payload r)) (q_fwd q)"

lemma sorted_wrt_map_filter:
  "sorted_wrt (<) (map f xs) \<Longrightarrow> sorted_wrt (<) (map f (filter P xs))" for f :: "'a \<Rightarrow> int"
  by (induction xs) auto

lemma sort_key_sorted: "sorted_wrt (<) (map f xs) \<Longrightarrow> sort_key f xs = xs" for f :: "'a \<Rightarrow> int"
  by (simp add: sort_key_id_if_sorted strict_sorted_imp_sorted)

lemma pending_rows_eq:
  "events_inv q \<Longrightarrow> pending_rows n q = sql_limit n (pending_events q)"
  by (simp add: events_inv_def pending_rows_def pending_events_def sort_key_sorted sorted_wrt_map_filter)

lemma mark_events [simp]:
  "q_events (mark_processed ids q) = map (\<lambda>r. if eq_id r \<in> set ids then r\<lparr>eq_processed := True\<rparr> else r) (q_events q)"
  "q_event_seq (mark_processed ids q) = q_event_seq q"
  by (simp_all add: mark_processed_def)

lemma mark_ids [simp]:
  "map (\<lambda>r. eq_id (if eq_id r \<in> A then r\<lparr>eq_processed := True\<rparr> else r)) rs = map eq_id rs"
  by (induction rs) auto

lemma pending_mark:
  "pending_events (mark_processed ids q) = filter (\<lambda>p. fst p \<notin> set ids) (pending_events q)"
proof -
  let ?m = "\<lambda>r. if eq_id r \<in> set ids then r\<lparr>eq_processed := True\<rparr> else r"
  have "map (\<lambda>r. (eq_id r, eq_raw r)) (filter (\<lambda>r. \<not> eq_processed r) (map ?m rs))
      = filter (\<lambda>p. fst p \<notin> set ids) (map (\<lambda>r. (eq_id r, eq_raw r)) (filter (\<lambda>r. \<not> eq_processed r) rs))"
    for rs by (induction rs) auto
  then show ?thesis by (simp add: pending_events_def)
qed

interpretation eventq: work_queue events_inv pending_events "push now" pending_rows mark_processed for now
proof unfold_locales
  fix s s' :: queue_db and x i and ids :: "int list" and n :: int
  assume inv: "events_inv s"
  show "events_inv (mark_processed ids s)" using inv by (auto simp: events_inv_def o_def)
  show "pending_events (mark_processed ids s) = filter (\<lambda>p. fst p \<notin> set ids) (pending_events s)"
    by (rule pending_mark)
  show "sorted_wrt (<) (map fst (pending_events s))"
    using inv by (simp add: events_inv_def pending_events_def o_def sorted_wrt_map_filter)
  show "pending_rows n s = take (nat n) (pending_events s)" if "0 \<le> n"
    using inv that by (simp add: pending_rows_eq sql_limit_def)
  assume p: "push now x s = (i, s')"
  show "events_inv s'" using inv p by (fastforce simp: push_def Let_def events_inv_def sorted_wrt_append)
  show "pending_events s' = pending_events s @ [(i, x)]"
    using p by (auto simp: push_def Let_def pending_events_def)
qed

lemma pop_forwarding_eq: "fwd_inv q \<Longrightarrow> pop_forwarding_batch n q = sql_limit n (pending_fwd q)"
proof -
  assume inv: "fwd_inv q"
  then have "filter (\<lambda>r. fw_status r = ''pending'') (q_fwd q) = q_fwd q"
    by (intro filter_True) (simp add: fwd_inv_def)
  with inv show ?thesis
    by (simp add: fwd_inv_def pop_forwarding_batch_def pending_fwd_def sort_key_sorted)
qed

interpretation fwdq: work_queue fwd_inv pending_fwd "\<lambda>(ty, payload). push_forwarding now ty payload"
    pop_forwarding_batch mark_forwarded for now
proof unfold_locales
  fix s s' :: queue_db and x i and ids :: "int list" and n :: int
  assume inv: "fwd_inv s"
  show "fwd_inv (mark_forwarded ids s)"
    using inv by (auto simp: fwd_inv_def mark_forwarded_def sorted_wrt_map_filter)
  show "pending_fwd (mark_forwarded ids s) = filter (\<lambda>p. fst p \<notin> set ids) (pending_fwd s)"
    by (auto simp: pending_fwd_def mark_forwarded_def filter_map o_def)
  show "sorted_wrt (<) (map fst (pending_fwd s))"
    using inv by (simp add: fwd_inv_def pending_fwd_def o_def)
  show "pop_forwarding_batch n s = take (nat n) (pending_fwd s)" if "0 \<le> n"
    using inv that by (simp add: pop_forwarding_eq sql_limit_def)
  assume p: "(case x of (ty, payload) \<Rightarrow> push_forwarding now ty payload) s = (i, s')"
  show "fwd_inv s'"
    using inv p by (fastforce simp: push_forwarding_def Let_def fwd_inv_def sorted_wrt_append split: prod.splits)
  show "pending_fwd s' = pending_fwd s @ [(i, x)]"
    using p by (auto simp: push_forwarding_def Let_def pending_fwd_def split: prod.splits)
qed

section \<open>Threads around the event queue\<close>

text \<open>Collectors push at any moment; the processor takes a batch, works on it, and marks it in
  the end.  A crash of the processor forgets the batch in flight.  The ids handed to the
  processor are recorded in the order of delivery.\<close>

record worker =
  wk_db :: queue_db
  wk_inflight :: "int list option"
  wk_delivered :: "int list"

definition new_worker :: worker where
  "new_worker = \<lparr>wk_db = init_queue_db, wk_inflight = None, wk_delivered = []\<rparr>"

inductive wstep :: "(string \<Rightarrow> 'j option) \<Rightarrow> bool \<Rightarrow> worker \<Rightarrow> worker \<Rightarrow> bool"
  for loads crashes where
  w_push: "wstep loads crashes w (w\<lparr>wk_db := push_many now es (wk_db w)\<rparr>)"
| w_pop: "wk_inflight w = None \<Longrightarrow> pop_batch loads n (wk_db w) = Inr b \<Longrightarrow>
    wstep loads crashes w (w\<lparr>wk_inflight := Some (map fst b), wk_delivered := wk_delivered w @ map fst b\<rparr>)"
| w_mark: "wk_inflight w = Some ids \<Longrightarrow>
    wstep loads crashes w (w\<lparr>wk_db := mark_processed ids (wk_db w), wk_inflight := None\<rparr>)"
| w_prune: "wstep loads crashes w (w\<lparr>wk_db := snd (prune_old_events now hours (wk_db w))\<rparr>)"
| w_crash: "crashes \<Longrightarrow> wstep loads crashes w (w\<lparr>wk_inflight := None\<rparr>)"

inductive_cases wstep_cases [elim]: "wstep loads crashes w w'"

inductive wreach :: "(string \<Rightarrow> 'j option) \<Rightarrow> bool \<Rightarrow> worker \<Rightarrow> bool" for loads crashes where
  wreach_new: "wreach loads crashes new_worker"
| wreach_step: "wreach loads crashes w \<Longrightarrow> wstep loads crashes w w' \<Longrightarrow> wreach loads crashes w'"

definition inflight :: "worker \<Rightarrow> int list" where
  "inflight w = (case wk_inflight w of None \<Rightarrow> [] | Some ids \<Rightarrow> ids)"

text \<open>Whatever happens: an event is marked only after it was delivered.\<close>

definition at_least_once :: "worker \<Rightarrow> bool" where
  "at_least_once w \<longleftrightarrow> events_inv (wk_db w)
     \<and> (\<forall>r \<in> set (q_events (wk_db w)). eq_processed r \<longrightarrow> eq_id r \<in> set (wk_delivered w))
     \<and> set (inflight w) \<subseteq> set (wk_delivered w) \<and> (\<forall>i \<in> set (wk_delivered w). i \<le> q_event_seq (wk_db w))"

text \<open>Without crashes: what is not marked and not in flight was not delivered yet, and comes after
  everything that was.\<close>

definition in_order :: "worker \<Rightarrow> bool" where
  "in_order w \<longleftrightarrow> sorted_wrt (<) (wk_delivered w)
     \<and> (\<forall>r \<in> set (q_events (wk_db w)). \<not> eq_processed r \<longrightarrow> eq_id r \<notin> set (inflight w)
           \<longrightarrow> (\<forall>i \<in> set (wk_delivered w). i < eq_id r))"

lemma parse_rows_ids: "parse_rows loads rs = Inr b \<Longrightarrow> map fst b = map fst rs"
  by (induction rs arbitrary: b) (auto simp: res_simps split: option.splits)

lemma push_many_rows:
  "\<exists>rs. q_events (push_many now es q) = q_events q @ rs
     \<and> (\<forall>r \<in> set rs. \<not> eq_processed r \<and> q_event_seq q < eq_id r \<and> eq_id r \<le> q_event_seq (push_many now es q))
     \<and> sorted_wrt (<) (map eq_id rs) \<and> q_event_seq q \<le> q_event_seq (push_many now es q)"
proof (induction es arbitrary: q)
  case (Cons e es)
  let ?q = "snd (push now e q)"
  from Cons [of ?q] obtain rs where rs: "q_events (push_many now es ?q) = q_events ?q @ rs"
    "\<forall>r \<in> set rs. \<not> eq_processed r \<and> q_event_seq ?q < eq_id r \<and> eq_id r \<le> q_event_seq (push_many now es ?q)"
    "sorted_wrt (<) (map eq_id rs)" "q_event_seq ?q \<le> q_event_seq (push_many now es ?q)" by blast
  have q: "q_events ?q = q_events q @ [\<lparr>eq_id = q_event_seq q + 1, eq_raw = e, eq_created = now, eq_processed = False\<rparr>]"
    "q_event_seq ?q = q_event_seq q + 1"
    by (simp_all add: push_def Let_def)
  show ?case
    by (rule exI [of _ "\<lparr>eq_id = q_event_seq q + 1, eq_raw = e, eq_created = now, eq_processed = False\<rparr> # rs"])
      (use rs q in auto)
qed simp

lemma events_inv_push_many: "events_inv q \<Longrightarrow> events_inv (push_many now es q)"
  using push_many_rows [of now es q] by (fastforce simp: events_inv_def sorted_wrt_append)

lemma prune_rows:
  "set (q_events (snd (prune_old_events now h q))) \<subseteq> set (q_events q)"
  "q_event_seq (snd (prune_old_events now h q)) = q_event_seq q"
  "events_inv q \<Longrightarrow> events_inv (snd (prune_old_events now h q))"
  "pending_events (snd (prune_old_events now h q)) = pending_events q"
  by (auto simp: prune_old_events_def Let_def events_inv_def sorted_wrt_map_filter pending_events_def
      intro!: arg_cong [where f = "map (\<lambda>r. (eq_id r, eq_raw r))"] filter_cong)

lemma popped_ids:
  assumes "events_inv q" "pop_batch loads n q = Inr b"
  shows "\<exists>m. map fst b = take m (map fst (pending_events q))"
proof -
  have "map fst b = map fst (pending_rows n q)" using assms(2) parse_rows_ids by (auto simp: pop_batch_def)
  then show ?thesis
    by (cases "n < 0") (auto simp: pending_rows_eq [OF assms(1)] sql_limit_def take_map intro: exI [of _ "length (pending_events q)"])
qed

lemma pending_ids_rows:
  "i \<in> set (map fst (pending_events q)) \<longleftrightarrow> (\<exists>r \<in> set (q_events q). \<not> eq_processed r \<and> eq_id r = i)"
  by (auto simp: pending_events_def)

lemma at_least_once_step:
  assumes "wstep loads c w w'" "at_least_once w"
  shows "at_least_once w'"
  using assms(1)
proof cases
  case (w_push now es)
  with assms(2) push_many_rows [of now es "wk_db w"] show ?thesis
    by (fastforce simp: at_least_once_def inflight_def events_inv_push_many)
next
  case (w_pop n b)
  have inv: "events_inv (wk_db w)" using assms(2) by (simp add: at_least_once_def)
  from popped_ids [OF inv w_pop(3)] obtain m where "map fst b = take m (map fst (pending_events (wk_db w)))" ..
  then have "set (map fst b) \<subseteq> set (map fst (pending_events (wk_db w)))" by (metis set_take_subset)
  then have "\<forall>i \<in> set (map fst b). \<exists>r \<in> set (q_events (wk_db w)). eq_id r = i"
    using pending_ids_rows by blast
  with assms(2) w_pop(1) show ?thesis
    by (fastforce simp: at_least_once_def inflight_def events_inv_def)
next
  case (w_mark ids)
  with assms(2) show ?thesis
    by (auto simp: at_least_once_def inflight_def eventq.inv_ack split: if_splits)
next
  case (w_prune now h)
  have db: "wk_db w' = snd (prune_old_events now h (wk_db w))" "inflight w' = inflight w"
    "wk_delivered w' = wk_delivered w"
    using w_prune by (simp_all add: inflight_def)
  have inv: "events_inv (wk_db w)" using assms(2) by (simp add: at_least_once_def)
  show ?thesis
    using assms(2) prune_rows(1) [of now h "wk_db w"] prune_rows(3) [OF inv]
    unfolding at_least_once_def db prune_rows(2) by blast
next
  case w_crash
  with assms(2) show ?thesis by (simp add: at_least_once_def inflight_def)
qed

lemma at_least_once_new: "at_least_once new_worker"
  by (simp add: at_least_once_def new_worker_def init_queue_db_def inflight_def events_inv_def)

lemma reach_at_least_once: "wreach loads c w \<Longrightarrow> at_least_once w"
  by (induction rule: wreach.induct) (fact at_least_once_new, blast intro: at_least_once_step)

lemma in_order_pop:
  assumes inv: "events_inv q" and old: "\<forall>r \<in> set (q_events q). \<not> eq_processed r \<longrightarrow> (\<forall>i \<in> set ds. i < eq_id r)"
    and ds: "sorted_wrt (<) ds" and b: "map fst b = take m (map fst (pending_events q))"
  shows "sorted_wrt (<) (ds @ map fst b)
    \<and> (\<forall>r \<in> set (q_events q). \<not> eq_processed r \<longrightarrow> eq_id r \<notin> set (map fst b)
         \<longrightarrow> (\<forall>i \<in> set (ds @ map fst b). i < eq_id r))"
proof -
  let ?ps = "map fst (pending_events q)"
  have s: "sorted_wrt (<) ?ps" by (rule eventq.pending_ids [OF inv])
  then have "sorted_wrt (<) (take m ?ps @ drop m ?ps)" by simp
  then have split: "sorted_wrt (<) (take m ?ps)" "\<forall>i \<in> set (take m ?ps). \<forall>j \<in> set (drop m ?ps). i < j"
    unfolding sorted_wrt_append by auto
  have new: "\<forall>i \<in> set ?ps. \<forall>d \<in> set ds. d < i" using old by (auto simp: pending_events_def)
  have "sorted_wrt (<) (ds @ map fst b)"
    using ds split(1) new set_take_subset [of m ?ps] unfolding b sorted_wrt_append by blast
  moreover have "i < eq_id r"
    if "r \<in> set (q_events q)" "\<not> eq_processed r" "eq_id r \<notin> set (map fst b)" "i \<in> set (ds @ map fst b)" for r i
  proof -
    have "eq_id r \<in> set ?ps" using that(1,2) pending_ids_rows by blast
    then have "eq_id r \<in> set (drop m ?ps)"
      using that(3) b by (metis Un_iff append_take_drop_id set_append)
    with split(2) that(4) old that(1,2) show ?thesis unfolding b by auto
  qed
  ultimately show ?thesis by blast
qed

lemma in_order_step:
  assumes "wstep loads False w w'" "at_least_once w" "in_order w"
  shows "in_order w'"
  using assms(1)
proof cases
  case (w_push now es)
  from push_many_rows [of now es "wk_db w"] obtain rs where
    "q_events (push_many now es (wk_db w)) = q_events (wk_db w) @ rs"
    "\<forall>r \<in> set rs. q_event_seq (wk_db w) < eq_id r" by blast
  with w_push assms(2,3) show ?thesis
    by (fastforce simp: at_least_once_def in_order_def inflight_def)
next
  case (w_pop n b)
  have inv: "events_inv (wk_db w)" using assms(2) by (simp add: at_least_once_def)
  from popped_ids [OF inv w_pop(3)] obtain m where b: "map fst b = take m (map fst (pending_events (wk_db w)))" ..
  have old: "\<forall>r \<in> set (q_events (wk_db w)). \<not> eq_processed r \<longrightarrow> (\<forall>i \<in> set (wk_delivered w). i < eq_id r)"
    using assms(3) w_pop(2) by (simp add: in_order_def inflight_def)
  have ds: "sorted_wrt (<) (wk_delivered w)" using assms(3) by (simp add: in_order_def)
  from in_order_pop [OF inv old ds b] show ?thesis
    unfolding in_order_def w_pop(1) by (simp add: inflight_def)
next
  case (w_mark ids)
  with assms(3) show ?thesis by (auto simp: in_order_def inflight_def split: if_splits)
next
  case (w_prune now h)
  have db: "wk_db w' = snd (prune_old_events now h (wk_db w))" "inflight w' = inflight w"
    "wk_delivered w' = wk_delivered w"
    using w_prune by (simp_all add: inflight_def)
  show ?thesis
    using assms(3) prune_rows(1) [of now h "wk_db w"] unfolding in_order_def db by blast
next
  case w_crash
  then show ?thesis by simp
qed

lemma reach_in_order: "wreach loads False w \<Longrightarrow> in_order w"
proof (induction rule: wreach.induct)
  case wreach_new
  show ?case by (simp add: in_order_def new_worker_def init_queue_db_def)
next
  case (wreach_step w w')
  with in_order_step reach_at_least_once show ?case by blast
qed

section \<open>The processor's rounds\<close>

text \<open>The loop of the processor thread as far as the queue sees it: take a batch, work, mark it;
  an exception of \<open>pop_batch\<close> ends the round without any change.\<close>

fun process_rounds ::
    "(string \<Rightarrow> 'j option) \<Rightarrow> int \<Rightarrow> nat \<Rightarrow> queue_db \<Rightarrow> (int \<times> 'j) list \<times> queue_db" where
  "process_rounds loads n 0 q = ([], q)"
| "process_rounds loads n (Suc k) q = (case pop_batch loads n q of
     Inl x \<Rightarrow> process_rounds loads n k q
   | Inr b \<Rightarrow> let (bs, q') = process_rounds loads n k (mark_processed (map fst b) q) in (b @ bs, q'))"

lemma parse_rows_total:
  "\<forall>(i, raw) \<in> set rs. loads raw \<noteq> None \<Longrightarrow>
     parse_rows loads rs = Inr (map (\<lambda>(i, raw). (i, the (loads raw))) rs)"
  by (induction rs) auto

lemma process_rounds_drain:
  "events_inv q \<Longrightarrow> 0 \<le> n \<Longrightarrow> \<forall>(i, raw) \<in> set (pending_events q). loads raw \<noteq> None \<Longrightarrow>
     drain_with pending_rows mark_processed n k q = (bs, q') \<Longrightarrow>
     process_rounds loads n k q = (map (\<lambda>(i, raw). (i, the (loads raw))) bs, q')"
proof (induction k arbitrary: q bs)
  case (Suc k)
  let ?b = "pending_rows n q" and ?j = "\<lambda>(i, raw). (i, the (loads raw))"
  have b: "?b = take (nat n) (pending_events q)" by (rule eventq.batch [OF Suc.prems(1,2)])
  have "\<forall>(i, raw) \<in> set ?b. loads raw \<noteq> None" using Suc.prems(3) b by (auto dest: in_set_takeD)
  then have p: "pop_batch loads n q = Inr (map ?j ?b)" by (simp add: pop_batch_def parse_rows_total)
  have fst: "map fst (map ?j ?b) = map fst ?b" by (simp add: case_prod_beta)
  obtain bs1 where d: "drain_with pending_rows mark_processed n k (mark_processed (map fst ?b) q) = (bs1, q')"
    and bs: "bs = ?b @ bs1"
    using Suc.prems(4) by (auto simp: Let_def split: prod.splits)
  have "set (pending_events (mark_processed (map fst ?b) q)) \<subseteq> set (pending_events q)"
    by (auto simp: pending_mark)
  then have parse: "\<forall>(i, raw) \<in> set (pending_events (mark_processed (map fst ?b) q)). loads raw \<noteq> None"
    using Suc.prems(3) by blast
  from Suc.IH [OF eventq.inv_ack [OF Suc.prems(1)] Suc.prems(2) parse d] bs fst show ?case
    by (simp add: p del: map_map)
qed simp

lemma parse_rows_bad: "(i, raw) \<in> set rs \<Longrightarrow> loads raw = None \<Longrightarrow> \<exists>x. parse_rows loads rs = Inl x"
  by (induction rs) (auto simp: res_simps split: option.splits)

section \<open>Retries\<close>

lemma failed_row:
  assumes "0 \<le> m" "r \<in> set (q_fwd q)" "fw_id r \<in> set ids" "distinct (map fw_id (q_fwd q))" "fw_retry r = int k" "int k \<le> m"
  shows "if int k < m then \<exists>r' \<in> set (q_fwd (mark_forward_failed now ids m q)). fw_id r' = fw_id r \<and> fw_retry r' = int (k + 1)
    else \<forall>r' \<in> set (q_fwd (mark_forward_failed now ids m q)). fw_id r' \<noteq> fw_id r"
  using assms by (auto simp: mark_forward_failed_def Let_def distinct_map inj_on_def image_iff)

lemma failed_ids: "fw_id ` set (q_fwd (mark_forward_failed now ids m q)) \<subseteq> fw_id ` set (q_fwd q)"
  by (auto simp: mark_forward_failed_def Let_def)

lemma failed_inv: "fwd_inv q \<Longrightarrow> fwd_inv (mark_forward_failed now ids m q)"
proof -
  assume inv: "fwd_inv q"
  let ?f = "\<lambda>r. if fw_id r \<in> set ids then r\<lparr>fw_retry := fw_retry r + 1, fw_last_retry := Some now\<rparr> else r"
  have ids: "map fw_id (map ?f (q_fwd q)) = map fw_id (q_fwd q)" by simp
  have "sorted_wrt (<) (map fw_id (map ?f (q_fwd q)))" unfolding ids using inv by (simp add: fwd_inv_def)
  from sorted_wrt_map_filter [OF this] inv show ?thesis
    by (auto simp: fwd_inv_def mark_forward_failed_def Let_def)
qed

lemma retries:
  assumes "fwd_inv q" "r \<in> set (q_fwd q)" "fw_retry r = 0" "fw_id r \<in> set ids" "0 \<le> m"
  shows "fwd_inv ((mark_forward_failed now ids m ^^ k) q)
    \<and> (if int k \<le> m then \<exists>r' \<in> set (q_fwd ((mark_forward_failed now ids m ^^ k) q)). fw_id r' = fw_id r \<and> fw_retry r' = int k
       else \<forall>r' \<in> set (q_fwd ((mark_forward_failed now ids m ^^ k) q)). fw_id r' \<noteq> fw_id r)"
proof (induction k)
  case 0
  show ?case using assms by auto
next
  case (Suc k)
  let ?q = "(mark_forward_failed now ids m ^^ k) q"
  have inv: "fwd_inv ?q" using Suc by blast
  then have dist: "distinct (map fw_id (q_fwd ?q))" by (simp add: fwd_inv_def strict_sorted_iff)
  show ?case
  proof (cases "int k \<le> m")
    case True
    with Suc obtain r1 where r1: "r1 \<in> set (q_fwd ?q)" "fw_id r1 = fw_id r" "fw_retry r1 = int k" by auto
    with failed_row [OF assms(5) r1(1) _ dist r1(3) True, of ids now] assms(4) failed_inv [OF inv]
    show ?thesis by (auto split: if_splits)
  next
    case False
    with Suc have "fw_id r \<notin> fw_id ` set (q_fwd ?q)" by auto
    with failed_ids [of now ids m ?q] have "fw_id r \<notin> fw_id ` set (q_fwd (mark_forward_failed now ids m ?q))" by blast
    then have "\<forall>r' \<in> set (q_fwd (mark_forward_failed now ids m ?q)). fw_id r' \<noteq> fw_id r" by (metis imageI)
    with False failed_inv [OF inv, of now ids m] show ?thesis by simp
  qed
qed

section \<open>Findings by id\<close>

lemma get_stored: "get_finding_by_id (sf_id f) (store_finding f q) = Some (finding_row f)"
proof -
  have "find (\<lambda>g. sf_id g = sf_id f) (filter (\<lambda>g. sf_id g \<noteq> sf_id f) gs @ [finding_row f]) = Some (finding_row f)"
    for gs by (induction gs) (auto simp: finding_row_def)
  then show ?thesis by (simp add: get_finding_by_id_def store_finding_def)
qed

lemma get_other: "i \<noteq> sf_id f \<Longrightarrow> get_finding_by_id i (store_finding f q) = get_finding_by_id i q"
proof -
  assume i: "i \<noteq> sf_id f"
  have "find (\<lambda>g. sf_id g = i) (filter (\<lambda>g. sf_id g \<noteq> sf_id f) gs @ [finding_row f]) = find (\<lambda>g. sf_id g = i) gs"
    for gs using i by (induction gs) (auto simp: finding_row_def)
  then show ?thesis by (simp add: get_finding_by_id_def store_finding_def)
qed

lemma find_replaced:
  "sf_id f' = i \<Longrightarrow> find (\<lambda>g. sf_id g = j) (map (\<lambda>g. if sf_id g = i then f' else g) gs)
     = (if j = i then (if find (\<lambda>g. sf_id g = i) gs = None then None else Some f') else find (\<lambda>g. sf_id g = j) gs)"
  by (induction gs) auto

lemma get_updated:
  "get_finding_by_id j (snd (update_finding i ids d sev q)) =
     (if j = i then map_option (merge_finding ids d sev) (get_finding_by_id i q) else get_finding_by_id j q)"
proof (cases "get_finding_by_id i q")
  case None
  then show ?thesis by (simp add: update_finding_def)
next
  case (Some f)
  then have "sf_id (merge_finding ids d sev f) = i"
    by (auto simp: get_finding_by_id_def find_Some_iff merge_finding_def)
  from find_replaced [OF this, of j] Some show ?thesis
    by (simp add: update_finding_def get_finding_by_id_def)
qed

lemma merge_monotone:
  "severity_order (sf_severity f) \<le> severity_order (sf_severity (merge_finding ids d sev f))
     \<and> set (sf_evidence_event_ids (merge_finding ids d sev f))
         = set (sf_evidence_event_ids f) \<union> (case ids of None \<Rightarrow> {} | Some is \<Rightarrow> set is)"
  by (auto simp: merge_finding_def simp del: severity_order.simps split: option.splits)

section \<open>Properties\<close>

text \<open>C15. The event queue is a first-in first-out queue: pushing appends, a batch is the oldest
  pending events, marking the batch drops exactly them, and pruning leaves the pending
  events alone.\<close>

theorem event_queue_is_fifo:
  assumes "events_inv q" "0 \<le> n"
  shows "pending_events (snd (push now raw q)) = pending_events q @ [(fst (push now raw q), raw)]
    \<and> pop_batch loads n q = parse_rows loads (take (nat n) (pending_events q))
    \<and> pending_events (mark_processed (map fst (take (nat n) (pending_events q))) q) = drop (nat n) (pending_events q)
    \<and> pending_events (snd (prune_old_events now hours q)) = pending_events q
    \<and> length (pending_events q) = count_unprocessed q"
  using eventq.pending_put [OF assms(1) prod.collapse [symmetric]] eventq.ack_batch [OF assms]
    eventq.batch [OF assms] prune_rows(4)
  by (simp add: pop_batch_def count_unprocessed_def pending_events_def)

theorem event_queue_is_fifo_witness:
  "pending_events (mark_processed [1] (push_many 5 [''a'', ''b''] init_queue_db)) = [(2, ''b'')]"
proof -
  let ?q = "push_many 5 [''a'', ''b''] init_queue_db"
  have inv: "events_inv ?q" by (rule events_inv_push_many) (simp add: events_inv_def init_queue_db_def)
  have p: "pending_events ?q = [(1, ''a''), (2, ''b'')]" by code_simp
  from event_queue_is_fifo [where loads = Some and n = 1 and now = 0 and raw = "[]" and hours = 0, OF inv] show ?thesis by (simp add: p del: push_many.simps)
qed

text \<open>With collectors pushing, pruning and the processor interleaved in any way, crashes
  included, an event is marked only after it was delivered; without crashes the events are
  delivered in the order of their ids, each at most once.\<close>

theorem events_delivered_in_order:
  assumes "wreach loads crashes w"
  shows "(\<forall>r \<in> set (q_events (wk_db w)). eq_processed r \<longrightarrow> eq_id r \<in> set (wk_delivered w))
    \<and> (\<not> crashes \<longrightarrow> sorted_wrt (<) (wk_delivered w)
         \<and> (\<forall>r \<in> set (q_events (wk_db w)). eq_id r \<in> set (wk_delivered w) \<longrightarrow> \<not> eq_processed r \<longrightarrow> eq_id r \<in> set (inflight w)))"
  using reach_at_least_once [OF assms] reach_in_order [of loads w] assms
  by (cases crashes) (auto simp: at_least_once_def in_order_def)

theorem events_delivered_in_order_witness:
  "sorted_wrt (<) (wk_delivered (new_worker\<lparr>wk_db := push_many 5 [''a''] init_queue_db\<rparr>))"
proof -
  have "wstep Some False new_worker (new_worker\<lparr>wk_db := push_many 5 [''a''] (wk_db new_worker)\<rparr>)"
    by (rule w_push)
  then have "wreach Some False (new_worker\<lparr>wk_db := push_many 5 [''a''] init_queue_db\<rparr>)"
    by (simp add: wreach_step [OF wreach_new] new_worker_def)
  from events_delivered_in_order [OF this] show ?thesis by blast
qed

text \<open>Every pending event is processed in the end: with a positive batch size, as many rounds
  as there are pending events deliver all of them, in order, and leave none pending.\<close>

theorem queue_drains:
  assumes "events_inv q" "0 < n" "\<forall>(i, raw) \<in> set (pending_events q). loads raw \<noteq> None"
  shows "\<exists>q'. process_rounds loads n (count_unprocessed q) q
      = (map (\<lambda>(i, raw). (i, the (loads raw))) (pending_events q), q') \<and> count_unprocessed q' = 0"
proof -
  have len: "length (pending_events q') = count_unprocessed q'" for q'
    by (simp add: pending_events_def count_unprocessed_def)
  obtain bs q' where d: "drain_with pending_rows mark_processed n (count_unprocessed q) q = (bs, q')" by fastforce
  from eventq.drain_all [OF assms(1,2) _ d] len have "bs = pending_events q" "pending_events q' = []" by auto
  with process_rounds_drain [OF assms(1) _ assms(3) d] assms(2) len [of q'] show ?thesis by simp
qed

theorem queue_drains_witness:
  "\<exists>q'. process_rounds Some 1 2 (push_many 5 [''a'', ''b''] init_queue_db) = ([(1, ''a''), (2, ''b'')], q')
     \<and> count_unprocessed q' = 0"
proof -
  let ?q = "push_many 5 [''a'', ''b''] init_queue_db"
  have inv: "events_inv ?q" by (rule events_inv_push_many) (simp add: events_inv_def init_queue_db_def)
  have p: "pending_events ?q = [(1, ''a''), (2, ''b'')]" "count_unprocessed ?q = 2" by code_simp+
  from queue_drains [OF inv, of 1 Some] show ?thesis by (simp add: p del: push_many.simps)
qed

text \<open>One stored text that does not parse stops the queue: while it is in the next batch, every
  round fails and changes nothing, whatever is pushed meanwhile.\<close>

theorem bad_row_blocks_queue:
  assumes "events_inv q" "0 \<le> n" "(i, raw) \<in> set (take (nat n) (pending_events q))" "loads raw = None"
  shows "process_rounds loads n k (push_many now es q) = ([], push_many now es q)"
proof -
  let ?q = "push_many now es q"
  from push_many_rows [of now es q] obtain rs where "q_events ?q = q_events q @ rs" by blast
  then have "pending_events ?q = pending_events q @ map (\<lambda>r. (eq_id r, eq_raw r)) (filter (\<lambda>r. \<not> eq_processed r) rs)"
    by (simp add: pending_events_def)
  then have "(i, raw) \<in> set (pending_rows n ?q)"
    using assms(3) eventq.batch [OF events_inv_push_many [OF assms(1)] assms(2)] by simp
  from parse_rows_bad [where loads = loads, OF this assms(4)] obtain x where "pop_batch loads n ?q = Inl x"
    by (auto simp: pop_batch_def)
  then show ?thesis by (induction k) simp_all
qed

theorem bad_row_blocks_queue_witness:
  "process_rounds (\<lambda>s. if s = ''bad'' then None else Some s) 1 7
     (push_many 6 [''b''] (push_many 5 [''bad''] init_queue_db))
   = ([], push_many 6 [''b''] (push_many 5 [''bad''] init_queue_db))"
proof -
  let ?q = "push_many 5 [''bad''] init_queue_db"
  have inv: "events_inv ?q" by (rule events_inv_push_many) (simp add: events_inv_def init_queue_db_def)
  have p: "pending_events ?q = [(1, ''bad'')]" by code_simp
  show ?thesis by (rule bad_row_blocks_queue [OF inv, of _ 1 "''bad''"]) (simp_all add: p del: push_many.simps)
qed

text \<open>An item that cannot be forwarded is retried \<open>max_retries\<close> times and no more: it is still
  queued after \<open>k\<close> failures exactly when \<open>k \<le> max_retries\<close>.\<close>

theorem forwarding_retries_bounded:
  assumes "fwd_inv q" "r \<in> set (q_fwd q)" "fw_retry r = 0" "fw_id r \<in> set ids" "0 \<le> m"
  shows "(\<exists>r' \<in> set (q_fwd ((mark_forward_failed now ids m ^^ k) q)). fw_id r' = fw_id r) \<longleftrightarrow> int k \<le> m"
  using retries [OF assms, where now = now and k = k] by (auto split: if_splits)

theorem forwarding_retries_bounded_witness:
  "\<exists>r \<in> set (q_fwd ((mark_forward_failed 9 [1] 5 ^^ 5) (snd (push_forwarding 5 ''finding'' ''{}'' init_queue_db)))). fw_id r = 1"
proof -
  let ?q = "snd (push_forwarding 5 ''finding'' ''{}'' init_queue_db)"
  let ?r = "\<lparr>fw_id = 1, fw_type = ''finding'', fw_payload = ''{}'', fw_created = 5, fw_retry = 0,
    fw_last_retry = None, fw_status = ''pending''\<rparr>"
  have q: "q_fwd ?q = [?r]" "q_fwd_seq ?q = 1"
    by (simp_all add: push_forwarding_def Let_def init_queue_db_def)
  have "fwd_inv ?q" by (simp add: fwd_inv_def q)
  from forwarding_retries_bounded [OF this, where r = ?r and ids = "[1]" and m = 5 and now = 9 and k = 5] show ?thesis by (simp add: q)
qed

text \<open>Findings are kept under their id: what is stored is what is read back, without the trigger
  process and time, for which the table has no columns; an update never lowers the severity
  and never drops evidence; no other finding changes.\<close>

theorem findings_kept_under_id:
  "get_finding_by_id (sf_id f) (store_finding f q) = Some (f\<lparr>sf_trigger_pid := None, sf_trigger_timestamp := None\<rparr>)
    \<and> (\<forall>i. i \<noteq> sf_id f \<longrightarrow> get_finding_by_id i (store_finding f q) = get_finding_by_id i q)
    \<and> (\<forall>i ids d sev. (case get_finding_by_id i (snd (update_finding i ids d sev q)) of
         None \<Rightarrow> get_finding_by_id i q = None
       | Some g \<Rightarrow> \<exists>g0. get_finding_by_id i q = Some g0 \<and> severity_order (sf_severity g0) \<le> severity_order (sf_severity g)
           \<and> set (sf_evidence_event_ids g) = set (sf_evidence_event_ids g0) \<union> (case ids of None \<Rightarrow> {} | Some is \<Rightarrow> set is)))
    \<and> (\<forall>i j ids d sev. j \<noteq> i \<longrightarrow> get_finding_by_id j (snd (update_finding i ids d sev q)) = get_finding_by_id j q)"
  using get_stored [of f q] get_other [of _ f q] merge_monotone
  by (auto simp: get_updated finding_row_def simp del: severity_order.simps split: option.splits)

end
