(* ===== verification/PyDict.thy ===== *)
theory PyDict
  imports Prelude "HOL-Library.AList"
begin

text \<open>
  Python dictionaries that the code iterates over: association lists with distinct keys in
  insertion order.  Assigning to a present key keeps its place, a new key goes to the end,
  which is what \<open>AList.update\<close> does.
\<close>

named_theorems dict_simps \<open>lookups after dictionary operations\<close>

type_synonym ('k, 'v) dict = "('k \<times> 'v) list"

definition d_get :: "('k, 'v) dict \<Rightarrow> 'k \<Rightarrow> 'v option" where
  "d_get d k = map_of d k"

definition d_get_or :: "('k, 'v) dict \<Rightarrow> 'k \<Rightarrow> 'v \<Rightarrow> 'v" where
  "d_get_or d k v = (case map_of d k of None \<Rightarrow> v | Some w \<Rightarrow> w)"

definition d_set :: "'k \<Rightarrow> 'v \<Rightarrow> ('k, 'v) dict \<Rightarrow> ('k, 'v) dict" where
  "d_set k v d = AList.update k v d"

text \<open>\<open>d.pop(k, None)\<close> and \<open>del d[k]\<close> for a present key.\<close>

definition d_pop :: "'k \<Rightarrow> ('k, 'v) dict \<Rightarrow> ('k, 'v) dict" where
  "d_pop k d = filter (\<lambda>(j, _). j \<noteq> k) d"

text \<open>\<open>x = d.setdefault(k, v0)\<close> followed by an update of \<open>x\<close> in place.\<close>

definition d_alter :: "'k \<Rightarrow> 'v \<Rightarrow> ('v \<Rightarrow> 'v) \<Rightarrow> ('k, 'v) dict \<Rightarrow> ('k, 'v) dict" where
  "d_alter k v0 f d = d_set k (f (d_get_or d k v0)) d"

definition d_keys :: "('k, 'v) dict \<Rightarrow> 'k list" where
  "d_keys d = map fst d"

definition d_wf :: "('k, 'v) dict \<Rightarrow> bool" where
  "d_wf d \<longleftrightarrow> distinct (map fst d)"

definition d_map :: "('v \<Rightarrow> 'w) \<Rightarrow> ('k, 'v) dict \<Rightarrow> ('k, 'w) dict" where
  "d_map f d = map (\<lambda>(k, v). (k, f v)) d"

lemma d_get_Nil [dict_simps, simp]: "d_get [] k = None"
  by (simp add: d_get_def)

lemma d_set_keys: "fst ` set (d_set k v d) = insert k (fst ` set d)"
  by (simp add: d_set_def dom_update)

lemma d_set_fresh: "k \<notin> fst ` set d \<Longrightarrow> d_set k v d = d @ [(k, v)]"
  by (induction d) (auto simp: d_set_def)

lemma d_get_set [dict_simps]: "d_get (d_set k v d) j = (if j = k then Some v else d_get d j)"
  by (simp add: d_get_def d_set_def update_conv')

lemma map_of_filter_key:
  "map_of (filter (\<lambda>(j, _). P j) d) k = (if P k then map_of d k else None)"
  by (induction d) auto

lemma d_get_pop [dict_simps]: "d_get (d_pop k d) j = (if j = k then None else d_get d j)"
  by (simp add: d_get_def d_pop_def map_of_filter_key)

lemma d_get_alter [dict_simps]:
  "d_get (d_alter k v0 f d) j =
     (if j = k then Some (f (case d_get d k of None \<Rightarrow> v0 | Some v \<Rightarrow> v)) else d_get d j)"
  by (simp add: d_alter_def d_get_set d_get_or_def) (simp add: d_get_def)

lemma d_get_map [dict_simps]: "d_get (d_map f d) k = map_option f (d_get d k)"
  by (induction d) (auto simp: d_get_def d_map_def)

lemma d_get_or_get: "d_get_or d k v = (case d_get d k of None \<Rightarrow> v | Some w \<Rightarrow> w)"
  by (simp add: d_get_or_def d_get_def)

lemma d_wf_Nil [simp]: "d_wf []"
  by (simp add: d_wf_def)

lemma d_wf_set [simp]: "d_wf d \<Longrightarrow> d_wf (d_set k v d)"
  by (simp add: d_wf_def d_set_def distinct_update)

lemma d_wf_alter [simp]: "d_wf d \<Longrightarrow> d_wf (d_alter k v f d)"
  by (simp add: d_alter_def)

lemma d_wf_filter: "d_wf d \<Longrightarrow> d_wf (filter P d)"
  by (induction d) (auto simp: d_wf_def)

lemma d_wf_pop [simp]: "d_wf d \<Longrightarrow> d_wf (d_pop k d)"
  by (simp add: d_pop_def d_wf_filter)

lemma d_wf_map [simp]: "d_wf (d_map f d) = d_wf d"
  by (simp add: d_wf_def d_map_def comp_def case_prod_beta)

lemma d_get_in: "d_get d k = Some v \<Longrightarrow> (k, v) \<in> set d"
  by (auto simp: d_get_def dest: map_of_SomeD)

lemma d_in_get: "d_wf d \<Longrightarrow> (k, v) \<in> set d \<Longrightarrow> d_get d k = Some v"
  by (simp add: d_wf_def d_get_def)

lemma d_get_None: "d_get d k = None \<longleftrightarrow> k \<notin> fst ` set d"
  by (simp add: d_get_def map_of_eq_None_iff)

end
