(* ===== verification/PidIndex.thy ===== *)
theory PidIndex
  imports GraphTypes PyDict
begin

text \<open>
  The in-memory process index of \<open>agent/graph/pid_index.py\<close> (class \<open>PidIndex\<close>).  Every
  method takes the lock for its whole body, so each is one step on the record.  Node ids
  are \<open>hostname:pid:epoch\<close> with an integer epoch in seconds, as the entity extractor
  writes them; \<open>extract_epoch\<close> covers ids whose last piece is a decimal integer, and gives
  0 to every other one.  Event times are in microseconds.  The rows of the Kuzu scan and
  the batches of the ledger are arguments.
\<close>

section \<open>State\<close>

record pid_index =
  pid_to_ids :: "(int, string list) dict"
  ppid_to_children :: "(int, int set) dict"
  pid_to_ppid :: "(int, int) dict"
  pid_to_name :: "(int, string) dict"
  built :: bool

definition new_index :: pid_index where
  "new_index = \<lparr>pid_to_ids = [], ppid_to_children = [], pid_to_ppid = [], pid_to_name = [],
     built = False\<rparr>"

section \<open>Building and updating\<close>

text \<open>A row \<open>p.id, p.pid, p.parent_pid, p.name\<close> of the scan; nulls are \<open>None\<close>.\<close>

type_synonym scan_row = "string \<times> int option \<times> int option \<times> string option"

definition add_child :: "int \<Rightarrow> int \<Rightarrow> pid_index \<Rightarrow> pid_index" where
  "add_child pp p ix =
     (if pp > 0
      then ix\<lparr>ppid_to_children := d_alter pp {} (insert p) (ppid_to_children ix),
              pid_to_ppid := d_set p pp (pid_to_ppid ix)\<rparr>
      else ix)"

definition set_name :: "int \<Rightarrow> string \<Rightarrow> pid_index \<Rightarrow> pid_index" where
  "set_name p n ix = (if n = [] then ix else ix\<lparr>pid_to_name := d_set p n (pid_to_name ix)\<rparr>)"

definition none_or :: "'a \<Rightarrow> 'a option \<Rightarrow> 'a" where
  "none_or d x = (case x of None \<Rightarrow> d | Some v \<Rightarrow> v)"

fun scan_step :: "scan_row \<Rightarrow> pid_index \<Rightarrow> pid_index" where
  "scan_step (i, None, pp, n) ix = ix"
| "scan_step (i, Some p, pp, n) ix =
     set_name p (none_or [] n) (add_child (none_or 0 pp) p
       (ix\<lparr>pid_to_ids := d_alter p [] (\<lambda>ids. ids @ [i]) (pid_to_ids ix)\<rparr>))"

text \<open>\<open>rows = None\<close> when the scan raises: the index is left as it was.\<close>

definition build :: "scan_row list option \<Rightarrow> pid_index \<Rightarrow> pid_index" where
  "build rows ix = (case rows of None \<Rightarrow> ix | Some rs \<Rightarrow> (fold scan_step rs new_index)\<lparr>built := True\<rparr>)"

definition on_upsert :: "string \<Rightarrow> int \<Rightarrow> int \<Rightarrow> string \<Rightarrow> pid_index \<Rightarrow> pid_index" where
  "on_upsert i p pp n ix =
     set_name p n (add_child pp p
       (ix\<lparr>pid_to_ids := d_alter p [] (\<lambda>ids. if i \<in> set ids then ids else ids @ [i])
             (pid_to_ids ix)\<rparr>))"

definition update_from_entities :: "entities \<Rightarrow> pid_index \<Rightarrow> pid_index" where
  "update_from_entities e ix =
     fold (\<lambda>p. on_upsert (pn_id p) (pn_pid p) (none_or 0 (pn_parent_pid p)) (pn_name p))
       (processes e) ix"

text \<open>The ledger build appends every id and removes the duplicates at the end.\<close>

definition ledger_step :: "process_node \<Rightarrow> pid_index \<Rightarrow> pid_index" where
  "ledger_step p ix =
     set_name (pn_pid p) (pn_name p) (add_child (none_or 0 (pn_parent_pid p)) (pn_pid p)
       (ix\<lparr>pid_to_ids := d_alter (pn_pid p) [] (\<lambda>ids. ids @ [pn_id p]) (pid_to_ids ix)\<rparr>))"

definition build_from_ledger :: "entities list option \<Rightarrow> pid_index \<Rightarrow> pid_index" where
  "build_from_ledger batches ix = (case batches of None \<Rightarrow> ix
     | Some es \<Rightarrow>
        let ix' = fold ledger_step (concat (map processes es)) new_index
        in ix'\<lparr>pid_to_ids := d_map dedup (pid_to_ids ix'), built := True\<rparr>)"

definition evict_ids :: "string set \<Rightarrow> (int, string list) dict \<Rightarrow> (int, string list) dict" where
  "evict_ids dead d = d_map (filter (\<lambda>i. i \<notin> dead)) d"

definition id_count :: "(int, string list) dict \<Rightarrow> nat" where
  "id_count d = sum_list (map (\<lambda>(_, ids). length ids) d)"

definition remove_nodes :: "string list \<Rightarrow> pid_index \<Rightarrow> nat \<times> pid_index" where
  "remove_nodes dead ix =
     (if dead = [] then (0, ix)
      else let kept = evict_ids (set dead) (pid_to_ids ix);
               empty = map fst (filter (\<lambda>(_, ids). ids = []) kept);
               kids = d_map (\<lambda>ch. ch - set empty) (ppid_to_children ix)
           in (id_count (pid_to_ids ix) - id_count kept,
               ix\<lparr>pid_to_ids := filter (\<lambda>(_, ids). ids \<noteq> []) kept,
                  ppid_to_children := filter (\<lambda>(_, ch). ch \<noteq> {}) kids,
                  pid_to_ppid := filter (\<lambda>(p, _). p \<notin> set empty) (pid_to_ppid ix),
                  pid_to_name := filter (\<lambda>(p, _). p \<notin> set empty) (pid_to_name ix)\<rparr>))"

section \<open>Lookups\<close>

text \<open>\<open>node_id.rsplit(":", 1)[1]\<close>; an id without a colon raises \<open>IndexError\<close>.\<close>

definition last_piece :: "string \<Rightarrow> string option" where
  "last_piece s = (if CHR '':'' \<in> set s then Some (last (split_on CHR '':'' s)) else None)"

definition extract_epoch :: "string \<Rightarrow> int" where
  "extract_epoch s = (case last_piece s of
     None \<Rightarrow> 0
   | Some t \<Rightarrow> (if t \<noteq> [] \<and> list_all is_digit t then dec_val 0 t
               else if t \<noteq> [] \<and> hd t = CHR ''-'' \<and> tl t \<noteq> [] \<and> list_all is_digit (tl t)
                 then - dec_val 0 (tl t)
               else 0))"

fun scan_best :: "datetime \<Rightarrow> string list \<Rightarrow> string option \<times> int \<Rightarrow> string option \<times> int" where
  "scan_best ts [] b = b"
| "scan_best ts (i # is) (b, be) =
     (let ep = extract_epoch i
      in scan_best ts is (if ep * 1000000 \<le> ts \<and> ep > be then (Some i, ep) else (b, be)))"

definition get_node_id_at_time :: "pid_index \<Rightarrow> int \<Rightarrow> datetime \<Rightarrow> string option" where
  "get_node_id_at_time ix p ts = fst (scan_best ts (d_get_or (pid_to_ids ix) p []) (None, 0))"

text \<open>\<open>sorted(ids, key=\<dots>, reverse=True)\<close> is stable, as is \<open>sort_key\<close>.\<close>

definition get_node_ids :: "pid_index \<Rightarrow> int \<Rightarrow> string list" where
  "get_node_ids ix p = sort_key (\<lambda>i. - extract_epoch i) (d_get_or (pid_to_ids ix) p [])"

fun first_max :: "string \<Rightarrow> string list \<Rightarrow> string" where
  "first_max b [] = b"
| "first_max b (i # is) = first_max (if extract_epoch b < extract_epoch i then i else b) is"

definition get_latest_node_id :: "pid_index \<Rightarrow> int \<Rightarrow> string option" where
  "get_latest_node_id ix p = (case d_get_or (pid_to_ids ix) p [] of
     [] \<Rightarrow> None | i # is \<Rightarrow> Some (first_max i is))"

definition get_children_pids :: "pid_index \<Rightarrow> int \<Rightarrow> int set" where
  "get_children_pids ix pp = d_get_or (ppid_to_children ix) pp {}"

definition get_parent_pid :: "pid_index \<Rightarrow> int \<Rightarrow> int option" where
  "get_parent_pid ix p = (case d_get (pid_to_ppid ix) p of
     None \<Rightarrow> None | Some pp \<Rightarrow> if pp > 0 then Some pp else None)"

definition get_name :: "pid_index \<Rightarrow> int \<Rightarrow> string" where
  "get_name ix p = d_get_or (pid_to_name ix) p []"

section \<open>Invariant\<close>

definition ids_of :: "pid_index \<Rightarrow> int \<Rightarrow> string list" where
  "ids_of ix p = d_get_or (pid_to_ids ix) p []"

definition known :: "pid_index \<Rightarrow> int \<Rightarrow> bool" where
  "known ix p \<longleftrightarrow> d_get (pid_to_ids ix) p \<noteq> None"

text \<open>The parent recorded for a process has it among its children; only processes that
  have a node are mentioned; the lists of ids are non-empty and without repetition, and so
  are the groups of children.\<close>

definition index_inv :: "pid_index \<Rightarrow> bool" where
  "index_inv ix \<longleftrightarrow>
     d_wf (pid_to_ids ix) \<and> d_wf (ppid_to_children ix) \<and> d_wf (pid_to_ppid ix)
     \<and> d_wf (pid_to_name ix)
     \<and> (\<forall>p l. d_get (pid_to_ids ix) p = Some l \<longrightarrow> l \<noteq> [] \<and> distinct l)
     \<and> (\<forall>p pp. d_get (pid_to_ppid ix) p = Some pp \<longrightarrow>
          pp > 0 \<and> p \<in> get_children_pids ix pp \<and> known ix p)
     \<and> (\<forall>p n. d_get (pid_to_name ix) p = Some n \<longrightarrow> n \<noteq> [] \<and> known ix p)
     \<and> (\<forall>pp ch. d_get (ppid_to_children ix) pp = Some ch \<longrightarrow>
          pp > 0 \<and> ch \<noteq> {} \<and> (\<forall>p \<in> ch. known ix p))"

lemma children_get: "get_children_pids ix pp =
    (case d_get (ppid_to_children ix) pp of None \<Rightarrow> {} | Some ch \<Rightarrow> ch)"
  by (simp add: get_children_pids_def d_get_or_get)

lemmas index_defs = index_inv_def known_def children_get

lemma index_inv_new: "index_inv new_index"
  by (simp add: index_defs new_index_def)

lemma index_inv_built: "index_inv (ix\<lparr>built := b\<rparr>) = index_inv ix"
  by (simp add: index_defs)

lemma known_simps [simp]:
  "known (add_child pp p ix) q = known ix q"
  "known (set_name p n ix) q = known ix q"
  "known (ix\<lparr>pid_to_ids := d_alter p v f (pid_to_ids ix)\<rparr>) q = (q = p \<or> known ix q)"
  by (simp_all add: known_def add_child_def set_name_def dict_simps)

lemma children_simps [simp]:
  "get_children_pids (add_child pp p ix) q =
     (if pp > 0 \<and> q = pp then insert p (get_children_pids ix q) else get_children_pids ix q)"
  "get_children_pids (set_name p n ix) q = get_children_pids ix q"
  "get_children_pids (pid_to_ids_update g ix) q = get_children_pids ix q"
  by (simp_all add: add_child_def set_name_def children_get dict_simps split: option.splits)

lemma index_inv_ids:
  assumes "index_inv ix"
    "\<And>l. d_get (pid_to_ids ix) p = Some l \<Longrightarrow> f l \<noteq> [] \<and> distinct (f l)"
    "f [] \<noteq> [] \<and> distinct (f [])"
  shows "index_inv (ix\<lparr>pid_to_ids := d_alter p [] f (pid_to_ids ix)\<rparr>)"
  unfolding index_inv_def known_simps children_simps
  using assms by (simp add: index_inv_def dict_simps) (metis option.case_eq_if option.collapse)

lemma index_inv_add_child:
  assumes "index_inv ix" "known ix p"
  shows "index_inv (add_child pp p ix)"
proof (cases "pp > 0")
  case True
  then show ?thesis
    unfolding index_inv_def known_simps children_simps
    using assms
    by (simp add: index_inv_def add_child_def dict_simps split: option.splits)
next
  case False
  with assms show ?thesis by (simp add: add_child_def)
qed

lemma index_inv_set_name:
  assumes "index_inv ix" "known ix p"
  shows "index_inv (set_name p n ix)"
  unfolding index_inv_def known_simps children_simps
  using assms by (simp add: index_inv_def set_name_def dict_simps)

lemma on_upsert_inv: "index_inv ix \<Longrightarrow> index_inv (on_upsert i p pp n ix)"
  unfolding on_upsert_def
  by (intro index_inv_set_name index_inv_add_child index_inv_ids)
    (auto simp: index_inv_def)

lemma fold_invariant: "(\<And>x s. I s \<Longrightarrow> x \<in> set xs \<Longrightarrow> I (f x s)) \<Longrightarrow> I s \<Longrightarrow> I (fold f xs s)"
  by (induction xs arbitrary: s) auto

lemma update_from_entities_inv: "index_inv ix \<Longrightarrow> index_inv (update_from_entities e ix)"
  unfolding update_from_entities_def by (rule fold_invariant) (auto intro: on_upsert_inv)

text \<open>The stale half: after a process id is reused under another parent the old group still
  lists it, so only one direction of parent and child holds.\<close>

section \<open>Removal\<close>

lemma evict_get: "d_get (evict_ids dead d) p = map_option (filter (\<lambda>i. i \<notin> dead)) (d_get d p)"
  by (simp add: evict_ids_def dict_simps)

lemma d_get_filter_val:
  "d_wf d \<Longrightarrow> d_get (filter (\<lambda>(_, v). P v) d) k =
     (case d_get d k of None \<Rightarrow> None | Some v \<Rightarrow> if P v then Some v else None)"
proof (induction d)
  case (Cons a d)
  obtain j v where a: "a = (j, v)" by (cases a)
  with Cons.prems have "d_wf d" "d_get d j = None" by (auto simp: d_wf_def d_get_None)
  with Cons.IH a show ?case by (auto simp: d_get_def split: option.splits)
qed simp

lemma d_get_filter_key: "d_get (filter (\<lambda>(k, _). P k) d) k = (if P k then d_get d k else None)"
  by (simp add: d_get_def map_of_filter_key)

lemma empty_keys:
  "d_wf d \<Longrightarrow> p \<in> set (map fst (filter (\<lambda>(_, v). P v) d)) \<longleftrightarrow> (\<exists>v. d_get d p = Some v \<and> P v)"
  by (force simp: d_in_get image_iff dest: d_get_in)

lemma remove_nodes_ids:
  assumes "index_inv ix" "dead \<noteq> []" "remove_nodes dead ix = (k, ix')"
  shows "d_get (pid_to_ids ix') p = (case d_get (pid_to_ids ix) p of None \<Rightarrow> None
     | Some l \<Rightarrow> (let l' = filter (\<lambda>i. i \<notin> set dead) l in if l' = [] then None else Some l'))"
  using assms
  by (auto simp: remove_nodes_def Let_def d_get_filter_val [where P = "\<lambda>ids. ids \<noteq> []"] evict_get
      index_inv_def evict_ids_def dict_simps split: option.splits)

lemma remove_nodes_known:
  assumes "index_inv ix" "dead \<noteq> []" "remove_nodes dead ix = (k, ix')"
  shows "known ix' p \<longleftrightarrow> known ix p \<and> \<not> set (ids_of ix p) \<subseteq> set dead"
  unfolding known_def ids_of_def d_get_or_get remove_nodes_ids [OF assms]
  by (auto simp: Let_def filter_empty_conv split: option.splits)

lemma remove_nodes_empty:
  assumes "index_inv ix"
  shows "p \<in> set (map fst (filter (\<lambda>(_, ids). ids = []) (evict_ids dead (pid_to_ids ix))))
     \<longleftrightarrow> known ix p \<and> set (ids_of ix p) \<subseteq> dead"
proof -
  have "d_wf (evict_ids dead (pid_to_ids ix))"
    using assms by (simp add: index_inv_def evict_ids_def)
  from empty_keys [OF this, of p "\<lambda>ids. ids = []"] show ?thesis
    by (auto simp: evict_get known_def ids_of_def d_get_or_get filter_empty_conv split: option.splits)
qed

lemma remove_nodes_fields:
  assumes inv: "index_inv ix" and ne: "dead \<noteq> []" and r: "remove_nodes dead ix = (k, ix')"
  defines "gone \<equiv> {p. known ix p \<and> set (ids_of ix p) \<subseteq> set dead}"
  shows "d_get (pid_to_ppid ix') p = (if p \<in> gone then None else d_get (pid_to_ppid ix) p)"
    "d_get (pid_to_name ix') p = (if p \<in> gone then None else d_get (pid_to_name ix) p)"
    "get_children_pids ix' pp = get_children_pids ix pp - gone"
    "d_get (ppid_to_children ix') pp = Some ch \<Longrightarrow>
       ch \<noteq> {} \<and> ch = get_children_pids ix pp - gone \<and> d_get (ppid_to_children ix) pp \<noteq> None"
proof -
  let ?empty = "map fst (filter (\<lambda>(_, ids). ids = []) (evict_ids (set dead) (pid_to_ids ix)))"
  have e: "set ?empty = gone" using remove_nodes_empty [OF inv] by (auto simp: gone_def)
  have ix': "pid_to_ppid ix' = filter (\<lambda>(p, _). p \<notin> gone) (pid_to_ppid ix)"
    "pid_to_name ix' = filter (\<lambda>(p, _). p \<notin> gone) (pid_to_name ix)"
    "ppid_to_children ix' =
       filter (\<lambda>(_, ch). ch \<noteq> {}) (d_map (\<lambda>ch. ch - gone) (ppid_to_children ix))"
    using r ne unfolding remove_nodes_def Let_def e by auto
  show "d_get (pid_to_ppid ix') p = (if p \<in> gone then None else d_get (pid_to_ppid ix) p)"
    "d_get (pid_to_name ix') p = (if p \<in> gone then None else d_get (pid_to_name ix) p)"
    by (simp_all add: ix' d_get_filter_key [where P = "\<lambda>p. p \<notin> gone"])
  have wf: "d_wf (d_map (\<lambda>ch. ch - gone) (ppid_to_children ix))"
    using inv by (simp add: index_inv_def)
  show "get_children_pids ix' pp = get_children_pids ix pp - gone"
    by (simp add: children_get ix' d_get_filter_val [OF wf, where P = "\<lambda>ch. ch \<noteq> {}"] dict_simps
        split: option.splits)
  show "ch \<noteq> {} \<and> ch = get_children_pids ix pp - gone \<and> d_get (ppid_to_children ix) pp \<noteq> None"
    if "d_get (ppid_to_children ix') pp = Some ch"
    using that by (auto simp: children_get ix' dict_simps
        d_get_filter_val [OF wf, where P = "\<lambda>ch. ch \<noteq> {}"] split: option.splits if_splits)
qed

lemma remove_nodes_wf:
  "index_inv ix \<Longrightarrow> remove_nodes dead ix = (k, ix') \<Longrightarrow>
     d_wf (pid_to_ids ix') \<and> d_wf (ppid_to_children ix') \<and> d_wf (pid_to_ppid ix')
     \<and> d_wf (pid_to_name ix')"
  by (auto simp: remove_nodes_def Let_def index_inv_def evict_ids_def d_wf_filter split: if_splits)

lemma remove_nodes_inv:
  assumes inv: "index_inv ix" and r: "remove_nodes dead ix = (k, ix')"
  shows "index_inv ix'"
proof (cases "dead = []")
  case True
  with assms show ?thesis by (simp add: remove_nodes_def)
next
  case ne: False
  note known' = remove_nodes_known [OF inv ne r]
  note f = remove_nodes_fields [OF inv ne r]
  have "l \<noteq> [] \<and> distinct l" if "d_get (pid_to_ids ix') p = Some l" for p l
    using that inv unfolding remove_nodes_ids [OF inv ne r] index_inv_def
    by (auto simp: Let_def split: option.splits if_splits)
  moreover have "pp > 0 \<and> p \<in> get_children_pids ix' pp \<and> known ix' p"
    if "d_get (pid_to_ppid ix') p = Some pp" for p pp
    using that inv by (auto simp: f known' index_inv_def split: if_splits)
  moreover have "n \<noteq> [] \<and> known ix' p" if "d_get (pid_to_name ix') p = Some n" for p n
    using that inv by (auto simp: f known' index_inv_def split: if_splits)
  moreover have "pp > 0 \<and> ch \<noteq> {} \<and> (\<forall>p \<in> ch. known ix' p)"
    if "d_get (ppid_to_children ix') pp = Some ch" for pp ch
  proof -
    from f(4) [OF that] have c: "ch \<noteq> {}"
      "ch = get_children_pids ix pp - {p. known ix p \<and> set (ids_of ix p) \<subseteq> set dead}"
      "d_get (ppid_to_children ix) pp \<noteq> None"
      by blast+
    then obtain ch0 where c0: "d_get (ppid_to_children ix) pp = Some ch0" by blast
    then have c1: "get_children_pids ix pp = ch0" by (simp add: children_get)
    from inv c0 have "pp > 0" "\<forall>p \<in> ch0. known ix p" by (simp_all add: index_inv_def)
    with c(1) show ?thesis unfolding c(2) c1 known' by blast
  qed
  ultimately show ?thesis using remove_nodes_wf [OF assms] unfolding index_inv_def by blast
qed

lemma id_count_evict: "id_count (evict_ids dead d) \<le> id_count d"
  by (induction d) (auto simp: id_count_def evict_ids_def d_map_def intro!: add_mono)

section \<open>The builds are folds of upserts\<close>

lemma set_dedup_append: "dedup (xs @ [x]) = (if x \<in> set xs then dedup xs else dedup xs @ [x])"
  by (induction xs) auto

lemma d_map_alter:
  "d_wf d \<Longrightarrow> d_map g (d_alter k v f d) = d_set k (g (f (d_get_or d k v))) (d_map g d)"
proof -
  have "d_map g (AList.update k w d) = AList.update k (g w) (d_map g d)" for w
    by (induction d) (auto simp: d_map_def)
  then show ?thesis by (simp add: d_alter_def d_set_def)
qed

definition dedup_index :: "pid_index \<Rightarrow> pid_index" where
  "dedup_index ix = ix\<lparr>pid_to_ids := d_map dedup (pid_to_ids ix)\<rparr>"

lemma dedup_ledger_step:
  assumes "d_wf (pid_to_ids ix)"
  shows "dedup_index (ledger_step p ix) =
    on_upsert (pn_id p) (pn_pid p) (none_or 0 (pn_parent_pid p)) (pn_name p) (dedup_index ix)"
proof -
  have "d_get_or (d_map dedup (pid_to_ids ix)) k [] = dedup (d_get_or (pid_to_ids ix) k [])" for k
    by (simp add: d_get_or_get dict_simps split: option.splits)
  then have "d_map dedup (d_alter (pn_pid p) [] (\<lambda>ids. ids @ [pn_id p]) (pid_to_ids ix))
    = d_alter (pn_pid p) [] (\<lambda>ids. if pn_id p \<in> set ids then ids else ids @ [pn_id p])
        (d_map dedup (pid_to_ids ix))"
    by (simp add: d_map_alter [OF assms]) (simp add: d_alter_def set_dedup_append)
  then show ?thesis
    by (simp add: dedup_index_def ledger_step_def on_upsert_def add_child_def set_name_def)
qed

lemma ledger_step_wf: "d_wf (pid_to_ids ix) \<Longrightarrow> d_wf (pid_to_ids (ledger_step p ix))"
  by (simp add: ledger_step_def add_child_def set_name_def)

lemma ledger_fold:
  "d_wf (pid_to_ids ix) \<Longrightarrow> dedup_index (fold ledger_step ps ix) =
     fold (\<lambda>p. on_upsert (pn_id p) (pn_pid p) (none_or 0 (pn_parent_pid p)) (pn_name p)) ps
       (dedup_index ix)"
  by (induction ps arbitrary: ix) (simp_all add: dedup_ledger_step ledger_step_wf)

lemma update_fold_concat:
  "fold update_from_entities es ix =
     fold (\<lambda>p. on_upsert (pn_id p) (pn_pid p) (none_or 0 (pn_parent_pid p)) (pn_name p))
       (concat (map processes es)) ix"
  by (induction es arbitrary: ix) (simp_all add: update_from_entities_def)

lemma build_from_ledger_fold:
  "build_from_ledger (Some es) ix = (fold update_from_entities es new_index)\<lparr>built := True\<rparr>"
proof -
  have "dedup_index (fold ledger_step (concat (map processes es)) new_index)
      = fold update_from_entities es new_index"
    using ledger_fold [of new_index "concat (map processes es)"]
    by (simp add: update_fold_concat dedup_index_def new_index_def d_map_def)
  then show ?thesis by (simp add: build_from_ledger_def Let_def dedup_index_def [symmetric])
qed

lemma update_all_inv: "index_inv ix \<Longrightarrow> index_inv (fold update_from_entities es ix)"
  by (rule fold_invariant) (auto intro: update_from_entities_inv)

section \<open>The instance active at a time\<close>

definition eligible :: "datetime \<Rightarrow> string \<Rightarrow> bool" where
  "eligible ts i \<longleftrightarrow> 0 < extract_epoch i \<and> extract_epoch i * 1000000 \<le> ts"

lemma scan_best_spec:
  assumes "scan_best ts is (b, be) = (r, re)" "0 \<le> be"
    "\<And>i. b = Some i \<Longrightarrow> be = extract_epoch i \<and> eligible ts i" "b = None \<Longrightarrow> be = 0"
  shows "be \<le> re \<and> (\<forall>j \<in> set is. eligible ts j \<longrightarrow> extract_epoch j \<le> re)
    \<and> (r = None \<longrightarrow> re = 0) \<and> (\<forall>i. r = Some i \<longrightarrow>
        (r = b \<or> i \<in> set is) \<and> re = extract_epoch i \<and> eligible ts i)"
  using assms
proof (induction "is" arbitrary: b be)
  case Nil
  then show ?case by auto
next
  case (Cons i "is")
  let ?take = "extract_epoch i * 1000000 \<le> ts \<and> extract_epoch i > be"
  show ?case
  proof (cases ?take)
    case True
    with Cons.prems have "scan_best ts is (Some i, extract_epoch i) = (r, re)" by simp
    from Cons.IH [OF this] True Cons.prems show ?thesis by (fastforce simp: eligible_def)
  next
    case False
    with Cons.prems have "scan_best ts is (b, be) = (r, re)" by auto
    from Cons.IH [OF this] False Cons.prems show ?thesis
      by (fastforce simp: eligible_def)
  qed
qed

lemma at_time_spec:
  "(\<forall>i. get_node_id_at_time ix p ts = Some i \<longrightarrow> i \<in> set (ids_of ix p) \<and> eligible ts i
      \<and> (\<forall>j \<in> set (ids_of ix p). eligible ts j \<longrightarrow> extract_epoch j \<le> extract_epoch i))
   \<and> (get_node_id_at_time ix p ts = None \<longrightarrow> (\<forall>j \<in> set (ids_of ix p). \<not> eligible ts j))"
proof -
  obtain r re where s: "scan_best ts (ids_of ix p) (None, 0) = (r, re)" by force
  from scan_best_spec [OF this] have
    "\<forall>j \<in> set (ids_of ix p). eligible ts j \<longrightarrow> extract_epoch j \<le> re"
    "r = None \<longrightarrow> re = 0"
    "\<forall>i. r = Some i \<longrightarrow> i \<in> set (ids_of ix p) \<and> re = extract_epoch i \<and> eligible ts i"
    by auto
  moreover have "get_node_id_at_time ix p ts = r"
    using s by (simp add: get_node_id_at_time_def ids_of_def)
  ultimately show ?thesis by (fastforce simp: eligible_def)
qed

lemma first_max_spec:
  "first_max b is \<in> set (b # is) \<and> (\<forall>j \<in> set (b # is). extract_epoch j \<le> extract_epoch (first_max b is))"
proof (induction "is" arbitrary: b)
  case (Cons i "is")
  show ?case using Cons [of b] Cons [of i] by (auto intro: order.trans)
qed simp

section \<open>Properties\<close>

text \<open>C25. The invariant of the index holds of the empty index and is kept by upserts, batch
  updates and removals.\<close>

theorem index_invariant:
  assumes "index_inv ix"
  shows "index_inv new_index \<and> index_inv (on_upsert i p pp n ix) \<and> index_inv (update_from_entities e ix)
    \<and> index_inv (snd (remove_nodes dead ix)) \<and> index_inv (build_from_ledger (Some es) ix)"
proof -
  obtain k ix' where r: "remove_nodes dead ix = (k, ix')" by force
  from remove_nodes_inv [OF assms r] r have "index_inv (snd (remove_nodes dead ix))" by simp
  moreover have "index_inv (build_from_ledger (Some es) ix)"
    unfolding build_from_ledger_fold index_inv_built by (rule update_all_inv [OF index_inv_new])
  ultimately show ?thesis
    using assms by (simp add: index_inv_new on_upsert_inv update_from_entities_inv)
qed

definition sample_index :: pid_index where
  "sample_index = on_upsert ''h:7:200'' 7 1 ''sh'' (on_upsert ''h:7:100'' 7 1 ''sh'' new_index)"

theorem index_invariant_witness: "index_inv sample_index \<and> index_inv (snd (remove_nodes [''h:7:100''] sample_index))"
proof -
  have "index_inv sample_index" unfolding sample_index_def by (intro on_upsert_inv index_inv_new)
  with index_invariant [OF this] show ?thesis by blast
qed

text \<open>\<open>get_node_id_at_time\<close> returns the instance of the pid with the greatest creation time not
  after the event, and none only if there is no such instance with a positive creation time.\<close>

theorem node_at_time_correct:
  "(\<exists>i. get_node_id_at_time ix p ts = Some i \<and> i \<in> set (ids_of ix p) \<and> eligible ts i
      \<and> (\<forall>j \<in> {j \<in> set (ids_of ix p). eligible ts j}. extract_epoch j \<le> extract_epoch i))
   \<noteq> (get_node_id_at_time ix p ts = None \<and> {j \<in> set (ids_of ix p). eligible ts j} = {})"
  using at_time_spec [of ix p ts] by (cases "get_node_id_at_time ix p ts") auto

theorem node_at_time_correct_witness:
  "get_node_id_at_time sample_index 7 150000000 = Some ''h:7:100''
   \<and> (\<exists>i. get_node_id_at_time sample_index 7 150000000 = Some i \<and> eligible 150000000 i)"
proof -
  have "get_node_id_at_time sample_index 7 150000000 = Some ''h:7:100''" by code_simp
  with node_at_time_correct [of sample_index 7 150000000] show ?thesis by auto
qed

text \<open>Building the index from the ledger in one go, with the duplicate ids removed at the end,
  gives the index that applying the batches one after the other gives.\<close>

theorem ledger_build_is_replay:
  "build_from_ledger (Some es) ix = (fold update_from_entities es new_index)\<lparr>built := True\<rparr>"
  by (rule build_from_ledger_fold)

text \<open>After a removal no id of a removed node is left in the index.\<close>

theorem removed_ids_are_gone:
  assumes "index_inv ix" "remove_nodes dead ix = (k, ix')" "i \<in> set dead"
  shows "i \<notin> set (ids_of ix' p)"
proof -
  from assms(3) have "dead \<noteq> []" by auto
  from remove_nodes_ids [OF assms(1) this assms(2), of p] assms(3) show ?thesis
    by (auto simp: ids_of_def d_get_or_get Let_def split: option.splits if_splits)
qed

theorem removed_ids_are_gone_witness:
  "''h:7:100'' \<notin> set (ids_of (snd (remove_nodes [''h:7:100''] sample_index)) 7)"
proof -
  have "index_inv sample_index" unfolding sample_index_def by (intro on_upsert_inv index_inv_new)
  then show ?thesis
    by (rule removed_ids_are_gone [where dead = "[''h:7:100'']" and k = "fst (remove_nodes [''h:7:100''] sample_index)"])
      simp_all
qed

end
