(* ===== verification/Fnmatch.thy ===== *)
theory Fnmatch
  imports Prelude
begin

text \<open>
  Python's \<open>fnmatch.fnmatch\<close> on a POSIX host, where \<open>os.path.normcase\<close> is the
  identity: the library function behind every glob of the agent's rules.  A pattern is
  parsed to tokens (\<open>*\<close>, \<open>?\<close>, a literal, a bracket set) and the tokens are matched
  against the whole name.  \<open>glob_den\<close> is the set of names a token list denotes;
  \<open>glob_match_den\<close> shows that the matcher decides it.
\<close>

section \<open>Patterns\<close>

datatype gitem = GChar char | GRange char char

datatype gtok = GStar | GAny | GLit char | GSet bool "gitem list"

text \<open>The body of a bracket set, after the optional \<open>!\<close>: a \<open>-\<close> between two characters makes
  a range, at either end it is literal.\<close>

fun set_items :: "string \<Rightarrow> gitem list" where
  "set_items (a # d # b # cs) =
     (if d = CHR ''-'' then GRange a b # set_items cs else GChar a # set_items (d # b # cs))"
| "set_items [a, b] = [GChar a, GChar b]"
| "set_items [a] = [GChar a]"
| "set_items [] = []"

text \<open>The text after a \<open>[\<close>: whether it is negated, its body and what follows the closing
  bracket, or \<open>None\<close> where there is none (then the \<open>[\<close> is literal).  A \<open>]\<close> in first
  position is part of the body.\<close>

definition take_set :: "string \<Rightarrow> (bool \<times> string \<times> string) option" where
  "take_set cs =
     (let neg = (cs \<noteq> [] \<and> hd cs = CHR ''!'');
          c1 = (if neg then tl cs else cs);
          lead = (c1 \<noteq> [] \<and> hd c1 = CHR '']'');
          c2 = (if lead then tl c1 else c1);
          body = takeWhile (\<lambda>c. c \<noteq> CHR '']'') c2;
          rest = dropWhile (\<lambda>c. c \<noteq> CHR '']'') c2
      in if rest = [] then None
         else Some (neg, (if lead then CHR '']'' # body else body), tl rest))"

lemma length_tl_dropWhile: "dropWhile P d \<noteq> [] \<Longrightarrow> length (tl (dropWhile P d)) < length d"
  using length_dropWhile_le [of P d] by (cases "dropWhile P d") auto

lemma take_set_shorter: "take_set cs = Some (neg, body, rest) \<Longrightarrow> length rest < length cs"
proof -
  assume a: "take_set cs = Some (neg, body, rest)"
  define c1 where "c1 = (if cs \<noteq> [] \<and> hd cs = CHR ''!'' then tl cs else cs)"
  define c2 where "c2 = (if c1 \<noteq> [] \<and> hd c1 = CHR '']'' then tl c1 else c1)"
  have len: "length c2 \<le> length cs" by (auto simp: c1_def c2_def)
  have "dropWhile (\<lambda>c. c \<noteq> CHR '']'') c2 \<noteq> []" "rest = tl (dropWhile (\<lambda>c. c \<noteq> CHR '']'') c2)"
    using a unfolding take_set_def Let_def c1_def [symmetric] c2_def [symmetric]
    by (simp_all split: if_split_asm)
  with length_tl_dropWhile [of "\<lambda>c. c \<noteq> CHR '']''" c2] len show ?thesis by simp
qed

function (sequential) glob_parse :: "string \<Rightarrow> gtok list" where
  "glob_parse [] = []"
| "glob_parse (c # cs) =
     (if c = CHR ''*'' then GStar # glob_parse cs
      else if c = CHR ''?'' then GAny # glob_parse cs
      else if c = CHR ''['' then
        (case take_set cs of
           None \<Rightarrow> GLit c # glob_parse cs
         | Some (neg, body, rest) \<Rightarrow> GSet neg (set_items body) # glob_parse rest)
      else GLit c # glob_parse cs)"
  by pat_completeness auto
termination
  by (relation "measure length") (auto dest: take_set_shorter)

section \<open>Matching\<close>

fun item_ok :: "gitem \<Rightarrow> char \<Rightarrow> bool" where
  "item_ok (GChar a) c = (c = a)"
| "item_ok (GRange a b) c = ((of_char a :: nat) \<le> of_char c \<and> (of_char c :: nat) \<le> of_char b)"

fun tok_ok :: "gtok \<Rightarrow> char \<Rightarrow> bool" where
  "tok_ok GStar c = False"
| "tok_ok GAny c = True"
| "tok_ok (GLit a) c = (c = a)"
| "tok_ok (GSet neg items) c = (list_ex (\<lambda>i. item_ok i c) items \<noteq> neg)"

fun glob_match :: "gtok list \<Rightarrow> string \<Rightarrow> bool" where
  "glob_match [] s = (s = [])"
| "glob_match (GStar # ts) [] = glob_match ts []"
| "glob_match (GStar # ts) (c # cs) = (glob_match ts (c # cs) \<or> glob_match (GStar # ts) cs)"
| "glob_match (t # ts) [] = False"
| "glob_match (t # ts) (c # cs) = (tok_ok t c \<and> glob_match ts cs)"

definition fnmatch :: "string \<Rightarrow> string \<Rightarrow> bool" where
  "fnmatch name pat = glob_match (glob_parse pat) name"

section \<open>What a pattern denotes\<close>

fun glob_den :: "gtok list \<Rightarrow> string set" where
  "glob_den [] = {[]}"
| "glob_den (GStar # ts) = {u @ v |u v. v \<in> glob_den ts}"
| "glob_den (t # ts) = {c # v |c v. tok_ok t c \<and> v \<in> glob_den ts}"

lemma glob_match_den: "glob_match ts s \<longleftrightarrow> s \<in> glob_den ts"
proof (induction ts s rule: glob_match.induct)
  case (3 ts c cs)
  have "c # cs \<in> glob_den (GStar # ts) \<longleftrightarrow> c # cs \<in> glob_den ts \<or> cs \<in> glob_den (GStar # ts)"
    by (auto simp: Cons_eq_append_conv) 
  with 3 show ?case by simp
qed auto

lemma fnmatch_star: "fnmatch s ''*''"
  by (induction s) (auto simp: fnmatch_def)

text \<open>A pattern without glob characters matches exactly itself.\<close>

definition plain_pat :: "string \<Rightarrow> bool" where
  "plain_pat p \<longleftrightarrow> CHR ''*'' \<notin> set p \<and> CHR ''?'' \<notin> set p \<and> CHR ''['' \<notin> set p"

lemma glob_parse_plain: "plain_pat p \<Longrightarrow> glob_parse p = map GLit p"
  by (induction p) (auto simp: plain_pat_def)

lemma glob_match_lits: "glob_match (map GLit p) s \<longleftrightarrow> s = p"
proof (induction p arbitrary: s)
  case (Cons a p)
  then show ?case by (cases s) auto
qed simp

lemma fnmatch_plain: "plain_pat p \<Longrightarrow> fnmatch s p \<longleftrightarrow> s = p"
  by (simp add: fnmatch_def glob_parse_plain glob_match_lits)

lemma glob_parse_append_plain: "plain_pat p \<Longrightarrow> glob_parse (p @ q) = map GLit p @ glob_parse q"
  by (induction p) (auto simp: plain_pat_def)

lemma glob_match_lits_append:
  "glob_match (map GLit p @ ts) s \<longleftrightarrow> (\<exists>r. s = p @ r \<and> glob_match ts r)"
proof (induction p arbitrary: s)
  case (Cons a p)
  then show ?case by (cases s) auto
qed simp

text \<open>\<open>name*\<close> is a prefix test.\<close>

lemma fnmatch_prefix: "plain_pat p \<Longrightarrow> fnmatch s (p @ ''*'') \<longleftrightarrow> prefix p s"
proof -
  have star: "glob_match [GStar] r" for r by (induction r) auto
  assume "plain_pat p"
  then show ?thesis
    by (auto simp: fnmatch_def glob_parse_append_plain glob_match_lits_append star prefix_def)
qed

end
