(* ===== verification/IpNet.thy ===== *)
theory IpNet
  imports Prelude "HOL-Library.Word"
begin

text \<open>
  The part of Python's \<open>ipaddress\<close> module the agent uses: parsing of IPv4 and IPv6
  addresses (\<open>ip_address\<close>) and of networks with \<open>strict=False\<close> (\<open>ip_network\<close>), and the
  membership test \<open>addr in net\<close>.  Addresses are 32-bit and 128-bit words; a parse error
  (\<open>ValueError\<close>) is \<open>None\<close>.  A network keeps its masked base address and its prefix length.
\<close>

unbundle bit_operations_syntax

datatype ip_addr = V4 "32 word" | V6 "128 word"

datatype ip_net = Net4 "32 word" nat | Net6 "128 word" nat

section \<open>Addresses\<close>

text \<open>\<open>IPv4Address._parse_octet\<close>: one to three digits, no leading zero, at most 255.\<close>

definition parse_octet :: "string \<Rightarrow> int option" where
  "parse_octet s =
     (if s = [] \<or> \<not> list_all is_digit s \<or> length s > 3 then None
      else if s \<noteq> ''0'' \<and> hd s = CHR ''0'' then None
      else if dec_val 0 s > 255 then None else Some (dec_val 0 s))"

fun parse_all :: "('a \<Rightarrow> 'b option) \<Rightarrow> 'a list \<Rightarrow> 'b list option" where
  "parse_all f [] = Some []"
| "parse_all f (x # xs) =
     (case f x of None \<Rightarrow> None
      | Some y \<Rightarrow> (case parse_all f xs of None \<Rightarrow> None | Some ys \<Rightarrow> Some (y # ys)))"

fun bytes_val :: "int \<Rightarrow> int \<Rightarrow> int list \<Rightarrow> int" where
  "bytes_val base acc [] = acc"
| "bytes_val base acc (b # bs) = bytes_val base (base * acc + b) bs"

definition parse_v4 :: "string \<Rightarrow> int option" where
  "parse_v4 s =
     (let parts = split_on CHR ''.'' s in
      if length parts \<noteq> 4 then None
      else map_option (bytes_val 256 0) (parse_all parse_octet parts))"

definition hex_val :: "char \<Rightarrow> int option" where
  "hex_val c =
     (let n = (of_char c :: int) in
      if 48 \<le> n \<and> n \<le> 57 then Some (n - 48)
      else if 97 \<le> n \<and> n \<le> 102 then Some (n - 87)
      else if 65 \<le> n \<and> n \<le> 70 then Some (n - 55) else None)"

definition parse_hextet :: "string \<Rightarrow> int option" where
  "parse_hextet s =
     (if s = [] \<or> length s > 4 then None
      else map_option (bytes_val 16 0) (parse_all hex_val s))"

text \<open>The pieces between colons as hextets; a last piece holding a dot is a dotted quad
  that stands for two hextets.  An empty piece is \<open>Some []\<close> here and is judged below.\<close>

datatype hx = HEmpty | HVal int

definition hextet_of :: "string \<Rightarrow> hx option" where
  "hextet_of s = (if s = [] then Some HEmpty else map_option HVal (parse_hextet s))"

definition v6_pieces :: "string \<Rightarrow> hx list option" where
  "v6_pieces s =
     (let parts = split_on CHR '':'' s in
      if length parts < 3 then None
      else if CHR ''.'' \<in> set (last parts) then
        (case (parse_all hextet_of (butlast parts), parse_v4 (last parts)) of
           (Some hs, Some v) \<Rightarrow> Some (hs @ [HVal (v div 65536), HVal (v mod 65536)])
         | _ \<Rightarrow> None)
      else parse_all hextet_of parts)"

fun hx_vals :: "hx list \<Rightarrow> int list" where
  "hx_vals [] = []"
| "hx_vals (HEmpty # hs) = 0 # hx_vals hs"
| "hx_vals (HVal n # hs) = n # hx_vals hs"

text \<open>\<open>IPv6Address._ip_int_from_string\<close>: at most one interior empty piece (\<open>::\<close>); an empty
  first or last piece only next to it.\<close>

definition v6_of_pieces :: "hx list \<Rightarrow> int option" where
  "v6_of_pieces ps =
     (let n = length ps;
          holes = filter (\<lambda>i. ps ! i = HEmpty) [1 ..< n - 1]
      in if n > 9 then None
         else (case holes of
           [] \<Rightarrow> (if n \<noteq> 8 \<or> hd ps = HEmpty \<or> last ps = HEmpty then None
                  else Some (bytes_val 65536 0 (hx_vals ps)))
         | [k] \<Rightarrow>
             (let hi = (if hd ps = HEmpty then k - 1 else k);
                  lo = (if last ps = HEmpty then n - k - 2 else n - k - 1)
              in if (hd ps = HEmpty \<and> hi \<noteq> 0) \<or> (last ps = HEmpty \<and> lo \<noteq> 0) then None
                 else if hi + lo > 7 then None
                 else Some (bytes_val 65536 0
                        (hx_vals (take hi ps) @ replicate (8 - (hi + lo)) 0
                          @ hx_vals (drop (n - lo) ps))))
         | _ \<Rightarrow> None))"

text \<open>A scope id (\<open>fe80::1%eth0\<close>) must be a single non-empty suffix; it plays no part in
  membership, so it is dropped.\<close>

definition strip_scope :: "string \<Rightarrow> string option" where
  "strip_scope s =
     (case split_on CHR ''%'' s of
        [a] \<Rightarrow> Some a
      | [a, z] \<Rightarrow> (if z = [] then None else Some a)
      | _ \<Rightarrow> None)"

definition parse_v6 :: "string \<Rightarrow> int option" where
  "parse_v6 s =
     (case strip_scope s of None \<Rightarrow> None
      | Some a \<Rightarrow> (case v6_pieces a of None \<Rightarrow> None | Some ps \<Rightarrow> v6_of_pieces ps))"

definition ip_address :: "string \<Rightarrow> ip_addr option" where
  "ip_address s =
     (if CHR ''/'' \<in> set s then None
      else case parse_v4 s of
        Some n \<Rightarrow> Some (V4 (of_int n))
      | None \<Rightarrow> map_option (\<lambda>n. V6 (of_int n)) (parse_v6 s))"

section \<open>Networks\<close>

definition netmask :: "nat \<Rightarrow> nat \<Rightarrow> 'a::len word" where
  "netmask w k = NOT (mask (w - k))"

definition parse_prefix_len :: "nat \<Rightarrow> string \<Rightarrow> nat option" where
  "parse_prefix_len w s =
     (if s = [] \<or> \<not> list_all is_digit s then None
      else if dec_val 0 s > int w then None else Some (nat (dec_val 0 s)))"

text \<open>A dotted mask is a netmask or, failing that, a hostmask.\<close>

definition parse_v4_mask :: "string \<Rightarrow> nat option" where
  "parse_v4_mask s =
     (case parse_prefix_len 32 s of
        Some k \<Rightarrow> Some k
      | None \<Rightarrow>
          (case parse_v4 s of None \<Rightarrow> None
           | Some n \<Rightarrow>
               (case find (\<lambda>k. (netmask 32 k :: 32 word) = of_int n) [0 ..< 33] of
                  Some k \<Rightarrow> Some k
                | None \<Rightarrow> find (\<lambda>k. NOT (netmask 32 k) = (of_int n :: 32 word)) [0 ..< 33])))"

definition ip_network :: "string \<Rightarrow> ip_net option" where
  "ip_network s =
     (let parts = split_on CHR ''/'' s in
      if length parts > 2 then None
      else let a = hd parts;
               m4 = (if length parts = 2 then parse_v4_mask (parts ! 1) else Some 32);
               m6 = (if length parts = 2 then parse_prefix_len 128 (parts ! 1) else Some 128)
           in case (parse_v4 a, m4) of
                (Some n, Some k) \<Rightarrow> Some (Net4 (of_int n AND netmask 32 k) k)
              | _ \<Rightarrow> (case (parse_v6 a, m6) of
                   (Some n, Some k) \<Rightarrow> Some (Net6 (of_int n AND netmask 128 k) k)
                 | _ \<Rightarrow> None))"

fun in_net :: "ip_addr \<Rightarrow> ip_net \<Rightarrow> bool" where
  "in_net (V4 a) (Net4 b k) = (a AND netmask 32 k = b)"
| "in_net (V6 a) (Net6 b k) = (a AND netmask 128 k = b)"
| "in_net (V4 _) (Net6 _ _) = False"
| "in_net (V6 _) (Net4 _ _) = False"

section \<open>Membership\<close>

lemma netmask_nth: "k \<le> LENGTH('a) \<Longrightarrow>
    bit (netmask (LENGTH('a)) k :: 'a::len word) i \<longleftrightarrow> LENGTH('a) - k \<le> i \<and> i < LENGTH('a)"
  by (auto simp: netmask_def bit_simps)

lemma netmask_absorb:
  "j \<le> k \<Longrightarrow> (netmask w k :: 'a::len word) AND netmask w j = netmask w j"
  by (rule bit_word_eqI) (auto simp: netmask_def bit_simps)

text \<open>A host network (full prefix) holds one address; a shorter prefix holds more.\<close>

lemma in_net_host4: "in_net (V4 a) (Net4 b 32) \<longleftrightarrow> a = b"
  by (simp add: netmask_def)

lemma in_net_all4: "in_net (V4 a) (Net4 0 0)"
proof -
  have "(netmask 32 0 :: 32 word) = 0" 
    by (rule bit_word_eqI) (auto simp: netmask_def bit_simps)
  then show ?thesis by simp
qed

lemma in_net_base4: "in_net (V4 a) (Net4 (a AND netmask 32 k) k)"
  by simp

lemma in_net_widen4:
  assumes "in_net (V4 a) (Net4 b k)" "j \<le> k"
  shows "in_net (V4 a) (Net4 (b AND netmask 32 j) j)"
proof -
  have b: "b = a AND netmask 32 k" using assms(1) by simp
  show ?thesis using assms(2) by (simp add: b and.assoc netmask_absorb)
qed

end
