(* ===== verification/ChainMatch.thy ===== *)
theory ChainMatch
  imports GraphTypes Fnmatch IpNet
begin

text \<open>
  The rule matcher of \<open>agent/response/baseline.py\<close>: chain patterns, and one rule against
  the attributes of an event.  The regular-expression engine (\<open>re.compile(p,
  IGNORECASE).search(s)\<close>) is the parameter \<open>rx\<close>: \<open>rx p s = None\<close> means that \<open>p\<close> does not
  compile and \<open>re.error\<close> is raised.  The compile cache \<open>_regex_cache\<close> is invisible to
  callers and is left out.
\<close>

type_synonym regex_engine = "string \<Rightarrow> string \<Rightarrow> bool option"

section \<open>Chain entries\<close>

record chain_entry =
  entry_name :: string
  entry_cmdline :: string
  entry_container :: string

text \<open>The dictionary form of a chain step.  Keys that \<open>.get\<close> reads are options.\<close>

record chain_dict =
  cd_entity_type :: "string option"
  cd_entity_name :: string
  cd_cmd_line :: "string option"
  cd_container_id :: "string option"

datatype chain_arg = StepChain "chain_step list" | DictChain "chain_dict list"

definition get_or :: "'a \<Rightarrow> 'a option \<Rightarrow> 'a" where
  "get_or d x = (case x of None \<Rightarrow> d | Some v \<Rightarrow> v)"

definition step_entry :: "chain_step \<Rightarrow> chain_entry list" where
  "step_entry s =
     (if cs_entity_type s = ''user'' then
        [\<lparr>entry_name = ''USER:'' @ cs_entity_name s, entry_cmdline = [], entry_container = []\<rparr>]
      else if cs_entity_type s = ''process'' then
        [\<lparr>entry_name = cs_entity_name s, entry_cmdline = get_or [] (cs_cmd_line s),
          entry_container = get_or [] (cs_container_id s)\<rparr>]
      else [])"

definition dict_entry :: "chain_dict \<Rightarrow> chain_entry list" where
  "dict_entry s =
     (if cd_entity_type s = Some ''user'' then
        [\<lparr>entry_name = ''USER:'' @ cd_entity_name s, entry_cmdline = [], entry_container = []\<rparr>]
      else if cd_entity_type s = Some ''process'' then
        [\<lparr>entry_name = cd_entity_name s, entry_cmdline = get_or [] (cd_cmd_line s),
          entry_container = get_or [] (cd_container_id s)\<rparr>]
      else [])"

fun extract_chain_entries :: "chain_arg \<Rightarrow> chain_entry list" where
  "extract_chain_entries (StepChain ss) = concat (map step_entry ss)"
| "extract_chain_entries (DictChain ds) = concat (map dict_entry ds)"

definition extract_chain_names :: "chain_arg \<Rightarrow> string list" where
  "extract_chain_names c = map entry_name (extract_chain_entries c)"

section \<open>Matching one step\<close>

definition regex_search :: "regex_engine \<Rightarrow> string \<Rightarrow> string \<Rightarrow> bool res" where
  "regex_search rx p s = (case rx p s of None \<Rightarrow> Inl ReError | Some b \<Rightarrow> Inr b)"

definition match_step :: "regex_engine \<Rightarrow> chain_entry \<Rightarrow> string \<Rightarrow> bool res" where
  "match_step rx e part =
     (if prefix ''cmd_re:'' part then regex_search rx (drop 7 part) (entry_cmdline e)
      else if prefix ''cmd:'' part then
        Inr (fnmatch (py_lower (entry_cmdline e)) (py_lower (drop 4 part)))
      else if prefix ''ctr:'' part then
        Inr (fnmatch (py_lower (entry_container e)) (py_lower (drop 4 part)))
      else if prefix ''re:'' part then regex_search rx (drop 3 part) (entry_name e)
      else Inr (fnmatch (py_lower (entry_name e)) (py_lower part)))"

section \<open>Matching a chain\<close>

text \<open>The third argument is the index into the chain, the fourth the rest of the pattern
  from index \<open>pi\<close> on.\<close>

fun match_chain_recursive ::
    "regex_engine \<Rightarrow> chain_entry list \<Rightarrow> nat \<Rightarrow> string list \<Rightarrow> bool res" where
  "match_chain_recursive rx chain ci [] = Inr (ci = length chain)"
| "match_chain_recursive rx chain ci (part # ps) =
     (if part = ''**'' then
        anyR (\<lambda>skip. match_chain_recursive rx chain skip ps) [ci ..< length chain + 1]
      else if length chain \<le> ci then Inr False
      else if part = ''*'' then match_chain_recursive rx chain (ci + 1) ps
      else bindR (match_step rx (chain ! ci) part)
        (\<lambda>b. if b then match_chain_recursive rx chain (ci + 1) ps else Inr False))"

definition match_chain_pattern ::
    "regex_engine \<Rightarrow> chain_entry list \<Rightarrow> string list \<Rightarrow> bool res" where
  "match_chain_pattern rx chain parts =
     bindR (anyR (\<lambda>start. match_chain_recursive rx chain start parts) [0 ..< length chain])
       (\<lambda>b. if b then Inr True
            else if chain = [] then match_chain_recursive rx chain 0 parts else Inr False)"

definition pattern_parts :: "string \<Rightarrow> string list" where
  "pattern_parts pat = map py_strip (split_on CHR ''>'' pat)"

section \<open>Matching one rule\<close>

record rule =
  rule_type :: string
  pattern :: string
  description :: string
  chain_filter :: string
  chain_exclude :: string

record attrs =
  a_process_name :: string
  a_dst_ip :: string
  a_domain :: string
  a_file_path :: string
  a_finding_title :: string
  a_chain :: "chain_arg option"

definition no_attrs :: attrs where
  "no_attrs = \<lparr>a_process_name = [], a_dst_ip = [], a_domain = [], a_file_path = [],
     a_finding_title = [], a_chain = None\<rparr>"

definition chain_matches :: "regex_engine \<Rightarrow> chain_arg \<Rightarrow> string \<Rightarrow> bool res" where
  "chain_matches rx c pat = match_chain_pattern rx (extract_chain_entries c) (pattern_parts pat)"

definition chain_filter_ok :: "regex_engine \<Rightarrow> rule \<Rightarrow> attrs \<Rightarrow> bool res" where
  "chain_filter_ok rx r a =
     (if chain_filter r = [] then Inr True
      else case a_chain a of None \<Rightarrow> Inr False | Some c \<Rightarrow> chain_matches rx c (chain_filter r))"

definition chain_excluded :: "regex_engine \<Rightarrow> rule \<Rightarrow> attrs \<Rightarrow> bool res" where
  "chain_excluded rx r a =
     (case a_chain a of
        None \<Rightarrow> Inr False
      | Some c \<Rightarrow> (if chain_exclude r = [] then Inr False
                   else chain_matches rx c (chain_exclude r)))"

definition cidr_match :: "string \<Rightarrow> string \<Rightarrow> bool" where
  "cidr_match ip pat =
     (case (ip_address ip, ip_network pat) of
        (Some a, Some n) \<Rightarrow> in_net a n | _ \<Rightarrow> False)"

definition match_type :: "regex_engine \<Rightarrow> rule \<Rightarrow> attrs \<Rightarrow> bool res" where
  "match_type rx r a =
     (let rt = rule_type r; pat = pattern r in
      if rt = ''chain_pattern'' \<and> a_chain a \<noteq> None then chain_matches rx (the (a_chain a)) pat
      else if rt = ''process_name'' \<and> a_process_name a \<noteq> [] then
        Inr (fnmatch (py_lower (a_process_name a)) (py_lower pat))
      else if rt = ''dst_ip'' \<and> a_dst_ip a \<noteq> [] then Inr (a_dst_ip a = pat)
      else if rt = ''dst_cidr'' \<and> a_dst_ip a \<noteq> [] then Inr (cidr_match (a_dst_ip a) pat)
      else if rt = ''domain'' \<and> a_domain a \<noteq> [] then Inr (py_lower (a_domain a) = py_lower pat)
      else if rt = ''file_path'' \<and> a_file_path a \<noteq> [] then Inr (fnmatch (a_file_path a) pat)
      else if rt = ''finding_title'' \<and> a_finding_title a \<noteq> [] then
        Inr (fnmatch (a_finding_title a) pat)
      else Inr False)"

definition match_rule :: "regex_engine \<Rightarrow> rule \<Rightarrow> attrs \<Rightarrow> bool res" where
  "match_rule rx r a =
     bindR (chain_filter_ok rx r a) (\<lambda>ok.
       if \<not> ok then Inr False
       else bindR (chain_excluded rx r a) (\<lambda>ex.
         if ex then Inr False else match_type rx r a))"

section \<open>What a chain pattern denotes\<close>

fun chain_den :: "regex_engine \<Rightarrow> string list \<Rightarrow> chain_entry list set" where
  "chain_den rx [] = {[]}"
| "chain_den rx (part # ps) =
     (if part = ''**'' then {u @ v |u v. v \<in> chain_den rx ps}
      else if part = ''*'' then {e # v |e v. v \<in> chain_den rx ps}
      else {e # v |e v. match_step rx e part = Inr True \<and> v \<in> chain_den rx ps})"

lemma drop_den_star2:
  assumes "ci \<le> length chain"
  shows "drop ci chain \<in> {u @ v |u v. v \<in> D} \<longleftrightarrow>
    (\<exists>k \<in> set [ci ..< length chain + 1]. drop k chain \<in> D)"
proof
  assume "drop ci chain \<in> {u @ v |u v. v \<in> D}"
  then obtain u v where uv: "drop ci chain = u @ v" "v \<in> D" by blast
  have "v = drop (ci + length u) chain"
    by (metis add.commute append_eq_conv_conj drop_drop uv(1))
  moreover have "ci + length u \<le> length chain"
    using assms arg_cong [OF uv(1), of length] by simp
  ultimately show "\<exists>k \<in> set [ci ..< length chain + 1]. drop k chain \<in> D"
    using uv(2) by (intro bexI [of _ "ci + length u"]) auto
next
  assume "\<exists>k \<in> set [ci ..< length chain + 1]. drop k chain \<in> D"
  then obtain k where k: "ci \<le> k" "k \<le> length chain" "drop k chain \<in> D" by auto
  have "drop ci chain = take (k - ci) (drop ci chain) @ drop k chain"
    using k(1) by (metis append_take_drop_id drop_drop le_add_diff_inverse2)
  with k(3) show "drop ci chain \<in> {u @ v |u v. v \<in> D}" by blast
qed

lemma match_chain_recursive_den:
  "ci \<le> length chain \<Longrightarrow> match_chain_recursive rx chain ci ps = Inr b \<Longrightarrow>
     b \<longleftrightarrow> drop ci chain \<in> chain_den rx ps"
proof (induction ps arbitrary: ci b)
  case Nil
  then show ?case by auto
next
  case (Cons part ps)
  note IH = Cons.IH
  show ?case
  proof (cases "part = ''**''")
    case True
    have eq: "anyR (\<lambda>k. match_chain_recursive rx chain k ps) [ci ..< length chain + 1] = Inr b"
      using Cons.prems True by simp
    have "b \<longleftrightarrow> (\<exists>k \<in> set [ci ..< length chain + 1]. drop k chain \<in> chain_den rx ps)"
    proof (cases b)
      case True
      with eq have "anyR (\<lambda>k. match_chain_recursive rx chain k ps) [ci ..< length chain + 1]
          = Inr True" by simp
      then obtain k where k: "k \<in> set [ci ..< length chain + 1]"
          "match_chain_recursive rx chain k ps = Inr True"
        by (blast dest: anyR_TrueD)
      with IH [of k True] show ?thesis using True by auto
    next
      case False
      with eq have e: "anyR (\<lambda>k. match_chain_recursive rx chain k ps) [ci ..< length chain + 1]
          = Inr False" by simp
      have "drop k chain \<notin> chain_den rx ps" if k: "k \<in> set [ci ..< length chain + 1]" for k
      proof -
        have "k \<le> length chain" using k by auto
        with IH [of k False] anyR_FalseD [OF e k] show ?thesis by simp
      qed
      with False show ?thesis by blast
    qed
    also have "\<dots> \<longleftrightarrow> drop ci chain \<in> {u @ v |u v. v \<in> chain_den rx ps}"
      by (rule drop_den_star2 [symmetric]) (rule Cons.prems(1))
    finally show ?thesis using True by simp
  next
    case ns: False
    show ?thesis
    proof (cases "length chain \<le> ci")
      case True
      with ns Cons.prems show ?thesis by auto
    next
      case False
      then have d: "drop ci chain = chain ! ci # drop (ci + 1) chain"
        by (simp add: Cons_nth_drop_Suc)
      from False have le: "ci + 1 \<le> length chain" by simp
      show ?thesis
      proof (cases "part = ''*''")
        case True
        with ns False Cons.prems IH [OF le] d show ?thesis by auto
      next
        case nq: False
        from ns nq False Cons.prems have
          "bindR (match_step rx (chain ! ci) part)
             (\<lambda>b. if b then match_chain_recursive rx chain (ci + 1) ps else Inr False) = Inr b"
          by simp
        then obtain c where c: "match_step rx (chain ! ci) part = Inr c"
            "(if c then match_chain_recursive rx chain (ci + 1) ps else Inr False) = Inr b"
          by (auto simp: bindR_Inr_iff)
        show ?thesis using c ns nq d IH [OF le, of b] by (cases c) auto
      qed
    qed
  qed
qed

lemma Nil_in_chain_den: "[] \<in> chain_den rx ps \<Longrightarrow> ps \<noteq> [] \<Longrightarrow> c \<in> chain_den rx ps"
proof (induction ps)
  case (Cons p ps)
  then have "p = ''**''" "[] \<in> chain_den rx ps" by (auto split: if_splits)
  then have "c = c @ [] \<and> [] \<in> chain_den rx ps" by simp
  then have "\<exists>u v. c = u @ v \<and> v \<in> chain_den rx ps" by blast
  with \<open>p = ''**''\<close> show ?case by simp
qed simp

text \<open>The pattern is anchored at the end of the chain and free at its start.\<close>

lemma match_chain_pattern_suffix:
  assumes r: "match_chain_pattern rx chain parts = Inr b" and ne: "parts \<noteq> []"
  shows "b \<longleftrightarrow> (\<exists>s. suffix s chain \<and> s \<in> chain_den rx parts)"
proof -
  obtain a where a: "anyR (\<lambda>k. match_chain_recursive rx chain k parts) [0 ..< length chain] = Inr a"
      "(if a then Inr True else if chain = [] then match_chain_recursive rx chain 0 parts
        else Inr False) = Inr b"
    using r by (auto simp: match_chain_pattern_def bindR_Inr_iff)
  have suf: "(\<exists>s. suffix s chain \<and> s \<in> chain_den rx parts) \<longleftrightarrow>
      (\<exists>k < length chain. drop k chain \<in> chain_den rx parts)
      \<or> (chain = [] \<and> [] \<in> chain_den rx parts)" (is "?l = ?r")
  proof
    assume ?l
    then obtain s where s: "suffix s chain" "s \<in> chain_den rx parts" by blast
    show ?r
    proof (cases "s = []")
      case True
      with s(2) ne have "chain \<in> chain_den rx parts" by (simp add: Nil_in_chain_den)
      with True s(2) show ?thesis by (cases "chain = []") (auto intro!: exI [of _ 0])
    next
      case False
      from s(1) have "s = drop (length chain - length s) chain"
        by (auto simp: suffix_def)
      moreover have "length chain - length s < length chain"
        using s(1) False by (auto simp: suffix_def)
      ultimately show ?thesis using s(2) by metis
    qed
  next
    assume ?r
    then obtain k where "drop k chain \<in> chain_den rx parts" by (metis drop_Nil)
    then show ?l using suffix_drop by blast
  qed
  show ?thesis
  proof (cases a)
    case True
    with a(1) have "anyR (\<lambda>k. match_chain_recursive rx chain k parts) [0 ..< length chain]
        = Inr True" by simp
    then obtain k where k: "k < length chain" "match_chain_recursive rx chain k parts = Inr True"
      by (auto dest: anyR_TrueD)
    then have "drop k chain \<in> chain_den rx parts"
      using match_chain_recursive_den [of k chain rx parts True] by simp
    moreover have "b" using a(2) True by simp
    ultimately show ?thesis using suf k(1) by blast
  next
    case False
    with a(1) have e: "anyR (\<lambda>k. match_chain_recursive rx chain k parts) [0 ..< length chain]
        = Inr False" by simp
    have no: "drop k chain \<notin> chain_den rx parts" if k: "k < length chain" for k
      using match_chain_recursive_den [of k chain rx parts False] anyR_FalseD [OF e, of k] k by simp
    have "chain = [] \<Longrightarrow> b \<longleftrightarrow> [] \<in> chain_den rx parts"
      using match_chain_recursive_den [of 0 chain rx parts b] a(2) False by simp
    with no show ?thesis using a(2) False suf by (cases "chain = []") auto
  qed
qed

lemma pattern_parts_not_Nil [simp]: "pattern_parts p \<noteq> []"
  by (simp add: pattern_parts_def)

section \<open>When matching raises\<close>

definition regex_part :: "string \<Rightarrow> bool" where
  "regex_part p \<longleftrightarrow> prefix ''re:'' p \<or> prefix ''cmd_re:'' p"

lemma match_step_total: "\<not> regex_part p \<Longrightarrow> \<exists>b. match_step rx e p = Inr b"
  by (auto simp: match_step_def regex_part_def)

lemma match_step_error: "match_step rx e p = Inl x \<Longrightarrow> x = ReError \<and> regex_part p"
  by (auto simp: match_step_def regex_part_def regex_search_def split: if_splits option.splits)

lemma anyR_error: "anyR p xs = Inl x \<Longrightarrow> \<exists>y \<in> set xs. p y = Inl x"
  by (induction xs) (auto simp: bindR_Inl_iff split: if_splits)

lemma match_chain_recursive_error:
  "match_chain_recursive rx chain ci ps = Inl x \<Longrightarrow> x = ReError \<and> (\<exists>p \<in> set ps. regex_part p)"
proof (induction ps arbitrary: ci)
  case (Cons p ps)
  then show ?case
    by (fastforce simp: bindR_Inl_iff split: if_splits dest: anyR_error match_step_error)
qed simp

lemma match_chain_pattern_error:
  "match_chain_pattern rx chain parts = Inl x \<Longrightarrow> x = ReError \<and> (\<exists>p \<in> set parts. regex_part p)"
  by (auto simp: match_chain_pattern_def bindR_Inl_iff split: if_splits
      dest!: anyR_error match_chain_recursive_error)

definition regex_free :: "string \<Rightarrow> bool" where
  "regex_free pat \<longleftrightarrow> list_all (\<lambda>p. \<not> regex_part p) (pattern_parts pat)"

lemma chain_matches_total: "regex_free pat \<Longrightarrow> \<exists>b. chain_matches rx c pat = Inr b"
  by (cases "chain_matches rx c pat")
    (auto simp: chain_matches_def regex_free_def list_all_iff dest: match_chain_pattern_error)

definition regex_free_rule :: "rule \<Rightarrow> bool" where
  "regex_free_rule r \<longleftrightarrow> regex_free (chain_filter r) \<and> regex_free (chain_exclude r)
     \<and> (rule_type r = ''chain_pattern'' \<longrightarrow> regex_free (pattern r))"

section \<open>Properties\<close>

text \<open>C11. Whenever a chain pattern can be evaluated at all, its answer is the meaning the
  comment promises: some tail of the chain is in the language of the pattern, where
  \<open>**\<close> stands for any run of steps, \<open>*\<close> for one, and any other part for one step that
  passes its glob or regular expression.\<close>

theorem chain_pattern_meaning:
  assumes "chain_matches rx c pat = Inr b"
  shows "b \<longleftrightarrow> (\<exists>s. suffix s (extract_chain_entries c) \<and> s \<in> chain_den rx (pattern_parts pat))"
  using match_chain_pattern_suffix [OF assms [unfolded chain_matches_def]] by simp

definition sample_chain :: chain_arg where
  "sample_chain = StepChain
     [mk_chain_step ''user'' ''u'' ''alice'' None, mk_chain_step ''process'' ''h:1:1'' ''sshd'' (Some 1),
      mk_chain_step ''process'' ''h:2:2'' ''bash'' (Some 2), mk_chain_step ''process'' ''h:3:3'' ''curl'' (Some 3)]"

theorem chain_pattern_meaning_witness:
  "\<exists>s. suffix s (extract_chain_entries sample_chain)
     \<and> s \<in> chain_den (\<lambda>p s. None) (pattern_parts ''SSHD > ** > cu*'')"
proof -
  have "chain_matches (\<lambda>p s. None) sample_chain ''SSHD > ** > cu*'' = Inr True" by code_simp
  from chain_pattern_meaning [OF this] show ?thesis by simp
qed

end
