(* ===== verification/ProcCaches.thy ===== *)
theory ProcCaches
  imports PidIndex ChainMatch
begin

text \<open>
  The per-process caches of \<open>agent/processor/entity_extractor.py\<close>, the container id read
  from the cgroup file, and the ancestor walk of
  \<open>agent/processor/synchronous_enforcer.py\<close>.  The operating system is data: \<open>os_procs\<close> is
  the process table psutil sees during a call (a pid that is missing makes psutil raise),
  and \<open>os_cgroup\<close> gives the lines of \<open>/proc/pid/cgroup\<close>, or \<open>None\<close> when the file cannot be
  opened.
\<close>

section \<open>The operating system and the caches\<close>

record os_proc =
  op_ppid :: int
  op_name :: string
  op_cmdline :: "string list option"
  op_exe :: "string option"
  op_username :: "string option"
  op_create_time :: datetime

text \<open>\<open>op_cmdline\<close>, \<open>op_exe\<close>: \<open>None\<close> when access is denied; \<open>op_username\<close>: \<open>None\<close> when
  \<open>username()\<close> raises.\<close>

record os =
  os_procs :: "(int, os_proc) dict"
  os_cgroup :: "int \<Rightarrow> string list option"

record proc_caches =
  ppid_cache :: "(int, int) dict"
  create_time_cache :: "(int, datetime) dict"
  username_cache :: "(int, string) dict"
  name_cache :: "(int, string) dict"
  cmdline_cache :: "(int, string) dict"
  container_cache :: "(int, string) dict"

definition empty_caches :: proc_caches where
  "empty_caches = \<lparr>ppid_cache = [], create_time_cache = [], username_cache = [],
     name_cache = [], cmdline_cache = [], container_cache = []\<rparr>"

section \<open>Container ids\<close>

definition hex_lower :: "char \<Rightarrow> bool" where
  "hex_lower c \<longleftrightarrow> c \<in> set ''0123456789abcdef''"

definition remove_scope :: "string \<Rightarrow> string" where
  "remove_scope s = (if suffix ''.scope'' s then take (length s - 6) s else s)"

text \<open>\<open>part[n:-6][:12]\<close>.\<close>

definition scope_body :: "nat \<Rightarrow> string \<Rightarrow> string" where
  "scope_body n s = take 12 (drop n (take (length s - 6) s))"

text \<open>The inner loop: the id of the first part that has one; an empty id breaks the loop
  over the parts as well, and the next line is read.\<close>

fun container_of_parts :: "string list \<Rightarrow> string" where
  "container_of_parts [] = []"
| "container_of_parts (p # ps) =
     (if prefix ''docker-'' p \<and> suffix ''.scope'' p then scope_body 7 p
      else if prefix ''cri-containerd-'' p \<and> suffix ''.scope'' p then scope_body 15 p
      else if length (remove_scope p) = 64 \<and> list_all hex_lower (remove_scope p)
        then take 12 (remove_scope p)
      else container_of_parts ps)"

fun container_of_lines :: "string list \<Rightarrow> string" where
  "container_of_lines [] = []"
| "container_of_lines (l # ls) =
     (let c = container_of_parts (split_on CHR ''/'' (py_strip l))
      in if c \<noteq> [] then c else container_of_lines ls)"

definition get_container_id :: "os \<Rightarrow> int \<Rightarrow> proc_caches \<Rightarrow> string \<times> proc_caches" where
  "get_container_id s pid c =
     (if pid \<le> 0 then ([], c)
      else case d_get (container_cache c) pid of
        Some v \<Rightarrow> (v, c)
      | None \<Rightarrow>
          let v = (case os_cgroup s pid of None \<Rightarrow> [] | Some ls \<Rightarrow> container_of_lines ls)
          in (v, c\<lparr>container_cache := d_set pid v (container_cache c)\<rparr>))"

section \<open>One psutil lookup\<close>

definition resolve_via_psutil ::
    "os \<Rightarrow> int \<Rightarrow> proc_caches \<Rightarrow> (int option \<times> string \<times> string) \<times> proc_caches" where
  "resolve_via_psutil s pid c = (case d_get (os_procs s) pid of
     None \<Rightarrow> ((None, [], []), c)
   | Some p \<Rightarrow>
       let cmd = (case op_cmdline p of None \<Rightarrow> [] | Some ps \<Rightarrow> join_with '' '' ps);
           c = (if op_ppid p > 0
                then c\<lparr>ppid_cache := d_set pid (op_ppid p) (ppid_cache c)\<rparr> else c);
           c = (if op_name p \<noteq> []
                then c\<lparr>name_cache := d_set pid (op_name p) (name_cache c)\<rparr> else c);
           c = (if cmd \<noteq> []
                then c\<lparr>cmdline_cache := d_set pid cmd (cmdline_cache c)\<rparr> else c)
       in ((if op_ppid p > 0 then Some (op_ppid p) else None, op_name p, cmd), c))"

section \<open>The ancestor walk\<close>

definition parent_of ::
    "pid_index \<Rightarrow> os \<Rightarrow> int \<Rightarrow> proc_caches \<Rightarrow> int option \<times> proc_caches" where
  "parent_of ix s cur c =
     (case (if built ix then get_parent_pid ix cur else None) of
        Some p \<Rightarrow> (Some p, c)
      | None \<Rightarrow>
          (case d_get (ppid_cache c) cur of
             Some p \<Rightarrow> if p > 0 then (Some p, c)
               else (let (r, c') = resolve_via_psutil s cur c in (fst r, c'))
           | None \<Rightarrow> (let (r, c') = resolve_via_psutil s cur c in (fst r, c'))))"

definition ancestor_name ::
    "pid_index \<Rightarrow> os \<Rightarrow> int \<Rightarrow> proc_caches \<Rightarrow> string \<times> proc_caches" where
  "ancestor_name ix s p c =
     (let n = (if built ix then get_name ix p else []);
          n = (if n = [] then d_get_or (name_cache c) p [] else n)
      in if n = [] then (let ((_, n, _), c') = resolve_via_psutil s p c in (n, c')) else (n, c))"

definition ancestor_cmdline :: "os \<Rightarrow> int \<Rightarrow> proc_caches \<Rightarrow> string \<times> proc_caches" where
  "ancestor_cmdline s p c =
     (let m = d_get_or (cmdline_cache c) p []
      in if m = [] then (let ((_, _, m), c') = resolve_via_psutil s p c in (m, c')) else (m, c))"

text \<open>One turn of the loop: the parent and its entry, or \<open>None\<close> for the \<open>break\<close>.\<close>

definition walk_step ::
    "pid_index \<Rightarrow> os \<Rightarrow> int \<Rightarrow> proc_caches \<Rightarrow> (int \<times> chain_entry) option \<times> proc_caches" where
  "walk_step ix s cur c =
     (case parent_of ix s cur c of
        (None, c) \<Rightarrow> (None, c)
      | (Some p, c) \<Rightarrow>
          if p \<le> 0 then (None, c)
          else let (n, c) = ancestor_name ix s p c;
                   (m, c) = ancestor_cmdline s p c;
                   (ctr, c) = get_container_id s p c;
                   n = (if n = [] then ''pid:'' @ int_str p else n)
               in (Some (p, \<lparr>entry_name = n, entry_cmdline = m, entry_container = ctr\<rparr>), c))"

text \<open>Every pid the walk can step to: the finite universe that makes it end.\<close>

definition parent_universe :: "pid_index \<Rightarrow> os \<Rightarrow> proc_caches \<Rightarrow> int set" where
  "parent_universe ix s c = snd ` set (pid_to_ppid ix) \<union> snd ` set (ppid_cache c)
     \<union> (\<lambda>(_, p). op_ppid p) ` set (os_procs s)"

lemma finite_universe [simp]: "finite (parent_universe ix s c)"
  by (simp add: parent_universe_def)

lemma d_set_snd: "snd ` set (d_set k v d) \<subseteq> insert v (snd ` set d)"
proof (induction d)
  case (Cons a d)
  then show ?case by (cases a) (auto simp: d_set_def image_iff)
qed (simp add: d_set_def)

lemma resolve_ppid_cache:
  "resolve_via_psutil s pid c = (r, c') \<Longrightarrow>
     snd ` set (ppid_cache c') \<subseteq> snd ` set (ppid_cache c) \<union> (\<lambda>(_, p). op_ppid p) ` set (os_procs s)"
proof -
  assume a: "resolve_via_psutil s pid c = (r, c')"
  show ?thesis
  proof (cases "d_get (os_procs s) pid")
    case None
    with a show ?thesis by (auto simp: resolve_via_psutil_def)
  next
    case (Some p)
    from d_get_in [OF Some] have o: "op_ppid p \<in> (\<lambda>(_, p). op_ppid p) ` set (os_procs s)"
      by (force simp: image_iff)
    have "ppid_cache c' = ppid_cache c \<or> ppid_cache c' = d_set pid (op_ppid p) (ppid_cache c)"
      using a Some by (auto simp: resolve_via_psutil_def Let_def split: if_splits)
    then have "snd ` set (ppid_cache c') \<subseteq> insert (op_ppid p) (snd ` set (ppid_cache c))"
      using d_set_snd [of pid "op_ppid p" "ppid_cache c"] by (metis subset_insertI)
    also have "\<dots> \<subseteq> snd ` set (ppid_cache c) \<union> (\<lambda>(_, p). op_ppid p) ` set (os_procs s)"
      using o by (intro insert_subsetI UnI2 Un_upper1)
    finally show ?thesis .
  qed
qed

lemma resolve_universe:
  "resolve_via_psutil s pid c = (r, c') \<Longrightarrow> parent_universe ix s c' \<subseteq> parent_universe ix s c"
  using resolve_ppid_cache unfolding parent_universe_def by blast

lemma resolve_parent:
  "resolve_via_psutil s pid c = ((Some p, n, m), c') \<Longrightarrow>
     p > 0 \<and> p \<in> (\<lambda>(_, p). op_ppid p) ` set (os_procs s)"
  by (auto simp: resolve_via_psutil_def Let_def image_iff split: option.splits if_splits
      dest!: d_get_in) force+

lemma get_parent_in: "get_parent_pid ix cur = Some p \<Longrightarrow> p > 0 \<and> p \<in> snd ` set (pid_to_ppid ix)"
  by (auto simp: get_parent_pid_def image_iff split: option.splits if_splits dest!: d_get_in) force

lemma parent_of_universe:
  assumes "parent_of ix s cur c = (r, c')"
  shows "parent_universe ix s c' \<subseteq> parent_universe ix s c"
    "\<And>p. r = Some p \<Longrightarrow> p > 0 \<and> p \<in> parent_universe ix s c"
proof -
  consider (index) p where "r = Some p" "c' = c" "get_parent_pid ix cur = Some p"
    | (cache) "c' = c" "r = d_get (ppid_cache c) cur" "\<forall>p. r = Some p \<longrightarrow> p > 0"
    | (os) q where "resolve_via_psutil s cur c = (q, c')" "r = fst q"
    using assms by (auto simp: parent_of_def split: option.splits if_splits prod.splits)
  then have "parent_universe ix s c' \<subseteq> parent_universe ix s c
     \<and> (\<forall>p. r = Some p \<longrightarrow> p > 0 \<and> p \<in> parent_universe ix s c)"
  proof cases
    case index
    then show ?thesis using get_parent_in unfolding parent_universe_def by fast
  next
    case cache
    then have "p \<in> snd ` set (ppid_cache c)" if "r = Some p" for p
      using that d_get_in [of "ppid_cache c" cur p] by (simp add: image_iff) force
    with cache show ?thesis unfolding parent_universe_def by blast
  next
    case os
    obtain q1 n m where q: "q = (q1, n, m)" by (cases q)
    have "parent_universe ix s c' \<subseteq> parent_universe ix s c" using os resolve_universe by blast
    moreover have "p > 0 \<and> p \<in> parent_universe ix s c" if "r = Some p" for p
      using that os q resolve_parent [of s cur c p n m c'] unfolding parent_universe_def by simp
    ultimately show ?thesis by blast
  qed
  then show "parent_universe ix s c' \<subseteq> parent_universe ix s c"
    "\<And>p. r = Some p \<Longrightarrow> p > 0 \<and> p \<in> parent_universe ix s c" by blast+
qed

lemma container_universe:
  "get_container_id s p c = (v, c') \<Longrightarrow> parent_universe ix s c' = parent_universe ix s c"
  by (auto simp: get_container_id_def parent_universe_def Let_def split: if_splits option.splits)

lemma ancestor_name_universe:
  "ancestor_name ix s p c = (n, c') \<Longrightarrow> parent_universe ix s c' \<subseteq> parent_universe ix s c"
  using resolve_universe
  by (fastforce simp: ancestor_name_def Let_def split: if_splits prod.splits)

lemma ancestor_cmdline_universe:
  "ancestor_cmdline s p c = (n, c') \<Longrightarrow> parent_universe ix s c' \<subseteq> parent_universe ix s c"
  using resolve_universe
  by (fastforce simp: ancestor_cmdline_def Let_def split: if_splits prod.splits)

lemma walk_step_universe:
  assumes "walk_step ix s cur c = (r, c')"
  shows "parent_universe ix s c' \<subseteq> parent_universe ix s c"
    "\<And>p e. r = Some (p, e) \<Longrightarrow> p > 0 \<and> p \<in> parent_universe ix s c"
proof -
  obtain q c1 where 1: "parent_of ix s cur c = (q, c1)" by force
  note u1 = parent_of_universe [OF 1]
  consider (stop) "r = None" "c' = c1"
    | (go) p n c2 m c3 ctr e where "q = Some p" "ancestor_name ix s p c1 = (n, c2)"
      "ancestor_cmdline s p c2 = (m, c3)" "get_container_id s p c3 = (ctr, c')" "r = Some (p, e)"
    using assms 1 by (auto simp: walk_step_def Let_def split: option.splits if_splits prod.splits)
  then have "parent_universe ix s c' \<subseteq> parent_universe ix s c
     \<and> (\<forall>p e. r = Some (p, e) \<longrightarrow> p > 0 \<and> p \<in> parent_universe ix s c)"
  proof cases
    case stop
    with u1 show ?thesis by simp
  next
    case go
    have "parent_universe ix s c' \<subseteq> parent_universe ix s c"
      using u1(1) ancestor_name_universe [OF go(2)] ancestor_cmdline_universe [OF go(3), of ix]
        container_universe [OF go(4), of ix] by blast
    with go u1(2) show ?thesis by blast
  qed
  then show "parent_universe ix s c' \<subseteq> parent_universe ix s c"
    "\<And>p e. r = Some (p, e) \<Longrightarrow> p > 0 \<and> p \<in> parent_universe ix s c" by blast+
qed

lemma walk_step_measure:
  assumes "walk_step ix s cur c = (Some (p, e), c')" "cur \<notin> seen"
  shows "card (insert p (parent_universe ix s c') - insert cur seen)
    < card (insert cur (parent_universe ix s c) - seen)"
proof (rule psubset_card_mono)
  show "insert p (parent_universe ix s c') - insert cur seen
      \<subset> insert cur (parent_universe ix s c) - seen"
    using walk_step_universe [OF assms(1)] assms(2) by blast
qed simp

function walk_ancestors ::
    "pid_index \<Rightarrow> os \<Rightarrow> int set \<Rightarrow> int \<Rightarrow> chain_entry list \<Rightarrow> proc_caches
      \<Rightarrow> chain_entry list \<times> proc_caches" where
  "walk_ancestors ix s seen cur acc c =
     (if cur > 0 \<and> cur \<notin> seen
      then case walk_step ix s cur c of
          (None, c') \<Rightarrow> (acc, c')
        | (Some (p, e), c') \<Rightarrow> walk_ancestors ix s (insert cur seen) p (acc @ [e]) c'
      else (acc, c))"
  by pat_completeness auto

termination
  apply (relation "measure (\<lambda>(ix, s, seen, cur, acc, c).
    card (insert cur (parent_universe ix s c) - seen))")
   apply simp
  apply clarsimp
  apply (drule sym)
  apply (erule (1) walk_step_measure)
  done

declare walk_ancestors.simps [simp del]

definition build_chain_from_caches ::
    "pid_index \<Rightarrow> os \<Rightarrow> int \<Rightarrow> string \<Rightarrow> proc_caches \<Rightarrow> chain_entry list \<times> proc_caches" where
  "build_chain_from_caches ix s pid name c =
     (let (ancestors, c) = walk_ancestors ix s {} pid [] c;
          user = d_get_or (username_cache c) pid [];
          cmd = d_get_or (cmdline_cache c) pid [];
          (ctr, c) = get_container_id s pid c
      in ((if user = [] then []
           else [\<lparr>entry_name = ''USER:'' @ user, entry_cmdline = [], entry_container = []\<rparr>])
          @ rev ancestors
          @ [\<lparr>entry_name = name, entry_cmdline = cmd, entry_container = ctr\<rparr>], c))"

lemma walk_ancestors_length:
  "cur > 0 \<Longrightarrow> length (fst (walk_ancestors ix s seen cur acc c))
     \<le> length acc + card (insert cur (parent_universe ix s c) - seen)"
proof (induction ix s seen cur acc c rule: walk_ancestors.induct)
  case (1 ix s seen cur acc c)
  show ?case
  proof (cases "cur \<in> seen")
    case True
    then show ?thesis by (subst walk_ancestors.simps) simp
  next
    case False
    obtain r c' where w: "walk_step ix s cur c = (r, c')" by force
    show ?thesis
    proof (cases r)
      case None
      with w 1(2) False show ?thesis by (subst walk_ancestors.simps) simp
    next
      case (Some pe)
      obtain p e where pe: "pe = (p, e)" by force
      with w Some have ws: "walk_step ix s cur c = (Some (p, e), c')" by simp
      from walk_step_universe(2) [OF ws] have p: "p > 0" by blast
      have ih: "length (fst (walk_ancestors ix s (insert cur seen) p (acc @ [e]) c'))
          \<le> length (acc @ [e]) + card (insert p (parent_universe ix s c') - insert cur seen)"
        by (rule 1(1)) (use 1(2) False ws p in auto)
      have "walk_ancestors ix s seen cur acc c
          = walk_ancestors ix s (insert cur seen) p (acc @ [e]) c'"
        using 1(2) False ws by (subst walk_ancestors.simps) simp
      with ih walk_step_measure [OF ws False] show ?thesis by simp
    qed
  qed
qed

section \<open>Properties\<close>

text \<open>C40. The chain built for a process always ends, also when parents form a cycle: it has at most
  one entry per pid the index, the caches or the process table name as a parent, one for the
  process's own first step, one for the user and one for the process.\<close>

theorem chain_walk_bounded:
  assumes "pid > 0"
  shows "length (fst (build_chain_from_caches ix s pid n c)) \<le> card (parent_universe ix s c) + 3"
proof -
  obtain anc c1 where w: "walk_ancestors ix s {} pid [] c = (anc, c1)" by force
  have "length anc \<le> card (insert pid (parent_universe ix s c))"
    using walk_ancestors_length [OF assms, of ix s "{}" "[]" c] w by simp
  also have "\<dots> \<le> card (parent_universe ix s c) + 1" by (simp add: card_insert_le_m1 card_insert_if)
  finally show ?thesis by (simp add: build_chain_from_caches_def w Let_def case_prod_beta)
qed

theorem chain_walk_bounded_witness:
  "length (fst (build_chain_from_caches new_index
     \<lparr>os_procs = [(2, \<lparr>op_ppid = 3, op_name = ''a'', op_cmdline = None, op_exe = None, op_username = None,
         op_create_time = 0\<rparr>), (3, \<lparr>op_ppid = 2, op_name = ''b'', op_cmdline = None, op_exe = None,
         op_username = None, op_create_time = 0\<rparr>)], os_cgroup = (\<lambda>p. None)\<rparr> 2 ''a'' empty_caches)) \<le> 5"
  by (rule order.trans [OF chain_walk_bounded])
    (simp_all add: parent_universe_def new_index_def empty_caches_def card_insert_if)

end
