(* ===== verification/PyStr.thy ===== *)
theory PyStr
  imports Prelude
begin

text \<open>
  More of Python's string library, on ASCII text: \<open>s.split()\<close>, \<open>s.splitlines(keepends=True)\<close>,
  \<open>repr\<close> of a string, \<open>find\<close> and \<open>rfind\<close> of one character, \<open>replace\<close> of one
  character, and hexadecimal rendering.
\<close>

section \<open>Splitting\<close>

text \<open>\<open>s.split()\<close>: the maximal runs of non-space characters.\<close>

fun py_words :: "string \<Rightarrow> string list" where
  "py_words [] = []"
| "py_words (c # cs) =
     (if py_space c then py_words cs
      else case cs of
        [] \<Rightarrow> [[c]]
      | d # _ \<Rightarrow> if py_space d then [c] # py_words cs
                else case py_words cs of [] \<Rightarrow> [[c]] | w # ws \<Rightarrow> (c # w) # ws)"

text \<open>The line boundaries of \<open>str.splitlines\<close> below 256, after newline translation.\<close>

definition line_break :: "char \<Rightarrow> bool" where
  "line_break c = (let n = (of_char c :: int) in n = 10 \<or> n = 11 \<or> n = 12 \<or> n = 28 \<or> n = 29 \<or> n = 30 \<or> n = 133)"

fun split_lines :: "string \<Rightarrow> string list" where
  "split_lines [] = []"
| "split_lines (c # cs) =
     (if line_break c then [c] # split_lines cs
      else case split_lines cs of [] \<Rightarrow> [[c]] | l # ls \<Rightarrow> (c # l) # ls)"

lemma concat_split_lines [simp]: "concat (split_lines s) = s"
  by (induction s) (auto split: list.splits)

text \<open>A line with its terminator, as the code appends them.\<close>

definition full_line :: "string \<Rightarrow> bool" where
  "full_line l \<longleftrightarrow> l \<noteq> [] \<and> line_break (last l) \<and> list_all (\<lambda>c. \<not> line_break c) (butlast l)"

lemma split_lines_not_Nil [simp]: "split_lines (c # cs) \<noteq> []"
  by (auto split: list.splits)

lemma split_lines_Cons_full: "full_line l \<Longrightarrow> split_lines (l @ s) = l # split_lines s"
proof (induction l)
  case (Cons c l)
  show ?case
  proof (cases "l = []")
    case True
    with Cons.prems show ?thesis by (simp add: full_line_def)
  next
    case False
    with Cons.prems have "full_line l" "\<not> line_break c" by (auto simp: full_line_def)
    with Cons.IH show ?thesis by simp
  qed
qed (simp add: full_line_def)

lemma split_lines_concat: "list_all full_line ls \<Longrightarrow> split_lines (concat ls) = ls"
  by (induction ls) (auto simp: split_lines_Cons_full)

lemma split_lines_append:
  "list_all full_line ls \<Longrightarrow> split_lines (concat ls @ s) = ls @ split_lines s"
  by (induction ls) (auto simp: split_lines_Cons_full)

section \<open>Searching and replacing\<close>

definition py_contains :: "string \<Rightarrow> string \<Rightarrow> bool" where
  "py_contains sub s \<longleftrightarrow> sublist sub s"

text \<open>The text before and after the first and the last occurrence of a character.\<close>

definition before_first :: "char \<Rightarrow> string \<Rightarrow> string" where
  "before_first c s = takeWhile (\<lambda>d. d \<noteq> c) s"

definition after_first :: "char \<Rightarrow> string \<Rightarrow> string" where
  "after_first c s = drop 1 (dropWhile (\<lambda>d. d \<noteq> c) s)"

definition before_last :: "char \<Rightarrow> string \<Rightarrow> string" where
  "before_last c s = rev (after_first c (rev s))"

definition after_last :: "char \<Rightarrow> string \<Rightarrow> string" where
  "after_last c s = rev (before_first c (rev s))"

text \<open>The text after the last occurrence of a two-character separator, or all of it.\<close>

fun after_last2 :: "char \<Rightarrow> char \<Rightarrow> string \<Rightarrow> string \<Rightarrow> string" where
  "after_last2 a b best (c # d # s) =
     (if c = a \<and> d = b then after_last2 a b s s else after_last2 a b best (d # s))"
| "after_last2 a b best s = best"

definition replace_char :: "char \<Rightarrow> char \<Rightarrow> string \<Rightarrow> string" where
  "replace_char a b s = map (\<lambda>c. if c = a then b else c) s"

section \<open>Rendering\<close>

definition hex_digit :: "bool \<Rightarrow> int \<Rightarrow> char" where
  "hex_digit up d = (if d < 10 then char_of (48 + d) else char_of ((if up then 55 else 87) + d))"

function hex_str :: "bool \<Rightarrow> int \<Rightarrow> string" where
  "hex_str up n = (if n < 16 then [hex_digit up n] else hex_str up (n div 16) @ [hex_digit up (n mod 16)])"
  by pat_completeness auto
termination
  by (relation "measure (\<lambda>(_, n). nat n)") auto

declare hex_str.simps [simp del]

definition pad_left :: "nat \<Rightarrow> char \<Rightarrow> string \<Rightarrow> string" where
  "pad_left w c s = replicate (w - length s) c @ s"

text \<open>\<open>f"{n:08X}"\<close>: the sign comes first and counts for the width.\<close>

definition fmt_08X :: "int \<Rightarrow> string" where
  "fmt_08X n = (if n < 0 then CHR ''-'' # pad_left 7 CHR ''0'' (hex_str True (- n))
                else pad_left 8 CHR ''0'' (hex_str True n))"

text \<open>\<open>repr(s)\<close> on characters below 128.\<close>

definition repr_char :: "char \<Rightarrow> char \<Rightarrow> string" where
  "repr_char q c = (let n = (of_char c :: int) in
     if c = q \<or> n = 92 then [char_of (92 :: int), c]
     else if n = 9 then [char_of (92 :: int), CHR ''t'']
     else if n = 10 then [char_of (92 :: int), CHR ''n'']
     else if n = 13 then [char_of (92 :: int), CHR ''r'']
     else if n < 32 \<or> n = 127 then char_of (92 :: int) # CHR ''x'' # pad_left 2 CHR ''0'' (hex_str False n)
     else [c])"

definition single_quote :: char where
  "single_quote = char_of (39 :: int)"

definition double_quote :: char where
  "double_quote = char_of (34 :: int)"

definition py_repr :: "string \<Rightarrow> string" where
  "py_repr s =
     (let q = (if single_quote \<in> set s \<and> double_quote \<notin> set s then double_quote else single_quote)
      in [q] @ concat (map (repr_char q) s) @ [q])"

definition nl :: string where
  "nl = [char_of (10 :: int)]"

end
