(* ===== verification/Persistence.thy ===== *)
theory Persistence
  imports GraphTypes PyDict PyStr
begin

text \<open>
  Rule-based persistence detection: \<open>agent/analysis/persistence_detector.py\<close>.  The tables are
  lists in the order of the dictionaries.  The record \<open>host\<close> holds what the code asks the
  system: \<open>sys.platform\<close> and the home directory \<open>~\<close> expands to.
\<close>

section \<open>Tables\<close>

text \<open>The raw strings of the Windows table, with \<open>/\<close> for the backslash.\<close>

definition win_key :: "string \<Rightarrow> string" where
  "win_key s = replace_char CHR ''/'' CHR 0x5C s"

definition WINDOWS_PERSISTENCE_KEYS :: "(string \<times> string \<times> string) list" where
  "WINDOWS_PERSISTENCE_KEYS =
     [(win_key ''HKLM/SOFTWARE/Microsoft/Windows/CurrentVersion/Run'', ''registry_run_key'', ''T1547.001''),
      (win_key ''HKLM/SOFTWARE/Microsoft/Windows/CurrentVersion/RunOnce'', ''registry_run_key'', ''T1547.001''),
      (win_key ''HKCU/SOFTWARE/Microsoft/Windows/CurrentVersion/Run'', ''registry_run_key'', ''T1547.001''),
      (win_key ''HKCU/SOFTWARE/Microsoft/Windows/CurrentVersion/RunOnce'', ''registry_run_key'', ''T1547.001''),
      (win_key ''HKLM/SYSTEM/CurrentControlSet/Services'', ''windows_service'', ''T1543.003''),
      (win_key ''HKLM/SOFTWARE/Microsoft/Windows NT/CurrentVersion/Winlogon/Shell'', ''winlogon'', ''T1547.001''),
      (win_key ''HKLM/SOFTWARE/Microsoft/Windows NT/CurrentVersion/Winlogon/Userinit'', ''winlogon'', ''T1547.001''),
      (win_key ''HKLM/SOFTWARE/Classes/*/shellex/ContextMenuHandlers'', ''com_hijack'', ''T1546.015''),
      (win_key ''HKLM/SOFTWARE/Classes/CLSID'', ''com_hijack'', ''T1546.015''),
      (win_key ''HKLM/SOFTWARE/Microsoft/WBEM/ESS'', ''wmi_event_subscription'', ''T1546.003''),
      (win_key ''HKLM/SOFTWARE/Microsoft/Windows NT/CurrentVersion/Schedule/TaskCache'', ''scheduled_task'', ''T1053.005''),
      (win_key ''HKLM/SOFTWARE/Microsoft/Windows NT/CurrentVersion/Windows/AppInit_DLLs'', ''appinit_dlls'', ''T1546.010''),
      (win_key ''HKLM/SOFTWARE/Microsoft/Windows NT/CurrentVersion/Image File Execution Options'', ''ifeo_debugger'', ''T1546.012'')]"

definition MACOS_PERSISTENCE_PATHS :: "(string \<times> string \<times> string) list" where
  "MACOS_PERSISTENCE_PATHS =
     [(''~/Library/LaunchAgents/'', ''launch_agent'', ''T1543.001''),
      (''/Library/LaunchAgents/'', ''launch_agent'', ''T1543.001''),
      (''/Library/LaunchDaemons/'', ''launch_daemon'', ''T1543.004''),
      (''~/Library/Application Support/com.apple.backgroundtaskmanagementagent/'', ''launch_agent'', ''T1543.001''),
      (''/Library/StartupItems/'', ''startup_items'', ''T1543.004''),
      (''/etc/periodic/'', ''periodic_script'', ''T1053.003''),
      (''~/Library/Preferences/'', ''login_items'', ''T1547.015'')]"

definition LINUX_PERSISTENCE_PATHS :: "(string \<times> string \<times> string) list" where
  "LINUX_PERSISTENCE_PATHS =
     [(''/etc/cron.d/'', ''cron_job'', ''T1053.003''),
      (''/etc/cron.daily/'', ''cron_job'', ''T1053.003''),
      (''/etc/cron.hourly/'', ''cron_job'', ''T1053.003''),
      (''/etc/cron.weekly/'', ''cron_job'', ''T1053.003''),
      (''/etc/cron.monthly/'', ''cron_job'', ''T1053.003''),
      (''/var/spool/cron/'', ''cron_job'', ''T1053.003''),
      (''/etc/systemd/system/'', ''systemd_unit'', ''T1543.002''),
      (''/usr/lib/systemd/system/'', ''systemd_unit'', ''T1543.002''),
      (''~/.config/systemd/user/'', ''systemd_unit'', ''T1543.002''),
      (''/etc/init.d/'', ''init_script'', ''T1543.002''),
      (''/etc/rc.local'', ''init_script'', ''T1543.002''),
      (''~/.bashrc'', ''shell_profile'', ''T1546.004''),
      (''~/.bash_profile'', ''shell_profile'', ''T1546.004''),
      (''~/.profile'', ''shell_profile'', ''T1546.004''),
      (''/etc/ld.so.preload'', ''ld_preload'', ''T1574.006'')]"

definition MITRE_NAMES :: "(string, string) dict" where
  "MITRE_NAMES =
     [(''T1547.001'', ''Boot/Logon Autostart: Registry Run Keys''),
      (''T1543.003'', ''Create or Modify System Process: Windows Service''),
      (''T1053.005'', ''Scheduled Task''),
      (''T1546.003'', ''Event Triggered Execution: WMI''),
      (''T1546.010'', ''Event Triggered Execution: AppInit DLLs''),
      (''T1546.012'', ''Event Triggered Execution: IFEO''),
      (''T1546.015'', ''Event Triggered Execution: COM Object Hijacking''),
      (''T1543.001'', ''Create or Modify System Process: Launch Agent''),
      (''T1543.004'', ''Create or Modify System Process: Launch Daemon''),
      (''T1053.003'', ''Scheduled Task: Cron''),
      (''T1543.002'', ''Create or Modify System Process: Systemd Service''),
      (''T1546.004'', ''Event Triggered Execution: Unix Shell Config''),
      (''T1574.006'', ''Hijack Execution Flow: Dynamic Linker Hijacking''),
      (''T1547.015'', ''Boot/Logon Autostart: Login Items'')]"

section \<open>Detection\<close>

record host =
  h_platform :: string
  h_home :: string

record persistence_result =
  pr_path :: string
  pr_type :: string
  pr_platform :: string
  pr_severity :: string
  pr_technique :: string
  pr_description :: string

definition mk_persistence :: "string \<Rightarrow> string \<Rightarrow> string \<times> string \<Rightarrow> string \<Rightarrow> persistence_result" where
  "mk_persistence path pf = (\<lambda>(ty, tech) who.
     \<lparr>pr_path = path, pr_type = ty, pr_platform = pf, pr_severity = ''HIGH'', pr_technique = tech,
      pr_description = ''Process '' @ who @ '' wrote to '' @ ty @ '' ('' @ d_get_or MITRE_NAMES tech tech
        @ ''): '' @ path\<rparr>)"

text \<open>The loop over a table: the first entry whose prefix passes the test.\<close>

definition first_prefix :: "(string \<Rightarrow> bool) \<Rightarrow> (string \<times> string \<times> string) list \<Rightarrow> (string \<times> string) option" where
  "first_prefix ok tab = map_option snd (find (\<lambda>(p, _). ok p) tab)"

fun expand_home :: "string \<Rightarrow> string \<Rightarrow> string" where
  "expand_home home [] = []"
| "expand_home home (c # cs) = (if c = CHR ''~'' then home else [c]) @ expand_home home cs"

definition process_or_unknown :: "process_info option \<Rightarrow> string" where
  "process_or_unknown p = (case p of None \<Rightarrow> ''unknown'' | Some i \<Rightarrow> pi_name i)"

definition check_persistence_for_registry :: "string \<Rightarrow> string \<Rightarrow> persistence_result option" where
  "check_persistence_for_registry path who =
     (if path = [] then None
      else map_option (\<lambda>t. mk_persistence path ''windows'' t who)
        (first_prefix (\<lambda>p. prefix (py_upper p) (py_upper path)) WINDOWS_PERSISTENCE_KEYS))"

definition check_registry_persistence :: "registry_activity \<Rightarrow> persistence_result option" where
  "check_registry_persistence e =
     (if ra_reg_path e = [] then None
      else map_option (\<lambda>t. mk_persistence (ra_reg_path e) ''windows'' t (process_or_unknown (ra_process e)))
        (first_prefix (\<lambda>p. prefix (py_upper p) (py_upper (ra_reg_path e))) WINDOWS_PERSISTENCE_KEYS))"

definition match_file_paths ::
    "string \<Rightarrow> string \<Rightarrow> string \<Rightarrow> (string \<times> string \<times> string) list \<Rightarrow> string \<Rightarrow> persistence_result option" where
  "match_file_paths who path home tab pf =
     map_option (\<lambda>t. mk_persistence path pf t who)
       (first_prefix (\<lambda>p. prefix (expand_home home p) path) tab)"

definition check_file_persistence :: "host \<Rightarrow> file_activity \<Rightarrow> persistence_result option" where
  "check_file_persistence h e =
     (let who = process_or_unknown (fa_process e); path = fa_file_path e in
      if path = [] then None
      else if h_platform h = ''darwin'' then match_file_paths who path (h_home h) MACOS_PERSISTENCE_PATHS ''macos''
      else if h_platform h = ''linux'' then match_file_paths who path (h_home h) LINUX_PERSISTENCE_PATHS ''linux''
      else case match_file_paths who path (h_home h) MACOS_PERSISTENCE_PATHS ''macos'' of
          Some r \<Rightarrow> Some r
        | None \<Rightarrow> match_file_paths who path (h_home h) LINUX_PERSISTENCE_PATHS ''linux'')"

definition writes :: "int \<Rightarrow> bool" where
  "writes a \<longleftrightarrow> a = 1 \<or> a = 3"

fun check_persistence :: "host \<Rightarrow> ocsf_event \<Rightarrow> persistence_result option" where
  "check_persistence h (RegistryActivity e) =
     (if writes (ra_activity_id e) then check_registry_persistence e else None)"
| "check_persistence h (FileActivity e) =
     (if writes (fa_activity_id e) then check_file_persistence h e else None)"
| "check_persistence h e = None"

definition detect_platform :: "host \<Rightarrow> string" where
  "detect_platform h = (if h_platform h = ''darwin'' then ''macos''
     else if h_platform h = ''linux'' then ''linux'' else ''windows'')"

definition check_persistence_for_path ::
    "host \<Rightarrow> string \<Rightarrow> string \<Rightarrow> string option \<Rightarrow> persistence_result option" where
  "check_persistence_for_path h path who platform =
     (if path = [] then None
      else let target = (case platform of None \<Rightarrow> detect_platform h
                 | Some p \<Rightarrow> if p = [] then detect_platform h else p);
               tab = (if target = ''macos'' then MACOS_PERSISTENCE_PATHS
                 else if target = ''linux'' then LINUX_PERSISTENCE_PATHS
                 else MACOS_PERSISTENCE_PATHS @ LINUX_PERSISTENCE_PATHS)
        in map_option (\<lambda>t. mk_persistence path target t who)
             (first_prefix (\<lambda>p. prefix (expand_home (h_home h) p) path) tab))"

section \<open>Facts\<close>

lemma first_prefix_None: "first_prefix ok tab = None \<longleftrightarrow> (\<forall>(p, t) \<in> set tab. \<not> ok p)"
  by (auto simp: first_prefix_def find_None_iff)

lemma first_prefix_mono:
  "first_prefix ok tab \<noteq> None \<Longrightarrow> (\<And>p. ok p \<Longrightarrow> ok' p) \<Longrightarrow> first_prefix ok' tab \<noteq> None"
  unfolding first_prefix_None by blast

lemma prefix_append_right: "prefix p path \<Longrightarrow> prefix p (path @ rest)"
  by (metis append_assoc prefix_def)

lemma py_upper_append: "py_upper (s @ t) = py_upper s @ py_upper t"
  by (simp add: py_upper_def)

section \<open>Properties\<close>

text \<open>The event-based and the path-based detector agree: a file that is created or modified is
  reported on Linux and macOS exactly as \<open>check_persistence_for_path\<close> reports its path, on
  any other host at least when that one does; a registry key as
  \<open>check_persistence_for_registry\<close> reports it; nothing else is ever reported.\<close>

theorem persistence_detectors_agree:
  "check_persistence h (FileActivity a) =
      (if \<not> writes (fa_activity_id a) then None
       else if h_platform h \<in> {''linux'', ''darwin''}
         then check_persistence_for_path h (fa_file_path a) (process_or_unknown (fa_process a)) None
       else map_option (\<lambda>r. r\<lparr>pr_platform := (if first_prefix (\<lambda>p. prefix (expand_home (h_home h) p) (fa_file_path a))
             MACOS_PERSISTENCE_PATHS = None then ''linux'' else ''macos'')\<rparr>)
           (check_persistence_for_path h (fa_file_path a) (process_or_unknown (fa_process a)) None))
    \<and> check_persistence h (RegistryActivity b) =
      (if writes (ra_activity_id b)
       then check_persistence_for_registry (ra_reg_path b) (process_or_unknown (ra_process b)) else None)"
proof -
  have app: "find P (xs @ ys) = (case find P xs of None \<Rightarrow> find P ys | Some x \<Rightarrow> Some x)"
    for P :: "string \<times> string \<times> string \<Rightarrow> bool" and xs ys by (induction xs) auto
  have "check_persistence h (RegistryActivity b) =
      (if writes (ra_activity_id b)
       then check_persistence_for_registry (ra_reg_path b) (process_or_unknown (ra_process b)) else None)"
    by (simp add: check_registry_persistence_def check_persistence_for_registry_def)
  then show ?thesis
    by (auto simp: check_file_persistence_def check_persistence_for_path_def detect_platform_def Let_def
        match_file_paths_def first_prefix_def app mk_persistence_def case_prod_beta
        option.map_comp o_def split: option.splits)
qed

text \<open>Detection works on prefixes: everything below a reported file path or registry key is
  reported too, and the case of a registry key does not matter.\<close>

theorem persistence_is_prefix_closed:
  assumes "check_persistence_for_path h path who pf \<noteq> None" "check_persistence_for_registry key who' \<noteq> None"
  shows "check_persistence_for_path h (path @ rest) who pf \<noteq> None
    \<and> check_persistence_for_registry (key @ rest) who' \<noteq> None
    \<and> (\<forall>key'. py_upper key' = py_upper key \<longrightarrow> check_persistence_for_registry key' who' \<noteq> None)"
proof -
  have 1: "check_persistence_for_path h (path @ rest) who pf \<noteq> None"
    using assms(1) first_prefix_mono [OF _ prefix_append_right]
    by (simp add: check_persistence_for_path_def Let_def split: if_splits)
  have 2: "check_persistence_for_registry (key @ rest) who' \<noteq> None"
    using assms(2) first_prefix_mono [OF _ prefix_append_right]
    by (simp add: check_persistence_for_registry_def py_upper_append split: if_splits)
  have 3: "check_persistence_for_registry key' who' \<noteq> None" if "py_upper key' = py_upper key" for key'
  proof -
    have "key' \<noteq> []" using that assms(2)
      by (auto simp: check_persistence_for_registry_def py_upper_def split: if_splits)
    with that assms(2) show ?thesis by (simp add: check_persistence_for_registry_def split: if_splits)
  qed
  from 1 2 3 show ?thesis by blast
qed

definition linux_host :: host where
  "linux_host = \<lparr>h_platform = ''linux'', h_home = ''/root''\<rparr>"

theorem persistence_is_prefix_closed_witness:
  "check_persistence_for_path linux_host ''/etc/cron.d/job'' ''sh'' None \<noteq> None"
proof -
  have 1: "check_persistence_for_path linux_host ''/etc/cron.d/'' ''sh'' None \<noteq> None" by code_simp
  have 2: "check_persistence_for_registry (win_key ''hklm/SYSTEM/CurrentControlSet/services'') ''x'' \<noteq> None"
    by code_simp
  from persistence_is_prefix_closed [OF 1 2, of "''job''"] show ?thesis by simp
qed

text \<open>The tilde stands for the home of the account that runs the agent only: a job that another
  user installs in the shell profile, as a systemd unit or as a launch agent of their own is
  not reported.\<close>

theorem other_users_persistence_missed:
  "check_persistence_for_path linux_host ''/root/.bashrc'' ''sh'' None \<noteq> None
    \<and> check_persistence_for_path linux_host ''/home/bob/.bashrc'' ''sh'' None = None
    \<and> check_persistence_for_path linux_host ''/home/bob/.config/systemd/user/x.service'' ''sh'' None = None
    \<and> check_persistence_for_path \<lparr>h_platform = ''darwin'', h_home = ''/var/root''\<rparr>
        ''/Users/bob/Library/LaunchAgents/x.plist'' ''sh'' None = None"
  by code_simp

end
