(* ===== verification/PortMapper.thy ===== *)
theory PortMapper
  imports PyDict PyStr
begin

text \<open>
  The map from listening ports to processes: \<open>agent/enrichment/port_mapper.py\<close>.  What
  \<open>psutil.net_connections\<close> and \<open>psutil.Process\<close> answer and the code-signing identity are the
  record \<open>port_env\<close>; the monotonic clock is an argument.  Of an identity the code only
  reads \<open>code_signed\<close>.
\<close>

record listener =
  ls_port :: int
  ls_pid :: int
  ls_name :: string
  ls_bind :: string
  ls_signed :: "bool option"

record net_conn =
  nn_status :: string
  nn_pid :: "int option"
  nn_laddr :: "(string \<times> int) option"

text \<open>\<open>None\<close>: the call raises \<open>AccessDenied\<close>, \<open>NoSuchProcess\<close> or \<open>OSError\<close>.\<close>

record port_env =
  po_conns :: "net_conn list option"
  po_proc :: "int \<Rightarrow> (string \<times> string) option"
  po_signed :: "int \<Rightarrow> string \<Rightarrow> bool option"

record port_mapper =
  pm_interval :: int
  pm_map :: "(string \<times> int, listener) dict"
  pm_last :: int

definition new_port_mapper :: "int \<Rightarrow> port_mapper" where
  "new_port_mapper interval = \<lparr>pm_interval = interval, pm_map = [], pm_last = 0\<rparr>"

definition listen_entry ::
    "port_env \<Rightarrow> net_conn \<Rightarrow> (string \<times> int, listener) dict \<Rightarrow> (string \<times> int, listener) dict" where
  "listen_entry env c d =
     (if nn_status c \<noteq> ''LISTEN'' then d
      else case nn_pid c of None \<Rightarrow> d | Some pid \<Rightarrow> (case nn_laddr c of None \<Rightarrow> d | Some (ip, port) \<Rightarrow>
        let (name, exe) = (case po_proc env pid of None \<Rightarrow> ([], []) | Some ne \<Rightarrow> ne)
        in d_set (ip, port) \<lparr>ls_port = port, ls_pid = pid, ls_name = name, ls_bind = ip,
             ls_signed = (if exe = [] then None else po_signed env pid exe)\<rparr> d))"

definition refresh_ports :: "int \<Rightarrow> port_env \<Rightarrow> port_mapper \<Rightarrow> port_mapper" where
  "refresh_ports now env m =
     (if now - pm_last m < pm_interval m then m
      else m\<lparr>pm_map := (case po_conns env of None \<Rightarrow> [] | Some cs \<Rightarrow> fold (listen_entry env) cs []),
             pm_last := now\<rparr>)"

fun first_listener :: "(string \<times> int, listener) dict \<Rightarrow> int \<Rightarrow> string list \<Rightarrow> listener option" where
  "first_listener d port [] = None"
| "first_listener d port (ip # ips) =
     (case d_get d (ip, port) of Some l \<Rightarrow> Some l | None \<Rightarrow> first_listener d port ips)"

definition get_listener ::
    "int \<Rightarrow> port_env \<Rightarrow> string \<Rightarrow> int \<Rightarrow> port_mapper \<Rightarrow> listener option \<times> port_mapper" where
  "get_listener now env ip port m =
     (let m = refresh_ports now env m
      in (first_listener (pm_map m) port [ip, ''0.0.0.0'', ''::'', ''*''], m))"

record conn_context =
  cx_dest_process :: "string option"
  cx_dest_pid :: "int option"
  cx_localhost :: bool
  cx_both_signed :: bool
  cx_description :: string

definition LOCALHOST_ADDRS :: "string list" where
  "LOCALHOST_ADDRS = [''127.0.0.1'', ''::1'', ''localhost'']"

definition is_localhost :: "string \<Rightarrow> bool" where
  "is_localhost ip \<longleftrightarrow> ip \<in> set LOCALHOST_ADDRS \<or> prefix ''127.'' ip"

definition build_connection_context ::
    "int \<Rightarrow> port_env \<Rightarrow> int \<Rightarrow> string \<Rightarrow> bool option \<Rightarrow> string \<Rightarrow> int \<Rightarrow> port_mapper \<Rightarrow> conn_context \<times> port_mapper" where
  "build_connection_context now env pid name signed ip port m =
     (let (l, m) = get_listener now env ip port m;
          loc = is_localhost ip;
          both = (signed = Some True \<and> (case l of None \<Rightarrow> False | Some s \<Rightarrow> ls_signed s = Some True));
          who = name @ ''(PID '' @ int_str pid @ '')'';
          dest = (case l of None \<Rightarrow> ''-> '' @ ip @ '':'' @ int_str port
                   | Some s \<Rightarrow> ''-> '' @ ls_name s @ ''(PID '' @ int_str (ls_pid s) @ '')'')
      in (\<lparr>cx_dest_process = map_option ls_name l, cx_dest_pid = map_option ls_pid l,
           cx_localhost = loc, cx_both_signed = both,
           cx_description = join_with '' '' ([if loc then ''Localhost IPC'' else ''External connection'', who, dest]
             @ (if both then [''[both signed]''] else []))\<rparr>, m))"

section \<open>Facts\<close>

lemma listen_entry_get:
  "d_get (listen_entry env c d) k = Some l \<Longrightarrow>
     d_get d k = Some l \<or> (nn_status c = ''LISTEN'' \<and> nn_laddr c = Some k \<and> nn_pid c = Some (ls_pid l))"
  by (auto simp: listen_entry_def Let_def dict_simps split: option.splits prod.splits if_splits)

lemma listener_in_map:
  "d_get (fold (listen_entry env) cs []) k = Some l \<Longrightarrow>
     \<exists>c \<in> set cs. nn_status c = ''LISTEN'' \<and> nn_laddr c = Some k \<and> nn_pid c = Some (ls_pid l)"
proof (induction cs rule: rev_induct)
  case (snoc c cs)
  from snoc.prems have "d_get (listen_entry env c (fold (listen_entry env) cs [])) k = Some l" by simp
  from listen_entry_get [OF this] snoc.IH show ?case by auto
qed simp

section \<open>Properties\<close>

text \<open>Every destination process named after a refresh really listens: some socket in state
  \<open>LISTEN\<close> of that process is bound to the port, at the destination address or at a wildcard
  address.\<close>

theorem named_listener_listens:
  assumes "pm_interval m \<le> now - pm_last m" "po_conns env = Some cs"
    "cx_dest_pid (fst (build_connection_context now env pid name signed ip port m)) = Some p"
  shows "\<exists>c \<in> set cs. \<exists>a \<in> {ip, ''0.0.0.0'', ''::'', ''*''}. nn_status c = ''LISTEN''
    \<and> nn_laddr c = Some (a, port) \<and> nn_pid c = Some p"
proof -
  let ?d = "fold (listen_entry env) cs []"
  have "refresh_ports now env m = m\<lparr>pm_map := ?d, pm_last := now\<rparr>"
    using assms(1,2) by (simp add: refresh_ports_def)
  with assms(3) obtain l where l: "first_listener ?d port [ip, ''0.0.0.0'', ''::'', ''*''] = Some l" "ls_pid l = p"
    by (auto simp: build_connection_context_def get_listener_def Let_def simp del: first_listener.simps)
  have "first_listener d port ips = Some l \<Longrightarrow> \<exists>a \<in> set ips. d_get d (a, port) = Some l" for d ips
    by (induction ips) (auto split: option.splits)
  from this [OF l(1)] obtain a where "a \<in> {ip, ''0.0.0.0'', ''::'', ''*''}" "d_get ?d (a, port) = Some l" by auto
  with listener_in_map l(2) show ?thesis by blast
qed

definition nginx_env :: port_env where
  "nginx_env = \<lparr>po_conns = Some [\<lparr>nn_status = ''LISTEN'', nn_pid = Some 80, nn_laddr = Some (''0.0.0.0'', 443)\<rparr>],
     po_proc = (\<lambda>p. Some (''nginx'', ''/usr/sbin/nginx'')), po_signed = (\<lambda>p e. Some True)\<rparr>"

theorem named_listener_listens_witness:
  "\<exists>a. nn_laddr \<lparr>nn_status = ''LISTEN'', nn_pid = Some 80, nn_laddr = Some (''0.0.0.0'', 443)\<rparr> = Some (a, 443)"
proof -
  let ?m = "new_port_mapper 30"
  have 1: "pm_interval ?m \<le> 50 - pm_last ?m" by (simp add: new_port_mapper_def)
  have 2: "po_conns nginx_env = Some [\<lparr>nn_status = ''LISTEN'', nn_pid = Some 80, nn_laddr = Some (''0.0.0.0'', 443)\<rparr>]"
    by (simp add: nginx_env_def)
  have 3: "cx_dest_pid (fst (build_connection_context 50 nginx_env 7 ''curl'' None ''93.184.216.34'' 443 ?m)) = Some 80"
    by code_simp
  from named_listener_listens [OF 1 2 3] show ?thesis by auto
qed

text \<open>The fallback to wildcard addresses is not limited to local destinations: a connection to
  any other host, on a port on which some local process listens at \<open>0.0.0.0\<close>, is described
  as a connection to that local process.\<close>

theorem remote_peer_named_after_local_listener:
  assumes "now - pm_last m < pm_interval m" "\<not> is_localhost ip" "d_get (pm_map m) (ip, port) = None"
    "d_get (pm_map m) (''0.0.0.0'', port) = Some l"
  shows "cx_dest_process (fst (build_connection_context now env pid name signed ip port m)) = Some (ls_name l)
    \<and> cx_dest_pid (fst (build_connection_context now env pid name signed ip port m)) = Some (ls_pid l)
    \<and> \<not> cx_localhost (fst (build_connection_context now env pid name signed ip port m))"
  using assms by (simp add: build_connection_context_def get_listener_def refresh_ports_def Let_def)

theorem remote_peer_named_after_local_listener_witness:
  "cx_dest_process (fst (build_connection_context 51 nginx_env 7 ''curl'' None ''93.184.216.34'' 443
     (refresh_ports 50 nginx_env (new_port_mapper 30)))) = Some ''nginx''"
proof -
  let ?m = "refresh_ports 50 nginx_env (new_port_mapper 30)"
  have 1: "51 - pm_last ?m < pm_interval ?m" by code_simp
  have 2: "\<not> is_localhost ''93.184.216.34''" by code_simp
  have 3: "d_get (pm_map ?m) (''93.184.216.34'', 443) = None" by code_simp
  have 4: "d_get (pm_map ?m) (''0.0.0.0'', 443) = Some \<lparr>ls_port = 443, ls_pid = 80, ls_name = ''nginx'',
      ls_bind = ''0.0.0.0'', ls_signed = Some True\<rparr>" by code_simp
  from remote_peer_named_after_local_listener [OF 1 2 3 4] show ?thesis by simp
qed

end
