(* ===== verification/EntityExtractor.thy ===== *)
theory EntityExtractor
  imports ProcCaches Persistence PortMapper IpNet
begin

text \<open>
  Extraction of graph nodes and edges from normalised events:
  \<open>agent/processor/entity_extractor.py\<close>.  The state is the module's caches.  The record
  \<open>extract_env\<close> holds what the code asks of the system and of other modules while it handles
  one event: one snapshot of the process table, the code-signing identity (\<open>None\<close> when it is
  unavailable or raises), Python's \<open>is_private\<close> on parsed addresses, the verdict of the DGA
  detector, the context \<open>build_connection_context\<close> returns (outer \<open>None\<close>: no port mapper,
  inner: it raises), the host of the persistence detector, and the readings of the monotonic
  clock in seconds.  Node ids are built from epoch seconds.
\<close>

section \<open>State and environment\<close>

record extractor =
  ex_caches :: proc_caches
  ex_sshd :: "(string, string option \<times> int) dict"

definition new_extractor :: extractor where
  "new_extractor = \<lparr>ex_caches = empty_caches, ex_sshd = []\<rparr>"

record extract_env =
  xe_os :: os
  xe_identity :: "int \<Rightarrow> string \<Rightarrow> (string option \<times> bool option \<times> string option) option"
  xe_private :: "ip_addr \<Rightarrow> bool"
  xe_dga :: "string \<Rightarrow> bool"
  xe_conn :: "(process_node \<Rightarrow> string \<Rightarrow> int \<Rightarrow> conn_context option) option"
  xe_host :: host
  xe_clock :: int

section \<open>Start times\<close>

text \<open>\<open>_resolve_start_time\<close>: times are in microseconds.\<close>

definition drop_reused :: "int \<Rightarrow> proc_caches \<Rightarrow> proc_caches" where
  "drop_reused pid c = c\<lparr>ppid_cache := d_pop pid (ppid_cache c), name_cache := d_pop pid (name_cache c)\<rparr>"

definition cached_start :: "int \<Rightarrow> datetime \<Rightarrow> proc_caches \<Rightarrow> datetime \<times> proc_caches" where
  "cached_start pid fallback c = (case d_get (create_time_cache c) pid of
     Some t \<Rightarrow> (if t > 0 then t else fallback, c)
   | None \<Rightarrow> (fallback, c\<lparr>create_time_cache := d_set pid 0 (create_time_cache c)\<rparr>))"

definition resolve_start_time :: "os \<Rightarrow> int \<Rightarrow> datetime \<Rightarrow> proc_caches \<Rightarrow> datetime \<times> proc_caches" where
  "resolve_start_time s pid fallback c =
     (if pid \<le> 0 then (fallback, c)
      else case d_get (os_procs s) pid of
        Some p \<Rightarrow>
          (let ct = op_create_time p in
           if ct > 0 then
             (case d_get (create_time_cache c) pid of
                Some t \<Rightarrow> if t > 0 \<and> \<bar>t - ct\<bar> < 1000000 then (t, c)
                  else let c = c\<lparr>create_time_cache := d_set pid ct (create_time_cache c)\<rparr>
                       in (ct, if t > 0 then drop_reused pid c else c)
              | None \<Rightarrow> (ct, c\<lparr>create_time_cache := d_set pid ct (create_time_cache c)\<rparr>))
           else cached_start pid fallback c)
      | None \<Rightarrow> cached_start pid fallback c)"

definition epoch_seconds :: "datetime \<Rightarrow> int" where
  "epoch_seconds t = (if 0 \<le> t then t div 1000000 else - ((- t) div 1000000))"

definition node_id :: "string \<Rightarrow> int \<Rightarrow> datetime \<Rightarrow> string" where
  "node_id hostname pid t = hostname @ '':'' @ int_str pid @ '':'' @ int_str (epoch_seconds t)"

section \<open>Process nodes\<close>

definition truthy :: "string option \<Rightarrow> bool" where
  "truthy s \<longleftrightarrow> (case s of None \<Rightarrow> False | Some t \<Rightarrow> t \<noteq> [])"

definition has_parent :: "process_node \<Rightarrow> bool" where
  "has_parent n \<longleftrightarrow> (case pn_parent_pid n of None \<Rightarrow> False | Some p \<Rightarrow> p \<noteq> 0)"

definition or_none :: "string \<Rightarrow> string option" where
  "or_none s = (if s = [] then None else Some s)"

definition set_new :: "'k \<Rightarrow> 'v \<Rightarrow> ('k, 'v) dict \<Rightarrow> ('k, 'v) dict" where
  "set_new k v d = (if d_get d k = None then d_set k v d else d)"

definition remember_name :: "int \<Rightarrow> string \<Rightarrow> proc_caches \<Rightarrow> proc_caches" where
  "remember_name pid n c = (if n \<noteq> [] then c\<lparr>name_cache := d_set pid n (name_cache c)\<rparr> else c)"

text \<open>The live lookup of \<open>_enrich_process_node\<close>: parent, name, command line, executable.\<close>

definition enrich_live :: "os_proc \<Rightarrow> int \<Rightarrow> process_node \<Rightarrow> proc_caches \<Rightarrow> process_node \<times> proc_caches" where
  "enrich_live p pid n c =
     (let (n, c) = (if op_ppid p > 0
            then (n\<lparr>pn_parent_pid := Some (op_ppid p)\<rparr>, c\<lparr>ppid_cache := d_set pid (op_ppid p) (ppid_cache c)\<rparr>)
            else (n, c));
          c = remember_name pid (pn_name n) c;
          n = (if truthy (pn_cmd_line n) then n
               else case op_cmdline p of None \<Rightarrow> n
                 | Some ws \<Rightarrow> if ws = [] then n else n\<lparr>pn_cmd_line := Some (join_with '' '' ws)\<rparr>);
          c = (if truthy (pn_cmd_line n)
               then c\<lparr>cmdline_cache := set_new pid (the (pn_cmd_line n)) (cmdline_cache c)\<rparr> else c);
          n = (if truthy (pn_exe_path n) then n
               else case op_exe p of None \<Rightarrow> n | Some x \<Rightarrow> n\<lparr>pn_exe_path := Some x\<rparr>)
      in (n, c))"

definition enrich_parent :: "os \<Rightarrow> int \<Rightarrow> process_node \<Rightarrow> proc_caches \<Rightarrow> process_node \<times> proc_caches" where
  "enrich_parent s pid n c =
     (if pid > 0 \<and> \<not> has_parent n then
        (case d_get (ppid_cache c) pid of
           Some pp \<Rightarrow> (n\<lparr>pn_parent_pid := Some pp\<rparr>,
             if pn_name n \<noteq> [] then c\<lparr>name_cache := set_new pid (pn_name n) (name_cache c)\<rparr> else c)
         | None \<Rightarrow> (case d_get (os_procs s) pid of
             Some p \<Rightarrow> enrich_live p pid n c
           | None \<Rightarrow> (n, remember_name pid (pn_name n) (c\<lparr>ppid_cache := d_set pid 0 (ppid_cache c)\<rparr>))))
      else (n, c))"

definition populate_caches :: "int \<Rightarrow> process_node \<Rightarrow> proc_caches \<Rightarrow> proc_caches" where
  "populate_caches pid n c =
     (if pid > 0 then
        let c = (if has_parent n
                 then c\<lparr>ppid_cache := set_new pid (the (pn_parent_pid n)) (ppid_cache c)\<rparr> else c);
            c = (if pn_name n \<noteq> [] then c\<lparr>name_cache := set_new pid (pn_name n) (name_cache c)\<rparr> else c)
        in if truthy (pn_cmd_line n)
           then c\<lparr>cmdline_cache := set_new pid (the (pn_cmd_line n)) (cmdline_cache c)\<rparr> else c
      else c)"

definition enrich_process_node ::
    "extract_env \<Rightarrow> int \<Rightarrow> process_node \<Rightarrow> proc_caches \<Rightarrow> process_node \<times> proc_caches" where
  "enrich_process_node env pid n c =
     (let (n, c) = enrich_parent (xe_os env) pid n c;
          c = populate_caches pid n c
      in if \<not> truthy (pn_exe_path n) then (n, c)
         else case xe_identity env pid (the (pn_exe_path n)) of
           None \<Rightarrow> (n, c)
         | Some (b, sg, au) \<Rightarrow>
             (n\<lparr>pn_bundle_id := b, pn_code_signed := sg, pn_signing_authority := au\<rparr>, c))"

section \<open>Users\<close>

definition UID_NAME_MAP :: "(string, string) dict" where
  "UID_NAME_MAP = [(''0'', ''root''), (''65534'', ''nobody'')]"

text \<open>The name of the user: the actor of the event, then the cache or psutil, then the uid.\<close>

definition user_from_system :: "os \<Rightarrow> int \<Rightarrow> proc_caches \<Rightarrow> string option \<times> proc_caches" where
  "user_from_system s pid c = (case d_get (username_cache c) pid of
     Some u \<Rightarrow> (or_none u, c)
   | None \<Rightarrow>
       (case d_get (os_procs s) pid of
          None \<Rightarrow> (None, c\<lparr>username_cache := d_set pid [] (username_cache c)\<rparr>)
        | Some p \<Rightarrow> (case op_username p of
            None \<Rightarrow> (None, c\<lparr>username_cache := d_set pid [] (username_cache c)\<rparr>)
          | Some u \<Rightarrow> (or_none u, c\<lparr>username_cache := d_set pid u (username_cache c)\<rparr>))))"

definition resolve_user ::
    "os \<Rightarrow> int \<Rightarrow> user_info option \<Rightarrow> proc_caches \<Rightarrow> string option \<times> proc_caches" where
  "resolve_user s pid actor c =
     (let (u, c) = (case actor of None \<Rightarrow> (None, c)
            | Some a \<Rightarrow> (or_none (ui_name a),
                if ui_name a \<noteq> [] \<and> pid > 0
                then c\<lparr>username_cache := set_new pid (ui_name a) (username_cache c)\<rparr> else c));
          (u, c) = (if u = None \<and> pid > 0 then user_from_system s pid c else (u, c))
      in case (u, actor) of
           (None, Some a) \<Rightarrow>
             (let n = d_get_or UID_NAME_MAP (ui_uid a) (ui_uid a)
              in (or_none n, if pid > 0 then c\<lparr>username_cache := set_new pid n (username_cache c)\<rparr> else c))
         | _ \<Rightarrow> (u, c))"

definition add_user ::
    "string \<Rightarrow> string option \<Rightarrow> string \<Rightarrow> datetime \<Rightarrow> int \<Rightarrow> int \<Rightarrow> entities \<Rightarrow> entities" where
  "add_user name uid proc_id now ev act e =
     e\<lparr>users := users e @ [\<lparr>un_id = name, un_name = Some name, un_uid = uid, un_first_seen = now,
          un_last_seen = now\<rparr>],
       spawned_edges := spawned_edges e @ [\<lparr>se_user_id = name, se_process_id = proc_id,
          se_timestamp = now, se_activity_id = act, se_event_id = ev\<rparr>]\<rparr>"

definition extract_user ::
    "os \<Rightarrow> int \<Rightarrow> string \<Rightarrow> datetime \<Rightarrow> int \<Rightarrow> int \<Rightarrow> user_info option \<Rightarrow> entities \<times> proc_caches \<Rightarrow> entities \<times> proc_caches"
where
  "extract_user s pid proc_id now ev act actor = (\<lambda>(e, c).
     let (u, c) = resolve_user s pid actor c
     in case u of None \<Rightarrow> (e, c)
        | Some n \<Rightarrow> (add_user n (map_option ui_uid actor) proc_id now ev act e, c))"

section \<open>The process of an event\<close>

definition start_time :: "os \<Rightarrow> process_info \<Rightarrow> datetime \<Rightarrow> proc_caches \<Rightarrow> datetime \<times> proc_caches" where
  "start_time s p now c = (case pi_created_time p of
     Some t \<Rightarrow> (t, c) | None \<Rightarrow> resolve_start_time s (pi_pid p) now c)"

definition base_node :: "string \<Rightarrow> process_info \<Rightarrow> datetime \<Rightarrow> int option \<Rightarrow> process_node" where
  "base_node hostname p st parent =
     \<lparr>pn_id = node_id hostname (pi_pid p) st, pn_name = pi_name p, pn_pid = pi_pid p,
      pn_cmd_line = or_none (pi_cmd_line p), pn_exe_path = or_none (pi_exe_path p),
      pn_hostname = hostname, pn_start_time = Some st, pn_parent_pid = parent,
      pn_bundle_id = None, pn_code_signed = None, pn_signing_authority = None\<rparr>"

text \<open>The part the process, network, DNS and file extractors share: node, enrichment, user.\<close>

definition add_process ::
    "extract_env \<Rightarrow> string \<Rightarrow> process_info \<Rightarrow> int option \<Rightarrow> datetime \<Rightarrow> int \<Rightarrow> int \<Rightarrow> user_info option
      \<Rightarrow> entities \<times> proc_caches \<Rightarrow> process_node \<times> entities \<times> proc_caches" where
  "add_process env hostname p parent now ev act actor = (\<lambda>(e, c).
     let (st, c) = start_time (xe_os env) p now c;
         (n, c) = enrich_process_node env (pi_pid p) (base_node hostname p st parent) c;
         e = e\<lparr>processes := processes e @ [n]\<rparr>
     in (n, extract_user (xe_os env) (pi_pid p) (pn_id n) now ev act actor (e, c)))"

section \<open>Nodes and edges of the other kinds\<close>

definition is_private_ip :: "extract_env \<Rightarrow> string \<Rightarrow> bool" where
  "is_private_ip env s = (case ip_address s of None \<Rightarrow> False | Some a \<Rightarrow> xe_private env a)"

definition mk_ip :: "extract_env \<Rightarrow> string \<Rightarrow> datetime \<Rightarrow> ip_node" where
  "mk_ip env a now =
     \<lparr>ipn_id = a, ipn_address = a, ipn_is_private = is_private_ip env a, ipn_first_seen = now,
      ipn_last_seen = now, ipn_country = [], ipn_city = [], ipn_isp = [], ipn_org = [], ipn_asn = [],
      ipn_is_hosting = False, ipn_is_proxy = False, ipn_classification = ''unclassified'',
      ipn_provider_name = [], ipn_reverse_dns = []\<rparr>"

definition add_ip :: "extract_env \<Rightarrow> string \<Rightarrow> datetime \<Rightarrow> entities \<Rightarrow> entities" where
  "add_ip env a now e = e\<lparr>ips := ips e @ [mk_ip env a now]\<rparr>"

definition connect :: "string \<Rightarrow> string \<Rightarrow> datetime \<Rightarrow> int \<Rightarrow> string \<Rightarrow> int \<Rightarrow> entities \<Rightarrow> entities" where
  "connect proc ip now port dir ev e =
     e\<lparr>connected_edges := connected_edges e @ [\<lparr>ce_process_id = proc, ce_ip_id = ip, ce_timestamp = now,
        ce_dst_port = port, ce_protocol = ''TCP'', ce_direction = dir, ce_event_id = ev\<rparr>]\<rparr>"

definition add_risk :: "risk_indicator \<Rightarrow> entities \<Rightarrow> entities" where
  "add_risk r e = e\<lparr>risk_indicators := risk_indicators e @ [r]\<rparr>"

definition connection_risk :: "extract_env \<Rightarrow> process_node \<Rightarrow> string \<Rightarrow> int \<Rightarrow> entities \<Rightarrow> entities" where
  "connection_risk env n ip port e = (case xe_conn env of
     None \<Rightarrow> e
   | Some f \<Rightarrow> (case f n ip port of None \<Rightarrow> e | Some ctx \<Rightarrow>
       if \<not> cx_localhost ctx then e
       else if truthy (cx_dest_process ctx) then
         add_risk (ConnectionRisk (''Localhost IPC: '' @ pn_name n @ '' -> '' @ the (cx_dest_process ctx) @ '' (low risk)'')
           ''info'' (cx_description ctx)) e
       else add_risk (ConnectionRisk (''Localhost connection to unknown listener on port '' @ int_str port)
           ''low'' (cx_description ctx)) e))"

section \<open>The extractors\<close>

definition extract_process_activity ::
    "extract_env \<Rightarrow> process_activity \<Rightarrow> int \<Rightarrow> entities \<times> proc_caches \<Rightarrow> entities \<times> proc_caches" where
  "extract_process_activity env a ev ec =
     snd (add_process env (pa_device a) (pa_process a) (pi_parent_pid (pa_process a)) (pa_time a) ev
       (pa_activity_id a) (pa_actor a) ec)"

definition with_proc ::
    "extract_env \<Rightarrow> string \<Rightarrow> process_info option \<Rightarrow> datetime \<Rightarrow> int \<Rightarrow> int \<Rightarrow> entities \<times> proc_caches
      \<Rightarrow> process_node option \<times> entities \<times> proc_caches" where
  "with_proc env hostname p now ev act ec = (case p of
     None \<Rightarrow> (None, ec)
   | Some p \<Rightarrow> let (n, ec) = add_process env hostname p None now ev act None ec in (Some n, ec))"

definition extract_network_activity ::
    "extract_env \<Rightarrow> network_activity \<Rightarrow> int \<Rightarrow> entities \<times> proc_caches \<Rightarrow> entities \<times> proc_caches" where
  "extract_network_activity env a ev ec =
     (let now = na_time a;
          (n, e, c) = with_proc env (na_device a) (na_process a) now ev (na_activity_id a) ec
      in case na_dst_endpoint a of
           None \<Rightarrow> (e, c)
         | Some d \<Rightarrow>
             if ne_ip d = [] then (e, c)
             else let e = add_ip env (ne_ip d) now e
                  in case n of None \<Rightarrow> (e, c)
                     | Some n \<Rightarrow> (connection_risk env n (ne_ip d) (ne_port d)
                         (connect (pn_id n) (ne_ip d) now (ne_port d) ''outbound'' ev e), c))"

definition find_sshd :: "os \<Rightarrow> string \<Rightarrow> string option" where
  "find_sshd s hostname =
     map_option (\<lambda>(pid, p). node_id hostname pid (op_create_time p))
       (find (\<lambda>(pid, p). op_name p = ''sshd'' \<and> op_ppid p \<in> {0, 1}) (os_procs s))"

definition find_auth_daemon ::
    "extract_env \<Rightarrow> string \<Rightarrow> (string, string option \<times> int) dict \<Rightarrow> string option \<times> (string, string option \<times> int) dict" where
  "find_auth_daemon env hostname cache =
     (let fresh = (case d_get cache hostname of None \<Rightarrow> None
            | Some (i, t) \<Rightarrow> if xe_clock env - t < 60 then Some i else None)
      in case fresh of Some i \<Rightarrow> (i, cache)
         | None \<Rightarrow> let i = find_sshd (xe_os env) hostname
                   in (i, d_set hostname (i, xe_clock env) cache))"

definition extract_authentication ::
    "extract_env \<Rightarrow> authentication \<Rightarrow> int \<Rightarrow> entities \<Rightarrow> (string, string option \<times> int) dict
      \<Rightarrow> entities \<times> (string, string option \<times> int) dict" where
  "extract_authentication env a ev e cache =
     (let now = au_time a; u = au_user a;
          uid = (if ui_name u = [] then ''unknown'' else ui_name u);
          e = e\<lparr>users := users e @ [\<lparr>un_id = uid, un_name = Some (ui_name u), un_uid = or_none (ui_uid u),
                 un_first_seen = now, un_last_seen = now\<rparr>]\<rparr>
      in case au_src_endpoint a of
           None \<Rightarrow> (e, cache)
         | Some s \<Rightarrow>
             if ne_ip s = [] then (e, cache)
             else let e = add_ip env (ne_ip s) now e;
                      (i, cache) = find_auth_daemon env (au_device a) cache
                  in (case i of None \<Rightarrow> e | Some i \<Rightarrow> if i = [] then e
                        else connect i (ne_ip s) now 22 ''inbound'' ev e, cache))"

text \<open>\<open>query_domain.lower().rstrip(".")\<close>.\<close>

definition domain_name :: "string \<Rightarrow> string" where
  "domain_name q = rev (dropWhile (\<lambda>c. c = CHR ''.'') (rev (py_lower q)))"

definition add_resolution :: "extract_env \<Rightarrow> string \<Rightarrow> datetime \<Rightarrow> int \<Rightarrow> string \<Rightarrow> entities \<Rightarrow> entities" where
  "add_resolution env d now ev raw e =
     (let ip = py_strip raw in
      if ip = [] then e
      else (add_ip env ip now e)\<lparr>resolves_to_edges := resolves_to_edges e
             @ [\<lparr>rt_domain_id = d, rt_ip_id = ip, rt_timestamp = now, rt_event_id = ev\<rparr>]\<rparr>)"

definition extract_dns_activity ::
    "extract_env \<Rightarrow> dns_activity \<Rightarrow> int \<Rightarrow> entities \<times> proc_caches \<Rightarrow> entities \<times> proc_caches" where
  "extract_dns_activity env a ev ec =
     (let now = da_time a;
          (n, e, c) = with_proc env (da_device a) (da_process a) now ev (da_activity_id a) ec
      in if da_query_domain a = [] then (e, c)
         else let d = domain_name (da_query_domain a);
                  e = e\<lparr>domains := domains e @ [\<lparr>dn_id = d, dn_name = d, dn_first_seen = now, dn_last_seen = now,
                        dn_is_dga_candidate = xe_dga env d,
                        dn_tld = (if CHR ''.'' \<in> set d then after_last CHR ''.'' d else [])\<rparr>]\<rparr>;
                  e = (case n of None \<Rightarrow> e
                       | Some n \<Rightarrow> e\<lparr>resolved_edges := resolved_edges e @ [\<lparr>re_process_id = pn_id n,
                           re_domain_id = d, re_timestamp = now, re_event_id = ev\<rparr>]\<rparr>)
              in (fold (add_resolution env d now ev) (da_resolved_ips a) e, c))"

definition file_operation :: "int \<Rightarrow> string" where
  "file_operation a = (if a = 1 then ''CREATED'' else if a = 2 then ''READ'' else if a = 3 then ''MODIFIED''
     else if a = 4 then ''DELETED'' else ''MODIFIED'')"

definition extract_file_activity ::
    "extract_env \<Rightarrow> file_activity \<Rightarrow> int \<Rightarrow> entities \<times> proc_caches \<Rightarrow> entities \<times> proc_caches" where
  "extract_file_activity env a ev ec =
     (let now = fa_time a;
          (n, e, c) = with_proc env (fa_device a) (fa_process a) now ev (fa_activity_id a) ec
      in if fa_file_path a = [] then (e, c)
         else let e = e\<lparr>files := files e @ [\<lparr>fn_id = fa_file_path a, fn_path = fa_file_path a,
                        fn_hash_sha256 = fa_file_hash a, fn_size = fa_file_size a,
                        fn_first_seen = now, fn_last_seen = now\<rparr>]\<rparr>
              in case n of None \<Rightarrow> (e, c)
                 | Some n \<Rightarrow> (e\<lparr>file_edges := file_edges e @ [\<lparr>fe_process_id = pn_id n,
                     fe_file_id = fa_file_path a, fe_operation = file_operation (fa_activity_id a),
                     fe_timestamp = now, fe_event_id = ev\<rparr>]\<rparr>, c))"

definition reg_operation :: "int \<Rightarrow> string" where
  "reg_operation a = (if a = 1 then ''CREATED'' else if a = 3 then ''MODIFIED''
     else if a = 4 then ''DELETED'' else ''MODIFIED'')"

definition reg_id :: "registry_activity \<Rightarrow> string" where
  "reg_id a = (if truthy (ra_value_name a) then ra_reg_path a @ [CHR 0x5C] @ the (ra_value_name a) else ra_reg_path a)"

text \<open>Registry events take the start time but neither enrich the node nor add a user.\<close>

definition extract_registry_activity ::
    "extract_env \<Rightarrow> registry_activity \<Rightarrow> int \<Rightarrow> entities \<times> proc_caches \<Rightarrow> entities \<times> proc_caches" where
  "extract_registry_activity env a ev = (\<lambda>(e, c).
     let now = ra_time a;
         (i, e, c) = (case ra_process a of None \<Rightarrow> (None, e, c)
           | Some p \<Rightarrow> let (st, c) = start_time (xe_os env) p now c; n = base_node (ra_device a) p st None
                       in (Some (pn_id n), e\<lparr>processes := processes e @ [n]\<rparr>, c))
     in if ra_reg_path a = [] then (e, c)
        else let e = e\<lparr>registry_keys := registry_keys e @ [\<lparr>rk_id = reg_id a, rk_path = ra_reg_path a,
                       rk_value_name = ra_value_name a, rk_value_data = ra_value_data a,
                       rk_previous_data = ra_previous_data a, rk_first_seen = now, rk_last_seen = now\<rparr>]\<rparr>
             in case i of None \<Rightarrow> (e, c)
                | Some i \<Rightarrow> (e\<lparr>registry_edges := registry_edges e @ [\<lparr>ge_process_id = i, ge_registry_id = reg_id a,
                    ge_operation = reg_operation (ra_activity_id a), ge_timestamp = now, ge_event_id = ev\<rparr>]\<rparr>, c))"

definition persistence_risk :: "extract_env \<Rightarrow> ocsf_event \<Rightarrow> entities \<Rightarrow> entities" where
  "persistence_risk env ev e = (case check_persistence (xe_host env) ev of
     None \<Rightarrow> e
   | Some r \<Rightarrow> add_risk (PersistenceRisk (pr_type r) (pr_platform r) (pr_severity r) (pr_technique r)
       (pr_description r) (pr_path r)) e)"

definition on_caches ::
    "(entities \<times> proc_caches \<Rightarrow> entities \<times> proc_caches) \<Rightarrow> extractor \<Rightarrow> entities \<times> extractor" where
  "on_caches f x = (let (e, c) = f (empty_entities, ex_caches x) in (e, x\<lparr>ex_caches := c\<rparr>))"

definition extract_entities :: "extract_env \<Rightarrow> ocsf_event \<Rightarrow> int \<Rightarrow> extractor \<Rightarrow> entities \<times> extractor" where
  "extract_entities env ev i x =
     (let (e, x) = (case ev of
          ProcessActivity a \<Rightarrow> on_caches (extract_process_activity env a i) x
        | NetworkActivity a \<Rightarrow> on_caches (extract_network_activity env a i) x
        | Authentication a \<Rightarrow> (let (e, s) = extract_authentication env a i empty_entities (ex_sshd x)
            in (e, x\<lparr>ex_sshd := s\<rparr>))
        | DnsActivity a \<Rightarrow> on_caches (extract_dns_activity env a i) x
        | FileActivity a \<Rightarrow> on_caches (extract_file_activity env a i) x
        | RegistryActivity a \<Rightarrow> on_caches (extract_registry_activity env a i) x)
      in (persistence_risk env ev e, x))"

section \<open>What an extractor adds\<close>

text \<open>The users and edges of one process.\<close>

definition spawn_facts :: "process_node \<Rightarrow> datetime \<Rightarrow> int \<Rightarrow> user_node list \<Rightarrow> spawned_edge list \<Rightarrow> bool" where
  "spawn_facts n now ev us sp \<longleftrightarrow> (\<forall>x \<in> set sp. se_process_id x = pn_id n \<and> se_user_id x \<in> un_id ` set us
     \<and> se_event_id x = ev \<and> se_timestamp x = now)"

lemma enrich_parent_id:
  "enrich_parent s pid n c = (n', c') \<Longrightarrow> pn_id n' = pn_id n \<and> pn_name n' = pn_name n \<and> pn_pid n' = pn_pid n"
  by (auto simp: enrich_parent_def enrich_live_def Let_def split: if_splits option.splits)

lemma enrich_id:
  "enrich_process_node env pid n c = (n', c') \<Longrightarrow> pn_id n' = pn_id n \<and> pn_name n' = pn_name n \<and> pn_pid n' = pn_pid n"
  by (auto simp: enrich_process_node_def Let_def dest!: enrich_parent_id
      split: if_splits option.splits prod.splits)

lemma extract_user_adds:
  "extract_user s pid (pn_id n) now ev act actor (e, c) = (e', c') \<Longrightarrow>
     \<exists>us sp. e' = e\<lparr>users := users e @ us, spawned_edges := spawned_edges e @ sp\<rparr> \<and> spawn_facts n now ev us sp"
proof -
  assume r: "extract_user s pid (pn_id n) now ev act actor (e, c) = (e', c')"
  obtain u c1 where u: "resolve_user s pid actor c = (u, c1)" by fastforce
  show ?thesis
  proof (cases u)
    case None
    with r u show ?thesis by (intro exI [of _ "[]"]) (simp add: extract_user_def spawn_facts_def)
  next
    case (Some m)
    with r u show ?thesis
      by (intro exI [of _ "[\<lparr>un_id = m, un_name = Some m, un_uid = map_option ui_uid actor,
            un_first_seen = now, un_last_seen = now\<rparr>]"]
          exI [of _ "[\<lparr>se_user_id = m, se_process_id = pn_id n, se_timestamp = now, se_activity_id = act,
            se_event_id = ev\<rparr>]"])
        (simp add: extract_user_def add_user_def spawn_facts_def)
  qed
qed

lemma add_process_adds:
  assumes "add_process env h p parent now ev act actor (e, c) = (n, e', c')"
  shows "\<exists>us sp. e' = e\<lparr>users := users e @ us, processes := processes e @ [n], spawned_edges := spawned_edges e @ sp\<rparr>
    \<and> spawn_facts n now ev us sp"
proof -
  from assms obtain e1 c1 where e1: "e1 = e\<lparr>processes := processes e @ [n]\<rparr>"
    "extract_user (xe_os env) (pi_pid p) (pn_id n) now ev act actor (e1, c1) = (e', c')"
    by (auto simp: add_process_def Let_def split: prod.splits)
  from extract_user_adds [OF e1(2)] obtain us sp where
    "e' = e1\<lparr>users := users e1 @ us, spawned_edges := spawned_edges e1 @ sp\<rparr>" "spawn_facts n now ev us sp" by blast
  with e1(1) show ?thesis by (intro exI [of _ us] exI [of _ sp]) simp
qed

text \<open>The batch after the process part, which starts from nothing.\<close>

definition process_part :: "datetime \<Rightarrow> int \<Rightarrow> process_node option \<Rightarrow> entities \<Rightarrow> bool" where
  "process_part now ev n e \<longleftrightarrow> (\<exists>us sp. e = empty_entities\<lparr>users := us,
     processes := (case n of None \<Rightarrow> [] | Some n \<Rightarrow> [n]), spawned_edges := sp\<rparr>
     \<and> (case n of None \<Rightarrow> sp = [] | Some n \<Rightarrow> spawn_facts n now ev us sp))"

lemma with_proc_part:
  "with_proc env h p now ev act (empty_entities, c) = (n, e', c') \<Longrightarrow> process_part now ev n e'"
  by (cases p)
    (force simp: with_proc_def process_part_def empty_entities_def dest!: add_process_adds split: prod.splits)+

text \<open>Every edge names the event and its time.\<close>

definition provenance :: "datetime \<Rightarrow> int \<Rightarrow> entities \<Rightarrow> bool" where
  "provenance now ev e \<longleftrightarrow>
     (\<forall>x \<in> set (spawned_edges e). se_event_id x = ev \<and> se_timestamp x = now)
     \<and> (\<forall>x \<in> set (connected_edges e). ce_event_id x = ev \<and> ce_timestamp x = now)
     \<and> (\<forall>x \<in> set (resolved_edges e). re_event_id x = ev \<and> re_timestamp x = now)
     \<and> (\<forall>x \<in> set (resolves_to_edges e). rt_event_id x = ev \<and> rt_timestamp x = now)
     \<and> (\<forall>x \<in> set (file_edges e). fe_event_id x = ev \<and> fe_timestamp x = now)
     \<and> (\<forall>x \<in> set (registry_edges e). ge_event_id x = ev \<and> ge_timestamp x = now)"

definition good_batch :: "datetime \<Rightarrow> int \<Rightarrow> entities \<Rightarrow> bool" where
  "good_batch now ev e \<longleftrightarrow> closed_entities e \<and> provenance now ev e \<and> length (processes e) \<le> 1"

lemma good_batch_risk: "good_batch now ev (add_risk r e) = good_batch now ev e"
  by (simp add: good_batch_def add_risk_def closed_entities_def provenance_def)

lemma good_batch_connection_risk: "good_batch now ev (connection_risk env n ip port e) = good_batch now ev e"
  by (simp add: connection_risk_def good_batch_risk split: option.splits)

lemma good_batch_persistence: "good_batch now ev (persistence_risk env x e) = good_batch now ev e"
  by (simp add: persistence_risk_def good_batch_risk split: option.splits)

lemma part_good: "process_part now ev n e \<Longrightarrow> good_batch now ev e"
  by (cases n) (auto simp: process_part_def good_batch_def closed_entities_def provenance_def
      empty_entities_def spawn_facts_def)

lemma process_good:
  assumes "extract_process_activity env a ev (empty_entities, c) = (e, c')"
  shows "good_batch (pa_time a) ev e"
proof -
  obtain n where "add_process env (pa_device a) (pa_process a) (pi_parent_pid (pa_process a)) (pa_time a) ev
      (pa_activity_id a) (pa_actor a) (empty_entities, c) = (n, e, c')"
    using assms by (cases "add_process env (pa_device a) (pa_process a) (pi_parent_pid (pa_process a)) (pa_time a) ev
      (pa_activity_id a) (pa_actor a) (empty_entities, c)") (simp add: extract_process_activity_def)
  from add_process_adds [OF this] have "process_part (pa_time a) ev (Some n) e"
    by (auto simp: process_part_def empty_entities_def)
  then show ?thesis by (rule part_good)
qed

lemma network_good:
  assumes "extract_network_activity env a ev (empty_entities, c) = (e, c')"
  shows "good_batch (na_time a) ev e"
proof -
  obtain n e1 c1 where w: "with_proc env (na_device a) (na_process a) (na_time a) ev (na_activity_id a)
      (empty_entities, c) = (n, e1, c1)" by (metis prod.exhaust)
  from with_proc_part [OF w] have part: "process_part (na_time a) ev n e1" .
  have ip: "good_batch (na_time a) ev (add_ip env ip (na_time a) e1)" for ip
    using part_good [OF part] by (auto simp: good_batch_def add_ip_def closed_entities_def provenance_def)
  have "good_batch (na_time a) ev (connect (pn_id m) ip (na_time a) port d ev (add_ip env ip (na_time a) e1))"
    if "n = Some m" for m ip port d
    using ip [of ip] part that
    by (auto simp: good_batch_def connect_def add_ip_def mk_ip_def closed_entities_def provenance_def
        process_part_def empty_entities_def)
  with assms w part_good [OF part] ip show ?thesis
    by (auto simp: extract_network_activity_def Let_def good_batch_connection_risk split: option.splits if_splits)
qed

lemma resolution_good:
  assumes "good_batch now ev e" "d \<in> dn_id ` set (domains e)"
  shows "good_batch now ev (add_resolution env d now ev raw e) \<and> d \<in> dn_id ` set (domains (add_resolution env d now ev raw e))"
  using assms
  by (auto simp: good_batch_def add_resolution_def Let_def add_ip_def mk_ip_def closed_entities_def provenance_def)

lemma resolutions_good:
  "good_batch now ev e \<Longrightarrow> d \<in> dn_id ` set (domains e) \<Longrightarrow>
     good_batch now ev (fold (add_resolution env d now ev) raws e)"
proof (induction raws arbitrary: e)
  case (Cons r rs)
  from resolution_good [OF Cons.prems] show ?case using Cons.IH by simp
qed simp

lemma dns_good:
  assumes "extract_dns_activity env a ev (empty_entities, c) = (e, c')"
  shows "good_batch (da_time a) ev e"
proof -
  obtain n e1 c1 where w: "with_proc env (da_device a) (da_process a) (da_time a) ev (da_activity_id a)
      (empty_entities, c) = (n, e1, c1)" by (metis prod.exhaust)
  note part = with_proc_part [OF w]
  let ?d = "domain_name (da_query_domain a)"
  let ?e2 = "e1\<lparr>domains := domains e1 @ [\<lparr>dn_id = ?d, dn_name = ?d, dn_first_seen = da_time a, dn_last_seen = da_time a,
      dn_is_dga_candidate = xe_dga env ?d, dn_tld = (if CHR ''.'' \<in> set ?d then after_last CHR ''.'' ?d else [])\<rparr>]\<rparr>"
  let ?e3 = "case n of None \<Rightarrow> ?e2 | Some n \<Rightarrow> ?e2\<lparr>resolved_edges := resolved_edges ?e2 @ [\<lparr>re_process_id = pn_id n,
      re_domain_id = ?d, re_timestamp = da_time a, re_event_id = ev\<rparr>]\<rparr>"
  have "good_batch (da_time a) ev ?e3 \<and> ?d \<in> dn_id ` set (domains ?e3)"
    using part part_good [OF part]
    by (cases n) (auto simp: good_batch_def closed_entities_def provenance_def process_part_def empty_entities_def)
  from resolutions_good [OF conjunct1 [OF this] conjunct2 [OF this]] assms w part_good [OF part]
  show ?thesis by (cases n; auto simp: extract_dns_activity_def Let_def split: if_splits)
qed

lemma file_good:
  assumes "extract_file_activity env a ev (empty_entities, c) = (e, c')"
  shows "good_batch (fa_time a) ev e"
proof -
  obtain n e1 c1 where w: "with_proc env (fa_device a) (fa_process a) (fa_time a) ev (fa_activity_id a)
      (empty_entities, c) = (n, e1, c1)" by (metis prod.exhaust)
  note part = with_proc_part [OF w]
  from assms w part part_good [OF part] show ?thesis
    by (auto simp: extract_file_activity_def Let_def good_batch_def closed_entities_def provenance_def
        process_part_def empty_entities_def split: option.splits if_splits)
qed

lemma registry_good:
  assumes "extract_registry_activity env a ev (empty_entities, c) = (e, c')"
  shows "good_batch (ra_time a) ev e"
  using assms
  by (auto simp: extract_registry_activity_def Let_def good_batch_def closed_entities_def provenance_def
      empty_entities_def split: option.splits if_splits prod.splits)

fun event_time :: "ocsf_event \<Rightarrow> datetime" where
  "event_time (ProcessActivity a) = pa_time a"
| "event_time (NetworkActivity a) = na_time a"
| "event_time (Authentication a) = au_time a"
| "event_time (DnsActivity a) = da_time a"
| "event_time (FileActivity a) = fa_time a"
| "event_time (RegistryActivity a) = ra_time a"

fun is_authentication :: "ocsf_event \<Rightarrow> bool" where
  "is_authentication (Authentication a) = True"
| "is_authentication ev = False"

lemma on_caches_fst: "fst (on_caches f x) = fst (f (empty_entities, ex_caches x))"
  by (simp add: on_caches_def split: prod.splits)

lemma extract_good:
  "\<not> is_authentication ev \<Longrightarrow> good_batch (event_time ev) i (fst (extract_entities env ev i x))"
  by (cases ev)
    (auto simp: extract_entities_def good_batch_persistence on_caches_def
      intro: process_good network_good dns_good file_good registry_good split: prod.splits)

lemma extract_auth:
  assumes "extract_authentication env a i empty_entities s = (e, s')"
  shows "processes e = [] \<and> provenance (au_time a) i e \<and> (closed_entities e \<longleftrightarrow> connected_edges e = [])"
  using assms
  by (auto simp: extract_authentication_def Let_def provenance_def closed_entities_def empty_entities_def
      add_ip_def connect_def split: option.splits if_splits prod.splits)

section \<open>The caches across events\<close>

text \<open>Where the node id of a process comes from once it was resolved.\<close>

lemma resolve_again:
  assumes "0 < pid" "d_get (os_procs s) pid = Some p" "0 < op_create_time p"
    "resolve_start_time s pid t1 c = (st, c1)"
    "d_get (os_procs s') pid = None \<or> (\<exists>p'. d_get (os_procs s') pid = Some p' \<and> op_create_time p' = op_create_time p)"
  shows "resolve_start_time s' pid t2 c1 = (st, c1)"
proof -
  from assms(1-4) have "d_get (create_time_cache c1) pid = Some st \<and> 0 < st \<and> \<bar>st - op_create_time p\<bar> < 1000000"
    by (auto simp: resolve_start_time_def Let_def drop_reused_def dict_simps split: option.splits if_splits)
  with assms(1,3,5) show ?thesis
    by (auto simp: resolve_start_time_def cached_start_def Let_def)
qed

lemma resolve_dead:
  assumes "0 < pid" "d_get (os_procs s) pid = None" "d_get (create_time_cache c) pid \<in> {None, Some 0}"
  shows "\<exists>c1. resolve_start_time s pid t c = (t, c1) \<and> d_get (create_time_cache c1) pid = Some 0
    \<and> username_cache c1 = username_cache c \<and> ppid_cache c1 = ppid_cache c \<and> name_cache c1 = name_cache c"
  using assms by (auto simp: resolve_start_time_def cached_start_def dict_simps)

lemma resolve_users: "resolve_start_time s pid t c = (st, c') \<Longrightarrow> username_cache c' = username_cache c"
  by (auto simp: resolve_start_time_def cached_start_def drop_reused_def Let_def split: option.splits if_splits)

lemma start_time_users: "start_time s p now c = (st, c') \<Longrightarrow> username_cache c' = username_cache c"
  by (auto simp: start_time_def dest: resolve_users split: option.splits)

lemma enrich_parent_users: "enrich_parent s pid n c = (n', c') \<Longrightarrow> username_cache c' = username_cache c"
  by (auto simp: enrich_parent_def enrich_live_def remember_name_def Let_def split: if_splits option.splits)

lemma enrich_users:
  assumes "enrich_process_node env pid n c = (n', c')"
  shows "username_cache c' = username_cache c"
proof -
  obtain n1 c1 where 1: "enrich_parent (xe_os env) pid n c = (n1, c1)" by fastforce
  have "username_cache (populate_caches pid n1 c1) = username_cache c1"
    by (simp add: populate_caches_def Let_def)
  with assms 1 enrich_parent_users [OF 1] show ?thesis
    by (auto simp: enrich_process_node_def Let_def split: if_splits option.splits)
qed

lemma user_from_cache:
  "0 < pid \<Longrightarrow> d_get (username_cache c) pid = Some u \<Longrightarrow> u \<noteq> [] \<Longrightarrow> resolve_user s pid None c = (Some u, c)"
  by (simp add: resolve_user_def user_from_system_def or_none_def)

text \<open>The parent of a process that was dead when it was first seen.\<close>

lemma enrich_cached_parent:
  assumes "0 < pid" "\<not> has_parent n" "d_get (ppid_cache c) pid = Some pp" "enrich_process_node env pid n c = (n', c')"
  shows "pn_parent_pid n' = Some pp \<and> d_get (ppid_cache c') pid = Some pp"
  using assms
  by (auto simp: enrich_process_node_def enrich_parent_def populate_caches_def set_new_def Let_def dict_simps
      split: if_splits option.splits)

lemma enrich_dead_parent:
  assumes "0 < pid" "\<not> has_parent n" "d_get (ppid_cache c) pid = None" "d_get (os_procs (xe_os env)) pid = None"
    "enrich_process_node env pid n c = (n', c')"
  shows "d_get (ppid_cache c') pid = Some 0"
  using assms
  by (auto simp: enrich_process_node_def enrich_parent_def populate_caches_def remember_name_def set_new_def
      Let_def dict_simps split: if_splits option.splits)

lemma enrich_times:
  assumes "enrich_process_node env pid n c = (n', c')"
  shows "create_time_cache c' = create_time_cache c"
proof -
  obtain n1 c1 where 1: "enrich_parent (xe_os env) pid n c = (n1, c1)" by fastforce
  then have "create_time_cache c1 = create_time_cache c"
    by (auto simp: enrich_parent_def enrich_live_def remember_name_def Let_def split: if_splits option.splits)
  moreover have "create_time_cache (populate_caches pid n1 c1) = create_time_cache c1"
    by (simp add: populate_caches_def Let_def)
  ultimately show ?thesis using assms 1
    by (auto simp: enrich_process_node_def Let_def split: if_splits option.splits)
qed

lemma extract_user_caches:
  "extract_user s pid i now ev act None (e, c) = (e', c') \<Longrightarrow>
     ppid_cache c' = ppid_cache c \<and> create_time_cache c' = create_time_cache c"
  by (auto simp: extract_user_def resolve_user_def user_from_system_def Let_def
      split: if_splits option.splits prod.splits)

section \<open>Properties\<close>


definition quiet_env :: extract_env where
  "quiet_env = \<lparr>xe_os = \<lparr>os_procs = [(7, \<lparr>op_ppid = 1, op_name = ''sshd'', op_cmdline = None, op_exe = None,
     op_username = Some ''root'', op_create_time = 5000000\<rparr>)], os_cgroup = (\<lambda>p. None)\<rparr>,
     xe_identity = (\<lambda>p x. None), xe_private = (\<lambda>a. False), xe_dga = (\<lambda>d. False), xe_conn = None,
     xe_host = linux_host, xe_clock = 100\<rparr>"

definition sample_dns :: ocsf_event where
  "sample_dns = DnsActivity \<lparr>da_activity_id = 1, da_severity_id = 1, da_time = 9000000,
     da_process = Some \<lparr>pi_pid = 7, pi_name = ''curl'', pi_cmd_line = [], pi_exe_path = [],
       pi_parent_pid = None, pi_created_time = None\<rparr>,
     da_query_domain = ''Evil.com.'', da_resolved_ips = [''10.0.0.1'', '' ''], da_device = ''h'',
     da_metadata = \<lparr>md_original_time = None, md_log_source = []\<rparr>\<rparr>"


text \<open>The node id of a process is stable: once a live process was resolved, every later lookup of
  its pid gives the same start time and changes no cache, whatever the time of the event, as
  long as the pid is not reused, and also after the process has died.\<close>

theorem node_id_is_stable:
  assumes "0 < pid" "d_get (os_procs s) pid = Some p" "0 < op_create_time p"
    "resolve_start_time s pid t1 c = (st, c1)"
    "d_get (os_procs s') pid = None \<or> map_option op_create_time (d_get (os_procs s') pid) = Some (op_create_time p)"
  shows "resolve_start_time s' pid t2 c1 = (st, c1)
    \<and> node_id hostname pid (fst (resolve_start_time s' pid t2 c1)) = node_id hostname pid st"
proof -
  have "d_get (os_procs s') pid = None
      \<or> (\<exists>p'. d_get (os_procs s') pid = Some p' \<and> op_create_time p' = op_create_time p)"
    using assms(5) by auto
  from resolve_again [OF assms(1-4) this] show ?thesis by simp
qed

theorem node_id_is_stable_witness:
  "resolve_start_time (xe_os quiet_env) 7 999 (snd (resolve_start_time (xe_os quiet_env) 7 3 empty_caches))
     = (5000000, snd (resolve_start_time (xe_os quiet_env) 7 3 empty_caches))"
proof -
  have p: "d_get (os_procs (xe_os quiet_env)) 7 = Some \<lparr>op_ppid = 1, op_name = ''sshd'', op_cmdline = None,
      op_exe = None, op_username = Some ''root'', op_create_time = 5000000\<rparr>" by code_simp
  have r: "fst (resolve_start_time (xe_os quiet_env) 7 3 empty_caches) = 5000000" by code_simp
  from node_id_is_stable [OF _ p _ prod.collapse [symmetric], where ?t1.0 = 3 and c = empty_caches and s' = "xe_os quiet_env" and ?t2.0 = 999] p r
  show ?thesis by simp
qed

text \<open>The user cache survives the reuse of a pid: when a pid with a cached user belongs to a new
  process, the new process is still given the old user, in its node and its spawn edge.\<close>

theorem pid_reuse_keeps_old_user:
  assumes "0 < pi_pid p" "d_get (username_cache c) (pi_pid p) = Some u" "u \<noteq> []"
    "add_process env h p parent now ev act None (empty_entities, c) = (n, e, c')"
  shows "map un_id (users e) = [u] \<and> map se_user_id (spawned_edges e) = [u] \<and> map se_process_id (spawned_edges e) = [pn_id n]"
proof -
  obtain st c1 where 1: "start_time (xe_os env) p now c = (st, c1)" by fastforce
  obtain m c2 where 2: "enrich_process_node env (pi_pid p) (base_node h p st parent) c1 = (m, c2)" by fastforce
  have "d_get (username_cache c2) (pi_pid p) = Some u"
    using start_time_users [OF 1] enrich_users [OF 2] assms(2) by simp
  from user_from_cache [OF assms(1) this assms(3)] assms(4) 1 2 show ?thesis
    by (auto simp: add_process_def extract_user_def add_user_def empty_entities_def)
qed

theorem pid_reuse_keeps_old_user_witness:
  "map se_user_id (spawned_edges (fst (snd (add_process quiet_env ''h''
     \<lparr>pi_pid = 7, pi_name = ''sshd'', pi_cmd_line = [], pi_exe_path = [], pi_parent_pid = None, pi_created_time = None\<rparr>
     None 9 3 1 None (empty_entities, empty_caches\<lparr>username_cache := [(7, ''bob'')], create_time_cache := [(7, 1000000)]\<rparr>)))))
   = [''bob'']"
proof -
  let ?p = "\<lparr>pi_pid = 7, pi_name = ''sshd'', pi_cmd_line = [], pi_exe_path = [], pi_parent_pid = None, pi_created_time = None\<rparr> :: process_info"
  let ?c = "empty_caches\<lparr>username_cache := [(7, ''bob'')], create_time_cache := [(7, 1000000)]\<rparr>"
  have 1: "0 < pi_pid ?p" by simp
  have 2: "d_get (username_cache ?c) (pi_pid ?p) = Some ''bob''" by code_simp
  obtain n e c' where a: "add_process quiet_env ''h'' ?p None 9 3 1 None (empty_entities, ?c) = (n, e, c')"
    by (metis prod.exhaust)
  from pid_reuse_keeps_old_user [OF 1 2 _ a] a show ?thesis by simp
qed

text \<open>A process that was already dead when its pid was first seen poisons the pid: the parent 0 is
  cached for it, and a later process with that pid, live and with a known parent, still gets
  the parent 0.\<close>

theorem dead_pid_loses_parents:
  assumes "0 < pi_pid p" "d_get (os_procs (xe_os env)) (pi_pid p) = None"
    "d_get (create_time_cache c) (pi_pid p) = None" "d_get (ppid_cache c) (pi_pid p) = None"
    "add_process env h p None t ev act None (e, c) = (n1, e1, c1)"
    "pi_pid p2 = pi_pid p" "add_process env2 h p2 None t2 ev2 act2 None (e1, c1) = (n2, e2, c2)"
  shows "pn_parent_pid n2 = Some 0"
proof -
  let ?pid = "pi_pid p"
  have "d_get (ppid_cache c1) ?pid = Some 0 \<and> d_get (create_time_cache c1) ?pid \<in> {None, Some 0}"
  proof -
    obtain st ca where a: "start_time (xe_os env) p t c = (st, ca)" by fastforce
    obtain m cb where b: "enrich_process_node env ?pid (base_node h p st None) ca = (m, cb)" by fastforce
    from a assms(1-4) have ca: "d_get (ppid_cache ca) ?pid = None" "d_get (create_time_cache ca) ?pid \<in> {None, Some 0}"
      by (auto simp: start_time_def resolve_start_time_def cached_start_def dict_simps split: option.splits)
    have "d_get (ppid_cache cb) ?pid = Some 0"
      using enrich_dead_parent [OF assms(1) _ ca(1) assms(2) b] by (simp add: has_parent_def base_node_def)
    moreover have "create_time_cache cb = create_time_cache ca" by (rule enrich_times [OF b])
    ultimately show ?thesis using assms(5) a b ca(2) by (auto simp: add_process_def dest: extract_user_caches)
  qed
  moreover obtain st2 cc where d: "start_time (xe_os env2) p2 t2 c1 = (st2, cc)" by fastforce
  ultimately have cc: "d_get (ppid_cache cc) ?pid = Some 0"
    using assms(6)
    by (auto simp: start_time_def resolve_start_time_def cached_start_def Let_def split: option.splits if_splits)
  obtain m cd where f: "enrich_process_node env2 (pi_pid p2) (base_node h p2 st2 None) cc = (m, cd)" by fastforce
  from enrich_cached_parent [OF _ _ _ f, of 0] cc assms(1,6) have "pn_parent_pid m = Some 0"
    by (simp add: has_parent_def base_node_def)
  with assms(7) d f show ?thesis by (auto simp: add_process_def)
qed

definition sshd_info :: process_info where
  "sshd_info = \<lparr>pi_pid = 7, pi_name = ''sshd'', pi_cmd_line = [], pi_exe_path = [], pi_parent_pid = None,
     pi_created_time = None\<rparr>"

theorem dead_pid_loses_parents_witness:
  "\<exists>n1 e1 c1 n2 ec. add_process (quiet_env\<lparr>xe_os := \<lparr>os_procs = [], os_cgroup = (\<lambda>p. None)\<rparr>\<rparr>) ''h'' sshd_info
       None 9 3 1 None (empty_entities, empty_caches) = (n1, e1, c1)
     \<and> add_process quiet_env ''h'' sshd_info None 10 4 1 None (e1, c1) = (n2, ec) \<and> pn_parent_pid n2 = Some 0"
proof -
  let ?env = "quiet_env\<lparr>xe_os := \<lparr>os_procs = [], os_cgroup = (\<lambda>p. None)\<rparr>\<rparr>"
  obtain n1 e1 c1 where a: "add_process ?env ''h'' sshd_info None 9 3 1 None (empty_entities, empty_caches) = (n1, e1, c1)"
    by (metis prod.exhaust)
  obtain n2 e2 c2 where b: "add_process quiet_env ''h'' sshd_info None 10 4 1 None (e1, c1) = (n2, e2, c2)"
    by (metis prod.exhaust)
  have "0 < pi_pid sshd_info" by (simp add: sshd_info_def)
  from dead_pid_loses_parents [OF this _ _ _ a refl b] a b show ?thesis by (simp add: empty_caches_def)
qed

end
