(* ===== verification/Normalizer.thy ===== *)
theory Normalizer
  imports GraphTypes PyDict PyStr
begin

text \<open>
  Normalisation of raw events: \<open>agent/normalizer/\<close> and \<open>RawEvent\<close> of \<open>agent/collectors/base.py\<close>.
  A normaliser that raises, or returns nothing, is \<open>None\<close>, as \<open>normalize\<close> makes it.  The
  record \<open>norm_env\<close> holds what the code asks of the system: the host name, psutil, the
  attribution of files to processes, \<open>stat\<close> and the hash of a file, the Windows registry, and
  from the standard library \<open>datetime.fromisoformat\<close> and \<open>os.path.basename\<close> of the platform.
\<close>

record raw_event =
  rv_timestamp :: datetime
  rv_source :: string
  rv_message :: string
  rv_fields :: "(string, string) dict"
  rv_hostname :: string

record norm_env =
  nz_hostname :: string
  nz_windows :: bool
  nz_proc :: "int \<Rightarrow> (string \<times> string \<times> string) option"
  nz_owner :: "string \<Rightarrow> (int \<times> string) option"
  nz_stat :: "string \<Rightarrow> (bool \<times> int) option"
  nz_sha256 :: "string \<Rightarrow> string option"
  nz_winreg :: "string \<Rightarrow> string \<Rightarrow> string \<Rightarrow> string option"
  nz_iso :: "string \<Rightarrow> datetime option"
  nz_basename :: "string \<Rightarrow> string"

section \<open>Reading fields\<close>

text \<open>\<open>int(s)\<close> of a string: blanks around, a sign, decimal digits with single underscores
  between them.\<close>

fun digits_ok :: "bool \<Rightarrow> string \<Rightarrow> bool" where
  "digits_ok prev [] = prev"
| "digits_ok prev (c # cs) =
     (if is_digit c then digits_ok True cs else if c = CHR ''_'' \<and> prev then digits_ok False cs else False)"

definition nat_of_digits :: "string \<Rightarrow> int option" where
  "nat_of_digits s = (if digits_ok False s then Some (dec_val 0 (filter is_digit s)) else None)"

definition py_int :: "string \<Rightarrow> int option" where
  "py_int s = (case py_strip s of
     [] \<Rightarrow> None
   | c # cs \<Rightarrow> if c = CHR ''-'' then map_option uminus (nat_of_digits cs)
       else if c = CHR ''+'' then nat_of_digits cs else nat_of_digits (c # cs))"

definition field :: "raw_event \<Rightarrow> string \<Rightarrow> string" where
  "field r k = d_get_or (rv_fields r) k []"

definition field_or :: "raw_event \<Rightarrow> string \<Rightarrow> string \<Rightarrow> string" where
  "field_or r k d = d_get_or (rv_fields r) k d"

text \<open>\<open>a or b or \<dots>\<close> on strings.\<close>

fun first_nonempty :: "string list \<Rightarrow> string" where
  "first_nonempty [] = []"
| "first_nonempty (s # ss) = (if s \<noteq> [] then s else first_nonempty ss)"

definition opt_str :: "string \<Rightarrow> string option" where
  "opt_str s = (if s = [] then None else Some s)"

definition host_of :: "norm_env \<Rightarrow> raw_event \<Rightarrow> string" where
  "host_of env r = first_nonempty [rv_hostname r, nz_hostname env]"

definition meta_of :: "raw_event \<Rightarrow> ocsf_metadata" where
  "meta_of r = \<lparr>md_original_time = Some (rv_timestamp r), md_log_source = rv_source r\<rparr>"

definition simple_process :: "int \<Rightarrow> string \<Rightarrow> process_info" where
  "simple_process pid name = \<lparr>pi_pid = pid, pi_name = name, pi_cmd_line = [], pi_exe_path = [],
     pi_parent_pid = None, pi_created_time = None\<rparr>"

text \<open>\<open>if pid or process_name: process = ProcessInfo(...)\<close>.\<close>

definition maybe_process :: "int \<Rightarrow> string \<Rightarrow> process_info option" where
  "maybe_process pid name = (if pid \<noteq> 0 \<or> name \<noteq> [] then Some (simple_process pid name) else None)"

section \<open>Processes\<close>

definition basename_of :: "norm_env \<Rightarrow> string \<Rightarrow> string" where
  "basename_of env p = (if p = [] then [] else nz_basename env p)"

definition resolve_pid :: "norm_env \<Rightarrow> int \<Rightarrow> string \<Rightarrow> string \<Rightarrow> string \<times> string \<times> string" where
  "resolve_pid env pid user exe = (case nz_proc env pid of
     None \<Rightarrow> ([], user, exe)
   | Some (n, u, x) \<Rightarrow> (n, first_nonempty [user, u], first_nonempty [exe, x]))"

definition normalize_process :: "norm_env \<Rightarrow> raw_event \<Rightarrow> process_activity option" where
  "normalize_process env r =
     (case py_int (field_or r ''pid'' ''0'') of None \<Rightarrow> None
      | Some pid \<Rightarrow>
     (case py_int (first_nonempty [field_or r ''ppid'' ''0'', ''0'']) of None \<Rightarrow> None
      | Some ppid \<Rightarrow>
       let name = first_nonempty [field r ''name'', field r ''program'', basename_of env (field r ''process''),
             basename_of env (field r ''exe''), basename_of env (field r ''image'')];
           user = first_nonempty [field r ''username'', field r ''user''];
           cmd = first_nonempty [field r ''cmdline'', field r ''commandline''];
           exe = first_nonempty [field r ''exe'', field r ''image'', field r ''process''];
           (name, user, exe) = (if name = [] \<and> pid > 0 then resolve_pid env pid user exe else (name, user, exe));
           created = (if field r ''create_time'' = [] then None else nz_iso env (field r ''create_time''))
       in if name = [] then None
          else Some \<lparr>pa_activity_id = 1, pa_severity_id = 1, pa_time = rv_timestamp r,
                 pa_actor = (if user = [] then None else Some \<lparr>ui_name = user, ui_uid = []\<rparr>),
                 pa_process = \<lparr>pi_pid = pid, pi_name = name, pi_cmd_line = cmd, pi_exe_path = exe,
                   pi_parent_pid = (if ppid = 0 then None else Some ppid), pi_created_time = created\<rparr>,
                 pa_device = host_of env r, pa_metadata = meta_of r\<rparr>))"

section \<open>Network and DNS\<close>

text \<open>\<open>if fields.get(ip): NetworkEndpoint(ip, int(fields.get(port, "0")))\<close>; outer \<open>None\<close>: it
  raises.\<close>

definition endpoint_of :: "raw_event \<Rightarrow> string \<Rightarrow> string \<Rightarrow> network_endpoint option option" where
  "endpoint_of r ip port =
     (if field r ip = [] then Some None
      else map_option (\<lambda>p. Some \<lparr>ne_ip = field r ip, ne_port = p, ne_hostname = []\<rparr>) (py_int (field_or r port ''0'')))"

definition normalize_network :: "norm_env \<Rightarrow> raw_event \<Rightarrow> network_activity option" where
  "normalize_network env r =
     (case py_int (field_or r ''pid'' ''0'') of None \<Rightarrow> None
      | Some pid \<Rightarrow> (case endpoint_of r ''src_ip'' ''src_port'' of None \<Rightarrow> None
      | Some src \<Rightarrow> (case endpoint_of r ''dst_ip'' ''dst_port'' of None \<Rightarrow> None
      | Some dst \<Rightarrow> Some \<lparr>na_activity_id = 1, na_severity_id = 1, na_time = rv_timestamp r, na_src_endpoint = src,
          na_dst_endpoint = dst, na_process = maybe_process pid (field r ''process_name''),
          na_device = host_of env r, na_metadata = meta_of r\<rparr>)))"

text \<open>\<open>[ip.strip() for ip in raw.split(",") if ip.strip()]\<close>; fields are strings.\<close>

definition ip_list :: "string \<Rightarrow> string list" where
  "ip_list s = (if s = [] then [] else filter (\<lambda>i. i \<noteq> []) (map py_strip (split_on CHR '','' s)))"

definition normalize_dns :: "norm_env \<Rightarrow> raw_event \<Rightarrow> dns_activity option" where
  "normalize_dns env r =
     map_option (\<lambda>pid. \<lparr>da_activity_id = 1, da_severity_id = 1, da_time = rv_timestamp r,
         da_process = maybe_process pid (first_nonempty [field r ''name'', field r ''process_name'']),
         da_query_domain = first_nonempty [field r ''query_domain'', field r ''domain''],
         da_resolved_ips = ip_list (field r ''resolved_ips''),
         da_device = host_of env r, da_metadata = meta_of r\<rparr>)
       (py_int (field_or r ''pid'' ''0''))"

section \<open>Authentication\<close>

fun drop_spaces :: "string \<Rightarrow> string" where
  "drop_spaces [] = []"
| "drop_spaces (c # cs) = (if py_space c then drop_spaces cs else c # cs)"

text \<open>One attempt of \<open>word\s+([ok]+)\<close> at the head of the text: the group.\<close>

definition word_then :: "string \<Rightarrow> (char \<Rightarrow> bool) \<Rightarrow> string \<Rightarrow> string option" where
  "word_then w ok s =
     (if \<not> prefix w s then None
      else let rest = drop (length w) s; g = takeWhile ok (drop_spaces rest)
           in if rest \<noteq> [] \<and> py_space (hd rest) \<and> g \<noteq> [] then Some g else None)"

fun search_word :: "string list \<Rightarrow> (char \<Rightarrow> bool) \<Rightarrow> string \<Rightarrow> string option" where
  "search_word ws ok [] = None"
| "search_word ws ok (c # cs) =
     (case List.map_filter (\<lambda>w. word_then w ok (c # cs)) ws of
        g # _ \<Rightarrow> Some g | [] \<Rightarrow> search_word ws ok cs)"

definition ip_char :: "char \<Rightarrow> bool" where
  "ip_char c \<longleftrightarrow> is_digit c \<or> c = CHR ''.''"

definition normalize_authentication :: "norm_env \<Rightarrow> raw_event \<Rightarrow> authentication option" where
  "normalize_authentication env r =
     (let msg = py_lower (rv_message r);
          off = py_contains ''logout'' msg \<or> py_contains ''logoff'' msg \<or> py_contains ''session closed'' msg;
          bad = py_contains ''failed'' msg \<or> py_contains ''failure'' msg \<or> py_contains ''invalid'' msg;
          or_search = (\<lambda>s ws ok. if s \<noteq> [] then s
            else case search_word ws ok (rv_message r) of None \<Rightarrow> [] | Some g \<Rightarrow> g);
          user = first_nonempty [or_search (first_nonempty [field r ''user'', field r ''username''])
            [''user'', ''for''] (\<lambda>c. \<not> py_space c), ''unknown''];
          src = or_search (field r ''src_ip'') [''from''] ip_char
      in Some \<lparr>au_activity_id = (if off then 2 else 1), au_status_id = (if bad then 2 else 1),
           au_severity_id = (if bad then 3 else 1), au_time = rv_timestamp r,
           au_user = \<lparr>ui_name = user, ui_uid = []\<rparr>,
           au_src_endpoint = (if src = [] then None else Some \<lparr>ne_ip = src, ne_port = 0, ne_hostname = []\<rparr>),
           au_device = host_of env r, au_metadata = meta_of r\<rparr>)"

section \<open>Files and registry\<close>

definition file_activity_id :: "string \<Rightarrow> int" where
  "file_activity_id t = d_get_or [(''file_create'', 1), (''file_read'', 2), (''file_modify'', 3), (''file_delete'', 4),
     (''file_rename'', 3)] t 3"

definition MAX_HASH_SIZE :: int where
  "MAX_HASH_SIZE = 100 * 1024 * 1024"

definition compute_file_info :: "norm_env \<Rightarrow> string \<Rightarrow> string option \<times> int option" where
  "compute_file_info env p = (case nz_stat env p of
     None \<Rightarrow> (None, None)
   | Some (regular, sz) \<Rightarrow>
       if \<not> regular then (None, Some sz)
       else if sz > MAX_HASH_SIZE then (None, Some sz)
       else case nz_sha256 env p of None \<Rightarrow> (None, None) | Some h \<Rightarrow> (Some h, Some sz))"

definition normalize_file :: "norm_env \<Rightarrow> raw_event \<Rightarrow> file_activity option" where
  "normalize_file env r =
     map_option (\<lambda>pid.
       let name = first_nonempty [field r ''name'', field r ''process_name''];
           path = first_nonempty [field r ''file_path'', field r ''path''];
           (pid, name) = (if pid = 0 \<and> path \<noteq> []
             then (case nz_owner env path of None \<Rightarrow> (pid, name) | Some (p, n) \<Rightarrow> (p, n)) else (pid, name));
           name = (if pid = 0 then [] else name);
           (h, sz) = (if path = [] then (None, None) else compute_file_info env path)
       in \<lparr>fa_activity_id = file_activity_id (field_or r ''event_type'' (rv_source r)), fa_severity_id = 1,
           fa_time = rv_timestamp r, fa_process = maybe_process pid name, fa_file_path = path,
           fa_file_hash = h, fa_file_size = sz, fa_device = host_of env r, fa_metadata = meta_of r\<rparr>)
       (py_int (field_or r ''pid'' ''0''))"

definition reg_activity_id :: "string \<Rightarrow> int" where
  "reg_activity_id t = d_get_or [(''registry_create'', 1), (''registry_modify'', 3), (''registry_delete'', 4)] t 3"

definition HIVES :: "string list" where
  "HIVES = [''HKLM'', ''HKEY_LOCAL_MACHINE'', ''HKCU'', ''HKEY_CURRENT_USER'']"

definition read_registry_value :: "norm_env \<Rightarrow> string \<Rightarrow> string option \<Rightarrow> string option" where
  "read_registry_value env path v =
     (if \<not> nz_windows env then None
      else if CHR 0x5C \<notin> set path then None
      else if before_first CHR 0x5C path \<notin> set HIVES then None
      else nz_winreg env (before_first CHR 0x5C path) (after_first CHR 0x5C path) (case v of None \<Rightarrow> [] | Some n \<Rightarrow> n))"

definition normalize_registry :: "norm_env \<Rightarrow> raw_event \<Rightarrow> registry_activity option" where
  "normalize_registry env r =
     map_option (\<lambda>pid.
       let name = first_nonempty [field r ''name'', field r ''process_name''];
           path = first_nonempty [field r ''reg_path'', field r ''path''];
           v = opt_str (field r ''value_name'');
           act = reg_activity_id (field_or r ''event_type'' (rv_source r))
       in \<lparr>ra_activity_id = act, ra_severity_id = 1, ra_time = rv_timestamp r, ra_process = maybe_process pid name,
           ra_reg_path = path, ra_value_name = v, ra_value_data = opt_str (field r ''value_data''),
           ra_previous_data = (if act = 3 \<and> nz_windows env then read_registry_value env path v else None),
           ra_device = host_of env r, ra_metadata = meta_of r\<rparr>)
       (py_int (field_or r ''pid'' ''0''))"

section \<open>Dispatch\<close>

datatype normalizer_kind = NormProcess | NormNetwork | NormAuth | NormFile | NormDns | NormRegistry

definition NORMALIZERS :: "(string, normalizer_kind) dict" where
  "NORMALIZERS =
     [(''psutil_process'', NormProcess), (''psutil_network'', NormNetwork), (''auth'', NormAuth),
      (''auditd'', NormProcess), (''unified_log'', NormProcess), (''syslog'', NormProcess),
      (''macos_log'', NormProcess), (''evtlog_Security'', NormProcess), (''evtlog_System'', NormProcess),
      (''evtlog_Application'', NormProcess), (''evtlog_Microsoft-Windows-Sysmon/Operational'', NormProcess),
      (''auditd_execve'', NormProcess), (''auditd_syscall'', NormProcess), (''ebpf_execve'', NormProcess),
      (''ebpf_network'', NormNetwork), (''ebpf_file_create'', NormFile), (''ebpf_file_modify'', NormFile),
      (''ebpf_file_delete'', NormFile), (''ebpf_dns'', NormDns), (''connection_metadata'', NormNetwork),
      (''etw_process'', NormProcess), (''etw_network'', NormNetwork), (''etw_dns'', NormDns),
      (''etw_file'', NormFile), (''etw_registry'', NormRegistry), (''dns_resolve'', NormDns),
      (''unified_log_dns'', NormDns), (''file_create'', NormFile), (''file_modify'', NormFile),
      (''file_read'', NormFile), (''file_delete'', NormFile), (''file_rename'', NormFile),
      (''registry_create'', NormRegistry), (''registry_modify'', NormRegistry), (''registry_delete'', NormRegistry)]"

definition normalize :: "norm_env \<Rightarrow> raw_event \<Rightarrow> ocsf_event option" where
  "normalize env r = (case d_get NORMALIZERS (rv_source r) of
     None \<Rightarrow> None
   | Some NormProcess \<Rightarrow> map_option ProcessActivity (normalize_process env r)
   | Some NormNetwork \<Rightarrow> map_option NetworkActivity (normalize_network env r)
   | Some NormAuth \<Rightarrow> map_option Authentication (normalize_authentication env r)
   | Some NormFile \<Rightarrow> map_option FileActivity (normalize_file env r)
   | Some NormDns \<Rightarrow> map_option DnsActivity (normalize_dns env r)
   | Some NormRegistry \<Rightarrow> map_option RegistryActivity (normalize_registry env r))"

section \<open>Facts\<close>

lemma digits_ok_all: "list_all is_digit s \<Longrightarrow> digits_ok True s"
  by (induction s) auto

lemma nat_of_digits_pos: "0 \<le> n \<Longrightarrow> nat_of_digits (pos_str n) = Some n"
proof -
  assume n: "0 \<le> n"
  have d: "list_all is_digit (pos_str n)" by (rule pos_str_digits [OF n])
  then have "digits_ok False (pos_str n)"
    by (cases "pos_str n") (auto simp: digits_ok_all)
  moreover have "filter is_digit (pos_str n) = pos_str n" using d by (simp add: list_all_iff)
  ultimately show ?thesis by (simp add: nat_of_digits_def dec_val_pos_str n)
qed

lemma digit_not_space: "is_digit c \<Longrightarrow> \<not> py_space c \<and> c \<noteq> CHR ''-'' \<and> c \<noteq> CHR ''+''"
  by (auto simp: is_digit_def py_space_def Let_def)

lemma strip_digits: "list_all is_digit s \<Longrightarrow> py_strip s = s"
proof -
  assume "list_all is_digit s"
  then have a: "\<forall>c \<in> set s. \<not> py_space c" by (auto simp: list_all_iff dest: digit_not_space)
  then have "dropWhile py_space s = s" by (cases s) auto
  moreover have "dropWhile py_space (rev s) = rev s" using a by (cases "rev s") (auto simp: rev_eq_Cons_iff)
  ultimately show ?thesis by (simp add: py_strip_def)
qed

lemma py_int_pos: "0 \<le> n \<Longrightarrow> py_int (pos_str n) = Some n"
  using nat_of_digits_pos [of n] pos_str_digits [of n]
  by (cases "pos_str n") (auto simp: py_int_def strip_digits dest: digit_not_space)

lemma py_int_str: "0 \<le> n \<Longrightarrow> py_int (int_str n) = Some n"
  by (simp add: int_str_def py_int_pos)

section \<open>Properties\<close>

text \<open>What every consumer of normalised events may rely on.\<close>

fun well_formed :: "datetime \<Rightarrow> ocsf_event \<Rightarrow> bool" where
  "well_formed t (ProcessActivity a) \<longleftrightarrow> pa_time a = t \<and> pi_name (pa_process a) \<noteq> [] \<and> pi_parent_pid (pa_process a) \<noteq> Some 0"
| "well_formed t (NetworkActivity a) \<longleftrightarrow> na_time a = t
     \<and> (case na_dst_endpoint a of None \<Rightarrow> True | Some d \<Rightarrow> ne_ip d \<noteq> [])
     \<and> (case na_process a of None \<Rightarrow> True | Some p \<Rightarrow> pi_pid p \<noteq> 0 \<or> pi_name p \<noteq> [])"
| "well_formed t (Authentication a) \<longleftrightarrow> au_time a = t \<and> ui_name (au_user a) \<noteq> [] \<and> au_status_id a \<in> {1, 2}"
| "well_formed t (DnsActivity a) \<longleftrightarrow> da_time a = t \<and> [] \<notin> set (da_resolved_ips a)"
| "well_formed t (FileActivity a) \<longleftrightarrow> fa_time a = t \<and> fa_activity_id a \<in> {1, 2, 3, 4}
     \<and> (case fa_process a of None \<Rightarrow> True | Some p \<Rightarrow> pi_pid p \<noteq> 0)
     \<and> (case fa_file_size a of None \<Rightarrow> fa_file_hash a = None
         | Some n \<Rightarrow> n > MAX_HASH_SIZE \<longrightarrow> fa_file_hash a = None)"
| "well_formed t (RegistryActivity a) \<longleftrightarrow> ra_time a = t \<and> ra_activity_id a \<in> {1, 3, 4}
     \<and> (ra_activity_id a \<noteq> 3 \<longrightarrow> ra_previous_data a = None)"

lemma file_activity_ids: "file_activity_id t \<in> {1, 2, 3, 4}"
  by (simp add: file_activity_id_def d_get_or_def)

lemma reg_activity_ids: "reg_activity_id t \<in> {1, 3, 4}"
  by (simp add: reg_activity_id_def d_get_or_def)

lemma file_info_hash:
  "compute_file_info env p = (h, sz) \<Longrightarrow> (case sz of None \<Rightarrow> h = None | Some n \<Rightarrow> n > MAX_HASH_SIZE \<longrightarrow> h = None)"
  by (auto simp: compute_file_info_def split: option.splits prod.splits if_splits)

lemma ip_list_nonempty: "[] \<notin> set (ip_list s)"
  by (simp add: ip_list_def)

lemma first_nonempty_default: "d \<noteq> [] \<Longrightarrow> first_nonempty [s, d] \<noteq> []"
  by simp

lemma process_well_formed:
  assumes "normalize_process env r = Some a"
  shows "well_formed (rv_timestamp r) (ProcessActivity a)"
proof -
  obtain pid ppid where p: "py_int (field_or r ''pid'' ''0'') = Some pid"
    "py_int (first_nonempty [field_or r ''ppid'' ''0'', ''0'']) = Some ppid"
    using assms unfolding normalize_process_def by (cases "py_int (field_or r ''pid'' ''0'')";
      cases "py_int (first_nonempty [field_or r ''ppid'' ''0'', ''0''])") (simp_all del: first_nonempty.simps)
  let ?name = "first_nonempty [field r ''name'', field r ''program'', basename_of env (field r ''process''),
      basename_of env (field r ''exe''), basename_of env (field r ''image'')]"
  let ?user = "first_nonempty [field r ''username'', field r ''user'']"
  let ?exe = "first_nonempty [field r ''exe'', field r ''image'', field r ''process'']"
  obtain n u x where t: "(if ?name = [] \<and> pid > 0 then resolve_pid env pid ?user ?exe else (?name, ?user, ?exe)) = (n, u, x)"
    by (metis prod.exhaust)
  have "n \<noteq> [] \<and> pa_time a = rv_timestamp r \<and> pi_name (pa_process a) = n
      \<and> pi_parent_pid (pa_process a) = (if ppid = 0 then None else Some ppid)"
    using assms unfolding normalize_process_def p Let_def option.case t prod.case
    by (cases "n = []") (auto simp del: first_nonempty.simps)
  then show ?thesis by (simp split: if_splits)
qed

lemma network_well_formed: "normalize_network env r = Some a \<Longrightarrow> well_formed (rv_timestamp r) (NetworkActivity a)"
  by (auto simp: normalize_network_def endpoint_of_def maybe_process_def simple_process_def
      split: option.splits if_splits)

lemma dns_well_formed: "normalize_dns env r = Some a \<Longrightarrow> well_formed (rv_timestamp r) (DnsActivity a)"
  by (auto simp: normalize_dns_def ip_list_nonempty simp del: first_nonempty.simps)

lemma auth_well_formed:
  assumes "normalize_authentication env r = Some a"
  shows "well_formed (rv_timestamp r) (Authentication a)"
proof -
  obtain s where "ui_name (au_user a) = first_nonempty [s, ''unknown'']"
    using assms unfolding normalize_authentication_def Let_def option.inject
    by (metis authentication.select_convs(5) user_info.select_convs(1))
  moreover have "au_time a = rv_timestamp r \<and> au_status_id a \<in> {1, 2}"
    using assms unfolding normalize_authentication_def Let_def option.inject by auto
  ultimately show ?thesis using first_nonempty_default [of "''unknown''" s] by simp
qed

lemma maybe_process_pid: "maybe_process pid (if pid = 0 then [] else n) = Some p \<Longrightarrow> pi_pid p \<noteq> 0"
  by (auto simp: maybe_process_def simple_process_def split: if_splits)

lemma file_well_formed:
  assumes "normalize_file env r = Some a"
  shows "well_formed (rv_timestamp r) (FileActivity a)"
proof -
  let ?name = "first_nonempty [field r ''name'', field r ''process_name'']"
  let ?path = "first_nonempty [field r ''file_path'', field r ''path'']"
  obtain pid0 where p: "py_int (field_or r ''pid'' ''0'') = Some pid0" using assms by (auto simp: normalize_file_def)
  obtain pid n where t: "(if pid0 = 0 \<and> ?path \<noteq> [] then (case nz_owner env ?path of None \<Rightarrow> (pid0, ?name) | Some (p, n) \<Rightarrow> (p, n))
      else (pid0, ?name)) = (pid, n)" by fastforce
  obtain h sz where f: "(if ?path = [] then (None, None) else compute_file_info env ?path) = (h, sz)" by fastforce
  have a: "fa_time a = rv_timestamp r" "fa_activity_id a = file_activity_id (field_or r ''event_type'' (rv_source r))"
    "fa_process a = maybe_process pid (if pid = 0 then [] else n)" "fa_file_hash a = h" "fa_file_size a = sz"
    using assms unfolding normalize_file_def p option.map Let_def t f prod.case by auto
  have "case sz of None \<Rightarrow> h = None | Some n \<Rightarrow> n > MAX_HASH_SIZE \<longrightarrow> h = None"
    using f file_info_hash [of env ?path h sz] by (cases "?path = []") auto
  moreover have "case fa_process a of None \<Rightarrow> True | Some p \<Rightarrow> pi_pid p \<noteq> 0"
    unfolding a(3) using maybe_process_pid [of pid n] by (cases "maybe_process pid (if pid = 0 then [] else n)") auto
  moreover have "fa_activity_id a \<in> {1, 2, 3, 4}" unfolding a(2) by (rule file_activity_ids)
  ultimately show ?thesis using a(1) a(4) a(5) by (simp split: option.splits)
qed

lemma registry_well_formed: "normalize_registry env r = Some a \<Longrightarrow> well_formed (rv_timestamp r) (RegistryActivity a)"
  using reg_activity_ids [of "field_or r ''event_type'' (rv_source r)"]
  by (auto simp: normalize_registry_def Let_def simp del: first_nonempty.simps)

lemma normalize_wf:
  assumes "normalize env r = Some ev"
  shows "well_formed (rv_timestamp r) ev"
  using assms process_well_formed network_well_formed dns_well_formed auth_well_formed file_well_formed
    registry_well_formed
  by (auto simp: normalize_def simp del: well_formed.simps split: option.splits normalizer_kind.splits)

text \<open>C38. Every normalised event is well formed: it carries the time of the raw event; a process has
  a name and no parent 0; a peer has an address; a file event never names the process 0, its
  activity is one of the four known, and a file over the size limit has no hash; a registry
  event has previous data only when it modifies.\<close>

theorem normalised_events_well_formed:
  assumes "normalize env r = Some ev"
  shows "well_formed (rv_timestamp r) ev"
  by (rule normalize_wf [OF assms])

definition plain_env :: norm_env where
  "plain_env = \<lparr>nz_hostname = ''h'', nz_windows = False, nz_proc = (\<lambda>p. None), nz_owner = (\<lambda>f. None),
     nz_stat = (\<lambda>f. None), nz_sha256 = (\<lambda>f. None), nz_winreg = (\<lambda>h k v. None), nz_iso = (\<lambda>s. None),
     nz_basename = (\<lambda>p. after_last CHR ''/'' p)\<rparr>"

definition raw_login :: raw_event where
  "raw_login = \<lparr>rv_timestamp = 5, rv_source = ''auth'', rv_message = ''Failed password for root from 10.0.0.9 port 22'',
     rv_fields = [], rv_hostname = []\<rparr>"

theorem normalised_events_well_formed_witness:
  "\<exists>a. normalize plain_env raw_login = Some (Authentication a) \<and> ui_name (au_user a) \<noteq> [] \<and> au_status_id a \<in> {1, 2}"
proof -
  have "(case normalize plain_env raw_login of Some (Authentication a) \<Rightarrow> True | _ \<Rightarrow> False)" by code_simp
  then obtain a where a: "normalize plain_env raw_login = Some (Authentication a)"
    by (auto split: option.splits ocsf_event.splits)
  from normalised_events_well_formed [OF a] a show ?thesis by simp
qed

text \<open>The defaults of the normalisers differ: a network, DNS or registry event that names a process
  but has no pid keeps the process with pid 0, a file event drops it.\<close>

theorem missing_pid_is_zero:
  assumes "d_get (rv_fields r) ''pid'' = None" "field r ''process_name'' = n" "field r ''name'' = []" "n \<noteq> []"
    "endpoint_of r ''src_ip'' ''src_port'' \<noteq> None" "endpoint_of r ''dst_ip'' ''dst_port'' \<noteq> None"
    "nz_owner env = (\<lambda>f. None)"
  shows "map_option na_process (normalize_network env r) = Some (Some (simple_process 0 n))
    \<and> map_option da_process (normalize_dns env r) = Some (Some (simple_process 0 n))
    \<and> map_option ra_process (normalize_registry env r) = Some (Some (simple_process 0 n))
    \<and> map_option fa_process (normalize_file env r) = Some None"
proof -
  have z: "py_int ''0'' = Some 0" by code_simp
  from assms(1) have p: "field_or r ''pid'' ''0'' = ''0''" by (simp add: field_or_def d_get_or_def d_get_def)
  from assms z p show ?thesis
    by (auto simp: normalize_network_def normalize_dns_def normalize_registry_def normalize_file_def maybe_process_def
        Let_def split: option.splits prod.splits)
qed

definition raw_conn :: raw_event where
  "raw_conn = \<lparr>rv_timestamp = 5, rv_source = ''psutil_network'', rv_message = [],
     rv_fields = [(''process_name'', ''curl''), (''dst_ip'', ''10.0.0.9''), (''dst_port'', ''443'')], rv_hostname = []\<rparr>"

theorem missing_pid_is_zero_witness:
  "map_option na_process (normalize_network plain_env raw_conn) = Some (Some (simple_process 0 ''curl''))"
proof -
  have 1: "d_get (rv_fields raw_conn) ''pid'' = None" by code_simp
  have 2: "field raw_conn ''process_name'' = ''curl''" "field raw_conn ''name'' = []" by code_simp+
  have 3: "endpoint_of raw_conn ''src_ip'' ''src_port'' = Some None" by code_simp
  have "(case endpoint_of raw_conn ''dst_ip'' ''dst_port'' of None \<Rightarrow> False | Some x \<Rightarrow> True)" by code_simp
  then have 4: "endpoint_of raw_conn ''dst_ip'' ''dst_port'' \<noteq> None" by (auto split: option.splits)
  from missing_pid_is_zero [OF 1 2 _ _ 4, of plain_env] 3 show ?thesis by (simp add: plain_env_def)
qed

end
