(* ===== verification/IocDatabase.thy ===== *)
theory IocDatabase
  imports Normalizer
begin

text \<open>
  The database of known-bad indicators (\<open>agent/intel/ioc_database.py\<close>): its feeds, exclusions,
  suppressions, refresh and lookups, and the matching of events against it
  (\<open>_check_ioc_matches\<close> in \<open>agent/main.py\<close>).  What a download returns, the host name of a URL
  (\<open>urllib.parse\<close>), the rows of a CSV text, the regular expressions and the fleet server are a
  record of the environment.  A dash outside ASCII in a description is written \<open>-\<close>; the
  progress fields a dashboard reads are left out.
\<close>

section \<open>State and environment\<close>

record ioc_match =
  im_feed_name :: string
  im_ioc_type :: string
  im_ioc_value :: string
  im_description :: string
  im_confidence :: string

type_synonym ioc_dict = "(string, ioc_match) dict"

record ioc_db =
  db_ips :: ioc_dict
  db_domains :: ioc_dict
  db_hashes :: ioc_dict
  db_last_refresh :: int
  db_refresh_interval :: int
  db_downloading :: bool
  db_feed_stats :: "(string, int) dict"
  db_suppressed_ips :: "string set"
  db_suppressed_domains :: "string set"
  db_suppressed_hashes :: "string set"
  db_exclusion_patterns :: "string list"

text \<open>A bundle of the fleet server: an entry with a missing key is \<open>None\<close>.\<close>

record ioc_bundle =
  bn_version :: int
  bn_ips :: "(string \<times> ioc_match option) list"
  bn_domains :: "(string \<times> ioc_match option) list"
  bn_hashes :: "(string \<times> ioc_match option) list"
  bn_feed_stats :: "(string, int) dict"

record ioc_env =
  ie_compiles :: "string \<Rightarrow> bool"
  ie_search :: "string \<Rightarrow> string \<Rightarrow> bool"
  ie_http :: "string \<Rightarrow> string option"
  ie_csv :: "string list \<Rightarrow> string list list"
  ie_hostname :: "string \<Rightarrow> string option"
  ie_fleet :: "ioc_bundle option"

definition DOMAIN_ALLOWLIST :: "string list" where
  "DOMAIN_ALLOWLIST = [''storage.googleapis.com'', ''firebasestorage.googleapis.com'', ''drive.google.com'',
     ''docs.google.com'', ''sites.google.com'', ''s3.amazonaws.com'', ''blob.core.windows.net'', ''1drv.ms'',
     ''onedrive.live.com'', ''github.com'', ''raw.githubusercontent.com'', ''codeload.github.com'',
     ''objects.githubusercontent.com'', ''gist.githubusercontent.com'', ''gitlab.com'', ''bitbucket.org'',
     ''dropbox.com'', ''dl.dropboxusercontent.com'', ''pastebin.com'', ''paste.ee'', ''transfer.sh'',
     ''cdn.discordapp.com'', ''media.discordapp.net'', ''discord.gg'', ''anonfiles.com'', ''mega.nz'',
     ''mediafire.com'', ''web.archive.org'', ''archive.org'', ''img1.wsimg.com'', ''wordpress.com'',
     ''blogspot.com'', ''weebly.com'', ''bit.ly'', ''tinyurl.com'', ''t.co'', ''is.gd'', ''rebrand.ly'']"

definition new_ioc_db :: "ioc_env \<Rightarrow> int \<Rightarrow> string list \<Rightarrow> ioc_db" where
  "new_ioc_db env interval_s patterns =
     \<lparr>db_ips = [], db_domains = [], db_hashes = [], db_last_refresh = 0, db_refresh_interval = interval_s,
      db_downloading = False, db_feed_stats = [], db_suppressed_ips = {}, db_suppressed_domains = {},
      db_suppressed_hashes = {}, db_exclusion_patterns = filter (ie_compiles env) patterns\<rparr>"

definition is_excluded :: "ioc_env \<Rightarrow> ioc_db \<Rightarrow> string \<Rightarrow> bool" where
  "is_excluded env db v \<longleftrightarrow> list_ex (\<lambda>p. ie_search env p v) (db_exclusion_patterns db)"

text \<open>A suppression is its indicator type and its pattern, empty when the key is missing.\<close>

definition patterns_of :: "string \<Rightarrow> (string \<times> string) list \<Rightarrow> string set" where
  "patterns_of ty ss = set (filter (\<lambda>p. p \<noteq> []) (map (\<lambda>(t, p). py_lower (py_strip p)) (filter (\<lambda>(t, p). t = ty) ss)))"

definition set_suppressions :: "(string \<times> string) list \<Rightarrow> ioc_db \<Rightarrow> ioc_db" where
  "set_suppressions ss db = db\<lparr>db_suppressed_ips := patterns_of ''ip'' ss,
     db_suppressed_domains := patterns_of ''domain'' ss, db_suppressed_hashes := patterns_of ''hash'' ss\<rparr>"

section \<open>Reading the feeds\<close>

definition chop_end :: "string \<Rightarrow> string" where
  "chop_end l = (if l \<noteq> [] \<and> line_break (last l) then butlast l else l)"

text \<open>\<open>body.splitlines()\<close>; a carriage return and newline gives one more empty line, which every feed
  skips.\<close>

definition body_lines :: "string \<Rightarrow> string list" where
  "body_lines s = map chop_end (split_lines (replace_char CHR 0x0D CHR 0x0A s))"

definition ip_like :: "string \<Rightarrow> bool" where
  "ip_like s = (let ps = split_on CHR ''.'' s in
     length ps = 4 \<and> list_all (\<lambda>p. p \<noteq> [] \<and> length p \<le> 3 \<and> list_all is_digit p) ps)"

definition parse_ip_lines :: "string \<Rightarrow> string list" where
  "parse_ip_lines body =
     filter ip_like (map (\<lambda>l. py_strip (hd (py_words l)))
       (filter (\<lambda>l. l \<noteq> [] \<and> \<not> prefix ''#'' l \<and> \<not> prefix ''//'' l) (map py_strip (body_lines body))))"

definition add_new :: "string \<Rightarrow> ioc_match \<Rightarrow> ioc_dict \<times> int \<Rightarrow> ioc_dict \<times> int" where
  "add_new k m = (\<lambda>(d, n). if d_get d k = None then (d_set k m d, n + 1) else (d, n))"

text \<open>The four feeds that list addresses.\<close>

definition download_ip_list :: "ioc_env \<Rightarrow> string \<Rightarrow> string \<Rightarrow> string \<Rightarrow> ioc_dict \<Rightarrow> ioc_dict \<times> int" where
  "download_ip_list env feed desc conf ads = (case ie_http env feed of None \<Rightarrow> (ads, 0)
   | Some body \<Rightarrow> fold (\<lambda>ip. add_new ip \<lparr>im_feed_name = feed, im_ioc_type = ''ip'', im_ioc_value = ip,
       im_description = desc, im_confidence = conf\<rparr>) (parse_ip_lines body) (ads, 0))"

definition download_feodo :: "ioc_env \<Rightarrow> ioc_dict \<Rightarrow> ioc_dict \<times> int" where
  "download_feodo env = download_ip_list env ''feodo_tracker'' ''Feodo Tracker botnet C2'' ''high''"

definition download_blocklist_de :: "ioc_env \<Rightarrow> ioc_dict \<Rightarrow> ioc_dict \<times> int" where
  "download_blocklist_de env = download_ip_list env ''blocklist_de'' ''Blocklist.de attack source'' ''medium''"

definition download_c2_tracker :: "ioc_env \<Rightarrow> ioc_dict \<Rightarrow> ioc_dict \<times> int" where
  "download_c2_tracker env = download_ip_list env ''c2_tracker'' ''C2 Tracker - active C2 framework server'' ''high''"

definition download_emerging_threats :: "ioc_env \<Rightarrow> ioc_dict \<Rightarrow> ioc_dict \<times> int" where
  "download_emerging_threats env =
     download_ip_list env ''emerging_threats'' ''Emerging Threats compromised host'' ''medium''"

text \<open>One line of ipsum: an address and the number of blacklists that hold it.\<close>

definition ipsum_line :: "string \<Rightarrow> (string \<times> ioc_match) option" where
  "ipsum_line l = (case py_words l of
     ip # s # _ \<Rightarrow> (case py_int s of None \<Rightarrow> None
       | Some score \<Rightarrow> if score < 3 \<or> \<not> ip_like ip then None
           else Some (ip, \<lparr>im_feed_name = ''ipsum'', im_ioc_type = ''ip'', im_ioc_value = ip,
             im_description = ''ipsum reputation (score '' @ int_str score @ ''/'' @ s @ '')'',
             im_confidence = (if score \<ge> 5 then ''high'' else ''medium'')\<rparr>))
   | _ \<Rightarrow> None)"

definition payload_lines :: "string \<Rightarrow> string list" where
  "payload_lines body = filter (\<lambda>l. l \<noteq> [] \<and> \<not> prefix ''#'' l) (map py_strip (body_lines body))"

definition download_ipsum :: "ioc_env \<Rightarrow> ioc_dict \<Rightarrow> ioc_dict \<times> int" where
  "download_ipsum env ads = (case ie_http env ''ipsum'' of None \<Rightarrow> (ads, 0)
   | Some body \<Rightarrow> fold (\<lambda>(ip, m). add_new ip m) (List.map_filter ipsum_line (payload_lines body)) (ads, 0))"

definition domain_ok :: "ioc_env \<Rightarrow> ioc_db \<Rightarrow> string \<Rightarrow> bool" where
  "domain_ok env db d \<longleftrightarrow> d \<noteq> [] \<and> d \<notin> set DOMAIN_ALLOWLIST \<and> \<not> is_excluded env db d"

definition url_domain :: "ioc_env \<Rightarrow> string \<Rightarrow> string" where
  "url_domain env u = (case ie_hostname env (if py_contains ''://'' u then u else ''http://'' @ u) of
     None \<Rightarrow> [] | Some h \<Rightarrow> py_lower h)"

definition strip_quotes :: "string \<Rightarrow> string" where
  "strip_quotes s = rev (dropWhile (\<lambda>c. c = double_quote) (rev (dropWhile (\<lambda>c. c = double_quote) s)))"

definition threatfox_row ::
    "ioc_env \<Rightarrow> ioc_db \<Rightarrow> string list \<Rightarrow> (ioc_dict \<times> int) \<times> ioc_dict \<times> int \<Rightarrow> (ioc_dict \<times> int) \<times> ioc_dict \<times> int" where
  "threatfox_row env db row = (\<lambda>(ads, doms).
     if length row < 6 then (ads, doms)
     else let v = strip_quotes (py_strip (row ! 2));
              ty = strip_quotes (py_strip (row ! 3));
              malware = (if length row > 7 then strip_quotes (py_strip (row ! 7)) else []);
              desc = (if malware \<noteq> [] then ''ThreatFox: '' @ malware else ''ThreatFox IOC'');
              mk = (\<lambda>t x. \<lparr>im_feed_name = ''threatfox'', im_ioc_type = t, im_ioc_value = x, im_description = desc,
                im_confidence = ''high''\<rparr>);
              add_domain = (\<lambda>d. if domain_ok env db d then add_new d (mk ''domain'' d) doms else doms)
          in if ty = ''ip:port'' then
               (let ip = py_strip (hd (split_on CHR '':'' v))
                in (if ip_like ip then add_new ip (mk ''ip'' ip) ads else ads, doms))
             else if ty = ''domain'' then (ads, add_domain (py_lower (py_strip v)))
             else if ty = ''url'' then (ads, add_domain (url_domain env v))
             else (ads, doms))"

definition download_threatfox ::
    "ioc_env \<Rightarrow> ioc_db \<Rightarrow> ioc_dict \<Rightarrow> ioc_dict \<Rightarrow> (ioc_dict \<times> int) \<times> ioc_dict \<times> int" where
  "download_threatfox env db ads doms = (case ie_http env ''threatfox'' of None \<Rightarrow> ((ads, 0), doms, 0)
   | Some body \<Rightarrow> fold (threatfox_row env db)
       (ie_csv env (filter (\<lambda>l. py_strip l \<noteq> [] \<and> \<not> prefix ''#'' l) (body_lines body))) ((ads, 0), doms, 0))"

definition download_urlhaus :: "ioc_env \<Rightarrow> ioc_db \<Rightarrow> ioc_dict \<Rightarrow> ioc_dict \<times> int" where
  "download_urlhaus env db doms = (case ie_http env ''urlhaus'' of None \<Rightarrow> (doms, 0)
   | Some body \<Rightarrow> fold (\<lambda>l s. let d = url_domain env l in
       if domain_ok env db d then add_new d \<lparr>im_feed_name = ''urlhaus'', im_ioc_type = ''domain'', im_ioc_value = d,
         im_description = ''URLhaus active malware distribution'', im_confidence = ''high''\<rparr> s else s)
       (payload_lines body) (doms, 0))"

definition download_malbazaar :: "ioc_env \<Rightarrow> ioc_dict \<Rightarrow> ioc_dict \<times> int" where
  "download_malbazaar env hs = (case ie_http env ''malbazaar'' of None \<Rightarrow> (hs, 0)
   | Some body \<Rightarrow> fold (\<lambda>l (d, n). (d_set (py_lower l) \<lparr>im_feed_name = ''malbazaar'', im_ioc_type = ''sha256'',
         im_ioc_value = py_lower l, im_description = ''MalBazaar recent malware sample'', im_confidence = ''high''\<rparr> d, n + 1))
       (filter (\<lambda>l. length l = 64) (payload_lines body)) (hs, 0))"

section \<open>Refresh and lookup\<close>

definition suppress :: "string set \<Rightarrow> ioc_dict \<Rightarrow> ioc_dict" where
  "suppress out d = filter (\<lambda>(k, _). k \<notin> out) d"

definition swap_in :: "int \<Rightarrow> ioc_dict \<Rightarrow> ioc_dict \<Rightarrow> ioc_dict \<Rightarrow> (string, int) dict \<Rightarrow> ioc_db \<Rightarrow> ioc_db" where
  "swap_in now ads doms hs st db = db\<lparr>db_ips := suppress (db_suppressed_ips db) ads,
     db_domains := suppress (db_suppressed_domains db) doms, db_hashes := suppress (db_suppressed_hashes db) hs,
     db_feed_stats := st, db_last_refresh := now\<rparr>"

definition download_feeds :: "ioc_env \<Rightarrow> int \<Rightarrow> ioc_db \<Rightarrow> ioc_db" where
  "download_feeds env now db =
     (let (ads, n1) = download_feodo env [];
          (ads, n2) = download_ipsum env ads;
          (ads, n3) = download_blocklist_de env ads;
          (ads, n4) = download_c2_tracker env ads;
          (ads, n5) = download_emerging_threats env ads;
          ((ads, n6), doms, n7) = download_threatfox env db ads [];
          (doms, n8) = download_urlhaus env db doms;
          (hs, n9) = download_malbazaar env []
      in (swap_in now ads doms hs
           [(''feodo_tracker'', n1), (''ipsum'', n2), (''blocklist_de'', n3), (''c2_tracker'', n4),
            (''emerging_threats'', n5), (''threatfox_ips'', n6), (''threatfox_domains'', n7), (''urlhaus'', n8),
            (''malbazaar'', n9)] db)\<lparr>db_downloading := False\<rparr>)"

text \<open>A malformed entry makes the whole bundle fail; an excluded domain is not looked at.\<close>

fun load_entries :: "(string \<times> ioc_match option) list \<Rightarrow> ioc_dict \<Rightarrow> ioc_dict option" where
  "load_entries [] d = Some d"
| "load_entries ((k, None) # es) d = None"
| "load_entries ((k, Some m) # es) d = load_entries es (d_set k m d)"

definition load_bundle :: "ioc_env \<Rightarrow> int \<Rightarrow> ioc_bundle \<Rightarrow> ioc_db \<Rightarrow> ioc_db option" where
  "load_bundle env now b db =
     (case (load_entries (bn_ips b) [], load_entries (filter (\<lambda>(k, _). \<not> is_excluded env db k) (bn_domains b)) [],
         load_entries (bn_hashes b) []) of
        (Some ads, Some doms, Some hs) \<Rightarrow> Some (swap_in now ads doms hs (bn_feed_stats b) db)
      | _ \<Rightarrow> None)"

definition download_from_fleet :: "ioc_env \<Rightarrow> int \<Rightarrow> ioc_db \<Rightarrow> ioc_db option" where
  "download_from_fleet env now db = (case ie_fleet env of None \<Rightarrow> None
   | Some b \<Rightarrow> if bn_version b \<noteq> 1 then None else load_bundle env now b db)"

definition refresh_if_stale :: "ioc_env \<Rightarrow> bool \<Rightarrow> int \<Rightarrow> ioc_db \<Rightarrow> ioc_db" where
  "refresh_if_stale env fleet now db =
     (if db_downloading db then db
      else if now - db_last_refresh db > db_refresh_interval db then
        (case (if fleet then download_from_fleet env now db else None) of
           Some db' \<Rightarrow> db' | None \<Rightarrow> download_feeds env now db)
      else db)"

definition check_ip :: "ioc_db \<Rightarrow> string \<Rightarrow> ioc_match option" where
  "check_ip db ip = d_get (db_ips db) ip"

definition check_domain :: "ioc_db \<Rightarrow> string \<Rightarrow> ioc_match option" where
  "check_domain db d = d_get (db_domains db) (py_lower d)"

definition check_hash :: "ioc_db \<Rightarrow> string \<Rightarrow> ioc_match option" where
  "check_hash db h = d_get (db_hashes db) (py_lower h)"

section \<open>Matching events\<close>

definition ioc_finding ::
    "string \<Rightarrow> datetime \<Rightarrow> int \<Rightarrow> ioc_match \<Rightarrow> string \<Rightarrow> string \<Rightarrow> string \<Rightarrow> int \<Rightarrow> security_finding" where
  "ioc_finding uid now ev m etype v pname pid =
     \<lparr>sf_id = uid, sf_timestamp = now, sf_severity = ''critical'',
      sf_title = d_get_or [(''ip'', ''Known Botnet C2 IP Detected''), (''domain'', ''Known Malicious Domain Detected''),
        (''sha256'', ''Known Malware Hash Detected'')] (im_ioc_type m) ''Known Threat IOC Detected'' @ '': '' @ v,
      sf_description = ''IOC feed match ('' @ im_feed_name m @ ''): '' @ v @ '' - '' @ im_description m
        @ ''. This indicator was found in a threat intelligence feed with '' @ im_confidence m @ '' confidence.'',
      sf_affected_entities = [v], sf_evidence_event_ids = [ev],
      sf_recommendation = ''Investigate the associated process immediately. Consider isolating the endpoint and blocking the indicator.'',
      sf_chain = (if pname \<noteq> [] then [mk_chain_step ''process'' pname pname (if pid > 0 then Some pid else None)] else [])
        @ [mk_chain_step etype v v None],
      sf_affected_pids = (if pid > 0 then [pid] else []),
      sf_iocs = (if im_ioc_type m = ''ip'' then [(''ips'', [v])] else if im_ioc_type m = ''domain'' then [(''domains'', [v])]
        else if im_ioc_type m = ''sha256'' then [(''files'', [v])] else []),
      sf_trigger_pid = None, sf_trigger_timestamp = None\<rparr>"

definition endpoint_ips :: "network_endpoint option \<Rightarrow> string list" where
  "endpoint_ips e = (case e of None \<Rightarrow> [] | Some d \<Rightarrow> if ne_ip d = [] then [] else [ne_ip d])"

text \<open>The addresses, domains and hashes of an event, and the name and pid of its process.\<close>

fun observables :: "ocsf_event \<Rightarrow> string list \<times> string list \<times> string list" where
  "observables (NetworkActivity a) = (endpoint_ips (na_dst_endpoint a) @ endpoint_ips (na_src_endpoint a), [], [])"
| "observables (Authentication a) = (endpoint_ips (au_src_endpoint a), [], [])"
| "observables (DnsActivity a) =
     (da_resolved_ips a, if da_query_domain a = [] then [] else [da_query_domain a], [])"
| "observables (FileActivity a) =
     ([], [], case fa_file_hash a of None \<Rightarrow> [] | Some h \<Rightarrow> if h = [] then [] else [h])"
| "observables ev = ([], [], [])"

fun ioc_process :: "ocsf_event \<Rightarrow> process_info option" where
  "ioc_process (NetworkActivity a) = na_process a"
| "ioc_process (DnsActivity a) = da_process a"
| "ioc_process (FileActivity a) = fa_process a"
| "ioc_process ev = None"

text \<open>The findings, each with the n-th fresh id and clock reading.\<close>

definition check_ioc_matches ::
    "(nat \<Rightarrow> string) \<Rightarrow> (nat \<Rightarrow> datetime) \<Rightarrow> ioc_db \<Rightarrow> ocsf_event \<Rightarrow> int \<Rightarrow> security_finding list" where
  "check_ioc_matches uid now db ev i =
     (let (ads, doms, hs) = observables ev;
          pname = (case ioc_process ev of None \<Rightarrow> [] | Some p \<Rightarrow> pi_name p);
          pid = (case ioc_process ev of None \<Rightarrow> 0 | Some p \<Rightarrow> pi_pid p);
          hits = List.map_filter (\<lambda>v. map_option (\<lambda>m. (m, ''ip'', v)) (check_ip db v)) ads
            @ List.map_filter (\<lambda>v. map_option (\<lambda>m. (m, ''domain'', v)) (check_domain db v)) doms
            @ List.map_filter (\<lambda>v. map_option (\<lambda>m. (m, ''file'', v)) (check_hash db v)) hs
      in map (\<lambda>(k, m, ty, v). ioc_finding (uid k) (now k) i m ty v pname pid) (enumerate 0 hits))"

section \<open>Facts\<close>

lemma d_get_suppress: "d_get (suppress out d) k = (if k \<in> out then None else d_get d k)"
  by (simp add: suppress_def d_get_def map_of_filter_key)

text \<open>A table whose keys all satisfy a test keeps that under the insertions of a feed.\<close>

definition keys_in :: "(string \<Rightarrow> bool) \<Rightarrow> ioc_dict \<Rightarrow> bool" where
  "keys_in P d \<longleftrightarrow> (\<forall>k m. d_get d k = Some m \<longrightarrow> P k)"

lemma keys_in_Nil [simp]: "keys_in P []"
  by (simp add: keys_in_def)

lemma keys_in_add: "keys_in P (fst s) \<Longrightarrow> P k \<Longrightarrow> keys_in P (fst (add_new k m s))"
  by (cases s) (auto simp: add_new_def keys_in_def dict_simps)

lemma keys_in_fold:
  "(\<And>x s. x \<in> set xs \<Longrightarrow> keys_in P (fst s) \<Longrightarrow> keys_in P (fst (f x s))) \<Longrightarrow> keys_in P (fst s) \<Longrightarrow> keys_in P (fst (fold f xs s))"
  by (induction xs arbitrary: s) auto

lemma ip_list_keys: "keys_in ip_like ads \<Longrightarrow> keys_in ip_like (fst (download_ip_list env f d c ads))"
  unfolding download_ip_list_def
  by (auto split: option.splits intro!: keys_in_fold keys_in_add simp: parse_ip_lines_def)

lemma ipsum_keys: "keys_in ip_like ads \<Longrightarrow> keys_in ip_like (fst (download_ipsum env ads))"
proof (cases "ie_http env ''ipsum''")
  case (Some body)
  have line: "ipsum_line l = Some (k, m) \<Longrightarrow> ip_like k" for l k m
    by (auto simp: ipsum_line_def split: list.splits option.splits if_splits)
  have ok: "ip_like k" if "(k, m) \<in> set (List.map_filter ipsum_line ls)" for k m ls
    using that by (auto simp: map_filter_def dest: line)
  assume "keys_in ip_like ads"
  with Some ok show ?thesis
    by (auto simp: download_ipsum_def intro!: keys_in_fold keys_in_add)
qed (simp add: download_ipsum_def)

lemma threatfox_keys:
  assumes "keys_in ip_like ads" "keys_in (domain_ok env db) doms"
  shows "keys_in ip_like (fst (fst (download_threatfox env db ads doms)))
    \<and> keys_in (domain_ok env db) (fst (snd (download_threatfox env db ads doms)))"
proof -
  let ?ok = "\<lambda>s. keys_in ip_like (fst (fst s)) \<and> keys_in (domain_ok env db) (fst (snd s))"
  have step: "?ok (threatfox_row env db row s)" if "?ok s" for row s
    using that by (cases s) (auto simp: threatfox_row_def Let_def intro!: keys_in_add)
  have "?ok (fold (threatfox_row env db) rows s)" if "?ok s" for rows s
    using that by (induction rows arbitrary: s) (simp_all only: fold_simps step)
  with assms show ?thesis by (auto simp: download_threatfox_def split: option.splits)
qed

lemma urlhaus_keys: "keys_in (domain_ok env db) doms \<Longrightarrow> keys_in (domain_ok env db) (fst (download_urlhaus env db doms))"
  unfolding download_urlhaus_def
  by (auto split: option.splits intro!: keys_in_fold keys_in_add simp: Let_def)

lemma download_feeds_keys:
  "\<exists>ads doms hs st. download_feeds env now db = (swap_in now ads doms hs st db)\<lparr>db_downloading := False\<rparr>
     \<and> keys_in ip_like ads \<and> keys_in (domain_ok env db) doms"
proof -
  let ?i1 = "fst (download_feodo env [])" and ?i2 = "\<lambda>i. fst (download_ipsum env i)"
  let ?i3 = "fst (download_blocklist_de env (?i2 ?i1))" let ?i4 = "fst (download_c2_tracker env ?i3)"
  let ?i5 = "fst (download_emerging_threats env ?i4)" let ?t = "download_threatfox env db ?i5 []"
  have "keys_in ip_like ?i5"
    unfolding download_feodo_def download_blocklist_de_def download_c2_tracker_def download_emerging_threats_def
    by (intro ip_list_keys ipsum_keys keys_in_Nil)
  then have t: "keys_in ip_like (fst (fst ?t))" "keys_in (domain_ok env db) (fst (snd ?t))"
    using threatfox_keys [of ?i5 env db "[]"] by auto
  have "keys_in (domain_ok env db) (fst (download_urlhaus env db (fst (snd ?t))))" by (rule urlhaus_keys [OF t(2)])
  with t(1) show ?thesis unfolding download_feeds_def Let_def case_prod_beta by blast
qed

section \<open>Properties\<close>

text \<open>The guard against false positives: after a download no lookup finds a suppressed indicator, a
  domain of the built-in allowlist or one a user pattern excludes, and every address found has
  the shape of an IPv4 address.\<close>

theorem download_respects_exclusions:
  "(check_domain (download_feeds env now db) d = Some m \<longrightarrow> py_lower d \<notin> set DOMAIN_ALLOWLIST
      \<and> \<not> is_excluded env db (py_lower d) \<and> py_lower d \<notin> db_suppressed_domains db)
   \<and> (check_ip (download_feeds env now db) ip = Some m \<longrightarrow> ip_like ip \<and> ip \<notin> db_suppressed_ips db)
   \<and> (check_hash (download_feeds env now db) h = Some m \<longrightarrow> py_lower h \<notin> db_suppressed_hashes db)"
proof -
  obtain ads doms hs st where d: "download_feeds env now db = (swap_in now ads doms hs st db)\<lparr>db_downloading := False\<rparr>"
    "keys_in ip_like ads" "keys_in (domain_ok env db) doms" using download_feeds_keys by blast
  then show ?thesis
    by (auto simp: check_domain_def check_ip_def check_hash_def swap_in_def d_get_suppress keys_in_def domain_ok_def
        split: if_splits)
qed

definition ioc_env1 :: ioc_env where
  "ioc_env1 = \<lparr>ie_compiles = (\<lambda>p. True), ie_search = (\<lambda>p s. False),
     ie_http = (\<lambda>f. if f = ''feodo_tracker'' then Some ''10.9.8.7'' else if f = ''urlhaus'' then Some ''http://evil.com/x''
       else None),
     ie_csv = (\<lambda>ls. []), ie_hostname = (\<lambda>u. if u = ''http://evil.com/x'' then Some ''evil.com'' else None), ie_fleet = None\<rparr>"

theorem download_respects_exclusions_witness:
  "\<exists>m. check_ip (download_feeds ioc_env1 5 (new_ioc_db ioc_env1 14400 [])) ''10.9.8.7'' = Some m \<and> ip_like ''10.9.8.7''"
proof -
  have "check_ip (download_feeds ioc_env1 5 (new_ioc_db ioc_env1 14400 [])) ''10.9.8.7'' \<noteq> None" by code_simp
  then obtain m where m: "check_ip (download_feeds ioc_env1 5 (new_ioc_db ioc_env1 14400 [])) ''10.9.8.7'' = Some m" by blast
  from download_respects_exclusions [of ioc_env1 5 "new_ioc_db ioc_env1 14400 []" "[]" m "''10.9.8.7''" "[]"] m
  show ?thesis by blast
qed

text \<open>A refresh whose downloads all fail leaves an empty database and counts as a refresh: no indicator
  matches any more and none can until the interval has passed again.\<close>

theorem failed_refresh_empties_database:
  assumes "ie_http env = (\<lambda>f. None)" "\<not> db_downloading db" "now - db_last_refresh db > db_refresh_interval db"
    "ie_fleet env = None \<or> \<not> fleet" "later - now \<le> db_refresh_interval db"
  shows "check_ioc_matches uid clk (refresh_if_stale env' fleet' later (refresh_if_stale env fleet now db)) ev i = []"
proof -
  let ?db = "refresh_if_stale env fleet now db"
  have c: "(if fleet then download_from_fleet env now db else None) = None" using assms(4) by (auto simp: download_from_fleet_def)
  have d: "?db = download_feeds env now db" using assms(2,3) by (simp add: refresh_if_stale_def c)
  have e: "db_ips ?db = []" "db_domains ?db = []" "db_hashes ?db = []" "db_last_refresh ?db = now"
    "db_refresh_interval ?db = db_refresh_interval db" "\<not> db_downloading ?db"
    unfolding d
    by (simp_all add: download_feeds_def download_feodo_def download_ipsum_def download_blocklist_de_def
        download_c2_tracker_def download_emerging_threats_def download_threatfox_def download_urlhaus_def
        download_malbazaar_def download_ip_list_def assms(1) swap_in_def suppress_def)
  have s: "refresh_if_stale env' fleet' later ?db = ?db" using assms(5) e(4,5,6) by (simp add: refresh_if_stale_def [of env'])
  show ?thesis unfolding s
    by (simp add: check_ioc_matches_def check_ip_def check_domain_def check_hash_def e(1-3) map_filter_def case_prod_beta)
qed

definition offline_env :: ioc_env where
  "offline_env = ioc_env1\<lparr>ie_http := (\<lambda>f. None)\<rparr>"

definition evil_conn :: ocsf_event where
  "evil_conn = NetworkActivity \<lparr>na_activity_id = 1, na_severity_id = 1, na_time = 9, na_src_endpoint = None,
     na_dst_endpoint = Some \<lparr>ne_ip = ''10.9.8.7'', ne_port = 443, ne_hostname = []\<rparr>, na_process = None,
     na_device = ''h'', na_metadata = \<lparr>md_original_time = None, md_log_source = []\<rparr>\<rparr>"

theorem failed_refresh_empties_database_witness:
  "length (check_ioc_matches (\<lambda>k. ''id'') (\<lambda>k. 0) (download_feeds ioc_env1 5 (new_ioc_db ioc_env1 100 [])) evil_conn 1) = 1
   \<and> check_ioc_matches (\<lambda>k. ''id'') (\<lambda>k. 0) (refresh_if_stale ioc_env1 False 300 (refresh_if_stale offline_env False 200
       (download_feeds ioc_env1 5 (new_ioc_db ioc_env1 100 [])))) evil_conn 1 = []"
proof
  show "length (check_ioc_matches (\<lambda>k. ''id'') (\<lambda>k. 0) (download_feeds ioc_env1 5 (new_ioc_db ioc_env1 100 [])) evil_conn 1) = 1"
    by code_simp
  let ?db = "download_feeds ioc_env1 5 (new_ioc_db ioc_env1 100 [])"
  have 1: "\<not> db_downloading ?db" "200 - db_last_refresh ?db > db_refresh_interval ?db" "300 - 200 \<le> db_refresh_interval ?db"
    by code_simp+
  show "check_ioc_matches (\<lambda>k. ''id'') (\<lambda>k. 0) (refresh_if_stale ioc_env1 False 300 (refresh_if_stale offline_env False 200 ?db))
      evil_conn 1 = []"
    by (rule failed_refresh_empties_database [OF _ 1(1,2) _ 1(3)]) (simp_all add: offline_env_def)
qed

text \<open>The bundle of the fleet server skips the built-in allowlist that every other download applies: a
  domain such as github.com in it matches.\<close>

theorem bundle_bypasses_allowlist:
  assumes "d \<in> set DOMAIN_ALLOWLIST" "ie_fleet env = Some b" "bn_version b = 1" "bn_ips b = []" "bn_hashes b = []"
    "bn_domains b = [(d, Some m)]" "\<not> is_excluded env db d" "d \<notin> db_suppressed_domains db"
    "\<not> db_downloading db" "now - db_last_refresh db > db_refresh_interval db"
  shows "check_domain (refresh_if_stale env True now db) d = Some m
    \<and> check_domain (refresh_if_stale env False now db) d = None"
proof -
  have "list_all (\<lambda>x. py_lower x = x) DOMAIN_ALLOWLIST" by code_simp
  with assms(1) have l: "py_lower d = d" by (auto simp: list_all_iff)
  have 1: "check_domain (refresh_if_stale env True now db) d = Some m"
    using assms(2-) by (simp add: refresh_if_stale_def download_from_fleet_def load_bundle_def check_domain_def l swap_in_def
        d_get_suppress dict_simps)
  have "check_domain (download_feeds env now db) d = None"
  proof (cases "check_domain (download_feeds env now db) d")
    case (Some m')
    obtain ads doms hs st where "download_feeds env now db = (swap_in now ads doms hs st db)\<lparr>db_downloading := False\<rparr>"
      "keys_in (domain_ok env db) doms" using download_feeds_keys by blast
    with Some assms(1) l show ?thesis
      by (auto simp: check_domain_def swap_in_def d_get_suppress keys_in_def domain_ok_def split: if_splits)
  qed
  with 1 assms(9,10) show ?thesis by (simp add: refresh_if_stale_def)
qed

definition github_match :: ioc_match where
  "github_match = \<lparr>im_feed_name = ''urlhaus'', im_ioc_type = ''domain'', im_ioc_value = ''github.com'', im_description = [],
     im_confidence = ''high''\<rparr>"

definition fleet_env :: ioc_env where
  "fleet_env = ioc_env1\<lparr>ie_fleet := Some \<lparr>bn_version = 1, bn_ips = [], bn_domains = [(''github.com'', Some github_match)],
     bn_hashes = [], bn_feed_stats = []\<rparr>\<rparr>"

theorem bundle_bypasses_allowlist_witness:
  "check_domain (refresh_if_stale fleet_env True 200 (new_ioc_db fleet_env 100 [])) ''github.com'' = Some github_match"
proof -
  let ?b = "\<lparr>bn_version = 1, bn_ips = [], bn_domains = [(''github.com'', Some github_match)], bn_hashes = [], bn_feed_stats = []\<rparr>"
  have 1: "''github.com'' \<in> set DOMAIN_ALLOWLIST" by code_simp
  have 2: "ie_fleet fleet_env = Some ?b" by (simp add: fleet_env_def)
  show ?thesis
    by (rule conjunct1 [OF bundle_bypasses_allowlist [OF 1 2]])
      (simp_all add: is_excluded_def new_ioc_db_def)
qed

lemma entities_of_hits:
  "map sf_affected_entities (map (\<lambda>(k, m, ty, v). ioc_finding (uid k) (now k) i m ty v pname pid) (enumerate n hits))
     = map (\<lambda>(m, ty, v). [v]) hits"
  by (induction hits arbitrary: n) (auto simp: ioc_finding_def)

lemma hits_of_table:
  "map (\<lambda>(m, ty, v). [v]) (List.map_filter (\<lambda>v. map_option (\<lambda>m. (m, t, v)) (f v)) vs) = map (\<lambda>v. [v]) (filter (\<lambda>v. f v \<noteq> None) vs)"
  by (induction vs) (auto simp: map_filter_simps)

text \<open>The findings of an event are one for each observable the database knows, addresses first, then domains
  and hashes, each critical and naming the event.\<close>

theorem ioc_findings_complete:
  assumes "observables ev = (as, ds, hs)"
  shows "map sf_affected_entities (check_ioc_matches uid now db ev i)
      = map (\<lambda>v. [v]) (filter (\<lambda>v. check_ip db v \<noteq> None) as @ filter (\<lambda>v. check_domain db v \<noteq> None) ds
          @ filter (\<lambda>v. check_hash db v \<noteq> None) hs)
    \<and> (\<forall>f \<in> set (check_ioc_matches uid now db ev i). sf_severity f = ''critical'' \<and> sf_evidence_event_ids f = [i])"
  unfolding check_ioc_matches_def assms Let_def prod.case entities_of_hits
  by (auto simp: hits_of_table ioc_finding_def)

definition dns_query :: "string \<Rightarrow> ocsf_event" where
  "dns_query d = DnsActivity \<lparr>da_activity_id = 1, da_severity_id = 1, da_time = 9, da_process = None, da_query_domain = d,
     da_resolved_ips = [], da_device = ''h'', da_metadata = \<lparr>md_original_time = None, md_log_source = []\<rparr>\<rparr>"

theorem ioc_findings_complete_witness:
  "map sf_affected_entities (check_ioc_matches (\<lambda>k. ''id'') (\<lambda>k. 0) (download_feeds ioc_env1 5 (new_ioc_db ioc_env1 100 []))
     (dns_query ''EVIL.com'') 7) = [[''EVIL.com'']]"
proof -
  have o: "observables (dns_query ''EVIL.com'') = ([], [''EVIL.com''], [])" by (simp add: dns_query_def)
  have m: "check_domain (download_feeds ioc_env1 5 (new_ioc_db ioc_env1 100 [])) ''EVIL.com'' \<noteq> None" by code_simp
  from ioc_findings_complete [OF o, of "\<lambda>k. ''id''" "\<lambda>k. 0" "download_feeds ioc_env1 5 (new_ioc_db ioc_env1 100 [])" 7] m
  show ?thesis by simp
qed

text \<open>The root dot hides a name: a query for a listed domain written with its final dot has no finding.\<close>

theorem root_dot_hides_domain:
  "check_ioc_matches (\<lambda>k. ''id'') (\<lambda>k. 0) (download_feeds ioc_env1 5 (new_ioc_db ioc_env1 100 [])) (dns_query ''evil.com'') 7 \<noteq> []
   \<and> check_ioc_matches (\<lambda>k. ''id'') (\<lambda>k. 0) (download_feeds ioc_env1 5 (new_ioc_db ioc_env1 100 [])) (dns_query ''evil.com.'') 7 = []"
  by code_simp

end
