(* ===== verification/RuleStore.thy ===== *)
theory RuleStore
  imports ChainMatch
begin

text \<open>
  The two rule tables of \<open>agent/response/baseline.py\<close>: \<open>ResponseAllowlist\<close> and
  \<open>ResponseBlocklist\<close>.  A table is the list of its rows with the integer primary key,
  plus the \<open>AUTOINCREMENT\<close> counter of \<open>sqlite_sequence\<close>; the columns \<open>created_at\<close> and
  \<open>created_by\<close>, which nothing reads, are left out, and so is the column migration of
  \<open>_conn\<close>.  A store is the table and the list of network rules the server pushed.
  The locale \<open>rule_table\<close> is the contract both classes offer to the API handlers and
  to the response engine.
\<close>

section \<open>State\<close>

record rule_store =
  table_rows :: "(int \<times> rule) list"
  table_seq :: int
  network_rules :: "rule list"

definition empty_store :: rule_store where
  "empty_store = \<lparr>table_rows = [], table_seq = 0, network_rules = []\<rparr>"

text \<open>The primary keys are increasing and bounded by the counter.\<close>

definition store_inv :: "rule_store \<Rightarrow> bool" where
  "store_inv s \<longleftrightarrow>
     sorted_wrt (<) (map fst (table_rows s)) \<and> (\<forall>(i, r) \<in> set (table_rows s). i \<le> table_seq s)"

section \<open>Statements on the table\<close>

text \<open>\<open>INSERT\<close>, \<open>DELETE \<dots> WHERE id = ?\<close> and \<open>SELECT * \<dots> ORDER BY id\<close>.\<close>

definition insert_row :: "rule \<Rightarrow> rule_store \<Rightarrow> int \<times> rule_store" where
  "insert_row r s =
     (let i = table_seq s + 1
      in (i, s\<lparr>table_rows := table_rows s @ [(i, r)], table_seq := i\<rparr>))"

definition delete_row :: "int \<Rightarrow> rule_store \<Rightarrow> bool \<times> rule_store" where
  "delete_row i s =
     (let kept = filter (\<lambda>(j, _). j \<noteq> i) (table_rows s)
      in (length kept < length (table_rows s), s\<lparr>table_rows := kept\<rparr>))"

definition select_rows :: "rule_store \<Rightarrow> (int \<times> rule) list" where
  "select_rows s = sort_key fst (table_rows s)"

section \<open>Operations of the allowlist\<close>

definition VALID_RULE_TYPES :: "string list" where
  "VALID_RULE_TYPES =
     [''process_name'', ''dst_ip'', ''dst_cidr'', ''domain'', ''file_path'', ''finding_title'',
      ''chain_pattern'']"

definition GRAPH_FILTERABLE_TYPES :: "string list" where
  "GRAPH_FILTERABLE_TYPES = [''process_name'', ''dst_ip'', ''dst_cidr'', ''domain'', ''file_path'']"

definition MAX_PATTERN_LENGTH :: nat where
  "MAX_PATTERN_LENGTH = 500"

definition set_network_rules :: "rule list \<Rightarrow> rule_store \<Rightarrow> rule_store" where
  "set_network_rules rs s = s\<lparr>network_rules := rs\<rparr>"

definition get_network_rules :: "rule_store \<Rightarrow> rule list" where
  "get_network_rules s = network_rules s"

definition too_long :: "string \<Rightarrow> py_exc" where
  "too_long field = ValueError (field @ '' too long (max '' @ int_str 500 @ '' chars)'')"

definition allow_add_rule :: "rule \<Rightarrow> rule_store \<Rightarrow> (int \<times> rule_store) res" where
  "allow_add_rule r s =
     (if rule_type r \<notin> set VALID_RULE_TYPES then
        Inl (ValueError (''Invalid rule_type: '' @ rule_type r))
      else if length (pattern r) > MAX_PATTERN_LENGTH then Inl (too_long ''Pattern'')
      else if length (chain_filter r) > MAX_PATTERN_LENGTH then Inl (too_long ''chain_filter'')
      else if length (chain_exclude r) > MAX_PATTERN_LENGTH then Inl (too_long ''chain_exclude'')
      else Inr (insert_row r s))"

definition allow_remove_rule :: "int \<Rightarrow> rule_store \<Rightarrow> bool \<times> rule_store" where
  "allow_remove_rule i s = delete_row i s"

definition rule_desc :: "rule \<Rightarrow> string" where
  "rule_desc r = (if description r = [] then pattern r else description r)"

text \<open>One of the two loops of \<open>is_allowed\<close>: the first matching rule wins.\<close>

definition first_match :: "regex_engine \<Rightarrow> rule list \<Rightarrow> attrs \<Rightarrow> (bool \<times> string) res" where
  "first_match rx rs a =
     bindR (findR (\<lambda>r. match_rule rx r a) rs)
       (\<lambda>m. Inr (case m of None \<Rightarrow> (False, []) | Some r \<Rightarrow> (True, rule_desc r)))"

definition is_allowed :: "regex_engine \<Rightarrow> rule_store \<Rightarrow> attrs \<Rightarrow> (bool \<times> string) res" where
  "is_allowed rx s a =
     bindR (first_match rx (map snd (select_rows s)) a)
       (\<lambda>m. if fst m then Inr m else first_match rx (network_rules s) a)"

definition allow_get_rules :: "rule_store \<Rightarrow> (int \<times> rule) list" where
  "allow_get_rules s = select_rows s"

definition graph_filterable :: "rule \<Rightarrow> bool" where
  "graph_filterable r \<longleftrightarrow> rule_type r \<in> set GRAPH_FILTERABLE_TYPES \<and> chain_filter r = []"

definition get_graph_filterable_rules :: "rule_store \<Rightarrow> rule list" where
  "get_graph_filterable_rules s =
     filter graph_filterable (map snd (select_rows s)) @ filter graph_filterable (network_rules s)"

section \<open>Operations of the blocklist\<close>

definition block_add_rule :: "rule \<Rightarrow> rule_store \<Rightarrow> (int \<times> rule_store) res" where
  "block_add_rule r s =
     (if rule_type r \<notin> set VALID_RULE_TYPES then
        Inl (ValueError (''Invalid rule_type: '' @ rule_type r))
      else Inr (insert_row r s))"

definition block_remove_rule :: "int \<Rightarrow> rule_store \<Rightarrow> bool \<times> rule_store" where
  "block_remove_rule i s = delete_row i s"

definition is_blocked :: "regex_engine \<Rightarrow> rule_store \<Rightarrow> attrs \<Rightarrow> (bool \<times> string) res" where
  "is_blocked rx s a =
     bindR (first_match rx (map snd (select_rows s)) a)
       (\<lambda>m. if fst m then Inr m else first_match rx (network_rules s) a)"

definition block_get_rules :: "rule_store \<Rightarrow> (int \<times> rule) list" where
  "block_get_rules s = select_rows s"

section \<open>Facts on the statements\<close>

lemma sorted_strict_rows: "sorted_wrt (<) (map fst xs) \<Longrightarrow> sorted (map fst xs)"
  by (simp add: strict_sorted_imp_sorted)

lemma select_rows_inv: "store_inv s \<Longrightarrow> select_rows s = table_rows s"
  by (simp add: store_inv_def select_rows_def sort_key_id_if_sorted sorted_strict_rows)

lemma insert_row_inv:
  "store_inv s \<Longrightarrow> insert_row r s = (i, s') \<Longrightarrow>
     store_inv s' \<and> table_rows s' = table_rows s @ [(i, r)] \<and> network_rules s' = network_rules s
     \<and> (\<forall>j \<in> fst ` set (table_rows s). j < i) \<and> i = table_seq s + 1"
  by (fastforce simp: insert_row_def Let_def store_inv_def sorted_wrt_append)

lemma delete_row_inv:
  assumes "store_inv s" "delete_row i s = (b, s')"
  shows "store_inv s' \<and> table_rows s' = filter (\<lambda>(j, _). j \<noteq> i) (table_rows s)
     \<and> network_rules s' = network_rules s \<and> table_seq s' = table_seq s
     \<and> (b \<longleftrightarrow> i \<in> fst ` set (table_rows s))"
proof -
  have "sorted_wrt (<) (map fst (filter P xs))" if "sorted_wrt (<) (map fst xs)"
    for P and xs :: "(int \<times> rule) list"
    using that by (induction xs) auto
  moreover have "length (filter (\<lambda>(j, _). j \<noteq> i) xs) < length xs \<longleftrightarrow> i \<in> fst ` set xs"
    for xs :: "(int \<times> rule) list"
  proof
    assume "length (filter (\<lambda>(j, _). j \<noteq> i) xs) < length xs"
    then have ne: "filter (\<lambda>(j, _). j \<noteq> i) xs \<noteq> xs" by force
    show "i \<in> fst ` set xs"
    proof (rule ccontr)
      assume "i \<notin> fst ` set xs"
      then have "filter (\<lambda>(j, _). j \<noteq> i) xs = xs" by (intro filter_True) force
      with ne show False ..
    qed
  next
    assume "i \<in> fst ` set xs"
    then obtain x where "x \<in> set xs" "fst x = i" by auto
    then show "length (filter (\<lambda>(j, _). j \<noteq> i) xs) < length xs"
      by (intro length_filter_less) (auto simp: case_prod_beta)
  qed
  ultimately show ?thesis
    using assms by (auto simp: delete_row_def Let_def store_inv_def)
qed

lemma delete_row_rows:
  "delete_row i s = (b, s') \<Longrightarrow> table_rows s' = filter (\<lambda>(j, _). j \<noteq> i) (table_rows s)"
  by (auto simp: delete_row_def Let_def)

section \<open>The contract\<close>

locale rule_table =
  fixes add :: "rule \<Rightarrow> 's \<Rightarrow> (int \<times> 's) res"
    and remove :: "int \<Rightarrow> 's \<Rightarrow> bool \<times> 's"
    and check :: "attrs \<Rightarrow> 's \<Rightarrow> (bool \<times> string) res"
    and rows :: "'s \<Rightarrow> (int \<times> rule) list"
    and net :: "'s \<Rightarrow> rule list"
    and inv :: "'s \<Rightarrow> bool"
    and matches :: "rule \<Rightarrow> attrs \<Rightarrow> bool res"
  assumes add_law: "inv s \<Longrightarrow> add r s = Inr (i, s') \<Longrightarrow>
      inv s' \<and> rows s' = rows s @ [(i, r)] \<and> net s' = net s \<and> i \<notin> fst ` set (rows s)"
    and remove_law: "inv s \<Longrightarrow> remove i s = (b, s') \<Longrightarrow>
      inv s' \<and> rows s' = filter (\<lambda>(j, _). j \<noteq> i) (rows s) \<and> net s' = net s
      \<and> (b \<longleftrightarrow> i \<in> fst ` set (rows s))"
    and check_law: "inv s \<Longrightarrow> check a s =
      bindR (findR (\<lambda>r. matches r a) (map snd (rows s) @ net s))
        (\<lambda>m. Inr (case m of None \<Rightarrow> (False, []) | Some r \<Rightarrow> (True, rule_desc r)))"
begin

lemma rows_without: "i \<notin> fst ` set xs \<Longrightarrow> filter (\<lambda>(j, _). j \<noteq> i) xs = xs"
  by (auto simp: filter_id_conv image_iff)

lemma add_remove:
  assumes "inv s" "add r s = Inr (i, s1)" "remove i s1 = (b, s2)"
  shows "b \<and> rows s2 = rows s \<and> net s2 = net s \<and> check a s2 = check a s"
proof -
  from add_law [OF assms(1,2)] have 1: "inv s1" "rows s1 = rows s @ [(i, r)]" "net s1 = net s"
    "i \<notin> fst ` set (rows s)" by auto
  from remove_law [OF 1(1) assms(3)] 1 have 2: "inv s2" "rows s2 = rows s" "net s2 = net s" b
    by (auto simp: rows_without)
  then show ?thesis using check_law assms(1) by simp
qed

lemma check_hit:
  assumes "inv s" "check a s = Inr (True, d)"
  shows "\<exists>r \<in> set (map snd (rows s) @ net s). matches r a = Inr True \<and> d = rule_desc r"
proof -
  from assms obtain m where m: "findR (\<lambda>r. matches r a) (map snd (rows s) @ net s) = Inr m"
      "(case m of None \<Rightarrow> (False, []) | Some r \<Rightarrow> (True, rule_desc r)) = (True, d)"
    by (auto simp: check_law res_simps)
  then obtain r where "m = Some r" "d = rule_desc r" by (cases m) auto
  with findR_SomeD m(1) show ?thesis by fastforce
qed

lemma check_miss:
  assumes "inv s" "check a s = Inr (False, d)" "r \<in> set (map snd (rows s) @ net s)"
  shows "matches r a = Inr False"
proof -
  from assms obtain m where m: "findR (\<lambda>r. matches r a) (map snd (rows s) @ net s) = Inr m"
      "(case m of None \<Rightarrow> (False, []) | Some r \<Rightarrow> (True, rule_desc r)) = (False, d)"
    by (auto simp: check_law res_simps)
  then have "m = None" by (cases m) auto
  with findR_NoneD m(1) assms(3) show ?thesis by fastforce
qed

text \<open>A rule just added decides every event nothing else decides.\<close>

lemma check_after_add:
  assumes "inv s" "add r s = Inr (i, s')" "check a s = Inr (False, d)" "matches r a = Inr True"
  shows "check a s' = Inr (True, rule_desc r)"
proof -
  from add_law [OF assms(1,2)] have s': "inv s'" "rows s' = rows s @ [(i, r)]" "net s' = net s"
    by auto
  have "findR (\<lambda>r. matches r a) (map snd (rows s)) = Inr None"
  proof -
    have "findR (\<lambda>r. matches r a) (map snd (rows s)) = Inr (find (\<lambda>r. False) (map snd (rows s)))"
      by (rule findR_total) (use check_miss [OF assms(1,3)] in auto)
    also have "find (\<lambda>r. False) xs = None" for xs :: "rule list" by (induction xs) auto
    finally show ?thesis .
  qed
  then show ?thesis using s' assms(4) by (simp add: check_law findR_append)
qed

end

lemma is_allowed_find:
  assumes "store_inv s"
  shows "is_allowed rx s a =
    bindR (findR (\<lambda>r. match_rule rx r a) (map snd (table_rows s) @ network_rules s))
      (\<lambda>m. Inr (case m of None \<Rightarrow> (False, []) | Some r \<Rightarrow> (True, rule_desc r)))"
proof (cases "findR (\<lambda>r. match_rule rx r a) (map snd (table_rows s))")
  case (Inr m)
  then show ?thesis
    using assms
    by (cases m) (simp_all add: is_allowed_def first_match_def select_rows_inv findR_append)
next
  case (Inl e)
  then show ?thesis
    using assms by (simp add: is_allowed_def first_match_def select_rows_inv findR_append)
qed

lemma is_blocked_allowed: "is_blocked rx s a = is_allowed rx s a"
  by (simp add: is_blocked_def is_allowed_def)

lemma allow_add_insert: "allow_add_rule r s = Inr (i, s') \<Longrightarrow> insert_row r s = (i, s')"
  by (simp add: allow_add_rule_def split: if_splits)

lemma block_add_insert: "block_add_rule r s = Inr (i, s') \<Longrightarrow> insert_row r s = (i, s')"
  by (simp add: block_add_rule_def split: if_splits)

lemma insert_row_law:
  "store_inv s \<Longrightarrow> insert_row r s = (i, s') \<Longrightarrow>
     store_inv s' \<and> table_rows s' = table_rows s @ [(i, r)] \<and> network_rules s' = network_rules s
     \<and> i \<notin> fst ` set (table_rows s)"
  by (drule (1) insert_row_inv) blast

lemma delete_row_law:
  "store_inv s \<Longrightarrow> delete_row i s = (b, s') \<Longrightarrow>
     store_inv s' \<and> table_rows s' = filter (\<lambda>(j, _). j \<noteq> i) (table_rows s)
     \<and> network_rules s' = network_rules s \<and> (b \<longleftrightarrow> i \<in> fst ` set (table_rows s))"
  by (drule (1) delete_row_inv) blast

interpretation allow_table: rule_table allow_add_rule allow_remove_rule
  "\<lambda>a s. is_allowed rx s a" table_rows network_rules store_inv "match_rule rx" for rx
  by unfold_locales
    (assumption | rule is_allowed_find insert_row_law delete_row_law allow_add_insert
     | simp only: allow_remove_rule_def)+

interpretation block_table: rule_table block_add_rule block_remove_rule
  "\<lambda>a s. is_blocked rx s a" table_rows network_rules store_inv "match_rule rx" for rx
  by unfold_locales
    (assumption | rule is_allowed_find insert_row_law delete_row_law block_add_insert
     | simp only: block_remove_rule_def is_blocked_allowed)+

section \<open>Properties\<close>

definition sample_rule :: "string \<Rightarrow> string \<Rightarrow> rule" where
  "sample_rule ty pat = \<lparr>rule_type = ty, pattern = pat, description = [], chain_filter = [],
     chain_exclude = []\<rparr>"

text \<open>Adding an allowlist rule and removing it by the returned id restores the table and
  every answer the allowlist gives.\<close>

theorem allow_add_remove:
  assumes "store_inv s" "allow_add_rule r s = Inr (i, s1)" "allow_remove_rule i s1 = (b, s2)"
  shows "b \<and> table_rows s2 = table_rows s \<and> network_rules s2 = network_rules s
    \<and> is_allowed rx s2 a = is_allowed rx s a"
  using allow_table.add_remove [OF assms] .

theorem allow_add_remove_witness:
  "is_allowed (\<lambda>p s. None)
     (snd (allow_remove_rule 1 (empty_store\<lparr>table_rows := [(1, sample_rule ''dst_ip'' ''10.0.0.1'')],
       table_seq := 1\<rparr>))) (no_attrs\<lparr>a_dst_ip := ''10.0.0.1''\<rparr>)
   = is_allowed (\<lambda>p s. None) empty_store (no_attrs\<lparr>a_dst_ip := ''10.0.0.1''\<rparr>)"
proof -
  have "allow_add_rule (sample_rule ''dst_ip'' ''10.0.0.1'') empty_store =
      Inr (1, empty_store\<lparr>table_rows := [(1, sample_rule ''dst_ip'' ''10.0.0.1'')], table_seq := 1\<rparr>)"
    by code_simp
  note add = this
  have inv: "store_inv empty_store" by (simp add: store_inv_def empty_store_def)
  show ?thesis
    using allow_add_remove [OF inv add prod.collapse [symmetric], of "\<lambda>p s. None"] by blast
qed

text \<open>A blocklist rule takes effect as soon as it is added: an event nothing else blocks
  and the rule matches is blocked, with the rule's description.\<close>

theorem block_rule_takes_effect:
  assumes "store_inv s" "block_add_rule r s = Inr (i, s')" "is_blocked rx s a = Inr (False, d)"
    "match_rule rx r a = Inr True"
  shows "is_blocked rx s' a = Inr (True, rule_desc r)"
  using block_table.check_after_add [OF assms] .

theorem block_rule_takes_effect_witness:
  "is_blocked (\<lambda>p s. None) (snd (insert_row (sample_rule ''domain'' ''Evil.example'') empty_store))
     (no_attrs\<lparr>a_domain := ''evil.EXAMPLE''\<rparr>) = Inr (True, ''Evil.example'')"
proof -
  have 1: "block_add_rule (sample_rule ''domain'' ''Evil.example'') empty_store
      = Inr (1, snd (insert_row (sample_rule ''domain'' ''Evil.example'') empty_store))"
    by code_simp
  have 2: "is_blocked (\<lambda>p s. None) empty_store (no_attrs\<lparr>a_domain := ''evil.EXAMPLE''\<rparr>)
      = Inr (False, [])" by code_simp
  have 3: "match_rule (\<lambda>p s. None) (sample_rule ''domain'' ''Evil.example'')
      (no_attrs\<lparr>a_domain := ''evil.EXAMPLE''\<rparr>) = Inr True" by code_simp
  have "store_inv empty_store" by (simp add: store_inv_def empty_store_def)
  from block_rule_takes_effect [OF this 1 2 3] show ?thesis
    by (simp add: rule_desc_def sample_rule_def)
qed

text \<open>\<open>ResponseAllowlist.add_rule\<close> accepts exactly the rules of a valid type whose three
  patterns have at most 500 characters; \<open>ResponseBlocklist.add_rule\<close> checks the type only.\<close>

theorem add_rule_accepts:
  "((\<exists>i s'. allow_add_rule r s = Inr (i, s')) \<longleftrightarrow>
      rule_type r \<in> set VALID_RULE_TYPES \<and> length (pattern r) \<le> 500
      \<and> length (chain_filter r) \<le> 500 \<and> length (chain_exclude r) \<le> 500)
    \<and> ((\<exists>i s'. block_add_rule r s = Inr (i, s')) \<longleftrightarrow> rule_type r \<in> set VALID_RULE_TYPES)"
  by (auto simp: allow_add_rule_def block_add_rule_def insert_row_def Let_def MAX_PATTERN_LENGTH_def
      not_less split: if_splits)

end
