(* ===== verification/Baseline.thy ===== *)
theory Baseline
  imports RuleStore
begin

text \<open>
  The behaviour baseline and the two refresh-on-read caches of
  \<open>agent/response/baseline.py\<close>: \<open>BehaviorBaseline\<close>, \<open>BaselineGateCache\<close> and
  \<open>AllowlistRuleCache\<close>.  The table is the list of its rows in rowid order; the
  timestamps that SQLite's \<open>strftime\<close> supplies are the argument \<open>now\<close>.  A cache holds the
  value it loaded, the monotonic time of the load and the flag \<open>_invalidated\<close>; its reads
  of the clock are arguments, in order.  The locale \<open>stale_cache\<close> is the contract of both
  caches.
\<close>

section \<open>The baseline table\<close>

record baseline_row =
  br_process :: string
  br_behavior :: string
  br_target :: string
  br_first_seen :: datetime
  br_last_seen :: datetime
  br_hit_count :: int

definition br_key :: "baseline_row \<Rightarrow> string \<times> string \<times> string" where
  "br_key b = (br_process b, br_behavior b, br_target b)"

definition baseline_inv :: "baseline_row list \<Rightarrow> bool" where
  "baseline_inv t \<longleftrightarrow> distinct (map br_key t)
     \<and> list_all (\<lambda>b. 0 < br_hit_count b \<and> br_first_seen b \<le> br_last_seen b) t"

text \<open>\<open>INSERT \<dots> ON CONFLICT(process_name, behavior_type, target) DO UPDATE\<close>.\<close>

fun record_behavior ::
    "datetime \<Rightarrow> string \<Rightarrow> string \<Rightarrow> string \<Rightarrow> baseline_row list \<Rightarrow> baseline_row list" where
  "record_behavior now p b t [] =
     [\<lparr>br_process = p, br_behavior = b, br_target = t, br_first_seen = now,
       br_last_seen = now, br_hit_count = 1\<rparr>]"
| "record_behavior now p b t (r # rs) =
     (if br_key r = (p, b, t)
      then r\<lparr>br_hit_count := br_hit_count r + 1, br_last_seen := now\<rparr> # rs
      else r # record_behavior now p b t rs)"

definition is_baselined :: "baseline_row list \<Rightarrow> string \<Rightarrow> string \<Rightarrow> string \<Rightarrow> bool" where
  "is_baselined t p b tg \<longleftrightarrow> list_ex (\<lambda>r. br_key r = (p, b, tg)) t"

definition clear_baseline :: "baseline_row list \<Rightarrow> baseline_row list" where
  "clear_baseline t = []"

record baseline_stats =
  bs_total :: nat
  bs_by_type :: "(string \<times> nat) list"
  bs_earliest :: "datetime option"
  bs_latest :: "datetime option"

fun list_min :: "int list \<Rightarrow> int option" where
  "list_min [] = None"
| "list_min (x # xs) = Some (case list_min xs of None \<Rightarrow> x | Some m \<Rightarrow> min x m)"

fun list_max :: "int list \<Rightarrow> int option" where
  "list_max [] = None"
| "list_max (x # xs) = Some (case list_max xs of None \<Rightarrow> x | Some m \<Rightarrow> max x m)"

definition stats :: "baseline_row list \<Rightarrow> baseline_stats" where
  "stats t =
     \<lparr>bs_total = length t,
      bs_by_type = map (\<lambda>b. (b, length (filter (\<lambda>r. br_behavior r = b) t)))
        (dedup (map br_behavior t)),
      bs_earliest = list_min (map br_first_seen t),
      bs_latest = list_max (map br_last_seen t)\<rparr>"

text \<open>\<open>ORDER BY last_seen DESC LIMIT ?\<close>: rows with equal \<open>last_seen\<close> in rowid order; a
  negative limit means no limit.\<close>

definition get_entries :: "baseline_row list \<Rightarrow> int \<Rightarrow> baseline_row list" where
  "get_entries t limit =
     (let rows = sort_key (\<lambda>r. - br_last_seen r) t
      in if limit < 0 then rows else take (nat limit) rows)"

definition get_all_entries_raw :: "baseline_row list \<Rightarrow> (string \<times> string \<times> string) list" where
  "get_all_entries_raw t = map br_key t"

lemma record_behavior_keys:
  "set (map br_key (record_behavior now p b t rs)) = insert (p, b, t) (set (map br_key rs))"
  by (induction rs) (auto simp: br_key_def)

lemma is_baselined_iff: "is_baselined t p b tg \<longleftrightarrow> (p, b, tg) \<in> set (get_all_entries_raw t)"
  by (auto simp: is_baselined_def get_all_entries_raw_def list_ex_iff image_iff eq_commute)

lemma record_behavior_distinct:
  "distinct (map br_key rs) \<Longrightarrow> distinct (map br_key (record_behavior now p b t rs))"
proof (induction rs)
  case (Cons r rs)
  show ?case
  proof (cases "br_key r = (p, b, t)")
    case True
    with Cons.prems show ?thesis by (simp add: br_key_def)
  next
    case False
    have "br_key r \<notin> set (map br_key (record_behavior now p b t rs))"
      unfolding record_behavior_keys using False Cons.prems by simp
    with Cons False show ?thesis by simp
  qed
qed (simp add: br_key_def)

lemma record_behavior_good:
  "list_all (\<lambda>b. 0 < br_hit_count b \<and> br_first_seen b \<le> br_last_seen b \<and> br_last_seen b \<le> now) rs
     \<Longrightarrow> list_all (\<lambda>b. 0 < br_hit_count b \<and> br_first_seen b \<le> br_last_seen b \<and> br_last_seen b \<le> now)
       (record_behavior now p b t rs)"
  by (induction rs) auto

text \<open>The total number of hits counts the calls of \<open>record\<close>.\<close>

definition total_hits :: "baseline_row list \<Rightarrow> int" where
  "total_hits t = sum_list (map br_hit_count t)"

lemma record_behavior_hits: "total_hits (record_behavior now p b t rs) = total_hits rs + 1"
  by (induction rs) (auto simp: total_hits_def)

lemma length_filter_disjoint:
  "(\<And>x. x \<in> set t \<Longrightarrow> \<not> (P x \<and> Q x)) \<Longrightarrow>
     length (filter (\<lambda>x. P x \<or> Q x) t) = length (filter P t) + length (filter Q t)"
  by (induction t) auto

lemma group_counts:
  "distinct ks \<Longrightarrow> sum_list (map (\<lambda>b. length (filter (\<lambda>r. f r = b) t)) ks)
     = length (filter (\<lambda>r. f r \<in> set ks) t)"
proof (induction ks)
  case (Cons k ks)
  then have "length (filter (\<lambda>r. f r = k \<or> f r \<in> set ks) t)
      = length (filter (\<lambda>r. f r = k) t) + length (filter (\<lambda>r. f r \<in> set ks) t)"
    by (intro length_filter_disjoint) auto
  with Cons show ?case by simp
qed simp

lemma stats_sum: "sum_list (map snd (bs_by_type (stats t))) = bs_total (stats t)"
proof -
  have "filter (\<lambda>r. br_behavior r \<in> set (dedup (map br_behavior t))) t = t"
    by (intro filter_True) simp
  then show ?thesis
    using group_counts [of "dedup (map br_behavior t)" br_behavior t]
    by (simp add: stats_def comp_def del: set_dedup)
qed

section \<open>Caches refreshed on read\<close>

record 'v cache =
  c_value :: 'v
  c_last :: int
  c_invalidated :: bool

definition stale :: "int \<Rightarrow> int \<Rightarrow> 'v cache \<Rightarrow> bool" where
  "stale interval now c \<longleftrightarrow> c_invalidated c \<or> interval \<le> now - c_last c"

definition invalidate :: "'v cache \<Rightarrow> 'v cache" where
  "invalidate c = c\<lparr>c_invalidated := True\<rparr>"

text \<open>\<open>BaselineGateCache\<close>: the clock is read on entry (\<open>now\<close>) and again after the load
  (\<open>after\<close>).  The second test of the flag is made under the lock with the same \<open>now\<close>.\<close>

type_synonym gate_cache = "(string \<times> string \<times> string) set cache"

definition new_gate_cache :: gate_cache where
  "new_gate_cache = \<lparr>c_value = {}, c_last = 0, c_invalidated = True\<rparr>"

definition gate_refresh ::
    "int \<Rightarrow> baseline_row list \<Rightarrow> int \<Rightarrow> int \<Rightarrow> gate_cache \<Rightarrow> gate_cache" where
  "gate_refresh interval t now after c =
     (if stale interval now c
      then \<lparr>c_value = set (get_all_entries_raw t), c_last = after, c_invalidated = False\<rparr>
      else c)"

definition is_gated ::
    "int \<Rightarrow> baseline_row list \<Rightarrow> int \<Rightarrow> int \<Rightarrow> string \<Rightarrow> string \<Rightarrow> string \<Rightarrow> gate_cache
      \<Rightarrow> bool \<times> gate_cache" where
  "is_gated interval t now after p b tg c =
     (let c' = gate_refresh interval t now after c in ((p, b, tg) \<in> c_value c', c'))"

definition has_entries ::
    "int \<Rightarrow> baseline_row list \<Rightarrow> int \<Rightarrow> int \<Rightarrow> gate_cache \<Rightarrow> bool \<times> gate_cache" where
  "has_entries interval t now after c =
     (let c' = gate_refresh interval t now after c in (c_value c' \<noteq> {}, c'))"

text \<open>\<open>AllowlistRuleCache\<close>: the time of the load is the one read on entry.\<close>

type_synonym rule_cache = "rule list cache"

definition new_rule_cache :: rule_cache where
  "new_rule_cache = \<lparr>c_value = [], c_last = 0, c_invalidated = True\<rparr>"

definition cached_rules ::
    "int \<Rightarrow> rule_store \<Rightarrow> int \<Rightarrow> rule_cache \<Rightarrow> rule list \<times> rule_cache" where
  "cached_rules interval s now c =
     (let c' = (if stale interval now c
                then \<lparr>c_value = get_graph_filterable_rules s, c_last = now, c_invalidated = False\<rparr>
                else c)
      in (c_value c', c'))"

subsection \<open>The contract of a cache\<close>

text \<open>A history of a cache: reads of a source that changes between them, with the two clock
  readings of each, and calls of \<open>invalidate\<close>.  \<open>serve\<close> lists what the reads return.\<close>

datatype 'src cache_op = Read 'src int int | Invalidate

fun serve :: "('src \<Rightarrow> int \<Rightarrow> int \<Rightarrow> 'v cache \<Rightarrow> 'v \<times> 'v cache) \<Rightarrow> 'src cache_op list
    \<Rightarrow> 'v cache \<Rightarrow> 'v option list" where
  "serve rd [] c = []"
| "serve rd (Read src now after # rs) c =
     (let (v, c') = rd src now after c in Some v # serve rd rs c')"
| "serve rd (Invalidate # rs) c = None # serve rd rs (invalidate c)"

fun timed :: "'src cache_op \<Rightarrow> bool" where
  "timed (Read src now after) = (now \<le> after)"
| "timed Invalidate = True"

locale stale_cache =
  fixes load :: "'src \<Rightarrow> 'v"
    and read :: "'src \<Rightarrow> int \<Rightarrow> int \<Rightarrow> 'v cache \<Rightarrow> 'v \<times> 'v cache"
    and interval :: int
  assumes read_fresh: "\<not> stale interval now c \<Longrightarrow> read src now after c = (c_value c, c)"
    and read_stale: "stale interval now c \<Longrightarrow> now \<le> after \<Longrightarrow>
      fst (read src now after c) = load src
      \<and> c_value (snd (read src now after c)) = load src
      \<and> \<not> c_invalidated (snd (read src now after c))
      \<and> now \<le> c_last (snd (read src now after c)) \<and> c_last (snd (read src now after c)) \<le> after"
begin

lemma read_after_invalidate: "now \<le> after \<Longrightarrow> fst (read src now after (invalidate c)) = load src"
  by (rule read_stale [THEN conjunct1]) (simp_all add: stale_def invalidate_def)

text \<open>The value a valid cache holds was loaded by one of the reads of \<open>past\<close>.\<close>

definition from_past :: "'src cache_op set \<Rightarrow> 'v cache \<Rightarrow> bool" where
  "from_past past c \<longleftrightarrow> c_invalidated c
     \<or> (\<exists>src now after. Read src now after \<in> past \<and> c_value c = load src \<and> c_last c \<le> after)"

lemma read_from_past:
  assumes "from_past past c" "now \<le> after"
  shows "from_past (insert (Read src now after) past) (snd (read src now after c))
    \<and> (\<exists>src' now' after'. Read src' now' after' \<in> insert (Read src now after) past
        \<and> fst (read src now after c) = load src' \<and> (now < after' + interval \<or> src' = src))"
proof (cases "stale interval now c")
  case True
  with read_stale [OF True assms(2), of src] show ?thesis by (auto simp: from_past_def)
next
  case False
  with assms(1) have "\<not> c_invalidated c" "now - c_last c < interval" by (auto simp: stale_def)
  with assms(1) obtain src' now' after' where
    "Read src' now' after' \<in> past" "c_value c = load src'" "c_last c \<le> after'"
    by (auto simp: from_past_def)
  moreover from this have "now < after' + interval"
    using \<open>now - c_last c < interval\<close> by simp
  ultimately show ?thesis
    using read_fresh [OF False, of src after] by (auto simp: from_past_def)
qed

lemma serve_past_bounded:
  assumes "from_past past c" "list_all timed rs" "i < length rs" "rs ! i = Read src now after"
  shows "\<exists>src' now' after'. Read src' now' after' \<in> past \<union> set (take (i + 1) rs)
     \<and> serve read rs c ! i = Some (load src') \<and> (now < after' + interval \<or> src' = src)"
  using assms
proof (induction rs arbitrary: past c i)
  case (Cons r rs)
  show ?case
  proof (cases r)
    case (Read s0 n0 a0)
    with Cons.prems(2) have le: "n0 \<le> a0" by simp
    note step = read_from_past [OF Cons.prems(1) le, of s0]
    show ?thesis
    proof (cases i)
      case 0
      with Cons.prems(4) Read step show ?thesis by (auto simp: case_prod_beta)
    next
      case (Suc j)
      have "\<exists>src' now' after'. Read src' now' after'
            \<in> insert (Read s0 n0 a0) past \<union> set (take (j + 1) rs)
          \<and> serve read rs (snd (read s0 n0 a0 c)) ! j = Some (load src')
          \<and> (now < after' + interval \<or> src' = src)"
        by (rule Cons.IH) (use step Cons.prems Suc in auto)
      with Suc Read show ?thesis by (auto simp: case_prod_beta)
    qed
  next
    case Invalidate
    with Cons.prems obtain j where j: "i = Suc j" by (cases i) auto
    have "\<exists>src' now' after'. Read src' now' after' \<in> past \<union> set (take (j + 1) rs)
        \<and> serve read rs (invalidate c) ! j = Some (load src')
        \<and> (now < after' + interval \<or> src' = src)"
      by (rule Cons.IH) (use Cons.prems j in \<open>auto simp: from_past_def invalidate_def\<close>)
    with j Invalidate show ?thesis by auto
  qed
qed simp

text \<open>What a new cache serves at a read is what the source held at that read, or at an
  earlier one that ended less than \<open>interval\<close> before.\<close>

lemma serve_bounded:
  assumes "c_invalidated c" "list_all timed rs" "i < length rs" "rs ! i = Read src now after"
  shows "\<exists>src' now' after'. Read src' now' after' \<in> set (take (i + 1) rs)
     \<and> serve read rs c ! i = Some (load src') \<and> (now < after' + interval \<or> src' = src)"
  using serve_past_bounded [of "{}" c] assms by (simp add: from_past_def)

lemma serve_after_invalidate:
  "now \<le> after \<Longrightarrow> serve read (Invalidate # Read src now after # rs) c ! 1 = Some (load src)"
  using read_after_invalidate by (simp add: case_prod_beta)

end

definition gate_read ::
    "int \<Rightarrow> baseline_row list \<Rightarrow> int \<Rightarrow> int \<Rightarrow> gate_cache
      \<Rightarrow> (string \<times> string \<times> string) set \<times> gate_cache" where
  "gate_read interval t now after c =
     (let c' = gate_refresh interval t now after c in (c_value c', c'))"

interpretation gate: stale_cache "\<lambda>t. set (get_all_entries_raw t)" "gate_read interval" interval
  for interval
  by unfold_locales (auto simp: gate_read_def gate_refresh_def)

interpretation rules_cache: stale_cache get_graph_filterable_rules
  "\<lambda>s now after. cached_rules interval s now" interval for interval
  by unfold_locales (auto simp: cached_rules_def)

lemma is_gated_read: "is_gated interval t now after p b tg c =
    (let (v, c') = gate_read interval t now after c in ((p, b, tg) \<in> v, c'))"
  by (simp add: is_gated_def gate_read_def Let_def)

section \<open>Properties\<close>

text \<open>\<open>record\<close> baselines exactly the behaviour it is given besides those already there,
  counts one hit, and keeps one row per behaviour.\<close>

theorem record_behavior_spec:
  assumes "distinct (map br_key tbl)"
  shows "distinct (map br_key (record_behavior now p b t tbl))
    \<and> (is_baselined (record_behavior now p b t tbl) p' b' t'
         \<longleftrightarrow> (p', b', t') = (p, b, t) \<or> is_baselined tbl p' b' t')
    \<and> total_hits (record_behavior now p b t tbl) = total_hits tbl + 1"
  using record_behavior_keys [of now p b t tbl] record_behavior_hits
    record_behavior_distinct [OF assms]
  by (auto simp: is_baselined_iff get_all_entries_raw_def)

definition sample_row :: baseline_row where
  "sample_row = \<lparr>br_process = ''curl'', br_behavior = ''network'', br_target = ''1.1.1.1'',
     br_first_seen = 1, br_last_seen = 1, br_hit_count = 1\<rparr>"

theorem record_behavior_spec_witness:
  "distinct (map br_key [sample_row])
    \<and> is_baselined (record_behavior 2 ''curl'' ''network'' ''8.8.8.8'' [sample_row]) ''curl'' ''network''
       ''1.1.1.1''"
proof -
  have d: "distinct (map br_key [sample_row])" by simp
  have "is_baselined [sample_row] ''curl'' ''network'' ''1.1.1.1''" by code_simp
  with record_behavior_spec [OF d, of 2 "''curl''" "''network''" "''8.8.8.8''"] d show ?thesis
    by blast
qed

text \<open>What \<open>AllowlistRuleCache.get_rules\<close> serves, whatever reads and invalidations came
  before, is what the store held at that read or at an earlier read that ended less than
  \<open>refresh_interval\<close> before.\<close>

theorem allowlist_cache_bounded_staleness:
  assumes "list_all timed ops" "i < length ops" "ops ! i = Read s now after"
  shows "\<exists>s' now' after'. Read s' now' after' \<in> set (take (i + 1) ops)
    \<and> serve (\<lambda>s now after. cached_rules interval s now) ops new_rule_cache ! i
        = Some (get_graph_filterable_rules s')
    \<and> (now < after' + interval \<or> s' = s)"
  using rules_cache.serve_bounded [OF _ assms, of new_rule_cache] by (simp add: new_rule_cache_def)

theorem allowlist_cache_bounded_staleness_witness:
  "\<exists>s' now' after'. Read s' now' after' \<in> set (take 2 [Read empty_store 0 1, Read empty_store 3 4])
    \<and> serve (\<lambda>s now after. cached_rules 5 s now) [Read empty_store 0 1, Read empty_store 3 4]
        new_rule_cache ! 1 = Some (get_graph_filterable_rules s')
    \<and> (3 < after' + 5 \<or> s' = empty_store)"
  using allowlist_cache_bounded_staleness
    [of "[Read empty_store 0 1, Read empty_store 3 4]" 1 empty_store 3 4 5] by (simp add: numeral_2_eq_2)

end
