(* ===== verification/Filters.thy ===== *)
theory Filters
  imports Baseline
begin

text \<open>
  The three filters a batch passes before it reaches the graph:
  \<open>agent/processor/allowlist_filter.py\<close> (\<open>filter_entities\<close>, \<open>has_entities\<close>),
  \<open>agent/processor/self_filter.py\<close> (\<open>filter_agent_noise\<close>) and
  \<open>agent/processor/baseline_gate.py\<close> (\<open>gate_baselined_edges\<close>).  The code edits the batch in
  place and returns the number of items removed; the model returns both.  The locale
  \<open>entity_filter\<close> is the contract the pipeline relies on.
\<close>

text \<open>\<open>before = len(xs); xs = [e for e in xs if P(e)]; removed += before - len(xs)\<close>.\<close>

definition keep_if :: "('a \<Rightarrow> bool) \<Rightarrow> 'a list \<Rightarrow> nat \<Rightarrow> 'a list \<times> nat" where
  "keep_if P xs n = (let ys = filter P xs in (ys, n + (length xs - length ys)))"

section \<open>The allowlist filter\<close>

definition proc_attrs :: "string \<Rightarrow> attrs" where
  "proc_attrs n = no_attrs\<lparr>a_process_name := n\<rparr>"

definition ip_attrs :: "string \<Rightarrow> attrs" where
  "ip_attrs i = no_attrs\<lparr>a_dst_ip := i\<rparr>"

definition domain_attrs :: "string \<Rightarrow> attrs" where
  "domain_attrs d = no_attrs\<lparr>a_domain := d\<rparr>"

definition file_attrs :: "string \<Rightarrow> attrs" where
  "file_attrs f = no_attrs\<lparr>a_file_path := f\<rparr>"

text \<open>\<open>any(_match_rule(r, \<dots>) for r in rules)\<close>.\<close>

definition any_rule :: "regex_engine \<Rightarrow> rule list \<Rightarrow> attrs \<Rightarrow> bool res" where
  "any_rule rx rules a = anyR (\<lambda>r. match_rule rx r a) rules"

definition prune_process_edges :: "string set \<Rightarrow> entities \<times> nat \<Rightarrow> entities \<times> nat" where
  "prune_process_edges bad = (\<lambda>(e, n).
     let (se, n) = keep_if (\<lambda>x. se_process_id x \<notin> bad) (spawned_edges e) n;
         (ce, n) = keep_if (\<lambda>x. ce_process_id x \<notin> bad) (connected_edges e) n;
         (re, n) = keep_if (\<lambda>x. re_process_id x \<notin> bad) (resolved_edges e) n;
         (fe, n) = keep_if (\<lambda>x. fe_process_id x \<notin> bad) (file_edges e) n;
         (ge, n) = keep_if (\<lambda>x. ge_process_id x \<notin> bad) (registry_edges e) n
     in (e\<lparr>spawned_edges := se, connected_edges := ce, resolved_edges := re, file_edges := fe,
           registry_edges := ge\<rparr>, n))"

definition filter_processes ::
    "regex_engine \<Rightarrow> rule list \<Rightarrow> entities \<times> nat \<Rightarrow> (entities \<times> nat) res" where
  "filter_processes rx rules = (\<lambda>(e, n).
     bindR (partR (\<lambda>p. any_rule rx rules (proc_attrs (pn_name p))) (processes e))
       (\<lambda>(matched, kept).
         let e = e\<lparr>processes := kept\<rparr>; n = n + length matched; ids = pn_id ` set matched
         in Inr (if ids = {} then (e, n) else prune_process_edges ids (e, n))))"

definition filter_ips ::
    "regex_engine \<Rightarrow> rule list \<Rightarrow> entities \<times> nat \<Rightarrow> (entities \<times> nat) res" where
  "filter_ips rx rules = (\<lambda>(e, n).
     bindR (partR (\<lambda>i. any_rule rx rules (ip_attrs (ipn_address i))) (ips e))
       (\<lambda>(matched, kept).
         let e = e\<lparr>ips := kept\<rparr>; n = n + length matched; ids = ipn_id ` set matched
         in Inr (if ids = {} then (e, n)
                 else let (ce, n) = keep_if (\<lambda>x. ce_ip_id x \<notin> ids) (connected_edges e) n;
                          (rt, n) = keep_if (\<lambda>x. rt_ip_id x \<notin> ids) (resolves_to_edges e) n
                      in (e\<lparr>connected_edges := ce, resolves_to_edges := rt\<rparr>, n))))"

definition filter_domains ::
    "regex_engine \<Rightarrow> rule list \<Rightarrow> entities \<times> nat \<Rightarrow> (entities \<times> nat) res" where
  "filter_domains rx rules = (\<lambda>(e, n).
     bindR (partR (\<lambda>d. any_rule rx rules (domain_attrs (dn_name d))) (domains e))
       (\<lambda>(matched, kept).
         let e = e\<lparr>domains := kept\<rparr>; n = n + length matched; ids = dn_id ` set matched
         in Inr (if ids = {} then (e, n)
                 else let (re, n) = keep_if (\<lambda>x. re_domain_id x \<notin> ids) (resolved_edges e) n;
                          (rt, n) = keep_if (\<lambda>x. rt_domain_id x \<notin> ids) (resolves_to_edges e) n
                      in (e\<lparr>resolved_edges := re, resolves_to_edges := rt\<rparr>, n))))"

definition filter_files ::
    "regex_engine \<Rightarrow> rule list \<Rightarrow> entities \<times> nat \<Rightarrow> (entities \<times> nat) res" where
  "filter_files rx rules = (\<lambda>(e, n).
     bindR (partR (\<lambda>f. any_rule rx rules (file_attrs (fn_path f))) (files e))
       (\<lambda>(matched, kept).
         let e = e\<lparr>files := kept\<rparr>; n = n + length matched; ids = fn_id ` set matched
         in Inr (if ids = {} then (e, n)
                 else let (fe, n) = keep_if (\<lambda>x. fe_file_id x \<notin> ids) (file_edges e) n
                      in (e\<lparr>file_edges := fe\<rparr>, n))))"

definition drop_orphan_users :: "entities \<times> nat \<Rightarrow> entities \<times> nat" where
  "drop_orphan_users = (\<lambda>(e, n).
     if 0 < n \<and> users e \<noteq> []
     then let (us, n) = keep_if (\<lambda>u. un_id u \<in> se_user_id ` set (spawned_edges e)) (users e) n
          in (e\<lparr>users := us\<rparr>, n)
     else (e, n))"

definition filter_entities ::
    "regex_engine \<Rightarrow> rule list \<Rightarrow> entities \<Rightarrow> (entities \<times> nat) res" where
  "filter_entities rx rules e =
     (if rules = [] then Inr (e, 0)
      else bindR (filter_processes rx rules (e, 0)) (\<lambda>s.
           bindR (filter_ips rx rules s) (\<lambda>s.
           bindR (filter_domains rx rules s) (\<lambda>s.
           bindR (filter_files rx rules s) (\<lambda>s. Inr (drop_orphan_users s))))))"

definition has_entities :: "entities \<Rightarrow> bool" where
  "has_entities e \<longleftrightarrow> processes e \<noteq> [] \<or> ips e \<noteq> [] \<or> domains e \<noteq> [] \<or> files e \<noteq> []
     \<or> users e \<noteq> [] \<or> registry_keys e \<noteq> []"

section \<open>The agent's own activity\<close>

definition CLAUDE_NAMES :: "string list" where
  "CLAUDE_NAMES = [''claude'', ''claude helper'', ''claude-mcp'', ''electron'', ''electron helper'']"

definition is_claude :: "process_node \<Rightarrow> bool" where
  "is_claude p \<longleftrightarrow> py_lower (pn_name p) \<in> set CLAUDE_NAMES"

definition is_etilqs :: "file_node \<Rightarrow> bool" where
  "is_etilqs f \<longleftrightarrow> sublist ''etilqs_'' (fn_path f)"

definition drop_sqlite_files :: "entities \<times> nat \<Rightarrow> entities \<times> nat" where
  "drop_sqlite_files = (\<lambda>(e, n).
     let matched = filter is_etilqs (files e); ids = fn_id ` set matched
     in if ids = {} then (e, n)
        else let (fs, n) = keep_if (\<lambda>f. \<not> is_etilqs f) (files e) n;
                 (fe, n) = keep_if (\<lambda>x. fe_file_id x \<notin> ids) (file_edges e) n
             in (e\<lparr>files := fs, file_edges := fe\<rparr>, n))"

text \<open>The ids of the two kinds of processes whose edges go.\<close>

definition bad_process_ids :: "int \<Rightarrow> entities \<Rightarrow> string set" where
  "bad_process_ids agent_pid e =
     pn_id ` set (filter (\<lambda>p. is_claude p \<or> pn_pid p = agent_pid) (processes e))"

definition drop_orphan_targets :: "entities \<times> nat \<Rightarrow> entities \<times> nat" where
  "drop_orphan_targets = (\<lambda>(e, n).
     let live_ip = ce_ip_id ` set (connected_edges e) \<union> rt_ip_id ` set (resolves_to_edges e);
         live_dom = re_domain_id ` set (resolved_edges e) \<union> rt_domain_id ` set (resolves_to_edges e);
         live_file = fe_file_id ` set (file_edges e);
         (is, n) = keep_if (\<lambda>i. ipn_id i \<in> live_ip) (ips e) n;
         (ds, n) = keep_if (\<lambda>d. dn_id d \<in> live_dom) (domains e) n;
         (fs, n) = keep_if (\<lambda>f. fn_id f \<in> live_file) (files e) n
     in (e\<lparr>ips := is, domains := ds, files := fs\<rparr>, n))"

definition filter_agent_noise :: "int \<Rightarrow> entities \<Rightarrow> entities \<times> nat" where
  "filter_agent_noise agent_pid e0 =
     (let (e, n) = drop_sqlite_files (e0, 0)
      in if processes e = [] then (e, n)
         else let bad = bad_process_ids agent_pid e;
                  (ps, n) = keep_if (\<lambda>p. \<not> is_claude p) (processes e) n;
                  e = e\<lparr>processes := ps\<rparr>
              in if bad = {} then (e, n)
                 else let (e', n') = prune_process_edges bad (e, n)
                      in if n' = n then (e', n') else drop_orphan_targets (e', n'))"

section \<open>The baseline gate\<close>

text \<open>\<open>proc_names\<close>: the last process with an id wins, an unknown id has the empty name.\<close>

definition proc_name_of :: "process_node list \<Rightarrow> string \<Rightarrow> string" where
  "proc_name_of ps i = (case map_of (rev (map (\<lambda>p. (pn_id p, pn_name p)) ps)) i of
     None \<Rightarrow> [] | Some n \<Rightarrow> n)"

text \<open>The cache is one value during a call: \<open>gated p b t\<close> is what \<open>cache.is_gated\<close> answers.\<close>

definition edge_gated ::
    "(string \<Rightarrow> string \<Rightarrow> string \<Rightarrow> bool) \<Rightarrow> process_node list \<Rightarrow> string \<Rightarrow> string \<Rightarrow> string \<Rightarrow> bool"
where
  "edge_gated gated ps behavior pid target \<longleftrightarrow>
     proc_name_of ps pid \<noteq> [] \<and> gated (proc_name_of ps pid) behavior target"

definition gate_edges ::
    "(string \<Rightarrow> string \<Rightarrow> string \<Rightarrow> bool) \<Rightarrow> entities \<times> nat \<Rightarrow> entities \<times> nat" where
  "gate_edges gated = (\<lambda>(e, n).
     let (ce, n) = keep_if (\<lambda>x. \<not> edge_gated gated (processes e) ''network'' (ce_process_id x)
           (ce_ip_id x)) (connected_edges e) n;
         (re, n) = keep_if (\<lambda>x. \<not> edge_gated gated (processes e) ''dns'' (re_process_id x)
           (re_domain_id x)) (resolved_edges e) n;
         (fe, n) = keep_if (\<lambda>x. \<not> edge_gated gated (processes e) ''file'' (fe_process_id x)
           (fe_file_id x)) (file_edges e) n
     in (e\<lparr>connected_edges := ce, resolved_edges := re, file_edges := fe\<rparr>, n))"

definition gate_baselined_edges ::
    "(string \<times> string \<times> string) set \<Rightarrow> entities \<Rightarrow> entities \<times> nat" where
  "gate_baselined_edges entries e =
     (if entries = {} then (e, 0)
      else let (e', n) = gate_edges (\<lambda>p b t. (p, b, t) \<in> entries) (e, 0)
           in if n = 0 then (e', 0) else drop_orphan_targets (e', n))"

section \<open>Stages\<close>

text \<open>A stage leaves items out, adds their number to the counter, and leaves no edge that
  points at a node it left out.\<close>

definition stage_ok :: "(entities \<times> nat) \<Rightarrow> (entities \<times> nat) \<Rightarrow> bool" where
  "stage_ok s s' \<longleftrightarrow> sub_entities (fst s') (fst s)
     \<and> snd s' + item_count (fst s') = snd s + item_count (fst s)
     \<and> (closed_entities (fst s) \<longrightarrow> closed_entities (fst s'))"

lemma stage_ok_refl [simp, intro]: "stage_ok s s"
  by (simp add: stage_ok_def)

lemma stage_ok_trans: "stage_ok s t \<Longrightarrow> stage_ok t u \<Longrightarrow> stage_ok s u"
  unfolding stage_ok_def by (auto intro: sub_entities_trans)

lemma keep_if_fst [simp]: "fst (keep_if P xs n) = filter P xs"
  by (simp add: keep_if_def Let_def)

lemma keep_if_snd: "snd (keep_if P xs n) + length (filter P xs) = n + length xs"
  using length_filter_le [of P xs] by (simp add: keep_if_def Let_def del: length_filter_le)

lemma keep_if_count: "keep_if P xs n = (ys, m) \<Longrightarrow> ys = filter P xs \<and> m + length ys = n + length xs"
  using keep_if_snd [of P xs n] by (metis fst_conv keep_if_fst snd_conv)

lemmas stage_defs = stage_ok_def sub_entities_def item_count_def

lemma prune_process_edges_eq:
  assumes "prune_process_edges bad (e, n) = (e', n')"
  shows "e' = e\<lparr>spawned_edges := filter (\<lambda>x. se_process_id x \<notin> bad) (spawned_edges e),
     connected_edges := filter (\<lambda>x. ce_process_id x \<notin> bad) (connected_edges e),
     resolved_edges := filter (\<lambda>x. re_process_id x \<notin> bad) (resolved_edges e),
     file_edges := filter (\<lambda>x. fe_process_id x \<notin> bad) (file_edges e),
     registry_edges := filter (\<lambda>x. ge_process_id x \<notin> bad) (registry_edges e)\<rparr>"
    and "n' + item_count e' = n + item_count e"
  using assms
  by (auto simp: prune_process_edges_def item_count_def split: prod.splits dest!: keep_if_count)

lemma prune_process_edges_empty [simp]: "prune_process_edges {} s = s"
  by (cases s) (simp add: prune_process_edges_def keep_if_def)

text \<open>Dropping the processes that satisfy \<open>P\<close> together with the edges of a set of ids that
  contains theirs.\<close>

lemma prune_stage:
  assumes r: "prune_process_edges bad (e\<lparr>processes := filter (\<lambda>p. \<not> P p) (processes e)\<rparr>,
      n + length (filter P (processes e))) = s'"
    and bad: "pn_id ` set (filter P (processes e)) \<subseteq> bad"
  shows "stage_ok (e, n) s'"
proof -
  obtain e' n' where s': "s' = (e', n')" by (cases s')
  note eq = prune_process_edges_eq [OF r [unfolded s']]
  have "sub_entities e' e" unfolding eq(1) by (simp add: sub_entities_def)
  moreover have "n' + item_count e' = n + item_count e"
    using eq(2) length_filter_split [of P "processes e"] by (simp add: item_count_def)
  moreover have "i \<in> pn_id ` {x \<in> set (processes e). \<not> P x}"
    if "i \<in> pn_id ` set (processes e)" "i \<notin> bad" for i
    using that bad by auto
  then have "closed_entities e \<Longrightarrow> closed_entities e'"
    unfolding eq(1) closed_entities_def by simp
  ultimately show ?thesis by (simp add: stage_ok_def s')
qed

lemma partR_split:
  assumes "partR p xs = Inr (ys, zs)"
  shows "ys = filter (\<lambda>x. p x = Inr True) xs" "zs = filter (\<lambda>x. \<not> p x = Inr True) xs"
  using partR_filter [OF assms] by auto

lemma filter_processes_stage: "filter_processes rx rules s = Inr s' \<Longrightarrow> stage_ok s s'"
proof -
  assume a: "filter_processes rx rules s = Inr s'"
  obtain e n where s: "s = (e, n)" by (cases s)
  let ?p = "\<lambda>p. any_rule rx rules (proc_attrs (pn_name p))"
  from a s obtain m k where mk: "partR ?p (processes e) = Inr (m, k)"
    "prune_process_edges (pn_id ` set m) (e\<lparr>processes := k\<rparr>, n + length m) = s'"
    by (auto simp: filter_processes_def bindR_Inr_iff Let_def split: if_splits)
  note mk(2) [unfolded partR_split [OF mk(1)]]
  then show ?thesis unfolding s by (rule prune_stage) simp
qed

lemma filter_ips_stage: "filter_ips rx rules s = Inr s' \<Longrightarrow> stage_ok s s'"
proof -
  assume a: "filter_ips rx rules s = Inr s'"
  obtain e n where s: "s = (e, n)" by (cases s)
  let ?p = "\<lambda>i. any_rule rx rules (ip_attrs (ipn_address i))"
  from a s obtain m k where mk: "partR ?p (ips e) = Inr (m, k)"
    and s': "fst s' = e\<lparr>ips := k,
        connected_edges := filter (\<lambda>x. ce_ip_id x \<notin> ipn_id ` set m) (connected_edges e),
        resolves_to_edges := filter (\<lambda>x. rt_ip_id x \<notin> ipn_id ` set m) (resolves_to_edges e)\<rparr>"
      "snd s' + item_count (fst s') = n + length m + item_count (e\<lparr>ips := k\<rparr>)"
    by (auto simp: filter_ips_def bindR_Inr_iff Let_def item_count_def
        split: if_splits prod.splits dest!: keep_if_count)
  note mk' = partR_split [OF mk]
  have "sub_entities (fst s') e" unfolding s'(1) mk' by (simp add: sub_entities_def)
  moreover have "snd s' + item_count (fst s') = n + item_count e"
    using s'(2) partR_length [OF mk] by (simp add: item_count_def)
  moreover have "i \<in> ipn_id ` {x \<in> set (ips e). \<not> ?p x = Inr True}"
    if "i \<in> ipn_id ` set (ips e)" "i \<notin> ipn_id ` set m" for i
    using that unfolding mk' by auto
  then have "closed_entities e \<Longrightarrow> closed_entities (fst s')"
    unfolding s'(1) closed_entities_def mk'(2) by simp
  ultimately show ?thesis by (simp add: stage_ok_def s)
qed

lemma filter_domains_stage: "filter_domains rx rules s = Inr s' \<Longrightarrow> stage_ok s s'"
proof -
  assume a: "filter_domains rx rules s = Inr s'"
  obtain e n where s: "s = (e, n)" by (cases s)
  let ?p = "\<lambda>d. any_rule rx rules (domain_attrs (dn_name d))"
  from a s obtain m k where mk: "partR ?p (domains e) = Inr (m, k)"
    and s': "fst s' = e\<lparr>domains := k,
        resolved_edges := filter (\<lambda>x. re_domain_id x \<notin> dn_id ` set m) (resolved_edges e),
        resolves_to_edges := filter (\<lambda>x. rt_domain_id x \<notin> dn_id ` set m) (resolves_to_edges e)\<rparr>"
      "snd s' + item_count (fst s') = n + length m + item_count (e\<lparr>domains := k\<rparr>)"
    by (auto simp: filter_domains_def bindR_Inr_iff Let_def item_count_def
        split: if_splits prod.splits dest!: keep_if_count)
  note mk' = partR_split [OF mk]
  have "sub_entities (fst s') e" unfolding s'(1) mk' by (simp add: sub_entities_def)
  moreover have "snd s' + item_count (fst s') = n + item_count e"
    using s'(2) partR_length [OF mk] by (simp add: item_count_def)
  moreover have "i \<in> dn_id ` {x \<in> set (domains e). \<not> ?p x = Inr True}"
    if "i \<in> dn_id ` set (domains e)" "i \<notin> dn_id ` set m" for i
    using that unfolding mk' by auto
  then have "closed_entities e \<Longrightarrow> closed_entities (fst s')"
    unfolding s'(1) closed_entities_def mk'(2) by simp
  ultimately show ?thesis by (simp add: stage_ok_def s)
qed

lemma filter_files_stage: "filter_files rx rules s = Inr s' \<Longrightarrow> stage_ok s s'"
proof -
  assume a: "filter_files rx rules s = Inr s'"
  obtain e n where s: "s = (e, n)" by (cases s)
  let ?p = "\<lambda>f. any_rule rx rules (file_attrs (fn_path f))"
  from a s obtain m k where mk: "partR ?p (files e) = Inr (m, k)"
    and s': "fst s' = e\<lparr>files := k,
        file_edges := filter (\<lambda>x. fe_file_id x \<notin> fn_id ` set m) (file_edges e)\<rparr>"
      "snd s' + item_count (fst s') = n + length m + item_count (e\<lparr>files := k\<rparr>)"
    by (auto simp: filter_files_def bindR_Inr_iff Let_def item_count_def
        split: if_splits prod.splits dest!: keep_if_count)
  note mk' = partR_split [OF mk]
  have "sub_entities (fst s') e" unfolding s'(1) mk' by (simp add: sub_entities_def)
  moreover have "snd s' + item_count (fst s') = n + item_count e"
    using s'(2) partR_length [OF mk] by (simp add: item_count_def)
  moreover have "i \<in> fn_id ` {x \<in> set (files e). \<not> ?p x = Inr True}"
    if "i \<in> fn_id ` set (files e)" "i \<notin> fn_id ` set m" for i
    using that unfolding mk' by auto
  then have "closed_entities e \<Longrightarrow> closed_entities (fst s')"
    unfolding s'(1) closed_entities_def mk'(2) by simp
  ultimately show ?thesis by (simp add: stage_ok_def s)
qed

lemma image_keep: "i \<in> f ` {x \<in> A. f x \<in> S} \<longleftrightarrow> i \<in> f ` A \<and> i \<in> S"
  by auto

lemma image_keep2: "i \<in> f ` {x \<in> A. f x \<in> S \<or> f x \<in> T} \<longleftrightarrow> i \<in> f ` A \<and> (i \<in> S \<or> i \<in> T)"
  by auto

lemma drop_orphan_users_stage: "stage_ok s (drop_orphan_users s)"
proof -
  obtain e n where s: "s = (e, n)" by (cases s)
  let ?us = "filter (\<lambda>u. un_id u \<in> se_user_id ` set (spawned_edges e)) (users e)"
  have "closed_entities (e\<lparr>users := ?us\<rparr>)" if "closed_entities e"
    using that by (simp add: closed_entities_def image_keep imageI)
  then show ?thesis
    using keep_if_snd [of "\<lambda>u. un_id u \<in> se_user_id ` set (spawned_edges e)" "users e" n]
    by (auto simp: s drop_orphan_users_def stage_defs case_prod_beta)
qed

lemma drop_sqlite_files_stage: "stage_ok s (drop_sqlite_files s)"
proof -
  obtain e n where s: "s = (e, n)" by (cases s)
  let ?ids = "fn_id ` set (filter is_etilqs (files e))"
  let ?e = "e\<lparr>files := filter (\<lambda>f. \<not> is_etilqs f) (files e),
      file_edges := filter (\<lambda>x. fe_file_id x \<notin> ?ids) (file_edges e)\<rparr>"
  have "i \<in> fn_id ` {x \<in> set (files e). \<not> is_etilqs x}"
    if "i \<in> fn_id ` set (files e)" "i \<notin> ?ids" for i
    using that by auto
  then have "closed_entities e \<Longrightarrow> closed_entities ?e" unfolding closed_entities_def by simp
  moreover have "sub_entities ?e e" by (simp add: sub_entities_def)
  ultimately show ?thesis
    by (auto simp: s drop_sqlite_files_def stage_ok_def Let_def item_count_def
        split: prod.splits dest!: keep_if_count)
qed

lemma drop_orphan_targets_stage: "stage_ok s (drop_orphan_targets s)"
proof -
  obtain e n where s: "s = (e, n)" by (cases s)
  obtain e' n' where r: "drop_orphan_targets (e, n) = (e', n')" by force
  let ?ip = "ce_ip_id ` set (connected_edges e) \<union> rt_ip_id ` set (resolves_to_edges e)"
  let ?dom = "re_domain_id ` set (resolved_edges e) \<union> rt_domain_id ` set (resolves_to_edges e)"
  let ?file = "fe_file_id ` set (file_edges e)"
  have e': "e' = e\<lparr>ips := filter (\<lambda>i. ipn_id i \<in> ?ip) (ips e),
      domains := filter (\<lambda>d. dn_id d \<in> ?dom) (domains e),
      files := filter (\<lambda>f. fn_id f \<in> ?file) (files e)\<rparr>"
    and n': "n' + item_count e' = n + item_count e"
    using r by (auto simp: drop_orphan_targets_def item_count_def Let_def
        split: prod.splits dest!: keep_if_count)
  have "sub_entities e' e" unfolding e' by (simp add: sub_entities_def)
  moreover have "closed_entities e'" if "closed_entities e"
    unfolding e' using that by (simp add: closed_entities_def image_keep image_keep2 imageI)
  ultimately show ?thesis using n' by (simp add: s r stage_ok_def)
qed

lemma gate_edges_stage: "stage_ok s (gate_edges g s)"
proof -
  obtain e n where s: "s = (e, n)" by (cases s)
  obtain e' n' where r: "gate_edges g (e, n) = (e', n')" by force
  have "sub_entities e' e" "n' + item_count e' = n + item_count e"
    using r by (auto simp: gate_edges_def item_count_def sub_entities_def
        split: prod.splits dest!: keep_if_count)
  moreover have "closed_entities e'" if "closed_entities e"
    using r that by (auto simp: gate_edges_def closed_entities_def
        split: prod.splits dest!: keep_if_count)
  ultimately show ?thesis by (simp add: s r stage_ok_def)
qed

section \<open>The filters\<close>

text \<open>A filter: what it returns and how many items it removed, if it does not raise.\<close>

locale entity_filter =
  fixes run :: "entities \<Rightarrow> (entities \<times> nat) res"
  assumes run_stage: "run e = Inr r \<Longrightarrow> stage_ok (e, 0) r"
begin

lemma run_sub: "run e = Inr (e', n) \<Longrightarrow> sub_entities e' e"
  using run_stage by (fastforce simp: stage_ok_def)

lemma run_count: "run e = Inr (e', n) \<Longrightarrow> n + item_count e' = item_count e"
  using run_stage by (fastforce simp: stage_ok_def)

lemma run_closed: "run e = Inr (e', n) \<Longrightarrow> closed_entities e \<Longrightarrow> closed_entities e'"
  using run_stage by (fastforce simp: stage_ok_def)

lemma run_zero: "run e = Inr (e', 0) \<Longrightarrow> item_count e' = item_count e"
  using run_count by fastforce

end

lemma filter_entities_stage: "filter_entities rx rules e = Inr r \<Longrightarrow> stage_ok (e, 0) r"
proof -
  assume a: "filter_entities rx rules e = Inr r"
  show ?thesis
  proof (cases "rules = []")
    case True
    with a show ?thesis by (auto simp: filter_entities_def)
  next
    case False
    with a obtain s1 s2 s3 s4 where
      "filter_processes rx rules (e, 0) = Inr s1" "filter_ips rx rules s1 = Inr s2"
      "filter_domains rx rules s2 = Inr s3" "filter_files rx rules s3 = Inr s4"
      "r = drop_orphan_users s4"
      by (auto simp: filter_entities_def bindR_Inr_iff)
    then show ?thesis
      using filter_processes_stage filter_ips_stage filter_domains_stage filter_files_stage
        drop_orphan_users_stage stage_ok_trans by metis
  qed
qed

lemma filter_agent_noise_stage: "stage_ok (e, 0) (filter_agent_noise pid e)"
proof -
  obtain e1 n1 where 1: "drop_sqlite_files (e, 0) = (e1, n1)" by force
  then have s1: "stage_ok (e, 0) (e1, n1)" by (metis drop_sqlite_files_stage)
  let ?bad = "bad_process_ids pid e1"
  let ?e2 = "e1\<lparr>processes := filter (\<lambda>p. \<not> is_claude p) (processes e1)\<rparr>"
  let ?n2 = "n1 + length (filter is_claude (processes e1))"
  have k: "keep_if (\<lambda>p. \<not> is_claude p) (processes e1) n1
      = (filter (\<lambda>p. \<not> is_claude p) (processes e1), ?n2)"
    using length_filter_split [of is_claude "processes e1"] by (simp add: keep_if_def Let_def)
  have sub: "pn_id ` set (filter is_claude (processes e1)) \<subseteq> ?bad"
    by (auto simp: bad_process_ids_def)
  obtain e3 n3 where 3: "prune_process_edges ?bad (?e2, ?n2) = (e3, n3)" by force
  have s3: "stage_ok (e1, n1) (e3, n3)" by (rule prune_stage [OF 3 sub])
  have s4: "stage_ok (e3, n3) (drop_orphan_targets (e3, n3))" by (rule drop_orphan_targets_stage)
  have none: "?bad = {} \<Longrightarrow> (e3, n3) = (?e2, ?n2)" using 3 by simp
  have "filter_agent_noise pid e =
      (if processes e1 = [] then (e1, n1)
       else if ?bad = {} then (e3, n3)
       else if n3 = ?n2 then (e3, n3) else drop_orphan_targets (e3, n3))"
    using none 3 by (simp add: filter_agent_noise_def 1 k Let_def)
  moreover note s1 stage_ok_trans [OF s1 s3] stage_ok_trans [OF stage_ok_trans [OF s1 s3] s4]
  ultimately show ?thesis by (simp only: split: if_split) simp
qed

lemma gate_baselined_edges_stage: "stage_ok (e, 0) (gate_baselined_edges entries e)"
proof -
  obtain e1 n1 where 1: "gate_edges (\<lambda>p b t. (p, b, t) \<in> entries) (e, 0) = (e1, n1)" by force
  then have "stage_ok (e, 0) (e1, n1)" by (metis gate_edges_stage)
  moreover have "stage_ok (e1, n1) (drop_orphan_targets (e1, n1))"
    by (rule drop_orphan_targets_stage)
  ultimately show ?thesis
    using stage_ok_trans by (auto simp: gate_baselined_edges_def 1)
qed

interpretation allowlist_filter: entity_filter "filter_entities rx rules" for rx rules
  by unfold_locales (rule filter_entities_stage)

interpretation agent_filter: entity_filter "\<lambda>e. Inr (filter_agent_noise pid e)" for pid
  by unfold_locales (use filter_agent_noise_stage in auto)

interpretation baseline_filter: entity_filter "\<lambda>e. Inr (gate_baselined_edges entries e)"
  for entries
  by unfold_locales (use gate_baselined_edges_stage in auto)

section \<open>The pre-graph match never looks at a chain\<close>

lemma match_rule_no_chain:
  "a_chain a = None \<Longrightarrow> match_rule rx r a =
     (if chain_filter r = [] then match_type rx r a else Inr False)"
  by (simp add: match_rule_def chain_filter_ok_def chain_excluded_def)

lemma match_type_no_chain: "a_chain a = None \<Longrightarrow> \<exists>b. match_type rx r a = Inr b"
  by (auto simp: match_type_def Let_def)

lemma match_rule_value:
  "a_chain a = None \<Longrightarrow>
     match_rule rx r a = Inr (chain_filter r = [] \<and> match_type rx r a = Inr True)"
  using match_rule_no_chain [of a rx r] match_type_no_chain [of a rx r] by auto

lemma any_rule_value:
  assumes "a_chain a = None"
  shows "any_rule rx rules a =
     Inr (\<exists>r \<in> set rules. chain_filter r = [] \<and> match_type rx r a = Inr True)"
  unfolding any_rule_def by (rule anyR_total) (rule match_rule_value [OF assms])

lemma attrs_no_chain [simp]:
  "a_chain (proc_attrs x) = None" "a_chain (ip_attrs x) = None"
  "a_chain (domain_attrs x) = None" "a_chain (file_attrs x) = None"
  by (simp_all add: proc_attrs_def ip_attrs_def domain_attrs_def file_attrs_def no_attrs_def)

definition hits :: "regex_engine \<Rightarrow> rule list \<Rightarrow> attrs \<Rightarrow> bool" where
  "hits rx rules a \<longleftrightarrow> any_rule rx rules a = Inr True"

lemma any_rule_hits: "a_chain a = None \<Longrightarrow> any_rule rx rules a = Inr (hits rx rules a)"
  by (simp add: hits_def any_rule_value)

lemma hits_iff: "a_chain a = None \<Longrightarrow> hits rx rules a \<longleftrightarrow>
    (\<exists>r \<in> set rules. chain_filter r = [] \<and> match_type rx r a = Inr True)"
  by (simp add: hits_def any_rule_value)

text \<open>So the filter never raises, and what it keeps can be said in one line per kind.\<close>

lemma prune_process_edges_nodes [simp]:
  "processes (fst (prune_process_edges b s)) = processes (fst s)"
  "ips (fst (prune_process_edges b s)) = ips (fst s)"
  "domains (fst (prune_process_edges b s)) = domains (fst s)"
  "files (fst (prune_process_edges b s)) = files (fst s)"
  "registry_keys (fst (prune_process_edges b s)) = registry_keys (fst s)"
  by (simp_all add: prune_process_edges_def case_prod_beta Let_def)

lemma filter_processes_nodes:
  "\<exists>s'. filter_processes rx rules s = Inr s'
     \<and> processes (fst s') =
       filter (\<lambda>p. \<not> hits rx rules (proc_attrs (pn_name p))) (processes (fst s))
     \<and> ips (fst s') = ips (fst s) \<and> domains (fst s') = domains (fst s)
     \<and> files (fst s') = files (fst s) \<and> registry_keys (fst s') = registry_keys (fst s)"
  by (simp add: filter_processes_def partR_total any_rule_hits case_prod_beta Let_def)

lemma filter_ips_nodes:
  "\<exists>s'. filter_ips rx rules s = Inr s'
     \<and> ips (fst s') = filter (\<lambda>i. \<not> hits rx rules (ip_attrs (ipn_address i))) (ips (fst s))
     \<and> processes (fst s') = processes (fst s) \<and> domains (fst s') = domains (fst s)
     \<and> files (fst s') = files (fst s) \<and> registry_keys (fst s') = registry_keys (fst s)"
  by (simp add: filter_ips_def partR_total any_rule_hits case_prod_beta Let_def)

lemma filter_domains_nodes:
  "\<exists>s'. filter_domains rx rules s = Inr s'
     \<and> domains (fst s') =
       filter (\<lambda>d. \<not> hits rx rules (domain_attrs (dn_name d))) (domains (fst s))
     \<and> processes (fst s') = processes (fst s) \<and> ips (fst s') = ips (fst s)
     \<and> files (fst s') = files (fst s) \<and> registry_keys (fst s') = registry_keys (fst s)"
  by (simp add: filter_domains_def partR_total any_rule_hits case_prod_beta Let_def)

lemma filter_files_nodes:
  "\<exists>s'. filter_files rx rules s = Inr s'
     \<and> files (fst s') = filter (\<lambda>f. \<not> hits rx rules (file_attrs (fn_path f))) (files (fst s))
     \<and> processes (fst s') = processes (fst s) \<and> ips (fst s') = ips (fst s)
     \<and> domains (fst s') = domains (fst s) \<and> registry_keys (fst s') = registry_keys (fst s)"
  by (simp add: filter_files_def partR_total any_rule_hits case_prod_beta Let_def)

lemma drop_orphan_users_nodes:
  "processes (fst (drop_orphan_users s)) = processes (fst s)"
  "ips (fst (drop_orphan_users s)) = ips (fst s)"
  "domains (fst (drop_orphan_users s)) = domains (fst s)"
  "files (fst (drop_orphan_users s)) = files (fst s)"
  "registry_keys (fst (drop_orphan_users s)) = registry_keys (fst s)"
  by (simp_all add: drop_orphan_users_def case_prod_beta Let_def)

text \<open>So the filter never raises, and what it keeps of the nodes can be said in one line per
  kind.\<close>

definition kept_nodes :: "regex_engine \<Rightarrow> rule list \<Rightarrow> entities \<Rightarrow> entities \<Rightarrow> bool" where
  "kept_nodes rx rules e e' \<longleftrightarrow>
     processes e' = filter (\<lambda>p. \<not> hits rx rules (proc_attrs (pn_name p))) (processes e)
     \<and> ips e' = filter (\<lambda>i. \<not> hits rx rules (ip_attrs (ipn_address i))) (ips e)
     \<and> domains e' = filter (\<lambda>d. \<not> hits rx rules (domain_attrs (dn_name d))) (domains e)
     \<and> files e' = filter (\<lambda>f. \<not> hits rx rules (file_attrs (fn_path f))) (files e)
     \<and> registry_keys e' = registry_keys e"

lemma filter_entities_nodes:
  "\<exists>r. filter_entities rx rules e = Inr r \<and> kept_nodes rx rules e (fst r)"
proof (cases "rules = []")
  case True
  then have "\<not> hits rx rules a" if "a_chain a = None" for a using that by (simp add: hits_iff)
  with True show ?thesis by (simp add: filter_entities_def kept_nodes_def)
next
  case False
  obtain s1 where 1: "filter_processes rx rules (e, 0) = Inr s1"
    "processes (fst s1) = filter (\<lambda>p. \<not> hits rx rules (proc_attrs (pn_name p))) (processes e)"
    "ips (fst s1) = ips e" "domains (fst s1) = domains e" "files (fst s1) = files e"
    "registry_keys (fst s1) = registry_keys e"
    using filter_processes_nodes [of rx rules "(e, 0)"] by auto
  obtain s2 where 2: "filter_ips rx rules s1 = Inr s2"
    "ips (fst s2) = filter (\<lambda>i. \<not> hits rx rules (ip_attrs (ipn_address i))) (ips (fst s1))"
    "processes (fst s2) = processes (fst s1)" "domains (fst s2) = domains (fst s1)"
    "files (fst s2) = files (fst s1)" "registry_keys (fst s2) = registry_keys (fst s1)"
    using filter_ips_nodes by blast
  obtain s3 where 3: "filter_domains rx rules s2 = Inr s3"
    "domains (fst s3) =
      filter (\<lambda>d. \<not> hits rx rules (domain_attrs (dn_name d))) (domains (fst s2))"
    "processes (fst s3) = processes (fst s2)" "ips (fst s3) = ips (fst s2)"
    "files (fst s3) = files (fst s2)" "registry_keys (fst s3) = registry_keys (fst s2)"
    using filter_domains_nodes by blast
  obtain s4 where 4: "filter_files rx rules s3 = Inr s4"
    "files (fst s4) = filter (\<lambda>f. \<not> hits rx rules (file_attrs (fn_path f))) (files (fst s3))"
    "processes (fst s4) = processes (fst s3)" "ips (fst s4) = ips (fst s3)"
    "domains (fst s4) = domains (fst s3)" "registry_keys (fst s4) = registry_keys (fst s3)"
    using filter_files_nodes by blast
  have "filter_entities rx rules e = Inr (drop_orphan_users s4)"
    using False by (simp add: filter_entities_def 1(1) 2(1) 3(1) 4(1))
  moreover have "kept_nodes rx rules e (fst (drop_orphan_users s4))"
    by (simp add: kept_nodes_def drop_orphan_users_nodes 1 2 3 4)
  ultimately show ?thesis by blast
qed

section \<open>Properties\<close>

definition sample_proc :: "string \<Rightarrow> string \<Rightarrow> int \<Rightarrow> process_node" where
  "sample_proc i n p = \<lparr>pn_id = i, pn_name = n, pn_pid = p, pn_cmd_line = None, pn_exe_path = None,
     pn_hostname = ''h'', pn_start_time = None, pn_parent_pid = None, pn_bundle_id = None,
     pn_code_signed = None, pn_signing_authority = None\<rparr>"

definition sample_user :: "string \<Rightarrow> user_node" where
  "sample_user i = \<lparr>un_id = i, un_name = Some i, un_uid = None, un_first_seen = 0, un_last_seen = 0\<rparr>"

definition sample_batch :: entities where
  "sample_batch = empty_entities\<lparr>users := [sample_user ''root''],
     processes := [sample_proc ''h:5:9'' ''Nginx'' 5],
     spawned_edges := [\<lparr>se_user_id = ''root'', se_process_id = ''h:5:9'', se_timestamp = 0,
       se_activity_id = 1, se_event_id = 7\<rparr>]\<rparr>"

lemma sample_batch_closed: "closed_entities sample_batch"
  by (simp add: closed_entities_def sample_batch_def empty_entities_def sample_user_def sample_proc_def)



text \<open>Suppressing the agent's own activity and gating baselined edges keep the same
  contract: items are only left out, the returned number is the number left out, and no
  dangling edge appears.\<close>

theorem noise_and_gate_correct:
  assumes "closed_entities e" "filter_agent_noise pid e = (e1, n1)"
    "gate_baselined_edges entries e1 = (e2, n2)"
  shows "sub_entities e2 e \<and> n1 + n2 + item_count e2 = item_count e \<and> closed_entities e2"
proof -
  from assms have 1: "sub_entities e1 e" "n1 + item_count e1 = item_count e" "closed_entities e1"
    using agent_filter.run_sub [of pid e e1 n1] agent_filter.run_count [of pid e e1 n1]
      agent_filter.run_closed [of pid e e1 n1] by simp_all
  from assms(3) 1(3) have 2: "sub_entities e2 e1" "n2 + item_count e2 = item_count e1" "closed_entities e2"
    using baseline_filter.run_sub [of entries e1 e2 n2] baseline_filter.run_count [of entries e1 e2 n2]
      baseline_filter.run_closed [of entries e1 e2 n2] by simp_all
  from 1 2 sub_entities_trans show ?thesis by fastforce
qed

theorem noise_and_gate_correct_witness:
  "\<exists>e1 n1 e2 n2. filter_agent_noise 5 sample_batch = (e1, n1)
    \<and> gate_baselined_edges {(''curl'', ''network'', ''1.1.1.1'')} e1 = (e2, n2)
    \<and> n1 + n2 + item_count e2 = 3"
proof -
  obtain e1 n1 where 1: "filter_agent_noise 5 sample_batch = (e1, n1)" by force
  obtain e2 n2 where 2: "gate_baselined_edges {(''curl'', ''network'', ''1.1.1.1'')} e1 = (e2, n2)"
    by force
  have "item_count sample_batch = 3" by code_simp
  with noise_and_gate_correct [OF sample_batch_closed 1 2] 1 2 show ?thesis by auto
qed

text \<open>Before the graph the chain of a process is not known, and the filter matches every rule
  without it: an exclusion (\<open>chain_exclude\<close>) has no effect there, although
  \<open>get_graph_filterable_rules\<close> passes rules that have one.\<close>

theorem pregraph_ignores_chain_exclude:
  "(graph_filterable (r\<lparr>chain_exclude := x\<rparr>) \<longleftrightarrow> graph_filterable r)
    \<and> filter_entities rx (map (\<lambda>r. r\<lparr>chain_exclude := f r\<rparr>) rules) e = filter_entities rx rules e"
proof -
  have m: "match_type rx (r\<lparr>chain_exclude := y\<rparr>) a = match_type rx r a" for r y a
    by (simp add: match_type_def)
  have h: "hits rx (map (\<lambda>r. r\<lparr>chain_exclude := f r\<rparr>) rules) a = hits rx rules a"
    if "a_chain a = None" for a
    by (simp add: hits_iff [OF that] m)
  have a: "any_rule rx (map (\<lambda>r. r\<lparr>chain_exclude := f r\<rparr>) rules) a = any_rule rx rules a"
    if "a_chain a = None" for a
    by (simp add: any_rule_hits [OF that] h [OF that])
  have "filter_processes rx (map (\<lambda>r. r\<lparr>chain_exclude := f r\<rparr>) rules) = filter_processes rx rules"
    "filter_ips rx (map (\<lambda>r. r\<lparr>chain_exclude := f r\<rparr>) rules) = filter_ips rx rules"
    "filter_domains rx (map (\<lambda>r. r\<lparr>chain_exclude := f r\<rparr>) rules) = filter_domains rx rules"
    "filter_files rx (map (\<lambda>r. r\<lparr>chain_exclude := f r\<rparr>) rules) = filter_files rx rules"
    by (simp_all add: filter_processes_def filter_ips_def filter_domains_def filter_files_def a)
  then show ?thesis by (simp add: filter_entities_def graph_filterable_def)
qed

end
