(* ===== verification/FastBlocklist.thy ===== *)
theory FastBlocklist
  imports Filters ProcCaches
begin

text \<open>
  The synchronous enforcer of \<open>agent/processor/synchronous_enforcer.py\<close>: the class
  \<open>FastBlocklist\<close>.  Its compiled tables are a record; \<open>evaluate\<close> returns the finding and
  the match, or nothing, or the \<open>re.error\<close> a chain pattern raises.  The id (\<open>uuid4\<close>) and
  the time of the finding are arguments, and so is \<open>net_str\<close>, Python's rendering of a
  network, which only appears in a message.
\<close>

section \<open>The compiled tables\<close>

record compiled =
  cb_ips :: "string set"
  cb_domains :: "string set"
  cb_cidrs :: "ip_net list"
  cb_process_names :: "(string \<times> string) list"
  cb_file_paths :: "(string \<times> string) list"
  cb_chain_patterns :: "(string list \<times> string) list"
  cb_scoped :: "rule list"

definition no_rules :: compiled where
  "no_rules = \<lparr>cb_ips = {}, cb_domains = {}, cb_cidrs = [], cb_process_names = [],
     cb_file_paths = [], cb_chain_patterns = [], cb_scoped = []\<rparr>"

definition scoped :: "rule \<Rightarrow> bool" where
  "scoped r \<longleftrightarrow> chain_filter r \<noteq> [] \<or> chain_exclude r \<noteq> []"

definition compile_rule :: "rule \<Rightarrow> compiled \<Rightarrow> compiled" where
  "compile_rule r c =
     (let rt = rule_type r; pat = pattern r; desc = rule_desc r in
      if scoped r then c\<lparr>cb_scoped := cb_scoped c @ [r]\<rparr>
      else if rt = ''dst_ip'' then c\<lparr>cb_ips := insert pat (cb_ips c)\<rparr>
      else if rt = ''domain'' then c\<lparr>cb_domains := insert (py_lower pat) (cb_domains c)\<rparr>
      else if rt = ''dst_cidr'' then
        (case ip_network pat of None \<Rightarrow> c | Some n \<Rightarrow> c\<lparr>cb_cidrs := cb_cidrs c @ [n]\<rparr>)
      else if rt = ''process_name'' then
        c\<lparr>cb_process_names := cb_process_names c @ [(pat, desc)]\<rparr>
      else if rt = ''file_path'' then c\<lparr>cb_file_paths := cb_file_paths c @ [(pat, desc)]\<rparr>
      else if rt = ''chain_pattern'' then
        c\<lparr>cb_chain_patterns := cb_chain_patterns c @ [(pattern_parts pat, desc)]\<rparr>
      else c)"

definition compile_rules :: "rule list \<Rightarrow> compiled" where
  "compile_rules rs = fold compile_rule rs no_rules"

definition has_rules :: "compiled \<Rightarrow> bool" where
  "has_rules c \<longleftrightarrow> cb_ips c \<noteq> {} \<or> cb_domains c \<noteq> {} \<or> cb_cidrs c \<noteq> []
     \<or> cb_process_names c \<noteq> [] \<or> cb_file_paths c \<noteq> [] \<or> cb_chain_patterns c \<noteq> []
     \<or> cb_scoped c \<noteq> []"

text \<open>The source of a refresh: the rows of the blocklist table (\<open>None\<close> when reading them
  raises) and the network rules pushed to the enforcer.\<close>

type_synonym fast_source = "rule list option \<times> rule list"

definition load_rules :: "fast_source \<Rightarrow> compiled" where
  "load_rules src = compile_rules ((case fst src of None \<Rightarrow> [] | Some rs \<Rightarrow> rs) @ snd src)"

type_synonym fast_cache = "compiled cache"

definition fast_refresh :: "int \<Rightarrow> fast_source \<Rightarrow> int \<Rightarrow> int \<Rightarrow> fast_cache \<Rightarrow> compiled \<times> fast_cache" where
  "fast_refresh interval src now after c =
     (let c' = (if stale interval now c
                then \<lparr>c_value = load_rules src, c_last = after, c_invalidated = False\<rparr> else c)
      in (c_value c', c'))"

interpretation fast_cache: stale_cache load_rules "fast_refresh interval" interval for interval
  by unfold_locales (auto simp: fast_refresh_def)

section \<open>The checks\<close>

text \<open>What a check reports: the kind of rule, the matched value, and the description.\<close>

record hit =
  h_type :: string
  h_value :: string
  h_desc :: string

definition mk_hit :: "string \<Rightarrow> string \<Rightarrow> string \<Rightarrow> hit" where
  "mk_hit ty v d = \<lparr>h_type = ty, h_value = v, h_desc = d\<rparr>"

definition ip_check_one :: "(ip_net \<Rightarrow> string) \<Rightarrow> compiled \<Rightarrow> string \<Rightarrow> hit option" where
  "ip_check_one net_str c ip =
     (if ip = [] then None
      else if ip \<in> cb_ips c then Some (mk_hit ''dst_ip'' ip (''Blocked IP: '' @ ip))
      else case ip_address ip of
        None \<Rightarrow> None
      | Some a \<Rightarrow> map_option (\<lambda>n. mk_hit ''dst_cidr'' ip (''Blocked CIDR '' @ net_str n @ '': '' @ ip))
          (find (in_net a) (cb_cidrs c)))"

text \<open>A loop that returns at its first hit.\<close>

fun first_hit :: "('a \<Rightarrow> 'b option) \<Rightarrow> 'a list \<Rightarrow> 'b option" where
  "first_hit f [] = None"
| "first_hit f (x # xs) = (case f x of None \<Rightarrow> first_hit f xs | Some h \<Rightarrow> Some h)"

definition ip_check :: "(ip_net \<Rightarrow> string) \<Rightarrow> compiled \<Rightarrow> entities \<Rightarrow> hit option" where
  "ip_check net_str c e = first_hit (\<lambda>x. ip_check_one net_str c (ce_ip_id x)) (connected_edges e)"

definition domain_check :: "compiled \<Rightarrow> entities \<Rightarrow> hit option" where
  "domain_check c e = first_hit (\<lambda>d. let n = py_lower (dn_name d) in
     if n \<noteq> [] \<and> n \<in> cb_domains c then Some (mk_hit ''domain'' n (''Blocked domain: '' @ n))
     else None) (domains e)"

definition process_check :: "compiled \<Rightarrow> entities \<Rightarrow> hit option" where
  "process_check c e = first_hit (\<lambda>p. map_option (\<lambda>(pat, _). mk_hit ''process_name'' (pn_name p)
       (''Blocked process: '' @ pn_name p @ '' (rule: '' @ pat @ '')''))
     (find (\<lambda>(pat, _). fnmatch (py_lower (pn_name p)) (py_lower pat)) (cb_process_names c)))
     (processes e)"

definition file_check :: "compiled \<Rightarrow> entities \<Rightarrow> hit option" where
  "file_check c e = first_hit (\<lambda>x. if fe_file_id x = [] then None
     else map_option (\<lambda>(pat, _). mk_hit ''file_path'' (fe_file_id x)
         (''Blocked file: '' @ fe_file_id x @ '' (rule: '' @ pat @ '')''))
       (find (\<lambda>(pat, _). fnmatch (fe_file_id x) pat) (cb_file_paths c))) (file_edges e)"

text \<open>\<open>" > ".join(e.name for e in chain)\<close>.\<close>

definition chain_str :: "chain_entry list \<Rightarrow> string" where
  "chain_str ch = join_with '' > '' (map entry_name ch)"

text \<open>What the process checks read besides the batch: the index and the system.\<close>

type_synonym chain_env = "pid_index \<times> os"

definition build_chain :: "chain_env \<Rightarrow> process_node \<Rightarrow> proc_caches \<Rightarrow> chain_entry list \<times> proc_caches"
where
  "build_chain env p c = build_chain_from_caches (fst env) (snd env) (pn_pid p) (pn_name p) c"

text \<open>A loop over processes that threads the caches, may raise, and returns at its first
  hit.\<close>

fun first_proc ::
    "(process_node \<Rightarrow> proc_caches \<Rightarrow> (hit option \<times> proc_caches) res) \<Rightarrow> process_node list
      \<Rightarrow> proc_caches \<Rightarrow> (hit option \<times> proc_caches) res" where
  "first_proc f [] c = Inr (None, c)"
| "first_proc f (p # ps) c = bindR (f p c)
     (\<lambda>(h, c'). case h of None \<Rightarrow> first_proc f ps c' | Some h \<Rightarrow> Inr (Some h, c'))"

definition chain_check ::
    "regex_engine \<Rightarrow> chain_env \<Rightarrow> compiled \<Rightarrow> entities \<Rightarrow> proc_caches
      \<Rightarrow> (hit option \<times> proc_caches) res" where
  "chain_check rx env cb e c =
     (if cb_chain_patterns cb = [] then Inr (None, c)
      else first_proc (\<lambda>p c.
        let (ch, c') = build_chain env p c in
        bindR (findR (\<lambda>(parts, _). match_chain_pattern rx ch parts) (cb_chain_patterns cb))
          (\<lambda>m. Inr (map_option (\<lambda>(_, desc). mk_hit ''chain_pattern'' (chain_str ch)
             (''Blocked chain: '' @ chain_str ch @ '' (rule: '' @ desc @ '')'')) m, c')))
        (processes e) c)"

text \<open>The dictionaries built for \<open>_match_rule\<close>: \<open>removeprefix\<close> on user entries.\<close>

definition entry_dict :: "chain_entry \<Rightarrow> chain_dict" where
  "entry_dict e =
     (let usr = prefix ''USER:'' (entry_name e)
      in \<lparr>cd_entity_type = Some (if usr then ''user'' else ''process''),
          cd_entity_name = (if usr then drop 5 (entry_name e) else entry_name e),
          cd_cmd_line = Some (entry_cmdline e), cd_container_id = Some (entry_container e)\<rparr>)"

text \<open>The value of a scoped rule that matches, or the empty string.\<close>

definition scoped_value ::
    "regex_engine \<Rightarrow> entities \<Rightarrow> process_node \<Rightarrow> chain_entry list \<Rightarrow> rule \<Rightarrow> string res" where
  "scoped_value rx e p ch r =
     (let rt = rule_type r;
          base = no_attrs\<lparr>a_chain := Some (DictChain (map entry_dict ch))\<rparr>;
          ips = filter (\<lambda>i. i \<noteq> []) (map ce_ip_id (connected_edges e));
          doms = map (\<lambda>d. py_lower (dn_name d)) (filter (\<lambda>d. dn_name d \<noteq> []) (domains e));
          fils = filter (\<lambda>i. i \<noteq> []) (map fe_file_id (file_edges e));
          pick = (\<lambda>m. Inr (case m of None \<Rightarrow> [] | Some v \<Rightarrow> v))
      in if rt = ''process_name'' then
           bindR (match_rule rx r (base\<lparr>a_process_name := pn_name p\<rparr>))
             (\<lambda>b. Inr (if b then pn_name p else []))
         else if rt = ''dst_ip'' \<or> rt = ''dst_cidr'' then
           bindR (findR (\<lambda>i. match_rule rx r (base\<lparr>a_dst_ip := i\<rparr>)) ips) pick
         else if rt = ''domain'' then
           bindR (findR (\<lambda>d. match_rule rx r (base\<lparr>a_domain := d\<rparr>)) doms) pick
         else if rt = ''file_path'' then
           bindR (findR (\<lambda>f. match_rule rx r (base\<lparr>a_file_path := f\<rparr>)) fils) pick
         else if rt = ''chain_pattern'' then
           bindR (match_rule rx r base) (\<lambda>b. Inr (if b then chain_str ch else []))
         else Inr [])"

fun first_scoped ::
    "regex_engine \<Rightarrow> entities \<Rightarrow> process_node \<Rightarrow> chain_entry list \<Rightarrow> rule list \<Rightarrow> hit option res" where
  "first_scoped rx e p ch [] = Inr None"
| "first_scoped rx e p ch (r # rs) = bindR (scoped_value rx e p ch r) (\<lambda>v.
     if v \<noteq> [] then Inr (Some (mk_hit (rule_type r) v (''Scoped blocklist ('' @ rule_type r @ ''): ''
       @ v @ '' (rule: '' @ rule_desc r @ '')'')))
     else first_scoped rx e p ch rs)"

definition scoped_check ::
    "regex_engine \<Rightarrow> chain_env \<Rightarrow> compiled \<Rightarrow> entities \<Rightarrow> proc_caches
      \<Rightarrow> (hit option \<times> proc_caches) res" where
  "scoped_check rx env cb e c =
     (if cb_scoped cb = [] then Inr (None, c)
      else first_proc (\<lambda>p c.
        let (ch, c') = build_chain env p c
        in bindR (first_scoped rx e p ch (cb_scoped cb)) (\<lambda>h. Inr (h, c'))) (processes e) c)"

section \<open>Evaluation\<close>

definition or_else :: "hit option \<Rightarrow> hit option \<Rightarrow> hit option" where
  "or_else a b = (case a of None \<Rightarrow> b | Some h \<Rightarrow> Some h)"

definition table_check :: "(ip_net \<Rightarrow> string) \<Rightarrow> compiled \<Rightarrow> entities \<Rightarrow> hit option" where
  "table_check net_str cb e = or_else (ip_check net_str cb e) (or_else (domain_check cb e)
     (or_else (process_check cb e) (file_check cb e)))"

definition evaluate_hit ::
    "regex_engine \<Rightarrow> (ip_net \<Rightarrow> string) \<Rightarrow> chain_env \<Rightarrow> compiled \<Rightarrow> entities \<Rightarrow> proc_caches
      \<Rightarrow> (hit option \<times> proc_caches) res" where
  "evaluate_hit rx net_str env cb e c =
     (if \<not> has_rules cb then Inr (None, c)
      else case table_check net_str cb e of
        Some h \<Rightarrow> Inr (Some h, c)
      | None \<Rightarrow> bindR (chain_check rx env cb e c) (\<lambda>(h, c').
          case h of Some h \<Rightarrow> Inr (Some h, c') | None \<Rightarrow> scoped_check rx env cb e c'))"

definition synthesize :: "string \<Rightarrow> datetime \<Rightarrow> entities \<Rightarrow> int \<Rightarrow> hit \<Rightarrow> security_finding" where
  "synthesize uid now e ev h =
     (let is_ip = h_type h = ''dst_ip'' \<or> h_type h = ''dst_cidr'';
          steps = map (\<lambda>p. mk_chain_step ''process'' (pn_id p) (pn_name p)
            (if pn_pid p > 0 then Some (pn_pid p) else None)) (processes e);
          target = (if is_ip then [mk_chain_step ''ip'' (h_value h) (h_value h) None]
            else if h_type h = ''domain'' then [mk_chain_step ''domain'' (h_value h) (h_value h) None]
            else []);
          iocs = (if is_ip then [(''ips'', [h_value h])]
            else if h_type h = ''domain'' then [(''domains'', [h_value h])]
            else if h_type h = ''file_path'' then [(''files'', [h_value h])] else [])
      in \<lparr>sf_id = uid, sf_timestamp = now, sf_severity = ''critical'',
          sf_title = ''Blocklist Hit ('' @ h_type h @ ''): '' @ h_value h,
          sf_description = ''Fast-path blocklist enforcer matched event '' @ int_str ev @ '': ''
            @ h_desc h @ ''. This event was blocked synchronously in the processor pipeline ''
            @ ''without waiting for LLM analysis.'',
          sf_affected_entities = [h_value h], sf_evidence_event_ids = [ev],
          sf_recommendation = ''Investigate the blocked activity. The blocklist rule triggered ''
            @ ''an immediate response action. Review audit trail for details.'',
          sf_chain = steps @ target, sf_affected_pids = filter (\<lambda>p. p > 0) (map pn_pid (processes e)),
          sf_iocs = iocs, sf_trigger_pid = None, sf_trigger_timestamp = None\<rparr>)"

text \<open>\<open>evaluate\<close>: refresh, check, synthesize.\<close>

definition evaluate ::
    "regex_engine \<Rightarrow> (ip_net \<Rightarrow> string) \<Rightarrow> chain_env \<Rightarrow> string \<Rightarrow> datetime \<Rightarrow> compiled \<Rightarrow> entities
      \<Rightarrow> int \<Rightarrow> proc_caches \<Rightarrow> ((security_finding \<times> string) option \<times> proc_caches) res" where
  "evaluate rx net_str env uid now cb e ev c =
     bindR (evaluate_hit rx net_str env cb e c) (\<lambda>(h, c').
       Inr (map_option (\<lambda>h. (synthesize uid now e ev h, h_desc h)) h, c'))"

section \<open>What the tables hold\<close>

definition plain_rules :: "string \<Rightarrow> rule list \<Rightarrow> rule set" where
  "plain_rules ty rs = {r \<in> set rs. \<not> scoped r \<and> rule_type r = ty}"

lemma plain_rules_simps [simp]:
  "plain_rules ty [] = {}"
  "plain_rules ty (r # rs) =
     (if \<not> scoped r \<and> rule_type r = ty then insert r (plain_rules ty rs) else plain_rules ty rs)"
  by (auto simp: plain_rules_def)

lemma fold_compile_ips:
  "cb_ips (fold compile_rule rs c) = cb_ips c \<union> pattern ` plain_rules ''dst_ip'' rs"
  by (induction rs arbitrary: c) (auto simp: compile_rule_def Let_def split: option.splits)

lemma fold_compile_domains:
  "cb_domains (fold compile_rule rs c)
     = cb_domains c \<union> (\<lambda>r. py_lower (pattern r)) ` plain_rules ''domain'' rs"
  by (induction rs arbitrary: c) (auto simp: compile_rule_def Let_def split: option.splits)

lemma fold_compile_cidrs:
  "set (cb_cidrs (fold compile_rule rs c))
     = set (cb_cidrs c) \<union> {n. \<exists>r \<in> plain_rules ''dst_cidr'' rs. ip_network (pattern r) = Some n}"
  by (induction rs arbitrary: c) (auto simp: compile_rule_def Let_def split: option.splits)

lemma fold_compile_names:
  "set (cb_process_names (fold compile_rule rs c))
     = set (cb_process_names c) \<union> (\<lambda>r. (pattern r, rule_desc r)) ` plain_rules ''process_name'' rs"
  by (induction rs arbitrary: c) (auto simp: compile_rule_def Let_def split: option.splits)

lemma fold_compile_files:
  "set (cb_file_paths (fold compile_rule rs c))
     = set (cb_file_paths c) \<union> (\<lambda>r. (pattern r, rule_desc r)) ` plain_rules ''file_path'' rs"
  by (induction rs arbitrary: c) (auto simp: compile_rule_def Let_def split: option.splits)

lemma fold_compile_chains:
  "cb_chain_patterns (fold compile_rule rs c) = cb_chain_patterns c
     @ map (\<lambda>r. (pattern_parts (pattern r), rule_desc r))
         (filter (\<lambda>r. \<not> scoped r \<and> rule_type r = ''chain_pattern'') rs)"
  by (induction rs arbitrary: c) (auto simp: compile_rule_def Let_def split: option.splits)

lemma fold_compile_scoped:
  "cb_scoped (fold compile_rule rs c) = cb_scoped c @ filter scoped rs"
  by (induction rs arbitrary: c) (auto simp: compile_rule_def Let_def split: option.splits)

lemma compile_rules_sel:
  "cb_ips (compile_rules rs) = pattern ` plain_rules ''dst_ip'' rs"
  "cb_domains (compile_rules rs) = (\<lambda>r. py_lower (pattern r)) ` plain_rules ''domain'' rs"
  "set (cb_cidrs (compile_rules rs)) = {n. \<exists>r \<in> plain_rules ''dst_cidr'' rs. ip_network (pattern r) = Some n}"
  "set (cb_process_names (compile_rules rs)) = (\<lambda>r. (pattern r, rule_desc r)) ` plain_rules ''process_name'' rs"
  "set (cb_file_paths (compile_rules rs)) = (\<lambda>r. (pattern r, rule_desc r)) ` plain_rules ''file_path'' rs"
  "cb_chain_patterns (compile_rules rs) = map (\<lambda>r. (pattern_parts (pattern r), rule_desc r))
     (filter (\<lambda>r. \<not> scoped r \<and> rule_type r = ''chain_pattern'') rs)"
  "cb_scoped (compile_rules rs) = filter scoped rs"
  by (simp_all add: compile_rules_def fold_compile_ips fold_compile_domains fold_compile_cidrs
      fold_compile_names fold_compile_files fold_compile_chains fold_compile_scoped no_rules_def)

section \<open>The tables decide what the rules decide\<close>

lemma first_hit_iff: "first_hit f xs \<noteq> None \<longleftrightarrow> (\<exists>x \<in> set xs. f x \<noteq> None)"
  by (induction xs) (auto split: option.splits)

lemma or_else_iff: "or_else a b \<noteq> None \<longleftrightarrow> a \<noteq> None \<or> b \<noteq> None"
  by (auto simp: or_else_def split: option.splits)

lemma find_iff: "find P xs \<noteq> None \<longleftrightarrow> (\<exists>x \<in> set xs. P x)"
  by (auto simp: find_None_iff)

text \<open>The attributes a batch presents to unscoped rules.\<close>

definition batch_attrs :: "entities \<Rightarrow> attrs set" where
  "batch_attrs e = (\<lambda>x. ip_attrs (ce_ip_id x)) ` set (connected_edges e)
     \<union> (\<lambda>d. domain_attrs (dn_name d)) ` set (domains e)
     \<union> (\<lambda>p. proc_attrs (pn_name p)) ` set (processes e)
     \<union> (\<lambda>x. file_attrs (fe_file_id x)) ` set (file_edges e)"

lemmas attrs_defs = proc_attrs_def ip_attrs_def domain_attrs_def file_attrs_def no_attrs_def

lemma plain_match:
  "\<not> scoped r \<Longrightarrow> a_chain a = None \<Longrightarrow> match_rule rx r a = match_type rx r a"
  by (simp add: match_rule_no_chain scoped_def)

lemma ip_check_rules:
  "ip_check ns (compile_rules rs) e \<noteq> None \<longleftrightarrow>
     (\<exists>x \<in> set (connected_edges e). \<exists>r \<in> set rs. \<not> scoped r
        \<and> match_rule rx r (ip_attrs (ce_ip_id x)) = Inr True)"
proof -
  have "ip_check_one ns (compile_rules rs) i \<noteq> None \<longleftrightarrow>
      (\<exists>r \<in> set rs. \<not> scoped r \<and> match_rule rx r (ip_attrs i) = Inr True)" for i
  proof -
    have m: "match_rule rx r (ip_attrs i) = Inr True \<longleftrightarrow> i \<noteq> [] \<and>
        (rule_type r = ''dst_ip'' \<and> i = pattern r \<or> rule_type r = ''dst_cidr'' \<and> cidr_match i (pattern r))"
      if "\<not> scoped r" for r
      using that by (auto simp: plain_match match_type_def attrs_defs Let_def)
    have "ip_check_one ns (compile_rules rs) i \<noteq> None \<longleftrightarrow> i \<noteq> [] \<and>
        ((\<exists>r \<in> plain_rules ''dst_ip'' rs. i = pattern r)
         \<or> (\<exists>r \<in> plain_rules ''dst_cidr'' rs. cidr_match i (pattern r)))"
    proof (cases "ip_address i")
      case None
      then show ?thesis by (auto simp: ip_check_one_def compile_rules_sel cidr_match_def)
    next
      case (Some a)
      have "find (in_net a) (cb_cidrs (compile_rules rs)) \<noteq> None \<longleftrightarrow>
          (\<exists>r \<in> plain_rules ''dst_cidr'' rs. cidr_match i (pattern r))"
        unfolding find_iff compile_rules_sel cidr_match_def Some
        by (auto split: option.splits)
      with Some show ?thesis by (auto simp: ip_check_one_def compile_rules_sel)
    qed
    also have "\<dots> \<longleftrightarrow> (\<exists>r \<in> set rs. \<not> scoped r \<and> match_rule rx r (ip_attrs i) = Inr True)"
      using m by (auto simp: plain_rules_def)
    finally show ?thesis .
  qed
  then show ?thesis by (simp add: ip_check_def first_hit_iff del: not_None_eq)
qed

lemma domain_check_rules:
  "domain_check (compile_rules rs) e \<noteq> None \<longleftrightarrow>
     (\<exists>d \<in> set (domains e). \<exists>r \<in> set rs. \<not> scoped r
        \<and> match_rule rx r (domain_attrs (dn_name d)) = Inr True)"
proof -
  have "match_rule rx r (domain_attrs n) = Inr True \<longleftrightarrow>
      rule_type r = ''domain'' \<and> n \<noteq> [] \<and> py_lower n = py_lower (pattern r)"
    if "\<not> scoped r" for r n
    using that by (auto simp: plain_match match_type_def attrs_defs Let_def)
  then show ?thesis
    unfolding domain_check_def first_hit_iff
    by (intro bex_cong refl) (auto simp: compile_rules_sel plain_rules_def Let_def image_iff)
qed

lemma process_check_rules:
  assumes "\<forall>p \<in> set (processes e). pn_name p \<noteq> []"
  shows "process_check (compile_rules rs) e \<noteq> None \<longleftrightarrow>
     (\<exists>p \<in> set (processes e). \<exists>r \<in> set rs. \<not> scoped r
        \<and> match_rule rx r (proc_attrs (pn_name p)) = Inr True)"
proof -
  have m: "match_rule rx r (proc_attrs n) = Inr True \<longleftrightarrow>
      rule_type r = ''process_name'' \<and> n \<noteq> [] \<and> fnmatch (py_lower n) (py_lower (pattern r))"
    if "\<not> scoped r" for r n
    using that by (auto simp: plain_match match_type_def attrs_defs Let_def)
  have "find (\<lambda>(pat, _). fnmatch (py_lower n) (py_lower pat)) (cb_process_names (compile_rules rs))
      \<noteq> None \<longleftrightarrow> (\<exists>r \<in> plain_rules ''process_name'' rs. fnmatch (py_lower n) (py_lower (pattern r)))"
    for n unfolding find_iff compile_rules_sel by auto
  then show ?thesis
    unfolding process_check_def first_hit_iff option.map_disc_iff
    using assms m by (intro bex_cong refl) (auto simp: plain_rules_def simp del: not_None_eq)
qed

lemma file_check_rules:
  "file_check (compile_rules rs) e \<noteq> None \<longleftrightarrow>
     (\<exists>x \<in> set (file_edges e). \<exists>r \<in> set rs. \<not> scoped r
        \<and> match_rule rx r (file_attrs (fe_file_id x)) = Inr True)"
proof -
  have m: "match_rule rx r (file_attrs f) = Inr True \<longleftrightarrow>
      rule_type r = ''file_path'' \<and> f \<noteq> [] \<and> fnmatch f (pattern r)"
    if "\<not> scoped r" for r f
    using that by (auto simp: plain_match match_type_def attrs_defs Let_def)
  have "find (\<lambda>(pat, _). fnmatch f pat) (cb_file_paths (compile_rules rs)) \<noteq> None \<longleftrightarrow>
      (\<exists>r \<in> plain_rules ''file_path'' rs. fnmatch f (pattern r))"
    for f unfolding find_iff compile_rules_sel by auto
  then show ?thesis
    unfolding file_check_def first_hit_iff
    using m by (intro bex_cong refl) (auto simp: plain_rules_def simp del: not_None_eq)
qed

lemma table_check_rules:
  assumes "\<forall>p \<in> set (processes e). pn_name p \<noteq> []"
  shows "table_check ns (compile_rules rs) e \<noteq> None \<longleftrightarrow>
     (\<exists>a \<in> batch_attrs e. \<exists>r \<in> set rs. \<not> scoped r \<and> match_rule rx r a = Inr True)"
  unfolding table_check_def or_else_iff ip_check_rules [where rx = rx]
    domain_check_rules [where rx = rx] process_check_rules [OF assms, where rx = rx]
    file_check_rules [where rx = rx] batch_attrs_def
  by blast

section \<open>Errors\<close>

lemma findR_error: "findR p xs = Inl x \<Longrightarrow> \<exists>y \<in> set xs. p y = Inl x"
  by (induction xs) (auto simp: bindR_Inl_iff split: if_splits)

lemma match_rule_error: "match_rule rx r a = Inl x \<Longrightarrow> x = ReError \<and> \<not> regex_free_rule r"
proof -
  have c: "chain_matches rx c p = Inl x \<Longrightarrow> x = ReError \<and> \<not> regex_free p" for c p
    using chain_matches_total [of p rx c] match_chain_pattern_error
    by (auto simp: chain_matches_def)
  show "match_rule rx r a = Inl x \<Longrightarrow> x = ReError \<and> \<not> regex_free_rule r"
    by (auto simp: match_rule_def bindR_Inl_iff chain_filter_ok_def chain_excluded_def
        match_type_def Let_def regex_free_rule_def split: if_splits option.splits dest!: c)
qed

lemma first_proc_error:
  "first_proc f ps c = Inl x \<Longrightarrow> \<exists>p \<in> set ps. \<exists>c. f p c = Inl x"
proof (induction ps arbitrary: c)
  case (Cons p ps)
  then show ?case by (fastforce simp: bindR_Inl_iff split: option.splits prod.splits)
qed simp

lemma scoped_value_error:
  "scoped_value rx e p ch r = Inl x \<Longrightarrow> x = ReError \<and> \<not> regex_free_rule r"
  by (auto simp: scoped_value_def Let_def bindR_Inl_iff split: if_splits
      dest!: findR_error match_rule_error)

lemma first_scoped_error:
  "first_scoped rx e p ch rs = Inl x \<Longrightarrow> x = ReError \<and> (\<exists>r \<in> set rs. \<not> regex_free_rule r)"
  by (induction rs) (auto simp: bindR_Inl_iff split: if_splits dest: scoped_value_error)

lemma evaluate_hit_error:
  assumes "evaluate_hit rx ns env (compile_rules rs) e c = Inl x"
  shows "x = ReError \<and> (\<exists>r \<in> set rs. \<not> regex_free_rule r)"
proof -
  let ?cb = "compile_rules rs"
  from assms consider (chain) "chain_check rx env ?cb e c = Inl x"
    | (scoped) c' where "scoped_check rx env ?cb e c' = Inl x"
    by (auto simp: evaluate_hit_def bindR_Inl_iff split: if_splits option.splits)
  then show ?thesis
  proof cases
    case chain
    then obtain p c1 where "(let (ch, c') = build_chain env p c1 in
        bindR (findR (\<lambda>(parts, _). match_chain_pattern rx ch parts) (cb_chain_patterns ?cb))
          (\<lambda>m. Inr (map_option (\<lambda>(_, desc). mk_hit ''chain_pattern'' (chain_str ch)
             (''Blocked chain: '' @ chain_str ch @ '' (rule: '' @ desc @ '')'')) m, c'))) = Inl x"
      by (auto simp: chain_check_def split: if_splits dest!: first_proc_error)
    then obtain ch parts d where "(parts, d) \<in> set (cb_chain_patterns ?cb)"
      "match_chain_pattern rx ch parts = Inl x"
      by (auto simp: bindR_Inl_iff case_prod_beta Let_def dest!: findR_error)
    then show ?thesis
      by (auto simp: compile_rules_sel regex_free_rule_def regex_free_def list_all_iff
          dest!: match_chain_pattern_error)
  next
    case scoped
    then obtain p c1 where "(let (ch, c') = build_chain env p c1
        in bindR (first_scoped rx e p ch (cb_scoped ?cb)) (\<lambda>h. Inr (h, c'))) = Inl x"
      by (auto simp: scoped_check_def split: if_splits dest!: first_proc_error)
    then obtain ch where "first_scoped rx e p ch (cb_scoped ?cb) = Inl x"
      by (auto simp: bindR_Inl_iff case_prod_beta Let_def)
    then show ?thesis by (auto simp: compile_rules_sel dest!: first_scoped_error)
  qed
qed

lemma build_chain_last:
  "build_chain env p c = (ch, c') \<Longrightarrow> ch \<noteq> [] \<and> entry_name (last ch) = pn_name p"
  by (auto simp: build_chain_def build_chain_from_caches_def Let_def split: prod.splits if_splits)

section \<open>Properties\<close>



text \<open>The enforcer raises only for a rule with a regular expression in one of its chain
  patterns, and then with \<open>re.error\<close>.\<close>

theorem fast_path_errors:
  assumes "evaluate rx ns env uid now (compile_rules rs) e ev c = Inl x"
  shows "x = ReError \<and> (\<exists>r \<in> set rs. \<not> regex_free_rule r)"
  using assms evaluate_hit_error by (fastforce simp: evaluate_def bindR_Inl_iff)

definition sample_os :: os where
  "sample_os = \<lparr>os_procs = [], os_cgroup = (\<lambda>p. None)\<rparr>"

definition bad_regex_rule :: rule where
  "bad_regex_rule = sample_rule ''chain_pattern'' ''re:(''"

theorem fast_path_errors_witness:
  "\<exists>r \<in> set [bad_regex_rule]. \<not> regex_free_rule r"
proof -
  have "evaluate (\<lambda>p s. None) (\<lambda>n. []) (new_index, sample_os) ''id'' 0 (compile_rules [bad_regex_rule])
      sample_batch 7 empty_caches = Inl ReError"
    by code_simp
  from fast_path_errors [OF this] show ?thesis by blast
qed

text \<open>One chain pattern whose only part is a regular expression that does not compile stops
  the whole fast path: every batch with a process and no table hit raises.\<close>

theorem bad_regex_disables_fast_path:
  assumes "rx ''('' = (\<lambda>s. None)" "processes e \<noteq> []" "table_check ns (compile_rules rs) e = None"
    "filter (\<lambda>r. \<not> scoped r \<and> rule_type r = ''chain_pattern'') rs = [bad_regex_rule]"
  shows "evaluate rx ns env uid now (compile_rules rs) e ev c = Inl ReError"
proof -
  obtain p ps where ps: "processes e = p # ps" using assms(2) by (cases "processes e") auto
  obtain ch c' where ch: "build_chain env p c = (ch, c')" by force
  from build_chain_last [OF ch] obtain x xs where x: "ch = x # xs" by (cases ch) auto
  have parts: "pattern_parts (pattern bad_regex_rule) = [''re:('']" by code_simp
  have cp: "cb_chain_patterns (compile_rules rs) = [([''re:(''], rule_desc bad_regex_rule)]"
    by (simp add: compile_rules_sel assms(4) parts)
  have step: "match_step rx y ''re:('' = Inl ReError" for y
    using assms(1) by (simp add: match_step_def regex_search_def)
  have "match_chain_pattern rx ch [''re:(''] = Inl ReError"
    by (simp add: match_chain_pattern_def x upt_conv_Cons step del: upt_Suc)
  then have "chain_check rx env (compile_rules rs) e c = Inl ReError"
    by (simp add: chain_check_def cp ps ch)
  moreover have "has_rules (compile_rules rs)" by (simp add: has_rules_def cp)
  ultimately show ?thesis by (simp add: evaluate_def evaluate_hit_def assms(3))
qed

theorem bad_regex_disables_fast_path_witness:
  "evaluate (\<lambda>p s. None) (\<lambda>n. []) (new_index, sample_os) ''id'' 0
     (compile_rules [sample_rule ''dst_ip'' ''10.0.0.1'', bad_regex_rule]) sample_batch 7 empty_caches
     = Inl ReError"
  by (rule bad_regex_disables_fast_path)
    (simp, code_simp, code_simp, simp add: scoped_def bad_regex_rule_def sample_rule_def)

end
