(* ===== verification/Pipeline.thy ===== *)
theory Pipeline
  imports FastBlocklist
begin

text \<open>
  The path of one extracted batch through the processor loop of \<open>agent/main.py\<close>
  (\<open>_run_processor\<close>): agent noise, the fast blocklist, the READ edges, the allowlist and
  the baseline gate, in that order, with every early exit.  The caches appear as the
  values they serve for this event.  An exception inside the loop body drops the event;
  in every case the event id is marked processed.
\<close>

section \<open>Configuration and outcome\<close>

record stage_config =
  sc_agent_pid :: int
  sc_fast :: "compiled option"
  sc_engine :: bool
  sc_file_read_tracking :: bool
  sc_allow_rules :: "rule list option"
  sc_gate :: "(string \<times> string \<times> string) set option"
  sc_gating :: bool
  sc_response_mode :: string

datatype outcome =
    Emptied
  | Blocked security_finding string
  | Failed py_exc
  | Kept entities

definition drop_read_edges :: "entities \<Rightarrow> entities" where
  "drop_read_edges e = e\<lparr>file_edges := filter (\<lambda>x. fe_operation x \<noteq> ''READ'') (file_edges e)\<rparr>"

definition gate_active :: "stage_config \<Rightarrow> bool" where
  "gate_active s \<longleftrightarrow> sc_gate s \<noteq> None \<and> sc_gating s \<and> sc_response_mode s \<noteq> ''learning''"

text \<open>The last stage.\<close>

definition gate_stage :: "stage_config \<Rightarrow> entities \<Rightarrow> outcome" where
  "gate_stage s e =
     (if gate_active s
      then let (e', _) = gate_baselined_edges (the (sc_gate s)) e
           in if has_entities e' then Kept e' else Emptied
      else Kept e)"

definition allow_stage :: "regex_engine \<Rightarrow> stage_config \<Rightarrow> entities \<Rightarrow> outcome" where
  "allow_stage rx s e = (case sc_allow_rules s of
     None \<Rightarrow> gate_stage s e
   | Some rules \<Rightarrow> (case filter_entities rx rules e of
       Inl x \<Rightarrow> Failed x
     | Inr (e', _) \<Rightarrow> if has_entities e' then gate_stage s e' else Emptied))"

definition after_fast :: "regex_engine \<Rightarrow> stage_config \<Rightarrow> entities \<Rightarrow> outcome" where
  "after_fast rx s e = allow_stage rx s (if sc_file_read_tracking s then e else drop_read_edges e)"

definition fast_active :: "stage_config \<Rightarrow> bool" where
  "fast_active s \<longleftrightarrow> sc_fast s \<noteq> None \<and> sc_engine s"

definition batch_path ::
    "regex_engine \<Rightarrow> (ip_net \<Rightarrow> string) \<Rightarrow> chain_env \<Rightarrow> string \<Rightarrow> datetime \<Rightarrow> stage_config
      \<Rightarrow> int \<Rightarrow> proc_caches \<Rightarrow> entities \<Rightarrow> outcome" where
  "batch_path rx ns env uid now s ev c e0 =
     (let (e, _) = filter_agent_noise (sc_agent_pid s) e0
      in if \<not> has_entities e then Emptied
         else if fast_active s
         then (case evaluate rx ns env uid now (the (sc_fast s)) e ev c of
             Inl x \<Rightarrow> Failed x
           | Inr (Some (f, d), _) \<Rightarrow> Blocked f d
           | Inr (None, _) \<Rightarrow> after_fast rx s e)
         else after_fast rx s e)"

section \<open>What a kept batch is\<close>

text \<open>The relation between the batch of a stage and the one it keeps.\<close>

definition refines_batch :: "entities \<Rightarrow> entities \<Rightarrow> bool" where
  "refines_batch e e' \<longleftrightarrow> sub_entities e' e \<and> (closed_entities e \<longrightarrow> closed_entities e')"

lemma refines_batch_refl [simp]: "refines_batch e e"
  by (simp add: refines_batch_def)

lemma refines_batch_trans: "refines_batch a b \<Longrightarrow> refines_batch b c \<Longrightarrow> refines_batch a c"
  unfolding refines_batch_def using sub_entities_trans by blast

lemma drop_read_edges_refines: "refines_batch e (drop_read_edges e)"
  by (simp add: refines_batch_def drop_read_edges_def sub_entities_def closed_entities_def)

lemma drop_read_edges_nodes [simp]:
  "has_entities (drop_read_edges e) = has_entities e"
  "processes (drop_read_edges e) = processes e"
  by (simp_all add: drop_read_edges_def has_entities_def)

lemma noise_refines: "filter_agent_noise pid e = (e', n) \<Longrightarrow> refines_batch e e'"
  using agent_filter.run_sub [of pid e e' n] agent_filter.run_closed [of pid e e' n]
  by (simp add: refines_batch_def)

lemma gate_refines: "gate_baselined_edges g e = (e', n) \<Longrightarrow> refines_batch e e'"
  using baseline_filter.run_sub [of g e e' n] baseline_filter.run_closed [of g e e' n]
  by (simp add: refines_batch_def)

lemma allow_refines: "filter_entities rx rules e = Inr (e', n) \<Longrightarrow> refines_batch e e'"
  using allowlist_filter.run_sub allowlist_filter.run_closed
  by (fastforce simp: refines_batch_def)

lemma gate_stage_kept:
  "gate_stage s e = Kept e' \<Longrightarrow> has_entities e \<Longrightarrow> refines_batch e e' \<and> has_entities e'"
  by (auto simp: gate_stage_def split: if_splits prod.splits dest: gate_refines)

lemma gate_keeps_processes: "gate_baselined_edges g e = (e', n) \<Longrightarrow> processes e' = processes e"
  by (auto simp: gate_baselined_edges_def gate_edges_def drop_orphan_targets_def Let_def
      split: if_splits prod.splits)

lemma gate_stage_processes: "gate_stage s e = Kept e' \<Longrightarrow> processes e' = processes e"
  by (auto simp: gate_stage_def split: if_splits prod.splits dest: gate_keeps_processes)

lemma allow_stage_kept:
  assumes "allow_stage rx s e = Kept e'" "has_entities e"
  shows "refines_batch e e' \<and> has_entities e'"
proof (cases "sc_allow_rules s")
  case None
  with assms show ?thesis by (simp add: allow_stage_def gate_stage_kept)
next
  case (Some rules)
  with assms obtain e1 n where "filter_entities rx rules e = Inr (e1, n)" "has_entities e1"
    "gate_stage s e1 = Kept e'"
    by (auto simp: allow_stage_def split: sum.splits prod.splits if_splits)
  then show ?thesis using allow_refines gate_stage_kept refines_batch_trans by blast
qed

lemma after_fast_kept:
  "after_fast rx s e = Kept e' \<Longrightarrow> has_entities e \<Longrightarrow> refines_batch e e' \<and> has_entities e'"
  using allow_stage_kept drop_read_edges_refines refines_batch_trans
  by (fastforce simp: after_fast_def split: if_splits)

lemma after_fast_not_failed: "after_fast rx s e \<noteq> Failed x"
proof -
  have g: "gate_stage s b \<noteq> Failed x" for b
    by (simp add: gate_stage_def case_prod_beta)
  have "allow_stage rx s b \<noteq> Failed x" for b
  proof (cases "sc_allow_rules s")
    case None
    with g show ?thesis by (simp add: allow_stage_def)
  next
    case (Some rules)
    obtain b' n where "filter_entities rx rules b = Inr (b', n)"
      using filter_entities_nodes [of rx rules b] by auto
    with Some g show ?thesis by (simp add: allow_stage_def)
  qed
  then show ?thesis by (simp add: after_fast_def)
qed

lemma batch_path_kept:
  assumes "batch_path rx ns env uid now s ev c e = Kept e'"
  shows "refines_batch e e' \<and> has_entities e'"
proof -
  obtain e1 n where n: "filter_agent_noise (sc_agent_pid s) e = (e1, n)" by force
  from assms n have "has_entities e1" "after_fast rx s e1 = Kept e'"
    by (auto simp: batch_path_def split: if_splits sum.splits prod.splits option.splits)
  with after_fast_kept noise_refines [OF n] refines_batch_trans show ?thesis by blast
qed

lemma allow_stage_processes:
  assumes "allow_stage rx s e = Kept e'" "sc_allow_rules s = Some rules"
  shows "\<forall>p \<in> set (processes e'). \<not> hits rx rules (proc_attrs (pn_name p))"
proof -
  from assms obtain e1 n where f: "filter_entities rx rules e = Inr (e1, n)" "gate_stage s e1 = Kept e'"
    by (auto simp: allow_stage_def split: sum.splits prod.splits if_splits)
  have "processes e1 = filter (\<lambda>p. \<not> hits rx rules (proc_attrs (pn_name p))) (processes e)"
    using filter_entities_nodes [of rx rules e] f(1) by (auto simp: kept_nodes_def)
  with gate_stage_processes [OF f(2)] show ?thesis by auto
qed

section \<open>Properties\<close>


definition sample_config :: stage_config where
  "sample_config = \<lparr>sc_agent_pid = 99, sc_fast = Some (compile_rules [sample_rule ''dst_ip'' ''10.0.0.1'']),
     sc_engine = True, sc_file_read_tracking = False,
     sc_allow_rules = Some [sample_rule ''process_name'' ''sshd''], sc_gate = None, sc_gating = True,
     sc_response_mode = ''active''\<rparr>"


text \<open>The blocklist comes before the allowlist: a batch with a fast-path hit is blocked whatever
  the allow rules and the gate are.\<close>

theorem block_before_allow:
  assumes "filter_agent_noise (sc_agent_pid s) e = (e1, n)" "has_entities e1" "fast_active s"
    "evaluate rx ns env uid now (the (sc_fast s)) e1 ev c = Inr (Some (f, d), c')"
  shows "batch_path rx ns env uid now (s\<lparr>sc_allow_rules := a, sc_gate := g\<rparr>) ev c e = Blocked f d"
  using assms by (simp add: batch_path_def fast_active_def)

theorem block_before_allow_witness:
  "\<exists>f d. batch_path (\<lambda>p s. None) (\<lambda>n. []) (new_index, sample_os) ''id'' 0
     (sample_config\<lparr>sc_fast := Some (compile_rules [sample_rule ''process_name'' ''nginx'']),
        sc_allow_rules := Some [sample_rule ''process_name'' ''*''], sc_gate := None\<rparr>)
     7 empty_caches sample_batch = Blocked f d"
proof -
  let ?s = "sample_config\<lparr>sc_fast := Some (compile_rules [sample_rule ''process_name'' ''nginx''])\<rparr>"
  obtain e1 n where 1: "filter_agent_noise (sc_agent_pid ?s) sample_batch = (e1, n)" by force
  have 2: "has_entities (fst (filter_agent_noise (sc_agent_pid ?s) sample_batch))" by code_simp
  have "(case evaluate (\<lambda>p s. None) (\<lambda>n. []) (new_index, sample_os) ''id'' 0 (the (sc_fast ?s))
      (fst (filter_agent_noise (sc_agent_pid ?s) sample_batch)) 7 empty_caches of
      Inr (Some h, c') \<Rightarrow> True | _ \<Rightarrow> False)"
    by code_simp
  then have "(case evaluate (\<lambda>p s. None) (\<lambda>n. []) (new_index, sample_os) ''id'' 0 (the (sc_fast ?s))
      e1 7 empty_caches of Inr (Some h, c') \<Rightarrow> True | _ \<Rightarrow> False)"
    unfolding 1 fst_conv .
  then obtain f d c' where 3: "evaluate (\<lambda>p s. None) (\<lambda>n. []) (new_index, sample_os) ''id'' 0
      (the (sc_fast ?s)) e1 7 empty_caches = Inr (Some (f, d), c')"
    by (auto split: sum.splits option.splits)
  have "fast_active ?s" by (simp add: fast_active_def sample_config_def)
  from block_before_allow [OF 1 _ this 3] 2 1 show ?thesis by auto
qed

end
