(* ===== verification/Policy.thy ===== *)
theory Policy
  imports GraphTypes PyDict PyStr
begin

text \<open>
  Response actions, the severity policy and the approval queue:
  \<open>agent/response/actions.py\<close> and \<open>agent/response/approval.py\<close>.  \<open>time.time()\<close> is an
  argument.  The pending requests are a dictionary and the history a list, as in the code;
  a request is a value, not a shared object, because nothing changes it after it is
  resolved.
\<close>

section \<open>Actions and policy\<close>

datatype response_action =
    LogOnly | Alert | SuspendProcess | TerminateProcess | IsolateNetwork | QuarantineFile
  | BlockConnection | DnsSinkholeAction | PanicIsolate

fun action_value :: "response_action \<Rightarrow> string" where
  "action_value LogOnly = ''log_only''"
| "action_value Alert = ''alert''"
| "action_value SuspendProcess = ''suspend_process''"
| "action_value TerminateProcess = ''terminate_process''"
| "action_value IsolateNetwork = ''isolate_network''"
| "action_value QuarantineFile = ''quarantine_file''"
| "action_value BlockConnection = ''block_connection''"
| "action_value DnsSinkholeAction = ''dns_sinkhole''"
| "action_value PanicIsolate = ''panic_isolate''"

definition PROTECTED_PROCESSES :: "string list" where
  "PROTECTED_PROCESSES =
     [''csrss.exe'', ''smss.exe'', ''wininit.exe'', ''winlogon.exe'', ''lsass.exe'', ''services.exe'',
      ''svchost.exe'', ''dwm.exe'', ''explorer.exe'', ''System'', ''Registry'', ''Memory Compression'',
      ''systemd'', ''init'', ''kthreadd'', ''ksoftirqd'', ''kworker'',
      ''launchd'', ''kernel_task'', ''WindowServer'', ''edr-graph'', ''edr-watchdog'']"

record policy =
  auto_respond :: bool
  auto_terminate :: bool
  protected_processes :: "string list"

text \<open>\<open>protected_processes or PROTECTED_PROCESSES\<close>: an empty set selects the default too.\<close>

definition mk_policy :: "bool \<Rightarrow> bool \<Rightarrow> string list option \<Rightarrow> policy" where
  "mk_policy ar at pp = \<lparr>auto_respond = ar, auto_terminate = at,
     protected_processes = (case pp of None \<Rightarrow> PROTECTED_PROCESSES
       | Some ps \<Rightarrow> if ps = [] then PROTECTED_PROCESSES else ps)\<rparr>"

definition SEVERITY_MAP :: "(string, response_action list) dict" where
  "SEVERITY_MAP =
     [(''info'', [LogOnly]), (''low'', [LogOnly]), (''medium'', [Alert]),
      (''high'', [Alert, BlockConnection]),
      (''critical'', [Alert, SuspendProcess, BlockConnection])]"

definition get_actions :: "string \<Rightarrow> response_action list" where
  "get_actions sev = d_get_or SEVERITY_MAP (py_lower sev) [LogOnly]"

definition is_protected :: "policy \<Rightarrow> string \<Rightarrow> bool" where
  "is_protected p n \<longleftrightarrow> py_lower n \<in> py_lower ` set (protected_processes p)"

definition requires_approval :: "policy \<Rightarrow> response_action \<Rightarrow> bool" where
  "requires_approval p a =
     (if a = LogOnly \<or> a = Alert then False
      else if a = TerminateProcess then \<not> (auto_respond p \<and> auto_terminate p)
      else \<not> auto_respond p)"

section \<open>Approval\<close>

datatype approval_status = Pending | Approved | Denied | AutoApproved

record approval_request =
  ar_request_id :: string
  ar_action :: response_action
  ar_target_pid :: "int option"
  ar_target_path :: "string option"
  ar_severity :: string
  ar_reason :: string
  ar_status :: approval_status
  ar_timestamp :: datetime
  ar_resolved_at :: "datetime option"
  ar_approved_by :: string

record approval_manager =
  am_pending :: "(string, approval_request) dict"
  am_history :: "approval_request list"
  am_next_id :: int

definition new_manager :: approval_manager where
  "new_manager = \<lparr>am_pending = [], am_history = [], am_next_id = 1\<rparr>"

definition request_id :: "int \<Rightarrow> string" where
  "request_id n = ''approval-'' @ int_str n"

definition request_approval ::
    "policy \<Rightarrow> datetime \<Rightarrow> response_action \<Rightarrow> int option \<Rightarrow> string option \<Rightarrow> string \<Rightarrow> string
      \<Rightarrow> approval_manager \<Rightarrow> approval_request \<times> approval_manager" where
  "request_approval p now a pid path sev reason m =
     (let rid = request_id (am_next_id m);
          r = \<lparr>ar_request_id = rid, ar_action = a, ar_target_pid = pid, ar_target_path = path,
               ar_severity = sev, ar_reason = reason, ar_status = Pending, ar_timestamp = now,
               ar_resolved_at = None, ar_approved_by = []\<rparr>;
          m = m\<lparr>am_next_id := am_next_id m + 1\<rparr>
      in if \<not> requires_approval p a
         then let r = r\<lparr>ar_status := AutoApproved, ar_resolved_at := Some now,
                        ar_approved_by := ''policy:auto_respond''\<rparr>
              in (r, m\<lparr>am_history := am_history m @ [r]\<rparr>)
         else (r, m\<lparr>am_pending := d_set rid r (am_pending m)\<rparr>))"

text \<open>\<open>approve\<close> and \<open>deny\<close> differ in the status they write.\<close>

definition resolve ::
    "approval_status \<Rightarrow> datetime \<Rightarrow> string \<Rightarrow> string \<Rightarrow> approval_manager
      \<Rightarrow> approval_request option \<times> approval_manager" where
  "resolve st now rid who m = (case d_get (am_pending m) rid of
     None \<Rightarrow> (None, m)
   | Some r \<Rightarrow>
       let r = r\<lparr>ar_status := st, ar_resolved_at := Some now, ar_approved_by := who\<rparr>
       in (Some r, m\<lparr>am_pending := d_pop rid (am_pending m), am_history := am_history m @ [r]\<rparr>))"

definition approve ::
    "datetime \<Rightarrow> string \<Rightarrow> string \<Rightarrow> approval_manager \<Rightarrow> approval_request option \<times> approval_manager" where
  "approve now rid who m = resolve Approved now rid who m"

definition deny ::
    "datetime \<Rightarrow> string \<Rightarrow> string \<Rightarrow> approval_manager \<Rightarrow> approval_request option \<times> approval_manager" where
  "deny now rid who m = resolve Denied now rid who m"

definition pending_requests :: "approval_manager \<Rightarrow> approval_request list" where
  "pending_requests m = map snd (am_pending m)"

definition is_approved :: "approval_manager \<Rightarrow> string \<Rightarrow> bool" where
  "is_approved m rid = (case find (\<lambda>r. ar_request_id r = rid) (am_history m) of
     None \<Rightarrow> False | Some r \<Rightarrow> ar_status r = Approved \<or> ar_status r = AutoApproved)"

section \<open>The queue as a state machine\<close>

datatype approval_op =
    Request datetime response_action "int option" "string option" string string
  | Approve datetime string string
  | Deny datetime string string

fun approval_step :: "policy \<Rightarrow> approval_op \<Rightarrow> approval_manager \<Rightarrow> approval_manager" where
  "approval_step p (Request now a pid path sev why) m = snd (request_approval p now a pid path sev why m)"
| "approval_step p (Approve now rid who) m = snd (approve now rid who m)"
| "approval_step p (Deny now rid who) m = snd (deny now rid who m)"

inductive reach :: "policy \<Rightarrow> approval_manager \<Rightarrow> bool" for p where
  reach_new: "reach p new_manager"
| reach_step: "reach p m \<Longrightarrow> reach p (approval_step p op m)"

inductive_cases reach_cases [elim]: "reach p m"

text \<open>Every request has an id of its own, and is either pending or resolved.\<close>

definition ids_below :: "int \<Rightarrow> string list \<Rightarrow> bool" where
  "ids_below n ids \<longleftrightarrow> (\<forall>i \<in> set ids. \<exists>k. 0 < k \<and> k < n \<and> i = request_id k)"

definition manager_inv :: "policy \<Rightarrow> approval_manager \<Rightarrow> bool" where
  "manager_inv p m \<longleftrightarrow> 0 < am_next_id m
     \<and> distinct (map fst (am_pending m) @ map ar_request_id (am_history m))
     \<and> ids_below (am_next_id m) (map fst (am_pending m) @ map ar_request_id (am_history m))
     \<and> (\<forall>(i, r) \<in> set (am_pending m). ar_request_id r = i \<and> ar_status r = Pending
           \<and> requires_approval p (ar_action r))
     \<and> (\<forall>r \<in> set (am_history m). ar_status r \<noteq> Pending
           \<and> (ar_status r = AutoApproved \<longrightarrow> \<not> requires_approval p (ar_action r)))"

lemma request_id_inj: "0 \<le> m \<Longrightarrow> 0 \<le> n \<Longrightarrow> request_id m = request_id n \<longleftrightarrow> m = n"
  by (simp add: request_id_def int_str_nonneg_inj)

lemma fresh_id: "0 < n \<Longrightarrow> ids_below n ids \<Longrightarrow> request_id n \<notin> set ids"
  by (auto simp: ids_below_def request_id_inj)

lemma ids_below_mono: "ids_below n ids \<Longrightarrow> ids_below (n + 1) ids"
  by (fastforce simp: ids_below_def)

lemma d_pop_keys: "map fst (d_pop k d) = filter (\<lambda>j. j \<noteq> k) (map fst d)"
  by (induction d) (auto simp: d_pop_def)

lemma manager_inv_new: "manager_inv p new_manager"
  by (simp add: manager_inv_def new_manager_def ids_below_def)

lemma manager_inv_request:
  assumes inv: "manager_inv p m" and r: "request_approval p now a pid path sev why m = (r, m')"
  shows "manager_inv p m'"
proof -
  let ?n = "am_next_id m"
  have n: "0 < ?n" using inv by (simp add: manager_inv_def)
  have below: "ids_below ?n (map fst (am_pending m) @ map ar_request_id (am_history m))"
    using inv by (simp add: manager_inv_def)
  from fresh_id [OF n below] have fresh: "request_id ?n \<notin> fst ` set (am_pending m)"
    "request_id ?n \<notin> ar_request_id ` set (am_history m)" by auto
  have below': "ids_below (?n + 1) (request_id ?n # map fst (am_pending m) @ map ar_request_id (am_history m))"
    using ids_below_mono [OF below] n by (auto simp: ids_below_def)
  show ?thesis
  proof (cases "requires_approval p a")
    case True
    with r have "am_pending m' = am_pending m @ [(request_id ?n, r)]" "am_history m' = am_history m"
      "am_next_id m' = ?n + 1" "ar_request_id r = request_id ?n" "ar_status r = Pending" "ar_action r = a"
      by (auto simp: request_approval_def Let_def d_set_fresh [OF fresh(1)])
    with inv True fresh below' show ?thesis by (auto simp: manager_inv_def ids_below_def)
  next
    case False
    with r have "am_pending m' = am_pending m" "am_history m' = am_history m @ [r]"
      "am_next_id m' = ?n + 1" "ar_request_id r = request_id ?n" "ar_status r = AutoApproved" "ar_action r = a"
      by (auto simp: request_approval_def Let_def)
    with inv False fresh below' show ?thesis by (auto simp: manager_inv_def ids_below_def)
  qed
qed

lemma manager_inv_resolve:
  assumes inv: "manager_inv p m" and st: "st = Approved \<or> st = Denied"
    and r: "resolve st now rid who m = (q, m')"
  shows "manager_inv p m'"
proof (cases "d_get (am_pending m) rid")
  case None
  with r inv show ?thesis by (simp add: resolve_def)
next
  case (Some r0)
  from d_get_in [OF Some] have in0: "(rid, r0) \<in> set (am_pending m)" .
  with inv have id0: "ar_request_id r0 = rid" by (auto simp: manager_inv_def)
  obtain r1 where m': "am_pending m' = d_pop rid (am_pending m)" "am_history m' = am_history m @ [r1]"
    "am_next_id m' = am_next_id m" "ar_request_id r1 = rid" "ar_status r1 = st"
    using r Some id0 by (auto simp: resolve_def Let_def)
  have dist: "distinct (map fst (am_pending m) @ map ar_request_id (am_history m))"
    and below: "ids_below (am_next_id m) (map fst (am_pending m) @ map ar_request_id (am_history m))"
    and rest: "\<forall>(i, r) \<in> set (am_pending m). ar_request_id r = i \<and> ar_status r = Pending
        \<and> requires_approval p (ar_action r)" "0 < am_next_id m"
      "\<forall>r \<in> set (am_history m). ar_status r \<noteq> Pending
        \<and> (ar_status r = AutoApproved \<longrightarrow> \<not> requires_approval p (ar_action r))"
    using inv by (simp_all add: manager_inv_def)
  have rin: "rid \<in> fst ` set (am_pending m)" using in0 by force
  have "distinct (map fst (am_pending m') @ map ar_request_id (am_history m'))"
    using dist rin unfolding m' d_pop_keys by (auto simp: m'(4))
  moreover have "ids_below (am_next_id m') (map fst (am_pending m') @ map ar_request_id (am_history m'))"
    using below rin unfolding m' d_pop_keys by (auto simp: ids_below_def m'(4))
  moreover have "set (am_pending m') \<subseteq> set (am_pending m)" by (auto simp: m' d_pop_def)
  ultimately show ?thesis using rest st m' unfolding manager_inv_def by auto
qed

lemma manager_inv_step: "manager_inv p m \<Longrightarrow> manager_inv p (approval_step p op m)"
  by (cases op) (auto simp: approve_def deny_def intro: manager_inv_request manager_inv_resolve prod.collapse [symmetric])

lemma reach_inv: "reach p m \<Longrightarrow> manager_inv p m"
  by (induction rule: reach.induct) (auto intro: manager_inv_new manager_inv_step)

text \<open>A decision is final.\<close>

lemma history_grows: "\<exists>hs. am_history (approval_step p op m) = am_history m @ hs"
  by (cases op) (auto simp: request_approval_def approve_def deny_def resolve_def Let_def split: option.splits)

lemma is_approved_step: "is_approved m rid \<Longrightarrow> is_approved (approval_step p op m) rid"
proof -
  assume a: "is_approved m rid"
  obtain hs where "am_history (approval_step p op m) = am_history m @ hs" using history_grows by blast
  moreover have "find P (xs @ ys) = (case find P xs of None \<Rightarrow> find P ys | Some x \<Rightarrow> Some x)"
    for P :: "approval_request \<Rightarrow> bool" and xs ys by (induction xs) auto
  ultimately show ?thesis using a by (auto simp: is_approved_def split: option.splits)
qed

section \<open>Properties\<close>

text \<open>In every reachable state of the approval queue ids are unique, a request is pending or
  resolved but not both, and only actions that need no approval were approved
  automatically.\<close>

theorem approval_invariant:
  assumes "reach p m"
  shows "manager_inv p m"
  by (rule reach_inv [OF assms])

theorem approval_invariant_witness:
  "manager_inv (mk_policy False False None)
     (approval_step (mk_policy False False None) (Request 5 SuspendProcess (Some 7) None ''critical'' [])
       new_manager)"
  by (rule approval_invariant [OF reach_step [OF reach_new]])

text \<open>A pending request becomes approved only by \<open>approve\<close>, is then reported as approved, and
  stays so whatever happens next; a denied one never becomes approved.\<close>

theorem approval_final:
  assumes "reach p m" "d_get (am_pending m) rid = Some r"
  shows "\<not> is_approved m rid \<and> is_approved (snd (approve now rid who m)) rid
    \<and> \<not> is_approved (snd (deny now rid who m)) rid
    \<and> is_approved (approval_step p op (snd (approve now rid who m))) rid"
proof -
  have inv: "manager_inv p m" by (rule reach_inv [OF assms(1)])
  have rin: "rid \<in> fst ` set (am_pending m)" "ar_request_id r = rid"
    using d_get_in [OF assms(2)] inv by (force, auto simp: manager_inv_def)
  with inv have "rid \<notin> ar_request_id ` set (am_history m)" by (auto simp: manager_inv_def)
  then have none: "find (\<lambda>r. ar_request_id r = rid) (am_history m) = None"
    by (auto simp: find_None_iff)
  have app: "find P (xs @ [y]) = (if P y then Some y else None)" if "find P xs = None"
    for P :: "approval_request \<Rightarrow> bool" and xs y using that by (induction xs) (auto split: if_splits)
  have "is_approved (snd (approve now rid who m)) rid" "\<not> is_approved (snd (deny now rid who m)) rid"
    using assms(2) rin(2) by (simp_all add: is_approved_def approve_def deny_def resolve_def Let_def
        app [OF none])
  moreover have "\<not> is_approved m rid" by (simp add: is_approved_def none)
  ultimately show ?thesis using is_approved_step by blast
qed

theorem approval_final_witness:
  "\<not> is_approved (approval_step (mk_policy False False None) (Request 5 SuspendProcess (Some 7) None ''critical'' [])
       new_manager) ''approval-1''"
proof -
  let ?p = "mk_policy False False None"
  let ?m = "approval_step ?p (Request 5 SuspendProcess (Some 7) None ''critical'' []) new_manager"
  have "reach ?p ?m" by (rule reach_step [OF reach_new])
  moreover have "map_option ar_request_id (d_get (am_pending ?m) ''approval-1'') = Some ''approval-1''"
    by code_simp
  then obtain r where "d_get (am_pending ?m) ''approval-1'' = Some r" by auto
  ultimately show ?thesis using approval_final by blast
qed

end
