(* ===== verification/ProcessControl.thy ===== *)
theory ProcessControl
  imports PyStr
begin

text \<open>
  Suspending, resuming and terminating processes: \<open>agent/response/process_control.py\<close>.
  The operating system is an oracle with a trace: \<open>kill pid sig\<close> is what \<open>os.kill\<close> does,
  and the Windows calls are answered by a record of functions; the trace lists the calls
  that were made, in order.  A call of \<open>ctypes\<close> that raises is \<open>Inl\<close> of the text of the
  exception.
\<close>

section \<open>Outcomes\<close>

datatype pc_result = PcSuccess | PcProtected | PcNotFound | PcPermissionDenied | PcFailed

fun pc_value :: "pc_result \<Rightarrow> string" where
  "pc_value PcSuccess = ''success''"
| "pc_value PcProtected = ''protected''"
| "pc_value PcNotFound = ''not_found''"
| "pc_value PcPermissionDenied = ''permission_denied''"
| "pc_value PcFailed = ''failed''"

record pc_outcome =
  pc_result :: pc_result
  pc_pid :: int
  pc_action :: string
  pc_detail :: string

definition mk_pc :: "pc_result \<Rightarrow> int \<Rightarrow> string \<Rightarrow> string \<Rightarrow> pc_outcome" where
  "mk_pc r pid a d = \<lparr>pc_result = r, pc_pid = pid, pc_action = a, pc_detail = d\<rparr>"

section \<open>The system\<close>

datatype signal = SIGSTOP | SIGCONT | SIGKILL

datatype kill_result = KillOk | NoSuchProcess | NoPermission | KillError string

datatype sys_call =
    Kill int signal
  | OpenProcess int int
  | NtSuspend int
  | NtResume int
  | TerminateCall int
  | CloseHandle int

text \<open>\<open>w_open access pid\<close> is the handle (0 when it fails) and the last error.\<close>

record winapi =
  w_load :: "string option"
  w_open :: "int \<Rightarrow> int \<Rightarrow> int \<times> int"
  w_suspend :: "int \<Rightarrow> string + int"
  w_resume :: "int \<Rightarrow> string + int"
  w_terminate :: "int \<Rightarrow> string + bool \<times> int"

record system =
  s_windows :: bool
  s_kill :: "int \<Rightarrow> signal \<Rightarrow> kill_result"
  s_win :: winapi

section \<open>Unix\<close>

text \<open>The three Unix functions share their shape: the signal, the name of the action, its
  verb in the permission message, and the success message.\<close>

definition signal_unix ::
    "system \<Rightarrow> signal \<Rightarrow> string \<Rightarrow> string \<Rightarrow> int \<Rightarrow> pc_outcome \<times> sys_call list" where
  "signal_unix s sg act done pid =
     (case s_kill s pid sg of
        KillOk \<Rightarrow> (mk_pc PcSuccess pid act done, [Kill pid sg])
      | NoSuchProcess \<Rightarrow> (mk_pc PcNotFound pid act (''PID '' @ int_str pid @ '' does not exist''), [])
      | NoPermission \<Rightarrow> (mk_pc PcPermissionDenied pid act
          (''Insufficient permissions to '' @ act @ '' PID '' @ int_str pid), [])
      | KillError e \<Rightarrow> (mk_pc PcFailed pid act e, []))"

definition suspend_unix :: "system \<Rightarrow> int \<Rightarrow> pc_outcome \<times> sys_call list" where
  "suspend_unix s pid = signal_unix s SIGSTOP ''suspend'' ''SIGSTOP sent'' pid"

definition resume_unix :: "system \<Rightarrow> int \<Rightarrow> pc_outcome \<times> sys_call list" where
  "resume_unix s pid = signal_unix s SIGCONT ''resume'' ''SIGCONT sent'' pid"

definition terminate_unix :: "system \<Rightarrow> int \<Rightarrow> pc_outcome \<times> sys_call list" where
  "terminate_unix s pid = signal_unix s SIGKILL ''terminate'' ''SIGKILL sent'' pid"

section \<open>Windows\<close>

definition open_failed :: "int \<Rightarrow> int \<Rightarrow> string \<Rightarrow> pc_outcome" where
  "open_failed err pid act =
     (if err = 87 then mk_pc PcNotFound pid act (''PID '' @ int_str pid @ '' does not exist'')
      else mk_pc PcPermissionDenied pid act (''OpenProcess failed with error '' @ int_str err))"

definition nt_outcome :: "string \<Rightarrow> string \<Rightarrow> int \<Rightarrow> string + int \<Rightarrow> pc_outcome" where
  "nt_outcome fn act pid r = (case r of
     Inl e \<Rightarrow> mk_pc PcFailed pid act e
   | Inr st \<Rightarrow>
       if st = 0 then mk_pc PcSuccess pid act (fn @ '' succeeded'')
       else mk_pc PcFailed pid act (fn @ '' returned NTSTATUS 0x'' @ fmt_08X st))"

definition suspend_windows :: "system \<Rightarrow> int \<Rightarrow> pc_outcome \<times> sys_call list" where
  "suspend_windows s pid = (case w_load (s_win s) of
     Some e \<Rightarrow> (mk_pc PcFailed pid ''suspend'' e, [])
   | None \<Rightarrow>
       let (h, err) = w_open (s_win s) 2048 pid
       in if h = 0 then (open_failed err pid ''suspend'', [OpenProcess 2048 pid])
          else (nt_outcome ''NtSuspendProcess'' ''suspend'' pid (w_suspend (s_win s) h),
                [OpenProcess 2048 pid, NtSuspend h, CloseHandle h]))"

definition resume_windows :: "system \<Rightarrow> int \<Rightarrow> pc_outcome \<times> sys_call list" where
  "resume_windows s pid = (case w_load (s_win s) of
     Some e \<Rightarrow> (mk_pc PcFailed pid ''resume'' e, [])
   | None \<Rightarrow>
       let (h, err) = w_open (s_win s) 2048 pid
       in if h = 0 then (open_failed err pid ''resume'', [OpenProcess 2048 pid])
          else (nt_outcome ''NtResumeProcess'' ''resume'' pid (w_resume (s_win s) h),
                [OpenProcess 2048 pid, NtResume h, CloseHandle h]))"

definition terminate_windows :: "system \<Rightarrow> int \<Rightarrow> pc_outcome \<times> sys_call list" where
  "terminate_windows s pid = (case w_load (s_win s) of
     Some e \<Rightarrow> (mk_pc PcFailed pid ''terminate'' e, [])
   | None \<Rightarrow>
       let (h, err) = w_open (s_win s) 1 pid
       in if h = 0 then (open_failed err pid ''terminate'', [OpenProcess 1 pid])
          else ((case w_terminate (s_win s) h of
                   Inl e \<Rightarrow> mk_pc PcFailed pid ''terminate'' e
                 | Inr (ok, le) \<Rightarrow>
                     if ok then mk_pc PcSuccess pid ''terminate'' ''TerminateProcess succeeded''
                     else mk_pc PcFailed pid ''terminate''
                       (''TerminateProcess failed with error '' @ int_str le)),
                [OpenProcess 1 pid, TerminateCall h, CloseHandle h]))"

section \<open>Dispatch\<close>

definition suspend_process :: "system \<Rightarrow> int \<Rightarrow> pc_outcome \<times> sys_call list" where
  "suspend_process s pid = (if s_windows s then suspend_windows s pid else suspend_unix s pid)"

definition resume_process :: "system \<Rightarrow> int \<Rightarrow> pc_outcome \<times> sys_call list" where
  "resume_process s pid = (if s_windows s then resume_windows s pid else resume_unix s pid)"

definition terminate_process :: "system \<Rightarrow> int \<Rightarrow> pc_outcome \<times> sys_call list" where
  "terminate_process s pid = (if s_windows s then terminate_windows s pid else terminate_unix s pid)"

section \<open>The contract of an operation\<close>

text \<open>The calls an operation may make: at most one call that acts, on the given process, and
  every handle that was opened is closed.\<close>

definition handles_closed :: "sys_call list \<Rightarrow> bool" where
  "handles_closed cs \<longleftrightarrow> (\<forall>h. count_list cs (NtSuspend h) + count_list cs (NtResume h)
     + count_list cs (TerminateCall h) \<le> count_list cs (CloseHandle h))"

definition acts :: "sys_call \<Rightarrow> bool" where
  "acts c = (case c of OpenProcess a p \<Rightarrow> False | CloseHandle h \<Rightarrow> False | _ \<Rightarrow> True)"

locale process_op =
  fixes run :: "system \<Rightarrow> int \<Rightarrow> pc_outcome \<times> sys_call list"
    and act :: string
    and sg :: signal
  assumes names: "run s pid = (r, cs) \<Longrightarrow> pc_pid r = pid \<and> pc_action r = act"
    and success_acts: "run s pid = (r, cs) \<Longrightarrow> pc_result r = PcSuccess \<Longrightarrow> \<exists>c \<in> set cs. acts c"
    and unix_calls: "run s pid = (r, cs) \<Longrightarrow> \<not> s_windows s \<Longrightarrow>
        cs = (if pc_result r = PcSuccess then [Kill pid sg] else [])"
    and never_protected: "run s pid = (r, cs) \<Longrightarrow> pc_result r \<noteq> PcProtected"
    and closes: "run s pid = (r, cs) \<Longrightarrow> handles_closed cs"
    and one_act: "run s pid = (r, cs) \<Longrightarrow> length (filter acts cs) \<le> 1"
begin

lemma unix_success_iff:
  "run s pid = (r, cs) \<Longrightarrow> \<not> s_windows s \<Longrightarrow> pc_result r = PcSuccess \<longleftrightarrow> Kill pid sg \<in> set cs"
  using unix_calls by fastforce

end

lemma mk_pc_simps [simp]:
  "pc_result (mk_pc r p a d) = r" "pc_pid (mk_pc r p a d) = p" "pc_action (mk_pc r p a d) = a"
  by (simp_all add: mk_pc_def)

lemmas process_defs = suspend_process_def resume_process_def terminate_process_def
  suspend_unix_def resume_unix_def terminate_unix_def signal_unix_def
  suspend_windows_def resume_windows_def terminate_windows_def open_failed_def nt_outcome_def

interpretation suspend: process_op suspend_process "''suspend''" SIGSTOP
  by unfold_locales
    (auto simp: process_defs Let_def acts_def handles_closed_def
      split: if_splits kill_result.splits option.splits sum.splits prod.splits)

interpretation resume: process_op resume_process "''resume''" SIGCONT
  by unfold_locales
    (auto simp: process_defs Let_def acts_def handles_closed_def
      split: if_splits kill_result.splits option.splits sum.splits prod.splits)

interpretation kill: process_op terminate_process "''terminate''" SIGKILL
  by unfold_locales
    (auto simp: process_defs Let_def acts_def handles_closed_def
      split: if_splits kill_result.splits option.splits sum.splits prod.splits)

section \<open>Properties\<close>

text \<open>Suspending, resuming and terminating report success on Unix exactly when the signal was
  delivered to the given pid, make no other call, never report that a process is protected,
  and on Windows close every handle they opened.\<close>

theorem process_control_contract:
  assumes "(run, sg) \<in> {(suspend_process, SIGSTOP), (resume_process, SIGCONT), (terminate_process, SIGKILL)}"
    "run s pid = (r, cs)"
  shows "pc_pid r = pid \<and> pc_result r \<noteq> PcProtected \<and> handles_closed cs
    \<and> (\<not> s_windows s \<longrightarrow> cs = (if pc_result r = PcSuccess then [Kill pid sg] else []))"
  using assms suspend.names [of s pid r cs] suspend.unix_calls [of s pid r cs]
    suspend.never_protected [of s pid r cs] suspend.closes [of s pid r cs]
    resume.names [of s pid r cs] resume.unix_calls [of s pid r cs]
    resume.never_protected [of s pid r cs] resume.closes [of s pid r cs]
    kill.names [of s pid r cs] kill.unix_calls [of s pid r cs]
    kill.never_protected [of s pid r cs] kill.closes [of s pid r cs]
  by blast

definition sample_system :: system where
  "sample_system = \<lparr>s_windows = False, s_kill = (\<lambda>p s. KillOk),
     s_win = \<lparr>w_load = None, w_open = (\<lambda>a p. (0, 87)), w_suspend = (\<lambda>h. Inr 0), w_resume = (\<lambda>h. Inr 0),
       w_terminate = (\<lambda>h. Inr (True, 0))\<rparr>\<rparr>"

theorem process_control_contract_witness:
  "snd (suspend_process sample_system 42) = [Kill 42 SIGSTOP]"
proof -
  obtain r cs where r: "suspend_process sample_system 42 = (r, cs)" by force
  have "pc_result (fst (suspend_process sample_system 42)) = PcSuccess" by code_simp
  with process_control_contract [where run = suspend_process and sg = SIGSTOP, OF _ r] r show ?thesis
    by (simp add: sample_system_def)
qed

end
