(* ===== verification/NetworkControl.thy ===== *)
theory NetworkControl
  imports GraphTypes PyDict PyStr IpNet
begin

text \<open>
  Network isolation, connection blocks and panic mode: class \<open>NetworkIsolator\<close> of
  \<open>agent/response/network_control.py\<close>.  The commands go to an oracle: \<open>exec\<close> decides, from
  the commands that ran before and the new one, whether \<open>subprocess.run\<close> succeeds, raises
  \<open>PermissionError\<close>, or makes \<open>_run_command\<close> raise another exception (both with the text of
  the exception).  The state keeps the log of the commands that succeeded, so the theorems can say
  what was really done to the firewall.  The output of \<open>lsof\<close> is an argument.
\<close>

section \<open>Results and state\<close>

datatype nc_result = NcSuccess | NcNotFound | NcPermissionDenied | NcFailed | NcAlreadyIsolated
  | NcNotIsolated

fun nc_value :: "nc_result \<Rightarrow> string" where
  "nc_value NcSuccess = ''success''"
| "nc_value NcNotFound = ''not_found''"
| "nc_value NcPermissionDenied = ''permission_denied''"
| "nc_value NcFailed = ''failed''"
| "nc_value NcAlreadyIsolated = ''already_isolated''"
| "nc_value NcNotIsolated = ''not_isolated''"

record nc_outcome =
  nc_result :: nc_result
  nc_pid :: int
  nc_action :: string
  nc_rules :: "string list"
  nc_detail :: string

definition mk_nc :: "nc_result \<Rightarrow> int \<Rightarrow> string \<Rightarrow> string list \<Rightarrow> string \<Rightarrow> nc_outcome" where
  "mk_nc r pid a rs d =
     \<lparr>nc_result = r, nc_pid = pid, nc_action = a, nc_rules = rs, nc_detail = d\<rparr>"

datatype platform = Windows | Linux | MacOS

text \<open>A command: its words and what is written to its standard input.\<close>

type_synonym command = "string list \<times> string option"

datatype run_result = RunOk | RunDenied string | RunFailed string

record net_env =
  ne_platform :: platform
  ne_exec :: "command list \<Rightarrow> command \<Rightarrow> run_result"

record isolator =
  iso_isolated :: "(int, string list) dict"
  iso_blocked :: "(string \<times> int option, string) dict"
  iso_panic :: bool
  iso_log :: "command list"

definition new_isolator :: isolator where
  "new_isolator = \<lparr>iso_isolated = [], iso_blocked = [], iso_panic = False, iso_log = []\<rparr>"

definition is_isolated :: "isolator \<Rightarrow> int \<Rightarrow> bool" where
  "is_isolated s pid \<longleftrightarrow> d_get (iso_isolated s) pid \<noteq> None"

definition run_command :: "net_env \<Rightarrow> command \<Rightarrow> isolator \<Rightarrow> run_result \<times> isolator" where
  "run_command env c s = (case ne_exec env (iso_log s) c of
     RunOk \<Rightarrow> (RunOk, s\<lparr>iso_log := iso_log s @ [c]\<rparr>)
   | r \<Rightarrow> (r, s))"

text \<open>Commands one after the other until one does not succeed: how many ran, and why it
  stopped.\<close>

fun run_all :: "net_env \<Rightarrow> command list \<Rightarrow> isolator \<Rightarrow> nat \<times> run_result \<times> isolator" where
  "run_all env [] s = (0, RunOk, s)"
| "run_all env (c # cs) s = (case run_command env c s of
     (RunOk, s) \<Rightarrow> (let (n, r, s) = run_all env cs s in (n + 1, r, s))
   | (r, s) \<Rightarrow> (0, r, s))"

definition denied_or_failed ::
    "run_result \<Rightarrow> int \<Rightarrow> string \<Rightarrow> string \<Rightarrow> nc_outcome" where
  "denied_or_failed r pid a msg = (case r of
     RunFailed e \<Rightarrow> mk_nc NcFailed pid a [] e
   | _ \<Rightarrow> mk_nc NcPermissionDenied pid a [] msg)"

text \<open>The loops of the \<open>restore\<close> methods: every command is tried, the failures are
  collected.\<close>

definition error_text :: "run_result \<Rightarrow> string" where
  "error_text r = (case r of RunOk \<Rightarrow> [] | RunDenied e \<Rightarrow> e | RunFailed e \<Rightarrow> e)"

fun run_each :: "net_env \<Rightarrow> (string \<times> command) list \<Rightarrow> isolator \<Rightarrow> string list \<times> isolator" where
  "run_each env [] s = ([], s)"
| "run_each env ((msg, c) # cs) s =
     (let (r, s) = run_command env c s;
          (es, s) = run_each env cs s
      in (case r of RunOk \<Rightarrow> es | _ \<Rightarrow> (msg @ error_text r) # es, s))"

section \<open>Isolating a process\<close>

definition netsh_add :: "string \<Rightarrow> string \<Rightarrow> string \<Rightarrow> command" where
  "netsh_add name dir target =
     ([''netsh'', ''advfirewall'', ''firewall'', ''add'', ''rule'', ''name='' @ name, ''dir='' @ dir,
       ''action=block'', target], None)"

definition netsh_delete :: "string \<Rightarrow> command" where
  "netsh_delete name =
     ([''netsh'', ''advfirewall'', ''firewall'', ''delete'', ''rule'', ''name='' @ name], None)"

text \<open>An \<open>iptables\<close> command that appends (\<open>-A\<close>) or deletes (\<open>-D\<close>) the owner rule.\<close>

definition owner_rule :: "string \<Rightarrow> string \<Rightarrow> int \<Rightarrow> string \<Rightarrow> command" where
  "owner_rule op chain pid name =
     ([''iptables'', op, chain, ''-m'', ''owner'', ''--pid-owner'', int_str pid, ''-j'', ''DROP'',
       ''-m'', ''comment'', ''--comment'', name], None)"

definition pf_load :: "string \<Rightarrow> string \<Rightarrow> command" where
  "pf_load anchor rules = ([''pfctl'', ''-a'', anchor, ''-f'', ''-''], Some rules)"

definition pf_flush :: "string \<Rightarrow> command" where
  "pf_flush anchor = ([''pfctl'', ''-a'', anchor, ''-F'', ''all''], None)"

text \<open>\<open>_try_delete_netsh_rule\<close>: failures are swallowed.\<close>

definition try_delete_netsh_rule :: "net_env \<Rightarrow> string \<Rightarrow> isolator \<Rightarrow> isolator" where
  "try_delete_netsh_rule env name s = snd (run_command env (netsh_delete name) s)"

definition isolate_windows ::
    "net_env \<Rightarrow> int \<Rightarrow> string option \<Rightarrow> isolator \<Rightarrow> nc_outcome \<times> isolator" where
  "isolate_windows env pid exe s =
     (if exe = None \<or> exe = Some []
      then (mk_nc NcFailed pid ''isolate'' [] ''exe_path is required for Windows network isolation'', s)
      else
        let out = ''EDR-BLOCK-OUT-'' @ int_str pid;
            inn = ''EDR-BLOCK-IN-'' @ int_str pid;
            prog = ''program='' @ the exe;
            (n, r, s) = run_all env [netsh_add out ''out'' prog, netsh_add inn ''in'' prog] s
        in if r = RunOk
           then (mk_nc NcSuccess pid ''isolate'' [out, inn] [],
                 s\<lparr>iso_isolated := d_set pid [out, inn] (iso_isolated s)\<rparr>)
           else (denied_or_failed r pid ''isolate'' ''Administrator privileges required for netsh'',
                 fold (try_delete_netsh_rule env) (take n [out, inn]) s))"

definition isolate_linux :: "net_env \<Rightarrow> int \<Rightarrow> isolator \<Rightarrow> nc_outcome \<times> isolator" where
  "isolate_linux env pid s =
     (let out = ''EDR-OUT-'' @ int_str pid;
          inn = ''EDR-IN-'' @ int_str pid;
          (n, r, s) = run_all env [owner_rule ''-A'' ''OUTPUT'' pid out, owner_rule ''-A'' ''INPUT'' pid inn] s
      in if r = RunOk
         then (mk_nc NcSuccess pid ''isolate'' [out, inn] [],
               s\<lparr>iso_isolated := d_set pid [out, inn] (iso_isolated s)\<rparr>)
         else (denied_or_failed r pid ''isolate'' ''Root privileges required for iptables'', s))"

subsection \<open>Reading the output of lsof\<close>

text \<open>The remote end of a connection name: \<open>Inl\<close> is the \<open>IndexError\<close> or \<open>ValueError\<close> the code
  raises, \<open>Inr None\<close> a name without a remote end.\<close>

definition remote_endpoint :: "string \<Rightarrow> (string \<times> string) option res" where
  "remote_endpoint name =
     (if \<not> py_contains ''->'' name then Inr None
      else case py_words (after_last2 CHR ''-'' CHR ''>'' name name) of
        [] \<Rightarrow> Inl (RuntimeError ''list index out of range'')
      | remote # _ \<Rightarrow>
          if prefix ''['' remote then
            (if CHR '']'' \<notin> set remote then Inl (RuntimeError ''substring not found'')
             else let ip = drop 1 (before_first CHR '']'' remote);
                      rest = after_first CHR '']'' remote
                  in Inr (Some (ip, drop 1 rest)))
          else if CHR '':'' \<in> set remote
            then Inr (Some (before_last CHR '':'' remote, after_last CHR '':'' remote))
            else Inr (Some (butlast remote, remote)))"

definition keep_endpoint :: "string \<times> string \<Rightarrow> bool" where
  "keep_endpoint e \<longleftrightarrow> fst e \<noteq> [] \<and> snd e \<noteq> [] \<and> \<not> prefix ''127.'' (fst e) \<and> fst e \<noteq> ''::1''"

fun endpoints_of_lines :: "string list \<Rightarrow> (string \<times> string) list res" where
  "endpoints_of_lines [] = Inr []"
| "endpoints_of_lines (l # ls) =
     (let ws = py_words l in
      if length ws < 9 then endpoints_of_lines ls
      else bindR (remote_endpoint (ws ! 8)) (\<lambda>e. bindR (endpoints_of_lines ls) (\<lambda>es.
        Inr (case e of None \<Rightarrow> es | Some x \<Rightarrow> if keep_endpoint x then x # es else es))))"

definition pf_block_pair :: "string \<times> string \<Rightarrow> string list" where
  "pf_block_pair = (\<lambda>(ip, port).
     [''block drop quick proto { tcp udp } from any to '' @ ip @ '' port '' @ port,
      ''block drop quick proto { tcp udp } from '' @ ip @ '' port '' @ port @ '' to any''])"

definition exc_text :: "py_exc \<Rightarrow> string" where
  "exc_text x = (case x of RuntimeError m \<Rightarrow> m | ValueError m \<Rightarrow> m | KeyError m \<Rightarrow> m
     | AttributeError m \<Rightarrow> m | TypeError m \<Rightarrow> m | OSError m \<Rightarrow> m | ReError \<Rightarrow> [])"

text \<open>\<open>lsof\<close>: its standard output, or the exception when running it raises.\<close>

definition isolate_macos ::
    "net_env \<Rightarrow> (run_result + string) \<Rightarrow> int \<Rightarrow> isolator \<Rightarrow> nc_outcome \<times> isolator" where
  "isolate_macos env lsof pid s =
     (let anchor = ''edr_block_'' @ int_str pid in
      case lsof of
        Inl r \<Rightarrow> (denied_or_failed r pid ''isolate'' ''Root privileges required for pfctl'', s)
      | Inr out \<Rightarrow>
          (case endpoints_of_lines (drop 1 (split_lines out)) of
             Inl x \<Rightarrow> (mk_nc NcFailed pid ''isolate'' [] (exc_text x), s)
           | Inr [] \<Rightarrow>
               (mk_nc NcSuccess pid ''isolate'' [anchor]
                  ''No active remote connections found; anchor created empty'',
                s\<lparr>iso_isolated := d_set pid [anchor] (iso_isolated s)\<rparr>)
           | Inr es \<Rightarrow>
               let rules = join_with nl (concat (map pf_block_pair es)) @ nl;
                   (r, s) = run_command env (pf_load anchor rules) s
               in if r = RunOk
                  then (mk_nc NcSuccess pid ''isolate''
                          (anchor # map (\<lambda>(ip, port). ip @ '':'' @ port) es)
                          (''Blocked '' @ int_str (int (length es)) @ '' active connections''),
                        s\<lparr>iso_isolated := d_set pid [anchor] (iso_isolated s)\<rparr>)
                  else (denied_or_failed r pid ''isolate'' ''Root privileges required for pfctl'', s)))"

definition isolate ::
    "net_env \<Rightarrow> (run_result + string) \<Rightarrow> int \<Rightarrow> string option \<Rightarrow> isolator \<Rightarrow> nc_outcome \<times> isolator" where
  "isolate env lsof pid exe s =
     (if is_isolated s pid
      then (mk_nc NcAlreadyIsolated pid ''isolate'' [] (''PID '' @ int_str pid @ '' is already isolated''), s)
      else case ne_platform env of
        Windows \<Rightarrow> isolate_windows env pid exe s
      | Linux \<Rightarrow> isolate_linux env pid s
      | MacOS \<Rightarrow> isolate_macos env lsof pid s)"

section \<open>Restoring a process\<close>

text \<open>The shape the three methods share: try every command, forget the process, report.\<close>

definition restore_with ::
    "net_env \<Rightarrow> (string \<times> command) list \<Rightarrow> int \<Rightarrow> string list \<Rightarrow> isolator \<Rightarrow> nc_outcome \<times> isolator" where
  "restore_with env cs pid rules s =
     (let (errors, s) = run_each env cs s;
          s = s\<lparr>iso_isolated := d_pop pid (iso_isolated s)\<rparr>
      in if errors \<noteq> [] then (mk_nc NcFailed pid ''restore'' rules (join_with ''; '' errors), s)
         else (mk_nc NcSuccess pid ''restore'' rules [], s))"

definition delete_failed :: "string \<Rightarrow> string" where
  "delete_failed r = ''Failed to delete rule '' @ r @ '': ''"

definition restore_windows :: "net_env \<Rightarrow> int \<Rightarrow> string list \<Rightarrow> isolator \<Rightarrow> nc_outcome \<times> isolator" where
  "restore_windows env pid rules s =
     restore_with env (map (\<lambda>r. (delete_failed r, netsh_delete r)) rules) pid rules s"

definition restore_linux :: "net_env \<Rightarrow> int \<Rightarrow> string list \<Rightarrow> isolator \<Rightarrow> nc_outcome \<times> isolator" where
  "restore_linux env pid rules s =
     restore_with env (concat (map (\<lambda>r.
       if prefix ''EDR-OUT-'' r then [(delete_failed r, owner_rule ''-D'' ''OUTPUT'' pid r)]
       else if prefix ''EDR-IN-'' r then [(delete_failed r, owner_rule ''-D'' ''INPUT'' pid r)]
       else []) rules)) pid rules s"

definition restore_macos :: "net_env \<Rightarrow> int \<Rightarrow> string list \<Rightarrow> isolator \<Rightarrow> nc_outcome \<times> isolator" where
  "restore_macos env pid rules s =
     restore_with env (map (\<lambda>r. (''Failed to flush anchor '' @ r @ '': '', pf_flush r)) rules) pid rules s"

definition restore :: "net_env \<Rightarrow> int \<Rightarrow> isolator \<Rightarrow> nc_outcome \<times> isolator" where
  "restore env pid s = (case d_get (iso_isolated s) pid of
     None \<Rightarrow> (mk_nc NcNotIsolated pid ''restore'' [] (''PID '' @ int_str pid @ '' is not currently isolated''), s)
   | Some rules \<Rightarrow> (case ne_platform env of
         Windows \<Rightarrow> restore_windows env pid rules s
       | Linux \<Rightarrow> restore_linux env pid rules s
       | MacOS \<Rightarrow> restore_macos env pid rules s))"

text \<open>The commands of the three, for the proofs.\<close>

definition restore_commands :: "platform \<Rightarrow> int \<Rightarrow> string list \<Rightarrow> (string \<times> command) list" where
  "restore_commands pf pid rules = (case pf of
     Windows \<Rightarrow> map (\<lambda>r. (delete_failed r, netsh_delete r)) rules
   | Linux \<Rightarrow> concat (map (\<lambda>r.
       if prefix ''EDR-OUT-'' r then [(delete_failed r, owner_rule ''-D'' ''OUTPUT'' pid r)]
       else if prefix ''EDR-IN-'' r then [(delete_failed r, owner_rule ''-D'' ''INPUT'' pid r)]
       else []) rules)
   | MacOS \<Rightarrow> map (\<lambda>r. (''Failed to flush anchor '' @ r @ '': '', pf_flush r)) rules)"

lemma restore_unfold:
  "restore env pid s = (case d_get (iso_isolated s) pid of
     None \<Rightarrow> (mk_nc NcNotIsolated pid ''restore'' [] (''PID '' @ int_str pid @ '' is not currently isolated''), s)
   | Some rules \<Rightarrow> restore_with env (restore_commands (ne_platform env) pid rules) pid rules s)"
  by (simp add: restore_def restore_windows_def restore_linux_def restore_macos_def restore_commands_def
      split: option.splits platform.splits)

section \<open>Blocking a connection\<close>

definition port_or_all :: "int option \<Rightarrow> string" where
  "port_or_all p = (case p of None \<Rightarrow> ''all'' | Some n \<Rightarrow> if n = 0 then ''all'' else int_str n)"

definition has_port :: "int option \<Rightarrow> bool" where
  "has_port p \<longleftrightarrow> p \<noteq> None \<and> p \<noteq> Some 0"

definition target_str :: "string \<Rightarrow> int option \<Rightarrow> string" where
  "target_str ip p = (if has_port p then ip @ '':'' @ int_str (the p) else ip)"

definition conn_rule_name :: "platform \<Rightarrow> string \<Rightarrow> int option \<Rightarrow> string" where
  "conn_rule_name pf ip p = (case pf of
     Windows \<Rightarrow> ''EDR-BLOCK-CONN-'' @ ip @ ''-'' @ port_or_all p
   | Linux \<Rightarrow> ''EDR-CONN-'' @ ip @ ''-'' @ port_or_all p
   | MacOS \<Rightarrow> ''edr_block_conn_'' @ replace_char CHR ''.'' CHR ''_'' ip @ ''_'' @ port_or_all p)"

definition conn_iptables :: "string \<Rightarrow> string \<Rightarrow> int option \<Rightarrow> string \<Rightarrow> command" where
  "conn_iptables op ip p name =
     ([''iptables'', op, ''OUTPUT'', ''-d'', ip]
       @ (if has_port p then [''-p'', ''tcp'', ''--dport'', int_str (the p)] else [])
       @ [''-j'', ''DROP'', ''-m'', ''comment'', ''--comment'', name], None)"

definition conn_pf_rules :: "string \<Rightarrow> int option \<Rightarrow> string" where
  "conn_pf_rules ip p =
     (if has_port p
      then ''block drop quick proto { tcp udp } from any to '' @ ip @ '' port '' @ int_str (the p) @ nl
         @ ''block drop quick proto { tcp udp } from '' @ ip @ '' port '' @ int_str (the p) @ '' to any'' @ nl
      else ''block drop quick from any to '' @ ip @ nl
         @ ''block drop quick from '' @ ip @ '' to any'' @ nl)"

definition block_command :: "platform \<Rightarrow> string \<Rightarrow> int option \<Rightarrow> command" where
  "block_command pf ip p = (let name = conn_rule_name pf ip p in case pf of
     Windows \<Rightarrow> ([''netsh'', ''advfirewall'', ''firewall'', ''add'', ''rule'', ''name='' @ name, ''dir=out'',
         ''action=block'', ''remoteip='' @ ip]
         @ (if has_port p then [''remoteport='' @ int_str (the p), ''protocol=tcp''] else []), None)
   | Linux \<Rightarrow> conn_iptables ''-A'' ip p name
   | MacOS \<Rightarrow> pf_load name (conn_pf_rules ip p))"

definition unblock_command :: "platform \<Rightarrow> string \<Rightarrow> int option \<Rightarrow> string \<Rightarrow> command" where
  "unblock_command pf ip p name = (case pf of
     Windows \<Rightarrow> netsh_delete name
   | Linux \<Rightarrow> conn_iptables ''-D'' ip p name
   | MacOS \<Rightarrow> pf_flush name)"

definition block_connection ::
    "net_env \<Rightarrow> string \<Rightarrow> int option \<Rightarrow> isolator \<Rightarrow> nc_outcome \<times> isolator" where
  "block_connection env ip p s =
     (let act = ''block_connection'' in
      if ip_address ip = None then (mk_nc NcFailed 0 act [] (''Invalid IP address: '' @ py_repr ip), s)
      else if p \<noteq> None \<and> \<not> (1 \<le> the p \<and> the p \<le> 65535)
        then (mk_nc NcFailed 0 act [] (''Invalid port: '' @ int_str (the p)), s)
      else if d_get (iso_blocked s) (ip, p) \<noteq> None
        then (mk_nc NcAlreadyIsolated 0 act [] (''Already blocking '' @ target_str ip p), s)
      else
        let (r, s) = run_command env (block_command (ne_platform env) ip p) s;
            name = conn_rule_name (ne_platform env) ip p
        in if r = RunOk
           then (mk_nc NcSuccess 0 act [name] (''Blocked traffic to '' @ target_str ip p),
                 s\<lparr>iso_blocked := d_set (ip, p) name (iso_blocked s)\<rparr>)
           else (denied_or_failed r 0 act ''Root/admin privileges required'', s))"

definition unblock_connection ::
    "net_env \<Rightarrow> string \<Rightarrow> int option \<Rightarrow> isolator \<Rightarrow> nc_outcome \<times> isolator" where
  "unblock_connection env ip p s =
     (let act = ''unblock_connection'' in
      if ip_address ip = None then (mk_nc NcFailed 0 act [] (''Invalid IP address: '' @ py_repr ip), s)
      else case d_get (iso_blocked s) (ip, p) of
        None \<Rightarrow> (mk_nc NcNotIsolated 0 act [] (''No block found for '' @ target_str ip p), s)
      | Some name \<Rightarrow>
          let (r, s) = run_command env (unblock_command (ne_platform env) ip p name) s
          in if r = RunOk
             then (mk_nc NcSuccess 0 act [name] (''Unblocked traffic to '' @ target_str ip p),
                   s\<lparr>iso_blocked := d_pop (ip, p) (iso_blocked s)\<rparr>)
             else (mk_nc NcFailed 0 act [] (error_text r), s))"

section \<open>Panic mode\<close>

definition panic_iptables :: "string \<Rightarrow> string \<Rightarrow> string \<Rightarrow> command" where
  "panic_iptables op chain flag =
     ([''iptables'', op, chain, ''!'', flag, ''lo'', ''-j'', ''DROP'', ''-m'', ''comment'', ''--comment'',
       ''EDR-PANIC''], None)"

definition panic_commands :: "platform \<Rightarrow> command list" where
  "panic_commands pf = (case pf of
     Windows \<Rightarrow> [netsh_add ''EDR-PANIC-BLOCK'' ''out'' ''remoteip=0.0.0.0/0'',
                 netsh_add ''EDR-PANIC-BLOCK-IN'' ''in'' ''remoteip=0.0.0.0/0'']
   | Linux \<Rightarrow> [panic_iptables ''-A'' ''OUTPUT'' ''-o'', panic_iptables ''-A'' ''INPUT'' ''-i'']
   | MacOS \<Rightarrow> [pf_load ''edr_panic'' (''block drop quick on ! lo0 all'' @ nl)])"

definition panic_undo :: "platform \<Rightarrow> (string \<times> command) list" where
  "panic_undo pf = (case pf of
     Windows \<Rightarrow> [([], netsh_delete ''EDR-PANIC-BLOCK''), ([], netsh_delete ''EDR-PANIC-BLOCK-IN'')]
   | Linux \<Rightarrow> [([], panic_iptables ''-D'' ''OUTPUT'' ''-o''), ([], panic_iptables ''-D'' ''INPUT'' ''-i'')]
   | MacOS \<Rightarrow> [([], pf_flush ''edr_panic'')])"

definition panic_isolate :: "net_env \<Rightarrow> isolator \<Rightarrow> nc_outcome \<times> isolator" where
  "panic_isolate env s =
     (if iso_panic s
      then (mk_nc NcAlreadyIsolated 0 ''panic_isolate'' [] ''Panic mode is already active'', s)
      else let (n, r, s) = run_all env (panic_commands (ne_platform env)) s
           in if r = RunOk
              then (mk_nc NcSuccess 0 ''panic_isolate'' [''edr_panic'']
                      ''All network traffic blocked except loopback'', s\<lparr>iso_panic := True\<rparr>)
              else (denied_or_failed r 0 ''panic_isolate'' ''Root/admin privileges required'', s))"

definition panic_restore :: "net_env \<Rightarrow> isolator \<Rightarrow> nc_outcome \<times> isolator" where
  "panic_restore env s =
     (if \<not> iso_panic s
      then (mk_nc NcNotIsolated 0 ''panic_restore'' [] ''Panic mode is not active'', s)
      else let (errors, s) = run_each env (panic_undo (ne_platform env)) s;
               s = s\<lparr>iso_panic := False\<rparr>
           in if errors \<noteq> []
              then (mk_nc NcFailed 0 ''panic_restore'' [] (''Partial restore: '' @ join_with ''; '' errors), s)
              else (mk_nc NcSuccess 0 ''panic_restore'' [''edr_panic''] ''Network traffic restored'', s))"

section \<open>What ran\<close>

lemma run_command_log:
  "run_command env c s = (r, s') \<Longrightarrow>
     iso_log s' = (if r = RunOk then iso_log s @ [c] else iso_log s)
     \<and> iso_isolated s' = iso_isolated s \<and> iso_blocked s' = iso_blocked s \<and> iso_panic s' = iso_panic s"
  by (auto simp: run_command_def split: run_result.splits)

lemma run_all_log:
  "run_all env cs s = (n, r, s') \<Longrightarrow>
     n \<le> length cs \<and> iso_log s' = iso_log s @ take n cs \<and> (r = RunOk \<longrightarrow> n = length cs)
     \<and> iso_isolated s' = iso_isolated s \<and> iso_blocked s' = iso_blocked s \<and> iso_panic s' = iso_panic s"
proof (induction cs arbitrary: s n)
  case (Cons c cs)
  obtain r1 s1 where c: "run_command env c s = (r1, s1)" by force
  show ?case
  proof (cases "r1 = RunOk")
    case True
    with Cons.prems c obtain m where m: "run_all env cs s1 = (m, r, s')" "n = m + 1"
      by (auto split: prod.splits)
    with Cons.IH [OF m(1)] run_command_log [OF c] True show ?thesis by simp
  next
    case False
    with Cons.prems c have "n = 0" "s' = s1" "r = r1" by (auto split: run_result.splits)
    with run_command_log [OF c] False show ?thesis by simp
  qed
qed simp

lemma run_each_log:
  "run_each env cs s = (es, s') \<Longrightarrow>
     (\<exists>ran. subseq ran (map snd cs) \<and> iso_log s' = iso_log s @ ran \<and> (es = [] \<longrightarrow> ran = map snd cs))
     \<and> length es \<le> length cs
     \<and> iso_isolated s' = iso_isolated s \<and> iso_blocked s' = iso_blocked s \<and> iso_panic s' = iso_panic s"
proof (induction cs arbitrary: s es)
  case (Cons c cs)
  obtain msg cmd where mc: "c = (msg, cmd)" by (cases c)
  obtain r1 s1 where c: "run_command env cmd s = (r1, s1)" by force
  from Cons.prems mc c obtain es2 where e: "run_each env cs s1 = (es2, s')"
    "es = (case r1 of RunOk \<Rightarrow> es2 | _ \<Rightarrow> (msg @ error_text r1) # es2)"
    by (auto split: prod.splits)
  from Cons.IH [OF e(1)] obtain ran where ran: "subseq ran (map snd cs)" "iso_log s' = iso_log s1 @ ran"
    "es2 = [] \<longrightarrow> ran = map snd cs" by blast
  note rest = Cons.IH [OF e(1)] run_command_log [OF c]
  show ?case
  proof (cases "r1 = RunOk")
    case True
    with rest ran e mc show ?thesis by (intro conjI exI [of _ "cmd # ran"]) auto
  next
    case False
    with e(2) have "es = (msg @ error_text r1) # es2" by (auto split: run_result.splits)
    with rest ran False mc show ?thesis by (intro conjI exI [of _ ran]) auto
  qed
qed simp

section \<open>The tracked state tells what was run\<close>

datatype iso_op =
    Isolate int "string option" "run_result + string"
  | Restore int
  | Block string "int option"
  | Unblock string "int option"
  | PanicOn
  | PanicOff

fun iso_apply :: "net_env \<Rightarrow> iso_op \<Rightarrow> isolator \<Rightarrow> nc_outcome \<times> isolator" where
  "iso_apply env (Isolate pid exe lsof) s = isolate env lsof pid exe s"
| "iso_apply env (Restore pid) s = restore env pid s"
| "iso_apply env (Block ip p) s = block_connection env ip p s"
| "iso_apply env (Unblock ip p) s = unblock_connection env ip p s"
| "iso_apply env PanicOn s = panic_isolate env s"
| "iso_apply env PanicOff s = panic_restore env s"

inductive iso_reach :: "net_env \<Rightarrow> isolator \<Rightarrow> bool" for env where
  iso_start: "iso_reach env new_isolator"
| iso_next: "iso_reach env s \<Longrightarrow> iso_apply env op s = (r, s') \<Longrightarrow> iso_reach env s'"

text \<open>Every isolation, block and panic mode the isolator reports was put in place by commands
  that succeeded.\<close>

definition isolation_commands :: "platform \<Rightarrow> int \<Rightarrow> string list \<Rightarrow> command list \<Rightarrow> bool" where
  "isolation_commands pf pid rules log = (case pf of
     Windows \<Rightarrow> (\<exists>exe. \<forall>c \<in> {netsh_add (''EDR-BLOCK-OUT-'' @ int_str pid) ''out'' (''program='' @ exe),
                             netsh_add (''EDR-BLOCK-IN-'' @ int_str pid) ''in'' (''program='' @ exe)}. c \<in> set log)
   | Linux \<Rightarrow> {owner_rule ''-A'' ''OUTPUT'' pid (''EDR-OUT-'' @ int_str pid),
              owner_rule ''-A'' ''INPUT'' pid (''EDR-IN-'' @ int_str pid)} \<subseteq> set log
   | MacOS \<Rightarrow> rules = [''edr_block_'' @ int_str pid])"

definition iso_inv :: "net_env \<Rightarrow> isolator \<Rightarrow> bool" where
  "iso_inv env s \<longleftrightarrow>
     (\<forall>pid rules. d_get (iso_isolated s) pid = Some rules \<longrightarrow>
        isolation_commands (ne_platform env) pid rules (iso_log s))
     \<and> (\<forall>ip p name. d_get (iso_blocked s) (ip, p) = Some name \<longrightarrow>
          ip_address ip \<noteq> None \<and> name = conn_rule_name (ne_platform env) ip p
          \<and> block_command (ne_platform env) ip p \<in> set (iso_log s))
     \<and> (iso_panic s \<longrightarrow> set (panic_commands (ne_platform env)) \<subseteq> set (iso_log s))"

lemma isolation_commands_mono:
  "isolation_commands pf pid rules log \<Longrightarrow> set log \<subseteq> set log' \<Longrightarrow> isolation_commands pf pid rules log'"
  unfolding isolation_commands_def by (cases pf) (simp_all, blast+)

text \<open>Changes that keep the tracking and only let the log grow keep the invariant.\<close>

lemma iso_inv_grow:
  assumes "iso_inv env s" "set (iso_log s) \<subseteq> set (iso_log s')"
    "\<And>k v. d_get (iso_isolated s') k = Some v \<Longrightarrow> d_get (iso_isolated s) k = Some v
       \<or> isolation_commands (ne_platform env) k v (iso_log s')"
    "\<And>ip p v. d_get (iso_blocked s') (ip, p) = Some v \<Longrightarrow> d_get (iso_blocked s) (ip, p) = Some v
       \<or> (ip_address ip \<noteq> None \<and> v = conn_rule_name (ne_platform env) ip p
          \<and> block_command (ne_platform env) ip p \<in> set (iso_log s'))"
    "iso_panic s' \<Longrightarrow> iso_panic s \<or> set (panic_commands (ne_platform env)) \<subseteq> set (iso_log s')"
  shows "iso_inv env s'"
  unfolding iso_inv_def
proof (intro conjI allI impI)
  fix pid rules assume "d_get (iso_isolated s') pid = Some rules"
  with assms(3) show "isolation_commands (ne_platform env) pid rules (iso_log s')"
    using assms(1,2) isolation_commands_mono unfolding iso_inv_def by blast
next
  fix ip p name assume "d_get (iso_blocked s') (ip, p) = Some name"
  with assms(4) show "ip_address ip \<noteq> None" "name = conn_rule_name (ne_platform env) ip p"
    "block_command (ne_platform env) ip p \<in> set (iso_log s')"
    using assms(1,2) unfolding iso_inv_def by blast+
next
  assume "iso_panic s'"
  with assms(5) show "set (panic_commands (ne_platform env)) \<subseteq> set (iso_log s')"
    using assms(1,2) unfolding iso_inv_def by blast
qed

lemma fold_try_delete:
  "\<exists>ran. iso_log (fold (try_delete_netsh_rule env) ns s) = iso_log s @ ran
     \<and> iso_isolated (fold (try_delete_netsh_rule env) ns s) = iso_isolated s
     \<and> iso_blocked (fold (try_delete_netsh_rule env) ns s) = iso_blocked s
     \<and> iso_panic (fold (try_delete_netsh_rule env) ns s) = iso_panic s"
proof (induction ns arbitrary: s)
  case (Cons n ns)
  obtain r s1 where c: "run_command env (netsh_delete n) s = (r, s1)" by force
  from Cons [of s1] run_command_log [OF c] c show ?case
    by (auto simp: try_delete_netsh_rule_def)
qed simp

lemma isolate_inv:
  assumes inv: "iso_inv env s" and r: "isolate env lsof pid exe s = (r, s')"
  shows "iso_inv env s'"
proof (cases "is_isolated s pid")
  case True
  with r inv show ?thesis by (simp add: isolate_def)
next
  case False
  show ?thesis
  proof (cases "ne_platform env")
    case Windows
    with r False have w: "isolate_windows env pid exe s = (r, s')" by (simp add: isolate_def)
    show ?thesis
    proof (cases "exe = None \<or> exe = Some []")
      case True
      with w inv show ?thesis by (simp add: isolate_windows_def)
    next
      case exe: False
      let ?out = "''EDR-BLOCK-OUT-'' @ int_str pid" and ?in = "''EDR-BLOCK-IN-'' @ int_str pid"
      let ?cs = "[netsh_add ?out ''out'' (''program='' @ the exe), netsh_add ?in ''in'' (''program='' @ the exe)]"
      obtain n rr s1 where a: "run_all env ?cs s = (n, rr, s1)" by (metis prod.exhaust)
      note log = run_all_log [OF a]
      show ?thesis
      proof (cases "rr = RunOk")
        case True
        with w exe a have s': "s' = s1\<lparr>iso_isolated := d_set pid [?out, ?in] (iso_isolated s1)\<rparr>"
          by (auto simp: isolate_windows_def Let_def)
        have "isolation_commands Windows pid [?out, ?in] (iso_log s1)"
          using log True by (auto simp: isolation_commands_def)
        then show ?thesis
          using log s' Windows by (intro iso_inv_grow [OF inv]) (auto simp: dict_simps split: if_splits)
      next
        case fail: False
        with w exe a have s': "s' = fold (try_delete_netsh_rule env) (take n [?out, ?in]) s1"
          by (auto simp: isolate_windows_def Let_def)
        with fold_try_delete [of env "take n [?out, ?in]" s1] log show ?thesis
          by (intro iso_inv_grow [OF inv]) auto
      qed
    qed
  next
    case Linux
    with r False have w: "isolate_linux env pid s = (r, s')" by (simp add: isolate_def)
    let ?out = "''EDR-OUT-'' @ int_str pid" and ?in = "''EDR-IN-'' @ int_str pid"
    let ?cs = "[owner_rule ''-A'' ''OUTPUT'' pid ?out, owner_rule ''-A'' ''INPUT'' pid ?in]"
    obtain n rr s1 where a: "run_all env ?cs s = (n, rr, s1)" by (metis prod.exhaust)
    note log = run_all_log [OF a]
    show ?thesis
    proof (cases "rr = RunOk")
      case True
      with w a have s': "s' = s1\<lparr>iso_isolated := d_set pid [?out, ?in] (iso_isolated s1)\<rparr>"
        by (auto simp: isolate_linux_def Let_def)
      have "isolation_commands Linux pid [?out, ?in] (iso_log s1)"
        using log True by (auto simp: isolation_commands_def)
      then show ?thesis
        using log s' Linux by (intro iso_inv_grow [OF inv]) (auto simp: dict_simps split: if_splits)
    next
      case fail: False
      with w a have "s' = s1" by (auto simp: isolate_linux_def Let_def)
      with log show ?thesis by (intro iso_inv_grow [OF inv]) auto
    qed
  next
    case MacOS
    with r False have w: "isolate_macos env lsof pid s = (r, s')" by (simp add: isolate_def)
    have anchor: "isolation_commands MacOS pid [''edr_block_'' @ int_str pid] l" for l
      by (simp add: isolation_commands_def)
    have "set (iso_log s) \<subseteq> set (iso_log s') \<and> iso_blocked s' = iso_blocked s \<and> iso_panic s' = iso_panic s
        \<and> (iso_isolated s' = iso_isolated s
           \<or> iso_isolated s' = d_set pid [''edr_block_'' @ int_str pid] (iso_isolated s))"
      using w by (auto simp: isolate_macos_def Let_def dest!: run_command_log
          split: sum.splits list.splits prod.splits if_splits)
    with MacOS anchor show ?thesis
      by (intro iso_inv_grow [OF inv]) (auto simp: dict_simps split: if_splits)
  qed
qed

lemma iso_inv_step:
  assumes inv: "iso_inv env s" and r: "iso_apply env op s = (r, s')"
  shows "iso_inv env s'"
proof (cases op)
  case (Isolate pid exe lsof)
  with r isolate_inv [OF inv] show ?thesis by simp
next
  case (Restore pid)
  with r have rs: "restore env pid s = (r, s')" by simp
  show ?thesis
  proof (cases "d_get (iso_isolated s) pid")
    case None
    with rs inv show ?thesis by (simp add: restore_unfold)
  next
    case (Some rules)
    obtain es s1 where e: "run_each env (restore_commands (ne_platform env) pid rules) s = (es, s1)"
      by force
    with rs Some have "s' = s1\<lparr>iso_isolated := d_pop pid (iso_isolated s1)\<rparr>"
      by (auto simp: restore_unfold restore_with_def Let_def split: if_splits)
    with run_each_log [OF e] show ?thesis
      by (intro iso_inv_grow [OF inv]) (auto simp: dict_simps split: if_splits)
  qed
next
  case (Block ip p)
  with r have b: "block_connection env ip p s = (r, s')" by simp
  obtain rr s1 where c: "run_command env (block_command (ne_platform env) ip p) s = (rr, s1)" by force
  note log = run_command_log [OF c]
  from b c consider "s' = s" | "s' = s1" "rr \<noteq> RunOk"
    | "rr = RunOk" "ip_address ip \<noteq> None"
      "s' = s1\<lparr>iso_blocked := d_set (ip, p) (conn_rule_name (ne_platform env) ip p) (iso_blocked s1)\<rparr>"
    by (auto simp: block_connection_def Let_def split: if_splits)
  then show ?thesis
  proof cases
    case 1
    with inv show ?thesis by simp
  next
    case 2
    with log show ?thesis by (intro iso_inv_grow [OF inv]) auto
  next
    case 3
    with log show ?thesis by (intro iso_inv_grow [OF inv]) (auto simp: dict_simps split: if_splits)
  qed
next
  case (Unblock ip p)
  with r have u: "unblock_connection env ip p s = (r, s')" by simp
  have "set (iso_log s) \<subseteq> set (iso_log s') \<and> iso_isolated s' = iso_isolated s \<and> iso_panic s' = iso_panic s
      \<and> (iso_blocked s' = iso_blocked s \<or> iso_blocked s' = d_pop (ip, p) (iso_blocked s))"
    using u by (auto simp: unblock_connection_def Let_def dest!: run_command_log
        split: option.splits prod.splits if_splits)
  then show ?thesis by (intro iso_inv_grow [OF inv]) (auto simp: dict_simps split: if_splits)
next
  case PanicOn
  with r have p: "panic_isolate env s = (r, s')" by simp
  obtain n rr s1 where a: "run_all env (panic_commands (ne_platform env)) s = (n, rr, s1)"
    by (metis prod.exhaust)
  note log = run_all_log [OF a]
  from p a consider "s' = s" | "s' = s1" | "rr = RunOk" "s' = s1\<lparr>iso_panic := True\<rparr>"
    by (auto simp: panic_isolate_def Let_def split: if_splits)
  then show ?thesis
  proof cases
    case 1
    with inv show ?thesis by simp
  next
    case 2
    with log show ?thesis by (intro iso_inv_grow [OF inv]) auto
  next
    case 3
    with log show ?thesis by (intro iso_inv_grow [OF inv]) auto
  qed
next
  case PanicOff
  with r have p: "panic_restore env s = (r, s')" by simp
  obtain es s1 where e: "run_each env (panic_undo (ne_platform env)) s = (es, s1)" by force
  from p e consider "s' = s" | "s' = s1\<lparr>iso_panic := False\<rparr>"
    by (auto simp: panic_restore_def Let_def split: if_splits)
  then show ?thesis
  proof cases
    case 1
    with inv show ?thesis by simp
  next
    case 2
    with run_each_log [OF e] show ?thesis by (intro iso_inv_grow [OF inv]) auto
  qed
qed

lemma iso_inv_new: "iso_inv env new_isolator"
  by (simp add: iso_inv_def new_isolator_def)

lemma iso_reach_inv: "iso_reach env s \<Longrightarrow> iso_inv env s"
  by (induction rule: iso_reach.induct) (auto intro: iso_inv_new iso_inv_step)

section \<open>Properties\<close>

definition all_ok :: "platform \<Rightarrow> net_env" where
  "all_ok pf = \<lparr>ne_platform = pf, ne_exec = (\<lambda>log c. RunOk)\<rparr>"

text \<open>In every reachable state, each connection block the isolator reports has a valid address
  and its firewall command ran successfully; so did the commands of each isolation on
  Windows and Linux, and those of panic mode.\<close>

theorem isolator_tracks_firewall:
  assumes "iso_reach env s"
  shows "iso_inv env s"
  by (rule iso_reach_inv [OF assms])

theorem isolator_tracks_firewall_witness:
  "iso_inv (all_ok Linux) (snd (iso_apply (all_ok Linux) (Block ''10.0.0.1'' (Some 443)) new_isolator))"
  by (rule isolator_tracks_firewall [OF iso_next [OF iso_start prod.collapse [symmetric]]])

text \<open>Blocking a connection and unblocking it, when both commands run, restores the tracking
  and runs exactly the two commands; on Linux the second is the first with \<open>-D\<close> in place of
  \<open>-A\<close>.\<close>

theorem block_unblock_roundtrip:
  assumes "d_wf (iso_blocked s)" "block_connection env ip p s = (r1, s1)" "nc_result r1 = NcSuccess"
    "unblock_connection env ip p s1 = (r2, s2)" "nc_result r2 = NcSuccess"
  shows "iso_blocked s2 = iso_blocked s
    \<and> iso_log s2 = iso_log s @ [block_command (ne_platform env) ip p,
        unblock_command (ne_platform env) ip p (conn_rule_name (ne_platform env) ip p)]
    \<and> fst (unblock_command Linux ip p (conn_rule_name Linux ip p))
        = (fst (block_command Linux ip p))[1 := ''-D'']"
proof -
  let ?b = "block_command (ne_platform env) ip p" and ?name = "conn_rule_name (ne_platform env) ip p"
  obtain rr sa where a: "run_command env ?b s = (rr, sa)" by force
  have 1: "rr = RunOk" "d_get (iso_blocked s) (ip, p) = None"
    "s1 = sa\<lparr>iso_blocked := d_set (ip, p) ?name (iso_blocked sa)\<rparr>" "ip_address ip \<noteq> None"
    using assms(2,3) a
    by (auto simp: block_connection_def Let_def denied_or_failed_def mk_nc_def
        split: if_splits run_result.splits)
  obtain ru su where u: "run_command env (unblock_command (ne_platform env) ip p ?name) s1 = (ru, su)"
    by force
  have 2: "ru = RunOk" "s2 = su\<lparr>iso_blocked := d_pop (ip, p) (iso_blocked su)\<rparr>"
    using assms(4,5) u 1
    by (auto simp: unblock_connection_def Let_def mk_nc_def dict_simps split: if_splits)
  have pop: "d_pop k (d_set k v d) = d" if "d_get d k = None" for k and v :: string
      and d :: "(string \<times> int option, string) dict"
    using that by (induction d) (auto simp: d_pop_def d_set_def d_get_def split: if_splits)
  have "fst (unblock_command Linux ip p (conn_rule_name Linux ip p)) = (fst (block_command Linux ip p))[1 := ''-D'']"
    by (simp add: unblock_command_def block_command_def conn_iptables_def Let_def)
  then show ?thesis
    using run_command_log [OF a] run_command_log [OF u] 1 2 pop by simp
qed

theorem block_unblock_roundtrip_witness:
  "iso_blocked (snd (unblock_connection (all_ok Linux) ''10.0.0.1'' None
     (snd (block_connection (all_ok Linux) ''10.0.0.1'' None new_isolator)))) = []"
proof -
  let ?e = "all_ok Linux"
  let ?b = "block_connection ?e ''10.0.0.1'' None new_isolator"
  let ?u = "unblock_connection ?e ''10.0.0.1'' None (snd ?b)"
  have b: "nc_result (fst ?b) = NcSuccess" and u: "nc_result (fst ?u) = NcSuccess" by code_simp+
  have w: "d_wf (iso_blocked new_isolator)" by (simp add: new_isolator_def)
  from block_unblock_roundtrip [OF w prod.collapse [symmetric] b prod.collapse [symmetric] u]
  show ?thesis by (simp add: new_isolator_def)
qed

definition scoped_ip :: string where
  "scoped_ip = ''fe80::1%a'' @ nl @ ''pass quick all''"

text \<open>The validation of the address lets an IPv6 scope id through unchecked, and on macOS the
  address goes into the text of the packet-filter rules: an address with a line break adds a
  rule of its own.\<close>

theorem block_connection_injects_rule:
  "ip_address scoped_ip \<noteq> None
    \<and> (''pass quick all'' @ nl) \<in> set (split_lines (the (snd (block_command MacOS scoped_ip None))))
    \<and> iso_log (snd (block_connection (all_ok MacOS) scoped_ip None new_isolator))
        = [block_command MacOS scoped_ip None]"
  by code_simp

text \<open>On Linux a failed isolation is not rolled back: when the OUTPUT rule is accepted and the
  INPUT rule fails, the OUTPUT rule stays in force, the process is not reported as isolated,
  and \<open>restore\<close> does nothing.\<close>

theorem linux_isolation_leaks_rule:
  assumes "ne_platform env = Linux" "\<not> is_isolated s pid"
    "ne_exec env (iso_log s) (owner_rule ''-A'' ''OUTPUT'' pid (''EDR-OUT-'' @ int_str pid)) = RunOk"
    "ne_exec env (iso_log s @ [owner_rule ''-A'' ''OUTPUT'' pid (''EDR-OUT-'' @ int_str pid)])
       (owner_rule ''-A'' ''INPUT'' pid (''EDR-IN-'' @ int_str pid)) = RunFailed e"
    "isolate env lsof pid exe s = (r, s')"
  shows "nc_result r = NcFailed \<and> \<not> is_isolated s' pid
    \<and> iso_log s' = iso_log s @ [owner_rule ''-A'' ''OUTPUT'' pid (''EDR-OUT-'' @ int_str pid)]
    \<and> nc_result (fst (restore env pid s')) = NcNotIsolated \<and> snd (restore env pid s') = s'"
  using assms
  by (auto simp: isolate_def isolate_linux_def run_command_def denied_or_failed_def mk_nc_def
      restore_unfold is_isolated_def Let_def)

definition no_owner_input :: net_env where
  "no_owner_input = \<lparr>ne_platform = Linux,
     ne_exec = (\<lambda>log c. if ''INPUT'' \<in> set (fst c) then RunFailed ''Command iptables failed'' else RunOk)\<rparr>"

theorem linux_isolation_leaks_rule_witness:
  "iso_log (snd (isolate no_owner_input (Inr []) 42 None new_isolator))
     = [owner_rule ''-A'' ''OUTPUT'' 42 (''EDR-OUT-'' @ int_str 42)]"
proof -
  have 1: "ne_platform no_owner_input = Linux" by (simp add: no_owner_input_def)
  have 2: "\<not> is_isolated new_isolator 42" by (simp add: is_isolated_def new_isolator_def)
  have 3: "ne_exec no_owner_input (iso_log new_isolator)
      (owner_rule ''-A'' ''OUTPUT'' 42 (''EDR-OUT-'' @ int_str 42)) = RunOk" by code_simp
  have 4: "ne_exec no_owner_input (iso_log new_isolator @ [owner_rule ''-A'' ''OUTPUT'' 42 (''EDR-OUT-'' @ int_str 42)])
      (owner_rule ''-A'' ''INPUT'' 42 (''EDR-IN-'' @ int_str 42)) = RunFailed ''Command iptables failed''"
    by code_simp
  from linux_isolation_leaks_rule [OF 1 2 3 4 prod.collapse [symmetric]]
  show ?thesis by (simp add: new_isolator_def)
qed

text \<open>On Windows the same failure is rolled back: the delete command of the rule that was added
  is run.\<close>

theorem windows_isolation_rolls_back:
  assumes "ne_platform env = Windows" "\<not> is_isolated s pid" "exe \<noteq> []"
    "ne_exec env (iso_log s) (netsh_add (''EDR-BLOCK-OUT-'' @ int_str pid) ''out'' (''program='' @ exe)) = RunOk"
    "ne_exec env (iso_log s @ [netsh_add (''EDR-BLOCK-OUT-'' @ int_str pid) ''out'' (''program='' @ exe)])
       (netsh_add (''EDR-BLOCK-IN-'' @ int_str pid) ''in'' (''program='' @ exe)) = RunFailed e"
    "\<forall>log. ne_exec env log (netsh_delete (''EDR-BLOCK-OUT-'' @ int_str pid)) = RunOk"
    "isolate env lsof pid (Some exe) s = (r, s')"
  shows "nc_result r = NcFailed \<and> \<not> is_isolated s' pid
    \<and> iso_log s' = iso_log s @ [netsh_add (''EDR-BLOCK-OUT-'' @ int_str pid) ''out'' (''program='' @ exe),
        netsh_delete (''EDR-BLOCK-OUT-'' @ int_str pid)]"
  using assms
  by (auto simp: isolate_def isolate_windows_def run_command_def denied_or_failed_def mk_nc_def
      is_isolated_def try_delete_netsh_rule_def Let_def)

definition no_inbound :: net_env where
  "no_inbound = \<lparr>ne_platform = Windows,
     ne_exec = (\<lambda>log c. if ''dir=in'' \<in> set (fst c) then RunFailed ''Command netsh failed'' else RunOk)\<rparr>"

theorem windows_isolation_rolls_back_witness:
  "length (iso_log (snd (isolate no_inbound (Inr []) 42 (Some ''C:x.exe'') new_isolator))) = 2"
proof -
  have 1: "ne_platform no_inbound = Windows" by (simp add: no_inbound_def)
  have 2: "\<not> is_isolated new_isolator 42" by (simp add: is_isolated_def new_isolator_def)
  have 3: "ne_exec no_inbound (iso_log new_isolator)
      (netsh_add (''EDR-BLOCK-OUT-'' @ int_str 42) ''out'' (''program='' @ ''C:x.exe'')) = RunOk" by code_simp
  have 4: "ne_exec no_inbound (iso_log new_isolator
        @ [netsh_add (''EDR-BLOCK-OUT-'' @ int_str 42) ''out'' (''program='' @ ''C:x.exe'')])
      (netsh_add (''EDR-BLOCK-IN-'' @ int_str 42) ''in'' (''program='' @ ''C:x.exe''))
      = RunFailed ''Command netsh failed''" by code_simp
  have 5: "\<forall>log. ne_exec no_inbound log (netsh_delete (''EDR-BLOCK-OUT-'' @ int_str 42)) = RunOk"
    by (simp add: no_inbound_def netsh_delete_def)
  have 6: "''C:x.exe'' \<noteq> []" by simp
  from windows_isolation_rolls_back [OF 1 2 6 3 4 5 prod.collapse [symmetric]]
  show ?thesis by (simp add: new_isolator_def)
qed

end
