(* ===== verification/FileQuarantine.thy ===== *)
theory FileQuarantine
  imports GraphTypes PyDict PyStr
begin

text \<open>
  File quarantine: class \<open>FileQuarantine\<close> of \<open>agent/response/file_quarantine.py\<close>.  The file
  system is a dictionary of regular files with content and permission bits; \<open>shutil.move\<close> is
  a rename that replaces the target, \<open>chmod\<close> keeps the low twelve bits of its argument, and
  \<open>st_mode\<close> adds the bit of a regular file.  Each step may raise: \<open>fe_io\<close> says, per
  operation and path, whether it succeeds.  SHA-256 and the JSON text of the sidecar are
  parameters.  Paths are already normalised, so \<open>str(Path(p)) = p\<close>.
\<close>

section \<open>State\<close>

datatype q_result = QSuccess | QNotFound | QPermissionDenied | QFailed | QAlreadyQuarantined
  | QNotQuarantined

fun q_value :: "q_result \<Rightarrow> string" where
  "q_value QSuccess = ''success''"
| "q_value QNotFound = ''not_found''"
| "q_value QPermissionDenied = ''permission_denied''"
| "q_value QFailed = ''failed''"
| "q_value QAlreadyQuarantined = ''already_quarantined''"
| "q_value QNotQuarantined = ''not_quarantined''"

record q_outcome =
  qo_result :: q_result
  qo_file_path :: string
  qo_action :: string
  qo_quarantine_path :: string
  qo_sha256 :: string
  qo_detail :: string

definition mk_q :: "q_result \<Rightarrow> string \<Rightarrow> string \<Rightarrow> string \<Rightarrow> q_outcome" where
  "mk_q r p a d = \<lparr>qo_result = r, qo_file_path = p, qo_action = a, qo_quarantine_path = [],
     qo_sha256 = [], qo_detail = d\<rparr>"

record q_record =
  qr_original_path :: string
  qr_quarantine_path :: string
  qr_sha256 :: string
  qr_timestamp :: int
  qr_permissions :: int

record file_data =
  f_content :: string
  f_perm :: int

type_synonym file_system = "(string, file_data) dict"

datatype io_op = IoRead string | IoStat string | IoMkdir string | IoMove string string
  | IoChmod string | IoWrite string | IoUnlink string

datatype io_outcome = IoOk | IoPermission | IoError string

record fs_env =
  fe_io :: "io_op \<Rightarrow> io_outcome"
  fe_sha256 :: "string \<Rightarrow> string"
  fe_json :: "q_record \<Rightarrow> string"
  fe_dir :: string

record quarantine_state =
  qs_records :: "(string, q_record) dict"
  qs_fs :: file_system

definition is_quarantined :: "quarantine_state \<Rightarrow> string \<Rightarrow> bool" where
  "is_quarantined s p \<longleftrightarrow> d_get (qs_records s) p \<noteq> None"

section \<open>File system steps\<close>

definition fs_exists :: "file_system \<Rightarrow> string \<Rightarrow> bool" where
  "fs_exists fs p \<longleftrightarrow> d_get fs p \<noteq> None"

definition fs_move :: "string \<Rightarrow> string \<Rightarrow> file_system \<Rightarrow> file_system" where
  "fs_move src dst fs = (case d_get fs src of
     None \<Rightarrow> fs | Some f \<Rightarrow> if src = dst then fs else d_set dst f (d_pop src fs))"

definition fs_chmod :: "string \<Rightarrow> int \<Rightarrow> file_system \<Rightarrow> file_system" where
  "fs_chmod p m fs = (case d_get fs p of
     None \<Rightarrow> fs | Some f \<Rightarrow> d_set p (f\<lparr>f_perm := m mod 4096\<rparr>) fs)"

text \<open>A new file gets the permissions \<open>0o644\<close> of the usual umask.\<close>

definition fs_write :: "string \<Rightarrow> string \<Rightarrow> file_system \<Rightarrow> file_system" where
  "fs_write p t fs = (case d_get fs p of
     None \<Rightarrow> d_set p \<lparr>f_content = t, f_perm = 420\<rparr> fs | Some f \<Rightarrow> d_set p (f\<lparr>f_content := t\<rparr>) fs)"

definition st_mode :: "file_data \<Rightarrow> int" where
  "st_mode f = 32768 + f_perm f"

definition path_name :: "string \<Rightarrow> string" where
  "path_name p = after_last CHR ''/'' p"

definition quarantine_path :: "string \<Rightarrow> int \<Rightarrow> string \<Rightarrow> string" where
  "quarantine_path qdir ts p =
     qdir @ ''/'' @ int_str ts @ ''_'' @ replace_char CHR ''/'' CHR ''_'' (path_name p) @ ''.quarantined''"

text \<open>\<open>with_suffix(".quarantined.meta")\<close> on a name that ends in \<open>.quarantined\<close>.\<close>

definition meta_path :: "string \<Rightarrow> string" where
  "meta_path q = q @ ''.meta''"

text \<open>What a step that raises makes of the operation.\<close>

definition io_fail :: "io_outcome \<Rightarrow> string \<Rightarrow> string \<Rightarrow> string \<Rightarrow> q_outcome" where
  "io_fail o' p act msg = (case o' of
     IoError e \<Rightarrow> mk_q QFailed p act e | _ \<Rightarrow> mk_q QPermissionDenied p act msg)"

section \<open>Quarantine\<close>

definition quarantine :: "fs_env \<Rightarrow> int \<Rightarrow> string \<Rightarrow> quarantine_state \<Rightarrow> q_outcome \<times> quarantine_state" where
  "quarantine env ts p s =
     (let act = ''quarantine''; io = fe_io env;
          fail = (\<lambda>o' s. (io_fail o' p act (''Insufficient permissions to quarantine '' @ p), s))
      in if is_quarantined s p then (mk_q QAlreadyQuarantined p act (p @ '' is already quarantined''), s)
         else case d_get (qs_fs s) p of
           None \<Rightarrow> (mk_q QNotFound p act (p @ '' does not exist''), s)
         | Some f \<Rightarrow>
             if io (IoRead p) \<noteq> IoOk then fail (io (IoRead p)) s
             else if io (IoStat p) \<noteq> IoOk then fail (io (IoStat p)) s
             else if io (IoMkdir (fe_dir env)) \<noteq> IoOk then fail (io (IoMkdir (fe_dir env))) s
             else let sha = fe_sha256 env (f_content f);
                      q = quarantine_path (fe_dir env) ts p
                  in if io (IoMove p q) \<noteq> IoOk then fail (io (IoMove p q)) s
                     else let s = s\<lparr>qs_fs := fs_move p q (qs_fs s)\<rparr>
                          in if io (IoChmod q) \<noteq> IoOk then fail (io (IoChmod q)) s
                             else let r = \<lparr>qr_original_path = p, qr_quarantine_path = q, qr_sha256 = sha,
                                           qr_timestamp = ts, qr_permissions = st_mode f\<rparr>;
                                      s = s\<lparr>qs_fs := fs_chmod q 288 (qs_fs s),
                                            qs_records := d_set p r (qs_records s)\<rparr>
                                  in if io (IoWrite (meta_path q)) \<noteq> IoOk
                                     then fail (io (IoWrite (meta_path q))) s
                                     else ((mk_q QSuccess p act [])\<lparr>qo_quarantine_path := q, qo_sha256 := sha\<rparr>,
                                           s\<lparr>qs_fs := fs_write (meta_path q) (fe_json env r) (qs_fs s)\<rparr>))"

section \<open>Restore\<close>

definition parent_dir :: "string \<Rightarrow> string" where
  "parent_dir p = before_last CHR ''/'' p"

definition restore_file :: "fs_env \<Rightarrow> string \<Rightarrow> quarantine_state \<Rightarrow> q_outcome \<times> quarantine_state" where
  "restore_file env p s =
     (let act = ''restore''; io = fe_io env;
          fail = (\<lambda>o' s. (io_fail o' p act (''Insufficient permissions to restore '' @ p), s))
      in case d_get (qs_records s) p of
           None \<Rightarrow> (mk_q QNotQuarantined p act (p @ '' is not quarantined''), s)
         | Some r \<Rightarrow>
             let q = qr_quarantine_path r; orig = qr_original_path r
             in if \<not> fs_exists (qs_fs s) q
                then (mk_q QNotFound p act (''Quarantined file '' @ q @ '' no longer exists''),
                      s\<lparr>qs_records := d_pop p (qs_records s)\<rparr>)
                else if io (IoMkdir (parent_dir orig)) \<noteq> IoOk then fail (io (IoMkdir (parent_dir orig))) s
                else if io (IoMove q orig) \<noteq> IoOk then fail (io (IoMove q orig)) s
                else let s = s\<lparr>qs_fs := fs_move q orig (qs_fs s)\<rparr>
                     in if io (IoChmod orig) \<noteq> IoOk then fail (io (IoChmod orig)) s
                        else let s = s\<lparr>qs_fs := fs_chmod orig (qr_permissions r) (qs_fs s)\<rparr>
                             in if fs_exists (qs_fs s) (meta_path q) \<and> io (IoUnlink (meta_path q)) \<noteq> IoOk
                                then fail (io (IoUnlink (meta_path q))) s
                                else ((mk_q QSuccess p act [])\<lparr>qo_quarantine_path := q, qo_sha256 := qr_sha256 r\<rparr>,
                                      s\<lparr>qs_fs := d_pop (meta_path q) (qs_fs s),
                                        qs_records := d_pop p (qs_records s)\<rparr>))"

section \<open>Facts\<close>

lemma fs_get_move [dict_simps]:
  "src \<noteq> dst \<Longrightarrow> d_get fs src = Some f \<Longrightarrow>
     d_get (fs_move src dst fs) x = (if x = dst then Some f else if x = src then None else d_get fs x)"
  by (simp add: fs_move_def dict_simps)

lemma fs_get_chmod [dict_simps]:
  "d_get (fs_chmod p m fs) x =
     (if x = p then map_option (\<lambda>f. f\<lparr>f_perm := m mod 4096\<rparr>) (d_get fs p) else d_get fs x)"
  by (auto simp: fs_chmod_def dict_simps split: option.splits)

lemma fs_get_write [dict_simps]:
  "d_get (fs_write p t fs) x = (if x = p then Some (case d_get fs p of
       None \<Rightarrow> \<lparr>f_content = t, f_perm = 420\<rparr> | Some f \<Rightarrow> f\<lparr>f_content := t\<rparr>) else d_get fs x)"
  by (auto simp: fs_write_def dict_simps split: option.splits)

lemma meta_path_neq [simp]: "meta_path q \<noteq> q" "q \<noteq> meta_path q"
  by (simp_all add: meta_path_def)

text \<open>What a successful quarantine leaves.\<close>

lemma quarantine_success:
  assumes "quarantine env ts p s = (r, s')" "qo_result r = QSuccess"
    "p \<noteq> quarantine_path (fe_dir env) ts p" "meta_path (quarantine_path (fe_dir env) ts p) \<noteq> p"
  shows "\<exists>f. d_get (qs_fs s) p = Some f \<and> \<not> is_quarantined s p
    \<and> qs_records s' = d_set p \<lparr>qr_original_path = p, qr_quarantine_path = quarantine_path (fe_dir env) ts p,
        qr_sha256 = fe_sha256 env (f_content f), qr_timestamp = ts, qr_permissions = st_mode f\<rparr> (qs_records s)
    \<and> d_get (qs_fs s') p = None
    \<and> d_get (qs_fs s') (quarantine_path (fe_dir env) ts p) = Some (f\<lparr>f_perm := 288\<rparr>)
    \<and> (\<forall>x. x \<notin> {p, quarantine_path (fe_dir env) ts p, meta_path (quarantine_path (fe_dir env) ts p)}
         \<longrightarrow> d_get (qs_fs s') x = d_get (qs_fs s) x)"
  using assms
  by (auto simp: quarantine_def Let_def mk_q_def io_fail_def dict_simps
      split: if_splits option.splits io_outcome.splits)

section \<open>Properties\<close>

definition fs_fine :: "fs_env \<Rightarrow> bool" where
  "fs_fine env \<longleftrightarrow> fe_io env = (\<lambda>op. IoOk)"


definition fine_env :: fs_env where
  "fine_env = \<lparr>fe_io = (\<lambda>op. IoOk), fe_sha256 = (\<lambda>c. c), fe_json = (\<lambda>r. qr_original_path r), fe_dir = ''/q''\<rparr>"

definition sample_store :: quarantine_state where
  "sample_store = \<lparr>qs_records = [],
     qs_fs = [(''/a/x.sh'', \<lparr>f_content = ''A'', f_perm = 493\<rparr>), (''/b/x.sh'', \<lparr>f_content = ''B'', f_perm = 420\<rparr>)]\<rparr>"


text \<open>The quarantine name holds the second and the base name only: two files with the same base
  name quarantined within a second get the same name, the second replaces the first, and
  restoring the first file brings back the content of the second.\<close>

theorem quarantine_name_collision:
  "let s1 = snd (quarantine fine_env 9 ''/a/x.sh'' sample_store);
       s2 = snd (quarantine fine_env 9 ''/b/x.sh'' s1);
       s3 = snd (restore_file fine_env ''/a/x.sh'' s2)
   in is_quarantined s2 ''/a/x.sh'' \<and> is_quarantined s2 ''/b/x.sh''
      \<and> map_option f_content (d_get (qs_fs s3) ''/a/x.sh'') = Some ''B''
      \<and> qo_result (fst (restore_file fine_env ''/b/x.sh'' s3)) = QNotFound"
  by code_simp

text \<open>If the permission change after the move is refused, the file is gone from its place and
  nothing records where it went, so it cannot be restored.\<close>

theorem quarantine_chmod_failure_loses_file:
  assumes "fe_io env = (\<lambda>op. case op of IoChmod q \<Rightarrow> IoPermission | _ \<Rightarrow> IoOk)"
    "d_get (qs_fs s) p = Some f" "d_get (qs_records s) p = None"
    "p \<noteq> quarantine_path (fe_dir env) ts p" "quarantine env ts p s = (r, s')"
  shows "qo_result r = QPermissionDenied \<and> d_get (qs_fs s') p = None \<and> \<not> is_quarantined s' p
    \<and> qo_result (fst (restore_file env p s')) = QNotQuarantined"
  using assms
  by (auto simp: quarantine_def restore_file_def Let_def is_quarantined_def io_fail_def mk_q_def
      fs_get_move)

theorem quarantine_chmod_failure_loses_file_witness:
  "let env = fine_env\<lparr>fe_io := (\<lambda>op. case op of IoChmod q \<Rightarrow> IoPermission | _ \<Rightarrow> IoOk)\<rparr>
   in d_get (qs_fs (snd (quarantine env 9 ''/a/x.sh'' sample_store))) ''/a/x.sh'' = None"
proof -
  let ?env = "fine_env\<lparr>fe_io := (\<lambda>op. case op of IoChmod q \<Rightarrow> IoPermission | _ \<Rightarrow> IoOk)\<rparr>"
  have e: "fe_io ?env = (\<lambda>op. case op of IoChmod q \<Rightarrow> IoPermission | _ \<Rightarrow> IoOk)" by simp
  have g: "d_get (qs_fs sample_store) ''/a/x.sh'' = Some \<lparr>f_content = ''A'', f_perm = 493\<rparr>" by code_simp
  have n: "d_get (qs_records sample_store) ''/a/x.sh'' = None" by code_simp
  have q: "''/a/x.sh'' \<noteq> quarantine_path (fe_dir ?env) 9 ''/a/x.sh''" by code_simp
  from quarantine_chmod_failure_loses_file [OF e g n q prod.collapse [symmetric]]
  show ?thesis by (simp add: Let_def)
qed

end
