(* ===== verification/DnsSinkhole.thy ===== *)
theory DnsSinkhole
  imports PyStr
begin

text \<open>
  The hosts-file sinkhole of \<open>agent/response/dns_sinkhole.py\<close>.  The hosts file is a string;
  whether it can be read, appended to and rewritten is part of the environment (\<open>None\<close>, or
  the text of the exception, \<open>PermissionError\<close> apart).  Flushing the DNS cache cannot fail
  the operation and is left out.  The arrow in one message is written \<open>->\<close>.
\<close>

section \<open>State\<close>

datatype io_error = IoDenied | IoFailed string

record hosts_env =
  he_read :: "io_error option"
  he_append :: "io_error option"
  he_write :: "io_error option"

record sinkhole_state =
  sk_hosts :: string
  sk_domains :: "string set"

record sinkhole_outcome =
  so_result :: string
  so_domain :: string
  so_detail :: string

definition mk_so :: "string \<Rightarrow> string \<Rightarrow> string \<Rightarrow> sinkhole_outcome" where
  "mk_so r d t = \<lparr>so_result = r, so_domain = d, so_detail = t\<rparr>"

definition MARKER :: string where
  "MARKER = ''# EDR-GRAPH-SINKHOLE''"

text \<open>\<open>_DOMAIN_RE\<close>: at least two labels of 1 to 63 letters, digits or hyphens, and no hyphen at
  the start.\<close>

definition label_char :: "char \<Rightarrow> bool" where
  "label_char c = (let n = (of_char c :: int) in
     (48 \<le> n \<and> n \<le> 57) \<or> (65 \<le> n \<and> n \<le> 90) \<or> (97 \<le> n \<and> n \<le> 122) \<or> n = 45)"

definition domain_label :: "string \<Rightarrow> bool" where
  "domain_label l \<longleftrightarrow> l \<noteq> [] \<and> length l \<le> 63 \<and> list_all label_char l"

definition valid_domain :: "string \<Rightarrow> bool" where
  "valid_domain d \<longleftrightarrow> \<not> prefix ''-'' d \<and> 2 \<le> length (split_on CHR ''.'' d)
     \<and> list_all domain_label (split_on CHR ''.'' d)"

section \<open>Operations\<close>

definition marked :: "string \<Rightarrow> bool" where
  "marked l \<longleftrightarrow> py_contains MARKER l"

definition line_domain :: "string \<Rightarrow> string set" where
  "line_domain l =
     (if \<not> marked l then {}
      else case py_words l of
        a # d # _ \<Rightarrow> if a = ''127.0.0.1'' then {py_lower d} else {}
      | _ \<Rightarrow> {})"

definition load_existing :: "hosts_env \<Rightarrow> string \<Rightarrow> sinkhole_state" where
  "load_existing env hosts =
     \<lparr>sk_hosts = hosts,
      sk_domains = (if he_read env = None then \<Union> (line_domain ` set (split_lines hosts)) else {})\<rparr>"

definition entry_line :: "string \<Rightarrow> string" where
  "entry_line d = ''127.0.0.1 '' @ d @ '' '' @ MARKER @ nl"

definition io_detail :: "io_error \<Rightarrow> string" where
  "io_detail e = (case e of IoDenied \<Rightarrow> ''Permission denied writing to /etc/hosts (requires root)''
     | IoFailed m \<Rightarrow> m)"

definition sinkhole :: "hosts_env \<Rightarrow> string \<Rightarrow> sinkhole_state \<Rightarrow> sinkhole_outcome \<times> sinkhole_state" where
  "sinkhole env dn s =
     (let d = py_lower (py_strip dn) in
      if d \<in> sk_domains s then (mk_so ''already_sinkholed'' d (d @ '' is already sinkholed''), s)
      else if \<not> valid_domain d then (mk_so ''failed'' d (''Invalid domain: '' @ d), s)
      else case he_append env of
        Some e \<Rightarrow> (mk_so ''failed'' d (io_detail e), s)
      | None \<Rightarrow> (mk_so ''success'' d (''Sinkholed '' @ d @ '' -> 127.0.0.1''),
          s\<lparr>sk_hosts := sk_hosts s @ entry_line d, sk_domains := insert d (sk_domains s)\<rparr>))"

definition restore_filter :: "string \<Rightarrow> string \<Rightarrow> bool" where
  "restore_filter d l \<longleftrightarrow> \<not> (marked l \<and> py_contains d (py_lower l))"

definition restore_domain :: "hosts_env \<Rightarrow> string \<Rightarrow> sinkhole_state \<Rightarrow> sinkhole_outcome \<times> sinkhole_state" where
  "restore_domain env dn s =
     (let d = py_lower (py_strip dn) in
      if d \<notin> sk_domains s then (mk_so ''not_sinkholed'' d (d @ '' is not currently sinkholed''), s)
      else case he_read env of
        Some e \<Rightarrow> (mk_so ''failed'' d (io_detail e), s)
      | None \<Rightarrow> (case he_write env of
            Some e \<Rightarrow> (mk_so ''failed'' d (io_detail e), s)
          | None \<Rightarrow> (mk_so ''success'' d (''Removed sinkhole for '' @ d),
              s\<lparr>sk_hosts := concat (filter (restore_filter d) (split_lines (sk_hosts s))),
                sk_domains := sk_domains s - {d}\<rparr>)))"

definition restore_all :: "hosts_env \<Rightarrow> sinkhole_state \<Rightarrow> nat \<times> sinkhole_state" where
  "restore_all env s =
     (if he_read env \<noteq> None then (0, s)
      else let ls = split_lines (sk_hosts s); kept = filter (\<lambda>l. \<not> marked l) ls;
               removed = length ls - length kept
           in if removed = 0 then (0, s\<lparr>sk_domains := {}\<rparr>)
              else if he_write env \<noteq> None then (0, s)
              else (removed, s\<lparr>sk_hosts := concat kept, sk_domains := {}\<rparr>))"

section \<open>Lines\<close>

lemma no_break_label: "label_char c \<Longrightarrow> \<not> line_break c"
  by (simp add: label_char_def line_break_def Let_def) presburger

lemma set_join_with: "set (join_with [sep] ps) \<subseteq> insert sep (\<Union> (set ` set ps))"
  by (induction "[sep]" ps rule: join_with.induct) auto

lemma split_on_chars: "set s \<subseteq> insert sep (\<Union> (set ` set (split_on sep s)))"
  using set_join_with [of sep "split_on sep s"] by (simp add: join_split)

lemma valid_domain_chars: "valid_domain d \<Longrightarrow> c \<in> set d \<Longrightarrow> label_char c \<or> c = CHR ''.''"
  using split_on_chars [of d "CHR ''.''"]
  by (auto simp: valid_domain_def domain_label_def list_all_iff)

lemma valid_domain_no_break: "valid_domain d \<Longrightarrow> list_all (\<lambda>c. \<not> line_break c) d"
proof -
  have "\<not> line_break CHR ''.''" by code_simp
  then show "valid_domain d \<Longrightarrow> list_all (\<lambda>c. \<not> line_break c) d"
    using valid_domain_chars no_break_label by (auto simp: list_all_iff)
qed

text \<open>An entry is one line of the file: a domain cannot smuggle in another.\<close>

lemma entry_line_full: "valid_domain d \<Longrightarrow> full_line (entry_line d)"
proof -
  assume v: "valid_domain d"
  have a: "list_all (\<lambda>c. \<not> line_break c) (''127.0.0.1 '')" "list_all (\<lambda>c. \<not> line_break c) ('' '' @ MARKER)"
    "line_break (last nl)" "butlast nl = []" "nl \<noteq> []"
    by (code_simp, code_simp, code_simp, code_simp, simp add: nl_def)
  have "butlast (entry_line d) = ''127.0.0.1 '' @ d @ '' '' @ MARKER"
    by (simp add: entry_line_def nl_def butlast_append)
  moreover have "last (entry_line d) = last nl" by (simp add: entry_line_def nl_def)
  ultimately show ?thesis
    using a valid_domain_no_break [OF v] by (simp add: full_line_def entry_line_def)
qed

lemma marked_entry: "marked (entry_line d)"
  unfolding marked_def py_contains_def entry_line_def sublist_def by (metis append.assoc)

lemma lower_entry: "py_lower d = d \<Longrightarrow> py_contains d (py_lower (entry_line d))"
  unfolding py_contains_def entry_line_def sublist_def by (metis py_lower_append)

lemma restore_drops_entry: "py_lower d = d \<Longrightarrow> \<not> restore_filter d (entry_line d)"
  by (simp add: restore_filter_def marked_entry lower_entry)

lemma py_strip_lower_idem: "py_lower (py_strip d) = d \<Longrightarrow> py_lower d = d"
  by (metis py_lower_idem)

section \<open>Properties\<close>

text \<open>Sinkholing a domain and restoring it gives back the hosts file and the set of domains,
  provided the file ends with a newline and no other sinkhole entry contains the domain as
  a substring.\<close>

theorem sinkhole_roundtrip:
  assumes "sk_hosts s = concat ls" "list_all full_line ls" "list_all (restore_filter d) ls"
    "py_lower (py_strip d) = d" "valid_domain d" "d \<notin> sk_domains s"
    "he_append env = None" "he_read env = None" "he_write env = None"
  shows "snd (restore_domain env d (snd (sinkhole env d s))) = s"
proof -
  let ?s = "snd (sinkhole env d s)"
  have s: "?s = s\<lparr>sk_hosts := concat ls @ entry_line d, sk_domains := insert d (sk_domains s)\<rparr>"
    using assms by (simp add: sinkhole_def Let_def)
  have lines: "split_lines (sk_hosts ?s) = ls @ [entry_line d]"
    using split_lines_concat [of "ls @ [entry_line d]"] assms(2) entry_line_full [OF assms(5)]
    by (simp add: s)
  have "filter (restore_filter d) (ls @ [entry_line d]) = ls"
    using assms(3) restore_drops_entry [OF py_strip_lower_idem [OF assms(4)]]
    by (simp add: list_all_iff filter_id_conv)
  then have "concat (filter (restore_filter d) (split_lines (sk_hosts ?s))) = sk_hosts s"
    by (simp add: lines assms(1))
  then show ?thesis using assms by (simp add: restore_domain_def s Let_def)
qed

definition ok_env :: hosts_env where
  "ok_env = \<lparr>he_read = None, he_append = None, he_write = None\<rparr>"

definition sample_hosts :: sinkhole_state where
  "sample_hosts = \<lparr>sk_hosts = ''127.0.0.1 localhost'' @ nl, sk_domains = {}\<rparr>"

theorem sinkhole_roundtrip_witness:
  "snd (restore_domain ok_env ''evil.com'' (snd (sinkhole ok_env ''evil.com'' sample_hosts))) = sample_hosts"
proof (rule sinkhole_roundtrip [where ls = "[''127.0.0.1 localhost'' @ nl]"])
  show "sk_hosts sample_hosts = concat [''127.0.0.1 localhost'' @ nl]" by code_simp
  show "list_all full_line [''127.0.0.1 localhost'' @ nl]" by code_simp
  show "list_all (restore_filter ''evil.com'') [''127.0.0.1 localhost'' @ nl]" by code_simp
  show "py_lower (py_strip ''evil.com'') = ''evil.com''" by code_simp
  show "valid_domain ''evil.com''" by code_simp
qed (simp_all add: sample_hosts_def ok_env_def)

text \<open>C37. Restoring matches by substring: with \<open>a.com\<close> and \<open>ba.com\<close> sinkholed, restoring \<open>a.com\<close>
  removes both entries, but \<open>ba.com\<close> stays in the set, so sinkholing it again is refused.\<close>

theorem restore_removes_other_domain:
  "let s = snd (restore_domain ok_env ''a.com'' (snd (sinkhole ok_env ''ba.com'' (snd (sinkhole ok_env ''a.com'' sample_hosts)))))
   in sk_hosts s = sk_hosts sample_hosts \<and> sk_domains s = {''ba.com''}
      \<and> so_result (fst (sinkhole ok_env ''ba.com'' s)) = ''already_sinkholed''"
  by code_simp

text \<open>The entry is appended without looking at the end of the file: if the last line has no
  newline the entry is glued to it, and restoring the domain deletes that line too.\<close>

theorem sinkhole_eats_last_line:
  "let s0 = \<lparr>sk_hosts = ''10.0.0.5 db'', sk_domains = {}\<rparr>; s1 = snd (sinkhole ok_env ''evil.com'' s0)
   in split_lines (sk_hosts s1) = [''10.0.0.5 db127.0.0.1 evil.com # EDR-GRAPH-SINKHOLE'' @ nl]
      \<and> sk_hosts (snd (restore_domain ok_env ''evil.com'' s1)) = []"
  by code_simp

text \<open>\<open>restore_all\<close> leaves exactly the lines without the marker and an empty set, and reports
  how many lines it removed.\<close>

theorem restore_all_correct:
  assumes "he_read env = None" "he_write env = None" "restore_all env s = (n, s')"
  shows "sk_hosts s' = concat (filter (\<lambda>l. \<not> marked l) (split_lines (sk_hosts s))) \<and> sk_domains s' = {}
    \<and> n = length (filter marked (split_lines (sk_hosts s)))"
proof -
  let ?ls = "split_lines (sk_hosts s)"
  have c: "length ?ls - length (filter (\<lambda>l. \<not> marked l) ?ls) = length (filter marked ?ls)"
    using length_filter_split [of marked ?ls] by simp
  show ?thesis
  proof (cases "filter marked ?ls = []")
    case True
    then have "filter (\<lambda>l. \<not> marked l) ?ls = ?ls"
      by (auto simp: filter_empty_conv filter_id_conv)
    with True c assms show ?thesis by (auto simp: restore_all_def Let_def)
  next
    case False
    then have "length (filter marked ?ls) \<noteq> 0" by simp
    with assms show ?thesis unfolding restore_all_def Let_def c by auto
  qed
qed

theorem restore_all_correct_witness:
  "fst (restore_all ok_env (snd (sinkhole ok_env ''evil.com'' sample_hosts))) = 1"
proof -
  let ?s = "snd (sinkhole ok_env ''evil.com'' sample_hosts)"
  have "length (filter marked (split_lines (sk_hosts ?s))) = 1" by code_simp
  moreover have "he_read ok_env = None" "he_write ok_env = None" by (simp_all add: ok_env_def)
  ultimately show ?thesis using restore_all_correct [OF _ _ prod.collapse [symmetric], of ok_env ?s] by simp
qed

end
