(* ===== verification/Engine.thy ===== *)
theory Engine
  imports Complex_Main Pipeline Policy ProcessControl NetworkControl FileQuarantine DnsSinkhole
begin

text \<open>
  The response engine of \<open>agent/response/engine.py\<close>, with its audit log, and the function
  \<open>_trigger_response\<close> of \<open>agent/main.py\<close> that calls it.  The engine's state holds the states
  of all the components it drives, and the trace of the process-control calls that were
  made.  Ids and times of records are functions of the number of records written so far.
\<close>

section \<open>Records, state and environment\<close>

record response_record =
  rr_id :: string
  rr_event_id :: "int option"
  rr_timestamp :: datetime
  rr_action :: response_action
  rr_target_pid :: "int option"
  rr_target_path :: "string option"
  rr_severity :: string
  rr_confidence :: real
  rr_approved_by :: string
  rr_approval_status :: string
  rr_result :: string
  rr_detail :: string
  rr_reverted :: bool
  rr_revert_timestamp :: "datetime option"

record engine =
  en_policy :: policy
  en_audit :: "response_record list"
  en_manager :: approval_manager
  en_isolator :: isolator
  en_quarantine :: quarantine_state
  en_baseline :: "baseline_row list option"
  en_allowlist :: "rule_store option"
  en_blocklist :: "rule_store option"
  en_mode :: string
  en_sinkhole :: "sinkhole_state option"
  en_calls :: "sys_call list"

record engine_env =
  ee_rx :: regex_engine
  ee_system :: system
  ee_net :: net_env
  ee_lsof :: "int \<Rightarrow> run_result + string"
  ee_fs :: fs_env
  ee_hosts :: hosts_env
  ee_uuid :: "nat \<Rightarrow> string"
  ee_now :: "nat \<Rightarrow> datetime"
  ee_sql_now :: "nat \<Rightarrow> datetime"

text \<open>The arguments of \<open>respond\<close>.\<close>

record request =
  rq_severity :: string
  rq_event_id :: "int option"
  rq_target_pid :: "int option"
  rq_target_path :: "string option"
  rq_process_name :: "string option"
  rq_confidence :: real
  rq_dst_ip :: string
  rq_domain :: string
  rq_title :: string
  rq_chain :: "chain_arg option"

definition str_or :: "string option \<Rightarrow> string" where
  "str_or x = (case x of None \<Rightarrow> [] | Some s \<Rightarrow> s)"

section \<open>Audit log\<close>

definition audit :: "response_record \<Rightarrow> engine \<Rightarrow> engine" where
  "audit r e = e\<lparr>en_audit := en_audit e @ [r]\<rparr>"

definition get_recent :: "engine \<Rightarrow> int \<Rightarrow> response_record list" where
  "get_recent e limit =
     (let rows = sort_key (\<lambda>r. - rr_timestamp r) (en_audit e)
      in if limit < 0 then rows else take (nat limit) rows)"

definition get_by_event :: "engine \<Rightarrow> int \<Rightarrow> response_record list" where
  "get_by_event e ev = sort_key rr_timestamp (filter (\<lambda>r. rr_event_id r = Some ev) (en_audit e))"

definition new_record :: "engine_env \<Rightarrow> response_action \<Rightarrow> request \<Rightarrow> engine \<Rightarrow> response_record" where
  "new_record env a q e =
     \<lparr>rr_id = ''resp-'' @ take 12 (ee_uuid env (length (en_audit e))), rr_event_id = rq_event_id q,
      rr_timestamp = ee_now env (length (en_audit e)), rr_action = a, rr_target_pid = rq_target_pid q,
      rr_target_path = rq_target_path q, rr_severity = rq_severity q, rr_confidence = rq_confidence q,
      rr_approved_by = [], rr_approval_status = ''auto'', rr_result = ''pending'', rr_detail = [],
      rr_reverted = False, rr_revert_timestamp = None\<rparr>"

section \<open>Executing an action\<close>

definition set_outcome :: "string \<Rightarrow> string \<Rightarrow> response_record \<Rightarrow> response_record" where
  "set_outcome r d rec = rec\<lparr>rr_result := r, rr_detail := d\<rparr>"

definition no_target :: "string \<Rightarrow> response_record \<Rightarrow> response_record" where
  "no_target msg rec = set_outcome ''failed'' msg rec"

fun do_execute ::
    "engine_env \<Rightarrow> response_action \<Rightarrow> request \<Rightarrow> response_record \<Rightarrow> engine \<Rightarrow> response_record \<times> engine" where
  "do_execute env SuspendProcess q rec e = (case rq_target_pid q of
     None \<Rightarrow> (no_target ''No target PID provided'' rec, e)
   | Some pid \<Rightarrow>
       let (r, cs) = suspend_process (ee_system env) pid
       in (set_outcome (pc_value (pc_result r)) (pc_detail r) rec, e\<lparr>en_calls := en_calls e @ cs\<rparr>))"
| "do_execute env TerminateProcess q rec e = (case rq_target_pid q of
     None \<Rightarrow> (no_target ''No target PID provided'' rec, e)
   | Some pid \<Rightarrow>
       let (r, cs) = terminate_process (ee_system env) pid
       in (set_outcome (pc_value (pc_result r)) (pc_detail r) rec, e\<lparr>en_calls := en_calls e @ cs\<rparr>))"
| "do_execute env IsolateNetwork q rec e = (case rq_target_pid q of
     None \<Rightarrow> (no_target ''No target PID provided'' rec, e)
   | Some pid \<Rightarrow>
       let (r, i) = isolate (ee_net env) (ee_lsof env pid) pid None (en_isolator e)
       in (set_outcome (nc_value (nc_result r)) (nc_detail r) rec, e\<lparr>en_isolator := i\<rparr>))"
| "do_execute env QuarantineFile q rec e = (case rq_target_path q of
     None \<Rightarrow> (no_target ''No target path provided'' rec, e)
   | Some p \<Rightarrow>
       let (r, s) = quarantine (ee_fs env) (ee_now env (length (en_audit e)) div 1000000) p (en_quarantine e)
       in (set_outcome (q_value (qo_result r)) (qo_detail r) rec, e\<lparr>en_quarantine := s\<rparr>))"
| "do_execute env BlockConnection q rec e =
     (if rq_dst_ip q = [] then (no_target ''No destination IP provided'' rec, e)
      else let (r, i) = block_connection (ee_net env) (rq_dst_ip q) None (en_isolator e)
           in (set_outcome (nc_value (nc_result r)) (nc_detail r) rec, e\<lparr>en_isolator := i\<rparr>))"
| "do_execute env DnsSinkholeAction q rec e = (case en_sinkhole e of
     None \<Rightarrow> (no_target ''DNS sinkhole not initialized'' rec, e)
   | Some s \<Rightarrow>
       if str_or (rq_target_path q) = [] then (no_target ''No domain provided'' rec, e)
       else let (r, s') = sinkhole (ee_hosts env) (str_or (rq_target_path q)) s
            in (set_outcome (so_result r) (so_detail r) rec, e\<lparr>en_sinkhole := Some s'\<rparr>))"
| "do_execute env PanicIsolate q rec e =
     (let (r, i) = panic_isolate (ee_net env) (en_isolator e)
      in (set_outcome (nc_value (nc_result r)) (nc_detail r) rec, e\<lparr>en_isolator := i\<rparr>))"
| "do_execute env a q rec e = (no_target (''Unknown action: '' @ action_value a) rec, e)"

definition process_action :: "response_action \<Rightarrow> bool" where
  "process_action a \<longleftrightarrow> a = SuspendProcess \<or> a = TerminateProcess"

definition execute_action ::
    "engine_env \<Rightarrow> request \<Rightarrow> response_action \<Rightarrow> engine \<Rightarrow> response_record \<times> engine" where
  "execute_action env q a e =
     (let rec = new_record env a q e in
      if a = LogOnly \<or> a = Alert then
        let rec = rec\<lparr>rr_result := ''success'', rr_approval_status := ''not_required''\<rparr> in (rec, audit rec e)
      else if process_action a \<and> str_or (rq_process_name q) \<noteq> []
              \<and> is_protected (en_policy e) (str_or (rq_process_name q)) then
        let rec = rec\<lparr>rr_result := ''blocked_protected'',
              rr_detail := ''Process '' @ [single_quote] @ str_or (rq_process_name q) @ [single_quote]
                @ '' is protected'', rr_approval_status := ''not_required''\<rparr>
        in (rec, audit rec e)
      else
        let (ap, m) = request_approval (en_policy e) (ee_now env (length (en_audit e))) a (rq_target_pid q)
              (rq_target_path q) (rq_severity q) [] (en_manager e);
            e = e\<lparr>en_manager := m\<rparr>
        in if ar_status ap = AutoApproved then
             let (rec, e) = do_execute env a q
                   (rec\<lparr>rr_approval_status := ''auto_approved'', rr_approved_by := ar_approved_by ap\<rparr>) e
             in (rec, audit rec e)
           else if ar_status ap = Approved then
             let (rec, e) = do_execute env a q
                   (rec\<lparr>rr_approval_status := ''approved'', rr_approved_by := ar_approved_by ap\<rparr>) e
             in (rec, audit rec e)
           else
             let rec = rec\<lparr>rr_result := ''awaiting_approval'', rr_approval_status := ''pending''\<rparr>
             in (rec, audit rec e))"

fun execute_all ::
    "engine_env \<Rightarrow> request \<Rightarrow> response_action list \<Rightarrow> engine \<Rightarrow> response_record list \<times> engine" where
  "execute_all env q [] e = ([], e)"
| "execute_all env q (a # as) e =
     (let (r, e) = execute_action env q a e; (rs, e) = execute_all env q as e in (r # rs, e))"

section \<open>Responding\<close>

definition log_only :: "engine_env \<Rightarrow> request \<Rightarrow> string \<Rightarrow> engine \<Rightarrow> response_record list \<times> engine" where
  "log_only env q detail e =
     (let r = (new_record env LogOnly q e)\<lparr>rr_result := ''success'', rr_approval_status := ''not_required'',
                rr_detail := detail\<rparr>
      in ([r], audit r e))"

definition learn_behavior :: "engine_env \<Rightarrow> request \<Rightarrow> engine \<Rightarrow> engine" where
  "learn_behavior env q e = (case en_baseline e of
     None \<Rightarrow> e
   | Some t \<Rightarrow>
       let p = str_or (rq_process_name q); now = ee_sql_now env (length (en_audit e));
           t1 = (if rq_dst_ip q \<noteq> [] then record_behavior now p ''network'' (rq_dst_ip q) t else t);
           t2 = (if rq_domain q \<noteq> [] then record_behavior now p ''dns'' (rq_domain q) t1 else t1);
           t3 = (if str_or (rq_target_path q) \<noteq> []
                 then record_behavior now p ''file'' (str_or (rq_target_path q)) t2 else t2)
       in if p = [] then e else e\<lparr>en_baseline := Some t3\<rparr>)"

definition request_attrs :: "request \<Rightarrow> attrs" where
  "request_attrs q = \<lparr>a_process_name = str_or (rq_process_name q), a_dst_ip = rq_dst_ip q,
     a_domain = rq_domain q, a_file_path = str_or (rq_target_path q), a_finding_title = rq_title q,
     a_chain = rq_chain q\<rparr>"

text \<open>Learning-mode details carry a long dash in the code.\<close>

definition blocked_by :: "engine_env \<Rightarrow> request \<Rightarrow> engine \<Rightarrow> (bool \<times> string) res" where
  "blocked_by env q e = (case en_blocklist e of
     None \<Rightarrow> Inr (False, []) | Some b \<Rightarrow> is_blocked (ee_rx env) b (request_attrs q))"

definition allowed_by :: "engine_env \<Rightarrow> request \<Rightarrow> engine \<Rightarrow> (bool \<times> string) res" where
  "allowed_by env q e = (case en_allowlist e of
     None \<Rightarrow> Inr (False, []) | Some b \<Rightarrow> is_allowed (ee_rx env) b (request_attrs q))"

definition or_str :: "string \<Rightarrow> string \<Rightarrow> string" where
  "or_str a b = (if a = [] then b else a)"

definition baselined_by :: "request \<Rightarrow> engine \<Rightarrow> bool" where
  "baselined_by q e = (case en_baseline e of
     None \<Rightarrow> False
   | Some t \<Rightarrow> str_or (rq_process_name q) \<noteq> [] \<and>
       is_baselined t (str_or (rq_process_name q))
         (if rq_dst_ip q \<noteq> [] then ''network'' else if rq_domain q \<noteq> [] then ''dns'' else ''file'')
         (or_str (rq_dst_ip q) (or_str (rq_domain q) (or_str (str_or (rq_target_path q)) ''unknown''))))"

definition take_actions :: "engine_env \<Rightarrow> request \<Rightarrow> engine \<Rightarrow> response_record list \<times> engine" where
  "take_actions env q e = execute_all env q (get_actions (rq_severity q)) e"

definition respond :: "engine_env \<Rightarrow> request \<Rightarrow> engine \<Rightarrow> (response_record list \<times> engine) res" where
  "respond env q e =
     (if en_mode e = ''learning''
      then Inr (log_only env q ''learning mode - behavior recorded'' (learn_behavior env q e))
      else if en_mode e = ''active'' then
        bindR (blocked_by env q e) (\<lambda>(blocked, _).
          if blocked then Inr (take_actions env q e)
          else bindR (allowed_by env q e) (\<lambda>(matched, desc).
            if matched then Inr (log_only env q (''allowlisted: '' @ desc) e)
            else if baselined_by q e then Inr (log_only env q ''baselined behavior'' e)
            else Inr (take_actions env q e)))
      else Inr (take_actions env q e))"

section \<open>Modes\<close>

definition VALID_MODES :: "string list" where
  "VALID_MODES = [''learning'', ''active'', ''passive'']"

definition mode_alias :: "string \<Rightarrow> string" where
  "mode_alias m = (if m = ''enforcing'' then ''active'' else m)"

definition set_mode :: "string \<Rightarrow> string \<Rightarrow> engine \<Rightarrow> engine res" where
  "set_mode modes_text m e =
     (let m = mode_alias m in
      if m \<notin> set VALID_MODES
      then Inl (ValueError (''Invalid mode: '' @ py_repr m @ ''. Must be one of '' @ modes_text))
      else Inr (e\<lparr>en_mode := m\<rparr>))"

definition new_engine ::
    "policy \<Rightarrow> quarantine_state \<Rightarrow> baseline_row list option \<Rightarrow> rule_store option \<Rightarrow> rule_store option \<Rightarrow> engine"
where
  "new_engine p qs b al bl = \<lparr>en_policy = p, en_audit = [], en_manager = new_manager,
     en_isolator = new_isolator, en_quarantine = qs, en_baseline = b, en_allowlist = al,
     en_blocklist = bl, en_mode = ''passive'', en_sinkhole = None, en_calls = []\<rparr>"

section \<open>Triggering a response\<close>

record target =
  tg_pid :: "int option"
  tg_name :: "string option"
  tg_path :: "string option"
  tg_ip :: string
  tg_domain :: string

definition no_target_info :: target where
  "no_target_info = \<lparr>tg_pid = None, tg_name = None, tg_path = None, tg_ip = [], tg_domain = []\<rparr>"

definition with_process :: "process_info option \<Rightarrow> target \<Rightarrow> target" where
  "with_process p t = (case p of None \<Rightarrow> t
     | Some p \<Rightarrow> t\<lparr>tg_pid := Some (pi_pid p), tg_name := Some (pi_name p)\<rparr>)"

text \<open>\<open>None\<close>: the event is not of a kind that ends the loop.\<close>

fun event_target :: "ocsf_event \<Rightarrow> target option" where
  "event_target (ProcessActivity a) = Some (with_process (Some (pa_process a)) no_target_info)"
| "event_target (NetworkActivity a) = Some (let t = with_process (na_process a) no_target_info in
     case na_dst_endpoint a of None \<Rightarrow> t | Some d \<Rightarrow> if ne_ip d \<noteq> [] then t\<lparr>tg_ip := ne_ip d\<rparr> else t)"
| "event_target (DnsActivity a) = Some (let t = with_process (da_process a) no_target_info in
     if da_query_domain a \<noteq> [] then t\<lparr>tg_domain := da_query_domain a\<rparr> else t)"
| "event_target (FileActivity a) =
     Some ((with_process (fa_process a) no_target_info)\<lparr>tg_path := Some (fa_file_path a)\<rparr>)"
| "event_target (RegistryActivity a) =
     Some ((with_process (ra_process a) no_target_info)\<lparr>tg_path := Some (ra_reg_path a)\<rparr>)"
| "event_target (Authentication a) = None"

fun find_target :: "int list \<Rightarrow> (int \<times> ocsf_event) list \<Rightarrow> target" where
  "find_target ids [] = no_target_info"
| "find_target ids ((i, ev) # evs) =
     (if i \<in> set ids \<or> ids = []
      then case event_target ev of Some t \<Rightarrow> t | None \<Rightarrow> find_target ids evs
      else find_target ids evs)"

text \<open>The chain: the one \<open>get_process_chain\<close> finds in the graph (\<open>None\<close> or empty when there is
  none, no graph, or the query raises), else the finding's own.\<close>

definition response_chain :: "(int \<Rightarrow> chain_step list option) \<Rightarrow> target \<Rightarrow> security_finding \<Rightarrow> chain_step list" where
  "response_chain graph t f =
     (case tg_pid t of
        Some pid \<Rightarrow> if pid > 0 then (case graph pid of Some (c # cs) \<Rightarrow> c # cs | _ \<Rightarrow> sf_chain f) else sf_chain f
      | None \<Rightarrow> sf_chain f)"

definition trigger_request :: "(int \<Rightarrow> chain_step list option) \<Rightarrow> security_finding \<Rightarrow> (int \<times> ocsf_event) list \<Rightarrow> request"
where
  "trigger_request graph f evs =
     (let t = find_target (sf_evidence_event_ids f) evs in
      \<lparr>rq_severity = sf_severity f,
       rq_event_id = (case sf_evidence_event_ids f of [] \<Rightarrow> None | i # _ \<Rightarrow> Some i),
       rq_target_pid = tg_pid t, rq_target_path = tg_path t, rq_process_name = tg_name t,
       rq_confidence = 0, rq_dst_ip = tg_ip t, rq_domain = tg_domain t, rq_title = sf_title f,
       rq_chain = Some (StepChain (response_chain graph t f))\<rparr>)"

definition trigger_response ::
    "engine_env \<Rightarrow> (int \<Rightarrow> chain_step list option) \<Rightarrow> security_finding \<Rightarrow> (int \<times> ocsf_event) list \<Rightarrow> engine
      \<Rightarrow> (response_record list \<times> engine) res" where
  "trigger_response env graph f evs e = respond env (trigger_request graph f evs) e"

section \<open>Facts about one action\<close>

text \<open>What an action may change in the world, and what no response changes.\<close>

definition effects :: "engine \<Rightarrow> sys_call list \<times> isolator \<times> quarantine_state \<times> sinkhole_state option" where
  "effects e = (en_calls e, en_isolator e, en_quarantine e, en_sinkhole e)"

definition settings :: "engine \<Rightarrow> policy \<times> rule_store option \<times> rule_store option \<times> string" where
  "settings e = (en_policy e, en_allowlist e, en_blocklist e, en_mode e)"

lemma audit_simps [simp]:
  "en_audit (audit r e) = en_audit e @ [r]" "effects (audit r e) = effects e"
  "settings (audit r e) = settings e" "en_calls (audit r e) = en_calls e"
  "en_manager (audit r e) = en_manager e" "en_baseline (audit r e) = en_baseline e"
  "en_policy (audit r e) = en_policy e" "en_isolator (audit r e) = en_isolator e"
  by (simp_all add: audit_def effects_def settings_def)

lemma manager_update_simps [simp]:
  "effects (e\<lparr>en_manager := m\<rparr>) = effects e" "settings (e\<lparr>en_manager := m\<rparr>) = settings e"
  by (simp_all add: effects_def settings_def)

lemma new_record_simps [simp]:
  "rr_action (new_record env a q e) = a" "rr_severity (new_record env a q e) = rq_severity q"
  "rr_event_id (new_record env a q e) = rq_event_id q"
  by (simp_all add: new_record_def)

lemma settings_unchanged [simp]:
  "settings (e\<lparr>en_calls := c\<rparr>) = settings e" "settings (e\<lparr>en_isolator := i\<rparr>) = settings e"
  "settings (e\<lparr>en_quarantine := s\<rparr>) = settings e" "settings (e\<lparr>en_sinkhole := k\<rparr>) = settings e"
  "settings (e\<lparr>en_baseline := b\<rparr>) = settings e"
  by (simp_all add: settings_def)

lemma outcome_action [simp]:
  "rr_action (set_outcome r d rec) = rr_action rec" "rr_action (no_target d rec) = rr_action rec"
  "rr_approval_status (set_outcome r d rec) = rr_approval_status rec"
  "rr_approval_status (no_target d rec) = rr_approval_status rec"
  by (simp_all add: set_outcome_def no_target_def)

lemma do_execute_frame:
  "do_execute env a q rec e = (r, e') \<Longrightarrow>
     rr_action r = rr_action rec \<and> rr_approval_status r = rr_approval_status rec
     \<and> en_audit e' = en_audit e \<and> settings e' = settings e \<and> en_manager e' = en_manager e
     \<and> en_baseline e' = en_baseline e"
  by (cases a) (auto simp: Let_def split: option.splits if_splits prod.splits)

lemma do_execute_calls:
  "do_execute env a q rec e = (r, e') \<Longrightarrow> \<not> process_action a \<Longrightarrow> en_calls e' = en_calls e"
  by (cases a) (auto simp: Let_def process_action_def split: option.splits if_splits prod.splits)

lemma request_status:
  "request_approval p now a pid path sev why m = (r, m') \<Longrightarrow>
     ar_status r = (if requires_approval p a then Pending else AutoApproved)"
  by (auto simp: request_approval_def Let_def)

text \<open>The approval request an action makes.\<close>

definition asked :: "engine_env \<Rightarrow> request \<Rightarrow> response_action \<Rightarrow> engine \<Rightarrow> approval_request \<times> approval_manager" where
  "asked env q a e = request_approval (en_policy e) (ee_now env (length (en_audit e))) a (rq_target_pid q)
     (rq_target_path q) (rq_severity q) [] (en_manager e)"

definition guarded :: "request \<Rightarrow> response_action \<Rightarrow> engine \<Rightarrow> bool" where
  "guarded q a e \<longleftrightarrow> process_action a \<and> str_or (rq_process_name q) \<noteq> []
     \<and> is_protected (en_policy e) (str_or (rq_process_name q))"

text \<open>The four ways an action ends.\<close>

lemma execute_action_cases:
  assumes "execute_action env q a e = (r, e')"
  obtains (logged) "a = LogOnly \<or> a = Alert" "e' = audit r e" "rr_action r = a" "rr_result r = ''success''"
  | (guarded) "guarded q a e" "e' = audit r e" "rr_action r = a" "rr_result r = ''blocked_protected''"
  | (waiting) "requires_approval (en_policy e) a" "\<not> guarded q a e" "rr_action r = a"
      "rr_result r = ''awaiting_approval''"
      "e' = audit r (e\<lparr>en_manager := snd (asked env q a e)\<rparr>)"
  | (ran) r0 e1 where "a \<noteq> LogOnly" "a \<noteq> Alert" "\<not> requires_approval (en_policy e) a" "\<not> guarded q a e"
      "rr_action r0 = a" "do_execute env a q r0 (e\<lparr>en_manager := snd (asked env q a e)\<rparr>) = (r, e1)"
      "rr_approval_status r0 = ''auto_approved''" "e' = audit r e1"
proof -
  obtain ap m where ap: "asked env q a e = (ap, m)" by fastforce
  from request_status [OF ap [unfolded asked_def]]
  have st: "ar_status ap = (if requires_approval (en_policy e) a then Pending else AutoApproved)" .
  let ?r = "new_record env a q e"
  consider "a = LogOnly \<or> a = Alert" | "a \<noteq> LogOnly" "a \<noteq> Alert" "guarded q a e"
    | "a \<noteq> LogOnly" "a \<noteq> Alert" "\<not> guarded q a e" "requires_approval (en_policy e) a"
    | "a \<noteq> LogOnly" "a \<noteq> Alert" "\<not> guarded q a e" "\<not> requires_approval (en_policy e) a" by blast
  then show thesis
  proof cases
    case 1 with assms show ?thesis by (intro logged) (auto simp: execute_action_def Let_def)
  next
    case 2 with assms show ?thesis
      by (intro guarded) (auto simp: execute_action_def Let_def guarded_def)
  next
    case 3
    with assms st ap show ?thesis
      by (intro waiting) (auto simp: execute_action_def Let_def guarded_def asked_def)
  next
    case 4
    let ?r0 = "?r\<lparr>rr_approval_status := ''auto_approved'', rr_approved_by := ar_approved_by ap\<rparr>"
    obtain r1 e1 where d: "do_execute env a q ?r0 (e\<lparr>en_manager := m\<rparr>) = (r1, e1)" by fastforce
    from 4 assms st ap d have "r1 = r" "e' = audit r1 e1"
      by (auto simp: execute_action_def Let_def guarded_def asked_def)
    with 4 d ap show ?thesis by (intro ran [of ?r0 e1]) auto
  qed
qed

lemma execute_action_frame:
  "execute_action env q a e = (r, e') \<Longrightarrow>
     en_audit e' = en_audit e @ [r] \<and> rr_action r = a \<and> settings e' = settings e
     \<and> en_baseline e' = en_baseline e"
  by (erule execute_action_cases) (auto dest!: do_execute_frame)

lemma execute_action_guarded:
  "execute_action env q a e = (r, e') \<Longrightarrow> str_or (rq_process_name q) \<noteq> [] \<Longrightarrow>
     is_protected (en_policy e) (str_or (rq_process_name q)) \<Longrightarrow>
     en_calls e' = en_calls e \<and> (process_action a \<longrightarrow> rr_result r = ''blocked_protected'')"
  by (erule execute_action_cases)
    (auto simp: process_action_def guarded_def dest!: do_execute_calls)

lemma execute_action_manual:
  "execute_action env q a e = (r, e') \<Longrightarrow> \<not> auto_respond (en_policy e) \<Longrightarrow>
     effects e' = effects e
     \<and> rr_result r \<in> {''success'', ''blocked_protected'', ''awaiting_approval''}
     \<and> (rr_result r = ''success'' \<longrightarrow> a = LogOnly \<or> a = Alert)"
  by (erule execute_action_cases) (auto simp: requires_approval_def split: if_splits)

lemma policy_of_settings: "settings e' = settings e \<Longrightarrow> en_policy e' = en_policy e"
  by (simp add: settings_def)

text \<open>All the actions of a response.\<close>

lemma execute_all_frame:
  "execute_all env q as e = (rs, e') \<Longrightarrow>
     en_audit e' = en_audit e @ rs \<and> map rr_action rs = as \<and> settings e' = settings e
     \<and> en_baseline e' = en_baseline e"
proof (induction as arbitrary: e rs)
  case (Cons a as)
  obtain r e1 where a: "execute_action env q a e = (r, e1)" by fastforce
  obtain rs1 e2 where b: "execute_all env q as e1 = (rs1, e2)" by fastforce
  from Cons.prems a b have "rs = r # rs1" "e' = e2" by auto
  with execute_action_frame [OF a] Cons.IH [of e1 rs1] b show ?case by simp
qed simp

lemma execute_all_guarded:
  "execute_all env q as e = (rs, e') \<Longrightarrow> str_or (rq_process_name q) \<noteq> [] \<Longrightarrow>
     is_protected (en_policy e) (str_or (rq_process_name q)) \<Longrightarrow>
     en_calls e' = en_calls e
     \<and> (\<forall>r \<in> set rs. process_action (rr_action r) \<longrightarrow> rr_result r = ''blocked_protected'')"
proof (induction as arbitrary: e rs)
  case (Cons a as)
  obtain r e1 where a: "execute_action env q a e = (r, e1)" by fastforce
  obtain rs1 e2 where b: "execute_all env q as e1 = (rs1, e2)" by fastforce
  from Cons.prems(1) a b have "rs = r # rs1" "e' = e2" by auto
  moreover have "settings e1 = settings e" "rr_action r = a" using execute_action_frame [OF a] by auto
  ultimately show ?case
    using execute_action_guarded [OF a Cons.prems(2,3)] Cons.IH [of e1 rs1] b Cons.prems(2,3)
    by (auto dest: policy_of_settings)
qed simp

lemma execute_all_manual:
  "execute_all env q as e = (rs, e') \<Longrightarrow> \<not> auto_respond (en_policy e) \<Longrightarrow>
     effects e' = effects e
     \<and> (\<forall>r \<in> set rs. rr_result r \<in> {''success'', ''blocked_protected'', ''awaiting_approval''}
          \<and> (rr_result r = ''success'' \<longrightarrow> rr_action r = LogOnly \<or> rr_action r = Alert))"
proof (induction as arbitrary: e rs)
  case (Cons a as)
  obtain r e1 where a: "execute_action env q a e = (r, e1)" by fastforce
  obtain rs1 e2 where b: "execute_all env q as e1 = (rs1, e2)" by fastforce
  from Cons.prems(1) a b have eq: "rs = r # rs1" "e2 = e'" by auto
  have s: "settings e1 = settings e" "rr_action r = a" using execute_action_frame [OF a] by auto
  with Cons.prems(2) have "\<not> auto_respond (en_policy e1)" by (auto dest: policy_of_settings)
  from Cons.IH [OF b [unfolded eq(2)] this] execute_action_manual [OF a Cons.prems(2)] s(2) eq show ?case by auto
qed simp

section \<open>Facts about a whole response\<close>

lemma get_actions_nonempty: "get_actions sev \<noteq> []"
  by (auto simp: get_actions_def SEVERITY_MAP_def d_get_or_def)

lemma log_only_facts:
  "log_only env q d e = (rs, e') \<Longrightarrow>
     (\<exists>r. rs = [r] \<and> rr_action r = LogOnly \<and> rr_result r = ''success'' \<and> rr_detail r = d)
     \<and> en_audit e' = en_audit e @ rs \<and> settings e' = settings e \<and> effects e' = effects e
     \<and> en_manager e' = en_manager e \<and> en_baseline e' = en_baseline e"
  by (auto simp: log_only_def Let_def)

lemma learn_behavior_frame:
  "en_audit (learn_behavior env q e) = en_audit e \<and> settings (learn_behavior env q e) = settings e
     \<and> effects (learn_behavior env q e) = effects e
     \<and> en_manager (learn_behavior env q e) = en_manager e"
  by (auto simp: learn_behavior_def Let_def effects_def settings_def split: option.splits)

text \<open>Every answer is one of three: a single log record after learning, a single log record, or
  the actions of the severity.\<close>

lemma respond_cases:
  assumes "respond env q e = Inr (rs, e')"
  obtains (learning) "en_mode e = ''learning''"
      "log_only env q ''learning mode - behavior recorded'' (learn_behavior env q e) = (rs, e')"
  | (tolerated) d where "en_mode e = ''active''" "log_only env q d e = (rs, e')"
  | (acted) "take_actions env q e = (rs, e')"
  using assms by (auto simp: respond_def bindR_Inr_iff split: if_splits)

lemma manager_inv_asked:
  "manager_inv (en_policy e) (en_manager e) \<Longrightarrow> manager_inv (en_policy e) (snd (asked env q a e))"
  unfolding asked_def by (rule manager_inv_request [OF _ prod.collapse [symmetric]])

lemma execute_action_manager:
  "execute_action env q a e = (r, e') \<Longrightarrow> manager_inv (en_policy e) (en_manager e) \<Longrightarrow>
     manager_inv (en_policy e) (en_manager e')"
  by (erule execute_action_cases) (auto intro: manager_inv_asked dest!: do_execute_frame)

lemma execute_all_manager:
  "execute_all env q as e = (rs, e') \<Longrightarrow> manager_inv (en_policy e) (en_manager e) \<Longrightarrow>
     manager_inv (en_policy e) (en_manager e')"
proof (induction as arbitrary: e rs)
  case (Cons a as)
  obtain r e1 where a: "execute_action env q a e = (r, e1)" by fastforce
  obtain rs1 e2 where b: "execute_all env q as e1 = (rs1, e2)" by fastforce
  from Cons.prems(1) a b have b: "execute_all env q as e1 = (rs1, e')" by auto
  have p: "en_policy e1 = en_policy e" using execute_action_frame [OF a] by (auto dest: policy_of_settings)
  from Cons.IH [OF b] execute_action_manager [OF a Cons.prems(2)] p show ?case by simp
qed simp

lemma get_actions_critical: "py_lower sev = ''critical'' \<Longrightarrow> get_actions sev = [Alert, SuspendProcess, BlockConnection]"
  by (simp add: get_actions_def SEVERITY_MAP_def d_get_or_def)

lemma execute_alert: "execute_action env q Alert e = (r, e') \<Longrightarrow> en_calls e' = en_calls e"
  by (auto simp: execute_action_def Let_def)

lemma execute_suspend:
  assumes "execute_action env q SuspendProcess e = (r, e')" "auto_respond (en_policy e)"
    "rq_target_pid q = Some pid" "\<not> is_protected (en_policy e) (str_or (rq_process_name q))"
  shows "en_calls e' = en_calls e @ snd (suspend_process (ee_system env) pid)"
  using assms(1)
proof (cases rule: execute_action_cases)
  case (ran r0 e1)
  then show ?thesis using assms(3) by (auto simp: Let_def split: prod.splits)
qed (use assms(2-4) in \<open>auto simp: requires_approval_def guarded_def\<close>)

lemma execute_block_calls:
  "execute_action env q BlockConnection e = (r, e') \<Longrightarrow> en_calls e' = en_calls e"
  by (erule execute_action_cases)
    (auto simp: process_action_def simp del: do_execute.simps dest!: do_execute_calls)

text \<open>A Unix host on which every call succeeds, an engine with empty tables, and a request.\<close>

definition sample_env :: engine_env where
  "sample_env = \<lparr>ee_rx = (\<lambda>p s. None), ee_system = sample_system, ee_net = all_ok Linux,
     ee_lsof = (\<lambda>pid. Inr []), ee_fs = fine_env, ee_hosts = ok_env, ee_uuid = (\<lambda>n. ''0123456789abcdef''),
     ee_now = (\<lambda>n. int n), ee_sql_now = (\<lambda>n. int n)\<rparr>"

definition sample_engine :: "bool \<Rightarrow> string \<Rightarrow> engine" where
  "sample_engine ar mode = (new_engine (mk_policy ar False None) sample_store (Some []) None None)\<lparr>en_mode := mode\<rparr>"

definition sample_request :: "string \<Rightarrow> string \<Rightarrow> string \<Rightarrow> request" where
  "sample_request sev name ip = \<lparr>rq_severity = sev, rq_event_id = None, rq_target_pid = Some 42,
     rq_target_path = None, rq_process_name = Some name, rq_confidence = 0, rq_dst_ip = ip,
     rq_domain = [], rq_title = [], rq_chain = None\<rparr>"

section \<open>Properties\<close>



text \<open>In learning mode the engine never acts: no signal, no firewall rule, no quarantine, no
  sinkhole entry and no approval request, whatever the severity; it records each of the
  observed targets of the process in the baseline and forgets nothing.\<close>

theorem learning_mode_never_acts:
  assumes "en_mode e = ''learning''"
  shows "\<exists>r e'. respond env q e = Inr ([r], e') \<and> rr_action r = LogOnly
    \<and> effects e' = effects e \<and> en_manager e' = en_manager e
    \<and> (\<forall>t p. en_baseline e = Some t \<and> rq_process_name q = Some p \<and> p \<noteq> [] \<longrightarrow>
         (\<exists>t'. en_baseline e' = Some t' \<and> set (get_all_entries_raw t') = set (get_all_entries_raw t)
           \<union> (if rq_dst_ip q = [] then {} else {(p, ''network'', rq_dst_ip q)})
           \<union> (if rq_domain q = [] then {} else {(p, ''dns'', rq_domain q)})
           \<union> (if str_or (rq_target_path q) = [] then {} else {(p, ''file'', str_or (rq_target_path q))})))"
proof -
  let ?e = "learn_behavior env q e"
  obtain rs e' where l: "log_only env q ''learning mode - behavior recorded'' ?e = (rs, e')" by fastforce
  from l assms have r: "respond env q e = Inr (rs, e')" by (simp add: respond_def)
  have b: "en_baseline e' = en_baseline ?e" using log_only_facts [OF l] by simp
  have k: "\<exists>t'. en_baseline ?e = Some t' \<and> set (get_all_entries_raw t') = set (get_all_entries_raw t)
      \<union> (if rq_dst_ip q = [] then {} else {(p, ''network'', rq_dst_ip q)})
      \<union> (if rq_domain q = [] then {} else {(p, ''dns'', rq_domain q)})
      \<union> (if str_or (rq_target_path q) = [] then {} else {(p, ''file'', str_or (rq_target_path q))})"
    if "en_baseline e = Some t" "rq_process_name q = Some p" "p \<noteq> []" for t p
  proof -
    have key: "set (get_all_entries_raw (record_behavior now p b x t)) = insert (p, b, x) (set (get_all_entries_raw t))"
      for now b x t using record_behavior_keys unfolding get_all_entries_raw_def by blast
    show ?thesis using that by (simp add: learn_behavior_def Let_def str_or_def key)
  qed
  from log_only_facts [OF l] obtain r0 where r0: "rs = [r0]" "rr_action r0 = LogOnly" by auto
  have f: "effects e' = effects e" "en_manager e' = en_manager e"
    using log_only_facts [OF l] learn_behavior_frame [of env q e] by auto
  show ?thesis
    by (rule exI [of _ r0], rule exI [of _ e'], unfold b) (use r r0 f k in blast)
qed

theorem learning_mode_never_acts_witness:
  "\<exists>r e'. respond sample_env (sample_request ''critical'' ''curl'' ''10.0.0.1'') (sample_engine True ''learning'')
     = Inr ([r], e') \<and> effects e' = effects (sample_engine True ''learning'')"
proof -
  have "en_mode (sample_engine True ''learning'') = ''learning''" by (simp add: sample_engine_def)
  from learning_mode_never_acts [OF this] show ?thesis by blast
qed

text \<open>C28. A protected process is never signalled: with a protected process name no response makes
  a process call, and every suspend or terminate record says so.\<close>

theorem protected_process_untouched:
  assumes "rq_process_name q = Some p" "p \<noteq> []" "is_protected (en_policy e) p"
    "respond env q e = Inr (rs, e')"
  shows "en_calls e' = en_calls e
    \<and> (\<forall>r \<in> set rs. process_action (rr_action r) \<longrightarrow> rr_result r = ''blocked_protected'')"
  using assms(4)
proof (cases rule: respond_cases)
  case learning
  with log_only_facts [OF learning(2)] learn_behavior_frame [of env q e] show ?thesis
    by (auto simp: effects_def process_action_def)
next
  case (tolerated d)
  with log_only_facts [OF tolerated(2)] show ?thesis by (auto simp: effects_def process_action_def)
next
  case acted
  with execute_all_guarded [of env q _ e rs e'] assms(1-3) show ?thesis
    by (simp add: take_actions_def str_or_def)
qed

theorem protected_process_untouched_witness:
  "\<exists>rs e'. respond sample_env (sample_request ''critical'' ''LSASS.exe'' []) (sample_engine True ''passive'')
     = Inr (rs, e') \<and> en_calls e' = []"
proof -
  let ?q = "sample_request ''critical'' ''LSASS.exe'' []" and ?e = "sample_engine True ''passive''"
  have n: "rq_process_name ?q = Some ''LSASS.exe''" by (simp add: sample_request_def)
  have p: "is_protected (en_policy ?e) ''LSASS.exe''" by code_simp
  obtain rs e' where r: "respond sample_env ?q ?e = Inr (rs, e')"
    by (cases "take_actions sample_env ?q ?e") (simp add: respond_def sample_engine_def)
  have "en_calls ?e = []" by (simp add: sample_engine_def new_engine_def)
  with protected_process_untouched [OF n _ p r] r show ?thesis by simp
qed

text \<open>Without automatic response the engine changes nothing in the world, in any mode: every
  record is a log or alert entry, a refusal for a protected process, or waits for approval.\<close>

theorem manual_policy_only_records:
  assumes "\<not> auto_respond (en_policy e)" "respond env q e = Inr (rs, e')"
  shows "effects e' = effects e
    \<and> (\<forall>r \<in> set rs. rr_action r = LogOnly \<or> rr_action r = Alert
         \<or> rr_result r = ''blocked_protected'' \<or> rr_result r = ''awaiting_approval'')"
  using assms(2)
proof (cases rule: respond_cases)
  case learning
  with log_only_facts [OF learning(2)] learn_behavior_frame [of env q e] show ?thesis by auto
next
  case (tolerated d)
  with log_only_facts [OF tolerated(2)] show ?thesis by auto
next
  case acted
  with execute_all_manual [of env q _ e rs e'] assms(1) show ?thesis by (auto simp: take_actions_def)
qed

theorem manual_policy_only_records_witness:
  "\<exists>rs e'. respond sample_env (sample_request ''critical'' ''curl'' ''10.0.0.1'') (sample_engine False ''passive'')
     = Inr (rs, e') \<and> effects e' = effects (sample_engine False ''passive'')"
proof -
  let ?q = "sample_request ''critical'' ''curl'' ''10.0.0.1''" and ?e = "sample_engine False ''passive''"
  have n: "\<not> auto_respond (en_policy ?e)" by code_simp
  obtain rs e' where r: "respond sample_env ?q ?e = Inr (rs, e')"
    by (cases "take_actions sample_env ?q ?e") (simp add: respond_def sample_engine_def)
  from manual_policy_only_records [OF n r] r show ?thesis by simp
qed

text \<open>C16. In active mode a blocklist match outranks everything: the actions of the severity are
  taken whatever the allowlist and the baseline say.  Otherwise an allowlist match leaves a
  single log entry that names the rule, and the world as it was.\<close>

theorem active_mode_precedence:
  assumes "en_mode e = ''active''" "blocked_by env q e = Inr (blocked, d)"
  shows "(blocked \<longrightarrow> respond env q e = Inr (take_actions env q e)
        \<and> map rr_action (fst (take_actions env q e)) = get_actions (rq_severity q))
    \<and> (\<not> blocked \<longrightarrow> (\<forall>d'. allowed_by env q e = Inr (True, d') \<longrightarrow>
         (\<exists>r e'. respond env q e = Inr ([r], e') \<and> rr_action r = LogOnly
           \<and> rr_detail r = ''allowlisted: '' @ d' \<and> effects e' = effects e \<and> en_manager e' = en_manager e)))"
proof -
  obtain rs e1 where t: "execute_all env q (get_actions (rq_severity q)) e = (rs, e1)" by fastforce
  have "\<exists>r e'. log_only env q m e = ([r], e') \<and> rr_action r = LogOnly
      \<and> rr_detail r = m \<and> effects e' = effects e \<and> en_manager e' = en_manager e" for m
    by (simp add: log_only_def Let_def)
  then show ?thesis using assms execute_all_frame [OF t] t
    by (simp add: respond_def take_actions_def)
qed

definition blocking_engine :: engine where
  "blocking_engine = (sample_engine True ''active'')\<lparr>
     en_blocklist := Some (snd (insert_row (sample_rule ''dst_ip'' ''10.0.0.1'') empty_store)),
     en_allowlist := Some (snd (insert_row (sample_rule ''process_name'' ''curl'') empty_store))\<rparr>"

theorem active_mode_precedence_witness:
  "respond sample_env (sample_request ''low'' ''curl'' ''10.0.0.1'') blocking_engine
     = Inr (take_actions sample_env (sample_request ''low'' ''curl'' ''10.0.0.1'') blocking_engine)"
proof -
  let ?q = "sample_request ''low'' ''curl'' ''10.0.0.1''"
  have m: "en_mode blocking_engine = ''active''" by (simp add: blocking_engine_def sample_engine_def)
  have b: "blocked_by sample_env ?q blocking_engine = Inr (True, ''10.0.0.1'')" by code_simp
  from active_mode_precedence [OF m b] show ?thesis by simp
qed

text \<open>What was observed in learning mode is tolerated in active mode: after a learning answer
  for a process and some target, the same request in active mode, if no list matches, is
  only logged.\<close>

theorem learned_behaviour_is_tolerated:
  assumes "en_mode e = ''learning''" "en_baseline e = Some t" "respond env q e = Inr (rs, e1)"
    "str_or (rq_process_name q) \<noteq> []"
    "rq_dst_ip q \<noteq> [] \<or> rq_domain q \<noteq> [] \<or> str_or (rq_target_path q) \<noteq> []"
    "blocked_by env q (e1\<lparr>en_mode := ''active''\<rparr>) = Inr (False, d)"
    "allowed_by env q (e1\<lparr>en_mode := ''active''\<rparr>) = Inr (False, d')"
  shows "\<exists>r e2. respond env q (e1\<lparr>en_mode := ''active''\<rparr>) = Inr ([r], e2) \<and> rr_action r = LogOnly
    \<and> rr_detail r = ''baselined behavior'' \<and> effects e2 = effects e"
proof -
  let ?e2 = "e1\<lparr>en_mode := ''active''\<rparr>"
  have l: "log_only env q ''learning mode - behavior recorded'' (learn_behavior env q e) = (rs, e1)"
    using assms(1,3) by (simp add: respond_def)
  have eff: "effects e1 = effects e" and b1: "en_baseline e1 = en_baseline (learn_behavior env q e)"
    using log_only_facts [OF l] learn_behavior_frame [of env q e] by auto
  have key: "is_baselined (record_behavior now p b x t) p' b' x'
      \<longleftrightarrow> (p', b', x') = (p, b, x) \<or> is_baselined t p' b' x'" for now p b x p' b' x' t
    using record_behavior_keys [of now p b x t] by (auto simp: is_baselined_iff get_all_entries_raw_def)
  have "baselined_by q ?e2"
    using assms(2,4,5) by (auto simp: baselined_by_def b1 learn_behavior_def Let_def key or_str_def)
  with assms(6,7) have "respond env q ?e2 = Inr (log_only env q ''baselined behavior'' ?e2)"
    by (simp add: respond_def)
  moreover have "effects ?e2 = effects e" using eff by (simp add: effects_def)
  ultimately show ?thesis by (simp add: log_only_def Let_def)
qed

theorem learned_behaviour_is_tolerated_witness:
  "\<exists>rs e1 r e2. respond sample_env (sample_request ''critical'' ''curl'' ''10.0.0.1'')
       (sample_engine True ''learning'') = Inr (rs, e1)
     \<and> respond sample_env (sample_request ''critical'' ''curl'' ''10.0.0.1'') (e1\<lparr>en_mode := ''active''\<rparr>)
       = Inr ([r], e2) \<and> effects e2 = effects (sample_engine True ''learning'')"
proof -
  let ?q = "sample_request ''critical'' ''curl'' ''10.0.0.1''" and ?e = "sample_engine True ''learning''"
  obtain rs e1 where l: "log_only sample_env ?q ''learning mode - behavior recorded''
      (learn_behavior sample_env ?q ?e) = (rs, e1)" by fastforce
  have m: "en_mode ?e = ''learning''" "en_baseline ?e = Some []" "settings ?e = settings (sample_engine True ''learning'')"
    by (simp_all add: sample_engine_def new_engine_def)
  from l m(1) have r: "respond sample_env ?q ?e = Inr (rs, e1)" by (simp add: respond_def)
  have "settings e1 = settings ?e" using log_only_facts [OF l] learn_behavior_frame [of sample_env ?q ?e] by simp
  then have n: "en_blocklist e1 = None" "en_allowlist e1 = None"
    by (simp_all add: settings_def sample_engine_def new_engine_def)
  have b: "blocked_by sample_env ?q (e1\<lparr>en_mode := ''active''\<rparr>) = Inr (False, [])"
    and a: "allowed_by sample_env ?q (e1\<lparr>en_mode := ''active''\<rparr>) = Inr (False, [])"
    using n by (simp_all add: blocked_by_def allowed_by_def)
  from learned_behaviour_is_tolerated [OF m(1,2) r _ _ b a] r show ?thesis
    by (fastforce simp: sample_request_def str_or_def)
qed

text \<open>A request without any target is never learned: with an empty baseline the learning
  answer leaves the baseline empty, and the same request in active mode is answered with
  the actions of its severity, because active mode looks up the target \<open>unknown\<close>.\<close>

theorem targetless_behaviour_is_never_learned:
  assumes "en_mode e = ''learning''" "en_baseline e = Some []" "respond env q e = Inr (rs, e1)"
    "rq_dst_ip q = []" "rq_domain q = []" "rq_target_path q = None"
    "blocked_by env q (e1\<lparr>en_mode := ''active''\<rparr>) = Inr (False, d)"
    "allowed_by env q (e1\<lparr>en_mode := ''active''\<rparr>) = Inr (False, d')"
  shows "en_baseline e1 = Some []
    \<and> respond env q (e1\<lparr>en_mode := ''active''\<rparr>) = Inr (take_actions env q (e1\<lparr>en_mode := ''active''\<rparr>))"
proof -
  have l: "log_only env q ''learning mode - behavior recorded'' (learn_behavior env q e) = (rs, e1)"
    using assms(1,3) by (simp add: respond_def)
  have "learn_behavior env q e = e"
    using assms(2,4-6) by (simp add: learn_behavior_def Let_def str_or_def)
  then have b1: "en_baseline e1 = Some []" using log_only_facts [OF l] assms(2) by simp
  then have "\<not> baselined_by q (e1\<lparr>en_mode := ''active''\<rparr>)" by (simp add: baselined_by_def is_baselined_def)
  with assms(7,8) b1 show ?thesis by (simp add: respond_def)
qed

theorem targetless_behaviour_is_never_learned_witness:
  "\<exists>rs e1. respond sample_env (sample_request ''critical'' ''curl'' []) (sample_engine True ''learning'')
     = Inr (rs, e1) \<and> en_baseline e1 = Some []"
proof -
  let ?q = "sample_request ''critical'' ''curl'' []" and ?e = "sample_engine True ''learning''"
  obtain rs e1 where l: "log_only sample_env ?q ''learning mode - behavior recorded''
      (learn_behavior sample_env ?q ?e) = (rs, e1)" by fastforce
  have m: "en_mode ?e = ''learning''" "en_baseline ?e = Some []"
    by (simp_all add: sample_engine_def new_engine_def)
  from l m(1) have r: "respond sample_env ?q ?e = Inr (rs, e1)" by (simp add: respond_def)
  have "settings e1 = settings ?e" using log_only_facts [OF l] learn_behavior_frame [of sample_env ?q ?e] by simp
  then have n: "en_blocklist e1 = None" "en_allowlist e1 = None"
    by (simp_all add: settings_def sample_engine_def new_engine_def)
  have b: "blocked_by sample_env ?q (e1\<lparr>en_mode := ''active''\<rparr>) = Inr (False, [])"
    and a: "allowed_by sample_env ?q (e1\<lparr>en_mode := ''active''\<rparr>) = Inr (False, [])"
    using n by (simp_all add: blocked_by_def allowed_by_def)
  have q: "rq_dst_ip ?q = []" "rq_domain ?q = []" "rq_target_path ?q = None"
    by (simp_all add: sample_request_def)
  from targetless_behaviour_is_never_learned [OF m r q b a] r show ?thesis by blast
qed

text \<open>With automatic response, outside learning and active mode, a critical verdict on an
  unprotected process makes exactly the calls of one suspension of the target process.\<close>

theorem critical_auto_response:
  assumes "en_mode e = ''passive''" "auto_respond (en_policy e)" "py_lower (rq_severity q) = ''critical''"
    "rq_target_pid q = Some pid" "\<not> is_protected (en_policy e) (str_or (rq_process_name q))"
  shows "\<exists>rs e'. respond env q e = Inr (rs, e') \<and> map rr_action rs = [Alert, SuspendProcess, BlockConnection]
    \<and> en_calls e' = en_calls e @ snd (suspend_process (ee_system env) pid)"
proof -
  obtain r1 e1 where 1: "execute_action env q Alert e = (r1, e1)" by fastforce
  obtain r2 e2 where 2: "execute_action env q SuspendProcess e1 = (r2, e2)" by fastforce
  obtain r3 e3 where 3: "execute_action env q BlockConnection e2 = (r3, e3)" by fastforce
  have p: "en_policy e1 = en_policy e" using execute_action_frame [OF 1] by (auto dest: policy_of_settings)
  have "en_calls e3 = en_calls e @ snd (suspend_process (ee_system env) pid)"
    using execute_alert [OF 1] execute_suspend [OF 2] execute_block_calls [OF 3] assms(2,4,5) p by simp
  moreover have "respond env q e = Inr ([r1, r2, r3], e3)"
    using assms(1) 1 2 3 by (simp add: respond_def take_actions_def get_actions_critical [OF assms(3)])
  ultimately show ?thesis
    using execute_action_frame [OF 1] execute_action_frame [OF 2] execute_action_frame [OF 3] by simp
qed

theorem critical_auto_response_witness:
  "\<exists>rs e'. respond sample_env (sample_request ''CRITICAL'' ''curl'' []) (sample_engine True ''passive'')
     = Inr (rs, e') \<and> en_calls e' = [Kill 42 SIGSTOP]"
proof -
  let ?q = "sample_request ''CRITICAL'' ''curl'' []" and ?e = "sample_engine True ''passive''"
  have 1: "en_mode ?e = ''passive''" by (simp add: sample_engine_def)
  have 2: "auto_respond (en_policy ?e)" by code_simp
  have 3: "py_lower (rq_severity ?q) = ''critical''" by code_simp
  have 4: "rq_target_pid ?q = Some 42" by (simp add: sample_request_def)
  have 5: "\<not> is_protected (en_policy ?e) (str_or (rq_process_name ?q))" by code_simp
  have 6: "snd (suspend_process (ee_system sample_env) 42) = [Kill 42 SIGSTOP]" by code_simp
  have 7: "en_calls ?e = []" by (simp add: sample_engine_def new_engine_def)
  from critical_auto_response [OF 1 2 3 4 5, of sample_env] show ?thesis by (auto simp: 6 7)
qed

definition nameless_pid_event :: ocsf_event where
  "nameless_pid_event = NetworkActivity \<lparr>na_activity_id = 1, na_severity_id = 1, na_time = 0,
     na_src_endpoint = None, na_dst_endpoint = None,
     na_process = Some \<lparr>pi_pid = 0, pi_name = ''curl'', pi_cmd_line = [], pi_exe_path = [],
       pi_parent_pid = None, pi_created_time = None\<rparr>,
     na_device = [], na_metadata = \<lparr>md_original_time = None, md_log_source = []\<rparr>\<rparr>"

definition nameless_pid_finding :: security_finding where
  "nameless_pid_finding = \<lparr>sf_id = ''f'', sf_timestamp = 0, sf_severity = ''critical'', sf_title = [],
     sf_description = [], sf_affected_entities = [], sf_evidence_event_ids = [5],
     sf_recommendation = [], sf_chain = [], sf_affected_pids = [], sf_iocs = [],
     sf_trigger_pid = None, sf_trigger_timestamp = None\<rparr>"

text \<open>The target process of a network event that carries a process name and no pid is the pid
  0 of the normaliser: a critical finding on it sends \<open>SIGSTOP\<close> to pid 0, the process group
  of the agent itself.\<close>

theorem pid_zero_is_suspended:
  "map_prod (map rr_result) en_calls (projr (trigger_response sample_env (\<lambda>pid. None) nameless_pid_finding
       [(5, nameless_pid_event)] (sample_engine True ''passive'')))
     = ([''success'', ''success'', ''failed''], [Kill 0 SIGSTOP])"
  by code_simp

end
