(* ===== verification/Processor.thy ===== *)
theory Processor
  imports EventQueue EntityExtractor IocDatabase Pipeline Engine
begin

text \<open>
  The processor thread (\<open>processor_thread\<close> in \<open>agent/main.py\<close>) as the composition of the models:
  a batch leaves the queue, every event is read, normalised, matched against the indicators,
  extracted and sent through the stages of \<open>Pipeline\<close>; a block is answered by the response
  engine; what is kept is submitted as one write; every event of the batch is marked.  The
  pause flag, metrics, the dashboard's buffers and the optional ledger and flight recorder,
  which only read the extracted batch, are left out.
\<close>

section \<open>State and environment\<close>

record processor =
  ps_queue :: queue_db
  ps_extract :: extractor
  ps_ioc :: "ioc_db option"
  ps_engine :: "engine option"
  ps_jobs :: "entities list list"
  ps_last_prune :: int

text \<open>What the code asks of the system while it works on the event with a given id.  After an
  exception of the fast path the caches hold what its walk had stored by then:
  \<open>pv_after_raise\<close>.\<close>

record processor_env =
  pv_norm :: "int \<Rightarrow> norm_env"
  pv_extract :: "int \<Rightarrow> extract_env"
  pv_rx :: regex_engine
  pv_net_str :: "ip_net \<Rightarrow> string"
  pv_chain :: "int \<Rightarrow> chain_env"
  pv_stage :: "int \<Rightarrow> stage_config"
  pv_after_raise :: "proc_caches \<Rightarrow> proc_caches"
  pv_uuid :: "int \<Rightarrow> nat \<Rightarrow> string"
  pv_now :: "int \<Rightarrow> nat \<Rightarrow> datetime"
  pv_clock :: "int \<Rightarrow> int"
  pv_ioc :: ioc_env
  pv_fleet :: bool
  pv_engine :: "int \<Rightarrow> engine_env"
  pv_graph :: "int \<Rightarrow> int \<Rightarrow> chain_step list option"

section \<open>One event\<close>

definition match_iocs :: "processor_env \<Rightarrow> int \<Rightarrow> ocsf_event \<Rightarrow> processor \<Rightarrow> processor" where
  "match_iocs env i ev p = (case ps_ioc p of None \<Rightarrow> p
   | Some db \<Rightarrow>
       let db = refresh_if_stale (pv_ioc env) (pv_fleet env) (pv_clock env i) db
       in p\<lparr>ps_ioc := Some db,
            ps_queue := fold store_finding (check_ioc_matches (\<lambda>k. pv_uuid env i (Suc k)) (\<lambda>k. pv_now env i (Suc k)) db ev i) (ps_queue p)\<rparr>)"

text \<open>The fast path works only with a response engine.\<close>

definition stage_of :: "processor_env \<Rightarrow> int \<Rightarrow> processor \<Rightarrow> stage_config" where
  "stage_of env i p = (pv_stage env i)\<lparr>sc_engine := ps_engine p \<noteq> None\<rparr>"

definition block_uid :: "processor_env \<Rightarrow> int \<Rightarrow> string" where
  "block_uid env i = pv_uuid env i 0"

text \<open>The caches after the fast path.\<close>

definition fast_caches :: "processor_env \<Rightarrow> int \<Rightarrow> stage_config \<Rightarrow> entities \<Rightarrow> proc_caches \<Rightarrow> proc_caches" where
  "fast_caches env i s e0 c =
     (let e = fst (filter_agent_noise (sc_agent_pid s) e0)
      in if has_entities e \<and> fast_active s
         then (case evaluate (pv_rx env) (pv_net_str env) (pv_chain env i) (block_uid env i) (pv_now env i 0)
                 (the (sc_fast s)) e i c of Inl x \<Rightarrow> pv_after_raise env c | Inr (h, c') \<Rightarrow> c')
         else c)"

text \<open>A raising response is logged and changes nothing more.\<close>

definition answer_block :: "processor_env \<Rightarrow> int \<Rightarrow> ocsf_event \<Rightarrow> security_finding \<Rightarrow> processor \<Rightarrow> processor" where
  "answer_block env i ev f p =
     (let p = p\<lparr>ps_queue := store_finding f (ps_queue p)\<rparr>
      in case ps_engine p of None \<Rightarrow> p
         | Some e \<Rightarrow> (case trigger_response (pv_engine env i) (pv_graph env i) f [(i, ev)] e of
             Inl x \<Rightarrow> p | Inr (rs, e') \<Rightarrow> p\<lparr>ps_engine := Some e'\<rparr>))"

definition process_normalized :: "processor_env \<Rightarrow> int \<Rightarrow> ocsf_event \<Rightarrow> processor \<Rightarrow> entities option \<times> processor" where
  "process_normalized env i ev p =
     (let p = match_iocs env i ev p;
          (e, x) = extract_entities (pv_extract env i) ev i (ps_extract p);
          s = stage_of env i p;
          out = batch_path (pv_rx env) (pv_net_str env) (pv_chain env i) (block_uid env i) (pv_now env i 0) s i (ex_caches x) e;
          p = p\<lparr>ps_extract := x\<lparr>ex_caches := fast_caches env i s e (ex_caches x)\<rparr>\<rparr>
      in case out of
           Kept e' \<Rightarrow> (Some e', p)
         | Blocked f d \<Rightarrow> (None, answer_block env i ev f p)
         | Emptied \<Rightarrow> (None, p)
         | Failed x \<Rightarrow> (None, p))"

text \<open>\<open>from_dict\<close> stands for the macOS enrichment of the parsed JSON and \<open>RawEvent.from_dict\<close>;
  \<open>None\<close> is an exception.\<close>

definition process_item ::
    "('j \<Rightarrow> raw_event option) \<Rightarrow> processor_env \<Rightarrow> int \<times> 'j \<Rightarrow> processor \<Rightarrow> entities option \<times> processor" where
  "process_item from_dict env ij p = (case from_dict (snd ij) of None \<Rightarrow> (None, p)
   | Some raw \<Rightarrow> (case normalize (pv_norm env (fst ij)) raw of None \<Rightarrow> (None, p)
       | Some ev \<Rightarrow> process_normalized env (fst ij) ev p))"

fun process_items ::
    "('j \<Rightarrow> raw_event option) \<Rightarrow> processor_env \<Rightarrow> (int \<times> 'j) list \<Rightarrow> processor \<Rightarrow> entities list \<times> processor" where
  "process_items from_dict env [] p = ([], p)"
| "process_items from_dict env (ij # ijs) p =
     (let (k, p) = process_item from_dict env ij p; (ks, p) = process_items from_dict env ijs p
      in (case k of None \<Rightarrow> ks | Some e \<Rightarrow> e # ks, p))"

section \<open>One round\<close>

definition PRUNE_INTERVAL :: int where
  "PRUNE_INTERVAL = 300"

definition prune_if_due :: "int \<Rightarrow> datetime \<Rightarrow> int \<Rightarrow> processor \<Rightarrow> processor" where
  "prune_if_due t db_now hours p =
     (if t - ps_last_prune p \<ge> PRUNE_INTERVAL
      then p\<lparr>ps_last_prune := t, ps_queue := snd (prune_old_events db_now hours (ps_queue p))\<rparr> else p)"

definition processor_round ::
    "(string \<Rightarrow> 'j option) \<Rightarrow> ('j \<Rightarrow> raw_event option) \<Rightarrow> processor_env \<Rightarrow> int \<Rightarrow> int \<Rightarrow> datetime \<Rightarrow> int \<Rightarrow> processor \<Rightarrow> processor" where
  "processor_round loads from_dict env n t db_now hours p = (case pop_batch loads n (ps_queue p) of
     Inl x \<Rightarrow> p
   | Inr b \<Rightarrow>
       if b = [] then p
       else let (kept, p) = process_items from_dict env b p;
                p = p\<lparr>ps_jobs := ps_jobs p @ (if kept = [] then [] else [kept])\<rparr>;
                p = p\<lparr>ps_queue := mark_processed (map fst b) (ps_queue p)\<rparr>
            in prune_if_due t db_now hours p)"

section \<open>Facts\<close>

lemma store_finding_events [simp]: "q_events (store_finding f q) = q_events q" "q_event_seq (store_finding f q) = q_event_seq q"
  by (simp_all add: store_finding_def)

lemma store_findings_events [simp]:
  "q_events (fold store_finding fs q) = q_events q" "q_event_seq (fold store_finding fs q) = q_event_seq q"
  by (induction fs arbitrary: q) simp_all

text \<open>Working on an event leaves the events of the queue and the submitted jobs alone.\<close>

definition same_events :: "processor \<Rightarrow> processor \<Rightarrow> bool" where
  "same_events p p' \<longleftrightarrow> q_events (ps_queue p') = q_events (ps_queue p) \<and> q_event_seq (ps_queue p') = q_event_seq (ps_queue p)
     \<and> ps_jobs p' = ps_jobs p \<and> ps_last_prune p' = ps_last_prune p"

lemma same_events_refl [simp]: "same_events p p"
  by (simp add: same_events_def)

lemma same_events_trans: "same_events p q \<Longrightarrow> same_events q r \<Longrightarrow> same_events p r"
  by (simp add: same_events_def)

lemma match_iocs_same: "same_events p (match_iocs env i ev p) \<and> ps_engine (match_iocs env i ev p) = ps_engine p
    \<and> ps_extract (match_iocs env i ev p) = ps_extract p"
  by (simp add: match_iocs_def same_events_def Let_def split: option.splits)

lemma answer_block_same: "same_events p (answer_block env i ev f p)"
  by (simp add: answer_block_def same_events_def Let_def split: option.splits sum.splits prod.splits)

lemma process_normalized_same: "process_normalized env i ev p = (k, p') \<Longrightarrow> same_events p p'"
proof -
  assume a: "process_normalized env i ev p = (k, p')"
  let ?p1 = "match_iocs env i ev p"
  obtain e x where ex: "extract_entities (pv_extract env i) ev i (ps_extract ?p1) = (e, x)" by fastforce
  let ?p2 = "?p1\<lparr>ps_extract := x\<lparr>ex_caches := fast_caches env i (stage_of env i ?p1) e (ex_caches x)\<rparr>\<rparr>"
  have 1: "same_events p ?p2" using match_iocs_same [of p env i ev] by (simp add: same_events_def)
  have "p' = ?p2 \<or> (\<exists>f. p' = answer_block env i ev f ?p2)"
    using a unfolding process_normalized_def Let_def ex prod.case by (auto split: outcome.splits)
  with 1 answer_block_same [of ?p2] same_events_trans show ?thesis by blast
qed

lemma process_item_same: "process_item from_dict env ij p = (k, p') \<Longrightarrow> same_events p p'"
  unfolding process_item_def by (auto dest: process_normalized_same split: option.splits)

lemma process_items_same: "process_items from_dict env ijs p = (ks, p') \<Longrightarrow> same_events p p'"
proof (induction ijs arbitrary: p ks)
  case (Cons ij ijs)
  from Cons.prems obtain k p1 ks1 where "process_item from_dict env ij p = (k, p1)"
    "process_items from_dict env ijs p1 = (ks1, p')" by (auto simp: Let_def split: prod.splits)
  with Cons.IH process_item_same same_events_trans show ?case by blast
qed simp

lemma same_events_pending: "same_events p p' \<Longrightarrow> pending_events (ps_queue p') = pending_events (ps_queue p)
    \<and> events_inv (ps_queue p') = events_inv (ps_queue p)"
  by (simp add: same_events_def pending_events_def events_inv_def)

lemma prune_if_due_pending:
  "pending_events (ps_queue (prune_if_due t d h p)) = pending_events (ps_queue p)"
  "events_inv (ps_queue p) \<Longrightarrow> events_inv (ps_queue (prune_if_due t d h p))"
  "ps_jobs (prune_if_due t d h p) = ps_jobs p" "ps_engine (prune_if_due t d h p) = ps_engine p"
  by (simp_all add: prune_if_due_def prune_rows)

text \<open>A round whose batch is read, cut into its parts.\<close>

lemma round_parts:
  assumes "pop_batch loads n (ps_queue p) = Inr b" "b \<noteq> []"
  obtains ks p1 where "process_items from_dict env b p = (ks, p1)"
    "processor_round loads from_dict env n t d h p
      = prune_if_due t d h (p1\<lparr>ps_jobs := ps_jobs p @ (if ks = [] then [] else [ks]), ps_queue := mark_processed (map fst b) (ps_queue p1)\<rparr>)"
proof -
  obtain ks p1 where i: "process_items from_dict env b p = (ks, p1)" by fastforce
  have "ps_jobs p1 = ps_jobs p" using process_items_same [OF i] by (simp add: same_events_def)
  then have "processor_round loads from_dict env n t d h p
      = prune_if_due t d h (p1\<lparr>ps_jobs := ps_jobs p @ (if ks = [] then [] else [ks]), ps_queue := mark_processed (map fst b) (ps_queue p1)\<rparr>)"
    using assms i by (simp add: processor_round_def Let_def)
  with i that show thesis by blast
qed

text \<open>Where a kept batch comes from.\<close>

lemma stage_of_pending: "sc_allow_rules (stage_of env i p) = sc_allow_rules (pv_stage env i)"
  by (simp add: stage_of_def)

lemma process_normalized_kept:
  assumes "process_normalized env i ev p = (Some e', p')"
  shows "\<exists>x c. refines_batch (fst (extract_entities (pv_extract env i) ev i x)) e' \<and> has_entities e'"
proof -
  let ?p1 = "match_iocs env i ev p"
  obtain e x where ex: "extract_entities (pv_extract env i) ev i (ps_extract ?p1) = (e, x)" by fastforce
  from assms have "batch_path (pv_rx env) (pv_net_str env) (pv_chain env i) (block_uid env i) (pv_now env i 0)
      (stage_of env i ?p1) i (ex_caches x) e = Kept e'"
    unfolding process_normalized_def Let_def ex prod.case by (auto split: outcome.splits)
  from batch_path_kept [OF this] ex show ?thesis by (metis fst_conv)
qed

text \<open>The time of a normalised event is that of the raw event.\<close>

lemma normalize_time: "normalize env r = Some ev \<Longrightarrow> event_time ev = rv_timestamp r"
  using normalize_wf [of env r ev] by (cases ev) simp_all

lemma provenance_sub: "sub_entities e' e \<Longrightarrow> provenance t i e \<Longrightarrow> provenance t i e'"
  unfolding sub_entities_def provenance_def by (auto dest!: subseq_set)

lemma extract_provenance: "provenance (event_time ev) i (fst (extract_entities env ev i x))"
proof (cases "is_authentication ev")
  case True
  then obtain a where ev: "ev = Authentication a" by (cases ev) auto
  obtain e s where e: "extract_authentication env a i empty_entities (ex_sshd x) = (e, s)" by fastforce
  from extract_auth [OF e] show ?thesis by (simp add: extract_entities_def ev e persistence_risk_def)
next
  case False
  from extract_good [OF this, of i env x] show ?thesis by (simp add: good_batch_def)
qed

lemma process_items_kept:
  "process_items from_dict env b p = (ks, p') \<Longrightarrow> e' \<in> set ks \<Longrightarrow>
     \<exists>(i, j) \<in> set b. \<exists>raw ev x. from_dict j = Some raw \<and> normalize (pv_norm env i) raw = Some ev
       \<and> refines_batch (fst (extract_entities (pv_extract env i) ev i x)) e' \<and> has_entities e'"
proof (induction b arbitrary: p ks)
  case (Cons ij b)
  obtain k p1 ks1 where 1: "process_item from_dict env ij p = (k, p1)"
    and 2: "process_items from_dict env b p1 = (ks1, p')"
    and ks: "ks = (case k of None \<Rightarrow> ks1 | Some e \<Rightarrow> e # ks1)"
    using Cons.prems(1) by (auto simp: Let_def split: prod.splits)
  from Cons.prems(2) ks consider "e' \<in> set ks1" | "k = Some e'" by (auto split: option.splits)
  then show ?case
  proof cases
    case 1
    from Cons.IH [OF 2 1] show ?thesis by auto
  next
    case 2
    with 1 obtain raw ev where "from_dict (snd ij) = Some raw" "normalize (pv_norm env (fst ij)) raw = Some ev"
      "process_normalized env (fst ij) ev p = (Some e', p1)"
      by (auto simp: process_item_def split: option.splits)
    with process_normalized_kept [OF this(3)] show ?thesis by (cases ij) auto
  qed
qed simp

section \<open>Properties\<close>

text \<open>C9. A round takes the oldest events and acknowledges every one of them, whatever becomes of each:
  unreadable, unmappable, blocked, filtered, raising or kept.  What is left pending is exactly
  the rest, in order.\<close>

theorem round_acknowledges_batch:
  assumes "events_inv (ps_queue p)" "0 \<le> n" "pop_batch loads n (ps_queue p) = Inr b"
  shows "pending_events (ps_queue (processor_round loads from_dict env n t d h p)) = drop (nat n) (pending_events (ps_queue p))
    \<and> map fst b = map fst (take (nat n) (pending_events (ps_queue p)))
    \<and> events_inv (ps_queue (processor_round loads from_dict env n t d h p))"
proof -
  have rows: "map fst b = map fst (pending_rows n (ps_queue p))"
    using parse_rows_ids assms(3) unfolding pop_batch_def by blast
  have batch: "pending_rows n (ps_queue p) = take (nat n) (pending_events (ps_queue p))"
    by (rule eventq.batch [OF assms(1,2)])
  show ?thesis
  proof (cases "b = []")
    case True
    with rows batch have "take (nat n) (pending_events (ps_queue p)) = []" by simp
    then have "drop (nat n) (pending_events (ps_queue p)) = pending_events (ps_queue p)" by auto
    with True rows batch assms show ?thesis by (simp add: processor_round_def)
  next
    case False
    obtain ks p1 where i: "process_items from_dict env b p = (ks, p1)"
      and r: "processor_round loads from_dict env n t d h p
        = prune_if_due t d h (p1\<lparr>ps_jobs := ps_jobs p @ (if ks = [] then [] else [ks]), ps_queue := mark_processed (map fst b) (ps_queue p1)\<rparr>)"
      by (rule round_parts [OF assms(3) False])
    have s: "pending_events (ps_queue p1) = pending_events (ps_queue p)" "events_inv (ps_queue p1)"
      using same_events_pending [OF process_items_same [OF i]] assms(1) by auto
    have "pending_rows n (ps_queue p1) = pending_rows n (ps_queue p)"
      by (simp add: eventq.batch [OF s(2) assms(2)] batch s(1))
    with rows eventq.ack_batch [OF s(2) assms(2)] s(1)
    have "pending_events (mark_processed (map fst b) (ps_queue p1)) = drop (nat n) (pending_events (ps_queue p))" by simp
    with rows batch eventq.inv_ack [OF s(2)] show ?thesis unfolding r by (simp add: prune_if_due_pending)
  qed
qed

text \<open>A submitted batch comes from an event of the round.\<close>

lemma submitted_from_event:
  assumes "pop_batch loads n (ps_queue p) = Inr b"
    and "job \<in> set (ps_jobs (processor_round loads from_dict env n t d h p))" "job \<notin> set (ps_jobs p)" "e' \<in> set job"
  shows "\<exists>(i, j) \<in> set b. \<exists>raw ev. from_dict j = Some raw \<and> normalize (pv_norm env i) raw = Some ev
    \<and> provenance (rv_timestamp raw) i e' \<and> has_entities e' \<and> (\<not> is_authentication ev \<longrightarrow> closed_entities e')"
proof -
  have ne: "b \<noteq> []" using assms by (auto simp: processor_round_def)
  obtain ks p1 where i: "process_items from_dict env b p = (ks, p1)"
    and r: "processor_round loads from_dict env n t d h p
      = prune_if_due t d h (p1\<lparr>ps_jobs := ps_jobs p @ (if ks = [] then [] else [ks]), ps_queue := mark_processed (map fst b) (ps_queue p1)\<rparr>)"
    by (rule round_parts [OF assms(1) ne])
  have "e' \<in> set ks" using assms(2-4) unfolding r by (auto simp: prune_if_due_pending split: if_splits)
  from process_items_kept [OF i this] obtain i j raw ev x where b: "(i, j) \<in> set b" "from_dict j = Some raw"
    "normalize (pv_norm env i) raw = Some ev"
    and e: "refines_batch (fst (extract_entities (pv_extract env i) ev i x)) e'" "has_entities e'" by blast
  have "provenance (rv_timestamp raw) i e'"
    using provenance_sub [OF _ extract_provenance [of ev i "pv_extract env i" x]] e(1)
    unfolding refines_batch_def normalize_time [OF b(3)] by blast
  moreover have "\<not> is_authentication ev \<longrightarrow> closed_entities e'"
    using e(1) extract_good [of ev i "pv_extract env i" x] by (auto simp: refines_batch_def good_batch_def)
  ultimately show ?thesis using b e(2) by blast
qed


lemma answer_block_learning:
  assumes "ps_engine p = Some e" "en_mode e = ''learning''"
  shows "\<exists>e'. ps_engine (answer_block env i ev f p) = Some e' \<and> en_mode e' = ''learning'' \<and> effects e' = effects e"
proof -
  obtain rs e' where l: "log_only (pv_engine env i) (trigger_request (pv_graph env i) f [(i, ev)]) ''learning mode - behavior recorded''
      (learn_behavior (pv_engine env i) (trigger_request (pv_graph env i) f [(i, ev)]) e) = (rs, e')" by fastforce
  have "settings e' = settings e" "effects e' = effects e"
    using log_only_facts [OF l] learn_behavior_frame [of "pv_engine env i" "trigger_request (pv_graph env i) f [(i, ev)]" e] by auto
  moreover have "trigger_response (pv_engine env i) (pv_graph env i) f [(i, ev)] e = Inr (rs, e')"
    using assms(2) l by (simp add: trigger_response_def respond_def)
  ultimately show ?thesis using assms by (auto simp: answer_block_def settings_def)
qed

lemma process_normalized_learning:
  assumes "ps_engine p = Some e" "en_mode e = ''learning''" "process_normalized env i ev p = (k, p')"
  shows "\<exists>e'. ps_engine p' = Some e' \<and> en_mode e' = ''learning'' \<and> effects e' = effects e"
proof -
  let ?p1 = "match_iocs env i ev p"
  obtain e0 x where ex: "extract_entities (pv_extract env i) ev i (ps_extract ?p1) = (e0, x)" by fastforce
  let ?p2 = "?p1\<lparr>ps_extract := x\<lparr>ex_caches := fast_caches env i (stage_of env i ?p1) e0 (ex_caches x)\<rparr>\<rparr>"
  have 2: "ps_engine ?p2 = Some e" using match_iocs_same [of p env i ev] assms(1) by simp
  have "p' = ?p2 \<or> (\<exists>f. p' = answer_block env i ev f ?p2)"
    using assms(3) unfolding process_normalized_def Let_def ex prod.case by (auto split: outcome.splits)
  with 2 answer_block_learning [OF 2 assms(2)] assms(2) show ?thesis by metis
qed

lemma process_items_learning:
  "ps_engine p = Some e \<Longrightarrow> en_mode e = ''learning'' \<Longrightarrow> process_items from_dict env b p = (ks, p') \<Longrightarrow>
     \<exists>e'. ps_engine p' = Some e' \<and> en_mode e' = ''learning'' \<and> effects e' = effects e"
proof (induction b arbitrary: p e ks)
  case (Cons ij b)
  obtain k p1 ks1 where 1: "process_item from_dict env ij p = (k, p1)"
    and 2: "process_items from_dict env b p1 = (ks1, p')"
    using Cons.prems(3) by (auto simp: Let_def split: prod.splits)
  have "\<exists>e1. ps_engine p1 = Some e1 \<and> en_mode e1 = ''learning'' \<and> effects e1 = effects e"
    using 1 Cons.prems(1,2) unfolding process_item_def by (auto dest: process_normalized_learning split: option.splits)
  with Cons.IH 2 show ?case by metis
qed simp

text \<open>In learning mode a round never acts on the system: no signal, no firewall rule, no quarantine and
  no sinkhole entry, whatever the events and the blocklist are.\<close>

theorem learning_round_never_acts:
  assumes "ps_engine p = Some e" "en_mode e = ''learning''"
  shows "\<exists>e'. ps_engine (processor_round loads from_dict env n t d h p) = Some e' \<and> effects e' = effects e"
proof (cases "pop_batch loads n (ps_queue p)")
  case (Inr b)
  show ?thesis
  proof (cases "b = []")
    case False
    obtain ks p1 where i: "process_items from_dict env b p = (ks, p1)"
      and r: "processor_round loads from_dict env n t d h p
        = prune_if_due t d h (p1\<lparr>ps_jobs := ps_jobs p @ (if ks = [] then [] else [ks]), ps_queue := mark_processed (map fst b) (ps_queue p1)\<rparr>)"
      by (rule round_parts [OF Inr False])
    from process_items_learning [OF assms i] show ?thesis unfolding r by (auto simp: prune_if_due_pending)
  qed (use assms Inr in \<open>simp add: processor_round_def\<close>)
qed (use assms in \<open>simp add: processor_round_def\<close>)

section \<open>A round evaluated\<close>

definition round_env :: "rule list \<Rightarrow> processor_env" where
  "round_env rules = \<lparr>pv_norm = (\<lambda>i. plain_env), pv_extract = (\<lambda>i. quiet_env), pv_rx = (\<lambda>p s. None), pv_net_str = (\<lambda>n. []),
     pv_chain = (\<lambda>i. (new_index, sample_os)),
     pv_stage = (\<lambda>i. \<lparr>sc_agent_pid = 99, sc_fast = Some (compile_rules rules), sc_engine = True,
       sc_file_read_tracking = False, sc_allow_rules = None, sc_gate = None, sc_gating = False, sc_response_mode = ''passive''\<rparr>),
     pv_after_raise = (\<lambda>c. c), pv_uuid = (\<lambda>i k. ''id''), pv_now = (\<lambda>i k. 9), pv_clock = (\<lambda>i. 50), pv_ioc = offline_env,
     pv_fleet = False, pv_engine = (\<lambda>i. sample_env), pv_graph = (\<lambda>i pid. None)\<rparr>"

definition two_events :: queue_db where
  "two_events = snd (push 3 ''conn'' (snd (push 2 ''junk'' init_queue_db)))"

definition fresh_processor :: "string \<Rightarrow> processor" where
  "fresh_processor mode = \<lparr>ps_queue = two_events, ps_extract = new_extractor, ps_ioc = None,
     ps_engine = Some (sample_engine True mode), ps_jobs = [], ps_last_prune = 0\<rparr>"

text \<open>Reading the rows: one is no raw event, the other is the connection without a pid.\<close>

definition read_row :: "string \<Rightarrow> raw_event option" where
  "read_row s = (if s = ''conn'' then Some raw_conn else None)"

definition run_round :: "rule list \<Rightarrow> string \<Rightarrow> processor" where
  "run_round rules mode = processor_round Some read_row (round_env rules) 10 60 70 24 (fresh_processor mode)"

lemma two_events_inv: "events_inv two_events"
proof -
  have "sorted_wrt (<) (map eq_id (q_events two_events)) \<and> list_all (\<lambda>r. eq_id r \<le> q_event_seq two_events) (q_events two_events)"
    by code_simp
  then show ?thesis by (simp add: events_inv_def list_all_iff)
qed

lemma two_events_pop: "pop_batch Some 10 (ps_queue (fresh_processor mode)) = Inr [(1, ''junk''), (2, ''conn'')]"
proof -
  have "pop_batch Some 10 two_events = Inr [(1, ''junk''), (2, ''conn'')]" by code_simp
  then show ?thesis by (simp add: fresh_processor_def)
qed

theorem round_acknowledges_batch_witness:
  "pending_events (ps_queue (fresh_processor ''passive'')) = [(1, ''junk''), (2, ''conn'')]
   \<and> pending_events (ps_queue (run_round [] ''passive'')) = []"
proof -
  have 1: "events_inv (ps_queue (fresh_processor ''passive''))" using two_events_inv by (simp add: fresh_processor_def)
  have 2: "pending_events (ps_queue (fresh_processor ''passive'')) = [(1, ''junk''), (2, ''conn'')]" by code_simp
  from round_acknowledges_batch [OF 1 _ two_events_pop] 2 show ?thesis by (simp add: run_round_def)
qed


theorem learning_round_never_acts_witness:
  "\<exists>e'. ps_engine (run_round [sample_rule ''dst_ip'' ''10.0.0.9''] ''learning'') = Some e'
     \<and> effects e' = effects (sample_engine True ''learning'')"
  unfolding run_round_def
  by (rule learning_round_never_acts) (simp_all add: fresh_processor_def sample_engine_def)

text \<open>What the parts add up to: a connection to a blocked address that its collector reports without a
  pid goes through the queue, the normaliser, the extractor and the fast path, and the answer is
  a \<open>SIGSTOP\<close> to the agent's own process group.\<close>

theorem blocked_connection_stops_agent:
  "map_option en_calls (ps_engine (run_round [sample_rule ''dst_ip'' ''10.0.0.9''] ''passive'')) = Some [Kill 0 SIGSTOP]
   \<and> ps_jobs (run_round [sample_rule ''dst_ip'' ''10.0.0.9''] ''passive'') = []"
  by code_simp

end
