(* ===== verification/Collectors.thy ===== *)
theory Collectors
  imports Normalizer IpNet
begin

text \<open>
  Event collectors: the bounded buffer the push collectors share, and the eBPF collector
  (\<open>agent/collectors/ebpf_collector.py\<close>) with the probes of its BPF program that decide what
  reaches user space.  Kernel records keep their C widths.  The machine is little-endian, as the
  platforms of the collector are.  Bytes above 127 decode to a replacement character, here
  \<open>replacement\<close>.  The clock, the login uid file of a process and the user database are a
  record of the environment.
\<close>

unbundle bit_operations_syntax

section \<open>The buffer\<close>

definition BUFFER_MAX :: nat where
  "BUFFER_MAX = 10000"

text \<open>\<open>deque(maxlen=m)\<close>: a full deque drops its oldest element.\<close>

definition deque_append :: "nat \<Rightarrow> 'a list \<Rightarrow> 'a \<Rightarrow> 'a list" where
  "deque_append m q x = (let q' = q @ [x] in drop (length q' - m) q')"

text \<open>\<open>collect\<close>: drains the buffer, oldest first.\<close>

fun drain :: "'a list \<Rightarrow> 'a list \<Rightarrow> 'a list \<times> 'a list" where
  "drain acc [] = (acc, [])"
| "drain acc (x # q) = drain (acc @ [x]) q"

definition collect :: "'a list \<Rightarrow> 'a list \<times> 'a list" where
  "collect q = drain [] q"

text \<open>One poll cycle is the events that arrive and then a \<open>collect\<close>; the batches returned.\<close>

fun poll_cycles :: "'a list \<Rightarrow> 'a list list \<Rightarrow> 'a list list" where
  "poll_cycles q [] = []"
| "poll_cycles q (evs # rest) =
     (let (out, q') = collect (foldl (deque_append BUFFER_MAX) q evs) in out # poll_cycles q' rest)"

section \<open>Kernel records\<close>

type_synonym byte = "8 word"

record exec_event =
  xe_pid :: "32 word"
  xe_ppid :: "32 word"
  xe_uid :: "32 word"
  xe_gid :: "32 word"
  xe_cgroup_id :: "64 word"
  xe_comm :: "byte list"
  xe_filename :: "byte list"

record ipv4_event =
  ve_pid :: "32 word"
  ve_uid :: "32 word"
  ve_saddr :: "32 word"
  ve_daddr :: "32 word"
  ve_dport :: "16 word"
  ve_comm :: "byte list"

record file_event =
  fe_pid :: "32 word"
  fe_uid :: "32 word"
  fe_flags :: "32 word"
  fe_is_delete :: byte
  fe_comm :: "byte list"
  fe_filename :: "byte list"

record dns_event =
  de_pid :: "32 word"
  de_uid :: "32 word"
  de_daddr :: "32 word"
  de_payload_len :: "16 word"
  de_comm :: "byte list"
  de_payload :: "byte list"

text \<open>\<open>openat\<close> reaches user space only with one of the write flags.\<close>

definition WRITE_FLAGS :: "32 word" where
  "WRITE_FLAGS = 1 OR 2 OR 0x40 OR 0x200"

definition probe_openat :: "32 word \<Rightarrow> 32 word \<Rightarrow> byte list \<Rightarrow> 32 word \<Rightarrow> byte list \<Rightarrow> file_event list" where
  "probe_openat pid uid comm flags path =
     (if flags AND WRITE_FLAGS = 0 then []
      else [\<lparr>fe_pid = pid, fe_uid = uid, fe_flags = flags, fe_is_delete = 0, fe_comm = comm, fe_filename = path\<rparr>])"

definition probe_unlinkat :: "32 word \<Rightarrow> 32 word \<Rightarrow> byte list \<Rightarrow> byte list \<Rightarrow> file_event list" where
  "probe_unlinkat pid uid comm path =
     [\<lparr>fe_pid = pid, fe_uid = uid, fe_flags = 0, fe_is_delete = 1, fe_comm = comm, fe_filename = path\<rparr>]"

text \<open>\<open>kprobe__udp_sendmsg\<close> to port 53.  The message as the two paths see it: \<open>Some (n, bytes)\<close> is a
  length and the bytes that can be read there, \<open>None\<close> an unreadable pointer.  At most 256
  bytes are read into a zeroed buffer of 256; failing both paths the event is submitted twice,
  without payload.\<close>

definition PAYLOAD_MAX :: nat where
  "PAYLOAD_MAX = 256"

definition readable :: "(nat \<times> byte list) option \<Rightarrow> byte list option" where
  "readable m = (case m of None \<Rightarrow> None
     | Some (n, bs) \<Rightarrow> if 13 \<le> n \<and> n \<le> 512 \<and> n \<le> length bs then Some (take (min n PAYLOAD_MAX) bs) else None)"

definition dns_record :: "32 word \<Rightarrow> 32 word \<Rightarrow> 32 word \<Rightarrow> byte list \<Rightarrow> byte list \<Rightarrow> dns_event" where
  "dns_record pid uid daddr comm bs =
     \<lparr>de_pid = pid, de_uid = uid, de_daddr = daddr, de_payload_len = of_nat (length bs), de_comm = comm,
      de_payload = bs @ replicate (PAYLOAD_MAX - length bs) 0\<rparr>"

definition probe_udp_sendmsg :: "32 word \<Rightarrow> 32 word \<Rightarrow> 32 word \<Rightarrow> byte list
    \<Rightarrow> (nat \<times> byte list) option \<Rightarrow> (nat \<times> byte list) option \<Rightarrow> dns_event list" where
  "probe_udp_sendmsg pid uid daddr comm ubuf iov =
     (case readable ubuf of Some bs \<Rightarrow> [dns_record pid uid daddr comm bs]
      | None \<Rightarrow> (case readable iov of Some bs \<Rightarrow> [dns_record pid uid daddr comm bs]
      | None \<Rightarrow> [dns_record pid uid daddr comm [], dns_record pid uid daddr comm []]))"

section \<open>Reading a kernel record\<close>

definition replacement :: char where
  "replacement = char_of (255 :: nat)"

definition decode_byte :: "byte \<Rightarrow> char" where
  "decode_byte b = (if unat b < 128 then char_of (unat b) else replacement)"

definition decode :: "byte list \<Rightarrow> string" where
  "decode bs = map decode_byte bs"

text \<open>A \<open>char[]\<close> field of a ctypes structure reads up to the first zero byte.\<close>

definition c_string :: "byte list \<Rightarrow> byte list" where
  "c_string bs = takeWhile (\<lambda>b. b \<noteq> 0) bs"

text \<open>\<open>struct.pack("I", w)\<close>, and \<open>inet_ntop(AF_INET, bs)\<close>.\<close>

definition pack_u32 :: "32 word \<Rightarrow> byte list" where
  "pack_u32 w = [ucast w, ucast (drop_bit 8 w), ucast (drop_bit 16 w), ucast (drop_bit 24 w)]"

definition inet_ntop :: "byte list \<Rightarrow> string" where
  "inet_ntop bs = join_with ''.'' (map (\<lambda>b. int_str (uint b)) bs)"

definition ntohs :: "16 word \<Rightarrow> 16 word" where
  "ntohs w = push_bit 8 w OR drop_bit 8 w"

record collect_env =
  ce_now :: datetime
  ce_isoformat :: "datetime \<Rightarrow> string"
  ce_loginuid :: "int \<Rightarrow> string option"
  ce_getpwuid :: "int \<Rightarrow> string option"
  ce_hostname :: string
  ce_agent_pid :: int

definition AUID_UNSET :: int where
  "AUID_UNSET = 4294967295"

definition read_loginuid :: "collect_env \<Rightarrow> int \<Rightarrow> int option" where
  "read_loginuid env pid =
     (if pid \<le> 0 then None
      else case ce_loginuid env pid of None \<Rightarrow> None | Some txt \<Rightarrow> py_int (py_strip txt))"

definition resolve_username :: "collect_env \<Rightarrow> int option \<Rightarrow> int \<Rightarrow> string" where
  "resolve_username env auid euid =
     (let by_auid = (case auid of None \<Rightarrow> None | Some a \<Rightarrow> if a \<noteq> AUID_UNSET then ce_getpwuid env a else None)
      in case by_auid of Some n \<Rightarrow> n
         | None \<Rightarrow> (case ce_getpwuid env euid of Some n \<Rightarrow> n | None \<Rightarrow> int_str euid))"

section \<open>The question name of a DNS message\<close>

fun qname_labels :: "nat \<Rightarrow> byte list \<Rightarrow> string list" where
  "qname_labels 0 bs = []"
| "qname_labels (Suc k) [] = []"
| "qname_labels (Suc k) (n # bs) =
     (if n = 0 then []
      else if unat n > 63 \<or> n AND 0xC0 \<noteq> 0 then []
      else if unat n > length bs then []
      else decode (take (unat n) bs) # qname_labels k (drop (unat n) bs))"

definition MAX_LABELS :: nat where
  "MAX_LABELS = 32"

definition parse_dns_qname :: "byte list \<Rightarrow> string" where
  "parse_dns_qname payload =
     (if length payload < 13 then [] else join_with ''.'' (qname_labels MAX_LABELS (drop 12 payload)))"

section \<open>The callbacks\<close>

text \<open>Each callback returns the raw event it appends to the buffer, if any.\<close>

definition process_exec_event :: "collect_env \<Rightarrow> exec_event \<Rightarrow> raw_event option" where
  "process_exec_event env e =
     (if uint (xe_pid e) = ce_agent_pid env then None
      else let pid = uint (xe_pid e);
               comm = decode (c_string (xe_comm e));
               file = decode (c_string (xe_filename e));
               now = ce_now env;
               auid = read_loginuid env pid
           in Some \<lparr>rv_timestamp = now, rv_source = ''ebpf_execve'',
                rv_message = ''execve: '' @ comm @ '' (PID '' @ int_str pid @ '')'',
                rv_fields = [(''pid'', int_str pid), (''name'', comm),
                  (''username'', resolve_username env auid (uint (xe_uid e))), (''cmdline'', file), (''exe'', file),
                  (''ppid'', int_str (uint (xe_ppid e))), (''create_time'', ce_isoformat env now),
                  (''auid'', case auid of None \<Rightarrow> [] | Some a \<Rightarrow> int_str a),
                  (''cgroup_id'', int_str (uint (xe_cgroup_id e))), (''uid'', int_str (uint (xe_uid e)))],
                rv_hostname = ce_hostname env\<rparr>)"

definition process_network_event :: "collect_env \<Rightarrow> ipv4_event \<Rightarrow> raw_event option" where
  "process_network_event env e =
     (if uint (ve_pid e) = ce_agent_pid env then None
      else let pid = uint (ve_pid e);
               comm = decode (c_string (ve_comm e));
               dst = inet_ntop (pack_u32 (ve_daddr e));
               src = inet_ntop (pack_u32 (ve_saddr e));
               port = int_str (uint (ntohs (ve_dport e)))
           in Some \<lparr>rv_timestamp = ce_now env, rv_source = ''ebpf_network'',
                rv_message = ''connect: '' @ comm @ '' -> '' @ dst @ '':'' @ port,
                rv_fields = [(''pid'', int_str pid), (''process_name'', comm), (''src_ip'', src), (''src_port'', ''0''),
                  (''dst_ip'', dst), (''dst_port'', port), (''status'', ''ESTABLISHED''), (''type'', ''TCP''),
                  (''uid'', int_str (uint (ve_uid e))),
                  (''username'', resolve_username env (read_loginuid env pid) (uint (ve_uid e)))],
                rv_hostname = ce_hostname env\<rparr>)"

definition WATCHED_PREFIXES :: "string list" where
  "WATCHED_PREFIXES = [''/etc/'', ''/root/'', ''/home/'', ''/bin/'', ''/sbin/'', ''/usr/bin/'', ''/usr/sbin/'',
     ''/usr/local/bin/'', ''/tmp/'', ''/var/tmp/'', ''/var/log/'', ''/opt/'', ''/lib/systemd/'']"

definition O_CREAT :: "32 word" where
  "O_CREAT = 0x40"

definition file_event_type :: "file_event \<Rightarrow> string" where
  "file_event_type e =
     (if fe_is_delete e \<noteq> 0 then ''file_delete''
      else if fe_flags e AND O_CREAT \<noteq> 0 then ''file_create'' else ''file_modify'')"

definition process_file_event :: "collect_env \<Rightarrow> file_event \<Rightarrow> raw_event option" where
  "process_file_event env e =
     (if uint (fe_pid e) = ce_agent_pid env then None
      else let pid = uint (fe_pid e);
               comm = decode (c_string (fe_comm e));
               file = decode (c_string (fe_filename e));
               ty = file_event_type e
           in if \<not> list_ex (\<lambda>p. prefix p file) WATCHED_PREFIXES then None
              else Some \<lparr>rv_timestamp = ce_now env, rv_source = ''ebpf_'' @ ty,
                rv_message = ty @ '': '' @ comm @ '' -> '' @ file,
                rv_fields = [(''pid'', int_str pid), (''name'', comm), (''file_path'', file), (''event_type'', ty),
                  (''uid'', int_str (uint (fe_uid e))),
                  (''username'', resolve_username env (read_loginuid env pid) (uint (fe_uid e)))],
                rv_hostname = ce_hostname env\<rparr>)"

definition process_dns_event :: "collect_env \<Rightarrow> dns_event \<Rightarrow> raw_event option" where
  "process_dns_event env e =
     (if uint (de_pid e) = ce_agent_pid env then None
      else let pid = uint (de_pid e);
               comm = decode (c_string (de_comm e));
               payload = take (unat (de_payload_len e)) (de_payload e);
               qname = (if length payload \<ge> 13 then parse_dns_qname payload else [])
           in if qname = [] then None
              else Some \<lparr>rv_timestamp = ce_now env, rv_source = ''ebpf_dns'',
                rv_message = ''dns: '' @ comm @ '' -> '' @ qname,
                rv_fields = [(''pid'', int_str pid), (''name'', comm), (''query_domain'', qname), (''resolved_ips'', []),
                  (''dns_server'', inet_ntop (pack_u32 (de_daddr e))), (''uid'', int_str (uint (de_uid e))),
                  (''username'', resolve_username env (read_loginuid env pid) (uint (de_uid e)))],
                rv_hostname = ce_hostname env\<rparr>)"

section \<open>Facts\<close>

lemma length_deque_append: "length (deque_append m q x) \<le> max m (length q)"
  by (simp add: deque_append_def Let_def)

lemma deque_fold: "length q \<le> m \<Longrightarrow> foldl (deque_append m) q xs = drop (length q + length xs - m) (q @ xs)"
proof (induction xs arbitrary: q)
  case (Cons x xs)
  let ?q = "deque_append m q x"
  have l: "length ?q = min m (length q + 1)" using Cons.prems by (simp add: deque_append_def Let_def)
  have "foldl (deque_append m) q (x # xs) = drop (length ?q + length xs - m) (?q @ xs)"
    using Cons.IH [of ?q] l by simp
  also have "\<dots> = drop (length q + length (x # xs) - m) (q @ x # xs)"
  proof (cases "length q < m")
    case True
    then have "?q = q @ [x]" by (simp add: deque_append_def Let_def)
    then show ?thesis by simp
  next
    case False
    then have q: "?q = drop 1 (q @ [x])" "length q = m" using Cons.prems by (simp_all add: deque_append_def Let_def)
    then obtain a where a: "q @ [x] = a # ?q" by (cases "q @ [x]") simp_all
    have "q @ x # xs = a # ?q @ xs" using a by (metis append.assoc append_Cons append_Nil)
    then have "drop (length q + length (x # xs) - m) (q @ x # xs) = drop (length xs) (?q @ xs)" using q(2) by (simp only:) simp
    moreover have "length ?q + length xs - m = length xs" using l q(2) by simp
    ultimately show ?thesis by simp
  qed
  finally show ?case .
qed simp

lemma drain_appends: "drain acc q = (acc @ q, [])"
  by (induction q arbitrary: acc) auto

lemma collect_all: "collect q = (q, [])"
  by (simp add: collect_def drain_appends)

text \<open>Dotted quads.\<close>

lemma parse_octet_int: "0 \<le> n \<Longrightarrow> n < 256 \<Longrightarrow> parse_octet (int_str n) = Some n"
proof -
  assume n: "0 \<le> n" "n < 256"
  have "list_all (\<lambda>k. parse_octet (int_str k) = Some k) [0..255]" by code_simp
  with n show ?thesis by (auto simp: list_all_iff)
qed

lemma int_str_no_dot: "0 \<le> n \<Longrightarrow> CHR ''.'' \<notin> set (int_str n)"
  using pos_str_digits [of n] by (auto simp: int_str_def list_all_iff is_digit_def Let_def)

lemma split_join:
  "\<forall>p \<in> set ps. sep \<notin> set p \<Longrightarrow> ps \<noteq> [] \<Longrightarrow> split_on sep (join_with [sep] ps) = ps"
proof (induction ps)
  case (Cons p ps)
  have app: "sep \<notin> set q \<Longrightarrow> split_on sep (q @ sep # s) = q # split_on sep s" for q s
    by (induction q) auto
  from Cons show ?case by (cases ps) (auto simp: split_on_single app)
qed simp

lemma set_join_string: "set (join_with sep qs) \<subseteq> set sep \<union> \<Union> (set ` set qs)"
  by (induction sep qs rule: join_with.induct) auto

lemma inet_ntop_parse:
  assumes "length bs = 4"
  shows "ip_address (inet_ntop bs) = Some (V4 (of_int (bytes_val 256 0 (map uint bs))))"
proof -
  have b: "uint b < 256" for b :: byte using uint_lt2p [of b] by simp
  let ?ps = "map (\<lambda>b. int_str (uint b)) bs"
  have s: "split_on CHR ''.'' (inet_ntop bs) = ?ps"
    unfolding inet_ntop_def using assms by (intro split_join) (auto simp: int_str_no_dot)
  have "parse_all parse_octet (map (\<lambda>b. int_str (uint b)) cs) = Some (map uint cs)" for cs :: "byte list"
    by (induction cs) (auto simp: parse_octet_int b)
  then have "parse_v4 (inet_ntop bs) = Some (bytes_val 256 0 (map uint bs))"
    using assms by (simp add: parse_v4_def s Let_def)
  moreover have "CHR ''/'' \<notin> set (inet_ntop bs)"
  proof
    have d: "CHR ''/'' \<notin> set (int_str n)" if "0 \<le> n" for n
      using pos_str_digits [OF that] that by (auto simp: int_str_def list_all_iff is_digit_def Let_def)
    assume "CHR ''/'' \<in> set (inet_ntop bs)"
    then have "\<exists>q \<in> set (map (\<lambda>b. int_str (uint b)) bs). CHR ''/'' \<in> set q"
      using set_join_string [of "''.''" "map (\<lambda>b. int_str (uint b)) bs"] by (auto simp: inet_ntop_def)
    then show False using d by auto
  qed
  ultimately show ?thesis by (simp add: ip_address_def)
qed

lemma inet_ntop_nonempty: "inet_ntop (pack_u32 w) \<noteq> []"
  by (simp add: inet_ntop_def pack_u32_def)

section \<open>Properties\<close>

text \<open>A poll returns the events that arrived since the last one in their order, all of them up to
  ten thousand; beyond that exactly the oldest are lost, and nothing is carried over or repeated.\<close>

theorem polls_return_newest:
  "poll_cycles [] cycles = map (\<lambda>evs. drop (length evs - BUFFER_MAX) evs) cycles"
  by (induction cycles) (auto simp: collect_all deque_fold)

section \<open>Names on the wire\<close>

text \<open>The question of a DNS message for the labels of a name, and the labels that fit in
  \<open>k\<close> bytes.\<close>

definition encode_label :: "string \<Rightarrow> byte list" where
  "encode_label l = of_nat (length l) # map (\<lambda>c. of_nat (of_char c)) l"

definition encode_qname :: "string list \<Rightarrow> byte list" where
  "encode_qname ls = concat (map encode_label ls) @ [0]"

fun fitting :: "nat \<Rightarrow> string list \<Rightarrow> string list" where
  "fitting k [] = []"
| "fitting k (l # ls) = (if length l < k then l # fitting (k - length l - 1) ls else [])"

definition wire_label :: "string \<Rightarrow> bool" where
  "wire_label l \<longleftrightarrow> l \<noteq> [] \<and> length l \<le> 63 \<and> list_all (\<lambda>c. (of_char c :: nat) < 128) l"

lemma decode_encode: "list_all (\<lambda>c. (of_char c :: nat) < 128) l \<Longrightarrow> decode (map (\<lambda>c. of_nat (of_char c)) l) = l"
  by (induction l) (auto simp: decode_def decode_byte_def unat_of_nat)

lemma label_length_ok:
  assumes "0 < n" "n \<le> 63"
  shows "(of_nat n :: byte) \<noteq> 0 \<and> unat (of_nat n :: byte) = n \<and> (of_nat n :: byte) AND 0xC0 = 0"
proof -
  have "list_all (\<lambda>n. (of_nat n :: byte) \<noteq> 0 \<and> unat (of_nat n :: byte) = n \<and> (of_nat n :: byte) AND 0xC0 = 0) [1 ..< 64]"
    by code_simp
  with assms show ?thesis by (auto simp: list_all_iff)
qed

lemma qname_labels_encode:
  "list_all wire_label ls \<Longrightarrow>
     qname_labels n (take k (encode_qname ls @ rest)) = fitting k (take n ls)"
proof (induction ls arbitrary: n k)
  case Nil
  then show ?case by (cases n; cases k) (auto simp: encode_qname_def)
next
  case (Cons l ls)
  then have l: "wire_label l" and ih: "qname_labels m (take j (encode_qname ls @ rest)) = fitting j (take m ls)" for m j
    by auto
  show ?case
  proof (cases n)
    case (Suc m)
    show ?thesis
    proof (cases k)
      case (Suc j)
      let ?bs = "map (\<lambda>c. of_nat (of_char c)) l :: byte list"
      have e: "take k (encode_qname (l # ls) @ rest) = of_nat (length l) # take j (?bs @ encode_qname ls @ rest)"
        by (simp add: encode_qname_def encode_label_def Suc)
      have ok: "(of_nat (length l) :: byte) \<noteq> 0" "unat (of_nat (length l) :: byte) = length l"
        "(of_nat (length l) :: byte) AND 0xC0 = 0" "length l \<le> 63"
        using label_length_ok [of "length l"] l by (auto simp: wire_label_def)
      have d: "decode ?bs = l" using decode_encode l by (simp add: wire_label_def)
      show ?thesis unfolding e \<open>n = Suc m\<close> using ok d ih [of m "j - length l"]
        by (auto simp: Suc encode_qname_def)
    qed (simp add: \<open>n = Suc m\<close>)
  qed (cases k; simp)
qed

lemma length_encode_qname:
  "length (encode_qname ls) = Suc (sum_list (map (\<lambda>l. Suc (length l)) ls))"
  by (induction ls) (auto simp: encode_qname_def encode_label_def)

text \<open>The first 32 labels of the name that fit in the bytes the probe copies.\<close>

definition seen_labels :: "string list \<Rightarrow> string list" where
  "seen_labels ls = fitting (PAYLOAD_MAX - 12) (take MAX_LABELS ls)"

lemma parse_question:
  assumes "list_all wire_label ls" "length hdr = 12" "k > 12"
  shows "parse_dns_qname (take k (hdr @ encode_qname ls @ rest)) = join_with ''.'' (fitting (k - 12) (take MAX_LABELS ls))"
proof -
  have "drop 12 (take k (hdr @ encode_qname ls @ rest)) = take (k - 12) (encode_qname ls @ rest)"
    using assms by (simp add: drop_take)
  moreover have "length (take k (hdr @ encode_qname ls @ rest)) \<ge> 13" using assms by (simp add: length_encode_qname)
  then have "\<not> length (take k (hdr @ encode_qname ls @ rest)) < 13" by simp
  ultimately show ?thesis
    unfolding parse_dns_qname_def by (simp only: if_False qname_labels_encode [OF assms(1)])
qed

lemma decode_nonempty: "wire_label l \<Longrightarrow> join_with ''.'' (l # ls) \<noteq> []"
  by (cases ls) (auto simp: wire_label_def)

lemma seen_nonempty:
  assumes "list_all wire_label ls" "ls \<noteq> []"
  shows "join_with ''.'' (seen_labels ls) \<noteq> []"
proof -
  obtain l ls' where ls: "ls = l # ls'" using assms(2) by (cases ls) auto
  have "wire_label l" using assms(1) ls by simp
  then have "length l < 244" by (simp add: wire_label_def)
  with \<open>wire_label l\<close> show ?thesis
    using decode_nonempty [of l "fitting (243 - length l) (take 31 ls')"]
    by (simp add: seen_labels_def ls PAYLOAD_MAX_def MAX_LABELS_def)
qed

lemma probe_question:
  assumes "length hdr = 12" "ls \<noteq> []" "msg = hdr @ encode_qname ls @ rest" "length msg \<le> 512"
  shows "probe_udp_sendmsg pid uid daddr comm (Some (length msg, msg)) iov
    = [dns_record pid uid daddr comm (take PAYLOAD_MAX msg)]"
proof -
  have "length msg \<ge> 13" using assms by (simp add: length_encode_qname)
  moreover have "take (min (length msg) PAYLOAD_MAX) msg = take PAYLOAD_MAX msg"
    by (metis append_take_drop_id length_take take_all_iff linorder_le_cases min.absorb1 min.absorb2)
  ultimately show ?thesis using assms(4) by (simp add: probe_udp_sendmsg_def readable_def)
qed

lemma record_payload:
  "length bs \<le> PAYLOAD_MAX \<Longrightarrow>
    take (unat (de_payload_len (dns_record pid uid daddr comm bs))) (de_payload (dns_record pid uid daddr comm bs)) = bs"
proof -
  assume a: "length bs \<le> PAYLOAD_MAX"
  then have "unat (of_nat (length bs) :: 16 word) = length bs"
    by (simp add: unat_of_nat PAYLOAD_MAX_def)
  then show ?thesis by (simp add: dns_record_def)
qed

lemma process_question:
  assumes "length hdr = 12" "list_all wire_label ls" "ls \<noteq> []" "uint pid \<noteq> ce_agent_pid env"
    and m: "msg = hdr @ encode_qname ls @ rest"
  shows "\<exists>r. process_dns_event env (dns_record pid uid daddr comm (take PAYLOAD_MAX msg)) = Some r
    \<and> rv_source r = ''ebpf_dns'' \<and> rv_timestamp r = ce_now env
    \<and> d_get (rv_fields r) ''pid'' = Some (int_str (uint pid))
    \<and> d_get (rv_fields r) ''name'' = Some (decode (c_string comm))
    \<and> d_get (rv_fields r) ''query_domain'' = Some (join_with ''.'' (seen_labels ls))
    \<and> d_get (rv_fields r) ''resolved_ips'' = Some []"
proof -
  let ?bs = "take PAYLOAD_MAX msg" and ?e = "dns_record pid uid daddr comm (take PAYLOAD_MAX msg)"
  have p: "take (unat (de_payload_len ?e)) (de_payload ?e) = ?bs" by (rule record_payload) simp
  have q: "parse_dns_qname ?bs = join_with ''.'' (seen_labels ls)"
    unfolding m seen_labels_def using assms(1,2) by (intro parse_question) (auto simp: PAYLOAD_MAX_def)
  have "length ?bs \<ge> 13" using assms(1) by (simp add: m length_encode_qname PAYLOAD_MAX_def)
  moreover have "de_pid ?e = pid" "de_comm ?e = comm" by (simp_all add: dns_record_def)
  ultimately show ?thesis using seen_nonempty [OF assms(2,3)] assms(4)
    unfolding process_dns_event_def Let_def p q by (simp add: d_get_def)
qed

lemma normalize_dns_source: "rv_source r = ''ebpf_dns'' \<Longrightarrow> normalize env r = map_option DnsActivity (normalize_dns env r)"
  by (simp add: normalize_def NORMALIZERS_def d_get_def)

lemma field_get: "d_get (rv_fields r) k = Some v \<Longrightarrow> field r k = v" "d_get (rv_fields r) k = Some v \<Longrightarrow> field_or r k d = v"
  by (simp_all add: field_def field_or_def d_get_or_def d_get_def)

text \<open>C27. From the wire to the normalised event: the query a process sends to port 53 becomes a DNS
  activity of that process whose domain is the name asked, cut after the labels that fit in the
  first 256 bytes of the message and after 32 labels.\<close>

theorem dns_query_end_to_end:
  assumes "length hdr = 12" "list_all wire_label ls" "ls \<noteq> []" "uint pid \<noteq> ce_agent_pid env" "pid \<noteq> 0"
    and "msg = hdr @ encode_qname ls @ rest" "length msg \<le> 512"
  shows "\<exists>e r a. probe_udp_sendmsg pid uid daddr comm (Some (length msg, msg)) iov = [e]
    \<and> process_dns_event env e = Some r \<and> normalize nenv r = Some (DnsActivity a)
    \<and> da_time a = ce_now env \<and> da_process a = Some (simple_process (uint pid) (decode (c_string comm)))
    \<and> da_query_domain a = join_with ''.'' (seen_labels ls) \<and> da_resolved_ips a = []"
proof -
  let ?e = "dns_record pid uid daddr comm (take PAYLOAD_MAX msg)"
  note pr = probe_question [OF assms(1,3,6,7)]
  obtain r where r: "process_dns_event env ?e = Some r" "rv_source r = ''ebpf_dns''" "rv_timestamp r = ce_now env"
    and g: "d_get (rv_fields r) ''pid'' = Some (int_str (uint pid))" "d_get (rv_fields r) ''name'' = Some (decode (c_string comm))"
      "d_get (rv_fields r) ''query_domain'' = Some (join_with ''.'' (seen_labels ls))"
      "d_get (rv_fields r) ''resolved_ips'' = Some []"
    using process_question [OF assms(1-4,6)] by metis
  have p: "uint pid \<noteq> 0" using assms(5) by (metis unsigned_0 word_uint_eq_iff)
  have n: "first_nonempty [field r ''name'', field r ''process_name''] = decode (c_string comm)"
    using r(1) g(2) by (auto simp: process_dns_event_def Let_def field_def d_get_or_def d_get_def split: if_splits)
  have "\<exists>a. normalize_dns nenv r = Some a \<and> da_time a = ce_now env
      \<and> da_process a = Some (simple_process (uint pid) (decode (c_string comm)))
      \<and> da_query_domain a = join_with ''.'' (seen_labels ls) \<and> da_resolved_ips a = []"
    using seen_nonempty [OF assms(2,3)] p unfolding normalize_dns_def n
    by (simp add: g [THEN field_get(1)] g(1) [THEN field_get(2)] py_int_str r(3) ip_list_def maybe_process_def)
  then show ?thesis using pr r(1) normalize_dns_source [OF r(2), of nenv] by fastforce
qed

definition env1 :: collect_env where
  "env1 = \<lparr>ce_now = 7, ce_isoformat = (\<lambda>t. ''2026-01-01''), ce_loginuid = (\<lambda>p. None), ce_getpwuid = (\<lambda>u. None),
     ce_hostname = ''h'', ce_agent_pid = 999\<rparr>"

theorem dns_query_end_to_end_witness:
  "\<exists>e r a. probe_udp_sendmsg 42 0 0 [] (Some (30, replicate 12 0 @ encode_qname [''www'', ''evil'', ''org''] @ [0, 1, 0, 1])) None = [e]
     \<and> process_dns_event env1 e = Some r \<and> normalize plain_env r = Some (DnsActivity a) \<and> da_query_domain a = ''www.evil.org''"
proof -
  have q: "join_with ''.'' (seen_labels [''www'', ''evil'', ''org'']) = ''www.evil.org''" by code_simp
  have w: "list_all wire_label [''www'', ''evil'', ''org'']" by code_simp
  have l: "length (replicate 12 (0::byte) @ encode_qname [''www'', ''evil'', ''org''] @ [0, 1, 0, 1]) = 30" by code_simp
  from dns_query_end_to_end [OF _ w _ _ _ refl, of "replicate 12 0" "42" env1 "[0, 1, 0, 1]" 0 0 "[]" None plain_env]
  show ?thesis unfolding l q by (auto simp: env1_def)
qed

text \<open>The name asked is not what the agent sees: after 32 leading labels the rest of a name has no
  effect, so queries for two unrelated domains give the same event.\<close>

theorem leading_labels_hide_domain:
  assumes "length hdr = 12" "list_all wire_label pre" "length pre = MAX_LABELS"
    and "list_all wire_label s1" "list_all wire_label s2"
  shows "process_dns_event env (dns_record pid uid daddr comm (take PAYLOAD_MAX (hdr @ encode_qname (pre @ s1) @ rest)))
    = process_dns_event env (dns_record pid uid daddr comm (take PAYLOAD_MAX (hdr @ encode_qname (pre @ s2) @ rest)))"
proof -
  let ?e = "\<lambda>s. dns_record pid uid daddr comm (take PAYLOAD_MAX (hdr @ encode_qname (pre @ s) @ rest))"
  have p: "take (unat (de_payload_len (?e s))) (de_payload (?e s)) = take PAYLOAD_MAX (hdr @ encode_qname (pre @ s) @ rest)" for s
    by (rule record_payload) simp
  have q: "parse_dns_qname (take PAYLOAD_MAX (hdr @ encode_qname (pre @ s) @ rest)) = join_with ''.'' (seen_labels pre)"
    if "list_all wire_label s" for s
    unfolding seen_labels_def
    by (subst parse_question) (use assms that in \<open>auto simp: PAYLOAD_MAX_def\<close>)
  have f: "de_pid (?e s) = pid" "de_comm (?e s) = comm" "de_uid (?e s) = uid" "de_daddr (?e s) = daddr" for s
    by (simp_all add: dns_record_def)
  have l: "length (take PAYLOAD_MAX (hdr @ encode_qname (pre @ s) @ rest)) \<ge> 13" for s
    using assms(1) by (simp add: length_encode_qname PAYLOAD_MAX_def)
  show ?thesis
    unfolding process_dns_event_def Let_def p f q [OF assms(4)] q [OF assms(5)] using l [of s1] l [of s2] by simp
qed

theorem leading_labels_hide_domain_witness:
  "process_dns_event env1 (dns_record 42 0 0 [] (take PAYLOAD_MAX (replicate 12 0 @ encode_qname (replicate 32 ''a'' @ [''evil'', ''com'']) @ [0, 1])))
    = process_dns_event env1 (dns_record 42 0 0 [] (take PAYLOAD_MAX (replicate 12 0 @ encode_qname (replicate 32 ''a'' @ [''good'', ''org'']) @ [0, 1])))"
proof -
  have w: "list_all wire_label (replicate 32 ''a'')" "list_all wire_label [''evil'', ''com'']" "list_all wire_label [''good'', ''org'']"
    by code_simp+
  show ?thesis by (rule leading_labels_hide_domain [OF _ w(1) _ w(2,3)]) (simp_all add: MAX_LABELS_def)
qed

text \<open>The address whose bytes in network order are the bytes of the word in memory.\<close>

definition net_addr :: "32 word \<Rightarrow> 32 word" where
  "net_addr w = of_int (bytes_val 256 0 (map uint (pack_u32 w)))"

text \<open>From the kernel to the rules: a connection the kernel reports becomes a network activity of the
  process whose peer address, parsed as the IP rules and the classifiers parse it, is the
  address connected to in network byte order, with its port; the source port is lost.\<close>

theorem connection_end_to_end:
  assumes "uint (ve_pid e) \<noteq> ce_agent_pid env" "ve_pid e \<noteq> 0"
  shows "\<exists>r a d. process_network_event env e = Some r \<and> normalize nenv r = Some (NetworkActivity a)
    \<and> na_time a = ce_now env \<and> na_process a = Some (simple_process (uint (ve_pid e)) (decode (c_string (ve_comm e))))
    \<and> na_dst_endpoint a = Some d \<and> ip_address (ne_ip d) = Some (V4 (net_addr (ve_daddr e)))
    \<and> ne_port d = uint (ntohs (ve_dport e)) \<and> map_option ne_port (na_src_endpoint a) = Some 0"
proof -
  obtain r where r: "process_network_event env e = Some r" "rv_source r = ''ebpf_network''" "rv_timestamp r = ce_now env"
    and g: "d_get (rv_fields r) ''pid'' = Some (int_str (uint (ve_pid e)))"
      "d_get (rv_fields r) ''process_name'' = Some (decode (c_string (ve_comm e)))"
      "d_get (rv_fields r) ''dst_ip'' = Some (inet_ntop (pack_u32 (ve_daddr e)))"
      "d_get (rv_fields r) ''dst_port'' = Some (int_str (uint (ntohs (ve_dport e))))"
      "d_get (rv_fields r) ''src_ip'' = Some (inet_ntop (pack_u32 (ve_saddr e)))"
      "d_get (rv_fields r) ''src_port'' = Some ''0''"
    using assms(1) unfolding process_network_event_def Let_def by (simp add: d_get_def)
  note g = g [THEN field_get(1)] g [THEN field_get(2)]
  have z: "py_int ''0'' = Some 0" by code_simp
  have p: "uint (ve_pid e) \<noteq> 0" using assms(2) by (metis unsigned_0 word_uint_eq_iff)
  have ip: "ip_address (inet_ntop (pack_u32 (ve_daddr e))) = Some (V4 (net_addr (ve_daddr e)))"
    unfolding net_addr_def by (rule inet_ntop_parse) (simp add: pack_u32_def)
  have "\<exists>a d. normalize_network nenv r = Some a \<and> na_time a = ce_now env
      \<and> na_process a = Some (simple_process (uint (ve_pid e)) (decode (c_string (ve_comm e))))
      \<and> na_dst_endpoint a = Some d \<and> ip_address (ne_ip d) = Some (V4 (net_addr (ve_daddr e)))
      \<and> ne_port d = uint (ntohs (ve_dport e)) \<and> map_option ne_port (na_src_endpoint a) = Some 0"
    using p ip by (simp add: normalize_network_def endpoint_of_def g inet_ntop_nonempty py_int_str z r(3) maybe_process_def)
  moreover have "normalize nenv r = map_option NetworkActivity (normalize_network nenv r)"
    by (simp add: normalize_def NORMALIZERS_def d_get_def r(2))
  ultimately show ?thesis using r(1) by fastforce
qed

definition conn1 :: ipv4_event where
  "conn1 = \<lparr>ve_pid = 42, ve_uid = 0, ve_saddr = 0x0100007F, ve_daddr = 0x0101A8C0, ve_dport = 0xBB01, ve_comm = [99, 0]\<rparr>"

theorem connection_end_to_end_witness:
  "\<exists>r a d. process_network_event env1 conn1 = Some r \<and> normalize plain_env r = Some (NetworkActivity a)
    \<and> na_dst_endpoint a = Some d \<and> ip_address (ne_ip d) = Some (V4 0xC0A80101) \<and> ne_port d = 443"
proof -
  have n: "net_addr (ve_daddr conn1) = 0xC0A80101" "uint (ntohs (ve_dport conn1)) = 443" by code_simp+
  have "uint (ve_pid conn1) \<noteq> ce_agent_pid env1" "ve_pid conn1 \<noteq> 0" by code_simp+
  from connection_end_to_end [OF this, of plain_env] show ?thesis unfolding n by blast
qed

text \<open>File events: the agent's own are dropped, and so is every path outside the watched prefixes, among
  them every relative path; a watched one becomes a file activity with the delete, create or
  modify activity its kernel record states.\<close>

theorem file_event_classified:
  assumes "uint (fe_pid e) \<noteq> ce_agent_pid env" "fe_pid e \<noteq> 0" "f = decode (c_string (fe_filename e))"
  shows "if list_ex (\<lambda>p. prefix p f) WATCHED_PREFIXES
    then \<exists>r a. process_file_event env e = Some r \<and> normalize nenv r = Some (FileActivity a)
      \<and> fa_file_path a = f \<and> hd f = CHR ''/''
      \<and> fa_activity_id a = (if fe_is_delete e \<noteq> 0 then 4 else if fe_flags e AND O_CREAT \<noteq> 0 then 1 else 3)
      \<and> map_option pi_pid (fa_process a) = Some (uint (fe_pid e))
    else process_file_event env e = None"
proof (cases "list_ex (\<lambda>p. prefix p f) WATCHED_PREFIXES")
  case True
  then have f: "f \<noteq> []" "hd f = CHR ''/''" by (auto simp: WATCHED_PREFIXES_def prefix_def)
  obtain r where r: "process_file_event env e = Some r" "rv_source r = ''ebpf_'' @ file_event_type e"
    and g: "d_get (rv_fields r) ''pid'' = Some (int_str (uint (fe_pid e)))"
      "d_get (rv_fields r) ''file_path'' = Some f" "d_get (rv_fields r) ''event_type'' = Some (file_event_type e)"
    using assms(1) True unfolding process_file_event_def Let_def assms(3) [symmetric] by (simp add: d_get_def)
  have p: "uint (fe_pid e) \<noteq> 0" using assms(2) by (metis unsigned_0 word_uint_eq_iff)
  have act: "file_activity_id (file_event_type e) = (if fe_is_delete e \<noteq> 0 then 4 else if fe_flags e AND O_CREAT \<noteq> 0 then 1 else 3)"
    by (simp add: file_event_type_def file_activity_id_def d_get_or_def)
  have "\<exists>a. normalize_file nenv r = Some a \<and> fa_file_path a = f \<and> fa_activity_id a = file_activity_id (file_event_type e)
      \<and> map_option pi_pid (fa_process a) = Some (uint (fe_pid e))"
    using p f unfolding normalize_file_def
    by (simp add: g [THEN field_get(1)] g [THEN field_get(2)] py_int_str maybe_process_def simple_process_def Let_def
        split: prod.splits)
  moreover have "normalize nenv r = map_option FileActivity (normalize_file nenv r)"
    by (simp add: normalize_def NORMALIZERS_def d_get_def r(2) file_event_type_def)
  ultimately show ?thesis using True r(1) f(2) act by fastforce
next
  case False
  then show ?thesis unfolding process_file_event_def Let_def assms(3) [symmetric] by simp
qed

definition unlink_passwd :: file_event where
  "unlink_passwd = \<lparr>fe_pid = 42, fe_uid = 0, fe_flags = 0, fe_is_delete = 1, fe_comm = [114, 109, 0],
     fe_filename = [112, 97, 115, 115, 119, 100, 0]\<rparr>"

theorem file_event_classified_witness:
  "process_file_event env1 unlink_passwd = None"
proof -
  have f: "''passwd'' = decode (c_string (fe_filename unlink_passwd))" by code_simp
  have w: "\<not> list_ex (\<lambda>p. prefix p ''passwd'') WATCHED_PREFIXES" by code_simp
  have "uint (fe_pid unlink_passwd) \<noteq> ce_agent_pid env1" "fe_pid unlink_passwd \<noteq> 0" by code_simp+
  from file_event_classified [OF this f, of plain_env] show ?thesis unfolding if_not_P [OF w] .
qed

end
