(* ===== verification/AuditEtw.thy ===== *)
theory AuditEtw
  imports Normalizer Collectors
begin

text \<open>
  Two more push collectors, composed with the normaliser: the Linux audit collector
  (\<open>agent/collectors/auditd_collector.py\<close>), with its netlink framing and its parser of
  \<open>key=value\<close> records, and the Windows ETW collector (\<open>agent/collectors/etw_collector.py\<close>).
  Both buffer with the deque of \<open>Collectors\<close>.
\<close>

unbundle bit_operations_syntax

section \<open>Netlink framing\<close>

definition NLMSG_HDR_SIZE :: nat where
  "NLMSG_HDR_SIZE = 16"

definition le_val :: "byte list \<Rightarrow> nat" where
  "le_val bs = foldr (\<lambda>b n. unat b + 256 * n) bs 0"

text \<open>The length and the type of the header at an offset.\<close>

definition msg_len_at :: "byte list \<Rightarrow> nat \<Rightarrow> nat" where
  "msg_len_at data off = le_val (take 4 (drop off data))"

definition msg_type_at :: "byte list \<Rightarrow> nat \<Rightarrow> nat" where
  "msg_type_at data off = le_val (take 2 (drop (off + 4) data))"

definition align4 :: "nat \<Rightarrow> nat" where
  "align4 m = nat ((int m + 3) AND NOT 3)"

lemma Suc_Suc_diff: "2 \<le> n \<Longrightarrow> Suc (Suc (n - 2)) = n"
  by simp

lemma align4_eq: "align4 m = 4 * ((m + 3) div 4)"
proof -
  have "x AND NOT (mask 2) = push_bit 2 (drop_bit 2 x)" for x :: int
    by (rule bit_eqI) (auto simp: bit_simps not_less Suc_Suc_diff)
  then have "x AND NOT 3 = (x div 4) * 4" for x :: int
    by (simp add: mask_eq_exp_minus_1 push_bit_eq_mult drop_bit_eq_div)
  then show ?thesis by (simp add: align4_def nat_mult_distrib nat_div_distrib nat_add_distrib)
qed

function parse_netlink_messages :: "byte list \<Rightarrow> nat \<Rightarrow> (nat \<times> byte list) list" where
  "parse_netlink_messages data off =
     (if off \<ge> length data then []
      else if off + NLMSG_HDR_SIZE > length data then []
      else if msg_len_at data off < NLMSG_HDR_SIZE \<or> off + msg_len_at data off > length data then []
      else (msg_type_at data off, take (msg_len_at data off - NLMSG_HDR_SIZE) (drop (off + NLMSG_HDR_SIZE) data))
        # parse_netlink_messages data (off + align4 (msg_len_at data off)))"
  by pat_completeness auto
termination
  by (relation "measure (\<lambda>(data, off). length data - off)") (auto simp: align4_eq NLMSG_HDR_SIZE_def)

declare parse_netlink_messages.simps [simp del]

section \<open>Audit records\<close>

definition word_char :: "char \<Rightarrow> bool" where
  "word_char c = (let n = (of_char c :: int) in (48 \<le> n \<and> n \<le> 57) \<or> (65 \<le> n \<and> n \<le> 90) \<or> (97 \<le> n \<and> n \<le> 122) \<or> n = 95)"

text \<open>The rest of a quoted value after its opening quote: its text and what follows the closing quote.
  A backslash takes the next character with it, unless that is a newline.\<close>

fun quoted_rest :: "string \<Rightarrow> (string \<times> string) option" where
  "quoted_rest [] = None"
| "quoted_rest [c] = (if c = double_quote then Some ([], []) else None)"
| "quoted_rest (c # d # s) =
     (if c = double_quote then Some ([], d # s)
      else if c = CHR 0x5C then
        (if d = CHR 0x0A then None else map_option (\<lambda>(v, r). (c # d # v, r)) (quoted_rest s))
      else map_option (\<lambda>(v, r). (c # v, r)) (quoted_rest (d # s)))"

text \<open>The value alternative of the pattern, with its quotes.\<close>

definition kv_value :: "string \<Rightarrow> (string \<times> string) option" where
  "kv_value s =
     (case (if s \<noteq> [] \<and> hd s = double_quote then quoted_rest (tl s) else None) of
        Some (v, r) \<Rightarrow> Some (double_quote # v @ [double_quote], r)
      | None \<Rightarrow> (let v = takeWhile (\<lambda>c. \<not> py_space c) s
                 in if v = [] then None else Some (v, drop (length v) s)))"

text \<open>One attempt of the pattern at the head of the text: key, value and the rest.\<close>

definition kv_match :: "string \<Rightarrow> (string \<times> string \<times> string) option" where
  "kv_match s =
     (let k = takeWhile word_char s; r = drop (length k) s
      in if k = [] \<or> r = [] \<or> hd r \<noteq> CHR ''='' then None
         else map_option (\<lambda>(v, r'). (k, v, r')) (kv_value (tl r)))"

lemma quoted_rest_shorter: "quoted_rest s = Some (v, r) \<Longrightarrow> length r < length s"
  by (induction s arbitrary: v r rule: quoted_rest.induct) (auto split: if_splits)

lemma kv_value_shorter: "kv_value s = Some (v, r) \<Longrightarrow> length r < length s"
proof -
  assume a: "kv_value s = Some (v, r)"
  then have ne: "s \<noteq> []" by (cases s) (auto simp: kv_value_def)
  show ?thesis
  proof (cases "if s \<noteq> [] \<and> hd s = double_quote then quoted_rest (tl s) else None")
    case None
    with a ne show ?thesis by (auto simp: kv_value_def Let_def split: if_splits)
  next
    case (Some p)
    with a have "quoted_rest (tl s) = Some (butlast (tl v), r)" by (auto simp: kv_value_def split: if_splits prod.splits)
    then have "length r < length (tl s)" by (rule quoted_rest_shorter)
    then show ?thesis by simp
  qed
qed

lemma kv_match_shorter: "kv_match s = Some (k, v, r) \<Longrightarrow> length r < length s"
  by (auto simp: kv_match_def Let_def dest!: kv_value_shorter split: if_splits)

function kv_scan :: "string \<Rightarrow> (string \<times> string) list" where
  "kv_scan s = (case s of [] \<Rightarrow> []
     | c # cs \<Rightarrow> (case kv_match s of Some (k, v, r) \<Rightarrow> (k, v) # kv_scan r | None \<Rightarrow> kv_scan cs))"
  by pat_completeness auto
termination
  by (relation "measure length") (auto dest: kv_match_shorter)

declare kv_scan.simps [simp del]

definition unquote :: "string \<Rightarrow> string" where
  "unquote v = (if v \<noteq> [] \<and> hd v = double_quote \<and> last v = double_quote then butlast (tl v) else v)"

definition audit_fields :: "string \<Rightarrow> (string, string) dict" where
  "audit_fields text = foldl (\<lambda>d (k, v). d_set k (unquote v) d) [] (kv_scan text)"

definition parse_audit_kv :: "string \<Rightarrow> (string, string) dict" where
  "parse_audit_kv text =
     (let d = audit_fields text;
          d = (if d_get d ''pid'' = None \<and> d_get d ''a0'' \<noteq> None then d_set ''pid'' (d_get_or d ''pid'' ''0'') d else d);
          d = (case d_get d ''exe'' of None \<Rightarrow> d | Some x \<Rightarrow> d_set ''name'' (after_last CHR ''/'' x) d)
      in case d_get d ''comm'' of None \<Rightarrow> d
         | Some x \<Rightarrow> if d_get d ''name'' = None then d_set ''name'' x d else d)"

definition AUDIT_SYSCALL :: nat where
  "AUDIT_SYSCALL = 1300"

definition AUDIT_EXECVE :: nat where
  "AUDIT_EXECVE = 1309"

definition strip_nul :: "string \<Rightarrow> string" where
  "strip_nul s = rev (dropWhile (\<lambda>c. c = CHR 0x00) (rev (dropWhile (\<lambda>c. c = CHR 0x00) s)))"

definition handle_audit_message :: "datetime \<Rightarrow> string \<Rightarrow> nat \<Rightarrow> byte list \<Rightarrow> raw_event option" where
  "handle_audit_message now host ty payload =
     (let text = py_strip (strip_nul (decode payload)) in
      if text = [] then None
      else Some \<lparr>rv_timestamp = now,
        rv_source = (if ty = AUDIT_EXECVE then ''auditd_execve''
          else if ty = AUDIT_SYSCALL then ''auditd_syscall'' else ''auditd_syscall''),
        rv_message = text, rv_fields = parse_audit_kv text, rv_hostname = host\<rparr>)"

text \<open>One datagram: the raw events appended to the buffer.\<close>

definition audit_datagram :: "datetime \<Rightarrow> string \<Rightarrow> byte list \<Rightarrow> raw_event list" where
  "audit_datagram now host data =
     List.map_filter (\<lambda>(ty, p). handle_audit_message now host ty p) (parse_netlink_messages data 0)"

section \<open>ETW\<close>

definition PROVIDERS :: "(string \<times> string) list" where
  "PROVIDERS = [(''Microsoft-Windows-Kernel-Process'', ''process''), (''Microsoft-Windows-Kernel-Network'', ''network''),
     (''Microsoft-Windows-DNS-Client'', ''dns''), (''Microsoft-Windows-Kernel-File'', ''file''),
     (''Microsoft-Windows-Kernel-Registry'', ''registry'')]"

definition SOURCE_MAP :: "string \<Rightarrow> string" where
  "SOURCE_MAP c = d_get_or [(''process'', ''etw_process''), (''network'', ''etw_network''), (''dns'', ''etw_dns''),
     (''file'', ''etw_file''), (''registry'', ''etw_registry'')] c []"

definition classify_event :: "(string, string) dict \<Rightarrow> string" where
  "classify_event data =
     (let provider = d_get_or data ''ProviderName'' [] in
      case find (\<lambda>(n, c). py_contains n provider) PROVIDERS of
        Some (n, c) \<Rightarrow> SOURCE_MAP c | None \<Rightarrow> ''etw_process'')"

definition ETW_KEYS :: "string list" where
  "ETW_KEYS = [''ProcessId'', ''ImageFileName'', ''CommandLine'', ''SourceAddress'', ''DestAddress'', ''SourcePort'',
     ''DestPort'', ''QueryName'', ''QueryResults'', ''FileName'', ''KeyName'', ''ValueName'']"

definition COMMON_NAMES :: "(string \<times> string) list" where
  "COMMON_NAMES = [(''processid'', ''pid''), (''imagefilename'', ''name''), (''commandline'', ''cmdline''),
     (''destaddress'', ''dst_ip''), (''destport'', ''dst_port''), (''sourceaddress'', ''src_ip''), (''sourceport'', ''src_port'')]"

text \<open>An event holds the text of each value present and not \<open>None\<close>.\<close>

definition extract_fields :: "(string, string) dict \<Rightarrow> (string, string) dict" where
  "extract_fields data =
     (let d = foldl (\<lambda>d k. case d_get data k of None \<Rightarrow> d | Some v \<Rightarrow> d_set (py_lower k) v d) [] ETW_KEYS
      in foldl (\<lambda>d (k, k'). case d_get d k of None \<Rightarrow> d | Some v \<Rightarrow> d_set k' v d) d COMMON_NAMES)"

definition on_etw_event :: "datetime \<Rightarrow> string \<Rightarrow> (string, string) dict \<Rightarrow> raw_event" where
  "on_etw_event now host data =
     \<lparr>rv_timestamp = now, rv_source = classify_event data, rv_message = d_get_or data ''EventName'' [],
      rv_fields = extract_fields data, rv_hostname = host\<rparr>"

section \<open>Properties\<close>

fun le_bytes :: "nat \<Rightarrow> nat \<Rightarrow> byte list" where
  "le_bytes 0 n = []"
| "le_bytes (Suc k) n = of_nat n # le_bytes k (n div 256)"

text \<open>A message as the kernel writes it: header, payload, padding to four bytes.\<close>

definition encode_message :: "nat \<times> byte list \<Rightarrow> byte list" where
  "encode_message m = (case m of (ty, p) \<Rightarrow>
     le_bytes 4 (16 + length p) @ le_bytes 2 ty @ replicate 10 0 @ p @ replicate (align4 (16 + length p) - (16 + length p)) 0)"

lemma le_val_bytes: "le_val (le_bytes k n) = n mod 256 ^ k"
  by (induction k arbitrary: n) (simp_all add: le_val_def unat_of_nat mod_mult2_eq)

lemma length_le_bytes [simp]: "length (le_bytes k n) = k"
  by (induction k arbitrary: n) simp_all

lemma align4_ge: "m \<le> align4 m"
  by (simp add: align4_eq)

lemma length_encode: "length (encode_message (ty, p)) = align4 (16 + length p)"
  using align4_ge [of "16 + length p"] by (simp add: encode_message_def)

lemma parse_encoded:
  assumes "\<forall>(ty, p) \<in> set ms. ty < 2 ^ 16 \<and> 16 + length p < 2 ^ 32"
  shows "parse_netlink_messages (pre @ concat (map encode_message ms)) (length pre) = ms"
  using assms
proof (induction ms arbitrary: pre)
  case Nil
  then show ?case by (simp add: parse_netlink_messages.simps)
next
  case (Cons m ms)
  obtain ty p where m: "m = (ty, p)" by (cases m)
  let ?e = "encode_message m" and ?data = "pre @ concat (map encode_message (m # ms))" and ?n = "16 + length p"
  let ?rest = "p @ replicate (align4 ?n - ?n) 0 @ concat (map encode_message ms)"
  have d: "drop (length pre) ?data = le_bytes 4 ?n @ le_bytes 2 ty @ replicate 10 0 @ ?rest"
    by (simp add: m encode_message_def)
  have len: "msg_len_at ?data (length pre) = ?n"
    using Cons.prems m unfolding msg_len_at_def d by (simp add: le_val_bytes)
  have dr: "drop (length pre + k) ?data = drop k (le_bytes 4 ?n @ le_bytes 2 ty @ replicate 10 0 @ ?rest)" for k
    unfolding d [symmetric] drop_drop by (simp only: add.commute)
  have ty: "msg_type_at ?data (length pre) = ty"
    using Cons.prems m unfolding msg_type_at_def dr by (simp add: le_val_bytes)
  have pay: "take (?n - NLMSG_HDR_SIZE) (drop (length pre + NLMSG_HDR_SIZE) ?data) = p"
    unfolding dr by (simp add: NLMSG_HDR_SIZE_def)
  have l: "length ?data = length pre + align4 ?n + length (concat (map encode_message ms))"
    by (simp add: m length_encode)
  have next_off: "length pre + align4 ?n = length (pre @ ?e)" by (simp add: m length_encode)
  have "parse_netlink_messages ?data (length pre)
      = (ty, p) # parse_netlink_messages ?data (length pre + align4 ?n)"
    using align4_ge [of ?n] unfolding parse_netlink_messages.simps [of ?data "length pre"] len ty pay l
    by (simp add: NLMSG_HDR_SIZE_def)
  also have "parse_netlink_messages ?data (length pre + align4 ?n) = ms"
    unfolding next_off using Cons.IH [of "pre @ ?e"] Cons.prems by simp
  finally show ?case by (simp add: m)
qed

text \<open>Netlink framing: of a datagram of audit messages as the kernel writes them every message is
  handled, with its type and its payload, in order and none twice.\<close>

theorem netlink_roundtrip:
  assumes "\<forall>(ty, p) \<in> set ms. ty < 2 ^ 16 \<and> 16 + length p < 2 ^ 32"
  shows "parse_netlink_messages (concat (map encode_message ms)) 0 = ms"
  using parse_encoded [OF assms, of "[]"] by simp

theorem netlink_roundtrip_witness:
  "parse_netlink_messages (concat (map encode_message [(1300, [65]), (1309, [66, 67, 68])])) 0
     = [(1300, [65]), (1309, [66, 67, 68])]"
  by (rule netlink_roundtrip) simp

lemma keys_d_set [simp]: "set (d_keys (d_set k v d)) = insert k (set (d_keys d))"
  by (simp add: d_keys_def d_set_def flip: dom_map_of_conv_image_fst) (simp add: update_conv')

lemma set_audit_fields:
  "set (d_keys (foldl (\<lambda>d (k, v). d_set k (unquote v) d) d kvs)) = set (d_keys d) \<union> set (map fst kvs)"
  by (induction kvs arbitrary: d) auto

lemma get_none_keys: "d_get d k = None \<longleftrightarrow> k \<notin> set (d_keys d)"
  by (simp add: d_get_None d_keys_def)

definition NAME_KEYS :: "string list" where
  "NAME_KEYS = [''name'', ''program'', ''process'', ''exe'', ''image'', ''comm'']"

lemma field_none: "d_get (rv_fields r) k = None \<Longrightarrow> field r k = []" "d_get (rv_fields r) k = None \<Longrightarrow> field_or r k d = d"
  by (simp_all add: field_def field_or_def d_get_or_def d_get_def)

text \<open>The command line of a program the kernel audits never becomes an event: an EXECVE record holds
  the arguments but no name and no pid, and without these the normaliser drops it.\<close>

theorem execve_records_are_dropped:
  assumes "handle_audit_message now host AUDIT_EXECVE payload = Some r"
    and "set (map fst (kv_scan (rv_message r))) \<inter> set (''pid'' # ''ppid'' # NAME_KEYS) = {}"
  shows "rv_source r = ''auditd_execve'' \<and> normalize env r = None"
proof -
  have r: "rv_source r = ''auditd_execve''" "rv_fields r = parse_audit_kv (rv_message r)"
    using assms(1) by (auto simp: handle_audit_message_def Let_def AUDIT_EXECVE_def split: if_splits)
  let ?d = "audit_fields (rv_message r)"
  have keys: "set (d_keys ?d) = set (map fst (kv_scan (rv_message r)))"
    unfolding audit_fields_def set_audit_fields by (simp add: d_keys_def)
  have n: "d_get ?d k = None" if "k \<in> set (''pid'' # ''ppid'' # NAME_KEYS)" for k
    using assms(2) that unfolding get_none_keys keys by blast
  let ?a = "if d_get ?d ''a0'' = None then ?d else d_set ''pid'' ''0'' ?d"
  have f: "rv_fields r = ?a"
    using n by (simp add: r(2) parse_audit_kv_def Let_def NAME_KEYS_def d_get_set d_get_or_get)
  have nm: "d_get (rv_fields r) k = None" if "k \<in> set (''ppid'' # NAME_KEYS)" for k
    using n that unfolding f by (auto simp: d_get_set NAME_KEYS_def)
  have p: "field_or r ''pid'' ''0'' = ''0''" using n [of "''pid''"]
    by (simp add: field_or_def d_get_or_get f d_get_set)
  have z: "py_int ''0'' = Some 0" by code_simp
  have fs: "field r k = []" if "k \<in> set NAME_KEYS" for k using nm that by (intro field_none(1)) simp
  have pp: "field_or r ''ppid'' ''0'' = ''0''" using nm by (intro field_none(2)) simp
  have "normalize_process env r = None"
    unfolding normalize_process_def p pp using fs by (simp add: z NAME_KEYS_def basename_of_def Let_def split: prod.splits)
  then show ?thesis using r(1) by (simp add: normalize_def NORMALIZERS_def d_get_def)
qed

definition ascii_bytes :: "string \<Rightarrow> byte list" where
  "ascii_bytes s = map (\<lambda>c. of_nat (of_char c)) s"

text \<open>\<open>audit(1364481363.243:24287): argc=3 a0=\"curl\" a1=\"-o\" a2=\"x\"\<close>.\<close>

definition execve_record :: string where
  "execve_record = (let q = (\<lambda>s. double_quote # s @ [double_quote]) in
     ''audit(1364481363.243:24287): argc=3 a0='' @ q ''curl'' @ '' a1='' @ q ''-o'' @ '' a2='' @ q ''x'')"

theorem execve_records_are_dropped_witness:
  "case handle_audit_message 5 ''h'' AUDIT_EXECVE (ascii_bytes execve_record) of
     None \<Rightarrow> False | Some r \<Rightarrow> d_get (rv_fields r) ''a0'' = Some ''curl'' \<and> normalize plain_env r = None"
proof -
  have "(case handle_audit_message 5 ''h'' AUDIT_EXECVE (ascii_bytes execve_record) of
      None \<Rightarrow> False | Some r \<Rightarrow> d_get (rv_fields r) ''a0'' = Some ''curl''
        \<and> list_all (\<lambda>k. k \<notin> set (map fst (kv_scan (rv_message r)))) (''pid'' # ''ppid'' # NAME_KEYS))" by code_simp
  then obtain r where r: "handle_audit_message 5 ''h'' AUDIT_EXECVE (ascii_bytes execve_record) = Some r"
    "d_get (rv_fields r) ''a0'' = Some ''curl''"
    "list_all (\<lambda>k. k \<notin> set (map fst (kv_scan (rv_message r)))) (''pid'' # ''ppid'' # NAME_KEYS)"
    by (cases "handle_audit_message 5 ''h'' AUDIT_EXECVE (ascii_bytes execve_record)") simp_all
  have "set (map fst (kv_scan (rv_message r))) \<inter> set (''pid'' # ''ppid'' # NAME_KEYS) = {}"
    using r(3) unfolding list_all_iff by auto
  from execve_records_are_dropped [OF r(1) this] r show ?thesis by simp
qed

text \<open>\<open>audit(1.2:3): item=0 name=\"/etc/shadow\" mode=0100000\<close>, the PATH record (type 1302) of a file
  access.\<close>

definition path_record :: string where
  "path_record = ''audit(1.2:3): item=0 name='' @ double_quote # ''/etc/shadow'' @ double_quote # '' mode=0100000''"

text \<open>Every record type is taken for a system call, so the PATH record of a file access becomes the start
  of a process with the file's name and pid 0.\<close>

theorem path_record_becomes_process:
  "map (normalize plain_env) (audit_datagram 5 ''h'' (encode_message (1302, ascii_bytes path_record)))
    = [Some (ProcessActivity \<lparr>pa_activity_id = 1, pa_severity_id = 1, pa_time = 5, pa_actor = None,
         pa_process = simple_process 0 ''/etc/shadow'', pa_device = ''h'',
         pa_metadata = \<lparr>md_original_time = Some 5, md_log_source = ''auditd_syscall''\<rparr>\<rparr>)]"
proof -
  have "length (ascii_bytes path_record) < 2 ^ 32 - 16" by (simp add: ascii_bytes_def path_record_def)
  then have p: "parse_netlink_messages (encode_message (1302, ascii_bytes path_record)) 0 = [(1302, ascii_bytes path_record)]"
    using parse_encoded [of "[(1302, ascii_bytes path_record)]" "[]"] by simp
  have "map_option (normalize plain_env) (handle_audit_message 5 ''h'' 1302 (ascii_bytes path_record))
    = Some (Some (ProcessActivity \<lparr>pa_activity_id = 1, pa_severity_id = 1, pa_time = 5, pa_actor = None,
         pa_process = simple_process 0 ''/etc/shadow'', pa_device = ''h'',
         pa_metadata = \<lparr>md_original_time = Some 5, md_log_source = ''auditd_syscall''\<rparr>\<rparr>))" by code_simp
  then show ?thesis by (auto simp: audit_datagram_def p)
qed

section \<open>ETW properties\<close>

lemma fold_keys:
  assumes "\<And>d x. x \<in> set xs \<Longrightarrow> set (d_keys (f d x)) \<subseteq> set (d_keys d) \<union> K"
  shows "set (d_keys (foldl f d xs)) \<subseteq> set (d_keys d) \<union> K"
  using assms
proof (induction xs arbitrary: d)
  case (Cons x xs)
  have "set (d_keys (foldl f (f d x) xs)) \<subseteq> set (d_keys (f d x)) \<union> K" using Cons by auto
  with Cons.prems [of x d] show ?case by auto
qed simp

definition etw_key :: "string \<Rightarrow> bool" where
  "etw_key k \<longleftrightarrow> k \<in> set (map py_lower ETW_KEYS @ map snd COMMON_NAMES)"

lemma extract_keys: "d_get (extract_fields data) k = Some v \<Longrightarrow> etw_key k"
proof -
  let ?d = "foldl (\<lambda>d k. case d_get data k of None \<Rightarrow> d | Some v \<Rightarrow> d_set (py_lower k) v d) [] ETW_KEYS"
  have "set (d_keys ?d) \<subseteq> set (d_keys ([] :: (string, string) dict)) \<union> set (map py_lower ETW_KEYS)"
    by (rule fold_keys) (auto split: option.splits)
  then have s1: "set (d_keys ?d) \<subseteq> set (map py_lower ETW_KEYS)" unfolding d_keys_def list.map(1) list.set(1) Un_empty_left .
  have s2: "set (d_keys (extract_fields data)) \<subseteq> set (d_keys ?d) \<union> set (map snd COMMON_NAMES)"
    unfolding extract_fields_def Let_def by (rule fold_keys) (auto split: option.splits intro: rev_image_eqI)
  assume "d_get (extract_fields data) k = Some v"
  then have "k \<in> set (d_keys (extract_fields data))" by (metis get_none_keys option.distinct(1))
  then have "k \<in> set (d_keys ?d) \<union> set (map snd COMMON_NAMES)" by (rule subsetD [OF s2])
  then have "k \<in> set (map py_lower ETW_KEYS) \<union> set (map snd COMMON_NAMES)"
    by (rule subsetD [OF Un_mono [OF s1 order_refl]])
  then show ?thesis unfolding etw_key_def set_append .
qed

lemma etw_field_none: "\<not> etw_key k \<Longrightarrow> field (on_etw_event now host data) k = []"
  using extract_keys [of data k] by (cases "d_get (extract_fields data) k") (auto simp: on_etw_event_def field_def d_get_or_get)

lemma etw_sources: "classify_event data \<in> {''etw_process'', ''etw_network'', ''etw_dns'', ''etw_file'', ''etw_registry''}"
  by (auto simp: classify_event_def Let_def PROVIDERS_def SOURCE_MAP_def d_get_or_def split: option.splits)

text \<open>What ETW says about DNS, files and the registry does not arrive: whatever an event holds, its
  normalised form has an empty query name and no addresses, an empty file path and no hash, an
  empty registry path and no value.\<close>

theorem etw_activity_is_empty:
  assumes "normalize env (on_etw_event now host data) = Some ev"
  shows "case ev of
      DnsActivity a \<Rightarrow> da_query_domain a = [] \<and> da_resolved_ips a = []
    | FileActivity a \<Rightarrow> fa_file_path a = [] \<and> fa_file_hash a = None
    | RegistryActivity a \<Rightarrow> ra_reg_path a = [] \<and> ra_value_name a = None \<and> ra_value_data a = None
    | _ \<Rightarrow> True"
proof -
  let ?r = "on_etw_event now host data"
  have nk: "list_all (\<lambda>k. \<not> etw_key k) [''query_domain'', ''domain'', ''resolved_ips'', ''file_path'', ''path'',
      ''reg_path'', ''value_name'', ''value_data'']" by code_simp
  then have f: "field ?r ''query_domain'' = []" "field ?r ''domain'' = []" "field ?r ''resolved_ips'' = []"
    "field ?r ''file_path'' = []" "field ?r ''path'' = []" "field ?r ''reg_path'' = []" "field ?r ''value_name'' = []"
    "field ?r ''value_data'' = []" by (auto intro: etw_field_none)
  have "normalize_dns env ?r = Some a \<Longrightarrow> da_query_domain a = [] \<and> da_resolved_ips a = []" for a
    unfolding normalize_dns_def by (auto simp: f ip_list_def)
  moreover have "normalize_file env ?r = Some a \<Longrightarrow> fa_file_path a = [] \<and> fa_file_hash a = None" for a
    unfolding normalize_file_def by (auto simp: f Let_def)
  moreover have "normalize_registry env ?r = Some a \<Longrightarrow> ra_reg_path a = [] \<and> ra_value_name a = None \<and> ra_value_data a = None" for a
    unfolding normalize_registry_def by (auto simp: f Let_def opt_str_def)
  ultimately show ?thesis using assms unfolding normalize_def
    by (auto split: option.splits normalizer_kind.splits ocsf_event.splits)
qed

definition etw_dns :: "(string, string) dict" where
  "etw_dns = [(''ProviderName'', ''Microsoft-Windows-DNS-Client''), (''ProcessId'', ''42''), (''QueryName'', ''evil.com'')]"

theorem etw_activity_is_empty_witness:
  "\<exists>a. normalize plain_env (on_etw_event 5 ''h'' etw_dns) = Some (DnsActivity a) \<and> da_query_domain a = []"
proof -
  have "(case normalize plain_env (on_etw_event 5 ''h'' etw_dns) of Some (DnsActivity a) \<Rightarrow> True | _ \<Rightarrow> False)" by code_simp
  then obtain a where a: "normalize plain_env (on_etw_event 5 ''h'' etw_dns) = Some (DnsActivity a)"
    by (auto split: option.splits ocsf_event.splits)
  from etw_activity_is_empty [OF a] a show ?thesis by simp
qed

end
