(* ===== verification/ConnMeta.thy ===== *)
theory ConnMeta
  imports Collectors
begin

text \<open>
  Connection metadata (\<open>agent/collectors/connection_metadata.py\<close>): the parser of TLS ClientHello
  messages for the server name, the JA3 fingerprint, the tcpdump lines and the table they fill.
  MD5 is a parameter.  Reading past the end of the bytes raises in the code and is \<open>None\<close> here.
\<close>

unbundle bit_operations_syntax

section \<open>Reading bytes\<close>

definition u8_at :: "byte list \<Rightarrow> nat \<Rightarrow> nat option" where
  "u8_at bs i = (if i < length bs then Some (unat (bs ! i)) else None)"

text \<open>\<open>struct.unpack("!H", bs[i : i + 2])\<close>.\<close>

definition u16_at :: "byte list \<Rightarrow> nat \<Rightarrow> nat option" where
  "u16_at bs i = (if i + 2 \<le> length bs then Some (256 * unat (bs ! i) + unat (bs ! (i + 1))) else None)"

definition slice_bytes :: "byte list \<Rightarrow> nat \<Rightarrow> nat \<Rightarrow> byte list" where
  "slice_bytes bs i j = take (j - i) (drop i bs)"

definition decode_ignore :: "byte list \<Rightarrow> string" where
  "decode_ignore bs = map decode_byte (filter (\<lambda>b. unat b < 128) bs)"

section \<open>The server name of a ClientHello\<close>

definition sni_of_ext :: "byte list \<Rightarrow> string option" where
  "sni_of_ext d =
     (if length d < 5 then None
      else case u16_at d 3 of None \<Rightarrow> None
        | Some n \<Rightarrow> if length d \<ge> 5 + n then Some (decode_ignore (slice_bytes d 5 (5 + n))) else None)"

function sni_walk :: "byte list \<Rightarrow> nat \<Rightarrow> nat \<Rightarrow> string option" where
  "sni_walk bs off en =
     (if off + 4 \<le> en then
        (case (u16_at bs off, u16_at bs (off + 2)) of
           (Some ty, Some n) \<Rightarrow>
             if ty = 0 \<and> off + 4 + n \<le> en then sni_of_ext (slice_bytes bs (off + 4) (off + 4 + n))
             else sni_walk bs (off + 4 + n) en
         | _ \<Rightarrow> None)
      else None)"
  by pat_completeness auto
termination
  by (relation "measure (\<lambda>(bs, off, en). en - off)") auto

declare sni_walk.simps [simp del]

definition extract_sni_from_client_hello :: "byte list \<Rightarrow> string option" where
  "extract_sni_from_client_hello bs =
     (if length bs < 44 then None
      else if u8_at bs 0 \<noteq> Some 0x16 then None
      else if u8_at bs 5 \<noteq> Some 1 then None
      else case u8_at bs 43 of None \<Rightarrow> None
      | Some sess \<Rightarrow> let off = 44 + sess in
        (case u16_at bs off of None \<Rightarrow> None
        | Some ciphers \<Rightarrow> let off = off + 2 + ciphers in
          (case u8_at bs off of None \<Rightarrow> None
          | Some clen \<Rightarrow> let off = off + 1 + clen in
            (case u16_at bs off of None \<Rightarrow> None
            | Some exts \<Rightarrow> sni_walk bs (off + 2) (min (off + 2 + exts) (length bs))))))"

section \<open>The JA3 fingerprint\<close>

definition grease :: "nat \<Rightarrow> bool" where
  "grease n \<longleftrightarrow> n AND 0x0F0F = 0x0A0A"

text \<open>The 16-bit values at \<open>i, i + 2, \<dots>\<close> below \<open>en\<close> that lie within the bytes, without GREASE.\<close>

definition u16_values :: "byte list \<Rightarrow> nat \<Rightarrow> nat \<Rightarrow> nat list" where
  "u16_values bs i en = filter (\<lambda>v. \<not> grease v)
     (List.map_filter (\<lambda>k. u16_at bs (i + 2 * k)) [0 ..< (en - i + 1) div 2])"

definition curves_of_ext :: "byte list \<Rightarrow> nat list" where
  "curves_of_ext d = (case u16_at d 0 of None \<Rightarrow> [] | Some n \<Rightarrow> u16_values d 2 (min (2 + n) (length d)))"

definition formats_of_ext :: "byte list \<Rightarrow> nat list" where
  "formats_of_ext d = (case d of [] \<Rightarrow> []
     | n # _ \<Rightarrow> map unat (slice_bytes d 1 (min (1 + unat n) (length d))))"

text \<open>Types, curves and point formats of the extensions from an offset on.\<close>

function ja3_walk :: "byte list \<Rightarrow> nat \<Rightarrow> nat \<Rightarrow> (nat list \<times> nat list \<times> nat list) option" where
  "ja3_walk bs off en =
     (if off + 4 \<le> en then
        (case (u16_at bs off, u16_at bs (off + 2)) of
           (Some ty, Some n) \<Rightarrow>
             (let d = slice_bytes bs (off + 4) (off + 4 + n) in
              map_option (\<lambda>(ts, cs, fs). (if grease ty then ts else ty # ts,
                  (if ty = 10 then curves_of_ext d else []) @ cs, (if ty = 11 then formats_of_ext d else []) @ fs))
                (ja3_walk bs (off + 4 + n) en))
         | _ \<Rightarrow> None)
      else Some ([], [], []))"
  by pat_completeness auto
termination
  by (relation "measure (\<lambda>(bs, off, en). en - off)") auto

declare ja3_walk.simps [simp del]

definition dashed :: "nat list \<Rightarrow> string" where
  "dashed ns = join_with ''-'' (map (\<lambda>n. int_str (int n)) ns)"

definition ja3_string :: "nat \<Rightarrow> nat list \<Rightarrow> nat list \<Rightarrow> nat list \<Rightarrow> nat list \<Rightarrow> string" where
  "ja3_string ver ciphers exts curves formats =
     join_with '','' [int_str (int ver), dashed ciphers, dashed exts, dashed curves, dashed formats]"

definition compute_ja3 :: "(string \<Rightarrow> string) \<Rightarrow> byte list \<Rightarrow> string option" where
  "compute_ja3 md5 bs =
     (if length bs < 44 then None
      else if u8_at bs 5 \<noteq> Some 1 then None
      else case (u16_at bs 9, u8_at bs 43) of
        (Some ver, Some sess) \<Rightarrow> (let off = 44 + sess in
          case u16_at bs off of None \<Rightarrow> None
          | Some cl \<Rightarrow> let ciphers = u16_values bs (off + 2) (off + 2 + cl); off = off + 2 + cl in
            (case u8_at bs off of None \<Rightarrow> None
            | Some clen \<Rightarrow> let off = off + 1 + clen in
              (case u16_at bs off of
                 None \<Rightarrow> Some (md5 (ja3_string ver ciphers [] [] []))
               | Some el \<Rightarrow> map_option (\<lambda>(ts, cs, fs). md5 (ja3_string ver ciphers ts cs fs))
                   (ja3_walk bs (off + 2) (min (off + 2 + el) (length bs))))))
      | _ \<Rightarrow> None)"

section \<open>The table\<close>

record conn_row =
  cr_source_pid :: int
  cr_source_process :: string
  cr_dest_ip :: string
  cr_dest_port :: int
  cr_protocol :: string
  cr_start_time :: "datetime option"
  cr_tls_sni :: "string option"
  cr_ja3_hash :: "string option"
  cr_is_encrypted :: bool

definition store_connection_metadata :: "conn_row \<Rightarrow> conn_row list \<Rightarrow> conn_row list" where
  "store_connection_metadata m rows = rows @ [m]"

text \<open>A comparison with a missing time is not true.\<close>

definition started_before :: "datetime \<Rightarrow> conn_row \<Rightarrow> bool" where
  "started_before t r \<longleftrightarrow> (case cr_start_time r of None \<Rightarrow> False | Some s \<Rightarrow> s < t)"

definition started_since :: "datetime \<Rightarrow> conn_row \<Rightarrow> bool" where
  "started_since t r \<longleftrightarrow> (case cr_start_time r of None \<Rightarrow> False | Some s \<Rightarrow> t \<le> s)"

definition HOUR :: int where
  "HOUR = 3600000000"

definition get_connection_metadata :: "datetime \<Rightarrow> int option \<Rightarrow> int \<Rightarrow> conn_row list \<Rightarrow> conn_row list" where
  "get_connection_metadata now pid hours rows =
     (let keep = (\<lambda>r. started_since (now - hours * HOUR) r
            \<and> (case pid of None \<Rightarrow> True | Some p \<Rightarrow> if p > 0 then cr_source_pid r = p else True))
      in take 100 (sort_key (\<lambda>r. - the (cr_start_time r)) (filter keep rows)))"

definition cleanup_old_metadata :: "datetime \<Rightarrow> int \<Rightarrow> conn_row list \<Rightarrow> nat \<times> conn_row list" where
  "cleanup_old_metadata now hours rows =
     (let kept = filter (\<lambda>r. \<not> started_before (now - hours * HOUR) r) rows in (length rows - length kept, kept))"

section \<open>The tcpdump lines\<close>

definition addr_char :: "char \<Rightarrow> bool" where
  "addr_char c \<longleftrightarrow> is_digit c \<or> c = CHR ''.''"

text \<open>\<open>([\d.]+)\.(\d+)\<close> at the head of the text, when a given text follows.\<close>

definition addr_port :: "string \<Rightarrow> string \<Rightarrow> (string \<times> string \<times> string) option" where
  "addr_port after s =
     (let run = takeWhile addr_char s; a = before_last CHR ''.'' run; p = after_last CHR ''.'' run;
          rest = drop (length run) s
      in if CHR ''.'' \<in> set run \<and> a \<noteq> [] \<and> p \<noteq> [] \<and> prefix after rest then Some (a, p, drop (length after) rest) else None)"

definition syn_flags :: "string \<Rightarrow> bool" where
  "syn_flags s \<longleftrightarrow> prefix ''Flags [S'' s
     \<and> prefix '']'' (dropWhile (\<lambda>c. c \<noteq> CHR ''.'' \<and> c \<noteq> CHR '']'') (drop 8 s))"

definition syn_here :: "string \<Rightarrow> (string \<times> string \<times> string \<times> string) option" where
  "syn_here s =
     (if \<not> prefix ''IP '' s then None
      else case addr_port '' > '' (drop 3 s) of None \<Rightarrow> None
      | Some (sip, sp, r) \<Rightarrow> (case addr_port '': '' r of None \<Rightarrow> None
        | Some (dip, dp, r) \<Rightarrow> if syn_flags r then Some (sip, sp, dip, dp) else None))"

fun syn_search :: "string \<Rightarrow> (string \<times> string \<times> string \<times> string) option" where
  "syn_search [] = None"
| "syn_search (c # cs) = (case syn_here (c # cs) of Some m \<Rightarrow> Some m | None \<Rightarrow> syn_search cs)"

record conn_collector =
  cc_buffer :: "raw_event list"
  cc_rows :: "conn_row list option"
  cc_connections :: "(string, conn_row) dict"
  cc_write_count :: nat

definition conn_limit :: "(string, conn_row) dict \<Rightarrow> (string, conn_row) dict" where
  "conn_limit d = (if length d > 10000 then drop 5000 d else d)"

text \<open>\<open>None\<close> for the rows: there is no database.\<close>

definition store_row :: "datetime \<Rightarrow> conn_row \<Rightarrow> conn_collector \<Rightarrow> conn_collector" where
  "store_row now m c = (case cc_rows c of None \<Rightarrow> c
   | Some rows \<Rightarrow> let rows = store_connection_metadata m rows; n = cc_write_count c + 1
       in c\<lparr>cc_rows := Some (if n mod 100 = 0 then snd (cleanup_old_metadata now 24 rows) else rows), cc_write_count := n\<rparr>)"

definition parse_line :: "string \<Rightarrow> datetime \<Rightarrow> string \<Rightarrow> conn_collector \<Rightarrow> conn_collector" where
  "parse_line host now line c = (case syn_search line of None \<Rightarrow> c
   | Some (sip, sp, dip, dp) \<Rightarrow>
       let sport = dec_val 0 sp; dport = dec_val 0 dp;
           text = sip @ '':'' @ int_str sport;
           dest = dip @ '':'' @ int_str dport;
           m = \<lparr>cr_source_pid = 0, cr_source_process = [], cr_dest_ip = dip, cr_dest_port = dport, cr_protocol = ''TCP'',
             cr_start_time = Some now, cr_tls_sni = None, cr_ja3_hash = None, cr_is_encrypted = (dport = 443)\<rparr>;
           ev = \<lparr>rv_timestamp = now, rv_source = ''connection_metadata'', rv_message = ''TCP SYN: '' @ text @ '' -> '' @ dest,
             rv_fields = [(''src_ip'', sip), (''src_port'', int_str sport), (''dst_ip'', dip), (''dst_port'', int_str dport),
               (''protocol'', ''TCP''), (''is_encrypted'', if dport = 443 then ''True'' else ''False'')], rv_hostname = host\<rparr>;
           c = store_row now m c
       in c\<lparr>cc_buffer := cc_buffer c @ [ev],
            cc_connections := conn_limit (d_set (text @ ''-'' @ dest) m (cc_connections c))\<rparr>)"

definition parse_lines :: "string \<Rightarrow> (datetime \<times> string) list \<Rightarrow> conn_collector \<Rightarrow> conn_collector" where
  "parse_lines host ls c = fold (\<lambda>(now, l). parse_line host now l) ls c"

definition new_conn_collector :: "bool \<Rightarrow> conn_collector" where
  "new_conn_collector db = \<lparr>cc_buffer = [], cc_rows = (if db then Some [] else None), cc_connections = [], cc_write_count = 0\<rparr>"


section \<open>A reference ClientHello\<close>

text \<open>The message as the TLS specification lays it out, to state what the two parsers read from it.\<close>

datatype tls_ext = Server_Name "byte list" | Groups "nat list" | Formats "byte list" | Other_Ext nat "byte list"

record hello =
  ch_version :: nat
  ch_random :: "byte list"
  ch_session :: "byte list"
  ch_ciphers :: "nat list"
  ch_compression :: "byte list"
  ch_extensions :: "tls_ext list"

definition be16 :: "nat \<Rightarrow> byte list" where
  "be16 n = [word_of_nat (n div 256), word_of_nat (n mod 256)]"

fun ext_type :: "tls_ext \<Rightarrow> nat" where
  "ext_type (Server_Name _) = 0"
| "ext_type (Groups _) = 10"
| "ext_type (Formats _) = 11"
| "ext_type (Other_Ext t _) = t"

fun ext_data :: "tls_ext \<Rightarrow> byte list" where
  "ext_data (Server_Name name) = be16 (3 + length name) @ [0] @ be16 (length name) @ name"
| "ext_data (Groups gs) = be16 (2 * length gs) @ concat (map be16 gs)"
| "ext_data (Formats fs) = word_of_nat (length fs) # fs"
| "ext_data (Other_Ext _ d) = d"

definition ext_bytes :: "tls_ext \<Rightarrow> byte list" where
  "ext_bytes e = be16 (ext_type e) @ be16 (length (ext_data e)) @ ext_data e"

definition exts_bytes :: "tls_ext list \<Rightarrow> byte list" where
  "exts_bytes es = concat (map ext_bytes es)"

definition hello_bytes :: "hello \<Rightarrow> byte list" where
  "hello_bytes h =
     (let body = be16 (ch_version h) @ ch_random h @ word_of_nat (length (ch_session h)) # ch_session h
            @ be16 (2 * length (ch_ciphers h)) @ concat (map be16 (ch_ciphers h))
            @ word_of_nat (length (ch_compression h)) # ch_compression h
            @ be16 (length (exts_bytes (ch_extensions h))) @ exts_bytes (ch_extensions h)
      in [0x16, 3, 1] @ be16 (length body + 4) @ [1, 0] @ be16 (length body) @ body)"

fun ext_ok :: "tls_ext \<Rightarrow> bool" where
  "ext_ok (Server_Name name) \<longleftrightarrow> length name < 65000"
| "ext_ok (Groups gs) \<longleftrightarrow> length gs < 32000 \<and> list_all (\<lambda>g. g < 65536) gs"
| "ext_ok (Formats fs) \<longleftrightarrow> length fs < 256"
| "ext_ok (Other_Ext t d) \<longleftrightarrow> t < 65536 \<and> t \<noteq> 0 \<and> t \<noteq> 10 \<and> t \<noteq> 11 \<and> length d < 65536"

definition hello_ok :: "hello \<Rightarrow> bool" where
  "hello_ok h \<longleftrightarrow> ch_version h < 65536 \<and> length (ch_random h) = 32 \<and> length (ch_session h) < 256
     \<and> length (ch_ciphers h) < 32768 \<and> list_all (\<lambda>c. c < 65536) (ch_ciphers h)
     \<and> length (ch_compression h) < 256 \<and> list_all ext_ok (ch_extensions h)
     \<and> length (exts_bytes (ch_extensions h)) < 65536"

fun first_name :: "tls_ext list \<Rightarrow> byte list option" where
  "first_name [] = None"
| "first_name (Server_Name n # es) = Some n"
| "first_name (_ # es) = first_name es"

fun groups_of :: "tls_ext \<Rightarrow> nat list" where
  "groups_of (Groups gs) = gs"
| "groups_of _ = []"

fun formats_of :: "tls_ext \<Rightarrow> nat list" where
  "formats_of (Formats fs) = map unat fs"
| "formats_of _ = []"

definition no_grease :: "nat list \<Rightarrow> nat list" where
  "no_grease vs = filter (\<lambda>v. \<not> grease v) vs"

text \<open>The published definition of the JA3 text.\<close>

definition ja3_text :: "hello \<Rightarrow> string" where
  "ja3_text h = ja3_string (ch_version h) (no_grease (ch_ciphers h)) (no_grease (map ext_type (ch_extensions h)))
     (no_grease (concat (map groups_of (ch_extensions h)))) (concat (map formats_of (ch_extensions h)))"

section \<open>Reading what was written\<close>

lemma length_be16 [simp]: "length (be16 n) = 2"
  by (simp add: be16_def)

lemma length_be16s [simp]: "length (concat (map be16 vs)) = 2 * length vs"
  by (induction vs) auto

lemma unat_small: "n < 256 \<Longrightarrow> unat (word_of_nat n :: byte) = n"
  by (simp add: unat_of_nat)

lemma u16_be16: "n < 65536 \<Longrightarrow> i = length pre \<Longrightarrow> u16_at (pre @ be16 n @ post) i = Some n"
  by (simp add: u16_at_def be16_def nth_append unat_of_nat)

lemma u8_here: "i = length pre \<Longrightarrow> u8_at (pre @ b # post) i = Some (unat b)"
  by (simp add: u8_at_def)

lemma slice_here: "i = length pre \<Longrightarrow> j = i + length d \<Longrightarrow> slice_bytes (pre @ d @ post) i j = d"
  by (simp add: slice_bytes_def)

lemma u16_nth_be16s:
  assumes "list_all (\<lambda>v. v < 65536) vs" "k < length vs"
  shows "u16_at (pre @ concat (map be16 vs) @ post) (length pre + 2 * k) = Some (vs ! k)"
proof -
  have "concat (map be16 vs) = concat (map be16 (take k vs)) @ be16 (vs ! k) @ concat (map be16 (drop (Suc k) vs))"
    using id_take_nth_drop [OF assms(2)] by (metis concat.simps(2) concat_append list.simps(9) map_append)
  moreover have "vs ! k < 65536"
    using assms by (simp add: list_all_length)
  ultimately show ?thesis
    using u16_be16 [of "vs ! k" "length pre + 2 * k" "pre @ concat (map be16 (take k vs))"
        "concat (map be16 (drop (Suc k) vs)) @ post"] assms(2)
    by (simp add: min_def)
qed

lemma map_filter_all_Some: "(\<And>x. x \<in> set xs \<Longrightarrow> f x = Some (g x)) \<Longrightarrow> List.map_filter f xs = map g xs"
  by (induction xs) (auto simp: List.map_filter_def)

lemma u16_values_be16s:
  assumes "list_all (\<lambda>v. v < 65536) vs" "i = length pre" "en = i + 2 * length vs"
  shows "u16_values (pre @ concat (map be16 vs) @ post) i en = no_grease vs"
proof -
  have "List.map_filter (\<lambda>k. u16_at (pre @ concat (map be16 vs) @ post) (i + 2 * k)) [0 ..< length vs]
      = map (\<lambda>k. vs ! k) [0 ..< length vs]"
    using assms by (intro map_filter_all_Some) (simp add: u16_nth_be16s)
  then show ?thesis
    using assms by (simp add: u16_values_def no_grease_def map_nth)
qed

lemma ext_data_small: "ext_ok e \<Longrightarrow> length (ext_data e) < 65536"
  by (cases e) auto

lemma ext_type_small: "ext_ok e \<Longrightarrow> ext_type e < 65536"
  by (cases e) auto

lemma sni_of_written:
  "length name < 65000 \<Longrightarrow> sni_of_ext (ext_data (Server_Name name)) = Some (decode_ignore name)"
  using u16_be16 [of "length name" 3 "be16 (3 + length name) @ [0]" name]
    slice_here [of 5 "be16 (3 + length name) @ [0] @ be16 (length name)" "5 + length name" name "[]"]
  by (simp add: sni_of_ext_def)

lemma curves_of_written:
  "length gs < 32000 \<Longrightarrow> list_all (\<lambda>g. g < 65536) gs \<Longrightarrow> curves_of_ext (ext_data (Groups gs)) = no_grease gs"
  using u16_be16 [of "2 * length gs" 0 "[]" "concat (map be16 gs)"]
    u16_values_be16s [of gs 2 "be16 (2 * length gs)" "2 + 2 * length gs" "[]"]
  by (simp add: curves_of_ext_def)

lemma formats_of_written: "length fs < 256 \<Longrightarrow> formats_of_ext (ext_data (Formats fs)) = map unat fs"
  by (simp add: formats_of_ext_def slice_bytes_def unat_small)

lemma exts_bytes_Cons: "exts_bytes (e # es) = be16 (ext_type e) @ be16 (length (ext_data e)) @ ext_data e @ exts_bytes es"
  by (simp add: exts_bytes_def ext_bytes_def)

text \<open>One extension of the list, as both walks read it.\<close>

lemma extension_read:
  assumes "ext_ok e" "off = length pre" "bs = pre @ exts_bytes (e # es)"
  shows "u16_at bs off = Some (ext_type e)"
    and "u16_at bs (off + 2) = Some (length (ext_data e))"
    and "slice_bytes bs (off + 4) (off + 4 + length (ext_data e)) = ext_data e"
    and "bs = (pre @ be16 (ext_type e) @ be16 (length (ext_data e)) @ ext_data e) @ exts_bytes es"
  using assms
    u16_be16 [of "ext_type e" off pre "be16 (length (ext_data e)) @ ext_data e @ exts_bytes es"]
    u16_be16 [of "length (ext_data e)" "off + 2" "pre @ be16 (ext_type e)" "ext_data e @ exts_bytes es"]
    slice_here [of "off + 4" "pre @ be16 (ext_type e) @ be16 (length (ext_data e))" "off + 4 + length (ext_data e)"
      "ext_data e" "exts_bytes es"]
  by (simp_all add: exts_bytes_Cons ext_data_small ext_type_small)

lemma sni_walk_exts:
  "list_all ext_ok es \<Longrightarrow> off = length pre \<Longrightarrow> en = off + length (exts_bytes es)
    \<Longrightarrow> sni_walk (pre @ exts_bytes es) off en = map_option decode_ignore (first_name es)"
proof (induction es arbitrary: pre off)
  case Nil
  then show ?case by (simp add: sni_walk.simps exts_bytes_def)
next
  case (Cons e es)
  let ?n = "length (ext_data e)"
  let ?pre = "pre @ be16 (ext_type e) @ be16 ?n @ ext_data e"
  have e: "ext_ok e" and es: "list_all ext_ok es"
    using Cons.prems(1) by simp_all
  note r = extension_read [OF e Cons.prems(2) refl [of "pre @ exts_bytes (e # es)"]]
  have en: "en = off + 4 + ?n + length (exts_bytes es)"
    using Cons.prems(3) by (simp add: exts_bytes_Cons)
  have ih: "sni_walk (pre @ exts_bytes (e # es)) (off + 4 + ?n) en = map_option decode_ignore (first_name es)"
    using Cons.IH [OF es, of "off + 4 + ?n" ?pre] r(4) en Cons.prems(2) by simp
  have "sni_walk (pre @ exts_bytes (e # es)) off en =
      (if ext_type e = 0 then sni_of_ext (ext_data e) else map_option decode_ignore (first_name es))"
    using r(1-3) en ih by (subst sni_walk.simps) simp
  also have "\<dots> = map_option decode_ignore (first_name (e # es))"
    using e by (cases e) (simp_all add: sni_of_written del: ext_data.simps)
  finally show ?case .
qed

lemma ja3_walk_exts:
  "list_all ext_ok es \<Longrightarrow> off = length pre \<Longrightarrow> en = off + length (exts_bytes es)
    \<Longrightarrow> ja3_walk (pre @ exts_bytes es) off en = Some (no_grease (map ext_type es),
          no_grease (concat (map groups_of es)), concat (map formats_of es))"
proof (induction es arbitrary: pre off)
  case Nil
  then show ?case by (simp add: ja3_walk.simps exts_bytes_def no_grease_def)
next
  case (Cons e es)
  let ?n = "length (ext_data e)"
  let ?pre = "pre @ be16 (ext_type e) @ be16 ?n @ ext_data e"
  have e: "ext_ok e" and es: "list_all ext_ok es"
    using Cons.prems(1) by simp_all
  note r = extension_read [OF e Cons.prems(2) refl [of "pre @ exts_bytes (e # es)"]]
  have en: "en = off + 4 + ?n + length (exts_bytes es)"
    using Cons.prems(3) by (simp add: exts_bytes_Cons)
  have ih: "ja3_walk (pre @ exts_bytes (e # es)) (off + 4 + ?n) en = Some (no_grease (map ext_type es),
          no_grease (concat (map groups_of es)), concat (map formats_of es))"
    using Cons.IH [OF es, of "off + 4 + ?n" ?pre] r(4) en Cons.prems(2) by simp
  have c: "(if ext_type e = 10 then curves_of_ext (ext_data e) else []) = no_grease (groups_of e)"
    using e by (cases e) (simp_all add: curves_of_written no_grease_def [of "[]"] del: ext_data.simps)
  have f: "(if ext_type e = 11 then formats_of_ext (ext_data e) else []) = formats_of e"
    using e by (cases e) (simp_all add: formats_of_written del: ext_data.simps)
  show ?case
    using r(1-3) en ih c f by (subst ja3_walk.simps) (simp add: no_grease_def)
qed

section \<open>The whole message\<close>

lemma hello_read:
  assumes "hello_ok h"
  defines "bs \<equiv> hello_bytes h"
  defines "n1 \<equiv> 44 + length (ch_session h)"
  defines "n2 \<equiv> n1 + 2 + 2 * length (ch_ciphers h)"
  defines "n3 \<equiv> n2 + 1 + length (ch_compression h)"
  shows "u8_at bs 0 = Some 0x16" "u8_at bs 5 = Some 1" "u16_at bs 9 = Some (ch_version h)"
    "u8_at bs 43 = Some (length (ch_session h))" "u16_at bs n1 = Some (2 * length (ch_ciphers h))"
    "u16_values bs (n1 + 2) n2 = no_grease (ch_ciphers h)" "u8_at bs n2 = Some (length (ch_compression h))"
    "u16_at bs n3 = Some (length (exts_bytes (ch_extensions h)))"
    "length bs = n3 + 2 + length (exts_bytes (ch_extensions h))"
    "\<exists>pre. length pre = n3 + 2 \<and> bs = pre @ exts_bytes (ch_extensions h)"
proof -
  let ?ses = "word_of_nat (length (ch_session h)) :: byte"
  let ?com = "word_of_nat (length (ch_compression h)) :: byte"
  let ?cs = "concat (map be16 (ch_ciphers h))"
  let ?es = "exts_bytes (ch_extensions h)"
  obtain hd2 hd3 where hd: "bs = [0x16, 3, 1] @ be16 hd2 @ [1, 0] @ be16 hd3 @ be16 (ch_version h) @ ch_random h
      @ [?ses] @ ch_session h @ be16 (2 * length (ch_ciphers h)) @ ?cs @ [?com] @ ch_compression h @ be16 (length ?es) @ ?es"
    by (simp add: bs_def hello_bytes_def Let_def)
  let ?h9 = "[0x16, 3, 1] @ be16 hd2 @ [1, 0] @ be16 hd3"
  let ?h43 = "?h9 @ be16 (ch_version h) @ ch_random h"
  let ?p1 = "?h43 @ [?ses] @ ch_session h"
  let ?p2 = "?p1 @ be16 (2 * length (ch_ciphers h)) @ ?cs"
  let ?p3 = "?p2 @ [?com] @ ch_compression h"
  have ok: "ch_version h < 65536" "length (ch_random h) = 32" "length (ch_session h) < 256"
    "2 * length (ch_ciphers h) < 65536" "list_all (\<lambda>c. c < 65536) (ch_ciphers h)"
    "length (ch_compression h) < 256" "length ?es < 65536"
    using assms(1) by (simp_all add: hello_ok_def)
  have len: "length ?h43 = 43" "length ?p1 = n1" "length ?p2 = n2" "length ?p3 = n3"
    using ok(2) by (simp_all add: n1_def n2_def n3_def)
  show "u8_at bs 0 = Some 0x16" "u8_at bs 5 = Some 1"
    by (simp_all add: hd u8_at_def be16_def)
  show "u16_at bs 9 = Some (ch_version h)"
    using u16_be16 [OF ok(1), of 9 ?h9] by (simp add: hd)
  show "u8_at bs 43 = Some (length (ch_session h))"
    using u8_here [of 43 ?h43 ?ses] len(1) ok(3) by (simp add: hd unat_small)
  show "u16_at bs n1 = Some (2 * length (ch_ciphers h))"
    using u16_be16 [OF ok(4), of n1 ?p1] len(2) by (simp add: hd)
  show "u16_values bs (n1 + 2) n2 = no_grease (ch_ciphers h)"
  proof -
    have "n1 + 2 = length (?p1 @ be16 (2 * length (ch_ciphers h)))"
      using len(2) by (metis length_append length_be16)
    from u16_values_be16s [OF ok(5) this meta_eq_to_obj_eq [OF n2_def]] show ?thesis
      by (simp add: hd)
  qed
  show "u8_at bs n2 = Some (length (ch_compression h))"
    using u8_here [of n2 ?p2 ?com] len(3) ok(6) by (simp add: hd unat_small)
  show "u16_at bs n3 = Some (length ?es)"
    using u16_be16 [OF ok(7), of n3 ?p3] len(4) by (simp add: hd)
  show "length bs = n3 + 2 + length ?es"
    using len(4) by (simp add: hd)
  show "\<exists>pre. length pre = n3 + 2 \<and> bs = pre @ ?es"
    using len(4) by (intro exI [of _ "?p3 @ be16 (length ?es)"]) (simp add: hd)
qed


lemma hello_min: "hello_ok h \<Longrightarrow> 44 \<le> length (hello_bytes h)"
  using hello_read(9) [of h] by simp

definition hello1 :: hello where
  "hello1 = \<lparr>ch_version = 771, ch_random = replicate 32 7, ch_session = [1, 2], ch_ciphers = [2570, 4865],
     ch_compression = [0], ch_extensions = [Groups [2570, 29], Server_Name [97, 46, 98], Formats [0]]\<rparr>"

lemma hello1_ok: "hello_ok hello1"
  by (simp add: hello1_def hello_ok_def exts_bytes_def ext_bytes_def)

lemma hello1_name: "map_option decode_ignore (first_name (ch_extensions hello1)) = Some ''a.b''"
  by (simp add: hello1_def decode_ignore_def decode_byte_def) code_simp

lemma hello1_text: "ja3_text hello1 = ''771,4865,10-0-11,29,0''"
  by (simp add: hello1_def ja3_text_def ja3_string_def dashed_def no_grease_def grease_def int_str_def pos_str.simps
      digit_char_def) code_simp

text \<open>For every well-formed ClientHello, whatever its version, session, ciphers, compression
  methods and other extensions are, the parser returns its first server name (the ASCII part of it), and
  nothing when there is none.\<close>

theorem sni_roundtrip:
  "hello_ok h \<Longrightarrow> extract_sni_from_client_hello (hello_bytes h) = map_option decode_ignore (first_name (ch_extensions h))"
proof -
  assume h: "hello_ok h"
  note r = hello_read [OF h]
  obtain pre where pre: "length pre = 44 + length (ch_session h) + 2 + 2 * length (ch_ciphers h) + 1
      + length (ch_compression h) + 2" "hello_bytes h = pre @ exts_bytes (ch_extensions h)"
    using r(10) by blast
  have "list_all ext_ok (ch_extensions h)"
    using h by (simp add: hello_ok_def)
  then have "sni_walk (hello_bytes h) (length pre) (length (hello_bytes h))
      = map_option decode_ignore (first_name (ch_extensions h))"
    unfolding pre(2) by (rule sni_walk_exts) simp_all
  then show ?thesis
    using r(1-8) hello_min [OF h] pre(1) by (simp add: extract_sni_from_client_hello_def Let_def pre(2))
qed

theorem sni_roundtrip_witness: "extract_sni_from_client_hello (hello_bytes hello1) = Some ''a.b''"
  using sni_roundtrip [OF hello1_ok] hello1_name by simp

text \<open>For every well-formed ClientHello the fingerprint is the MD5 of the published JA3 text: version,
  ciphers, extension types and groups without the GREASE values, and the point formats, each in the order of
  the message.\<close>

theorem ja3_agrees:
  "hello_ok h \<Longrightarrow> compute_ja3 md5 (hello_bytes h) = Some (md5 (ja3_text h))"
proof -
  assume h: "hello_ok h"
  note r = hello_read [OF h]
  obtain pre where pre: "length pre = 44 + length (ch_session h) + 2 + 2 * length (ch_ciphers h) + 1
      + length (ch_compression h) + 2" "hello_bytes h = pre @ exts_bytes (ch_extensions h)"
    using r(10) by blast
  have "list_all ext_ok (ch_extensions h)"
    using h by (simp add: hello_ok_def)
  then have "ja3_walk (hello_bytes h) (length pre) (length (hello_bytes h)) = Some (no_grease (map ext_type (ch_extensions h)),
      no_grease (concat (map groups_of (ch_extensions h))), concat (map formats_of (ch_extensions h)))"
    unfolding pre(2) by (rule ja3_walk_exts) simp_all
  then show ?thesis
    using r(1-8) hello_min [OF h] pre(1) by (simp add: compute_ja3_def ja3_text_def Let_def pre(2))
qed

theorem ja3_agrees_witness: "compute_ja3 rev (hello_bytes hello1) = Some (rev ''771,4865,10-0-11,29,0'')"
  using ja3_agrees [OF hello1_ok, of rev] hello1_text by simp

section \<open>What the table holds\<close>

definition row_plain :: "conn_row \<Rightarrow> bool" where
  "row_plain r \<longleftrightarrow> cr_source_pid r = 0 \<and> cr_tls_sni r = None \<and> cr_ja3_hash r = None"

definition rows_plain :: "conn_collector \<Rightarrow> bool" where
  "rows_plain c \<longleftrightarrow> (case cc_rows c of None \<Rightarrow> True | Some rows \<Rightarrow> list_all row_plain rows)"

lemma store_row_buffer [simp]: "cc_buffer (store_row now m c) = cc_buffer c"
  by (simp add: store_row_def Let_def split: option.splits)

lemma store_row_plain: "row_plain m \<Longrightarrow> rows_plain c \<Longrightarrow> rows_plain (store_row now m c)"
  by (auto simp: rows_plain_def store_row_def store_connection_metadata_def cleanup_old_metadata_def Let_def
      list_all_iff split: option.splits)

lemma rows_plain_more: "rows_plain (c\<lparr>cc_buffer := b, cc_connections := d\<rparr>) = rows_plain c"
  by (simp add: rows_plain_def)

lemma parse_line_plain: "rows_plain c \<Longrightarrow> rows_plain (parse_line host now line c)"
  by (auto simp: parse_line_def Let_def rows_plain_more row_plain_def intro!: store_row_plain split: option.splits prod.splits)

lemma parse_lines_plain: "rows_plain c \<Longrightarrow> rows_plain (parse_lines host ls c)"
  unfolding parse_lines_def by (induction ls arbitrary: c) (auto simp: parse_line_plain)

lemma store_row_rows: "cc_rows (store_row now m c) = None \<longleftrightarrow> cc_rows c = None"
  by (simp add: store_row_def Let_def split: option.split)

lemma parse_line_rows: "cc_rows (parse_line host now line c) = None \<longleftrightarrow> cc_rows c = None"
  by (simp add: parse_line_def store_row_rows Let_def split: option.split prod.split)

lemma parse_lines_rows: "cc_rows (parse_lines host ls c) = None \<longleftrightarrow> cc_rows c = None"
  unfolding parse_lines_def by (induction ls arbitrary: c) (simp_all add: parse_line_rows split: prod.split)

lemma new_rows: "cc_rows (new_conn_collector db) = None \<longleftrightarrow> \<not> db"
  by (simp add: new_conn_collector_def)

lemma new_plain: "rows_plain (new_conn_collector db)"
  by (simp add: rows_plain_def new_conn_collector_def)

text \<open>Whatever tcpdump prints, every row of the table has pid 0 and neither a server name nor a
  fingerprint, so the query for the connections of a process returns nothing.\<close>

theorem rows_never_name_process:
  "case cc_rows (parse_lines host ls (new_conn_collector db)) of
     None \<Rightarrow> \<not> db
   | Some rows \<Rightarrow> list_all (\<lambda>r. cr_source_pid r = 0 \<and> cr_tls_sni r = None \<and> cr_ja3_hash r = None) rows
       \<and> get_connection_metadata now (Some (int (Suc p))) hours rows = []"
proof (cases "cc_rows (parse_lines host ls (new_conn_collector db))")
  case None
  then show ?thesis by (simp add: parse_lines_rows [THEN iffD1] new_rows [symmetric])
next
  case (Some rows)
  then have "list_all row_plain rows"
    using parse_lines_plain [OF new_plain, of host ls db] by (simp add: rows_plain_def)
  then show ?thesis
    using Some by (auto simp: get_connection_metadata_def row_plain_def list_all_iff)
qed


section \<open>A connection as tcpdump prints it\<close>

definition dotted :: "string \<Rightarrow> bool" where
  "dotted a \<longleftrightarrow> a \<noteq> [] \<and> list_all addr_char a"

text \<open>A line with given time, endpoints, flags and tail.\<close>

definition syn_line :: "string \<Rightarrow> string \<Rightarrow> int \<Rightarrow> string \<Rightarrow> int \<Rightarrow> string \<Rightarrow> string \<Rightarrow> string" where
  "syn_line time sip sp dip dp flags rest =
     time @ '' IP '' @ sip @ ''.'' @ int_str sp @ '' > '' @ dip @ ''.'' @ int_str dp @ '': Flags ['' @ flags @ '']'' @ rest"

lemma int_str_addr: "0 \<le> n \<Longrightarrow> list_all addr_char (int_str n)"
  using pos_str_digits [of n] by (auto simp: int_str_def addr_char_def list_all_iff)

lemma dot_not_in_int_str: "0 \<le> n \<Longrightarrow> CHR ''.'' \<notin> set (int_str n)"
proof
  assume n: "0 \<le> n" "CHR ''.'' \<in> set (int_str n)"
  then have "is_digit CHR ''.''"
    using pos_str_digits [of n] by (auto simp: int_str_def list_all_iff)
  then show False by (simp add: is_digit_def)
qed

lemma after_last_dot: "CHR ''.'' \<notin> set p \<Longrightarrow> after_last CHR ''.'' (a @ ''.'' @ p) = p \<and> before_last CHR ''.'' (a @ ''.'' @ p) = a"
  by (auto simp: after_last_def before_last_def before_first_def after_first_def takeWhile_append dropWhile_append)

lemma addr_port_here:
  assumes "dotted a" "0 \<le> p" "after \<noteq> []" "\<not> addr_char (hd after)"
  shows "addr_port after (a @ ''.'' @ int_str p @ after @ r) = Some (a, int_str p, r)"
proof -
  let ?run = "a @ ''.'' @ int_str p"
  have "list_all addr_char ?run"
    using assms(1,2) int_str_addr by (simp add: dotted_def addr_char_def)
  then have run: "takeWhile addr_char (?run @ after @ r) = ?run"
    using assms(3,4) by (subst takeWhile_append2) (auto simp: list_all_iff neq_Nil_conv)
  show ?thesis
    using run assms(1) after_last_dot [OF dot_not_in_int_str [OF assms(2)], of a]
    by (simp add: addr_port_def Let_def dotted_def)
qed

lemma flags_here: "CHR '']'' \<notin> set fs \<Longrightarrow> syn_flags (''Flags [S'' @ fs @ '']'' @ r) \<longleftrightarrow> CHR ''.'' \<notin> set fs"
proof -
  assume fs: "CHR '']'' \<notin> set fs"
  have "prefix '']'' (dropWhile (\<lambda>c. c \<noteq> CHR ''.'' \<and> c \<noteq> CHR '']'') (fs @ '']'' @ r)) \<longleftrightarrow> CHR ''.'' \<notin> set fs"
    using fs by (induction fs) auto
  then show ?thesis by (simp add: syn_flags_def)
qed

lemma syn_search_skip: "CHR ''I'' \<notin> set t \<Longrightarrow> syn_search (t @ s) = syn_search s"
  by (induction t) (auto simp: syn_here_def)

lemma syn_search_none: "CHR ''I'' \<notin> set t \<Longrightarrow> syn_search t = None"
  using syn_search_skip [of t "[]"] by simp

lemma dotted_no_I: "list_all addr_char a \<Longrightarrow> CHR ''I'' \<notin> set a"
  by (auto simp: list_all_iff addr_char_def is_digit_def)

lemma syn_here_line:
  assumes "dotted sip" "dotted dip" "0 \<le> sp" "0 \<le> dp" "CHR '']'' \<notin> set fs"
  shows "syn_here (''IP '' @ sip @ ''.'' @ int_str sp @ '' > '' @ dip @ ''.'' @ int_str dp @ '': '' @ ''Flags [S'' @ fs @ '']'' @ r)
    = (if CHR ''.'' \<in> set fs then None else Some (sip, int_str sp, dip, int_str dp))"
proof -
  have sep: "\<not> addr_char (hd '' > '')" "\<not> addr_char (hd '': '')"
    by (simp_all add: addr_char_def is_digit_def)
  note p1 = addr_port_here [OF assms(1,3) _ sep(1), simplified] and p2 = addr_port_here [OF assms(2,4) _ sep(2), simplified]
  show ?thesis
    using p1 p2 flags_here [OF assms(5), of r] by (simp add: syn_here_def)
qed

lemma syn_search_line:
  assumes "CHR ''I'' \<notin> set time" "dotted sip" "dotted dip" "0 \<le> sp" "0 \<le> dp" "CHR '']'' \<notin> set fs"
    "CHR ''I'' \<notin> set fs" "CHR ''I'' \<notin> set r"
  shows "syn_search (syn_line time sip sp dip dp (CHR ''S'' # fs) r)
    = (if CHR ''.'' \<in> set fs then None else Some (sip, int_str sp, dip, int_str dp))"
proof -
  let ?tail = "''P '' @ sip @ ''.'' @ int_str sp @ '' > '' @ dip @ ''.'' @ int_str dp @ '': '' @ ''Flags [S'' @ fs @ '']'' @ r"
  have "syn_line time sip sp dip dp (CHR ''S'' # fs) r = (time @ '' '') @ CHR ''I'' # ?tail"
    by (simp add: syn_line_def)
  moreover have "CHR ''I'' \<notin> set ?tail"
    using assms by (simp add: dotted_no_I int_str_addr dotted_def)
  ultimately show ?thesis
    using assms(1) syn_here_line [OF assms(2-6), of r] syn_search_skip [of "time @ '' ''"] syn_search_none [of ?tail]
    by simp
qed

text \<open>From tcpdump to the model of the batch: the line of an initial SYN becomes one buffered event
  that normalises to a network activity with both addresses and ports and no process, and the line
  of a SYN-ACK changes nothing.\<close>

theorem syn_line_to_activity:
  assumes "CHR ''I'' \<notin> set time" "dotted sip" "dotted dip" "0 \<le> sp" "0 \<le> dp" "CHR '']'' \<notin> set fs"
    "CHR ''I'' \<notin> set fs" "CHR ''I'' \<notin> set r"
    "c' = parse_line host now (syn_line time sip sp dip dp (CHR ''S'' # fs) r) c"
  shows "if CHR ''.'' \<in> set fs then c' = c
    else \<exists>ev a. cc_buffer c' = cc_buffer c @ [ev] \<and> normalize nenv ev = Some (NetworkActivity a) \<and> na_time a = now
      \<and> na_process a = None \<and> na_src_endpoint a = Some \<lparr>ne_ip = sip, ne_port = sp, ne_hostname = []\<rparr>
      \<and> na_dst_endpoint a = Some \<lparr>ne_ip = dip, ne_port = dp, ne_hostname = []\<rparr>"
proof (cases "CHR ''.'' \<in> set fs")
  case True
  then show ?thesis
    using syn_search_line [OF assms(1-8)] by (simp add: assms(9) parse_line_def)
next
  case False
  obtain ev where ev: "cc_buffer c' = cc_buffer c @ [ev]" "rv_timestamp ev = now" "rv_source ev = ''connection_metadata''"
    "rv_fields ev = [(''src_ip'', sip), (''src_port'', int_str sp), (''dst_ip'', dip), (''dst_port'', int_str dp),
       (''protocol'', ''TCP''), (''is_encrypted'', if dp = 443 then ''True'' else ''False'')]"
    using syn_search_line [OF assms(1-8)] False assms(4,5)
    by (simp add: assms(9) parse_line_def Let_def dec_val_int_str store_row_buffer)
  have z: "py_int ''0'' = Some 0" by code_simp
  have "sip \<noteq> []" "dip \<noteq> []" using assms(2,3) by (simp_all add: dotted_def)
  then obtain a where a: "normalize_network nenv ev = Some a" "na_time a = now" "na_process a = None"
    "na_src_endpoint a = Some \<lparr>ne_ip = sip, ne_port = sp, ne_hostname = []\<rparr>"
    "na_dst_endpoint a = Some \<lparr>ne_ip = dip, ne_port = dp, ne_hostname = []\<rparr>"
    using ev assms(4,5) z by (simp add: normalize_network_def endpoint_of_def field_def field_or_def d_get_or_def d_get_def
        py_int_str maybe_process_def)
  moreover have "normalize nenv ev = map_option NetworkActivity (normalize_network nenv ev)"
    by (simp add: normalize_def NORMALIZERS_def d_get_def ev(3))
  ultimately show ?thesis using ev(1) False by simp
qed

theorem syn_line_to_activity_witness:
  "\<exists>ev a. cc_buffer (parse_line ''h'' 5 (syn_line ''12:00'' ''10.0.0.1'' 50000 ''1.2.3.4'' 443 ''SEW'' '', seq 1'') (new_conn_collector True))
      = [ev] \<and> normalize plain_env ev = Some (NetworkActivity a) \<and> na_process a = None
      \<and> na_dst_endpoint a = Some \<lparr>ne_ip = ''1.2.3.4'', ne_port = 443, ne_hostname = []\<rparr>"
proof -
  have "dotted ''10.0.0.1''" "dotted ''1.2.3.4''" by code_simp+
  from syn_line_to_activity [OF _ this _ _ _ _ _ refl, of "''12:00''" 50000 443 "''EW''" "'', seq 1''" "''h''" 5 "new_conn_collector True" plain_env]
  show ?thesis by (auto simp: new_conn_collector_def)
qed

end
