(* ===== verification/GraphStore.thy ===== *)
theory GraphStore
  imports PidIndex
begin

text \<open>
  The graph the agent keeps (\<open>agent/schema/kuzu_schema.py\<close>) and the writer of batches
  (\<open>agent/processor/graph_builder.py\<close>).  A node table is a dictionary from the primary key to the
  columns, which are the fields of the node records; a relationship table holds its type, its two
  keys and its columns.  \<open>MERGE\<close>, \<open>MATCH \<dots> CREATE\<close> and \<open>SET\<close> are these updates, as the statements in
  the code write them; a failing statement is logged by the code and is not modelled.  Timestamps
  are microseconds, cut to seconds when written.
\<close>

section \<open>Schema\<close>

datatype label = L_User | L_Process | L_IP | L_Domain | L_File | L_RegistryKey

definition REL_TABLES :: "(string, label \<times> label) dict" where
  "REL_TABLES =
     [(''SPAWNED'', (L_User, L_Process)), (''CONNECTED_TO'', (L_Process, L_IP)), (''RESOLVED'', (L_Process, L_Domain)),
      (''RESOLVES_TO'', (L_Domain, L_IP)), (''CREATED_FILE'', (L_Process, L_File)), (''MODIFIED_FILE'', (L_Process, L_File)),
      (''READ_FILE'', (L_Process, L_File)), (''DELETED_FILE'', (L_Process, L_File)),
      (''CREATED_REG'', (L_Process, L_RegistryKey)), (''MODIFIED_REG'', (L_Process, L_RegistryKey)),
      (''DELETED_REG'', (L_Process, L_RegistryKey)), (''LISTENING_ON'', (L_Process, L_IP))]"

record rel =
  rl_type :: string
  rl_from :: string
  rl_to :: string
  rl_timestamp :: datetime
  rl_event_id :: int
  rl_activity_id :: "int option"
  rl_dst_port :: "int option"
  rl_protocol :: "string option"
  rl_direction :: "string option"

text \<open>The tables and, beside them, the process index the builder keeps in step.\<close>

record graph =
  gd_users :: "(string, user_node) dict"
  gd_processes :: "(string, process_node) dict"
  gd_ips :: "(string, ip_node) dict"
  gd_domains :: "(string, domain_node) dict"
  gd_files :: "(string, file_node) dict"
  gd_registry :: "(string, registry_key_node) dict"
  gd_rels :: "rel list"
  gd_index :: pid_index

definition empty_graph :: graph where
  "empty_graph = \<lparr>gd_users = [], gd_processes = [], gd_ips = [], gd_domains = [], gd_files = [], gd_registry = [],
     gd_rels = [], gd_index = new_index\<rparr>"

definition node_ids :: "graph \<Rightarrow> label \<Rightarrow> string list" where
  "node_ids g l = (case l of
     L_User \<Rightarrow> d_keys (gd_users g) | L_Process \<Rightarrow> d_keys (gd_processes g) | L_IP \<Rightarrow> d_keys (gd_ips g)
   | L_Domain \<Rightarrow> d_keys (gd_domains g) | L_File \<Rightarrow> d_keys (gd_files g) | L_RegistryKey \<Rightarrow> d_keys (gd_registry g))"

section \<open>Nodes\<close>

text \<open>\<open>_ts_lit\<close>.\<close>

definition ts_lit :: "datetime \<Rightarrow> datetime option \<Rightarrow> datetime" where
  "ts_lit now t = (let t = none_or now t in t - t mod 1000000)"

text \<open>\<open>MERGE (n {id: i}) ON CREATE SET \<dots> ON MATCH SET \<dots>\<close>.\<close>

definition merge_node :: "string \<Rightarrow> 'r \<Rightarrow> ('r \<Rightarrow> 'r) \<Rightarrow> (string, 'r) dict \<Rightarrow> (string, 'r) dict" where
  "merge_node i new upd t = (case d_get t i of None \<Rightarrow> d_set i new t | Some r \<Rightarrow> d_set i (upd r) t)"

text \<open>\<open>CASE WHEN v <> '' THEN v ELSE old END\<close>.\<close>

definition unless_blank :: "string \<Rightarrow> string \<Rightarrow> string" where
  "unless_blank v old = (if v \<noteq> [] then v else old)"

definition upsert_user :: "datetime \<Rightarrow> user_node \<Rightarrow> graph \<Rightarrow> graph" where
  "upsert_user now u g = g\<lparr>gd_users := merge_node (un_id u)
     (u\<lparr>un_name := Some (none_or [] (un_name u)), un_uid := Some (none_or [] (un_uid u)),
        un_first_seen := ts_lit now (Some (un_first_seen u)), un_last_seen := ts_lit now (Some (un_last_seen u))\<rparr>)
     (\<lambda>r. r\<lparr>un_last_seen := ts_lit now (Some (un_last_seen u))\<rparr>) (gd_users g)\<rparr>"

definition process_row :: "datetime \<Rightarrow> process_node \<Rightarrow> process_node" where
  "process_row now p = p\<lparr>pn_cmd_line := Some (none_or [] (pn_cmd_line p)), pn_exe_path := Some (none_or [] (pn_exe_path p)),
     pn_start_time := Some (ts_lit now (pn_start_time p)), pn_parent_pid := Some (none_or 0 (pn_parent_pid p)),
     pn_bundle_id := Some (none_or [] (pn_bundle_id p)), pn_signing_authority := Some (none_or [] (pn_signing_authority p))\<rparr>"

definition process_update :: "process_node \<Rightarrow> process_node \<Rightarrow> process_node" where
  "process_update p r =
     (let b = none_or [] (pn_bundle_id p); a = none_or [] (pn_signing_authority p); pp = none_or 0 (pn_parent_pid p)
      in r\<lparr>pn_bundle_id := if b \<noteq> [] then Some b else pn_bundle_id r,
           pn_code_signed := if pn_code_signed p \<noteq> None then pn_code_signed p else pn_code_signed r,
           pn_signing_authority := if a \<noteq> [] then Some a else pn_signing_authority r,
           pn_parent_pid := if pp \<noteq> 0 then Some pp else pn_parent_pid r\<rparr>)"

definition upsert_process :: "datetime \<Rightarrow> process_node \<Rightarrow> graph \<Rightarrow> graph" where
  "upsert_process now p g = g\<lparr>
     gd_processes := merge_node (pn_id p) (process_row now p) (process_update p) (gd_processes g),
     gd_index := on_upsert (pn_id p) (pn_pid p) (none_or 0 (pn_parent_pid p)) (pn_name p) (gd_index g)\<rparr>"

definition ip_update :: "ip_node \<Rightarrow> ip_node \<Rightarrow> ip_node" where
  "ip_update i r = r\<lparr>ipn_country := unless_blank (ipn_country i) (ipn_country r), ipn_city := unless_blank (ipn_city i) (ipn_city r),
     ipn_isp := unless_blank (ipn_isp i) (ipn_isp r), ipn_org := unless_blank (ipn_org i) (ipn_org r),
     ipn_asn := unless_blank (ipn_asn i) (ipn_asn r),
     ipn_classification := if ipn_classification i \<noteq> ''unclassified'' then ipn_classification i else ipn_classification r,
     ipn_provider_name := unless_blank (ipn_provider_name i) (ipn_provider_name r),
     ipn_reverse_dns := unless_blank (ipn_reverse_dns i) (ipn_reverse_dns r)\<rparr>"

definition upsert_ip :: "datetime \<Rightarrow> ip_node \<Rightarrow> graph \<Rightarrow> graph" where
  "upsert_ip now i g = g\<lparr>gd_ips := merge_node (ipn_id i)
     (i\<lparr>ipn_first_seen := ts_lit now (Some (ipn_first_seen i)), ipn_last_seen := ts_lit now (Some (ipn_last_seen i))\<rparr>)
     (\<lambda>r. ip_update i (r\<lparr>ipn_last_seen := ts_lit now (Some (ipn_last_seen i))\<rparr>)) (gd_ips g)\<rparr>"

text \<open>What the analyser learnt about an address.\<close>

definition upsert_ip_enrichment :: "datetime \<Rightarrow> ip_node \<Rightarrow> graph \<Rightarrow> graph" where
  "upsert_ip_enrichment now i g = g\<lparr>gd_ips := merge_node (ipn_id i)
     (i\<lparr>ipn_first_seen := ts_lit now (Some (ipn_first_seen i)), ipn_last_seen := ts_lit now (Some (ipn_first_seen i))\<rparr>)
     (ip_update i) (gd_ips g)\<rparr>"

definition upsert_domain :: "datetime \<Rightarrow> domain_node \<Rightarrow> graph \<Rightarrow> graph" where
  "upsert_domain now d g = g\<lparr>gd_domains := merge_node (dn_id d)
     (d\<lparr>dn_first_seen := ts_lit now (Some (dn_first_seen d)), dn_last_seen := ts_lit now (Some (dn_last_seen d))\<rparr>)
     (\<lambda>r. r\<lparr>dn_last_seen := ts_lit now (Some (dn_last_seen d)), dn_is_dga_candidate := dn_is_dga_candidate d\<rparr>) (gd_domains g)\<rparr>"

text \<open>The hash parameter is \<open>hash or ""\<close>, never null, so \<open>CASE WHEN $hash IS NOT NULL\<close> always takes it.\<close>

definition upsert_file :: "datetime \<Rightarrow> file_node \<Rightarrow> graph \<Rightarrow> graph" where
  "upsert_file now f g =
     (let hash = Some (none_or [] (fn_hash_sha256 f))
      in g\<lparr>gd_files := merge_node (fn_id f)
        (f\<lparr>fn_hash_sha256 := hash, fn_size := Some (none_or 0 (fn_size f)),
           fn_first_seen := ts_lit now (Some (fn_first_seen f)), fn_last_seen := ts_lit now (Some (fn_last_seen f))\<rparr>)
        (\<lambda>r. r\<lparr>fn_last_seen := ts_lit now (Some (fn_last_seen f)), fn_hash_sha256 := if hash \<noteq> None then hash else fn_hash_sha256 r\<rparr>)
        (gd_files g)\<rparr>)"

definition upsert_registry_key :: "datetime \<Rightarrow> registry_key_node \<Rightarrow> graph \<Rightarrow> graph" where
  "upsert_registry_key now k g = g\<lparr>gd_registry := merge_node (rk_id k)
     (k\<lparr>rk_value_name := Some (none_or [] (rk_value_name k)), rk_value_data := Some (none_or [] (rk_value_data k)),
        rk_previous_data := Some (none_or [] (rk_previous_data k)),
        rk_first_seen := ts_lit now (Some (rk_first_seen k)), rk_last_seen := ts_lit now (Some (rk_last_seen k))\<rparr>)
     (\<lambda>r. r\<lparr>rk_last_seen := ts_lit now (Some (rk_last_seen k)), rk_previous_data := rk_value_data r,
        rk_value_data := Some (none_or [] (rk_value_data k))\<rparr>) (gd_registry g)\<rparr>"

section \<open>Edges\<close>

text \<open>\<open>MATCH\<close> the two nodes, \<open>CREATE\<close> the relationship: nothing when one is missing.\<close>

definition create_rel :: "rel \<Rightarrow> graph \<Rightarrow> graph" where
  "create_rel r g = (case d_get REL_TABLES (rl_type r) of None \<Rightarrow> g
   | Some (a, b) \<Rightarrow> if rl_from r \<in> set (node_ids g a) \<and> rl_to r \<in> set (node_ids g b)
       then g\<lparr>gd_rels := gd_rels g @ [r]\<rparr> else g)"

definition plain_rel :: "string \<Rightarrow> string \<Rightarrow> string \<Rightarrow> datetime \<Rightarrow> int \<Rightarrow> rel" where
  "plain_rel ty f t ts ev = \<lparr>rl_type = ty, rl_from = f, rl_to = t, rl_timestamp = ts - ts mod 1000000, rl_event_id = ev,
     rl_activity_id = None, rl_dst_port = None, rl_protocol = None, rl_direction = None\<rparr>"

definition spawned_rel :: "spawned_edge \<Rightarrow> rel" where
  "spawned_rel e = (plain_rel ''SPAWNED'' (se_user_id e) (se_process_id e) (se_timestamp e) (se_event_id e))
     \<lparr>rl_activity_id := Some (se_activity_id e)\<rparr>"

definition connected_rel :: "connected_edge \<Rightarrow> rel" where
  "connected_rel e = (plain_rel ''CONNECTED_TO'' (ce_process_id e) (ce_ip_id e) (ce_timestamp e) (ce_event_id e))
     \<lparr>rl_dst_port := Some (ce_dst_port e), rl_protocol := Some (ce_protocol e), rl_direction := Some (ce_direction e)\<rparr>"

definition resolved_rel :: "resolved_edge \<Rightarrow> rel" where
  "resolved_rel e = plain_rel ''RESOLVED'' (re_process_id e) (re_domain_id e) (re_timestamp e) (re_event_id e)"

definition resolves_to_rel :: "resolves_to_edge \<Rightarrow> rel" where
  "resolves_to_rel e = plain_rel ''RESOLVES_TO'' (rt_domain_id e) (rt_ip_id e) (rt_timestamp e) (rt_event_id e)"

definition file_rel :: "file_edge \<Rightarrow> rel" where
  "file_rel e = plain_rel
     (d_get_or [(''CREATED'', ''CREATED_FILE''), (''MODIFIED'', ''MODIFIED_FILE''), (''READ'', ''READ_FILE''),
        (''DELETED'', ''DELETED_FILE'')] (fe_operation e) ''MODIFIED_FILE'')
     (fe_process_id e) (fe_file_id e) (fe_timestamp e) (fe_event_id e)"

definition registry_rel :: "registry_edge \<Rightarrow> rel" where
  "registry_rel e = plain_rel
     (d_get_or [(''CREATED'', ''CREATED_REG''), (''MODIFIED'', ''MODIFIED_REG''), (''DELETED'', ''DELETED_REG'')]
        (ge_operation e) ''MODIFIED_REG'')
     (ge_process_id e) (ge_registry_id e) (ge_timestamp e) (ge_event_id e)"

section \<open>A batch\<close>

text \<open>The node with the latest time wins; an equal time keeps the first.\<close>

definition keep_latest :: "('n \<Rightarrow> string) \<Rightarrow> ('n \<Rightarrow> datetime) \<Rightarrow> 'n \<Rightarrow> (string, 'n) dict \<Rightarrow> (string, 'n) dict" where
  "keep_latest key seen x d = (case d_get d (key x) of None \<Rightarrow> d_set (key x) x d
   | Some y \<Rightarrow> if seen x > seen y then d_set (key x) x d else d)"

definition latest :: "('n \<Rightarrow> string) \<Rightarrow> ('n \<Rightarrow> datetime) \<Rightarrow> 'n list \<Rightarrow> 'n list" where
  "latest key seen xs = map snd (fold (keep_latest key seen) xs [])"

definition last_written :: "process_node list \<Rightarrow> process_node list" where
  "last_written ps = map snd (fold (\<lambda>p. d_set (pn_id p) p) ps [])"

definition write_nodes :: "datetime \<Rightarrow> entities list \<Rightarrow> graph \<Rightarrow> graph" where
  "write_nodes now es g =
     (let g = fold (upsert_user now) (latest un_id un_last_seen (concat (map users es))) g;
          g = fold (upsert_process now) (last_written (concat (map processes es))) g;
          g = fold (upsert_ip now) (latest ipn_id ipn_last_seen (concat (map ips es))) g;
          g = fold (upsert_domain now) (latest dn_id dn_last_seen (concat (map domains es))) g;
          g = fold (upsert_file now) (latest fn_id fn_last_seen (concat (map files es))) g
      in fold (upsert_registry_key now) (latest rk_id rk_last_seen (concat (map registry_keys es))) g)"

definition batch_rels :: "entities list \<Rightarrow> rel list" where
  "batch_rels es =
     map spawned_rel (concat (map spawned_edges es)) @ map connected_rel (concat (map connected_edges es))
     @ map resolved_rel (concat (map resolved_edges es)) @ map resolves_to_rel (concat (map resolves_to_edges es))
     @ map file_rel (concat (map file_edges es)) @ map registry_rel (concat (map registry_edges es))"

definition write_batch :: "datetime \<Rightarrow> entities list \<Rightarrow> graph \<Rightarrow> graph" where
  "write_batch now es g = fold create_rel (batch_rels es) (write_nodes now es g)"

text \<open>\<open>write_entities\<close>: one batch, nothing deduplicated.\<close>

definition write_entities :: "datetime \<Rightarrow> entities \<Rightarrow> graph \<Rightarrow> graph" where
  "write_entities now e g =
     (let g = fold (upsert_user now) (users e) g; g = fold (upsert_process now) (processes e) g;
          g = fold (upsert_ip now) (ips e) g; g = fold (upsert_domain now) (domains e) g;
          g = fold (upsert_file now) (files e) g; g = fold (upsert_registry_key now) (registry_keys e) g
      in fold create_rel (batch_rels [e]) g)"

section \<open>Invariant\<close>

definition LABELS :: "label list" where
  "LABELS = [L_User, L_Process, L_IP, L_Domain, L_File, L_RegistryKey]"

definition linked :: "graph \<Rightarrow> rel \<Rightarrow> bool" where
  "linked g r = (case d_get REL_TABLES (rl_type r) of None \<Rightarrow> False
   | Some (a, b) \<Rightarrow> rl_from r \<in> set (node_ids g a) \<and> rl_to r \<in> set (node_ids g b))"

definition keyed :: "('r \<Rightarrow> string) \<Rightarrow> (string, 'r) dict \<Rightarrow> bool" where
  "keyed key t \<longleftrightarrow> d_wf t \<and> list_all (\<lambda>(k, r). key r = k) t"

definition indexed_ids :: "pid_index \<Rightarrow> string set" where
  "indexed_ids ix = set (concat (map snd (pid_to_ids ix)))"

text \<open>Keys are unique and agree with their rows, no relationship dangles, and the index holds the ids
  of the process table.\<close>

definition graph_ok :: "graph \<Rightarrow> bool" where
  "graph_ok g \<longleftrightarrow> keyed un_id (gd_users g) \<and> keyed pn_id (gd_processes g) \<and> keyed ipn_id (gd_ips g)
     \<and> keyed dn_id (gd_domains g) \<and> keyed fn_id (gd_files g) \<and> keyed rk_id (gd_registry g)
     \<and> list_all (linked g) (gd_rels g) \<and> index_inv (gd_index g) \<and> indexed_ids (gd_index g) = set (node_ids g L_Process)"

section \<open>Facts about nodes\<close>

lemma all_labels: "set LABELS = UNIV"
proof -
  have "l \<in> set LABELS" for l by (cases l) (simp_all add: LABELS_def)
  then show ?thesis by auto
qed

lemma d_keys_set [simp]: "set (d_keys (d_set k v d)) = insert k (set (d_keys d))"
  by (simp add: d_keys_def d_set_def dom_update flip: set_map) (simp add: dom_update)

lemma d_keys_wf: "d_wf d \<longleftrightarrow> distinct (d_keys d)"
  by (simp add: d_wf_def d_keys_def)

lemma merge_node_keys [simp]: "set (d_keys (merge_node i new upd t)) = insert i (set (d_keys t))"
  by (simp add: merge_node_def split: option.split)

lemma merge_node_get: "d_get (merge_node i new upd t) j
    = (if j = i then Some (case d_get t i of None \<Rightarrow> new | Some r \<Rightarrow> upd r) else d_get t j)"
  by (simp add: merge_node_def d_get_set split: option.split)

lemma keyed_get: "keyed key t \<Longrightarrow> d_get t i = Some r \<Longrightarrow> key r = i"
  by (auto simp: keyed_def list_all_iff dest: d_get_in)

lemma keyed_set: "keyed key t \<Longrightarrow> key v = i \<Longrightarrow> keyed key (d_set i v t)"
  unfolding keyed_def
proof (elim conjE, intro conjI)
  assume k: "list_all (\<lambda>(k, r). key r = k) t" "key v = i" and wf: "d_wf t"
  show "d_wf (d_set i v t)" by (simp add: wf)
  show "list_all (\<lambda>(k, r). key r = k) (d_set i v t)"
    using k unfolding d_set_def by (induction t) auto
qed

lemma merge_node_keyed:
  assumes "keyed key t" "key new = i" "\<And>r. key (upd r) = key r"
  shows "keyed key (merge_node i new upd t)"
proof (cases "d_get t i")
  case None
  then show ?thesis using keyed_set [OF assms(1,2)] by (simp add: merge_node_def)
next
  case (Some r)
  then show ?thesis using keyed_set [OF assms(1), of "upd r" i] keyed_get [OF assms(1) Some] assms(3)
    by (simp add: merge_node_def)
qed

lemma indexed_ids_in:
  assumes "index_inv ix"
  shows "i \<in> indexed_ids ix \<longleftrightarrow> (\<exists>p. i \<in> set (ids_of ix p))"
proof -
  have wf: "d_wf (pid_to_ids ix)" using assms by (simp add: index_inv_def)
  have "i \<in> indexed_ids ix \<longleftrightarrow> (\<exists>p l. (p, l) \<in> set (pid_to_ids ix) \<and> i \<in> set l)"
    unfolding indexed_ids_def by force
  also have "\<dots> \<longleftrightarrow> (\<exists>p l. d_get (pid_to_ids ix) p = Some l \<and> i \<in> set l)"
    using d_in_get [OF wf] d_get_in [of "pid_to_ids ix"] by blast
  also have "\<dots> \<longleftrightarrow> (\<exists>p. i \<in> set (ids_of ix p))"
  proof (intro ex_cong1)
    fix p
    show "(\<exists>l. d_get (pid_to_ids ix) p = Some l \<and> i \<in> set l) \<longleftrightarrow> i \<in> set (ids_of ix p)"
      by (cases "d_get (pid_to_ids ix) p") (simp_all add: ids_of_def d_get_or_get)
  qed
  finally show ?thesis .
qed

lemma ids_of_upsert: "ids_of (on_upsert i p pp n ix) q
    = (if q = p then if i \<in> set (ids_of ix p) then ids_of ix p else ids_of ix p @ [i] else ids_of ix q)"
  by (cases "d_get (pid_to_ids ix) p") (simp_all add: ids_of_def d_get_or_get on_upsert_def set_name_def add_child_def d_get_alter)

lemma indexed_upsert:
  assumes "index_inv ix"
  shows "indexed_ids (on_upsert i p pp n ix) = insert i (indexed_ids ix)"
proof (rule set_eqI)
  fix j
  show "j \<in> indexed_ids (on_upsert i p pp n ix) \<longleftrightarrow> j \<in> insert i (indexed_ids ix)"
    unfolding indexed_ids_in [OF on_upsert_inv [OF assms]] insert_iff indexed_ids_in [OF assms] ids_of_upsert
    by (cases "i \<in> set (ids_of ix p)") auto
qed

lemma ids_of_remove:
  assumes "index_inv ix"
  shows "set (ids_of (snd (remove_nodes dead ix)) p) = set (ids_of ix p) - set dead"
proof (cases "dead = []")
  case True
  then show ?thesis by (simp add: remove_nodes_def)
next
  case False
  have "remove_nodes dead ix = (fst (remove_nodes dead ix), snd (remove_nodes dead ix))" by simp
  from remove_nodes_ids [OF assms False this, of p] show ?thesis
    by (auto simp: ids_of_def d_get_or_get Let_def filter_empty_conv split: option.splits if_splits)
qed

lemma remove_inv: "index_inv ix \<Longrightarrow> index_inv (snd (remove_nodes dead ix))"
  using remove_nodes_inv [of ix dead "fst (remove_nodes dead ix)" "snd (remove_nodes dead ix)"] by simp

lemma indexed_remove:
  assumes "index_inv ix"
  shows "indexed_ids (snd (remove_nodes dead ix)) = indexed_ids ix - set dead"
proof (rule set_eqI)
  fix j
  show "j \<in> indexed_ids (snd (remove_nodes dead ix)) \<longleftrightarrow> j \<in> indexed_ids ix - set dead"
    unfolding indexed_ids_in [OF remove_inv [OF assms]] Diff_iff indexed_ids_in [OF assms] ids_of_remove [OF assms] by blast
qed

text \<open>What one upsert does to the keys, the relationships and the invariant.\<close>

named_theorems upserts \<open>the operations on nodes\<close>

lemmas upsert_defs = upsert_user_def upsert_process_def upsert_ip_def upsert_ip_enrichment_def upsert_domain_def
  upsert_file_def upsert_registry_key_def Let_def

lemma upsert_ids:
  "set (node_ids (upsert_user now u g) l) = (if l = L_User then insert (un_id u) else id) (set (node_ids g l))"
  "set (node_ids (upsert_process now p g) l) = (if l = L_Process then insert (pn_id p) else id) (set (node_ids g l))"
  "set (node_ids (upsert_ip now i g) l) = (if l = L_IP then insert (ipn_id i) else id) (set (node_ids g l))"
  "set (node_ids (upsert_ip_enrichment now i g) l) = (if l = L_IP then insert (ipn_id i) else id) (set (node_ids g l))"
  "set (node_ids (upsert_domain now d g) l) = (if l = L_Domain then insert (dn_id d) else id) (set (node_ids g l))"
  "set (node_ids (upsert_file now f g) l) = (if l = L_File then insert (fn_id f) else id) (set (node_ids g l))"
  "set (node_ids (upsert_registry_key now k g) l) = (if l = L_RegistryKey then insert (rk_id k) else id) (set (node_ids g l))"
  by (cases l; simp add: node_ids_def upsert_defs)+

lemma upsert_rels [simp]:
  "gd_rels (upsert_user now u g) = gd_rels g" "gd_rels (upsert_process now p g) = gd_rels g"
  "gd_rels (upsert_ip now i g) = gd_rels g" "gd_rels (upsert_ip_enrichment now i g) = gd_rels g"
  "gd_rels (upsert_domain now d g) = gd_rels g" "gd_rels (upsert_file now f g) = gd_rels g"
  "gd_rels (upsert_registry_key now k g) = gd_rels g"
  by (simp_all add: upsert_defs)

lemma linked_mono: "linked g r \<Longrightarrow> (\<And>l. set (node_ids g l) \<subseteq> set (node_ids g' l)) \<Longrightarrow> linked g' r"
  by (auto simp: linked_def split: option.splits)

lemma links_mono:
  assumes "list_all (linked g) rs" "\<And>l. set (node_ids g l) \<subseteq> set (node_ids g' l)"
  shows "list_all (linked g') rs"
  using assms linked_mono [OF _ assms(2)] by (auto simp: list_all_iff)

lemma upsert_mono:
  "set (node_ids g l) \<subseteq> set (node_ids (upsert_user now u g) l)"
  "set (node_ids g l) \<subseteq> set (node_ids (upsert_process now p g) l)"
  "set (node_ids g l) \<subseteq> set (node_ids (upsert_ip now i g) l)"
  "set (node_ids g l) \<subseteq> set (node_ids (upsert_ip_enrichment now i g) l)"
  "set (node_ids g l) \<subseteq> set (node_ids (upsert_domain now d g) l)"
  "set (node_ids g l) \<subseteq> set (node_ids (upsert_file now f g) l)"
  "set (node_ids g l) \<subseteq> set (node_ids (upsert_registry_key now k g) l)"
  by (simp_all add: upsert_ids subset_insertI)

lemma upsert_tables:
  "graph_ok g \<Longrightarrow> keyed un_id (gd_users (upsert_user now u g))"
  "graph_ok g \<Longrightarrow> keyed pn_id (gd_processes (upsert_process now p g))"
  "graph_ok g \<Longrightarrow> keyed ipn_id (gd_ips (upsert_ip now i g))"
  "graph_ok g \<Longrightarrow> keyed ipn_id (gd_ips (upsert_ip_enrichment now i g))"
  "graph_ok g \<Longrightarrow> keyed dn_id (gd_domains (upsert_domain now d g))"
  "graph_ok g \<Longrightarrow> keyed fn_id (gd_files (upsert_file now f g))"
  "graph_ok g \<Longrightarrow> keyed rk_id (gd_registry (upsert_registry_key now k g))"
  by (simp_all add: graph_ok_def upsert_defs merge_node_keyed process_row_def process_update_def ip_update_def)

lemma ok_transfer:
  assumes "graph_ok g" "\<And>l. set (node_ids g l) \<subseteq> set (node_ids g' l)" "gd_rels g' = gd_rels g"
    "keyed un_id (gd_users g')" "keyed pn_id (gd_processes g')" "keyed ipn_id (gd_ips g')" "keyed dn_id (gd_domains g')"
    "keyed fn_id (gd_files g')" "keyed rk_id (gd_registry g')" "index_inv (gd_index g')"
    "indexed_ids (gd_index g') = set (node_ids g' L_Process)"
  shows "graph_ok g'"
  using assms links_mono [of g "gd_rels g" g'] by (simp add: graph_ok_def)

lemma upsert_ok [upserts]:
  assumes "graph_ok g"
  shows "graph_ok (upsert_user now u g)" "graph_ok (upsert_process now p g)" "graph_ok (upsert_ip now i g)"
    "graph_ok (upsert_ip_enrichment now i g)" "graph_ok (upsert_domain now d g)" "graph_ok (upsert_file now f g)"
    "graph_ok (upsert_registry_key now k g)"
proof -
  note ok = assms [unfolded graph_ok_def]
  show "graph_ok (upsert_user now u g)"
    by (rule ok_transfer [OF assms upsert_mono(1) upsert_rels(1) upsert_tables(1) [OF assms]])
      (use ok in \<open>simp_all add: upsert_user_def node_ids_def\<close>)
  show "graph_ok (upsert_ip now i g)"
    by (rule ok_transfer [OF assms upsert_mono(3) upsert_rels(3) _ _ upsert_tables(3) [OF assms]])
      (use ok in \<open>simp_all add: upsert_ip_def node_ids_def\<close>)
  show "graph_ok (upsert_ip_enrichment now i g)"
    by (rule ok_transfer [OF assms upsert_mono(4) upsert_rels(4) _ _ upsert_tables(4) [OF assms]])
      (use ok in \<open>simp_all add: upsert_ip_enrichment_def node_ids_def\<close>)
  show "graph_ok (upsert_domain now d g)"
    by (rule ok_transfer [OF assms upsert_mono(5) upsert_rels(5) _ _ _ upsert_tables(5) [OF assms]])
      (use ok in \<open>simp_all add: upsert_domain_def node_ids_def\<close>)
  show "graph_ok (upsert_file now f g)"
    by (rule ok_transfer [OF assms upsert_mono(6) upsert_rels(6) _ _ _ _ upsert_tables(6) [OF assms]])
      (use ok in \<open>simp_all add: upsert_file_def node_ids_def Let_def\<close>)
  show "graph_ok (upsert_registry_key now k g)"
    by (rule ok_transfer [OF assms upsert_mono(7) upsert_rels(7) _ _ _ _ _ upsert_tables(7) [OF assms]])
      (use ok in \<open>simp_all add: upsert_registry_key_def node_ids_def\<close>)
  show "graph_ok (upsert_process now p g)"
  proof (rule ok_transfer [OF assms upsert_mono(2) upsert_rels(2) _ upsert_tables(2) [OF assms]])
    show "indexed_ids (gd_index (upsert_process now p g)) = set (node_ids (upsert_process now p g) L_Process)"
      using ok by (simp add: upsert_ids(2)) (simp add: upsert_process_def indexed_upsert)
    show "index_inv (gd_index (upsert_process now p g))"
      using ok by (simp add: upsert_process_def on_upsert_inv)
  qed (use ok in \<open>simp_all add: upsert_process_def\<close>)
qed

lemma rels_simps [simp]:
  "node_ids (g\<lparr>gd_rels := rs\<rparr>) = node_ids g" "node_ids (g\<lparr>gd_index := ix\<rparr>) = node_ids g"
  "linked (g\<lparr>gd_rels := rs\<rparr>) = linked g" "linked (g\<lparr>gd_index := ix\<rparr>) = linked g"
proof -
  show n: "node_ids (g\<lparr>gd_rels := rs\<rparr>) = node_ids g" "node_ids (g\<lparr>gd_index := ix\<rparr>) = node_ids g"
    by (rule ext, simp add: node_ids_def split: label.split)+
  show "linked (g\<lparr>gd_rels := rs\<rparr>) = linked g" "linked (g\<lparr>gd_index := ix\<rparr>) = linked g"
    unfolding linked_def n by (rule refl)+
qed

lemma create_rel_simps [simp]:
  "node_ids (create_rel r g) = node_ids g"
  "gd_rels (create_rel r g) = gd_rels g @ (if linked g r then [r] else [])"
  "linked (create_rel r g) = linked g"
proof -
  show n: "node_ids (create_rel r g) = node_ids g"
    by (simp add: create_rel_def split: option.split)
  show "linked (create_rel r g) = linked g"
    unfolding linked_def n by (rule refl)
  show "gd_rels (create_rel r g) = gd_rels g @ (if linked g r then [r] else [])"
    by (simp add: create_rel_def linked_def split: option.split)
qed

lemma create_rel_ok: "graph_ok g \<Longrightarrow> graph_ok (create_rel r g)"
proof (cases "linked g r")
  case True
  assume ok: "graph_ok g"
  from True have "create_rel r g = g\<lparr>gd_rels := gd_rels g @ [r]\<rparr>"
    by (auto simp: create_rel_def linked_def split: option.splits)
  then show ?thesis using ok True by (simp add: graph_ok_def)
next
  case False
  assume ok: "graph_ok g"
  from False have "create_rel r g = g"
    by (auto simp: create_rel_def linked_def split: option.splits)
  with ok show ?thesis by simp
qed

lemma fold_create_ok: "graph_ok g \<Longrightarrow> graph_ok (fold create_rel rs g)"
  by (rule fold_invariant) (auto intro: create_rel_ok)

lemma fold_create_ids: "node_ids (fold create_rel rs g) = node_ids g"
  by (induction rs arbitrary: g) auto

lemma fold_create_rels: "gd_rels (fold create_rel rs g) = gd_rels g @ filter (linked g) rs"
  by (induction rs arbitrary: g) auto

section \<open>Deduplication\<close>

lemma keyed_values: "keyed key d \<Longrightarrow> key ` snd ` set d = set (d_keys d)"
  by (force simp: keyed_def d_keys_def list_all_iff image_iff)

lemma keep_latest_inv:
  assumes "keyed key d"
  shows "keyed key (keep_latest key seen x d) \<and> set (d_keys (keep_latest key seen x d)) = insert (key x) (set (d_keys d))"
proof (cases "d_get d (key x)")
  case None
  then show ?thesis using keyed_set [OF assms] by (simp add: keep_latest_def)
next
  case (Some y)
  then have "key x \<in> set (d_keys d)" using d_get_in [OF Some] by (force simp: d_keys_def)
  then show ?thesis using keyed_set [OF assms] assms Some by (simp add: keep_latest_def insert_absorb)
qed

lemma fold_latest_inv:
  "keyed key d \<Longrightarrow> keyed key (fold (keep_latest key seen) xs d)
    \<and> set (d_keys (fold (keep_latest key seen) xs d)) = set (d_keys d) \<union> key ` set xs"
  by (induction xs arbitrary: d) (auto simp: keep_latest_inv)

lemma keyed_Nil [simp]: "keyed key []"
  by (simp add: keyed_def)

lemma latest_keys: "key ` set (latest key seen xs) = key ` set xs"
  using fold_latest_inv [of key "[]" seen xs] keyed_values [of key "fold (keep_latest key seen) xs []"]
  by (simp add: latest_def image_image d_keys_def)

lemma fold_last_inv:
  "keyed pn_id d \<Longrightarrow> keyed pn_id (fold (\<lambda>p. d_set (pn_id p) p) ps d)
    \<and> set (d_keys (fold (\<lambda>p. d_set (pn_id p) p) ps d)) = set (d_keys d) \<union> pn_id ` set ps"
  by (induction ps arbitrary: d) (auto simp: keyed_set)

lemma last_written_keys: "pn_id ` set (last_written ps) = pn_id ` set ps"
  using fold_last_inv [of "[]" ps] keyed_values [of pn_id "fold (\<lambda>p. d_set (pn_id p) p) ps []"]
  by (simp add: last_written_def image_image d_keys_def)

text \<open>What a batch names, by label.\<close>

definition entity_ids :: "entities \<Rightarrow> label \<Rightarrow> string set" where
  "entity_ids e l = (case l of
     L_User \<Rightarrow> un_id ` set (users e) | L_Process \<Rightarrow> pn_id ` set (processes e) | L_IP \<Rightarrow> ipn_id ` set (ips e)
   | L_Domain \<Rightarrow> dn_id ` set (domains e) | L_File \<Rightarrow> fn_id ` set (files e) | L_RegistryKey \<Rightarrow> rk_id ` set (registry_keys e))"

definition batch_ids :: "entities list \<Rightarrow> label \<Rightarrow> string set" where
  "batch_ids es l = (\<Union>e \<in> set es. entity_ids e l)"

lemma fold_ids:
  assumes "\<And>x g. set (node_ids (f x g) l) = (if l = m then insert (k x) else id) (set (node_ids g l))"
  shows "set (node_ids (fold f xs g) l) = (if l = m then (\<union>) (k ` set xs) else id) (set (node_ids g l))"
  by (induction xs arbitrary: g) (simp_all add: assms)

lemmas fold_upsert_ids = fold_ids [of "upsert_user now", OF upsert_ids(1)] fold_ids [of "upsert_process now", OF upsert_ids(2)]
  fold_ids [of "upsert_ip now", OF upsert_ids(3)] fold_ids [of "upsert_domain now", OF upsert_ids(5)]
  fold_ids [of "upsert_file now", OF upsert_ids(6)] fold_ids [of "upsert_registry_key now", OF upsert_ids(7)] for now

lemma write_nodes_ids: "set (node_ids (write_nodes now es g) l) = set (node_ids g l) \<union> batch_ids es l"
  by (cases l) (simp_all add: write_nodes_def Let_def fold_upsert_ids latest_keys last_written_keys batch_ids_def
      entity_ids_def Un_commute image_UN)

lemma fold_upsert_rels:
  "gd_rels (fold (upsert_user now) us g) = gd_rels g" "gd_rels (fold (upsert_process now) ps g) = gd_rels g"
  "gd_rels (fold (upsert_ip now) is g) = gd_rels g" "gd_rels (fold (upsert_domain now) ds g) = gd_rels g"
  "gd_rels (fold (upsert_file now) fs g) = gd_rels g" "gd_rels (fold (upsert_registry_key now) ks g) = gd_rels g"
  by (rule fold_invariant [where I = "\<lambda>h. gd_rels h = gd_rels g"]; simp)+

lemma write_nodes_ok: "graph_ok g \<Longrightarrow> graph_ok (write_nodes now es g)"
  unfolding write_nodes_def Let_def
  by (intro fold_invariant [where I = graph_ok] upsert_ok)

lemma write_nodes_rels: "gd_rels (write_nodes now es g) = gd_rels g"
  by (simp add: write_nodes_def Let_def fold_upsert_rels)

section \<open>Edges of a closed batch\<close>

lemma rel_ends:
  "d_get REL_TABLES (rl_type (spawned_rel a)) = Some (L_User, L_Process)"
  "d_get REL_TABLES (rl_type (connected_rel b)) = Some (L_Process, L_IP)"
  "d_get REL_TABLES (rl_type (resolved_rel c)) = Some (L_Process, L_Domain)"
  "d_get REL_TABLES (rl_type (resolves_to_rel d)) = Some (L_Domain, L_IP)"
  "d_get REL_TABLES (rl_type (file_rel e)) = Some (L_Process, L_File)"
  "d_get REL_TABLES (rl_type (registry_rel f)) = Some (L_Process, L_RegistryKey)"
  by (simp_all add: spawned_rel_def connected_rel_def resolved_rel_def resolves_to_rel_def file_rel_def registry_rel_def
      plain_rel_def REL_TABLES_def d_get_def d_get_or_def)

lemmas rel_defs = spawned_rel_def connected_rel_def resolved_rel_def resolves_to_rel_def file_rel_def registry_rel_def plain_rel_def

definition ends_in :: "entities \<Rightarrow> rel \<Rightarrow> bool" where
  "ends_in e r = (case d_get REL_TABLES (rl_type r) of None \<Rightarrow> False
   | Some (a, b) \<Rightarrow> rl_from r \<in> entity_ids e a \<and> rl_to r \<in> entity_ids e b)"

lemma closed_ends:
  assumes "closed_entities e"
  shows "x1 \<in> set (spawned_edges e) \<Longrightarrow> ends_in e (spawned_rel x1)"
    "x2 \<in> set (connected_edges e) \<Longrightarrow> ends_in e (connected_rel x2)"
    "x3 \<in> set (resolved_edges e) \<Longrightarrow> ends_in e (resolved_rel x3)"
    "x4 \<in> set (resolves_to_edges e) \<Longrightarrow> ends_in e (resolves_to_rel x4)"
    "x5 \<in> set (file_edges e) \<Longrightarrow> ends_in e (file_rel x5)"
    "x6 \<in> set (registry_edges e) \<Longrightarrow> ends_in e (registry_rel x6)"
  using assms unfolding ends_in_def rel_ends by (simp_all add: closed_entities_def entity_ids_def rel_defs)

lemma closed_linked:
  assumes "\<And>e. e \<in> set es \<Longrightarrow> closed_entities e" "r \<in> set (batch_rels es)"
  shows "linked (write_nodes now es g) r"
proof -
  from assms(2) obtain e where e: "e \<in> set es" "ends_in e r"
    unfolding batch_rels_def using closed_ends [OF assms(1)] by auto
  have "entity_ids e l \<subseteq> set (node_ids (write_nodes now es g) l)" for l
    using e(1) by (auto simp: write_nodes_ids batch_ids_def)
  with e(2) show ?thesis by (auto simp: ends_in_def linked_def split: option.splits)
qed

section \<open>Times and hashes\<close>

lemma keep_latest_spec:
  assumes "keyed key d" "\<forall>y \<in> snd ` set d. y \<in> A \<and> (\<forall>z \<in> A. key z = key y \<longrightarrow> seen z \<le> seen y)"
    "key ` A = set (d_keys d)"
  shows "\<forall>y \<in> snd ` set (keep_latest key seen x d). y \<in> insert x A
    \<and> (\<forall>z \<in> insert x A. key z = key y \<longrightarrow> seen z \<le> seen y)"
proof
  let ?d = "keep_latest key seen x d"
  have kd: "keyed key ?d" using keep_latest_inv [OF assms(1)] by blast
  fix y
  assume "y \<in> snd ` set ?d"
  then have g: "d_get ?d (key y) = Some y"
    using kd d_in_get [of ?d "key y" y] by (fastforce simp: keyed_def list_all_iff)
  have A: "y \<in> A \<and> (\<forall>z \<in> A. key z = key y \<longrightarrow> seen z \<le> seen y)" if "d_get d (key y) = Some y" for y
    using assms(2) d_get_in [OF that] by force
  show "y \<in> insert x A \<and> (\<forall>z \<in> insert x A. key z = key y \<longrightarrow> seen z \<le> seen y)"
  proof (cases "key y = key x")
    case False
    with g have "d_get d (key y) = Some y" by (auto simp: keep_latest_def d_get_set split: option.splits if_splits)
    from A [OF this] False show ?thesis by auto
  next
    case yx: True
    show ?thesis
    proof (cases "d_get d (key x)")
      case None
      then have "key x \<notin> key ` A" using assms(3) by (simp add: d_get_None d_keys_def)
      moreover have "y = x" using g yx None by (simp add: keep_latest_def d_get_set)
      ultimately show ?thesis by (metis image_eqI insert_iff order_refl)
    next
      case (Some w)
      with keyed_get [OF assms(1)] have kw: "d_get d (key w) = Some w" "key w = key x" by auto
      have w: "w \<in> A" "\<And>z. z \<in> A \<Longrightarrow> key z = key x \<Longrightarrow> seen z \<le> seen w"
        using A [OF kw(1)] kw(2) by auto
      show ?thesis
      proof (cases "seen x > seen w")
        case True
        have "?d = d_set (key x) x d" unfolding keep_latest_def Some using True by simp
        with g yx have "y = x" by (simp only: d_get_set) simp
        moreover have "seen z \<le> seen x" if "z \<in> A" "key z = key x" for z
          using w(2) [OF that] True by linarith
        ultimately show ?thesis by simp
      next
        case False
        have "?d = d" unfolding keep_latest_def Some using False by simp
        with g yx Some have "y = w" by (simp only: option.inject)
        with w False kw(2) show ?thesis by auto
      qed
    qed
  qed
qed

lemma latest_spec:
  "\<forall>y \<in> set (latest key seen xs). y \<in> set xs \<and> (\<forall>z \<in> set xs. key z = key y \<longrightarrow> seen z \<le> seen y)"
proof -
  have "keyed key (fold (keep_latest key seen) xs d) \<and> (\<forall>y \<in> snd ` set (fold (keep_latest key seen) xs d).
      y \<in> A \<union> set xs \<and> (\<forall>z \<in> A \<union> set xs. key z = key y \<longrightarrow> seen z \<le> seen y))"
    if "keyed key d" "\<forall>y \<in> snd ` set d. y \<in> A \<and> (\<forall>z \<in> A. key z = key y \<longrightarrow> seen z \<le> seen y)"
      "key ` A = set (d_keys d)" for d A
    using that
  proof (induction xs arbitrary: d A)
    case (Cons x xs)
    have k: "keyed key (keep_latest key seen x d)" "key ` insert x A = set (d_keys (keep_latest key seen x d))"
      using keep_latest_inv [OF Cons.prems(1), of seen x] Cons.prems(3) by simp_all
    from Cons.IH [OF k(1) keep_latest_spec [OF Cons.prems] k(2)] show ?case by simp
  qed simp
  from this [of "[]" "{}"] show ?thesis by (simp add: latest_def d_keys_def)
qed

lemma latest_distinct: "distinct (map key (latest key seen xs))"
proof -
  let ?d = "fold (keep_latest key seen) xs []"
  have "keyed key ?d" using fold_latest_inv [of key "[]" seen xs] by simp
  then have "map key (map snd ?d) = map fst ?d" "distinct (map fst ?d)"
    by (auto simp: keyed_def list_all_iff d_wf_def)
  then show ?thesis unfolding latest_def by metis
qed

text \<open>An upsert per id: each row is merged with its one node.\<close>

lemma fold_upsert_ip_get:
  "distinct (map ipn_id xs) \<Longrightarrow> x \<in> set xs \<Longrightarrow>
     d_get (gd_ips (fold (upsert_ip now) xs g)) (ipn_id x) = d_get (gd_ips (upsert_ip now x g)) (ipn_id x)"
proof (induction xs arbitrary: g)
  case (Cons a xs)
  have keep: "ipn_id x \<notin> ipn_id ` set ys \<Longrightarrow> d_get (gd_ips (fold (upsert_ip now) ys h)) (ipn_id x) = d_get (gd_ips h) (ipn_id x)"
    for ys h by (induction ys arbitrary: h) (auto simp: upsert_ip_def merge_node_get)
  show ?case
  proof (cases "x = a")
    case True
    with Cons.prems keep show ?thesis by simp
  next
    case False
    with Cons.prems have "ipn_id a \<noteq> ipn_id x" "x \<in> set xs" by auto
    with Cons show ?thesis by (simp add: upsert_ip_def merge_node_get)
  qed
qed simp

lemma fold_upsert_file_get:
  "distinct (map fn_id xs) \<Longrightarrow> x \<in> set xs \<Longrightarrow>
     d_get (gd_files (fold (upsert_file now) xs g)) (fn_id x) = d_get (gd_files (upsert_file now x g)) (fn_id x)"
proof (induction xs arbitrary: g)
  case (Cons a xs)
  have keep: "fn_id x \<notin> fn_id ` set ys \<Longrightarrow> d_get (gd_files (fold (upsert_file now) ys h)) (fn_id x) = d_get (gd_files h) (fn_id x)"
    for ys h by (induction ys arbitrary: h) (auto simp: upsert_file_def Let_def merge_node_get)
  show ?case
  proof (cases "x = a")
    case True
    with Cons.prems keep show ?thesis by simp
  next
    case False
    with Cons.prems have "fn_id a \<noteq> fn_id x" "x \<in> set xs" by auto
    with Cons show ?thesis by (simp add: upsert_file_def Let_def merge_node_get)
  qed
qed simp

lemma fold_same: "(\<And>x h. t (f x h) = t h) \<Longrightarrow> t (fold f xs g) = t g"
  by (induction xs arbitrary: g) auto

lemma create_tables [simp]: "gd_ips (create_rel r g) = gd_ips g" "gd_files (create_rel r g) = gd_files g"
  by (simp_all add: create_rel_def split: option.split)

lemma tables_of_write:
  "d_get (gd_ips (write_batch now es g)) i
    = d_get (gd_ips (fold (upsert_ip now) (latest ipn_id ipn_last_seen (concat (map ips es)))
        (fold (upsert_process now) (last_written (concat (map processes es)))
          (fold (upsert_user now) (latest un_id un_last_seen (concat (map users es))) g)))) i"
  "gd_ips (fold (upsert_process now) ps (fold (upsert_user now) us g)) = gd_ips g"
proof -
  have "gd_ips (fold (upsert_domain now) ds h) = gd_ips h" "gd_ips (fold (upsert_file now) fs h) = gd_ips h"
    "gd_ips (fold (upsert_registry_key now) ks h) = gd_ips h" "gd_ips (fold create_rel rs h) = gd_ips h" for ds fs ks rs h
    by (rule fold_same [where t = gd_ips]; simp add: upsert_defs)+
  then show "d_get (gd_ips (write_batch now es g)) i = d_get (gd_ips (fold (upsert_ip now)
      (latest ipn_id ipn_last_seen (concat (map ips es))) (fold (upsert_process now) (last_written (concat (map processes es)))
        (fold (upsert_user now) (latest un_id un_last_seen (concat (map users es))) g)))) i"
    by (simp add: write_batch_def write_nodes_def Let_def)
  show "gd_ips (fold (upsert_process now) ps (fold (upsert_user now) us g)) = gd_ips g"
    using fold_same [of gd_ips "upsert_process now"] fold_same [of gd_ips "upsert_user now"] by (simp add: upsert_defs)
qed

lemma files_of_write:
  "\<exists>h. gd_files h = gd_files g \<and> gd_files (write_batch now es g)
    = gd_files (fold (upsert_file now) (latest fn_id fn_last_seen (concat (map files es))) h)"
proof -
  have "gd_files (fold (upsert_user now) us h) = gd_files h" "gd_files (fold (upsert_process now) ps h) = gd_files h"
    "gd_files (fold (upsert_ip now) is h) = gd_files h" "gd_files (fold (upsert_domain now) ds h) = gd_files h"
    "gd_files (fold (upsert_registry_key now) ks h) = gd_files h" "gd_files (fold create_rel rs h) = gd_files h" for us ps "is" ds ks rs h
    by (rule fold_same [where t = gd_files]; simp add: upsert_defs)+
  then show ?thesis
    unfolding write_batch_def write_nodes_def Let_def by metis
qed

text \<open>The times of an address after a batch, when its nodes carry one time each as the extractor writes
  them: the last sighting is the latest of the batch, even when the table held a later one, and the first
  sighting of a new address is that latest time too, not the earliest.\<close>

theorem address_times:
  assumes "x \<in> set (concat (map ips es))" "\<forall>y \<in> set (concat (map ips es)). ipn_first_seen y = ipn_last_seen y"
  shows "\<exists>r m. d_get (gd_ips (write_batch now es g)) (ipn_id x) = Some r
    \<and> m \<in> {ipn_last_seen y | y. y \<in> set (concat (map ips es)) \<and> ipn_id y = ipn_id x}
    \<and> (\<forall>y \<in> set (concat (map ips es)). ipn_id y = ipn_id x \<longrightarrow> ipn_last_seen y \<le> m)
    \<and> ipn_last_seen r = m - m mod 1000000
    \<and> ipn_first_seen r = (case d_get (gd_ips g) (ipn_id x) of None \<Rightarrow> m - m mod 1000000 | Some old \<Rightarrow> ipn_first_seen old)"
proof -
  let ?xs = "concat (map ips es)" and ?l = "latest ipn_id ipn_last_seen (concat (map ips es))"
  have "ipn_id x \<in> ipn_id ` set ?l" using assms(1) latest_keys by blast
  then obtain w where w: "w \<in> set ?l" "ipn_id w = ipn_id x" by auto
  with latest_spec [of ipn_id ipn_last_seen ?xs] have m: "w \<in> set ?xs"
    "\<forall>y \<in> set ?xs. ipn_id y = ipn_id x \<longrightarrow> ipn_last_seen y \<le> ipn_last_seen w" by auto
  have f: "ipn_first_seen w = ipn_last_seen w" using assms(2) m(1) by blast
  have "d_get (gd_ips (write_batch now es g)) (ipn_id x) = Some (case d_get (gd_ips g) (ipn_id x) of
      None \<Rightarrow> w\<lparr>ipn_first_seen := ts_lit now (Some (ipn_first_seen w)), ipn_last_seen := ts_lit now (Some (ipn_last_seen w))\<rparr>
    | Some r \<Rightarrow> ip_update w (r\<lparr>ipn_last_seen := ts_lit now (Some (ipn_last_seen w))\<rparr>))"
    unfolding tables_of_write(1) w(2) [symmetric] fold_upsert_ip_get [OF latest_distinct w(1)]
    by (simp add: upsert_ip_def merge_node_get tables_of_write(2))
  moreover have "ipn_last_seen (ip_update w r) = ipn_last_seen r" "ipn_first_seen (ip_update w r) = ipn_first_seen r" for r
    by (simp_all add: ip_update_def)
  ultimately show ?thesis
    using m w(2) f by (intro exI [of _ "the (d_get (gd_ips (write_batch now es g)) (ipn_id x))"] exI [of _ "ipn_last_seen w"])
      (auto simp: ts_lit_def Let_def none_or_def split: option.split)
qed

definition seen_ip :: "int \<Rightarrow> ip_node" where
  "seen_ip t = \<lparr>ipn_id = ''1.2.3.4'', ipn_address = ''1.2.3.4'', ipn_is_private = False, ipn_first_seen = t, ipn_last_seen = t,
     ipn_country = [], ipn_city = [], ipn_isp = [], ipn_org = [], ipn_asn = [], ipn_is_hosting = False, ipn_is_proxy = False,
     ipn_classification = ''unclassified'', ipn_provider_name = [], ipn_reverse_dns = []\<rparr>"

definition seen_file :: "string option \<Rightarrow> int \<Rightarrow> file_node" where
  "seen_file h t = \<lparr>fn_id = ''/tmp/a'', fn_path = ''/tmp/a'', fn_hash_sha256 = h, fn_size = None, fn_first_seen = t, fn_last_seen = t\<rparr>"

definition curl_node :: process_node where
  "curl_node = \<lparr>pn_id = ''h:7:100'', pn_name = ''curl'', pn_pid = 7, pn_cmd_line = None, pn_exe_path = None, pn_hostname = ''h'',
     pn_start_time = None, pn_parent_pid = Some 1, pn_bundle_id = None, pn_code_signed = None, pn_signing_authority = None\<rparr>"

definition ip_batches :: "entities list" where
  "ip_batches = [empty_entities\<lparr>processes := [curl_node], ips := [seen_ip 5000000],
       connected_edges := [\<lparr>ce_process_id = ''h:7:100'', ce_ip_id = ''1.2.3.4'', ce_timestamp = 5000000, ce_dst_port = 443,
         ce_protocol = ''tcp'', ce_direction = ''outbound'', ce_event_id = 1\<rparr>]\<rparr>,
     empty_entities\<lparr>ips := [seen_ip 9000001]\<rparr>]"

theorem address_times_witness:
  "\<exists>r. d_get (gd_ips (write_batch 0 ip_batches empty_graph)) ''1.2.3.4'' = Some r \<and> ipn_first_seen r = 9000000"
proof -
  have x: "seen_ip 5000000 \<in> set (concat (map ips ip_batches))" and i: "ipn_id (seen_ip 5000000) = ''1.2.3.4''"
    by (simp_all add: ip_batches_def seen_ip_def empty_entities_def)
  have f: "\<forall>y \<in> set (concat (map ips ip_batches)). ipn_first_seen y = ipn_last_seen y"
    by (simp add: ip_batches_def seen_ip_def empty_entities_def)
  have g: "d_get (gd_ips empty_graph) ''1.2.3.4'' = None" by (simp add: empty_graph_def)
  have u: "m = 5000000 \<or> m = 9000001" if "m \<in> {ipn_last_seen y | y. y \<in> set (concat (map ips ip_batches)) \<and> ipn_id y = ''1.2.3.4''}" for m
    using that by (auto simp: ip_batches_def seen_ip_def empty_entities_def)
  have top: "seen_ip 9000001 \<in> set (concat (map ips ip_batches))" "ipn_id (seen_ip 9000001) = ''1.2.3.4''"
    "ipn_last_seen (seen_ip 9000001) = 9000001"
    by (simp_all add: ip_batches_def seen_ip_def empty_entities_def)
  from address_times [OF x f, of 0 empty_graph, unfolded i g] obtain r m where
    r: "d_get (gd_ips (write_batch 0 ip_batches empty_graph)) ''1.2.3.4'' = Some r"
    and m: "m \<in> {ipn_last_seen y | y. y \<in> set (concat (map ips ip_batches)) \<and> ipn_id y = ''1.2.3.4''}"
      "\<forall>y \<in> set (concat (map ips ip_batches)). ipn_id y = ''1.2.3.4'' \<longrightarrow> ipn_last_seen y \<le> m"
      "ipn_first_seen r = m - m mod 1000000" by auto
  from m(2) top have "9000001 \<le> m" by force
  with u [OF m(1)] m(3) have "ipn_first_seen r = 9000000" by auto
  with r show ?thesis by blast
qed

text \<open>The hash of a file is forgotten when the newest event of a batch about it has none, as for a file that is
  deleted or unreadable: \<open>$hash IS NOT NULL\<close> is meant to keep it, and the parameter is never null.\<close>

theorem unhashed_event_erases_hash:
  assumes "x \<in> set (latest fn_id fn_last_seen (concat (map files es)))" "fn_hash_sha256 x = None"
  shows "map_option fn_hash_sha256 (d_get (gd_files (write_batch now es g)) (fn_id x)) = Some (Some [])"
proof -
  obtain h where h: "gd_files h = gd_files g" "gd_files (write_batch now es g)
      = gd_files (fold (upsert_file now) (latest fn_id fn_last_seen (concat (map files es))) h)"
    using files_of_write by blast
  show ?thesis
    unfolding h(2) fold_upsert_file_get [OF latest_distinct assms(1)] using assms(2)
    by (simp add: upsert_file_def Let_def merge_node_get none_or_def split: option.split)
qed

theorem unhashed_event_erases_hash_witness:
  "map_option fn_hash_sha256 (d_get (gd_files (write_batch 0 [empty_entities\<lparr>files := [seen_file None 9]\<rparr>]
     (upsert_file 0 (seen_file (Some ''abc'') 1) empty_graph))) ''/tmp/a'') = Some (Some [])"
proof -
  have "seen_file None 9 \<in> set (latest fn_id fn_last_seen (concat (map files [empty_entities\<lparr>files := [seen_file None 9]\<rparr>])))"
    by (simp add: latest_def keep_latest_def seen_file_def d_set_def)
  from unhashed_event_erases_hash [OF this] show ?thesis by (simp add: seen_file_def)
qed

text \<open>The command line of a process is the one written first, and the flags of an address that is
  in the table are never set.\<close>

lemma command_line_never_updated: "pn_cmd_line (process_update p r) = pn_cmd_line r"
  by (simp add: process_update_def Let_def)

lemma address_flags_never_updated:
  "ipn_is_hosting (ip_update i r) = ipn_is_hosting r" "ipn_is_proxy (ip_update i r) = ipn_is_proxy r"
  by (simp_all add: ip_update_def)


section \<open>Complete batches\<close>

text \<open>Writing closed batches loses nothing and adds nothing else: afterwards every node a batch names is
  there beside the old ones, every edge is there behind the old ones, keys stay unique, nothing
  dangles and the process index holds exactly the ids of the process table.\<close>

theorem batch_written_completely:
  assumes "graph_ok g" "\<forall>e \<in> set es. closed_entities e"
  shows "graph_ok (write_batch now es g) \<and> gd_rels (write_batch now es g) = gd_rels g @ batch_rels es
    \<and> set (node_ids (write_batch now es g) l) = set (node_ids g l) \<union> batch_ids es l"
proof (intro conjI)
  show "graph_ok (write_batch now es g)"
    unfolding write_batch_def by (intro fold_create_ok write_nodes_ok assms(1))
  show "gd_rels (write_batch now es g) = gd_rels g @ batch_rels es"
    using closed_linked assms(2) by (simp add: write_batch_def fold_create_rels write_nodes_rels filter_id_conv)
  show "set (node_ids (write_batch now es g) l) = set (node_ids g l) \<union> batch_ids es l"
    by (simp add: write_batch_def fold_create_ids write_nodes_ids)
qed

theorem batch_written_completely_witness:
  "graph_ok (write_batch 0 ip_batches empty_graph) \<and> gd_rels (write_batch 0 ip_batches empty_graph) = batch_rels ip_batches"
proof -
  have g: "graph_ok empty_graph"
    by (simp add: graph_ok_def empty_graph_def index_inv_new node_ids_def d_keys_def indexed_ids_def)
      (simp add: new_index_def)
  have c: "\<forall>e \<in> set ip_batches. closed_entities e"
    by (simp add: ip_batches_def closed_entities_def empty_entities_def curl_node_def seen_ip_def)
  have "gd_rels empty_graph = []" by (simp add: empty_graph_def)
  with batch_written_completely [OF g c, of 0] show ?thesis by simp
qed

end
