(* ===== verification/GraphReaper.thy ===== *)
theory GraphReaper
  imports GraphStore Filters Complex_Main
begin

text \<open>
  What removes from the graph: the time-to-live reaper (\<open>agent/graph/reaper.py\<close>) and the purges after
  a new rule or a new baseline (\<open>agent/graph/cleanup.py\<close>).  A time to live is a number of
  microseconds.  Rows come in the order of the tables; the code states no order.
\<close>

section \<open>Deleting\<close>

definition del_node :: "label \<Rightarrow> string \<Rightarrow> graph \<Rightarrow> graph" where
  "del_node l i g = (case l of
     L_User \<Rightarrow> g\<lparr>gd_users := d_pop i (gd_users g)\<rparr> | L_Process \<Rightarrow> g\<lparr>gd_processes := d_pop i (gd_processes g)\<rparr>
   | L_IP \<Rightarrow> g\<lparr>gd_ips := d_pop i (gd_ips g)\<rparr> | L_Domain \<Rightarrow> g\<lparr>gd_domains := d_pop i (gd_domains g)\<rparr>
   | L_File \<Rightarrow> g\<lparr>gd_files := d_pop i (gd_files g)\<rparr> | L_RegistryKey \<Rightarrow> g\<lparr>gd_registry := d_pop i (gd_registry g)\<rparr>)"

definition touches :: "label \<Rightarrow> string \<Rightarrow> rel \<Rightarrow> bool" where
  "touches l i r = (case d_get REL_TABLES (rl_type r) of None \<Rightarrow> False
   | Some (a, b) \<Rightarrow> (a = l \<and> rl_from r = i) \<or> (b = l \<and> rl_to r = i))"

text \<open>\<open>MATCH (n:Label {id: i}) DETACH DELETE n\<close>.\<close>

definition detach_delete :: "label \<Rightarrow> string \<Rightarrow> graph \<Rightarrow> graph" where
  "detach_delete l i g = (del_node l i g)\<lparr>gd_rels := filter (\<lambda>r. \<not> touches l i r) (gd_rels g)\<rparr>"

section \<open>Edges past their time\<close>

definition ALL_EDGE_TYPES :: "string list" where
  "ALL_EDGE_TYPES = [''SPAWNED'', ''CONNECTED_TO'', ''RESOLVED'', ''RESOLVES_TO'', ''CREATED_FILE'', ''MODIFIED_FILE'',
     ''READ_FILE'', ''DELETED_FILE'', ''CREATED_REG'', ''MODIFIED_REG'', ''DELETED_REG'', ''LISTENING_ON'']"

fun prune_types :: "datetime \<Rightarrow> string list \<Rightarrow> graph \<Rightarrow> nat \<times> graph" where
  "prune_types cutoff [] g = (0, g)"
| "prune_types cutoff (ty # tys) g =
     (let old = (\<lambda>r. rl_type r = ty \<and> rl_timestamp r < cutoff);
          count = length (filter old (gd_rels g));
          g = (if count > 0 then g\<lparr>gd_rels := filter (\<lambda>r. \<not> old r) (gd_rels g)\<rparr> else g);
          (n, g) = prune_types cutoff tys g
      in (count + n, g))"

definition prune_edges :: "datetime \<Rightarrow> int \<Rightarrow> graph \<Rightarrow> nat \<times> graph" where
  "prune_edges now ttl g = prune_types (now - ttl) ALL_EDGE_TYPES g"

section \<open>Nodes without edges\<close>

datatype direction = In | Out

fun NODE_EDGE_CHECKS :: "label \<Rightarrow> (direction \<times> string) list" where
  "NODE_EDGE_CHECKS L_IP = [(In, ''CONNECTED_TO''), (In, ''RESOLVES_TO''), (In, ''LISTENING_ON'')]"
| "NODE_EDGE_CHECKS L_Domain = [(In, ''RESOLVED''), (Out, ''RESOLVES_TO'')]"
| "NODE_EDGE_CHECKS L_File = [(In, ''CREATED_FILE''), (In, ''MODIFIED_FILE''), (In, ''READ_FILE''), (In, ''DELETED_FILE'')]"
| "NODE_EDGE_CHECKS L_RegistryKey = [(In, ''CREATED_REG''), (In, ''MODIFIED_REG''), (In, ''DELETED_REG'')]"
| "NODE_EDGE_CHECKS L_Process = [(In, ''SPAWNED''), (Out, ''CONNECTED_TO''), (Out, ''RESOLVED''), (Out, ''CREATED_FILE''),
     (Out, ''MODIFIED_FILE''), (Out, ''READ_FILE''), (Out, ''DELETED_FILE''), (Out, ''CREATED_REG''), (Out, ''MODIFIED_REG''),
     (Out, ''DELETED_REG''), (Out, ''LISTENING_ON'')]"
| "NODE_EDGE_CHECKS L_User = [(Out, ''SPAWNED'')]"

text \<open>\<open>RETURN COUNT(e)\<close> is positive.\<close>

definition any_edge :: "direction \<Rightarrow> string \<Rightarrow> string \<Rightarrow> graph \<Rightarrow> bool" where
  "any_edge d ty i g = list_ex (\<lambda>r. rl_type r = ty \<and> (case d of In \<Rightarrow> rl_to r | Out \<Rightarrow> rl_from r) = i) (gd_rels g)"

definition has_edges :: "label \<Rightarrow> graph \<Rightarrow> string \<Rightarrow> bool" where
  "has_edges l g i = list_ex (\<lambda>(d, ty). any_edge d ty i g) (NODE_EDGE_CHECKS l)"

fun reap_ids :: "label \<Rightarrow> string list \<Rightarrow> graph \<Rightarrow> string list \<times> graph" where
  "reap_ids l [] g = ([], g)"
| "reap_ids l (i # is) g =
     (if has_edges l g i then reap_ids l is g
      else let (dead, g) = reap_ids l is (detach_delete l i g) in (i # dead, g))"

lemma node_ids_del: "node_ids (detach_delete l i g) m = (if m = l then filter (\<lambda>j. j \<noteq> i) (node_ids g m) else node_ids g m)"
proof -
  have "d_keys (d_pop i t) = filter (\<lambda>j. j \<noteq> i) (d_keys t)" for t :: "(string, 'r) dict"
    by (induction t) (auto simp: d_pop_def d_keys_def)
  then show ?thesis
    by (cases l; cases m) (simp_all add: detach_delete_def del_node_def node_ids_def)
qed

lemma reap_ids_table:
  "reap_ids l is g = (dead, g') \<Longrightarrow>
     node_ids g' m = (if m = l then filter (\<lambda>j. j \<notin> set dead) (node_ids g m) else node_ids g m) \<and> set dead \<subseteq> set is"
proof (induction "is" arbitrary: g dead)
  case (Cons i "is")
  show ?case
  proof (cases "has_edges l g i")
    case True
    with Cons show ?thesis by auto
  next
    case False
    with Cons.prems obtain dead' where d: "reap_ids l is (detach_delete l i g) = (dead', g')" "dead = i # dead'"
      by (auto split: prod.splits)
    from Cons.IH [OF d(1)] d(2) show ?thesis by (auto simp: node_ids_del)
  qed
qed simp

text \<open>The batches of \<open>_cleanup_orphaned_nodes_batched\<close>: \<open>SKIP off LIMIT bs\<close>; the next offset allows for the
  rows deleted only when they are processes.\<close>

function (sequential) reap_from :: "nat \<Rightarrow> label \<Rightarrow> nat \<Rightarrow> graph \<Rightarrow> string list \<times> graph" where
  "reap_from bs l off g =
     (let ids = take bs (drop off (node_ids g l))
      in if ids = [] then ([], g)
         else let (dead, g') = reap_ids l ids g;
                  batch_deleted = (if l = L_Process then length (filter (\<lambda>i. i \<in> set dead) ids) else 0)
              in if length ids < bs then (dead, g')
                 else let (dead', g'') = reap_from bs l (off + (bs - batch_deleted)) g' in (dead @ dead', g''))"
  by pat_completeness auto

termination
proof (relation "measure (\<lambda>(bs, l, off, g). length (node_ids g l) - off)")
  fix bs l off g ids p dead g' d
  assume ids: "ids = take bs (drop off (node_ids g l))" "ids \<noteq> []" and p: "p = reap_ids l ids g" "(dead, g') = p"
    and d: "d = (if l = L_Process then length (filter (\<lambda>i. i \<in> set dead) ids) else 0)" and full: "\<not> length ids < bs"
  have off: "off < length (node_ids g l)" "0 < bs" and bs: "length ids = bs" using ids full by (auto simp: not_less)
  have t: "node_ids g' l = filter (\<lambda>j. j \<notin> set dead) (node_ids g l)"
    using reap_ids_table [of l ids g dead g' l] p by simp
  have le: "length (node_ids g' l) \<le> length (node_ids g l)" by (simp add: t)
  have "length (node_ids g' l) - (off + (bs - d)) < length (node_ids g l) - off"
  proof (cases "d < bs")
    case True
    with off le show ?thesis by linarith
  next
    case False
    have "d \<le> length ids" by (simp add: d)
    with False off(2) bs d have "filter (\<lambda>i. i \<in> set dead) ids \<noteq> []" by (auto split: if_splits)
    then obtain i where "i \<in> set ids" "i \<in> set dead" by (auto simp: filter_empty_conv)
    with ids(1) have "i \<in> set (node_ids g l)" by (auto dest: in_set_takeD in_set_dropD)
    with \<open>i \<in> set dead\<close> have "length (node_ids g' l) < length (node_ids g l)"
      unfolding t by (intro length_filter_less [of i]) auto
    with off show ?thesis by linarith
  qed
  then show "((bs, l, off + (bs - d), g'), bs, l, off, g) \<in> measure (\<lambda>(bs, l, off, g). length (node_ids g l) - off)"
    by simp
qed simp

declare reap_from.simps [simp del]

fun reap_labels :: "nat \<Rightarrow> label list \<Rightarrow> graph \<Rightarrow> (label \<times> string) list \<times> graph" where
  "reap_labels bs [] g = ([], g)"
| "reap_labels bs (l # ls) g =
     (let (dead, g) = reap_from bs l 0 g; (rest, g) = reap_labels bs ls g in (map (Pair l) dead @ rest, g))"

definition REAP_ORDER :: "label list" where
  "REAP_ORDER = [L_IP, L_Domain, L_File, L_RegistryKey, L_Process, L_User]"

definition cleanup_orphaned_nodes :: "nat \<Rightarrow> graph \<Rightarrow> nat \<times> graph" where
  "cleanup_orphaned_nodes bs g =
     (let (dead, g) = reap_labels bs REAP_ORDER g; gone = map snd (filter (\<lambda>(l, i). l = L_Process) dead)
      in (length dead, if gone = [] then g else g\<lparr>gd_index := snd (remove_nodes gone (gd_index g))\<rparr>))"

text \<open>\<open>prune_edges_only\<close> and \<open>prune_old_edges\<close>.\<close>

definition prune_edges_only :: "datetime \<Rightarrow> int \<Rightarrow> graph \<Rightarrow> nat \<times> graph" where
  "prune_edges_only now ttl g = prune_edges now ttl g"

definition prune_old_edges :: "datetime \<Rightarrow> int \<Rightarrow> graph \<Rightarrow> nat \<times> graph" where
  "prune_old_edges now ttl g =
     (let (n, g) = prune_edges now ttl g; (m, g) = cleanup_orphaned_nodes 500 g in (n + m, g))"

section \<open>Chatty processes\<close>

definition HIGH_VOLUME_EDGE_TYPES :: "string list" where
  "HIGH_VOLUME_EDGE_TYPES = [''CONNECTED_TO'', ''RESOLVED'', ''CREATED_FILE'', ''MODIFIED_FILE'', ''READ_FILE'']"

text \<open>\<open>WITH e ORDER BY e.timestamp ASC LIMIT n DELETE e\<close>: the positions of the oldest \<open>n\<close> relationships with a
  property go.\<close>

definition drop_oldest :: "nat \<Rightarrow> (rel \<Rightarrow> bool) \<Rightarrow> rel list \<Rightarrow> rel list" where
  "drop_oldest n P rs =
     (let idx = take n (sort_key (\<lambda>k. rl_timestamp (rs ! k)) (filter (\<lambda>k. P (rs ! k)) [0 ..< length rs]))
      in map (\<lambda>k. rs ! k) (filter (\<lambda>k. k \<notin> set idx) [0 ..< length rs]))"

definition edge_of :: "string \<Rightarrow> string \<Rightarrow> rel \<Rightarrow> bool" where
  "edge_of ty i r \<longleftrightarrow> rl_type r = ty \<and> rl_from r = i"

text \<open>\<open>int(degree * (1.0 - keep_pct))\<close> is the parameter \<open>excess\<close>; the counts are those of the query that found
  the processes.\<close>

definition prune_chatty :: "(nat \<Rightarrow> nat) \<Rightarrow> nat \<Rightarrow> string \<Rightarrow> nat \<times> graph \<Rightarrow> nat \<times> graph" where
  "prune_chatty excess threshold ty = (\<lambda>(total, g).
     let degree = (\<lambda>i. length (filter (edge_of ty i) (gd_rels g)));
         targets = filter (\<lambda>i. degree i > threshold) (node_ids g L_Process)
     in fold (\<lambda>i (total, g'). let k = excess (degree i) in
          if k < 1 then (total, g') else (total + k, g'\<lparr>gd_rels := drop_oldest k (edge_of ty i) (gd_rels g')\<rparr>))
        targets (total, g))"

definition prune_high_degree_nodes :: "(nat \<Rightarrow> nat) \<Rightarrow> nat \<Rightarrow> graph \<Rightarrow> nat \<times> graph" where
  "prune_high_degree_nodes excess threshold g = fold (prune_chatty excess threshold) HIGH_VOLUME_EDGE_TYPES (0, g)"

section \<open>Purges\<close>

definition matching_ids :: "('r \<Rightarrow> bool) \<Rightarrow> (string, 'r) dict \<Rightarrow> string list" where
  "matching_ids P t = map fst (filter (\<lambda>(_, r). P r) t)"

definition delete_all :: "label \<Rightarrow> string list \<Rightarrow> graph \<Rightarrow> nat \<times> graph" where
  "delete_all l is g = (length is, fold (detach_delete l) is g)"

definition purge_process_name :: "string \<Rightarrow> graph \<Rightarrow> nat \<times> graph" where
  "purge_process_name pat g =
     (let dead = matching_ids (\<lambda>p. pn_name p \<noteq> [] \<and> fnmatch (py_lower (pn_name p)) (py_lower pat)) (gd_processes g);
          (n, g) = delete_all L_Process dead g
      in (n, if dead = [] then g else g\<lparr>gd_index := snd (remove_nodes dead (gd_index g))\<rparr>))"

definition purge_dst_ip :: "string \<Rightarrow> graph \<Rightarrow> nat \<times> graph" where
  "purge_dst_ip pat g = delete_all L_IP (matching_ids (\<lambda>i. ipn_address i = pat) (gd_ips g)) g"

definition purge_dst_cidr :: "string \<Rightarrow> graph \<Rightarrow> nat \<times> graph" where
  "purge_dst_cidr pat g = (case ip_network pat of None \<Rightarrow> (0, g)
   | Some n \<Rightarrow> delete_all L_IP (matching_ids (\<lambda>i. ipn_address i \<noteq> [] \<and>
         (case ip_address (ipn_address i) of None \<Rightarrow> False | Some a \<Rightarrow> in_net a n)) (gd_ips g)) g)"

definition purge_domain :: "string \<Rightarrow> graph \<Rightarrow> nat \<times> graph" where
  "purge_domain pat g = delete_all L_Domain (matching_ids (\<lambda>d. dn_name d = py_lower pat) (gd_domains g)) g"

definition purge_file_path :: "string \<Rightarrow> graph \<Rightarrow> nat \<times> graph" where
  "purge_file_path pat g = delete_all L_File (matching_ids (\<lambda>f. fn_path f \<noteq> [] \<and> fnmatch (fn_path f) pat) (gd_files g)) g"

definition purge_by_rule :: "string \<Rightarrow> string \<Rightarrow> graph \<Rightarrow> nat \<times> graph" where
  "purge_by_rule ty pat g =
     (if ty = ''process_name'' then purge_process_name pat g
      else if ty = ''dst_ip'' then purge_dst_ip pat g
      else if ty = ''dst_cidr'' then purge_dst_cidr pat g
      else if ty = ''domain'' then purge_domain pat g
      else if ty = ''file_path'' then purge_file_path pat g
      else (0, g))"

section \<open>The purge after learning\<close>

text \<open>The edges of one type from one process to targets the baseline knows; one count per target.\<close>

definition purge_gated :: "(string \<times> string \<times> string) set \<Rightarrow> string \<Rightarrow> string \<Rightarrow> (graph \<Rightarrow> string \<Rightarrow> string) \<Rightarrow> string \<times> string
    \<Rightarrow> nat \<times> graph \<Rightarrow> nat \<times> graph" where
  "purge_gated entries ty behavior label_of np = (\<lambda>(n, g).
     let targets = dedup (map (\<lambda>r. label_of g (rl_to r)) (filter (edge_of ty (snd np)) (gd_rels g)));
         hit = filter (\<lambda>t. (fst np, behavior, t) \<in> entries) targets
     in (n + length hit, g\<lparr>gd_rels := filter (\<lambda>r. \<not> (edge_of ty (snd np) r \<and> label_of g (rl_to r) \<in> set hit)) (gd_rels g)\<rparr>))"

definition address_of :: "graph \<Rightarrow> string \<Rightarrow> string" where
  "address_of g i = none_or [] (map_option ipn_address (d_get (gd_ips g) i))"

definition domain_of :: "graph \<Rightarrow> string \<Rightarrow> string" where
  "domain_of g i = none_or [] (map_option dn_name (d_get (gd_domains g) i))"

definition path_of :: "graph \<Rightarrow> string \<Rightarrow> string" where
  "path_of g i = none_or [] (map_option fn_path (d_get (gd_files g) i))"

definition FILE_RELS :: "string list" where
  "FILE_RELS = [''CREATED_FILE'', ''MODIFIED_FILE'', ''READ_FILE'', ''DELETED_FILE'']"

definition purge_process_edges :: "(string \<times> string \<times> string) set \<Rightarrow> string \<times> string \<Rightarrow> nat \<times> graph \<Rightarrow> nat \<times> graph" where
  "purge_process_edges entries np s =
     (if fst np = [] then s
      else let s = purge_gated entries ''CONNECTED_TO'' ''network'' address_of np s;
               s = purge_gated entries ''RESOLVED'' ''dns'' domain_of np s
           in fold (\<lambda>ty. purge_gated entries ty ''file'' path_of np) FILE_RELS s)"

text \<open>\<open>MATCH ()-[e:TYPE]->(n:Label)\<close> with a relationship that does not lead to the label: a strict database raises,
  which the code takes for an edge; another one finds nothing.\<close>

fun target_has_edges :: "bool \<Rightarrow> label \<Rightarrow> string list \<Rightarrow> graph \<Rightarrow> string \<Rightarrow> bool" where
  "target_has_edges strict l [] g i = False"
| "target_has_edges strict l (ty # tys) g i =
     (if map_option snd (d_get REL_TABLES ty) \<noteq> Some l then strict \<or> target_has_edges strict l tys g i
      else any_edge In ty i g \<or> target_has_edges strict l tys g i)"

definition cleanup_orphaned_targets :: "bool \<Rightarrow> label \<Rightarrow> string list \<Rightarrow> nat \<times> graph \<Rightarrow> nat \<times> graph" where
  "cleanup_orphaned_targets strict l tys = (\<lambda>(n, g).
     fold (\<lambda>i (n, g). if target_has_edges strict l tys g i then (n, g) else (n + 1, detach_delete l i g)) (node_ids g l) (n, g))"

definition purge_baselined_edges :: "bool \<Rightarrow> (string \<times> string \<times> string) set \<Rightarrow> graph \<Rightarrow> nat \<times> graph" where
  "purge_baselined_edges strict entries g =
     (if entries = {} then (0, g)
      else let s = fold (purge_process_edges entries) (map (\<lambda>(i, p). (pn_name p, i)) (gd_processes g)) (0, g);
               s = cleanup_orphaned_targets strict L_IP [''CONNECTED_TO'', ''RESOLVES_TO''] s;
               s = cleanup_orphaned_targets strict L_Domain [''RESOLVED'', ''RESOLVES_TO''] s
           in cleanup_orphaned_targets strict L_File FILE_RELS s)"

section \<open>The writer thread\<close>

datatype write_job =
    Entity_Batch "entities list" | Ip_Enrichment ip_node | Prune_Edges int | Prune_Full int
  | Prune_High_Degree nat | Purge_Baseline "(string \<times> string \<times> string) set" | Purge_By_Rule string string
  | Checkpoint | Shutdown

definition QUEUE_MAX :: nat where
  "QUEUE_MAX = 10000"

text \<open>\<open>submit\<close>: a job that finds the queue full is dropped.\<close>

definition submit :: "write_job \<Rightarrow> write_job list \<Rightarrow> write_job list" where
  "submit j q = (if length q < QUEUE_MAX then q @ [j] else q)"

definition run_job :: "(nat \<Rightarrow> nat) \<Rightarrow> bool \<Rightarrow> datetime \<Rightarrow> write_job \<Rightarrow> graph \<Rightarrow> nat \<times> graph" where
  "run_job excess strict now j g = (case j of
     Entity_Batch es \<Rightarrow> (0, write_batch now es g)
   | Ip_Enrichment i \<Rightarrow> (0, upsert_ip_enrichment now i g)
   | Prune_Edges ttl \<Rightarrow> prune_edges_only now ttl g
   | Prune_Full ttl \<Rightarrow> prune_old_edges now ttl g
   | Prune_High_Degree threshold \<Rightarrow> prune_high_degree_nodes excess threshold g
   | Purge_Baseline entries \<Rightarrow> purge_baselined_edges strict entries g
   | Purge_By_Rule ty pat \<Rightarrow> purge_by_rule ty pat g
   | Checkpoint \<Rightarrow> (0, g) | Shutdown \<Rightarrow> (0, g))"

text \<open>The loop of \<open>graph_writer_thread\<close> over the jobs with the times they are taken at, and the jobs it leaves.\<close>

fun run_writer :: "(nat \<Rightarrow> nat) \<Rightarrow> bool \<Rightarrow> (datetime \<times> write_job) list \<Rightarrow> graph \<Rightarrow> graph \<times> (datetime \<times> write_job) list" where
  "run_writer excess strict [] g = (g, [])"
| "run_writer excess strict ((now, j) # js) g =
     (if j = Shutdown then (g, js) else run_writer excess strict js (snd (run_job excess strict now j g)))"

section \<open>The decisions of the reaper thread\<close>

record reaper_state =
  rs_first_run :: bool
  rs_last_full_prune :: real

definition FIVE_MINUTES :: int where
  "FIVE_MINUTES = 300000000"

definition TWO_HOURS :: int where
  "TWO_HOURS = 7200000000"

definition DB_SIZE_EMERGENCY_THRESHOLD_MB :: real where
  "DB_SIZE_EMERGENCY_THRESHOLD_MB = 250"

definition FULL_PRUNE_INTERVAL :: real where
  "FULL_PRUNE_INTERVAL = 3600"

definition memory_ratio :: "real \<Rightarrow> real \<Rightarrow> real" where
  "memory_ratio rss limit = (if limit > 0 then rss / limit else 0)"

text \<open>The jobs one wake-up submits, from the memory in use, its limit, the size of the database and the
  monotonic clock.\<close>

definition reaper_wake :: "int \<Rightarrow> real \<Rightarrow> real \<Rightarrow> real \<Rightarrow> real \<Rightarrow> reaper_state \<Rightarrow> write_job list \<times> reaper_state" where
  "reaper_wake ttl limit rss mb clock s =
     (let ratio = memory_ratio rss limit; s' = s\<lparr>rs_first_run := False, rs_last_full_prune := clock\<rparr>
      in if rs_first_run s then ([Prune_Edges ttl], s')
         else if ratio > 9 / 10 then ([Prune_Edges FIVE_MINUTES, Prune_High_Degree 100, Checkpoint], s')
         else if ratio > 3 / 4 then ([Prune_Full (min ttl TWO_HOURS), Checkpoint], s')
         else if mb > DB_SIZE_EMERGENCY_THRESHOLD_MB then ([Prune_Edges ttl], s')
         else if clock - rs_last_full_prune s \<ge> FULL_PRUNE_INTERVAL then ([Prune_Full ttl], s')
         else ([], s))"

section \<open>Facts about deleting\<close>

definition db_ok :: "graph \<Rightarrow> bool" where
  "db_ok g \<longleftrightarrow> keyed un_id (gd_users g) \<and> keyed pn_id (gd_processes g) \<and> keyed ipn_id (gd_ips g)
     \<and> keyed dn_id (gd_domains g) \<and> keyed fn_id (gd_files g) \<and> keyed rk_id (gd_registry g) \<and> list_all (linked g) (gd_rels g)"

lemma graph_ok_iff:
  "graph_ok g \<longleftrightarrow> db_ok g \<and> index_inv (gd_index g) \<and> indexed_ids (gd_index g) = set (node_ids g L_Process)"
  by (auto simp: graph_ok_def db_ok_def)

lemma db_ok_index [simp]: "db_ok (g\<lparr>gd_index := ix\<rparr>) = db_ok g"
  by (simp add: db_ok_def)

lemma keyed_pop: "keyed key t \<Longrightarrow> keyed key (d_pop i t)"
  by (auto simp: keyed_def list_all_iff d_pop_def intro: d_wf_filter)

lemma detach_rels [simp]: "gd_rels (detach_delete l i g) = filter (\<lambda>r. \<not> touches l i r) (gd_rels g)"
  by (simp add: detach_delete_def)

lemma detach_index [simp]: "gd_index (detach_delete l i g) = gd_index g"
  by (cases l) (simp_all add: detach_delete_def del_node_def)

lemma linked_detach: "linked g r \<Longrightarrow> \<not> touches l i r \<Longrightarrow> linked (detach_delete l i g) r"
  by (auto simp: linked_def touches_def node_ids_del split: option.splits)

lemma detach_ok: "db_ok g \<Longrightarrow> db_ok (detach_delete l i g)"
proof -
  assume ok: "db_ok g"
  then have links: "list_all (linked (detach_delete l i g)) (gd_rels (detach_delete l i g))"
    using linked_detach by (auto simp: db_ok_def list_all_iff)
  have "keyed un_id (gd_users (detach_delete l i g))" "keyed pn_id (gd_processes (detach_delete l i g))"
    "keyed ipn_id (gd_ips (detach_delete l i g))" "keyed dn_id (gd_domains (detach_delete l i g))"
    "keyed fn_id (gd_files (detach_delete l i g))" "keyed rk_id (gd_registry (detach_delete l i g))"
    using ok by (cases l; simp add: detach_delete_def del_node_def db_ok_def keyed_pop)+
  with links show ?thesis by (simp add: db_ok_def)
qed

lemma fewer_rels_ok: "db_ok g \<Longrightarrow> set rs \<subseteq> set (gd_rels g) \<Longrightarrow> db_ok (g\<lparr>gd_rels := rs\<rparr>)"
  by (auto simp: db_ok_def list_all_iff)

text \<open>The table of checks is complete: a node has an edge of its list exactly when an edge touches it.\<close>

lemma linked_type: "linked g r \<Longrightarrow> rl_type r \<in> set (map fst REL_TABLES)"
  using d_get_None [of REL_TABLES "rl_type r"] by (auto simp: linked_def split: option.splits)

definition checked :: "label \<Rightarrow> string \<Rightarrow> rel \<Rightarrow> bool" where
  "checked l i r \<longleftrightarrow> list_ex (\<lambda>(d, ty). rl_type r = ty \<and> (case d of In \<Rightarrow> rl_to r | Out \<Rightarrow> rl_from r) = i) (NODE_EDGE_CHECKS l)"

lemma checks_complete: "rl_type r \<in> set (map fst REL_TABLES) \<Longrightarrow> checked l i r = touches l i r"
  by (cases l; simp add: REL_TABLES_def; elim disjE; simp add: touches_def checked_def REL_TABLES_def d_get_def)

lemma has_edges_iff: "db_ok g \<Longrightarrow> has_edges l g i \<longleftrightarrow> (\<exists>r \<in> set (gd_rels g). touches l i r)"
proof -
  assume "db_ok g"
  then have t: "\<forall>r \<in> set (gd_rels g). checked l i r = touches l i r"
    using linked_type checks_complete by (auto simp: db_ok_def list_all_iff)
  have "has_edges l g i \<longleftrightarrow> (\<exists>r \<in> set (gd_rels g). checked l i r)"
    unfolding has_edges_def any_edge_def checked_def list_ex_iff by fast
  with t show ?thesis by auto
qed

section \<open>Facts about the reaper\<close>

lemma has_edges_rels: "gd_rels g' = gd_rels g \<Longrightarrow> has_edges l g' = has_edges l g"
  by (rule ext) (simp add: has_edges_def any_edge_def)

lemma detach_orphan: "db_ok g \<Longrightarrow> \<not> has_edges l g i \<Longrightarrow> gd_rels (detach_delete l i g) = gd_rels g"
  by (auto simp: has_edges_iff filter_id_conv)

text \<open>What one pass over some ids leaves.\<close>

definition reaped :: "label \<Rightarrow> graph \<Rightarrow> string list \<Rightarrow> graph \<Rightarrow> bool" where
  "reaped l g dead g' \<longleftrightarrow> db_ok g' \<and> gd_rels g' = gd_rels g \<and> gd_index g' = gd_index g
     \<and> (\<forall>i \<in> set dead. \<not> has_edges l g i)
     \<and> (\<forall>m. node_ids g' m = (if m = l then filter (\<lambda>j. j \<notin> set dead) (node_ids g m) else node_ids g m))"

lemma reaped_trans: "reaped l g dead g' \<Longrightarrow> reaped l g' dead' g'' \<Longrightarrow> reaped l g (dead @ dead') g''"
  using has_edges_rels [of g' g l] by (auto simp: reaped_def)

lemma reaped_refl: "db_ok g \<Longrightarrow> reaped l g [] g"
  by (simp add: reaped_def)

lemma reaped_one: "db_ok g \<Longrightarrow> \<not> has_edges l g i \<Longrightarrow> reaped l g [i] (detach_delete l i g)"
  using detach_orphan [of g l i] by (simp add: reaped_def detach_ok node_ids_del del: detach_rels)

lemma reap_ids_spec:
  "db_ok g \<Longrightarrow> reap_ids l is g = (dead, g') \<Longrightarrow> reaped l g dead g' \<and> dead = filter (\<lambda>i. \<not> has_edges l g i) is"
proof (induction "is" arbitrary: g dead)
  case Nil
  then show ?case by (simp add: reaped_refl)
next
  case (Cons i "is")
  show ?case
  proof (cases "has_edges l g i")
    case True
    with Cons show ?thesis by simp
  next
    case False
    with Cons.prems(2) obtain d where d: "reap_ids l is (detach_delete l i g) = (d, g')" "dead = i # d"
      by (auto split: prod.splits)
    have same: "has_edges l (detach_delete l i g) = has_edges l g"
      by (rule has_edges_rels) (rule detach_orphan [OF Cons.prems(1) False])
    note ih = Cons.IH [OF detach_ok [OF Cons.prems(1)] d(1), unfolded same]
    have "reaped l g ([i] @ d) g'"
      using reaped_trans [OF reaped_one [OF Cons.prems(1) False] conjunct1 [OF ih]] .
    then show ?thesis using conjunct2 [OF ih] d(2) False by simp
  qed
qed

lemma reap_from_unfold:
  assumes "reap_ids l (take bs (drop off (node_ids g l))) g = (dead, g1)" "take bs (drop off (node_ids g l)) \<noteq> []"
  shows "reap_from bs l off g = (if length (take bs (drop off (node_ids g l))) < bs then (dead, g1)
    else let (d, g2) = reap_from bs l (off + (bs - (if l = L_Process then length (filter (\<lambda>i. i \<in> set dead) (take bs (drop off (node_ids g l)))) else 0))) g1
      in (dead @ d, g2))"
  using assms by (subst reap_from.simps) (simp add: Let_def)

lemma reap_from_empty: "take bs (drop off (node_ids g l)) = [] \<Longrightarrow> reap_from bs l off g = ([], g)"
  by (subst reap_from.simps) (simp add: Let_def)

lemma reap_from_spec: "db_ok g \<Longrightarrow> reap_from bs l off g = (dead, g') \<Longrightarrow> reaped l g dead g'"
proof (induction bs l off g arbitrary: dead g' rule: reap_from.induct)
  case (1 bs l off g)
  let ?ids = "take bs (drop off (node_ids g l))"
  show ?case
  proof (cases "?ids = []")
    case True
    with "1.prems" show ?thesis by (simp add: reap_from_empty reaped_refl)
  next
    case False
    obtain d1 g1 where r: "reap_ids l ?ids g = (d1, g1)" by fastforce
    have one: "reaped l g d1 g1" using reap_ids_spec [OF "1.prems"(1) r] by blast
    show ?thesis
    proof (cases "length ?ids < bs")
      case True
      then have "reap_from bs l off g = (d1, g1)" unfolding reap_from_unfold [OF r False] by (rule if_P)
      with "1.prems"(2) one show ?thesis by simp
    next
      case full: False
      let ?off = "off + (bs - (if l = L_Process then length (filter (\<lambda>i. i \<in> set d1) ?ids) else 0))"
      obtain d2 g2 where r2: "reap_from bs l ?off g1 = (d2, g2)" by fastforce
      have "dead = d1 @ d2" "g' = g2"
        using "1.prems"(2) r2 unfolding reap_from_unfold [OF r False] if_not_P [OF full] by simp_all
      moreover have "reaped l g1 d2 g2"
        using "1.IH" [OF refl False r [symmetric] refl refl full] one r2 by (simp add: reaped_def)
      ultimately show ?thesis using reaped_trans [OF one] by simp
    qed
  qed
qed

lemma reap_labels_spec:
  "db_ok g \<Longrightarrow> reap_labels bs ls g = (dead, g') \<Longrightarrow> distinct ls \<Longrightarrow>
     db_ok g' \<and> gd_rels g' = gd_rels g \<and> gd_index g' = gd_index g
     \<and> (\<forall>(l, i) \<in> set dead. l \<in> set ls \<and> \<not> has_edges l g i)
     \<and> (\<forall>m. node_ids g' m = filter (\<lambda>j. (m, j) \<notin> set dead) (node_ids g m))"
proof (induction ls arbitrary: g dead)
  case (Cons l ls)
  obtain d1 g1 where r1: "reap_from bs l 0 g = (d1, g1)" by fastforce
  obtain d2 g2 where r2: "reap_labels bs ls g1 = (d2, g2)" by fastforce
  have d: "dead = map (Pair l) d1 @ d2" "g' = g2" using Cons.prems(2) r1 r2 by simp_all
  have one: "reaped l g d1 g1" by (rule reap_from_spec [OF Cons.prems(1) r1])
  then have ok1: "db_ok g1" and rels1: "gd_rels g1 = gd_rels g" by (simp_all add: reaped_def)
  have "distinct ls" "reap_labels bs ls g1 = (d2, g')" using Cons.prems(3) r2 d(2) by simp_all
  note two = Cons.IH [OF ok1 this(2,1), unfolded has_edges_rels [OF rels1]]
  have ids: "node_ids g' m = filter (\<lambda>j. (m, j) \<notin> set dead) (node_ids g m)" for m
  proof -
    have "node_ids g' m = filter (\<lambda>j. (m, j) \<notin> set d2) (node_ids g1 m)" using two d(2) by blast
    also have "\<dots> = filter (\<lambda>j. (m, j) \<notin> set dead) (node_ids g m)"
      using one d(1) by (cases "m = l") (auto simp: reaped_def intro: filter_cong)
    finally show ?thesis .
  qed
  have "\<forall>(l, i) \<in> set dead. l \<in> set (l # ls) \<and> \<not> has_edges l g i"
    using one two d(1) by (auto simp: reaped_def)
  then have "\<forall>(m, i) \<in> set dead. m \<in> set (l # ls) \<and> \<not> has_edges m g i"
    using one two d(1) by (auto simp: reaped_def)
  with ids two one d(2) show ?case by (simp add: reaped_def)
qed simp

lemma cleanup_spec:
  assumes "graph_ok g" "cleanup_orphaned_nodes bs g = (n, g')"
  shows "graph_ok g' \<and> gd_rels g' = gd_rels g
    \<and> (\<forall>l. \<forall>i \<in> set (node_ids g l). i \<notin> set (node_ids g' l) \<longrightarrow> \<not> has_edges l g i)
    \<and> (\<forall>l. set (node_ids g' l) \<subseteq> set (node_ids g l))"
proof -
  obtain dead g1 where r: "reap_labels bs REAP_ORDER g = (dead, g1)" by fastforce
  obtain gone where gone: "gone = map snd (filter (\<lambda>(l, i). l = L_Process) dead)" by blast
  have g': "g' = g1\<lparr>gd_index := snd (remove_nodes gone (gd_index g1))\<rparr>"
    using assms(2) r unfolding gone by (auto simp: cleanup_orphaned_nodes_def Let_def remove_nodes_def)
  have "db_ok g" and ix: "index_inv (gd_index g)" "indexed_ids (gd_index g) = set (node_ids g L_Process)"
    using assms(1) by (simp_all add: graph_ok_iff)
  note s = reap_labels_spec [OF this(1) r, unfolded REAP_ORDER_def, simplified]
  have in_gone: "i \<in> set gone \<longleftrightarrow> (L_Process, i) \<in> set dead" for i unfolding gone by force
  have ids: "node_ids g' m = node_ids g1 m" for m by (simp add: g')
  have "index_inv (gd_index g')" using s ix(1) remove_inv [of "gd_index g" gone] by (simp add: g')
  moreover have "indexed_ids (gd_index g') = set (node_ids g' L_Process)"
  proof -
    have "indexed_ids (gd_index g') = indexed_ids (gd_index g) - set gone"
      using s indexed_remove [OF ix(1), of gone] by (simp add: g')
    also have "\<dots> = set (filter (\<lambda>j. (L_Process, j) \<notin> set dead) (node_ids g L_Process))"
      unfolding ix(2) using in_gone by auto
    finally show ?thesis using s by (simp add: ids)
  qed
  moreover have "db_ok g'" using s by (simp add: g')
  ultimately have "graph_ok g'" by (simp add: graph_ok_iff)
  moreover have "gd_rels g' = gd_rels g" using s by (simp add: g')
  ultimately show ?thesis using s by (fastforce simp: ids)
qed

lemma db_ok_distinct: "db_ok g \<Longrightarrow> distinct (node_ids g l)"
  by (cases l) (simp_all add: db_ok_def keyed_def d_keys_wf node_ids_def)

lemma drop_kept:
  assumes "distinct xs" "set dead \<subseteq> set (take n (drop off xs))" "off + n \<le> length xs"
  shows "drop (off + (n - length (filter (\<lambda>i. i \<in> set dead) (take n (drop off xs))))) (filter (\<lambda>j. j \<notin> set dead) xs)
    = filter (\<lambda>j. j \<notin> set dead) (drop (off + n) xs)"
proof -
  let ?a = "take off xs" and ?b = "take n (drop off xs)" and ?c = "drop (off + n) xs"
  have xs: "xs = ?a @ ?b @ ?c" by (metis append_take_drop_id drop_drop add.commute)
  have "set ?a \<inter> set ?b = {}" using assms(1) xs by (metis distinct_append set_append disjoint_iff UnI1)
  with assms(2) have "filter (\<lambda>j. j \<notin> set dead) ?a = ?a" by (intro filter_True) auto
  then have f: "filter (\<lambda>j. j \<notin> set dead) xs = ?a @ filter (\<lambda>j. j \<notin> set dead) ?b @ filter (\<lambda>j. j \<notin> set dead) ?c"
    by (subst xs) simp
  have "length (filter (\<lambda>i. i \<in> set dead) ?b) + length (filter (\<lambda>j. j \<notin> set dead) ?b) = n"
    using length_filter_split [of "\<lambda>i. i \<in> set dead" ?b] assms(3) by simp
  then have "off + (n - length (filter (\<lambda>i. i \<in> set dead) ?b)) = length (?a @ filter (\<lambda>j. j \<notin> set dead) ?b)"
    using assms(3) by simp
  then show ?thesis unfolding f by simp
qed

lemma reap_processes_complete:
  "db_ok g \<Longrightarrow> 0 < bs \<Longrightarrow> l = L_Process \<Longrightarrow> reap_from bs l off g = (dead, g') \<Longrightarrow>
     i \<in> set (drop off (node_ids g l)) \<Longrightarrow> \<not> has_edges l g i \<Longrightarrow> i \<in> set dead"
proof (induction bs l off g arbitrary: dead g' rule: reap_from.induct)
  case (1 bs l off g)
  let ?ids = "take bs (drop off (node_ids g l))"
  from "1.prems"(2,5) have ne: "?ids \<noteq> []" by auto
  obtain d1 g1 where r: "reap_ids l ?ids g = (d1, g1)" by fastforce
  have one: "reaped l g d1 g1" and d1: "d1 = filter (\<lambda>i. \<not> has_edges l g i) ?ids"
    using reap_ids_spec [OF "1.prems"(1) r] by blast+
  show ?case
  proof (cases "length ?ids < bs")
    case True
    then have "reap_from bs l off g = (d1, g1)" unfolding reap_from_unfold [OF r ne] by (rule if_P)
    moreover have "?ids = drop off (node_ids g l)" using True by simp
    ultimately show ?thesis using "1.prems"(4-6) d1 by simp
  next
    case full: False
    let ?off = "off + (bs - length (filter (\<lambda>i. i \<in> set d1) ?ids))"
    obtain d2 g2 where r2: "reap_from bs l ?off g1 = (d2, g2)" by fastforce
    have d: "dead = d1 @ d2" "g' = g2"
      using "1.prems"(3,4) r2 unfolding reap_from_unfold [OF r ne] if_not_P [OF full] by simp_all
    have "set (drop off (node_ids g l)) = set ?ids \<union> set (drop (off + bs) (node_ids g l))"
      by (metis append_take_drop_id drop_drop add.commute set_append)
    with "1.prems"(5) consider "i \<in> set ?ids" | "i \<in> set (drop (off + bs) (node_ids g l))" by auto
    then show ?thesis
    proof cases
      case 1
      then show ?thesis using d(1) d1 "1.prems"(6) by simp
    next
      case 2
      have "off + bs \<le> length (node_ids g l)" using full ne "1.prems"(2) by auto
      from drop_kept [OF db_ok_distinct [OF "1.prems"(1)] _ this, of d1]
      have "drop ?off (node_ids g1 l) = filter (\<lambda>j. j \<notin> set d1) (drop (off + bs) (node_ids g l))"
        using one d1 by (simp add: reaped_def subset_iff)
      with 2 have "i \<in> set d1 \<or> i \<in> set (drop ?off (node_ids g1 l))" by auto
      then show ?thesis
      proof
        assume i: "i \<in> set (drop ?off (node_ids g1 l))"
        have g1: "db_ok g1" "gd_rels g1 = gd_rels g" using one by (simp_all add: reaped_def)
        have "i \<in> set d2"
          using "1.IH" [OF refl ne r [symmetric] refl refl full g1(1) "1.prems"(2,3), of d2 g2] "1.prems"(3,6) r2 i
            has_edges_rels [OF g1(2)] by simp
        then show ?thesis using d(1) by simp
      qed (simp add: d(1))
    qed
  qed
qed

lemma cleanup_processes:
  assumes "graph_ok g" "cleanup_orphaned_nodes bs g = (n, g')" "0 < bs" "i \<in> set (node_ids g' L_Process)"
  shows "has_edges L_Process g i"
proof (rule ccontr)
  assume no: "\<not> has_edges L_Process g i"
  have db: "db_ok g" using assms(1) by (simp add: graph_ok_iff)
  obtain d1 g1 where r1: "reap_labels bs [L_IP, L_Domain, L_File, L_RegistryKey] g = (d1, g1)" by fastforce
  obtain d2 g2 where r2: "reap_from bs L_Process 0 g1 = (d2, g2)" by fastforce
  obtain d3 g3 where r3: "reap_from bs L_User 0 g2 = (d3, g3)" by fastforce
  have s1: "db_ok g1" "gd_rels g1 = gd_rels g" "node_ids g1 L_Process = node_ids g L_Process"
    using reap_labels_spec [OF db r1] by (auto intro!: filter_True)
  have s2: "reaped L_Process g1 d2 g2" by (rule reap_from_spec [OF s1(1) r2])
  then have s3: "reaped L_User g2 d3 g3" using r3 by (intro reap_from_spec) (simp_all add: reaped_def)
  have "node_ids g' L_Process = node_ids g3 L_Process"
    using assms(2) r1 r2 r3 by (auto simp: cleanup_orphaned_nodes_def REAP_ORDER_def Let_def split: prod.splits if_splits)
  also have "\<dots> = filter (\<lambda>j. j \<notin> set d2) (node_ids g L_Process)"
    using s2 s3 s1(3) by (simp add: reaped_def)
  finally have i: "i \<in> set (node_ids g1 L_Process)" "i \<notin> set d2" using assms(4) s1(3) by auto
  have "\<not> has_edges L_Process g1 i" using no has_edges_rels [OF s1(2)] by simp
  from reap_processes_complete [OF s1(1) assms(3) refl r2 _ this] i show False by simp
qed

text \<open>The other labels: two full batches of orphans, and the second is never looked at.\<close>

lemma reap_skips:
  assumes "db_ok g" "l \<noteq> L_Process" "node_ids g l = A @ B" "length A = bs" "A \<noteq> []" "length B \<le> bs"
    "\<forall>i \<in> set A. \<not> has_edges l g i"
  shows "fst (reap_from bs l 0 g) = A"
proof -
  have ids: "take bs (drop 0 (node_ids g l)) = A" using assms(3,4) by simp
  obtain d1 g1 where r: "reap_ids l A g = (d1, g1)" by fastforce
  have one: "reaped l g d1 g1" "d1 = filter (\<lambda>i. \<not> has_edges l g i) A"
    using reap_ids_spec [OF assms(1) r] by blast+
  with assms(7) have d1: "d1 = A" by simp
  have "distinct (A @ B)" using db_ok_distinct [OF assms(1), of l] assms(3) by simp
  then have "node_ids g1 l = B"
    using one(1) assms(3) d1 by (auto simp: reaped_def filter_empty_conv intro!: filter_True)
  then have "reap_from bs l bs g1 = ([], g1)" using assms(6) by (intro reap_from_empty) simp
  then show ?thesis
    using reap_from_unfold [of l bs 0 g d1 g1] r assms(2,4,5) d1 unfolding ids by simp
qed

lemma prune_types_spec:
  "prune_types c tys g = (n, g') \<Longrightarrow>
     g' = g\<lparr>gd_rels := filter (\<lambda>r. \<not> (rl_type r \<in> set tys \<and> rl_timestamp r < c)) (gd_rels g)\<rparr>
     \<and> n + length (gd_rels g') = length (gd_rels g)"
proof (induction tys arbitrary: g n)
  case (Cons ty tys)
  let ?old = "\<lambda>r. rl_type r = ty \<and> rl_timestamp r < c"
  let ?g = "g\<lparr>gd_rels := filter (\<lambda>r. \<not> ?old r) (gd_rels g)\<rparr>"
  have same: "(if 0 < length (filter ?old (gd_rels g)) then ?g else g) = ?g"
    by (auto simp: filter_empty_conv filter_id_conv)
  obtain m where m: "prune_types c tys ?g = (m, g')" "n = length (filter ?old (gd_rels g)) + m"
    using Cons.prems by (simp only: prune_types.simps Let_def same) (auto split: prod.splits)
  from Cons.IH [OF m(1)] m(2) length_filter_split [of ?old "gd_rels g"] show ?case
    by (auto simp: conj_disj_distribL conj_commute intro!: filter_cong arg_cong [where f = "\<lambda>rs. g\<lparr>gd_rels := rs\<rparr>"])
qed simp

lemma all_types: "set ALL_EDGE_TYPES = set (map fst REL_TABLES)"
  by (auto simp: ALL_EDGE_TYPES_def REL_TABLES_def)

lemma prune_edges_spec:
  assumes "db_ok g" "prune_edges now ttl g = (n, g')"
  shows "g' = g\<lparr>gd_rels := filter (\<lambda>r. now - ttl \<le> rl_timestamp r) (gd_rels g)\<rparr> \<and> n + length (gd_rels g') = length (gd_rels g)"
proof -
  have "\<forall>r \<in> set (gd_rels g). rl_type r \<in> set ALL_EDGE_TYPES"
    unfolding all_types using assms(1) linked_type by (auto simp: db_ok_def list_all_iff)
  then have "filter (\<lambda>r. \<not> (rl_type r \<in> set ALL_EDGE_TYPES \<and> rl_timestamp r < now - ttl)) (gd_rels g)
      = filter (\<lambda>r. now - ttl \<le> rl_timestamp r) (gd_rels g)"
    by (intro filter_cong) auto
  note eq = this and s = prune_types_spec [OF assms(2) [unfolded prune_edges_def]]
  from conjunct1 [OF s, unfolded eq] conjunct2 [OF s] show ?thesis by (rule conjI)
qed

lemma prune_edges_ok: "graph_ok g \<Longrightarrow> prune_edges now ttl g = (n, g') \<Longrightarrow> graph_ok g'"
  using prune_edges_spec [of g now ttl n g'] fewer_rels_ok [of g] by (auto simp: graph_ok_iff)

section \<open>Properties of the reaper\<close>

text \<open>C24. A full prune deletes exactly the edges older than the time to live.  A process stays exactly when one
  of its edges stays, so none is left over and none that is still connected goes; the other tables
  lose at most nodes without edges; the process index follows.\<close>

theorem full_prune_exact:
  assumes "graph_ok g" "prune_old_edges now ttl g = (n, g')"
  shows "graph_ok g' \<and> gd_rels g' = filter (\<lambda>r. now - ttl \<le> rl_timestamp r) (gd_rels g)
    \<and> (\<forall>i. i \<in> set (node_ids g' L_Process) \<longleftrightarrow> i \<in> set (node_ids g L_Process)
         \<and> (\<exists>r \<in> set (gd_rels g'). touches L_Process i r))
    \<and> (\<forall>l. \<forall>i \<in> set (node_ids g l). (\<exists>r \<in> set (gd_rels g'). touches l i r) \<longrightarrow> i \<in> set (node_ids g' l))
    \<and> indexed_ids (gd_index g') = set (node_ids g' L_Process)"
proof -
  obtain k g1 m where p: "prune_edges now ttl g = (k, g1)" and c: "cleanup_orphaned_nodes 500 g1 = (m, g')"
    using assms(2) by (auto simp: prune_old_edges_def split: prod.splits)
  have ok1: "graph_ok g1" by (rule prune_edges_ok [OF assms(1) p])
  then have db1: "db_ok g1" by (simp add: graph_ok_iff)
  have g1: "g1 = g\<lparr>gd_rels := filter (\<lambda>r. now - ttl \<le> rl_timestamp r) (gd_rels g)\<rparr>"
    using prune_edges_spec [OF _ p] assms(1) by (simp add: graph_ok_iff)
  note s = cleanup_spec [OF ok1 c]
  then have rels: "gd_rels g' = gd_rels g1" and ok': "graph_ok g'" by blast+
  have has: "has_edges l g1 i \<longleftrightarrow> (\<exists>r \<in> set (gd_rels g'). touches l i r)" for l i
    using has_edges_iff [OF db1] rels by simp
  have nodes: "node_ids g1 l = node_ids g l" for l by (simp add: g1)
  have kept: "i \<in> set (node_ids g' l)" if "i \<in> set (node_ids g l)" "\<exists>r \<in> set (gd_rels g'). touches l i r" for i l
  proof -
    from s that(1) [folded nodes] have "i \<notin> set (node_ids g' l) \<longrightarrow> \<not> has_edges l g1 i" by blast
    with that(2) has show ?thesis by blast
  qed
  have process: "\<exists>r \<in> set (gd_rels g'). touches L_Process i r" if "i \<in> set (node_ids g' L_Process)" for i
    using cleanup_processes [OF ok1 c _ that] has by simp
  have "\<forall>l. set (node_ids g' l) \<subseteq> set (node_ids g1 l)" using s by blast
  then have sub: "set (node_ids g' l) \<subseteq> set (node_ids g l)" for l unfolding nodes by blast
  have "indexed_ids (gd_index g') = set (node_ids g' L_Process)" using ok' by (simp add: graph_ok_iff)
  moreover have "gd_rels g' = filter (\<lambda>r. now - ttl \<le> rl_timestamp r) (gd_rels g)" using rels g1 by simp
  ultimately show ?thesis using ok' kept process sub by blast
qed

text \<open>Orphans of the other labels are reaped by the batch: of two full batches of addresses without edges the
  second is skipped, because the offset moves on as if the first had not been deleted.\<close>

theorem reaper_skips_orphans:
  assumes "graph_ok g" "node_ids g L_IP = A @ B" "length A = bs" "A \<noteq> []" "length B \<le> bs" "\<forall>i \<in> set (A @ B). \<not> has_edges L_IP g i"
  shows "node_ids (snd (cleanup_orphaned_nodes bs g)) L_IP = B"
proof -
  have db: "db_ok g" using assms(1) by (simp add: graph_ok_iff)
  have bs: "length A = bs" "A \<noteq> []" "length B \<le> bs" "\<forall>i \<in> set A. \<not> has_edges L_IP g i" using assms(3-6) by simp_all
  obtain d1 g1 where r1: "reap_from bs L_IP 0 g = (d1, g1)" by fastforce
  have d1: "d1 = A" using reap_skips [OF db _ assms(2) bs] r1 by simp
  have s1: "reaped L_IP g d1 g1" by (rule reap_from_spec [OF db r1])
  obtain d2 g2 where r2: "reap_labels bs [L_Domain, L_File, L_RegistryKey, L_Process, L_User] g1 = (d2, g2)" by fastforce
  have db1: "db_ok g1" using s1 by (simp add: reaped_def)
  have "node_ids g2 L_IP = node_ids g1 L_IP"
    using reap_labels_spec [OF db1 r2] by (auto intro!: filter_True)
  also have "\<dots> = filter (\<lambda>j. j \<notin> set A) (A @ B)" using s1 d1 assms(2) by (simp add: reaped_def)
  also have "\<dots> = B" using db_ok_distinct [OF db, of L_IP] assms(2) by (auto simp: filter_empty_conv intro!: filter_True)
  also have "node_ids g2 L_IP = node_ids (snd (cleanup_orphaned_nodes bs g)) L_IP"
    using r1 r2 by (simp add: cleanup_orphaned_nodes_def REAP_ORDER_def Let_def)
  finally show ?thesis .
qed

definition sample_graph :: graph where
  "sample_graph = write_batch 0 ip_batches empty_graph"

lemma empty_graph_ok: "graph_ok empty_graph"
  by (simp add: graph_ok_def empty_graph_def index_inv_new node_ids_def d_keys_def indexed_ids_def) (simp add: new_index_def)

lemma sample_graph_ok: "graph_ok sample_graph"
  unfolding sample_graph_def write_batch_def by (intro fold_create_ok write_nodes_ok empty_graph_ok)

theorem full_prune_exact_witness:
  "gd_rels (snd (prune_old_edges 9000000 5000000 sample_graph)) = gd_rels sample_graph
    \<and> gd_rels (snd (prune_old_edges 9000000 1000000 sample_graph)) = []"
proof -
  have "gd_rels (snd (prune_old_edges 9000000 ttl sample_graph)) = filter (\<lambda>r. 9000000 - ttl \<le> rl_timestamp r) (gd_rels sample_graph)" for ttl
    using full_prune_exact [OF sample_graph_ok prod.collapse [symmetric]] by blast
  moreover have "map rl_timestamp (gd_rels sample_graph) = [5000000]" by code_simp
  ultimately show ?thesis by (auto simp: map_eq_Cons_conv)
qed

definition orphan_graph :: graph where
  "orphan_graph = upsert_ip 0 ((seen_ip 1)\<lparr>ipn_id := ''5.6.7.8''\<rparr>) (upsert_ip 0 (seen_ip 1) empty_graph)"

theorem reaper_skips_orphans_witness: "node_ids (snd (cleanup_orphaned_nodes 1 orphan_graph)) L_IP = [''5.6.7.8'']"
proof -
  have "graph_ok orphan_graph" unfolding orphan_graph_def by (intro upsert_ok empty_graph_ok)
  moreover have "node_ids orphan_graph L_IP = [''1.2.3.4''] @ [''5.6.7.8'']" by code_simp
  moreover have "\<forall>i \<in> set ([''1.2.3.4''] @ [''5.6.7.8'']). \<not> has_edges L_IP orphan_graph i" by code_simp
  ultimately show ?thesis using reaper_skips_orphans [of orphan_graph "[''1.2.3.4'']" "[''5.6.7.8'']" 1] by simp
qed

section \<open>Facts about the purges\<close>

lemma fewer_rels_graph: "graph_ok g \<Longrightarrow> set rs \<subseteq> set (gd_rels g) \<Longrightarrow> graph_ok (g\<lparr>gd_rels := rs\<rparr>)"
  using fewer_rels_ok [of g rs] by (simp add: graph_ok_iff)

lemma detach_other_ok: "graph_ok g \<Longrightarrow> l \<noteq> L_Process \<Longrightarrow> graph_ok (detach_delete l i g)"
  by (simp add: graph_ok_iff detach_ok node_ids_del)

lemma fold_detach:
  "node_ids (fold (detach_delete l) is g) m = (if m = l then filter (\<lambda>j. j \<notin> set is) (node_ids g m) else node_ids g m)"
  "gd_index (fold (detach_delete l) is g) = gd_index g" "db_ok g \<Longrightarrow> db_ok (fold (detach_delete l) is g)"
proof -
  show "node_ids (fold (detach_delete l) is g) m = (if m = l then filter (\<lambda>j. j \<notin> set is) (node_ids g m) else node_ids g m)"
    by (induction "is" arbitrary: g) (auto simp: node_ids_del intro: filter_cong)
  show "gd_index (fold (detach_delete l) is g) = gd_index g"
    by (induction "is" arbitrary: g) auto
  show "db_ok g \<Longrightarrow> db_ok (fold (detach_delete l) is g)"
    by (rule fold_invariant) (auto intro: detach_ok)
qed

lemma fold_detach_ok: "graph_ok g \<Longrightarrow> l \<noteq> L_Process \<Longrightarrow> graph_ok (fold (detach_delete l) is g)"
  by (rule fold_invariant) (auto intro: detach_other_ok)

lemma fold_detach_tables:
  "gd_processes (fold (detach_delete l) is g) = (if l = L_Process then filter (\<lambda>(i, _). i \<notin> set is) (gd_processes g) else gd_processes g)"
  "gd_ips (fold (detach_delete l) is g) = (if l = L_IP then filter (\<lambda>(i, _). i \<notin> set is) (gd_ips g) else gd_ips g)"
  "gd_domains (fold (detach_delete l) is g) = (if l = L_Domain then filter (\<lambda>(i, _). i \<notin> set is) (gd_domains g) else gd_domains g)"
  "gd_files (fold (detach_delete l) is g) = (if l = L_File then filter (\<lambda>(i, _). i \<notin> set is) (gd_files g) else gd_files g)"
  by (induction "is" arbitrary: g;
      auto simp: detach_delete_def del_node_def d_pop_def split: label.split prod.splits intro: filter_cong)+

lemma purge_process_ok: "graph_ok g \<Longrightarrow> graph_ok (snd (purge_process_name pat g))"
proof -
  assume ok: "graph_ok g"
  obtain dead where d: "dead = matching_ids (\<lambda>p. pn_name p \<noteq> [] \<and> fnmatch (py_lower (pn_name p)) (py_lower pat)) (gd_processes g)"
    by blast
  let ?g = "fold (detach_delete L_Process) dead g"
  have p: "snd (purge_process_name pat g) = ?g\<lparr>gd_index := snd (remove_nodes dead (gd_index ?g))\<rparr>"
    unfolding purge_process_name_def Let_def d [symmetric] delete_all_def by (auto simp: remove_nodes_def)
  have ix: "index_inv (gd_index g)" "indexed_ids (gd_index g) = set (node_ids g L_Process)"
    using ok by (simp_all add: graph_ok_iff)
  show ?thesis
    unfolding p using ok fold_detach(3) [of g L_Process dead] remove_inv [OF ix(1), of dead] indexed_remove [OF ix(1), of dead] ix(2)
    by (auto simp: graph_ok_iff fold_detach)
qed

lemma purge_by_rule_ok: "graph_ok g \<Longrightarrow> graph_ok (snd (purge_by_rule ty pat g))"
  by (simp add: purge_by_rule_def purge_process_ok)
    (simp add: purge_dst_ip_def purge_dst_cidr_def purge_domain_def purge_file_path_def delete_all_def fold_detach_ok split: option.split)

lemma purge_gated_ok: "graph_ok (snd s) \<Longrightarrow> graph_ok (snd (purge_gated entries ty b f np s))"
  by (cases s) (auto simp: purge_gated_def Let_def intro: fewer_rels_graph)

lemma purge_process_edges_ok: "graph_ok (snd s) \<Longrightarrow> graph_ok (snd (purge_process_edges entries np s))"
  unfolding purge_process_edges_def Let_def
  by (auto intro!: purge_gated_ok fold_invariant [where I = "\<lambda>s. graph_ok (snd s)"])

lemma cleanup_targets_ok: "graph_ok (snd s) \<Longrightarrow> l \<noteq> L_Process \<Longrightarrow> graph_ok (snd (cleanup_orphaned_targets strict l tys s))"
  unfolding cleanup_orphaned_targets_def by (cases s) (auto intro!: fold_invariant [where I = "\<lambda>s. graph_ok (snd s)"] detach_other_ok)

lemma purge_baselined_ok: "graph_ok g \<Longrightarrow> graph_ok (snd (purge_baselined_edges strict entries g))"
  unfolding purge_baselined_edges_def Let_def
  by (auto intro!: cleanup_targets_ok fold_invariant [where I = "\<lambda>s. graph_ok (snd s)"] purge_process_edges_ok)

lemma drop_oldest_sub: "set (drop_oldest n P rs) \<subseteq> set rs"
  by (auto simp: drop_oldest_def Let_def)

lemma prune_chatty_ok: "graph_ok (snd s) \<Longrightarrow> graph_ok (snd (prune_chatty excess threshold ty s))"
  unfolding prune_chatty_def Let_def
  by (cases s) (auto intro!: fold_invariant [where I = "\<lambda>s. graph_ok (snd s)"] fewer_rels_graph drop_oldest_sub)

lemma prune_high_degree_ok: "graph_ok g \<Longrightarrow> graph_ok (snd (prune_high_degree_nodes excess threshold g))"
  unfolding prune_high_degree_nodes_def
  by (rule fold_invariant [where I = "\<lambda>s. graph_ok (snd s)"]) (auto intro: prune_chatty_ok)

lemma prune_edges_snd: "graph_ok g \<Longrightarrow> graph_ok (snd (prune_edges now ttl g))"
  using prune_edges_ok [of g now ttl "fst (prune_edges now ttl g)" "snd (prune_edges now ttl g)"] by simp

lemma prune_old_ok: "graph_ok g \<Longrightarrow> graph_ok (snd (prune_old_edges now ttl g))"
proof -
  assume ok: "graph_ok g"
  obtain k g1 m g2 where p: "prune_edges now ttl g = (k, g1)" and c: "cleanup_orphaned_nodes 500 g1 = (m, g2)"
    by (meson surj_pair)
  have "graph_ok g2" using cleanup_spec [OF prune_edges_ok [OF ok p] c] by blast
  then show ?thesis using p c by (simp add: prune_old_edges_def)
qed

section \<open>The contract of a graph job\<close>

text \<open>What the writer thread relies on: whatever job comes, the store stays well formed.\<close>

locale graph_jobs =
  fixes run :: "'j \<Rightarrow> 'g \<Rightarrow> 'g" and inv :: "'g \<Rightarrow> bool" and stop :: "'j \<Rightarrow> bool"
  assumes run_inv: "inv g \<Longrightarrow> \<not> stop j \<Longrightarrow> inv (run j g)"
begin

lemma run_all: "inv g \<Longrightarrow> inv (fold run (takeWhile (\<lambda>j. \<not> stop j) js) g)"
  by (induction js arbitrary: g) (auto intro: run_inv)

lemma run_inductive: "inv g \<Longrightarrow> (\<And>j. j \<in> set js \<Longrightarrow> \<not> stop j) \<Longrightarrow> inv (fold run js g)"
  by (induction js arbitrary: g) (auto intro: run_inv)

end

lemma run_job_ok: "graph_ok g \<Longrightarrow> graph_ok (snd (run_job excess strict now j g))"
  by (cases j) (auto simp: run_job_def prune_edges_only_def write_batch_def upsert_ok purge_baselined_ok purge_by_rule_ok
      prune_high_degree_ok prune_old_ok prune_edges_snd intro!: fold_create_ok write_nodes_ok)

interpretation writer_jobs: graph_jobs "\<lambda>(now, j) g. snd (run_job excess strict now j g)" graph_ok "\<lambda>(now, j). j = Shutdown"
  for excess strict
  by unfold_locales (auto simp: run_job_ok)

lemma run_writer_fold:
  "fst (run_writer excess strict js g) = fold (\<lambda>(now, j) g. snd (run_job excess strict now j g)) (takeWhile (\<lambda>j. \<not> (\<lambda>(now, j). j = Shutdown) j) js) g"
  by (induction js arbitrary: g) auto

end
