(* ===== verification/GraphWriter.thy ===== *)
theory GraphWriter
  imports GraphReaper Processor "HOL-Library.Multiset"
begin

text \<open>
  The writer of the graph (\<open>graph_writer_thread\<close> in \<open>agent/main.py\<close>) over the jobs of the processor, the
  reaper and the dashboard: what each purge removes, what the pruning of chatty processes leaves,
  and the path of an event from the queue into the graph.
\<close>

section \<open>The oldest edges\<close>

lemma mset_split_positions:
  assumes "distinct idx" "set idx \<subseteq> {0 ..< length rs}"
  shows "mset rs = mset (map ((!) rs) (filter (\<lambda>k. k \<notin> set idx) [0 ..< length rs])) + mset (map ((!) rs) idx)"
proof -
  have "mset (filter (\<lambda>k. k \<in> set idx) [0 ..< length rs]) = mset idx"
    using assms by (intro set_eq_iff_mset_eq_distinct [THEN iffD1]) auto
  then have "mset [0 ..< length rs] = mset (filter (\<lambda>k. k \<notin> set idx) [0 ..< length rs]) + mset idx"
    using multiset_partition [of "mset [0 ..< length rs]" "\<lambda>k. k \<notin> set idx"] by (simp only: mset_filter not_not)
  then have "image_mset ((!) rs) (mset [0 ..< length rs])
      = mset (map ((!) rs) (filter (\<lambda>k. k \<notin> set idx) [0 ..< length rs])) + mset (map ((!) rs) idx)"
    by (simp only: image_mset_union mset_map)
  then show ?thesis by (metis map_nth mset_map)
qed

text \<open>Exactly \<open>n\<close> of the chosen edges go, none of them newer than one that stays, and every other edge
  stays in its place.\<close>

definition oldest_dropped :: "nat \<Rightarrow> rel list \<Rightarrow> rel list \<Rightarrow> bool" where
  "oldest_dropped n rs rs' \<longleftrightarrow> (\<exists>gone. mset rs = mset rs' + mset gone \<and> length gone = min n (length rs)
     \<and> (\<forall>d \<in> set gone. \<forall>r \<in> set rs'. rl_timestamp d \<le> rl_timestamp r))"

lemma filter_positions: "filter P (map ((!) rs) ks) = map ((!) rs) (filter (\<lambda>k. P (rs ! k)) ks)"
  by (induction ks) auto

lemma filter_map_all: "\<forall>k \<in> set ks. P (f k) \<Longrightarrow> filter P (map f ks) = map f ks"
  by (induction ks) auto

lemma drop_oldest_others:
  assumes "\<And>r. Q r \<Longrightarrow> \<not> P r"
  shows "filter Q (drop_oldest n P rs) = filter Q rs"
proof -
  let ?idx = "take n (sort_key (\<lambda>k. rl_timestamp (rs ! k)) (filter (\<lambda>k. P (rs ! k)) [0 ..< length rs]))"
  have "\<forall>k \<in> set ?idx. P (rs ! k)" by (auto dest: in_set_takeD)
  then have "filter (\<lambda>k. Q (rs ! k)) (filter (\<lambda>k. k \<notin> set ?idx) [0 ..< length rs]) = filter (\<lambda>k. Q (rs ! k)) [0 ..< length rs]"
    unfolding filter_filter using assms by (intro filter_cong) blast+
  then have "filter Q (drop_oldest n P rs) = filter Q (map ((!) rs) [0 ..< length rs])"
    by (simp only: drop_oldest_def Let_def filter_positions)
  then show ?thesis by (simp only: map_nth)
qed

lemma sorted_take_drop: "sorted (map f xs) \<Longrightarrow> x \<in> set (take n xs) \<Longrightarrow> y \<in> set (drop n xs) \<Longrightarrow> f x \<le> f y"
proof -
  assume s: "sorted (map f xs)" and x: "x \<in> set (take n xs)" and y: "y \<in> set (drop n xs)"
  have "sorted (map f (take n xs) @ map f (drop n xs))" using s by (metis append_take_drop_id map_append)
  with x y show ?thesis by (auto simp: sorted_append)
qed

lemma drop_oldest_spec: "oldest_dropped n (filter P rs) (filter P (drop_oldest n P rs))"
proof -
  let ?is = "filter (\<lambda>k. P (rs ! k)) [0 ..< length rs]"
  let ?s = "sort_key (\<lambda>k. rl_timestamp (rs ! k)) ?is"
  let ?idx = "take n ?s"
  have d: "distinct ?idx" "set ?idx \<subseteq> {0 ..< length rs}" by (auto dest: in_set_takeD)
  have p: "\<forall>k \<in> set ?idx. P (rs ! k)" by (auto dest: in_set_takeD)
  have "mset rs = mset (drop_oldest n P rs) + mset (map ((!) rs) ?idx)"
    using mset_split_positions [OF d] by (simp only: drop_oldest_def Let_def)
  then have "filter_mset P (mset rs) = filter_mset P (mset (drop_oldest n P rs)) + filter_mset P (mset (map ((!) rs) ?idx))"
    by (simp only: filter_union_mset)
  moreover
  have "filter P (map ((!) rs) ?idx) = map ((!) rs) ?idx" by (rule filter_map_all) (rule p)
  then have "filter_mset P (mset (map ((!) rs) ?idx)) = mset (map ((!) rs) ?idx)"
    unfolding mset_filter [symmetric] by (rule arg_cong)
  ultimately have m: "mset (filter P rs) = mset (filter P (drop_oldest n P rs)) + mset (map ((!) rs) ?idx)"
    by (simp only: mset_filter)
  have "length ?is = length (filter P rs)"
    using arg_cong [OF filter_positions [of P rs "[0 ..< length rs]"], of length] by (simp add: map_nth)
  then have l: "length (map ((!) rs) ?idx) = min n (length (filter P rs))" by (simp add: min.commute)
  have "rl_timestamp (rs ! a) \<le> rl_timestamp r" if a: "a \<in> set ?idx" and r: "r \<in> set (filter P (drop_oldest n P rs))" for a r
  proof -
    from r obtain k where k: "k \<in> set ?is" "k \<notin> set ?idx" "r = rs ! k" by (auto simp: drop_oldest_def Let_def)
    then have "k \<in> set (drop n ?s)" by (metis append_take_drop_id Un_iff set_append set_sort)
    from sorted_take_drop [OF _ a this, of "\<lambda>k. rl_timestamp (rs ! k)"] k(3) show ?thesis by simp
  qed
  with m l show ?thesis unfolding oldest_dropped_def
    by (intro exI [of _ "map ((!) rs) ?idx"]) auto
qed

section \<open>Chatty processes\<close>

definition edges_of :: "string \<Rightarrow> string \<Rightarrow> graph \<Rightarrow> rel list" where
  "edges_of ty i g = filter (edge_of ty i) (gd_rels g)"

definition thinned :: "(nat \<Rightarrow> nat) \<Rightarrow> nat \<Rightarrow> rel list \<Rightarrow> rel list \<Rightarrow> bool" where
  "thinned excess threshold es es' =
     (if length es > threshold \<and> excess (length es) \<ge> 1 then oldest_dropped (excess (length es)) es es' else es' = es)"

definition thin_step :: "(string \<Rightarrow> nat) \<Rightarrow> string \<Rightarrow> string \<Rightarrow> nat \<times> graph \<Rightarrow> nat \<times> graph" where
  "thin_step k ty i = (\<lambda>(total, g). if k i < 1 then (total, g) else (total + k i, g\<lparr>gd_rels := drop_oldest (k i) (edge_of ty i) (gd_rels g)\<rparr>))"

lemma thin_step_other: "ty' \<noteq> ty \<or> j \<noteq> i \<Longrightarrow> edges_of ty' j (snd (thin_step k ty i s)) = edges_of ty' j (snd s)"
proof -
  assume "ty' \<noteq> ty \<or> j \<noteq> i"
  then have "edge_of ty' j r \<Longrightarrow> \<not> edge_of ty i r" for r by (auto simp: edge_of_def)
  then show ?thesis by (cases s) (simp add: thin_step_def edges_of_def drop_oldest_others)
qed

lemma thin_step_own:
  "k i \<ge> 1 \<Longrightarrow> oldest_dropped (k i) (edges_of ty i (snd s)) (edges_of ty i (snd (thin_step k ty i s)))"
  "k i < 1 \<Longrightarrow> edges_of ty i (snd (thin_step k ty i s)) = edges_of ty i (snd s)"
  by (cases s; simp add: thin_step_def edges_of_def drop_oldest_spec)+

lemma thin_step_ids: "node_ids (snd (thin_step k ty i s)) = node_ids (snd s)"
  by (cases s) (simp add: thin_step_def)

lemma fold_thin_other:
  "ty' \<noteq> ty \<or> j \<notin> set is \<Longrightarrow> edges_of ty' j (snd (fold (thin_step k ty) is s)) = edges_of ty' j (snd s)"
  by (induction "is" arbitrary: s) (auto simp: thin_step_other)

lemma fold_thin_own:
  "distinct is \<Longrightarrow> j \<in> set is \<Longrightarrow> k j \<ge> 1 \<Longrightarrow> oldest_dropped (k j) (edges_of ty j (snd s)) (edges_of ty j (snd (fold (thin_step k ty) is s)))"
  "distinct is \<Longrightarrow> j \<in> set is \<Longrightarrow> k j < 1 \<Longrightarrow> edges_of ty j (snd (fold (thin_step k ty) is s)) = edges_of ty j (snd s)"
proof (induction "is" arbitrary: s)
  case (Cons i "is")
  { case 1 then show ?case using Cons.IH(1) [of "thin_step k ty i s"] by (cases "i = j") (simp_all add: fold_thin_other thin_step_other thin_step_own) }
  { case 2 then show ?case using Cons.IH(2) by (cases "i = j") (simp_all add: fold_thin_other thin_step_other thin_step_own) }
qed simp_all

lemma fold_thin_ids: "node_ids (snd (fold (thin_step k ty) is s)) = node_ids (snd s)"
  by (induction "is" arbitrary: s) (simp_all add: thin_step_ids)

lemma prune_chatty_fold:
  "prune_chatty excess threshold ty s = fold (thin_step (\<lambda>i. excess (length (edges_of ty i (snd s)))) ty)
     (filter (\<lambda>i. length (edges_of ty i (snd s)) > threshold) (node_ids (snd s) L_Process)) s"
  by (cases s) (simp add: prune_chatty_def Let_def thin_step_def [abs_def] edges_of_def)

lemma prune_chatty_spec:
  assumes "distinct (node_ids (snd s) L_Process)" "j \<in> set (node_ids (snd s) L_Process)"
  shows "thinned excess threshold (edges_of ty j (snd s)) (edges_of ty j (snd (prune_chatty excess threshold ty s)))"
    "ty' \<noteq> ty \<Longrightarrow> edges_of ty' j (snd (prune_chatty excess threshold ty s)) = edges_of ty' j (snd s)"
    "node_ids (snd (prune_chatty excess threshold ty s)) = node_ids (snd s)"
proof -
  let ?ts = "filter (\<lambda>i. length (edges_of ty i (snd s)) > threshold) (node_ids (snd s) L_Process)"
  have d: "distinct ?ts" using assms(1) by simp
  show "thinned excess threshold (edges_of ty j (snd s)) (edges_of ty j (snd (prune_chatty excess threshold ty s)))"
  proof (cases "j \<in> set ?ts")
    case True
    show ?thesis
    proof (cases "excess (length (edges_of ty j (snd s))) \<ge> 1")
      case many: True
      from fold_thin_own(1) [OF d True, of "\<lambda>i. excess (length (edges_of ty i (snd s)))" ty s] True many
      show ?thesis unfolding thinned_def prune_chatty_fold by simp
    next
      case few: False
      from fold_thin_own(2) [OF d True, of "\<lambda>i. excess (length (edges_of ty i (snd s)))" ty s] few
      show ?thesis unfolding thinned_def prune_chatty_fold by simp
    qed
  next
    case False
    with assms(2) have "\<not> length (edges_of ty j (snd s)) > threshold" by simp
    with False show ?thesis unfolding thinned_def prune_chatty_fold by (simp add: fold_thin_other)
  qed
qed (simp_all add: prune_chatty_fold fold_thin_other fold_thin_ids)

lemma prune_types_chatty:
  "distinct tys \<Longrightarrow> distinct (node_ids (snd s) L_Process) \<Longrightarrow> j \<in> set (node_ids (snd s) L_Process) \<Longrightarrow>
     (if ty \<in> set tys then thinned excess threshold (edges_of ty j (snd s)) (edges_of ty j (snd (fold (prune_chatty excess threshold) tys s)))
      else edges_of ty j (snd (fold (prune_chatty excess threshold) tys s)) = edges_of ty j (snd s))"
proof (induction tys arbitrary: s)
  case (Cons t tys)
  note c = prune_chatty_spec [OF Cons.prems(2,3), where excess = excess and threshold = threshold]
  have ih: "if ty \<in> set tys then thinned excess threshold (edges_of ty j (snd (prune_chatty excess threshold t s)))
        (edges_of ty j (snd (fold (prune_chatty excess threshold) (t # tys) s)))
      else edges_of ty j (snd (fold (prune_chatty excess threshold) (t # tys) s)) = edges_of ty j (snd (prune_chatty excess threshold t s))"
    using Cons.IH [of "prune_chatty excess threshold t s"] Cons.prems c(3) by simp
  show ?case
  proof (cases "ty = t")
    case True
    with Cons.prems(1) ih c(1) show ?thesis by simp
  next
    case False
    with ih c(2) [OF False] show ?thesis by (auto split: if_splits)
  qed
qed simp

text \<open>Pruning chatty processes touches the five frequent kinds of edge only, and of them only what a
  process has beyond the threshold: exactly the excess goes, the oldest first, and the rest stays.\<close>

theorem chatty_processes_thinned:
  assumes "graph_ok g" "i \<in> set (node_ids g L_Process)"
  shows "let g' = snd (prune_high_degree_nodes excess threshold g)
    in graph_ok g' \<and> (if ty \<in> set HIGH_VOLUME_EDGE_TYPES then thinned excess threshold (edges_of ty i g) (edges_of ty i g')
       else edges_of ty i g' = edges_of ty i g)"
proof -
  have "distinct HIGH_VOLUME_EDGE_TYPES" "distinct (node_ids g L_Process)"
    using assms(1) db_ok_distinct [of g] by (simp_all add: HIGH_VOLUME_EDGE_TYPES_def graph_ok_iff)
  then have "if ty \<in> set HIGH_VOLUME_EDGE_TYPES then thinned excess threshold (edges_of ty i g)
        (edges_of ty i (snd (prune_high_degree_nodes excess threshold g)))
      else edges_of ty i (snd (prune_high_degree_nodes excess threshold g)) = edges_of ty i g"
    using prune_types_chatty [of HIGH_VOLUME_EDGE_TYPES "(0, g)" i ty excess threshold, unfolded snd_conv] assms(2)
    unfolding prune_high_degree_nodes_def by blast
  then show ?thesis unfolding Let_def by (rule conjI [OF prune_high_degree_ok [OF assms(1)]])
qed

theorem chatty_processes_thinned_witness:
  "thinned (\<lambda>d. 1) 0 (edges_of ''CONNECTED_TO'' ''h:7:100'' sample_graph)
     (edges_of ''CONNECTED_TO'' ''h:7:100'' (snd (prune_high_degree_nodes (\<lambda>d. 1) 0 sample_graph)))
   \<and> length (edges_of ''CONNECTED_TO'' ''h:7:100'' sample_graph) = 1"
proof -
  have "''h:7:100'' \<in> set (node_ids sample_graph L_Process)" "''CONNECTED_TO'' \<in> set HIGH_VOLUME_EDGE_TYPES"
    "length (edges_of ''CONNECTED_TO'' ''h:7:100'' sample_graph) = 1" by code_simp+
  with chatty_processes_thinned [OF sample_graph_ok this(1), of "\<lambda>d. 1" 0 "''CONNECTED_TO''"] show ?thesis by (simp add: Let_def)
qed

section \<open>Purges and the filter\<close>

lemma hits_one: "a_chain a = None \<Longrightarrow> chain_filter r = [] \<Longrightarrow> hits rx [r] a \<longleftrightarrow> match_type rx r a = Inr True"
  by (simp add: hits_iff)

lemma filter_matching: "d_wf t \<Longrightarrow> filter (\<lambda>(i, _). i \<notin> set (matching_ids P t)) t = filter (\<lambda>(_, r). \<not> P r) t"
proof (rule filter_cong [OF refl])
  fix x
  assume wf: "d_wf t" and x: "x \<in> set t"
  obtain i r where ir: "x = (i, r)" by fastforce
  have "i \<in> set (matching_ids P t) \<longleftrightarrow> P r"
    using wf x unfolding ir matching_ids_def by (auto simp: d_wf_def image_iff dest: eq_key_imp_eq_value)
  then show "(case x of (i, _) \<Rightarrow> i \<notin> set (matching_ids P t)) = (case x of (_, r) \<Rightarrow> \<not> P r)" by (simp add: ir)
qed

lemma purge_type_hits:
  assumes "chain_filter r = []"
  shows "rule_type r = ''process_name'' \<Longrightarrow> hits rx [r] (proc_attrs n) \<longleftrightarrow> n \<noteq> [] \<and> fnmatch (py_lower n) (py_lower (pattern r))"
    "rule_type r = ''dst_ip'' \<Longrightarrow> hits rx [r] (ip_attrs i) \<longleftrightarrow> i \<noteq> [] \<and> i = pattern r"
    "rule_type r = ''dst_cidr'' \<Longrightarrow> hits rx [r] (ip_attrs i) \<longleftrightarrow> i \<noteq> [] \<and> cidr_match i (pattern r)"
    "rule_type r = ''domain'' \<Longrightarrow> hits rx [r] (domain_attrs d) \<longleftrightarrow> d \<noteq> [] \<and> py_lower d = py_lower (pattern r)"
    "rule_type r = ''file_path'' \<Longrightarrow> hits rx [r] (file_attrs f) \<longleftrightarrow> f \<noteq> [] \<and> fnmatch f (pattern r)"
proof -
  note h = hits_one [OF _ assms]
  show "rule_type r = ''process_name'' \<Longrightarrow> hits rx [r] (proc_attrs n) \<longleftrightarrow> n \<noteq> [] \<and> fnmatch (py_lower n) (py_lower (pattern r))"
    by (subst h) (auto simp: match_type_def Let_def proc_attrs_def no_attrs_def)
  show "rule_type r = ''dst_ip'' \<Longrightarrow> hits rx [r] (ip_attrs i) \<longleftrightarrow> i \<noteq> [] \<and> i = pattern r"
    by (subst h) (auto simp: match_type_def Let_def ip_attrs_def no_attrs_def)
  show "rule_type r = ''dst_cidr'' \<Longrightarrow> hits rx [r] (ip_attrs i) \<longleftrightarrow> i \<noteq> [] \<and> cidr_match i (pattern r)"
    by (subst h) (auto simp: match_type_def Let_def ip_attrs_def no_attrs_def)
  show "rule_type r = ''domain'' \<Longrightarrow> hits rx [r] (domain_attrs d) \<longleftrightarrow> d \<noteq> [] \<and> py_lower d = py_lower (pattern r)"
    by (subst h) (auto simp: match_type_def Let_def domain_attrs_def no_attrs_def)
  show "rule_type r = ''file_path'' \<Longrightarrow> hits rx [r] (file_attrs f) \<longleftrightarrow> f \<noteq> [] \<and> fnmatch f (pattern r)"
    by (subst h) (auto simp: match_type_def Let_def file_attrs_def no_attrs_def)
qed

lemma purge_process_table: "gd_processes (snd (purge_process_name pat g)) = filter (\<lambda>(i, _).
    i \<notin> set (matching_ids (\<lambda>p. pn_name p \<noteq> [] \<and> fnmatch (py_lower (pn_name p)) (py_lower pat)) (gd_processes g))) (gd_processes g)"
proof -
  have "gd_processes (snd (purge_process_name pat g)) = gd_processes (fold (detach_delete L_Process)
      (matching_ids (\<lambda>p. pn_name p \<noteq> [] \<and> fnmatch (py_lower (pn_name p)) (py_lower pat)) (gd_processes g)) g)"
    by (simp add: purge_process_name_def Let_def delete_all_def)
  then show ?thesis by (simp add: fold_detach_tables)
qed

text \<open>The purge of a new rule and the filter that later batches pass agree: in the table of the rule's label
  the purge leaves exactly the nodes the filter would let through under that rule, and the graph
  stays well formed.\<close>

theorem purge_agrees_with_filter:
  assumes "graph_ok g" "chain_filter r = []" "pattern r \<noteq> []" "list_all (\<lambda>(_, d). py_lower (dn_name d) = dn_name d) (gd_domains g)"
  shows "let g' = snd (purge_by_rule (rule_type r) (pattern r) g)
    in graph_ok g'
     \<and> (rule_type r = ''process_name'' \<longrightarrow> gd_processes g' = filter (\<lambda>(_, p). \<not> hits rx [r] (proc_attrs (pn_name p))) (gd_processes g))
     \<and> (rule_type r \<in> {''dst_ip'', ''dst_cidr''} \<longrightarrow> gd_ips g' = filter (\<lambda>(_, i). \<not> hits rx [r] (ip_attrs (ipn_address i))) (gd_ips g))
     \<and> (rule_type r = ''domain'' \<longrightarrow> gd_domains g' = filter (\<lambda>(_, d). \<not> hits rx [r] (domain_attrs (dn_name d))) (gd_domains g))
     \<and> (rule_type r = ''file_path'' \<longrightarrow> gd_files g' = filter (\<lambda>(_, f). \<not> hits rx [r] (file_attrs (fn_path f))) (gd_files g))"
  unfolding Let_def
proof (intro conjI impI)
  note h = purge_type_hits [OF assms(2)]
  have wf: "d_wf (gd_processes g)" "d_wf (gd_ips g)" "d_wf (gd_domains g)" "d_wf (gd_files g)"
    using assms(1) by (simp_all add: graph_ok_def keyed_def)
  show "graph_ok (snd (purge_by_rule (rule_type r) (pattern r) g))" by (rule purge_by_rule_ok [OF assms(1)])
  show "gd_processes (snd (purge_by_rule (rule_type r) (pattern r) g)) = filter (\<lambda>(_, p). \<not> hits rx [r] (proc_attrs (pn_name p))) (gd_processes g)"
    if "rule_type r = ''process_name''"
    using that filter_matching [OF wf(1)] by (simp add: purge_by_rule_def purge_process_table h(1))
  show "gd_domains (snd (purge_by_rule (rule_type r) (pattern r) g)) = filter (\<lambda>(_, d). \<not> hits rx [r] (domain_attrs (dn_name d))) (gd_domains g)"
    if "rule_type r = ''domain''"
  proof -
    have "filter (\<lambda>(_, d). \<not> dn_name d = py_lower (pattern r)) (gd_domains g)
        = filter (\<lambda>(_, d). \<not> hits rx [r] (domain_attrs (dn_name d))) (gd_domains g)"
    proof (rule filter_cong [OF refl])
      fix x
      assume "x \<in> set (gd_domains g)"
      then obtain i d where x: "x = (i, d)" "py_lower (dn_name d) = dn_name d" using assms(4) by (auto simp: list_all_iff)
      define l where "l = py_lower (pattern r)"
      have "l \<noteq> []" using assms(3) by (simp add: l_def)
      then have "(dn_name d \<noteq> l) = (\<not> (dn_name d \<noteq> [] \<and> dn_name d = l))" by auto
      then show "(case x of (_, d) \<Rightarrow> \<not> dn_name d = py_lower (pattern r)) = (case x of (_, d) \<Rightarrow> \<not> hits rx [r] (domain_attrs (dn_name d)))"
        unfolding x(1) prod.case h(4) [OF that] x(2) l_def .
    qed
    with that filter_matching [OF wf(3)] show ?thesis
      by (simp add: purge_by_rule_def purge_domain_def delete_all_def fold_detach_tables)
  qed
  show "gd_files (snd (purge_by_rule (rule_type r) (pattern r) g)) = filter (\<lambda>(_, f). \<not> hits rx [r] (file_attrs (fn_path f))) (gd_files g)"
    if "rule_type r = ''file_path''"
    using that filter_matching [OF wf(4)]
    by (simp add: purge_by_rule_def purge_file_path_def delete_all_def fold_detach_tables h(5))
  show "gd_ips (snd (purge_by_rule (rule_type r) (pattern r) g)) = filter (\<lambda>(_, i). \<not> hits rx [r] (ip_attrs (ipn_address i))) (gd_ips g)"
    if "rule_type r \<in> {''dst_ip'', ''dst_cidr''}"
  proof -
    note t = that
    consider "rule_type r = ''dst_ip''" | "rule_type r = ''dst_cidr''" using t by auto
    then show ?thesis
    proof cases
      case 1
      have "filter (\<lambda>(_, i). \<not> ipn_address i = pattern r) (gd_ips g)
          = filter (\<lambda>(_, i). \<not> hits rx [r] (ip_attrs (ipn_address i))) (gd_ips g)"
        using assms(3) by (intro filter_cong) (auto simp: h(2) [OF 1])
      with 1 filter_matching [OF wf(2)] show ?thesis
        by (simp add: purge_by_rule_def purge_dst_ip_def delete_all_def fold_detach_tables)
    next
      case 2
      show ?thesis
      proof (cases "ip_network (pattern r)")
        case None
        then show ?thesis using 2 by (simp add: purge_by_rule_def purge_dst_cidr_def h(3) cidr_match_def filter_id_conv split: option.split)
      next
        case (Some n)
        have "filter (\<lambda>(_, i). \<not> (ipn_address i \<noteq> [] \<and> (case ip_address (ipn_address i) of None \<Rightarrow> False | Some a \<Rightarrow> in_net a n))) (gd_ips g)
            = filter (\<lambda>(_, i). \<not> hits rx [r] (ip_attrs (ipn_address i))) (gd_ips g)"
          by (intro filter_cong) (auto simp: h(3) [OF 2] cidr_match_def Some split: option.split)
        with 2 Some filter_matching [OF wf(2)] show ?thesis
          by (simp add: purge_by_rule_def purge_dst_cidr_def delete_all_def fold_detach_tables)
      qed
    qed
  qed
qed

theorem purge_agrees_with_filter_witness:
  "node_ids sample_graph L_IP = [''1.2.3.4''] \<and> gd_ips (snd (purge_by_rule ''dst_ip'' ''1.2.3.4'' sample_graph))
     = filter (\<lambda>(_, i). \<not> hits (\<lambda>p s. None) [sample_rule ''dst_ip'' ''1.2.3.4''] (ip_attrs (ipn_address i))) (gd_ips sample_graph)"
proof -
  have r: "chain_filter (sample_rule ''dst_ip'' ''1.2.3.4'') = []" "pattern (sample_rule ''dst_ip'' ''1.2.3.4'') = ''1.2.3.4''"
    "rule_type (sample_rule ''dst_ip'' ''1.2.3.4'') = ''dst_ip''" by (simp_all add: sample_rule_def)
  have "list_all (\<lambda>(_, d). py_lower (dn_name d) = dn_name d) (gd_domains sample_graph)"
    "node_ids sample_graph L_IP = [''1.2.3.4'']" by code_simp+
  with purge_agrees_with_filter [OF sample_graph_ok r(1) _ this(1), of "\<lambda>p s. None"] show ?thesis by (simp add: Let_def r)
qed

section \<open>The purge after learning\<close>

definition cleaned_domains :: "bool \<Rightarrow> graph \<Rightarrow> graph" where
  "cleaned_domains strict g = snd (cleanup_orphaned_targets strict L_Domain [''RESOLVED'', ''RESOLVES_TO''] (0, g))"

lemma domain_check:
  "target_has_edges strict L_Domain [''RESOLVED'', ''RESOLVES_TO''] g d \<longleftrightarrow> any_edge In ''RESOLVED'' d g \<or> strict"
  by (simp add: REL_TABLES_def d_get_def)

lemma strict_keeps_domains: "cleaned_domains True g = g"
proof -
  have "snd (fold (\<lambda>i (n, g). if target_has_edges True L_Domain [''RESOLVED'', ''RESOLVES_TO''] g i then (n, g)
      else (n + 1, detach_delete L_Domain i g)) is (n, g)) = g" for "is" and n :: nat
    by (induction "is" arbitrary: n) (simp_all add: domain_check del: target_has_edges.simps)
  then show ?thesis by (simp add: cleaned_domains_def cleanup_orphaned_targets_def del: target_has_edges.simps)
qed

definition sweep_domain :: "string \<Rightarrow> nat \<times> graph \<Rightarrow> nat \<times> graph" where
  "sweep_domain i = (\<lambda>(n, g). if any_edge In ''RESOLVED'' i g then (n, g) else (n + 1, detach_delete L_Domain i g))"

lemma cleaned_fold: "cleaned_domains False g = snd (fold sweep_domain (node_ids g L_Domain) (0, g))"
  unfolding cleaned_domains_def cleanup_orphaned_targets_def sweep_domain_def by (simp add: domain_check del: target_has_edges.simps)

lemma sweep_less:
  "set (gd_rels (snd (sweep_domain i s))) \<subseteq> set (gd_rels (snd s))"
  "set (node_ids (snd (sweep_domain i s)) L_Domain) \<subseteq> set (node_ids (snd s) L_Domain)"
  "node_ids (snd (sweep_domain i s)) L_IP = node_ids (snd s) L_IP"
  by (cases s; auto simp: sweep_domain_def node_ids_del)+

lemma fold_sweep_less:
  "set (gd_rels (snd (fold sweep_domain is s))) \<subseteq> set (gd_rels (snd s))"
  "set (node_ids (snd (fold sweep_domain is s)) L_Domain) \<subseteq> set (node_ids (snd s) L_Domain)"
  "node_ids (snd (fold sweep_domain is s)) L_IP = node_ids (snd s) L_IP"
proof (induction "is" arbitrary: s)
  case (Cons i "is")
  { case 1 show ?case using Cons.IH(1) [of "sweep_domain i s"] sweep_less(1) [of i s] by simp }
  { case 2 show ?case using Cons.IH(2) [of "sweep_domain i s"] sweep_less(2) [of i s] by simp }
  { case 3 show ?case using Cons.IH(3) [of "sweep_domain i s"] sweep_less(3) [of i s] by simp }
qed simp_all

lemma any_edge_less: "set (gd_rels g') \<subseteq> set (gd_rels g) \<Longrightarrow> any_edge d ty i g' \<Longrightarrow> any_edge d ty i g"
  by (auto simp: any_edge_def list_ex_iff)

lemma swept:
  "i \<in> set is \<Longrightarrow> \<not> any_edge In ''RESOLVED'' i (snd s) \<Longrightarrow> i \<notin> set (node_ids (snd (fold sweep_domain is s)) L_Domain)
     \<and> (\<forall>r \<in> set (gd_rels (snd (fold sweep_domain is s))). \<not> touches L_Domain i r)"
proof (induction "is" arbitrary: s)
  case (Cons j "is")
  show ?case
  proof (cases "j = i")
    case True
    then have s: "snd (sweep_domain j s) = detach_delete L_Domain i (snd s)"
      using Cons.prems(2) by (cases s) (simp add: sweep_domain_def)
    have "i \<notin> set (node_ids (snd (sweep_domain j s)) L_Domain)" "\<forall>r \<in> set (gd_rels (snd (sweep_domain j s))). \<not> touches L_Domain i r"
      unfolding s by (simp_all add: node_ids_del)
    with fold_sweep_less(1,2) [of "is" "sweep_domain j s"] show ?thesis by auto
  next
    case False
    have "\<not> any_edge In ''RESOLVED'' i (snd (sweep_domain j s))"
      using any_edge_less [OF sweep_less(1)] Cons.prems(2) by blast
    with Cons False show ?thesis by simp
  qed
qed simp

text \<open>After the purge of the baseline the clean-up of domains asks for incoming RESOLVES_TO edges, which
  only leave domains.  If the database rejects such a query no domain is ever cleaned up; if
  it answers zero, every domain without incoming edges goes although it still has its outgoing ones,
  they go with it, and an address known through it alone, already examined, is left without edges.\<close>

theorem domain_cleanup_direction:
  assumes "d \<in> set (node_ids g L_Domain)" "\<not> any_edge In ''RESOLVED'' d g"
    "a \<in> set (node_ids g L_IP)" "\<forall>r \<in> set (gd_rels g). touches L_IP a r \<longrightarrow> touches L_Domain d r"
  shows "cleaned_domains True g = g \<and> d \<notin> set (node_ids (cleaned_domains False g) L_Domain)
    \<and> (\<forall>r \<in> set (gd_rels (cleaned_domains False g)). \<not> touches L_Domain d r)
    \<and> a \<in> set (node_ids (cleaned_domains False g) L_IP)
    \<and> (\<forall>r \<in> set (gd_rels (cleaned_domains False g)). \<not> touches L_IP a r)"
proof -
  note sw = swept [OF assms(1), of "(0, g)", unfolded snd_conv, OF assms(2), folded cleaned_fold]
  note less = fold_sweep_less [of "node_ids g L_Domain" "(0, g)", unfolded snd_conv, folded cleaned_fold]
  have "\<not> touches L_IP a r" if "r \<in> set (gd_rels (cleaned_domains False g))" for r
    using sw assms(4) less(1) that by blast
  with sw less(3) assms(3) strict_keeps_domains [of g] show ?thesis by simp
qed

definition domain_graph :: graph where
  "domain_graph = create_rel (plain_rel ''RESOLVES_TO'' ''a.b'' ''1.2.3.4'' 5 1)
     (upsert_domain 0 \<lparr>dn_id = ''a.b'', dn_name = ''a.b'', dn_first_seen = 1, dn_last_seen = 1, dn_is_dga_candidate = False, dn_tld = ''b''\<rparr>
       (upsert_ip 0 (seen_ip 1) empty_graph))"

theorem domain_cleanup_direction_witness:
  "gd_rels domain_graph \<noteq> [] \<and> cleaned_domains True domain_graph = domain_graph
     \<and> ''1.2.3.4'' \<in> set (node_ids (cleaned_domains False domain_graph) L_IP)
     \<and> (\<forall>r \<in> set (gd_rels (cleaned_domains False domain_graph)). \<not> touches L_IP ''1.2.3.4'' r)"
proof -
  have "''a.b'' \<in> set (node_ids domain_graph L_Domain)" "\<not> any_edge In ''RESOLVED'' ''a.b'' domain_graph"
    "''1.2.3.4'' \<in> set (node_ids domain_graph L_IP)"
    "\<forall>r \<in> set (gd_rels domain_graph). touches L_IP ''1.2.3.4'' r \<longrightarrow> touches L_Domain ''a.b'' r" by code_simp+
  from domain_cleanup_direction [OF this] have "cleaned_domains True domain_graph = domain_graph
     \<and> ''1.2.3.4'' \<in> set (node_ids (cleaned_domains False domain_graph) L_IP)
     \<and> (\<forall>r \<in> set (gd_rels (cleaned_domains False domain_graph)). \<not> touches L_IP ''1.2.3.4'' r)" by blast
  moreover have "gd_rels domain_graph \<noteq> []" by code_simp
  ultimately show ?thesis by blast
qed

section \<open>The writer\<close>

text \<open>Whatever jobs arrive, in any order and from any thread, the graph stays well formed: unique keys,
  no dangling edge, and a process index that holds exactly the processes of the graph.\<close>

theorem writer_keeps_graph_ok:
  assumes "graph_ok g"
  shows "graph_ok (fst (run_writer excess strict js g))"
  unfolding run_writer_fold by (rule writer_jobs.run_all [OF assms])

theorem writer_keeps_graph_ok_witness:
  "graph_ok (fst (run_writer (\<lambda>d. 1) True [(0, Entity_Batch ip_batches), (9000000, Prune_Full 1000000), (9000000, Shutdown)] empty_graph))"
  by (rule writer_keeps_graph_ok [OF empty_graph_ok])



text \<open>Under a warning of memory pressure the reaper submits a full prune, which scans every node for edges;
  the documentation of the thread promises an edge-only prune.\<close>

theorem warning_prunes_fully:
  assumes "\<not> rs_first_run s" "3 / 4 < memory_ratio rss limit" "memory_ratio rss limit \<le> 9 / 10"
  shows "fst (reaper_wake ttl limit rss mb clock s) = [Prune_Full (min ttl TWO_HOURS), Checkpoint]"
  using assms by (simp add: reaper_wake_def Let_def)

theorem warning_prunes_fully_witness:
  "fst (reaper_wake (24 * 3600000000) 1000 800 10 60 \<lparr>rs_first_run = False, rs_last_full_prune = 0\<rparr>) = [Prune_Full TWO_HOURS, Checkpoint]"
proof -
  have "min (24 * 3600000000) TWO_HOURS = TWO_HOURS" by (simp add: TWO_HOURS_def)
  with warning_prunes_fully [of "\<lparr>rs_first_run = False, rs_last_full_prune = 0\<rparr>" 800 1000 "24 * 3600000000" 10 60]
  show ?thesis by (simp add: memory_ratio_def)
qed

end
