(* ===== verification/GraphBackfill.thy ===== *)
theory GraphBackfill
  imports GraphReaper EntityExtractor
begin

text \<open>
  The pass over the process table when the agent starts (\<open>backfill_parent_pids\<close> in
  \<open>agent/processor/graph_builder.py\<close>): parents and command lines are filled in from the live
  processes, and missing ancestors get stub nodes.  Creation times are always readable.
\<close>

section \<open>The pass\<close>

record backfill =
  bf_graph :: graph
  bf_existing :: "int set"
  bf_updated :: nat

text \<open>The columns a stub is created with; the others stay null.\<close>

definition stub_node :: "string \<Rightarrow> int \<Rightarrow> os_proc \<Rightarrow> process_node" where
  "stub_node host pid p = \<lparr>pn_id = node_id host pid (op_create_time p), pn_name = op_name p, pn_pid = pid,
     pn_cmd_line = Some (case op_cmdline p of None \<Rightarrow> [] | Some ps \<Rightarrow> join_with '' '' ps),
     pn_exe_path = Some (none_or [] (op_exe p)), pn_hostname = host,
     pn_start_time = Some (ts_lit 0 (Some (op_create_time p))), pn_parent_pid = Some (op_ppid p),
     pn_bundle_id = None, pn_code_signed = None, pn_signing_authority = None\<rparr>"

definition add_stub :: "string \<Rightarrow> int \<Rightarrow> os_proc \<Rightarrow> backfill \<Rightarrow> backfill" where
  "add_stub host pid p b = b\<lparr>
     bf_graph := (bf_graph b)\<lparr>gd_processes := merge_node (pn_id (stub_node host pid p)) (stub_node host pid p) (\<lambda>r. r) (gd_processes (bf_graph b))\<rparr>,
     bf_existing := insert pid (bf_existing b), bf_updated := bf_updated b + 1\<rparr>"

text \<open>\<open>_ensure_ancestor_chain\<close>; the first argument is the number of levels still allowed, 11 at the start.\<close>

fun ensure_ancestors :: "nat \<Rightarrow> os \<Rightarrow> string \<Rightarrow> int \<Rightarrow> backfill \<Rightarrow> backfill" where
  "ensure_ancestors 0 s host pid b = b"
| "ensure_ancestors (Suc n) s host pid b =
     (if pid \<le> 1 then b
      else case d_get (os_procs s) pid of None \<Rightarrow> b
      | Some p \<Rightarrow>
          if op_ppid p \<le> 0 then b
          else if op_ppid p \<in> bf_existing b then ensure_ancestors n s host (op_ppid p) b
          else (case d_get (os_procs s) (op_ppid p) of None \<Rightarrow> b
            | Some parent \<Rightarrow> ensure_ancestors n s host (op_ppid p) (add_stub host (op_ppid p) parent b)))"

definition fill_row :: "os_proc \<Rightarrow> process_node \<Rightarrow> process_node" where
  "fill_row p r =
     (let r = r\<lparr>pn_parent_pid := Some (op_ppid p)\<rparr>
      in case op_cmdline p of None \<Rightarrow> r | Some [] \<Rightarrow> r
         | Some ps \<Rightarrow> if pn_cmd_line r = Some [] then r\<lparr>pn_cmd_line := Some (join_with '' '' ps)\<rparr> else r)"

definition set_row :: "string \<Rightarrow> (process_node \<Rightarrow> process_node) \<Rightarrow> graph \<Rightarrow> graph" where
  "set_row i f g = (case d_get (gd_processes g) i of None \<Rightarrow> g | Some r \<Rightarrow> g\<lparr>gd_processes := d_set i (f r) (gd_processes g)\<rparr>)"

definition backfill_row :: "os \<Rightarrow> string \<Rightarrow> string \<times> int \<Rightarrow> backfill \<Rightarrow> backfill" where
  "backfill_row s host ip b = (case d_get (os_procs s) (snd ip) of None \<Rightarrow> b
   | Some p \<Rightarrow> if op_ppid p > 0
       then ensure_ancestors 11 s host (snd ip)
         (b\<lparr>bf_graph := set_row (fst ip) (fill_row p) (bf_graph b), bf_updated := bf_updated b + 1\<rparr>)
       else b)"

definition MAX_BACKFILL :: nat where
  "MAX_BACKFILL = 10000"

definition backfill_parent_pids :: "os \<Rightarrow> string \<Rightarrow> graph \<Rightarrow> nat \<times> graph" where
  "backfill_parent_pids s host g =
     (let rows = map (\<lambda>(i, r). (i, pn_pid r)) (take MAX_BACKFILL
            (filter (\<lambda>(_, r). pn_parent_pid r = Some 0 \<and> pn_pid r > 0) (gd_processes g)));
          b = fold (backfill_row s host) rows \<lparr>bf_graph = g, bf_existing = pn_pid ` snd ` set (gd_processes g), bf_updated = 0\<rparr>;
          orphans = map (\<lambda>(_, r). pn_pid r) (filter (\<lambda>(_, r). case pn_parent_pid r of None \<Rightarrow> False
              | Some pp \<Rightarrow> pp > 0 \<and> pn_pid r > 0 \<and> pp \<notin> bf_existing b) (gd_processes (bf_graph b)));
          b = fold (ensure_ancestors 11 s host) orphans b
      in (bf_updated b, bf_graph b))"

section \<open>Facts\<close>

definition in_graph :: "string \<Rightarrow> int \<Rightarrow> graph \<Rightarrow> bool" where
  "in_graph host pid g \<longleftrightarrow> (\<exists>i r. d_get (gd_processes g) i = Some r \<and> (pn_pid r = pid \<or> (\<exists>t. i = node_id host pid t)))"

definition known_ok :: "string \<Rightarrow> backfill \<Rightarrow> bool" where
  "known_ok host b \<longleftrightarrow> (\<forall>pid \<in> bf_existing b. in_graph host pid (bf_graph b))"

text \<open>Rows only gain: a row that is there stays, unchanged.\<close>

definition extends :: "graph \<Rightarrow> graph \<Rightarrow> bool" where
  "extends g g' \<longleftrightarrow> (\<forall>i r. d_get (gd_processes g) i = Some r \<longrightarrow> d_get (gd_processes g') i = Some r)"

lemma extends_refl [simp]: "extends g g"
  by (simp add: extends_def)

lemma extends_trans: "extends g h \<Longrightarrow> extends h k \<Longrightarrow> extends g k"
  by (simp add: extends_def)

lemma in_graph_extends: "in_graph host pid g \<Longrightarrow> extends g g' \<Longrightarrow> in_graph host pid g'"
  unfolding in_graph_def extends_def by blast

lemma stub_extends: "extends (bf_graph b) (bf_graph (add_stub host pid p b))"
  by (auto simp: extends_def add_stub_def merge_node_get)

lemma stub_in_graph: "in_graph host pid (bf_graph (add_stub host pid p b))"
  by (auto simp: in_graph_def add_stub_def merge_node_get stub_node_def split: option.splits)

lemma stub_known: "known_ok host b \<Longrightarrow> known_ok host (add_stub host pid p b)"
proof -
  assume k: "known_ok host b"
  have "in_graph host q (bf_graph (add_stub host pid p b))" if "q \<in> bf_existing (add_stub host pid p b)" for q
  proof (cases "q = pid")
    case False
    with that have "q \<in> bf_existing b" by (simp add: add_stub_def)
    with k have "in_graph host q (bf_graph b)" by (simp add: known_ok_def)
    then show ?thesis by (rule in_graph_extends) (rule stub_extends)
  qed (simp add: stub_in_graph)
  then show ?thesis by (simp add: known_ok_def)
qed

lemma ancestors_keep:
  "extends (bf_graph b) (bf_graph (ensure_ancestors n s host pid b)) \<and> (known_ok host b \<longrightarrow> known_ok host (ensure_ancestors n s host pid b))"
proof (induction n s host pid b rule: ensure_ancestors.induct)
  case (2 n s host pid b)
  show ?case
  proof (cases "pid \<le> 1 \<or> d_get (os_procs s) pid = None")
    case True
    then show ?thesis by auto
  next
    case False
    then obtain p where p: "\<not> pid \<le> 1" "d_get (os_procs s) pid = Some p" by auto
    show ?thesis
    proof (cases "op_ppid p \<le> 0 \<or> (op_ppid p \<notin> bf_existing b \<and> d_get (os_procs s) (op_ppid p) = None)")
      case True
      with p show ?thesis by auto
    next
      case go: False
      show ?thesis
      proof (cases "op_ppid p \<in> bf_existing b")
        case True
        with p go "2.IH"(1) [OF p] show ?thesis by simp
      next
        case new: False
        with go obtain q where q: "d_get (os_procs s) (op_ppid p) = Some q" by auto
        have "\<not> op_ppid p \<le> 0" using go by blast
        note ih = "2.IH"(2) [OF p this new q]
        have e: "ensure_ancestors (Suc n) s host pid b = ensure_ancestors n s host (op_ppid p) (add_stub host (op_ppid p) q b)"
          using p go new q by simp
        show ?thesis
          unfolding e using ih stub_extends [of b host "op_ppid p" q] stub_known extends_trans by blast
      qed
    qed
  qed
qed simp

lemma ancestors_reach_parent:
  assumes "known_ok host b" "1 < pid" "d_get (os_procs s) pid = Some p" "0 < op_ppid p" "d_get (os_procs s) (op_ppid p) = Some q"
  shows "in_graph host (op_ppid p) (bf_graph (ensure_ancestors (Suc n) s host pid b))"
proof (cases "op_ppid p \<in> bf_existing b")
  case True
  with assms(1) have "in_graph host (op_ppid p) (bf_graph b)" by (simp add: known_ok_def)
  then show ?thesis using ancestors_keep [of b "Suc n" s host pid] in_graph_extends by blast
next
  case False
  with assms(2-5) have e: "ensure_ancestors (Suc n) s host pid b = ensure_ancestors n s host (op_ppid p) (add_stub host (op_ppid p) q b)"
    by simp
  show ?thesis unfolding e
    using stub_in_graph [of host "op_ppid p" q b] ancestors_keep [of "add_stub host (op_ppid p) q b" n s host "op_ppid p"] in_graph_extends by blast
qed

text \<open>One row; the other rows keep their parents.\<close>

lemma set_row_get: "d_get (gd_processes (set_row i f g)) j = (if j = i then map_option f (d_get (gd_processes g) i) else d_get (gd_processes g) j)"
  by (auto simp: set_row_def d_get_set split: option.split)

lemma fill_row_pid: "pn_pid (fill_row p r) = pn_pid r" "pn_parent_pid (fill_row p r) = Some (op_ppid p)"
  by (auto simp: fill_row_def Let_def split: option.split list.split)

lemma set_row_in_graph: "in_graph host pid g \<Longrightarrow> in_graph host pid (set_row i (fill_row p) g)"
proof -
  assume "in_graph host pid g"
  then obtain j r where j: "d_get (gd_processes g) j = Some r" "pn_pid r = pid \<or> (\<exists>t. j = node_id host pid t)"
    by (auto simp: in_graph_def)
  have "\<exists>r'. d_get (gd_processes (set_row i (fill_row p) g)) j = Some r' \<and> pn_pid r' = pn_pid r"
    using j(1) by (auto simp: set_row_get fill_row_pid)
  with j(2) show ?thesis unfolding in_graph_def by metis
qed

lemma backfill_row_known: "known_ok host b \<Longrightarrow> known_ok host (backfill_row s host ip b)"
  unfolding backfill_row_def using ancestors_keep set_row_in_graph
  by (auto simp: known_ok_def split: option.split)

lemma backfill_row_other:
  "j \<noteq> fst ip \<Longrightarrow> d_get (gd_processes (bf_graph b)) j = Some r \<Longrightarrow> d_get (gd_processes (bf_graph (backfill_row s host ip b))) j = Some r"
proof -
  assume j: "j \<noteq> fst ip" "d_get (gd_processes (bf_graph b)) j = Some r"
  then have "d_get (gd_processes (set_row (fst ip) (fill_row p) (bf_graph b))) j = Some r" for p
    by (simp add: set_row_get)
  with j ancestors_keep show ?thesis
    unfolding backfill_row_def extends_def by (auto split: option.split)
qed

lemma backfill_row_in_graph: "in_graph host pid (bf_graph b) \<Longrightarrow> in_graph host pid (bf_graph (backfill_row s host ip b))"
proof -
  assume g: "in_graph host pid (bf_graph b)"
  show ?thesis
  proof (cases "d_get (os_procs s) (snd ip)")
    case (Some p)
    let ?b = "b\<lparr>bf_graph := set_row (fst ip) (fill_row p) (bf_graph b), bf_updated := bf_updated b + 1\<rparr>"
    have "in_graph host pid (bf_graph ?b)" using set_row_in_graph [OF g] by simp
    then have "in_graph host pid (bf_graph (ensure_ancestors 11 s host (snd ip) ?b))"
      using ancestors_keep in_graph_extends by blast
    with g Some show ?thesis by (simp add: backfill_row_def)
  qed (simp add: backfill_row_def g)
qed

lemma fold_rows_other:
  "j \<notin> fst ` set rows \<Longrightarrow> d_get (gd_processes (bf_graph b)) j = Some r \<Longrightarrow>
     d_get (gd_processes (bf_graph (fold (backfill_row s host) rows b))) j = Some r"
  by (induction rows arbitrary: b) (auto simp: backfill_row_other)

lemma fold_rows_in_graph: "in_graph host pid (bf_graph b) \<Longrightarrow> in_graph host pid (bf_graph (fold (backfill_row s host) rows b))"
  by (induction rows arbitrary: b) (auto simp: backfill_row_in_graph)

lemma fold_rows_known: "known_ok host b \<Longrightarrow> known_ok host (fold (backfill_row s host) rows b)"
  by (induction rows arbitrary: b) (auto simp: backfill_row_known)

lemma fold_ancestors_extends: "extends (bf_graph b) (bf_graph (fold (ensure_ancestors n s host) ps b))"
  using ancestors_keep extends_trans by (induction ps arbitrary: b) (simp, fastforce)

lemma fold_rows_links:
  assumes "distinct (map fst rows)" "(i, pid) \<in> set rows" "known_ok host b" "d_get (gd_processes (bf_graph b)) i = Some r"
    "1 < pid" "d_get (os_procs s) pid = Some p" "0 < op_ppid p" "d_get (os_procs s) (op_ppid p) = Some q"
  shows "\<exists>r'. d_get (gd_processes (bf_graph (fold (backfill_row s host) rows b))) i = Some r' \<and> pn_parent_pid r' = Some (op_ppid p)
    \<and> in_graph host (op_ppid p) (bf_graph (fold (backfill_row s host) rows b))"
proof -
  obtain xs ys where rows: "rows = xs @ (i, pid) # ys" using assms(2) by (metis split_list)
  with assms(1) have i: "i \<notin> fst ` set xs" "i \<notin> fst ` set ys" by auto
  let ?b1 = "fold (backfill_row s host) xs b"
  let ?b2 = "?b1\<lparr>bf_graph := set_row i (fill_row p) (bf_graph ?b1), bf_updated := bf_updated ?b1 + 1\<rparr>"
  let ?b3 = "ensure_ancestors (Suc 10) s host pid ?b2"
  have b1: "d_get (gd_processes (bf_graph ?b1)) i = Some r" "known_ok host ?b1"
    using fold_rows_other [OF i(1) assms(4)] fold_rows_known [OF assms(3)] by simp_all
  have k2: "known_ok host ?b2" using b1(2) set_row_in_graph by (simp add: known_ok_def)
  have r2: "d_get (gd_processes (bf_graph ?b2)) i = Some (fill_row p r)" using b1(1) by (simp add: set_row_get)
  have 3: "backfill_row s host (i, pid) ?b1 = ?b3" using assms(6,7) by (simp add: backfill_row_def eval_nat_numeral)
  have r3: "d_get (gd_processes (bf_graph ?b3)) i = Some (fill_row p r)"
    using ancestors_keep [of ?b2 "Suc 10" s host pid] r2 unfolding extends_def by blast
  have "fold (backfill_row s host) rows b = fold (backfill_row s host) ys ?b3" unfolding rows by (simp add: 3)
  with fold_rows_other [OF i(2) r3] fold_rows_in_graph [OF ancestors_reach_parent [OF k2 assms(5-8), of 10]] fill_row_pid(2)
  show ?thesis by auto
qed

section \<open>Properties\<close>

text \<open>After the pass every process of the table that had no parent, and whose pid and parent are alive, has the
  parent of the live process, and that parent has a node.\<close>

theorem backfill_links_parents:
  assumes "d_wf (gd_processes g)" "length (gd_processes g) \<le> MAX_BACKFILL"
    "d_get (gd_processes g) i = Some r" "pn_parent_pid r = Some 0" "1 < pn_pid r"
    "d_get (os_procs s) (pn_pid r) = Some p" "0 < op_ppid p" "d_get (os_procs s) (op_ppid p) = Some q"
  shows "\<exists>r'. d_get (gd_processes (snd (backfill_parent_pids s host g))) i = Some r' \<and> pn_parent_pid r' = Some (op_ppid p)
    \<and> in_graph host (op_ppid p) (snd (backfill_parent_pids s host g))"
proof -
  let ?sel = "filter (\<lambda>(_, r). pn_parent_pid r = Some 0 \<and> pn_pid r > 0) (gd_processes g)"
  let ?rows = "map (\<lambda>(i, r). (i, pn_pid r)) (take MAX_BACKFILL ?sel)"
  let ?b0 = "\<lparr>bf_graph = g, bf_existing = pn_pid ` snd ` set (gd_processes g), bf_updated = 0\<rparr>"
  have "length ?sel \<le> MAX_BACKFILL" using assms(2) length_filter_le le_trans by blast
  then have take: "take MAX_BACKFILL ?sel = ?sel" by simp
  have "distinct (map fst ?sel)" using assms(1) by (simp add: d_wf_def distinct_map_filter)
  then have d: "distinct (map fst ?rows)" unfolding take by (simp add: comp_def case_prod_beta)
  have m: "(i, pn_pid r) \<in> set ?rows" unfolding take using d_get_in [OF assms(3)] assms(4,5) by force
  have "known_ok host ?b0"
    using d_in_get [OF assms(1)] unfolding known_ok_def in_graph_def by fastforce
  from fold_rows_links [OF d m this _ assms(5-8), of r] assms(3)
  obtain r' where r': "d_get (gd_processes (bf_graph (fold (backfill_row s host) ?rows ?b0))) i = Some r'" "pn_parent_pid r' = Some (op_ppid p)"
    "in_graph host (op_ppid p) (bf_graph (fold (backfill_row s host) ?rows ?b0))" by auto
  obtain ps where res: "snd (backfill_parent_pids s host g) = bf_graph (fold (ensure_ancestors 11 s host) ps (fold (backfill_row s host) ?rows ?b0))"
    unfolding backfill_parent_pids_def Let_def by auto
  have ext: "extends (bf_graph (fold (backfill_row s host) ?rows ?b0)) (snd (backfill_parent_pids s host g))"
    unfolding res by (rule fold_ancestors_extends)
  then have "d_get (gd_processes (snd (backfill_parent_pids s host g))) i = Some r'" using r'(1) by (simp add: extends_def)
  with in_graph_extends [OF r'(3) ext] r'(2) show ?thesis by blast
qed

definition small_os :: os where
  "small_os = \<lparr>os_procs = [
     (7, \<lparr>op_ppid = 3, op_name = ''curl'', op_cmdline = Some [''curl'', ''x''], op_exe = None, op_username = None, op_create_time = 900000000\<rparr>),
     (3, \<lparr>op_ppid = 1, op_name = ''bash'', op_cmdline = None, op_exe = None, op_username = None, op_create_time = 200000000\<rparr>)],
     os_cgroup = (\<lambda>p. None)\<rparr>"

definition old_graph :: graph where
  "old_graph = upsert_process 0 (curl_node\<lparr>pn_parent_pid := None, pn_start_time := Some 100000000\<rparr>) empty_graph"

theorem backfill_links_parents_witness:
  "\<exists>r'. d_get (gd_processes (snd (backfill_parent_pids small_os ''h'' old_graph))) ''h:7:100'' = Some r' \<and> pn_parent_pid r' = Some 3"
proof -
  have "d_wf (gd_processes old_graph)" "length (gd_processes old_graph) \<le> MAX_BACKFILL"
    by (simp_all add: old_graph_def upsert_process_def merge_node_def empty_graph_def MAX_BACKFILL_def d_set_def d_wf_def)
  moreover obtain r where "d_get (gd_processes old_graph) ''h:7:100'' = Some r" "pn_parent_pid r = Some 0" "pn_pid r = 7"
    by (simp add: old_graph_def upsert_process_def merge_node_def empty_graph_def curl_node_def process_row_def d_get_set none_or_def)
  moreover obtain p q where "d_get (os_procs small_os) 7 = Some p" "op_ppid p = 3" "d_get (os_procs small_os) 3 = Some q"
    by (simp add: small_os_def d_get_def)
  ultimately show ?thesis using backfill_links_parents [of old_graph "''h:7:100''" r small_os p q "''h''"] by auto
qed

text \<open>The pass knows processes by their pid alone: a node of a process that ended long ago is given the parent
  and the command line of the live process that has its pid now.\<close>

theorem backfill_ignores_pid_reuse:
  "map_option (\<lambda>r. (pn_start_time r, pn_parent_pid r, pn_cmd_line r))
     (d_get (gd_processes (snd (backfill_parent_pids small_os ''h'' old_graph))) ''h:7:100'') = Some (Some 100000000, Some 3, Some ''curl x'')
   \<and> map_option op_create_time (d_get (os_procs small_os) 7) = Some 900000000"
  by code_simp

end
