(* ===== verification/SigmaRules.thy ===== *)
theory SigmaRules
  imports FastBlocklist PyStr PyDict "HOL-Library.Option_ord"
begin

text \<open>
  The compiler from Sigma rules to blocklist rules (\<open>tools/rule_compiler.py\<close>) and the loader that
  posts them to a running agent (\<open>tools/load_blocklist.py\<close>, with the handlers of
  \<open>agent/dashboard/server.py\<close> it calls).  A YAML document is a value of \<open>yaml\<close> with text keys; the
  YAML parser, the walk over the checkout and \<open>git\<close> are parameters.
\<close>

section \<open>Documents\<close>

datatype yaml =
  YNull | YBool bool | YInt int | YStr string | YList "yaml list" | YMap "(string \<times> yaml) list"

type_synonym doc = "(string, yaml) dict"

definition CONDITION :: string where
  "CONDITION = ''condition''"

text \<open>\<open>str(v)\<close>, and \<open>repr(v)\<close> inside of lists and dictionaries.\<close>

fun yaml_repr :: "yaml \<Rightarrow> string" where
  "yaml_repr YNull = ''None''"
| "yaml_repr (YBool b) = (if b then ''True'' else ''False'')"
| "yaml_repr (YInt i) = int_str i"
| "yaml_repr (YStr s) = py_repr s"
| "yaml_repr (YList ys) = ''['' @ join_with '', '' (map yaml_repr ys) @ '']''"
| "yaml_repr (YMap kvs) = ''{'' @ join_with '', '' (map (\<lambda>(k, v). py_repr k @ '': '' @ yaml_repr v) kvs) @ ''}''"

definition yaml_str :: "yaml \<Rightarrow> string" where
  "yaml_str v = (case v of YStr s \<Rightarrow> s | _ \<Rightarrow> yaml_repr v)"

definition falsy :: "yaml \<Rightarrow> bool" where
  "falsy v = (case v of YNull \<Rightarrow> True | YBool b \<Rightarrow> \<not> b | YInt i \<Rightarrow> i = 0 | YStr s \<Rightarrow> s = []
     | YList ys \<Rightarrow> ys = [] | YMap d \<Rightarrow> d = [])"

text \<open>\<open>d.get(k, "").lower()\<close> and \<open>d.get(k, {})\<close> followed by a dictionary method.\<close>

definition get_lower :: "doc \<Rightarrow> string \<Rightarrow> string res" where
  "get_lower d k = (case d_get d k of None \<Rightarrow> Inr [] | Some (YStr s) \<Rightarrow> Inr (py_lower s)
     | Some _ \<Rightarrow> Inl (AttributeError ''lower''))"

definition get_doc :: "doc \<Rightarrow> string \<Rightarrow> doc res" where
  "get_doc d k = (case d_get d k of None \<Rightarrow> Inr [] | Some (YMap m) \<Rightarrow> Inr m
     | Some _ \<Rightarrow> Inl (AttributeError ''get''))"

section \<open>Severity\<close>

datatype sigma_level = Informational | Low | Medium | High | Critical

fun LEVEL_ORDER :: "sigma_level \<Rightarrow> nat" where
  "LEVEL_ORDER Informational = 0"
| "LEVEL_ORDER Low = 1"
| "LEVEL_ORDER Medium = 2"
| "LEVEL_ORDER High = 3"
| "LEVEL_ORDER Critical = 4"

lemma LEVEL_ORDER_inj: "LEVEL_ORDER a = LEVEL_ORDER b \<Longrightarrow> a = b"
  by (cases a; cases b) simp_all

instantiation sigma_level :: linorder
begin

definition less_eq_sigma_level :: "sigma_level \<Rightarrow> sigma_level \<Rightarrow> bool" where
  "less_eq_sigma_level a b \<longleftrightarrow> LEVEL_ORDER a \<le> LEVEL_ORDER b"

definition less_sigma_level :: "sigma_level \<Rightarrow> sigma_level \<Rightarrow> bool" where
  "less_sigma_level a b \<longleftrightarrow> LEVEL_ORDER a < LEVEL_ORDER b"

instance
  by standard (auto simp: less_eq_sigma_level_def less_sigma_level_def dest: LEVEL_ORDER_inj)

end

definition level_of :: "string \<Rightarrow> sigma_level option" where
  "level_of s = map_of [(''informational'', Informational), (''low'', Low), (''medium'', Medium),
     (''high'', High), (''critical'', Critical)] s"

section \<open>Finding, parsing and selecting rules\<close>

definition rule_suffix :: "string \<Rightarrow> bool" where
  "rule_suffix f \<longleftrightarrow> suffix ''.yml'' f \<or> suffix ''.yaml'' f"

text \<open>\<open>walk\<close> lists the files below a directory of the checkout, none where it does not exist.\<close>

definition find_rules :: "(string \<Rightarrow> string list) \<Rightarrow> string list" where
  "find_rules walk =
     concat (map (\<lambda>sub. filter rule_suffix (walk sub)) [''rules'', ''rules-emerging-threats'', ''rules-threat-hunting''])"

text \<open>\<open>None\<close> as a document: reading or parsing the file raised.\<close>

definition parse_sigma_rule :: "(string \<Rightarrow> yaml option) \<Rightarrow> string \<Rightarrow> doc option" where
  "parse_sigma_rule load path = (case load path of
     Some (YMap d) \<Rightarrow>
       (if \<forall>k \<in> set [''title'', ''detection'', ''logsource'']. d_get d k \<noteq> None
        then Some (d_set ''_path'' (YStr path) d) else None)
   | _ \<Rightarrow> None)"

record options =
  op_min_level :: string
  op_statuses :: "string list"
  op_categories :: "string list"
  op_products :: "string list"

definition comma_list :: "string \<Rightarrow> string list" where
  "comma_list s = map (\<lambda>c. py_lower (py_strip c)) (split_on CHR '','' s)"

definition parse_args :: "string \<Rightarrow> string \<Rightarrow> string \<Rightarrow> string \<Rightarrow> options" where
  "parse_args categories products min_level status = \<lparr>op_min_level = py_lower min_level,
     op_statuses = comma_list status, op_categories = comma_list categories, op_products = comma_list products\<rparr>"

definition default_options :: options where
  "default_options = parse_args ''process_creation'' ''linux'' ''high'' ''stable''"

definition member_or_any :: "doc \<Rightarrow> string \<Rightarrow> string list \<Rightarrow> bool res" where
  "member_or_any ls k allowed =
     (if allowed = [] then Inr True else bindR (get_lower ls k) (\<lambda>v. Inr (v \<in> set allowed)))"

definition filter_rule :: "options \<Rightarrow> doc \<Rightarrow> bool res" where
  "filter_rule opts r =
     bindR (get_lower r ''status'') (\<lambda>st.
       if st \<notin> set (op_statuses opts) then Inr False
       else bindR (get_lower r ''level'') (\<lambda>lv.
         if level_of lv < Some (get_or Informational (level_of (op_min_level opts))) then Inr False
         else bindR (get_doc r ''logsource'') (\<lambda>ls.
           bindR (member_or_any ls ''category'' (op_categories opts)) (\<lambda>c.
             if c then member_or_any ls ''product'' (op_products opts) else Inr False))))"

section \<open>Fields and modifiers\<close>

definition IMAGE_FIELDS :: "string list" where
  "IMAGE_FIELDS = [''image'']"

definition PARENT_IMAGE_FIELDS :: "string list" where
  "PARENT_IMAGE_FIELDS = [''parentimage'']"

definition FILE_FIELDS :: "string list" where
  "FILE_FIELDS = [''targetfilename'']"

definition SUPPORTED_FIELDS :: "string list" where
  "SUPPORTED_FIELDS = [''image'', ''parentimage'', ''targetfilename'']"

definition value_modifier :: "string \<Rightarrow> bool" where
  "value_modifier m \<longleftrightarrow> m \<in> set [''endswith'', ''contains'', ''startswith'', ''re'']"

definition parse_field_key :: "string \<Rightarrow> string \<times> string" where
  "parse_field_key key = (case split_on CHR ''|'' key of
     [] \<Rightarrow> ([], [])
   | f # ms \<Rightarrow> (py_lower f, get_or [] (find value_modifier (map py_lower ms))))"

definition basename :: "string \<Rightarrow> string" where
  "basename v = after_last CHR ''/'' v"

definition nonempty :: "string \<Rightarrow> string option" where
  "nonempty s = (if s = [] then None else Some s)"

definition sigma_modifier_to_fnmatch :: "string \<Rightarrow> string \<Rightarrow> bool \<Rightarrow> string option" where
  "sigma_modifier_to_fnmatch v m is_image =
     (if m = ''endswith'' then (if is_image then nonempty (basename v) else Some (''*'' @ v))
      else if m = ''contains'' then
        (if is_image then map_option (\<lambda>b. ''*'' @ b @ ''*'') (nonempty (basename v)) else Some (''*'' @ v @ ''*''))
      else if m = ''startswith'' then
        (if is_image then map_option (\<lambda>b. b @ ''*'') (nonempty (basename v)) else Some (v @ ''*''))
      else if m = ''re'' then None
      else (if is_image then nonempty (basename v) else Some v))"

definition build_chain_filter :: "string \<Rightarrow> string \<Rightarrow> string" where
  "build_chain_filter par child = ''** > '' @ par @ '' > '' @ child"

definition ensure_list :: "yaml \<Rightarrow> yaml list" where
  "ensure_list v = (case v of YList ys \<Rightarrow> ys | _ \<Rightarrow> [v])"

section \<open>Selections\<close>

definition unsupported_key :: "string \<Rightarrow> bool" where
  "unsupported_key k \<longleftrightarrow> k \<noteq> CONDITION
     \<and> (fst (parse_field_key k) \<notin> set SUPPORTED_FIELDS \<or> snd (parse_field_key k) = ''re'')"

definition has_unsupported_fields :: "doc \<Rightarrow> bool" where
  "has_unsupported_fields sel \<longleftrightarrow> list_ex (\<lambda>(k, _). unsupported_key k) sel"

text \<open>The keys of one category of fields, and the patterns their values give, in order.\<close>

definition in_fields :: "string list \<Rightarrow> string \<Rightarrow> bool" where
  "in_fields fs k \<longleftrightarrow> k \<noteq> CONDITION \<and> fst (parse_field_key k) \<in> set fs"

definition has_field :: "string list \<Rightarrow> doc \<Rightarrow> bool" where
  "has_field fs sel \<longleftrightarrow> list_ex (\<lambda>(k, _). in_fields fs k) sel"

definition item_patterns :: "string \<times> yaml \<Rightarrow> string list" where
  "item_patterns = (\<lambda>(k, v). List.map_filter
     (\<lambda>x. sigma_modifier_to_fnmatch (yaml_str x) (snd (parse_field_key k))
        (fst (parse_field_key k) \<in> set (IMAGE_FIELDS @ PARENT_IMAGE_FIELDS)))
     (ensure_list v))"

definition field_patterns :: "string list \<Rightarrow> doc \<Rightarrow> string list" where
  "field_patterns fs sel = concat (map item_patterns (filter (\<lambda>(k, _). in_fields fs k) sel))"

record sigma_out =
  so_rule_type :: string
  so_pattern :: string
  so_description :: string
  so_chain_filter :: string
  so_tags :: "string list"

definition yaml_strings :: "yaml list \<Rightarrow> string list" where
  "yaml_strings ys = List.map_filter (\<lambda>y. case y of YStr s \<Rightarrow> Some s | _ \<Rightarrow> None) ys"

text \<open>\<open>[t for t in tags if isinstance(t, str)]\<close> over whatever \<open>tags\<close> is.\<close>

definition rule_tags :: "doc \<Rightarrow> string list res" where
  "rule_tags r = (case d_get r ''tags'' of None \<Rightarrow> Inr [] | Some (YList ys) \<Rightarrow> Inr (yaml_strings ys)
     | Some (YStr s) \<Rightarrow> Inr (map (\<lambda>c. [c]) s) | Some (YMap d) \<Rightarrow> Inr (d_keys d)
     | Some _ \<Rightarrow> Inl (TypeError ''not iterable''))"

definition rule_desc_of :: "doc \<Rightarrow> string" where
  "rule_desc_of r = ''Sigma: '' @ yaml_str (get_or (YStr ''Unknown'') (d_get r ''title'')) @ '' [''
     @ take 8 (yaml_str (get_or (YStr ''unknown'') (d_get r ''id''))) @ ''] (''
     @ yaml_str (get_or (YStr ''unknown'') (d_get r ''level'')) @ '')''"

definition name_rule :: "string \<Rightarrow> string list \<Rightarrow> string \<Rightarrow> string \<Rightarrow> sigma_out" where
  "name_rule desc tags chain img = \<lparr>so_rule_type = ''process_name'', so_pattern = img,
     so_description = desc, so_chain_filter = chain, so_tags = tags\<rparr>"

definition file_rule :: "string \<Rightarrow> string list \<Rightarrow> string \<Rightarrow> sigma_out" where
  "file_rule desc tags fp = \<lparr>so_rule_type = ''file_path'', so_pattern = fp,
     so_description = desc, so_chain_filter = [], so_tags = tags\<rparr>"

definition selection_rules :: "string \<Rightarrow> string list \<Rightarrow> string list \<Rightarrow> string list \<Rightarrow> string list \<Rightarrow> sigma_out list" where
  "selection_rules desc tags images parents fps =
     concat (map (\<lambda>img. if parents \<noteq> []
         then map (\<lambda>par. name_rule desc tags (build_chain_filter par img) img) parents
         else [name_rule desc tags [] img]) images)
     @ map (file_rule desc tags) fps"

definition translate_selection :: "doc \<Rightarrow> doc \<Rightarrow> sigma_out list res" where
  "translate_selection sel r =
     (let images = field_patterns IMAGE_FIELDS sel; parents = field_patterns PARENT_IMAGE_FIELDS sel;
          fps = field_patterns FILE_FIELDS sel
      in if has_unsupported_fields sel then Inr []
         else if has_field IMAGE_FIELDS sel \<and> images = [] then Inr []
         else if has_field PARENT_IMAGE_FIELDS sel \<and> parents = [] then Inr []
         else if has_field FILE_FIELDS sel \<and> fps = [] then Inr []
         else if images = [] \<and> fps = [] then Inr []
         else bindR (rule_tags r) (\<lambda>tags. Inr (selection_rules (rule_desc_of r) tags images parents fps)))"

section \<open>Conditions\<close>

definition word_char :: "char \<Rightarrow> bool" where
  "word_char c = (let n = (of_char c :: int) in
     (48 \<le> n \<and> n \<le> 57) \<or> (65 \<le> n \<and> n \<le> 90) \<or> n = 95 \<or> (97 \<le> n \<and> n \<le> 122))"

definition is_word :: "string \<Rightarrow> bool" where
  "is_word w \<longleftrightarrow> w \<noteq> [] \<and> list_all word_char w"

datatype condition =
    Simple string
  | AndNot string
  | OneOf string
  | AllOf string
  | OrOf "string list"
  | AndOf "string list"
  | Complicated string

text \<open>The condition is stripped, so a regular expression over it reads its words: \<open>1\s+of\s+(\<dots>)\<close>
  wants the first two words and a beginning of the third.\<close>

definition of_target :: "string \<Rightarrow> string list \<Rightarrow> string option" where
  "of_target quant ws = (case ws of w1 # w2 # w3 # _ \<Rightarrow>
       (if w1 = quant \<and> w2 = ''of'' then find (\<lambda>t. prefix t w3) [''selection_*'', ''selection*'', ''them''] else None)
     | _ \<Rightarrow> None)"

definition and_not_of :: "string list \<Rightarrow> string option" where
  "and_not_of ws = (case ws of w1 # w2 # w3 # _ # _ \<Rightarrow>
       (if is_word w1 \<and> w2 = ''and'' \<and> w3 = ''not'' then Some w1 else None)
     | _ \<Rightarrow> None)"

text \<open>\<open>re.split(r"\s+kw\s+", s)\<close>: the words of each part.\<close>

fun split_keyword :: "string \<Rightarrow> string list \<Rightarrow> string list list" where
  "split_keyword kw (w # s # v # ws) =
     (if s = kw then [w] # split_keyword kw (v # ws)
      else case split_keyword kw (s # v # ws) of [] \<Rightarrow> [[w]] | p # ps \<Rightarrow> (w # p) # ps)"
| "split_keyword kw ws = [ws]"

definition word_part :: "string list \<Rightarrow> bool" where
  "word_part p \<longleftrightarrow> (case p of [w] \<Rightarrow> is_word w | _ \<Rightarrow> False)"

definition keyword_parts :: "string \<Rightarrow> string list \<Rightarrow> string list option" where
  "keyword_parts kw ws = (let ps = split_keyword kw ws in
     if length ps > 1 \<and> list_all word_part ps then Some (concat ps) else None)"

definition parse_condition :: "string \<Rightarrow> condition" where
  "parse_condition s =
     (let c = py_strip s; ws = py_words c in
      case of_target ''1'' ws of Some t \<Rightarrow> OneOf t | None \<Rightarrow>
      case of_target ''all'' ws of Some t \<Rightarrow> AllOf t | None \<Rightarrow>
      case and_not_of ws of Some n \<Rightarrow> AndNot n | None \<Rightarrow>
      if is_word c then Simple c else
      case keyword_parts ''or'' ws of Some ps \<Rightarrow> OrOf ps | None \<Rightarrow>
      case keyword_parts ''and'' ws of Some ps \<Rightarrow> AndOf ps | None \<Rightarrow> Complicated c)"

section \<open>Rules\<close>

definition is_block :: "yaml \<Rightarrow> bool" where
  "is_block v = (case v of YMap _ \<Rightarrow> True | YList _ \<Rightarrow> True | _ \<Rightarrow> False)"

definition get_selection_blocks :: "doc \<Rightarrow> doc" where
  "get_selection_blocks det = filter (\<lambda>(k, v). k \<noteq> CONDITION \<and> is_block v) det"

definition map_unsupported :: "yaml \<Rightarrow> bool" where
  "map_unsupported v = (case v of YMap d \<Rightarrow> has_unsupported_fields d | _ \<Rightarrow> False)"

definition block_has_unsupported_fields :: "yaml \<Rightarrow> bool" where
  "block_has_unsupported_fields v = (case v of YMap d \<Rightarrow> has_unsupported_fields d
     | YList ys \<Rightarrow> list_ex map_unsupported ys | _ \<Rightarrow> False)"

definition block_maps :: "yaml list \<Rightarrow> doc list" where
  "block_maps vs = List.map_filter (\<lambda>v. case v of YMap d \<Rightarrow> Some d | _ \<Rightarrow> None) vs"

text \<open>\<open>merged.update(block)\<close> for each dictionary.\<close>

definition merge_blocks :: "doc list \<Rightarrow> doc" where
  "merge_blocks ds = fold (\<lambda>d m. fold (\<lambda>(k, v). d_set k v) d m) ds []"

fun concatR :: "'a list res list \<Rightarrow> 'a list res" where
  "concatR [] = Inr []"
| "concatR (x # xs) = bindR x (\<lambda>a. bindR (concatR xs) (\<lambda>b. Inr (a @ b)))"

type_synonym translated = "sigma_out list \<times> string"

definition rules_or :: "string \<Rightarrow> sigma_out list res \<Rightarrow> translated res" where
  "rules_or reason m = bindR m (\<lambda>rs. Inr (if rs \<noteq> [] then (rs, []) else ([], reason)))"

definition quoted :: "string \<Rightarrow> string" where
  "quoted s = [single_quote] @ s @ [single_quote]"

definition one_block :: "doc \<Rightarrow> doc \<Rightarrow> string \<Rightarrow> translated res" where
  "one_block r blocks name = (case d_get blocks name of
     Some (YMap d) \<Rightarrow> rules_or ''unsupported fields in selection'' (translate_selection d r)
   | _ \<Rightarrow> Inr ([], ''selection '' @ quoted name @ '' not found or not a dict''))"

definition any_block :: "doc \<Rightarrow> string \<Rightarrow> yaml list \<Rightarrow> translated res" where
  "any_block r reason vs = rules_or reason (concatR (map (\<lambda>d. translate_selection d r) (block_maps vs)))"

definition all_blocks :: "doc \<Rightarrow> string \<Rightarrow> yaml list \<Rightarrow> translated res" where
  "all_blocks r empty_reason vs =
     (if list_ex block_has_unsupported_fields vs then Inr ([], ''unsupported fields in AND-combined selection'')
      else if merge_blocks (block_maps vs) = [] then Inr ([], empty_reason)
      else rules_or ''untranslatable AND-combined selection'' (translate_selection (merge_blocks (block_maps vs)) r))"

definition target_blocks :: "string \<Rightarrow> doc \<Rightarrow> yaml list" where
  "target_blocks t blocks = map snd (filter (\<lambda>(k, _). t = ''them'' \<or> prefix ''selection'' k) blocks)"

definition translate_condition :: "doc \<Rightarrow> doc \<Rightarrow> string \<Rightarrow> condition \<Rightarrow> translated res" where
  "translate_condition r blocks s c = (case c of
     Simple n \<Rightarrow> one_block r blocks n
   | AndNot n \<Rightarrow> one_block r blocks n
   | OneOf t \<Rightarrow> any_block r ''no translatable selection blocks'' (target_blocks t blocks)
   | AllOf t \<Rightarrow>
       (if target_blocks t blocks = [] then Inr ([], ''no selection blocks found'')
        else all_blocks r ''untranslatable AND-combined selection'' (target_blocks t blocks))
   | OrOf ns \<Rightarrow> any_block r ''no translatable selections in OR'' (List.map_filter (d_get blocks) ns)
   | AndOf ns \<Rightarrow> (case find (\<lambda>n. d_get blocks n = None) ns of
         Some n \<Rightarrow> Inr ([], ''selection '' @ quoted n @ '' not found'')
       | None \<Rightarrow> all_blocks r ''no selection blocks in AND'' (List.map_filter (d_get blocks) ns))
   | Complicated raw \<Rightarrow> Inr ([], ''complex condition: '' @ s))"

definition translate_rule :: "doc \<Rightarrow> translated res" where
  "translate_rule r =
     bindR (get_doc r ''detection'') (\<lambda>det.
       case get_or (YStr []) (d_get det CONDITION) of
         YStr s \<Rightarrow>
           (if s = [] then Inr ([], ''no condition'')
            else translate_condition r (get_selection_blocks det) s (parse_condition s))
       | v \<Rightarrow> if falsy v then Inr ([], ''no condition'') else Inl (AttributeError ''strip''))"

section \<open>The compiler\<close>

definition UNSCOPED_DANGER_BINARIES :: "string list" where
  "UNSCOPED_DANGER_BINARIES = [''rm'', ''unlink'', ''john'', ''bash'', ''sh'', ''python'', ''python3'', ''perl'',
     ''awk'', ''sed'', ''systemctl'', ''journalctl'', ''*teamserver*'', ''httpx'', ''legion'', ''nuclei'',
     ''*sniper*'', ''hashcat'']"

record compilation =
  co_rules :: "sigma_out list"
  co_skipped :: "(yaml \<times> string) list"

definition rule_title :: "string \<Rightarrow> doc \<Rightarrow> yaml" where
  "rule_title path r = get_or (YStr path) (d_get r ''title'')"

definition compile_file :: "options \<Rightarrow> (string \<Rightarrow> yaml option) \<Rightarrow> string \<Rightarrow> compilation \<Rightarrow> compilation res" where
  "compile_file opts load path c = (case parse_sigma_rule load path of
     None \<Rightarrow> Inr c
   | Some r \<Rightarrow> bindR (filter_rule opts r) (\<lambda>ok.
       if \<not> ok then Inr (c\<lparr>co_skipped := co_skipped c @ [(rule_title path r, ''filtered (level/status/logsource)'')]\<rparr>)
       else bindR (translate_rule r) (\<lambda>(rs, reason). Inr
         (if rs \<noteq> [] then c\<lparr>co_rules := co_rules c @ rs\<rparr>
          else c\<lparr>co_skipped := co_skipped c @ [(rule_title path r, reason)]\<rparr>))))"

fun compile_files :: "options \<Rightarrow> (string \<Rightarrow> yaml option) \<Rightarrow> string list \<Rightarrow> compilation \<Rightarrow> compilation res" where
  "compile_files opts load [] c = Inr c"
| "compile_files opts load (p # ps) c = bindR (compile_file opts load p c) (compile_files opts load ps)"

definition out_key :: "sigma_out \<Rightarrow> string \<times> string \<times> string" where
  "out_key o' = (so_rule_type o', so_pattern o', so_chain_filter o')"

fun unique_rules :: "(string \<times> string \<times> string) set \<Rightarrow> sigma_out list \<Rightarrow> sigma_out list" where
  "unique_rules seen [] = []"
| "unique_rules seen (r # rs) =
     (if out_key r \<in> seen then unique_rules seen rs else r # unique_rules (insert (out_key r) seen) rs)"

definition shielded :: "sigma_out \<Rightarrow> bool" where
  "shielded r \<longleftrightarrow> so_rule_type r = ''process_name'' \<and> so_chain_filter r = []
     \<and> py_lower (so_pattern r) \<in> set UNSCOPED_DANGER_BINARIES"

definition blast_shield :: "compilation \<Rightarrow> compilation" where
  "blast_shield c = \<lparr>co_rules = filter (\<lambda>r. \<not> shielded r) (co_rules c),
     co_skipped = co_skipped c
       @ map (\<lambda>r. (YStr (so_description r), ''blast-shield: unscoped danger binary'')) (filter shielded (co_rules c))\<rparr>"

text \<open>What is written to the output file: the rules, and the two totals of its metadata.\<close>

definition main_compile :: "options \<Rightarrow> (string \<Rightarrow> yaml option) \<Rightarrow> (string \<Rightarrow> string list) \<Rightarrow> compilation res" where
  "main_compile opts load walk =
     bindR (compile_files opts load (find_rules walk) \<lparr>co_rules = [], co_skipped = []\<rparr>)
       (\<lambda>c. Inr (blast_shield (c\<lparr>co_rules := unique_rules {} (co_rules c)\<rparr>)))"

definition total_compiled :: "compilation \<Rightarrow> nat" where
  "total_compiled c = length (co_rules c)"

definition total_skipped :: "compilation \<Rightarrow> nat" where
  "total_skipped c = length (co_skipped c)"

section \<open>Loading the rules\<close>

definition as_rule :: "sigma_out \<Rightarrow> rule" where
  "as_rule r = \<lparr>rule_type = so_rule_type r, pattern = so_pattern r, description = so_description r,
     chain_filter = so_chain_filter r, chain_exclude = []\<rparr>"

definition rule_key :: "rule \<Rightarrow> string \<times> string \<times> string" where
  "rule_key r = (rule_type r, pattern r, chain_filter r)"

text \<open>\<open>GET\<close> and \<open>POST /api/response/blocklist\<close>.  An answer other than 200 makes \<open>urlopen\<close> raise.  The
  rules pushed by the fleet server are in the answer to \<open>GET\<close>.\<close>

definition get_blocklist :: "rule list \<Rightarrow> rule_store \<Rightarrow> rule list" where
  "get_blocklist fleet s = map snd (block_get_rules s) @ fleet"

definition add_blocklist_rule :: "rule \<Rightarrow> rule_store \<Rightarrow> (int \<times> rule_store) res" where
  "add_blocklist_rule r s =
     (if rule_type r = [] \<or> pattern r = [] then Inl (OSError ''HTTP Error 400'')
      else case block_add_rule r s of Inl _ \<Rightarrow> Inl (OSError ''HTTP Error 400'') | Inr x \<Rightarrow> Inr x)"

text \<open>The store, and how many rules were loaded and skipped.\<close>

fun load_each :: "(string \<times> string \<times> string) set \<Rightarrow> sigma_out list \<Rightarrow> rule_store \<times> nat \<times> nat \<Rightarrow> (rule_store \<times> nat \<times> nat) res" where
  "load_each existing [] st = Inr st"
| "load_each existing (r # rs) (s, n, k) =
     (if out_key r \<in> existing then load_each existing rs (s, n, k + 1)
      else bindR (add_blocklist_rule (as_rule r) s) (\<lambda>(_, s'). load_each existing rs (s', n + 1, k)))"

definition load_rule_file :: "rule list \<Rightarrow> sigma_out list \<Rightarrow> rule_store \<Rightarrow> (rule_store \<times> nat \<times> nat) res" where
  "load_rule_file fleet rs s = load_each (rule_key ` set (get_blocklist fleet s)) rs (s, 0, 0)"

section \<open>What a Sigma selection means\<close>

text \<open>The event a selection of \<open>process_creation\<close> rules looks at: full paths, compared without regard to
  case.  Values with Sigma's own wildcards are left to the hypotheses below.\<close>

record sigma_event =
  se_image :: string
  se_parent :: string

definition sigma_value_holds :: "string \<Rightarrow> string \<Rightarrow> string \<Rightarrow> bool" where
  "sigma_value_holds m v p =
     (if m = ''endswith'' then suffix (py_lower v) (py_lower p)
      else if m = ''contains'' then sublist (py_lower v) (py_lower p)
      else if m = ''startswith'' then prefix (py_lower v) (py_lower p)
      else py_lower v = py_lower p)"

definition event_field :: "sigma_event \<Rightarrow> string \<Rightarrow> string" where
  "event_field ev f = (if f = ''parentimage'' then se_parent ev else se_image ev)"

definition key_holds :: "sigma_event \<Rightarrow> string \<times> yaml \<Rightarrow> bool" where
  "key_holds ev = (\<lambda>(k, v). \<exists>x \<in> set (ensure_list v).
     sigma_value_holds (snd (parse_field_key k)) (yaml_str x) (event_field ev (fst (parse_field_key k))))"

definition sigma_holds :: "doc \<Rightarrow> sigma_event \<Rightarrow> bool" where
  "sigma_holds sel ev \<longleftrightarrow> (\<forall>(k, v) \<in> set sel. k \<noteq> CONDITION \<longrightarrow> key_holds ev (k, v))"

text \<open>Selections of the form most rules have: the ends of the two paths, each from a directory
  separator on, with a file name that a chain pattern reads literally.\<close>

definition literal_name :: "string \<Rightarrow> bool" where
  "literal_name b \<longleftrightarrow> b \<noteq> [] \<and> plain_pat b \<and> CHR ''>'' \<notin> set b \<and> \<not> list_ex py_space b \<and> CHR '':'' \<notin> set b"

definition path_end :: "string \<Rightarrow> bool" where
  "path_end v \<longleftrightarrow> CHR ''/'' \<in> set v \<and> literal_name (basename v)"

definition path_ends :: "doc \<Rightarrow> bool" where
  "path_ends sel \<longleftrightarrow> (\<forall>(k, v) \<in> set sel.
     fst (parse_field_key k) \<in> {''image'', ''parentimage''} \<and> k \<noteq> CONDITION
     \<and> snd (parse_field_key k) \<in> {''endswith'', []} \<and> (\<forall>x \<in> set (ensure_list v). path_end (yaml_str x)))"

section \<open>Names and paths\<close>

lemma after_last_append: "c \<in> set v \<Longrightarrow> after_last c (u @ v) = after_last c v"
  by (simp add: after_last_def before_first_def takeWhile_append1)

lemma lower_char_sep: "lower_char c = CHR ''/'' \<longleftrightarrow> c = CHR ''/''"
proof
  assume a: "lower_char c = CHR ''/''"
  show "c = CHR ''/''"
  proof (cases "65 \<le> (of_char c :: int) \<and> (of_char c :: int) \<le> 90")
    case True
    then have "lower_char c = char_of ((of_char c :: int) + 32)" by (simp add: lower_char_def)
    then have "(of_char (lower_char c) :: int) = of_char c + 32" using True by simp
    with a True show ?thesis by simp
  next
    case False
    with a show ?thesis by (simp add: lower_char_def Let_def split: if_splits)
  qed
qed (simp add: lower_char_def)

lemma basename_lower: "basename (py_lower v) = py_lower (basename v)"
proof -
  have "takeWhile (\<lambda>d. d \<noteq> CHR ''/'') (map lower_char xs) = map lower_char (takeWhile (\<lambda>d. d \<noteq> CHR ''/'') xs)" for xs
    by (induction xs) (simp_all add: lower_char_sep)
  then show ?thesis by (simp add: basename_def after_last_def before_first_def py_lower_def rev_map)
qed

lemma sep_lower: "CHR ''/'' \<in> set v \<Longrightarrow> CHR ''/'' \<in> set (py_lower v)"
  by (metis image_eqI list.set_map lower_char_sep py_lower_def)

lemma path_end_basename:
  assumes "path_end v" "m \<in> {''endswith'', []}" "sigma_value_holds m v p"
  shows "py_lower (basename p) = py_lower (basename v)"
proof -
  have "suffix (py_lower v) (py_lower p)"
    using assms(2, 3) by (auto simp: sigma_value_holds_def)
  then obtain u where "py_lower p = u @ py_lower v" by (auto simp: suffix_def)
  moreover have "CHR ''/'' \<in> set (py_lower v)" using assms(1) by (simp add: path_end_def sep_lower)
  ultimately have "basename (py_lower p) = basename (py_lower v)"
    by (simp add: basename_def after_last_append)
  then show ?thesis by (simp add: basename_lower)
qed

lemma lower_char_plain: "c \<in> {CHR ''*'', CHR ''?'', CHR ''[''} \<Longrightarrow> lower_char d = c \<longleftrightarrow> d = c"
proof -
  assume c: "c \<in> {CHR ''*'', CHR ''?'', CHR ''[''}"
  show ?thesis
  proof (cases "65 \<le> (of_char d :: int) \<and> (of_char d :: int) \<le> 90")
    case True
    then have "(of_char (lower_char d) :: int) = of_char d + 32" by (simp add: lower_char_def)
    moreover have "(of_char c :: int) \<le> 91" using c by auto
    ultimately have "lower_char d \<noteq> c" using True by fastforce
    moreover have "d \<noteq> c" using c True by auto
    ultimately show ?thesis by simp
  next
    case False
    then have "lower_char d = d" by (auto simp: lower_char_def)
    then show ?thesis by simp
  qed
qed

lemma plain_lower: "plain_pat b \<Longrightarrow> plain_pat (py_lower b)"
  by (auto simp: plain_pat_def py_lower_def image_iff dest: sym [THEN lower_char_plain [THEN iffD1, rotated]])

lemma literal_fnmatch:
  "literal_name b \<Longrightarrow> py_lower n = py_lower b \<Longrightarrow> fnmatch (py_lower n) (py_lower b)"
  by (simp add: literal_name_def plain_lower fnmatch_plain)

text \<open>A name with a \<open>:\<close> could read as \<open>re:\<close>, \<open>cmd:\<close> and the like; a literal one has none.\<close>

lemma literal_step:
  assumes "literal_name b" "py_lower (entry_name e) = py_lower b"
  shows "match_step rx e b = Inr True"
proof -
  have no: "\<not> prefix (p @ '':'') b" for p
    using assms(1) by (auto simp: literal_name_def prefix_def)
  have "\<not> prefix ''cmd_re:'' b" "\<not> prefix ''cmd:'' b" "\<not> prefix ''ctr:'' b" "\<not> prefix ''re:'' b"
    using no [of "''cmd_re''"] no [of "''cmd''"] no [of "''ctr''"] no [of "''re''"] by simp_all
  then show ?thesis
    using literal_fnmatch [OF assms] by (simp add: match_step_def)
qed

section \<open>The chain filter of a compiled rule\<close>

lemma dropWhile_pad: "list_all P u \<Longrightarrow> xs = [] \<or> \<not> P (hd xs) \<Longrightarrow> dropWhile P (u @ xs) = xs"
  by (induction u) (simp_all add: dropWhile_eq_self_iff)

lemma strip_padded:
  assumes "\<not> list_ex py_space b" "b \<noteq> []" "list_all py_space u" "list_all py_space w"
  shows "py_strip (u @ b @ w) = b"
proof -
  have c: "\<not> py_space (hd b)" "\<not> py_space (hd (rev b))" using assms(1, 2) by (auto simp: list_ex_iff hd_rev)
  have "dropWhile py_space (u @ b @ w) = b @ w"
    using assms(2, 3) c(1) by (intro dropWhile_pad) auto
  moreover have "dropWhile py_space (rev w @ rev b) = rev b"
    using assms(4) c(2) by (intro dropWhile_pad) (auto simp: list_all_iff)
  ultimately show ?thesis by (simp only: py_strip_def rev_append rev_rev_ident)
qed

lemma split_on_append_sep:
  "sep \<notin> set u \<Longrightarrow> split_on sep (u @ sep # v) = u # split_on sep v"
  by (induction u) auto

lemma chain_filter_parts:
  assumes "literal_name par" "literal_name img"
  shows "pattern_parts (build_chain_filter par img) = [''**'', par, img]"
proof -
  have "split_on CHR ''>'' (''** '' @ CHR ''>'' # (('' '' @ par @ '' '') @ CHR ''>'' # ('' '' @ img)))
      = [''** '', '' '' @ par @ '' '', '' '' @ img]"
    using assms by (subst split_on_append_sep, simp, subst split_on_append_sep)
      (auto simp: literal_name_def split_on_single)
  moreover have "build_chain_filter par img = ''** '' @ CHR ''>'' # (('' '' @ par @ '' '') @ CHR ''>'' # ('' '' @ img))"
    by (simp add: build_chain_filter_def)
  moreover have "py_strip ''** '' = ''**''" by code_simp
  moreover have "py_strip ('' '' @ par @ '' '') = par" "py_strip ('' '' @ img @ []) = img"
    using assms by (intro strip_padded; simp add: literal_name_def py_space_def)+
  ultimately show ?thesis by (simp add: pattern_parts_def)
qed

section \<open>What compiled rules match\<close>

lemma mem_map_filter: "x \<in> set xs \<Longrightarrow> f x = Some y \<Longrightarrow> y \<in> set (List.map_filter f xs)"
  by (force simp: List.map_filter_def)

lemma path_end_pattern:
  "path_end v \<Longrightarrow> m \<in> {''endswith'', []} \<Longrightarrow> sigma_modifier_to_fnmatch v m True = Some (basename v)"
  by (auto simp: sigma_modifier_to_fnmatch_def nonempty_def path_end_def literal_name_def)

lemma path_ends_key:
  assumes "path_ends sel" "(k, v) \<in> set sel"
  shows "fst (parse_field_key k) \<in> {''image'', ''parentimage''}" "k \<noteq> CONDITION"
    "snd (parse_field_key k) \<in> {''endswith'', []}" "\<And>x. x \<in> set (ensure_list v) \<Longrightarrow> path_end (yaml_str x)"
  using assms by (auto simp: path_ends_def)

lemma path_ends_patterns:
  assumes "path_ends sel" "p \<in> set (field_patterns fs sel)" "set fs \<subseteq> {''image'', ''parentimage''}"
  shows "literal_name p"
proof -
  obtain k v x where kv: "(k, v) \<in> set sel" "x \<in> set (ensure_list v)"
      "sigma_modifier_to_fnmatch (yaml_str x) (snd (parse_field_key k))
        (fst (parse_field_key k) \<in> set (IMAGE_FIELDS @ PARENT_IMAGE_FIELDS)) = Some p"
    using assms(2) by (auto simp: field_patterns_def item_patterns_def List.map_filter_def split: if_splits)
  note key = path_ends_key [OF assms(1) kv(1)]
  have "fst (parse_field_key k) \<in> set (IMAGE_FIELDS @ PARENT_IMAGE_FIELDS)"
    using key(1) by (auto simp: IMAGE_FIELDS_def PARENT_IMAGE_FIELDS_def)
  then have "p = basename (yaml_str x)" using kv(3) path_end_pattern [OF key(4) [OF kv(2)] key(3)] by simp
  then show ?thesis using key(4) [OF kv(2)] by (simp add: path_end_def)
qed

text \<open>A key that holds of the event leaves a pattern that names the file of its path.\<close>

lemma key_pattern:
  assumes sel: "path_ends sel" "(k, v) \<in> set sel" and holds: "key_holds ev (k, v)"
    and f: "fst (parse_field_key k) = f" "f \<in> set fs"
  shows "\<exists>p \<in> set (field_patterns fs sel). literal_name p \<and> py_lower (basename (event_field ev f)) = py_lower p"
proof -
  note key = path_ends_key [OF sel]
  obtain x where x: "x \<in> set (ensure_list v)"
      "sigma_value_holds (snd (parse_field_key k)) (yaml_str x) (event_field ev f)"
    using holds f(1) by (auto simp: key_holds_def)
  note pe = key(4) [OF x(1)]
  have "fst (parse_field_key k) \<in> set (IMAGE_FIELDS @ PARENT_IMAGE_FIELDS)"
    using key(1) by (auto simp: IMAGE_FIELDS_def PARENT_IMAGE_FIELDS_def)
  then have "basename (yaml_str x) \<in> set (item_patterns (k, v))"
    unfolding item_patterns_def prod.case using path_end_pattern [OF pe key(3)]
    by (intro mem_map_filter [OF x(1)]) simp
  then have "basename (yaml_str x) \<in> set (field_patterns fs sel)"
    using sel(2) f key(2) by (force simp: field_patterns_def in_fields_def)
  moreover have "literal_name (basename (yaml_str x))" using pe by (simp add: path_end_def)
  ultimately show ?thesis using path_end_basename [OF pe key(3) x(2)] by blast
qed

lemma field_patterns_Nil: "\<not> has_field fs sel \<Longrightarrow> field_patterns fs sel = []"
  by (auto simp: has_field_def field_patterns_def list_ex_iff filter_empty_conv)

text \<open>A process and the chain that leads to it, as the engine sees an event.\<close>

definition seen_as :: "sigma_event \<Rightarrow> attrs \<Rightarrow> bool" where
  "seen_as ev a \<longleftrightarrow> a_process_name a = basename (se_image ev) \<and> a_process_name a \<noteq> []
     \<and> (\<exists>c pre pe ie. a_chain a = Some c \<and> extract_chain_entries c = pre @ [pe, ie]
          \<and> entry_name pe = basename (se_parent ev) \<and> entry_name ie = basename (se_image ev))"

lemma chain_filter_matches:
  assumes lit: "literal_name par" "literal_name img" and seen: "seen_as ev a"
    and n: "py_lower (basename (se_parent ev)) = py_lower par" "py_lower (basename (se_image ev)) = py_lower img"
  shows "chain_filter_ok rx (as_rule (name_rule desc tags (build_chain_filter par img) img)) a = Inr True"
proof -
  obtain c pre pe ie where c: "a_chain a = Some c" "extract_chain_entries c = pre @ [pe, ie]"
      "entry_name pe = basename (se_parent ev)" "entry_name ie = basename (se_image ev)"
    using seen by (auto simp: seen_as_def)
  note parts = chain_filter_parts [OF lit]
  have free: "regex_free (build_chain_filter par img)"
    using lit by (auto simp: regex_free_def parts regex_part_def literal_name_def prefix_def)
  obtain b where b: "chain_matches rx c (build_chain_filter par img) = Inr b"
    using chain_matches_total [OF free] by blast
  have steps: "match_step rx pe par = Inr True" "match_step rx ie img = Inr True"
    using lit n c by (simp_all add: literal_step)
  have ne: "par \<noteq> ''*''" "par \<noteq> ''**''" "img \<noteq> ''*''" "img \<noteq> ''**''"
    using lit by (auto simp: literal_name_def plain_pat_def)
  have "[pe, ie] = [] @ [pe, ie] \<and> [pe, ie] \<in> chain_den rx [par, img]"
    using ne steps by simp
  then have "[] @ [pe, ie] \<in> chain_den rx [''**'', par, img]"
    unfolding chain_den.simps(2) [of rx "''**''"] if_P [OF refl] by blast
  then have "[pe, ie] \<in> chain_den rx (pattern_parts (build_chain_filter par img))" by (simp only: parts append_Nil)
  moreover have "suffix [pe, ie] (extract_chain_entries c)" by (simp add: c(2) suffix_def)
  ultimately have b using match_chain_pattern_suffix [OF b [unfolded chain_matches_def]] by auto
  with b c(1) show ?thesis
    by (simp add: chain_filter_ok_def as_rule_def name_rule_def build_chain_filter_def)
qed

lemma name_rule_fires:
  assumes lit: "literal_name img" and seen: "seen_as ev a"
    and n: "py_lower (basename (se_image ev)) = py_lower img"
    and chain: "chain_filter_ok rx (as_rule (name_rule desc tags ch img)) a = Inr True"
  shows "match_rule rx (as_rule (name_rule desc tags ch img)) a = Inr True"
proof -
  have "chain_excluded rx (as_rule (name_rule desc tags ch img)) a = Inr False"
    by (simp add: chain_excluded_def as_rule_def split: option.splits)
  moreover have "fnmatch (py_lower (a_process_name a)) (py_lower img)"
    using seen n lit by (simp add: seen_as_def literal_fnmatch)
  moreover have "a_process_name a \<noteq> []" using seen unfolding seen_as_def by blast
  ultimately show ?thesis
    using chain by (simp add: match_rule_def match_type_def Let_def as_rule_def name_rule_def)
qed

lemma path_ends_supported: "path_ends sel \<Longrightarrow> \<not> has_unsupported_fields sel \<and> \<not> has_field FILE_FIELDS sel"
  by (fastforce simp: path_ends_def has_unsupported_fields_def unsupported_key_def has_field_def
      in_fields_def list_ex_iff SUPPORTED_FIELDS_def FILE_FIELDS_def)

lemma has_fieldE:
  assumes "has_field fs sel" "sigma_holds sel ev"
  obtains k v where "(k, v) \<in> set sel" "k \<noteq> CONDITION" "fst (parse_field_key k) \<in> set fs" "key_holds ev (k, v)"
  using assms by (auto simp: has_field_def in_fields_def list_ex_iff sigma_holds_def)

text \<open>The rules of a selection, where the event has a match of each key.\<close>

lemma selection_fires:
  assumes sel: "path_ends sel" "has_field IMAGE_FIELDS sel" and ev: "sigma_holds sel ev" and seen: "seen_as ev a"
    and tags: "rule_tags r = Inr tags"
  shows "\<exists>rs o'. translate_selection sel r = Inr rs \<and> o' \<in> set rs \<and> match_rule rx (as_rule o') a = Inr True
     \<and> py_lower (so_pattern o') = py_lower (basename (se_image ev)) \<and> (has_field PARENT_IMAGE_FIELDS sel \<longrightarrow> so_chain_filter o' \<noteq> [])"
proof -
  let ?I = "field_patterns IMAGE_FIELDS sel" and ?P = "field_patterns PARENT_IMAGE_FIELDS sel"
  obtain ik iv where ik: "(ik, iv) \<in> set sel" "fst (parse_field_key ik) = ''image''" "key_holds ev (ik, iv)"
    by (rule has_fieldE [OF sel(2) ev]) (simp add: IMAGE_FIELDS_def)
  obtain img where img: "img \<in> set ?I" "literal_name img" "py_lower (basename (se_image ev)) = py_lower img"
    using key_pattern [OF sel(1) ik(1, 3, 2), of IMAGE_FIELDS] by (auto simp: IMAGE_FIELDS_def event_field_def)
  note sup = path_ends_supported [OF sel(1)]
  have files: "field_patterns FILE_FIELDS sel = []" using sup by (simp add: field_patterns_Nil)
  have ok: "?P \<noteq> [] \<or> \<not> has_field PARENT_IMAGE_FIELDS sel \<Longrightarrow>
      translate_selection sel r = Inr (selection_rules (rule_desc_of r) tags ?I ?P [])"
    using sup img(1) tags files by (auto simp: translate_selection_def Let_def)
  show ?thesis
  proof (cases "has_field PARENT_IMAGE_FIELDS sel")
    case True
    obtain pk pv where pk: "(pk, pv) \<in> set sel" "fst (parse_field_key pk) = ''parentimage''" "key_holds ev (pk, pv)"
      by (rule has_fieldE [OF True ev]) (simp add: PARENT_IMAGE_FIELDS_def)
    obtain par where par: "par \<in> set ?P" "literal_name par" "py_lower (basename (se_parent ev)) = py_lower par"
      using key_pattern [OF sel(1) pk(1, 3, 2), of PARENT_IMAGE_FIELDS]
      by (auto simp: PARENT_IMAGE_FIELDS_def event_field_def)
    let ?o = "name_rule (rule_desc_of r) tags (build_chain_filter par img) img"
    have "?P \<noteq> []" using par(1) by auto
    then have "?o \<in> set (selection_rules (rule_desc_of r) tags ?I ?P [])"
      using img(1) par(1) by (auto simp: selection_rules_def)
    moreover have "match_rule rx (as_rule ?o) a = Inr True"
      using name_rule_fires [OF img(2) seen img(3) chain_filter_matches [OF par(2) img(2) seen par(3) img(3)]] .
    moreover have "py_lower (so_pattern ?o) = py_lower (basename (se_image ev))" "so_chain_filter ?o \<noteq> []"
      using img(3) by (simp_all add: name_rule_def build_chain_filter_def)
    ultimately show ?thesis using ok \<open>?P \<noteq> []\<close> by blast
  next
    case False
    let ?o = "name_rule (rule_desc_of r) tags [] img"
    have "?P = []" using False by (simp add: field_patterns_Nil)
    then have "?o \<in> set (selection_rules (rule_desc_of r) tags ?I ?P [])"
      using img(1) by (auto simp: selection_rules_def)
    moreover have "match_rule rx (as_rule ?o) a = Inr True"
      by (rule name_rule_fires [OF img(2) seen img(3)]) (simp add: chain_filter_ok_def as_rule_def name_rule_def)
    moreover have "py_lower (so_pattern ?o) = py_lower (basename (se_image ev))" using img(3) by (simp add: name_rule_def)
    ultimately show ?thesis using ok False by blast
  qed
qed

section \<open>The shield and the table\<close>

lemma unique_rules_spec:
  "distinct (map out_key (unique_rules seen rs)) \<and> set (unique_rules seen rs) \<subseteq> set rs
     \<and> out_key ` set (unique_rules seen rs) = out_key ` set rs - seen"
proof (induction rs arbitrary: seen)
  case (Cons r rs)
  from Cons.IH [of seen] Cons.IH [of "insert (out_key r) seen"] show ?case
    by (cases "out_key r \<in> seen") auto
qed simp

lemma match_rule_description: "match_rule rx (r\<lparr>description := d\<rparr>) a = match_rule rx r a"
proof -
  obtain ty pt ds cf cx where r: "r = \<lparr>rule_type = ty, pattern = pt, description = ds, chain_filter = cf, chain_exclude = cx\<rparr>"
    by (cases r)
  show ?thesis
    unfolding r match_rule_def chain_filter_ok_def chain_excluded_def match_type_def rule.simps ..
qed

lemma same_key_same_match:
  assumes "out_key o1 = out_key o2"
  shows "match_rule rx (as_rule o1) a = match_rule rx (as_rule o2) a" "shielded o1 = shielded o2"
proof -
  have "as_rule o1 = (as_rule o2)\<lparr>description := so_description o1\<rparr>"
    using assms by (simp add: out_key_def as_rule_def)
  then show "match_rule rx (as_rule o1) a = match_rule rx (as_rule o2) a" by (simp only: match_rule_description)
qed (use assms in \<open>simp add: out_key_def shielded_def\<close>)

lemma load_each_rows:
  "store_inv s \<Longrightarrow> load_each ex rs (s, n, k) = Inr (s', n', k') \<Longrightarrow>
     store_inv s' \<and> map snd (table_rows s') = map snd (table_rows s) @ map as_rule (filter (\<lambda>r. out_key r \<notin> ex) rs)
     \<and> network_rules s' = network_rules s \<and> n' = n + length (filter (\<lambda>r. out_key r \<notin> ex) rs)
     \<and> k' = k + length (filter (\<lambda>r. out_key r \<in> ex) rs)"
proof (induction rs arbitrary: s n k)
  case (Cons r rs)
  show ?case
  proof (cases "out_key r \<in> ex")
    case True
    with Cons.IH [of s n "k + 1"] Cons.prems show ?thesis by simp
  next
    case False
    then obtain i s1 where a: "add_blocklist_rule (as_rule r) s = Inr (i, s1)"
        and l: "load_each ex rs (s1, n + 1, k) = Inr (s', n', k')"
      using Cons.prems(2) by (auto simp: bindR_Inr_iff)
    have "block_add_rule (as_rule r) s = Inr (i, s1)"
      using a by (auto simp: add_blocklist_rule_def split: if_splits sum.splits)
    from block_table.add_law [OF Cons.prems(1) this] have s1: "store_inv s1"
        "table_rows s1 = table_rows s @ [(i, as_rule r)]" "network_rules s1 = network_rules s" by auto
    with Cons.IH [OF s1(1) l] False show ?thesis by simp
  qed
qed auto

lemma load_each_known:
  "\<forall>r \<in> set rs. out_key r \<in> ex \<Longrightarrow> load_each ex rs (s, n, k) = Inr (s, n, k + length rs)"
  by (induction rs arbitrary: k) auto

lemma key_as_rule [simp]: "rule_key (as_rule r) = out_key r"
  by (simp add: rule_key_def as_rule_def out_key_def)

lemma block_table_hit:
  assumes inv: "store_inv s" and r: "r \<in> snd ` set (table_rows s)" "match_rule rx r a = Inr True"
    and free: "\<forall>q \<in> snd ` set (table_rows s) \<union> set (network_rules s). regex_free_rule q"
  shows "\<exists>d. is_blocked rx s a = Inr (True, d)"
proof -
  let ?rs = "map snd (table_rows s) @ network_rules s"
  have tot: "match_rule rx q a = Inr (match_rule rx q a = Inr True)" if "q \<in> set ?rs" for q
  proof (cases "match_rule rx q a")
    case (Inl x)
    with match_rule_error [OF Inl] free that show ?thesis by auto
  next
    case (Inr b)
    then show ?thesis by (cases b) simp_all
  qed
  have "findR (\<lambda>q. match_rule rx q a) ?rs = Inr (find (\<lambda>q. match_rule rx q a = Inr True) ?rs)"
    by (rule findR_total) (use tot in blast)
  moreover have "find (\<lambda>q. match_rule rx q a = Inr True) ?rs \<noteq> None"
    using r by (auto simp: find_None_iff)
  ultimately show ?thesis by (auto simp: block_table.check_law [OF inv])
qed

text \<open>The rules a checkout gives: those of every file that parses, passes the filter and translates.\<close>

definition gives :: "options \<Rightarrow> (string \<Rightarrow> yaml option) \<Rightarrow> string list \<Rightarrow> sigma_out set" where
  "gives opts load ps = {o'. \<exists>p \<in> set ps. \<exists>r rs reason. parse_sigma_rule load p = Some r
     \<and> filter_rule opts r = Inr True \<and> translate_rule r = Inr (rs, reason) \<and> o' \<in> set rs}"

lemma gives_Cons: "gives opts load (p # ps) = gives opts load [p] \<union> gives opts load ps"
  by (auto simp: gives_def)

lemma compile_file_rules:
  assumes "compile_file opts load p c = Inr c'"
  shows "set (co_rules c') = set (co_rules c) \<union> gives opts load [p]"
proof (cases "parse_sigma_rule load p")
  case None
  with assms show ?thesis by (simp add: compile_file_def gives_def)
next
  case (Some r)
  with assms obtain ok where ok: "filter_rule opts r = Inr ok" by (auto simp: compile_file_def bindR_Inr_iff)
  show ?thesis
  proof (cases ok)
    case True
    with assms Some ok obtain rs reason where "translate_rule r = Inr (rs, reason)"
        "c' = (if rs \<noteq> [] then c\<lparr>co_rules := co_rules c @ rs\<rparr>
          else c\<lparr>co_skipped := co_skipped c @ [(rule_title p r, reason)]\<rparr>)"
      by (auto simp: compile_file_def bindR_Inr_iff)
    with Some ok True show ?thesis by (auto simp: gives_def)
  next
    case False
    with assms Some ok show ?thesis by (auto simp: compile_file_def gives_def)
  qed
qed

lemma compile_files_rules:
  "compile_files opts load ps c = Inr c' \<Longrightarrow> set (co_rules c') = set (co_rules c) \<union> gives opts load ps"
proof (induction ps arbitrary: c)
  case Nil
  then show ?case by (simp add: gives_def)
next
  case (Cons p ps)
  then obtain c1 where "compile_file opts load p c = Inr c1" "compile_files opts load ps c1 = Inr c'"
    by (auto simp: bindR_Inr_iff)
  with Cons.IH compile_file_rules gives_Cons show ?case by (metis Un_assoc)
qed

lemma main_compile_rules:
  assumes "main_compile opts load walk = Inr c"
  shows "distinct (map out_key (co_rules c))"
    and "out_key ` set (co_rules c) = out_key ` {o' \<in> gives opts load (find_rules walk). \<not> shielded o'}"
    and "set (co_rules c) \<subseteq> {o' \<in> gives opts load (find_rules walk). \<not> shielded o'}"
proof -
  obtain c1 where c1: "compile_files opts load (find_rules walk) \<lparr>co_rules = [], co_skipped = []\<rparr> = Inr c1"
      "co_rules c = filter (\<lambda>r. \<not> shielded r) (unique_rules {} (co_rules c1))"
    using assms by (auto simp: main_compile_def bindR_Inr_iff blast_shield_def)
  have g: "set (co_rules c1) = gives opts load (find_rules walk)" using compile_files_rules [OF c1(1)] by simp
  note u = unique_rules_spec [of "{}" "co_rules c1"]
  show "distinct (map out_key (co_rules c))" using u c1(2) by (simp add: distinct_map_filter)
  show sub: "set (co_rules c) \<subseteq> {o' \<in> gives opts load (find_rules walk). \<not> shielded o'}"
    using u g c1(2) by auto
  show "out_key ` set (co_rules c) = out_key ` {o' \<in> gives opts load (find_rules walk). \<not> shielded o'}"
  proof (rule equalityI [OF image_mono [OF sub]], rule subsetI)
    fix k assume "k \<in> out_key ` {o' \<in> gives opts load (find_rules walk). \<not> shielded o'}"
    then obtain o1 where o1: "o1 \<in> set (co_rules c1)" "\<not> shielded o1" "k = out_key o1" using g by auto
    have "out_key ` set (unique_rules {} (co_rules c1)) = out_key ` set (co_rules c1)" using u by (simp only: Diff_empty)
    then have "out_key o1 \<in> out_key ` set (unique_rules {} (co_rules c1))" using o1(1) by blast
    then obtain o2 where o2: "out_key o2 = out_key o1" "o2 \<in> set (unique_rules {} (co_rules c1))" by auto
    have "o2 \<in> set (co_rules c)"
      using o2(2) o1(2) same_key_same_match(2) [OF o2(1)] c1(2) by simp
    then show "k \<in> out_key ` set (co_rules c)" unfolding o1(3) o2(1) [symmetric] by (rule imageI)
  qed
qed

lemma loaded_rule_blocks:
  assumes l: "load_rule_file [] rs empty_store = Inr (s, n, k)" and o': "o' \<in> set rs"
    and m: "match_rule rx (as_rule o') a = Inr True" and free: "\<forall>q \<in> set rs. regex_free_rule (as_rule q)"
  shows "\<exists>d. is_blocked rx s a = Inr (True, d)"
proof -
  have inv: "store_inv empty_store" by (simp add: store_inv_def empty_store_def)
  have ex: "rule_key ` set (get_blocklist [] empty_store) = {}"
    by (simp add: get_blocklist_def block_get_rules_def select_rows_def empty_store_def)
  have l': "load_each {} rs (empty_store, 0, 0) = Inr (s, n, k)" using l by (simp only: load_rule_file_def ex)
  from load_each_rows [OF inv l'] have s: "store_inv s" "map snd (table_rows s) = map as_rule rs" "network_rules s = []"
    by (simp_all add: empty_store_def)
  then have rows: "snd ` set (table_rows s) = as_rule ` set rs" by (metis list.set_map)
  show ?thesis by (rule block_table_hit [OF s(1) _ m]) (use rows s(3) o' free in auto)
qed

lemma blocklist_keys:
  "store_inv s \<Longrightarrow> rule_key ` set (get_blocklist fleet s)
     = rule_key ` set (map snd (table_rows s)) \<union> rule_key ` set fleet"
  by (simp add: get_blocklist_def block_get_rules_def select_rows_inv image_Un)

lemma reload_known:
  assumes "store_inv s" "load_rule_file fleet rs s = Inr (s', n, k)"
  shows "load_rule_file fleet rs s' = Inr (s', 0, length rs)"
proof -
  let ?K = "rule_key ` set (get_blocklist fleet s)"
  let ?new = "filter (\<lambda>r. out_key r \<notin> ?K) rs"
  have inv: "store_inv s'" and rows: "map snd (table_rows s') = map snd (table_rows s) @ map as_rule ?new"
    using load_each_rows [OF assms(1) assms(2) [unfolded load_rule_file_def]] by auto
  have "rule_key ` set (map snd (table_rows s')) = rule_key ` set (map snd (table_rows s)) \<union> out_key ` set ?new"
    unfolding rows set_append image_Un by (simp add: image_image)
  then have "rule_key ` set (get_blocklist fleet s') = ?K \<union> out_key ` set ?new"
    unfolding blocklist_keys [OF inv] blocklist_keys [OF assms(1)] by blast
  then have "\<forall>r \<in> set rs. out_key r \<in> rule_key ` set (get_blocklist fleet s')" by auto
  then show ?thesis unfolding load_rule_file_def by (simp add: load_each_known)
qed

section \<open>Conditions with a negated part\<close>

lemma py_words_append_space:
  "w \<noteq> [] \<Longrightarrow> \<not> list_ex py_space w \<Longrightarrow> py_space d \<Longrightarrow> py_words (w @ d # s) = w # py_words s"
proof (induction w)
  case (Cons c w)
  show ?case
  proof (cases w)
    case Nil
    with Cons.prems show ?thesis by simp
  next
    case (Cons e es)
    with Cons.IH Cons.prems show ?thesis by simp
  qed
qed simp

lemma word_no_space: "is_word w \<Longrightarrow> w \<noteq> [] \<and> \<not> list_ex py_space w"
  by (auto simp: is_word_def list_all_iff list_ex_iff word_char_def py_space_def Let_def)

lemma py_words_single: "w \<noteq> [] \<Longrightarrow> \<not> list_ex py_space w \<Longrightarrow> py_words w = [w]"
proof (induction w)
  case (Cons c w)
  then show ?case by (cases w) auto
qed simp

lemma strip_id: "s \<noteq> [] \<Longrightarrow> \<not> py_space (hd s) \<Longrightarrow> \<not> py_space (last s) \<Longrightarrow> py_strip s = s"
  unfolding py_strip_def by (simp only: dropWhile_eq_self_iff [THEN iffD2] hd_rev rev_rev_ident simp_thms)

lemma py_words_start: "s \<noteq> [] \<Longrightarrow> \<not> py_space (hd s) \<Longrightarrow> py_words s \<noteq> []"
  by (cases s) (auto split: list.splits)

lemma parse_simple: "is_word n \<Longrightarrow> parse_condition n = Simple n"
proof -
  assume w: "is_word n"
  have "\<not> py_space (hd n)" "\<not> py_space (last n)" using word_no_space [OF w] by (auto simp: list_ex_iff)
  then have "py_strip n = n" using word_no_space [OF w] by (simp add: strip_id)
  with w show ?thesis
    using word_no_space [OF w] by (simp add: parse_condition_def py_words_single of_target_def and_not_of_def Let_def)
qed

text \<open>The condition \<open>n and not x\<close>.\<close>

definition excluding :: "string \<Rightarrow> string \<Rightarrow> string" where
  "excluding n x = n @ CHR '' '' # (''and'' @ CHR '' '' # (''not'' @ CHR '' '' # x))"

lemma parse_and_not:
  assumes "is_word n" "x \<noteq> []" "\<not> py_space (hd x)" "\<not> py_space (last x)"
  shows "parse_condition (excluding n x) = AndNot n"
proof -
  have n: "n \<noteq> []" "\<not> list_ex py_space n" using word_no_space [OF assms(1)] by auto
  have "\<not> py_space (hd n)" using n by (auto simp: list_ex_iff)
  then have strip: "py_strip (excluding n x) = excluding n x"
    using n assms by (intro strip_id) (auto simp: hd_append excluding_def)
  have w: "py_words (u @ CHR '' '' # t) = u # py_words t" if "u \<noteq> [] \<and> \<not> list_ex py_space u" for u t
    using that by (simp add: py_words_append_space py_space_def)
  have "py_words (excluding n x) = n # ''and'' # ''not'' # py_words x"
    unfolding excluding_def using n by (subst w, simp)+ (simp_all add: py_space_def w)
  moreover obtain v vs where "py_words x = v # vs" using py_words_start [OF assms(2, 3)] by (cases "py_words x") auto
  ultimately show ?thesis
    using assms(1) strip by (simp add: parse_condition_def of_target_def and_not_of_def Let_def)
qed

definition with_condition :: "string \<Rightarrow> doc \<Rightarrow> doc \<Rightarrow> doc" where
  "with_condition s det r = d_set ''detection'' (YMap (d_set CONDITION (YStr s) det)) r"

lemma blocks_with_condition: "get_selection_blocks (d_set CONDITION v det) = get_selection_blocks det"
  by (induction det) (auto simp: get_selection_blocks_def d_set_def)

lemma filter_key_value:
  "map_of d k = Some v \<Longrightarrow> P k v \<Longrightarrow> map_of (filter (\<lambda>(j, w). P j w) d) k = Some v"
  by (induction d) auto

lemma translate_selection_with: "translate_selection sel (with_condition s det r) = translate_selection sel r"
proof -
  have "rule_tags (with_condition s det r) = rule_tags r" "rule_desc_of (with_condition s det r) = rule_desc_of r"
    by (simp_all add: rule_tags_def rule_desc_of_def with_condition_def dict_simps)
  then show ?thesis by (simp only: translate_selection_def)
qed

section \<open>Properties\<close>

text \<open>The compiler writes exactly the rules that the parsed, accepted and translated files give, one for
  each type, pattern and chain filter, less those the blast shield rejects: no written rule kills a
  common binary by its bare name wherever it runs.\<close>

theorem compiled_rules_exact:
  assumes "main_compile opts load walk = Inr c"
  shows "out_key ` set (co_rules c) = out_key ` {o' \<in> gives opts load (find_rules walk). \<not> shielded o'}
    \<and> distinct (map out_key (co_rules c))
    \<and> (\<forall>o' \<in> set (co_rules c). so_rule_type o' = ''process_name'' \<and> so_chain_filter o' = []
         \<longrightarrow> py_lower (so_pattern o') \<notin> set UNSCOPED_DANGER_BINARIES)"
  using main_compile_rules [OF assms] by (auto simp: shielded_def)

text \<open>C8. The meaning of a Sigma rule survives compilation, loading and matching: where a rule asks for the
  ends of the image path and of its parent's, every event Sigma's semantics accepts is blocked by
  the table that results, unless the shield rejected the rule.\<close>

theorem sigma_event_is_blocked:
  assumes compiled: "main_compile opts load walk = Inr c"
    and accepted: "p \<in> set (find_rules walk)" "parse_sigma_rule load p = Some r" "filter_rule opts r = Inr True"
    and rule: "get_doc r ''detection'' = Inr det" "d_get det CONDITION = Some (YStr name)" "is_word name"
      "name \<noteq> CONDITION" "d_get det name = Some (YMap sel)" "rule_tags r = Inr tags"
    and sel: "path_ends sel" "has_field IMAGE_FIELDS sel"
    and scoped: "has_field PARENT_IMAGE_FIELDS sel \<or> py_lower (basename (se_image ev)) \<notin> set UNSCOPED_DANGER_BINARIES"
    and loaded: "load_rule_file [] (co_rules c) empty_store = Inr (s, n, k)"
    and free: "\<forall>q \<in> set (co_rules c). regex_free_rule (as_rule q)"
    and event: "sigma_holds sel ev" "seen_as ev a"
  shows "\<exists>d. is_blocked rx s a = Inr (True, d)"
proof -
  obtain rs o' where o': "translate_selection sel r = Inr rs" "o' \<in> set rs" "match_rule rx (as_rule o') a = Inr True"
      "py_lower (so_pattern o') = py_lower (basename (se_image ev))"
      "has_field PARENT_IMAGE_FIELDS sel \<longrightarrow> so_chain_filter o' \<noteq> []"
    using selection_fires [OF sel event rule(6)] by blast
  have "d_get (get_selection_blocks det) name = Some (YMap sel)"
    using rule(4, 5) by (simp add: get_selection_blocks_def d_get_def is_block_def filter_key_value)
  moreover have "rs \<noteq> []" using o'(2) by auto
  ultimately have "translate_rule r = Inr (rs, [])"
    using rule(1-3) o'(1) word_no_space [OF rule(3)]
    by (simp add: translate_rule_def get_or_def parse_simple translate_condition_def one_block_def rules_or_def)
  then have "o' \<in> gives opts load (find_rules walk)" using accepted o'(2) by (auto simp: gives_def)
  moreover have "\<not> shielded o'" using scoped o'(4, 5) by (auto simp: shielded_def)
  ultimately have "out_key o' \<in> out_key ` set (co_rules c)" using main_compile_rules(2) [OF compiled] by blast
  then obtain o2 where o2: "out_key o2 = out_key o'" "o2 \<in> set (co_rules c)" by auto
  show ?thesis
    using loaded_rule_blocks [OF loaded o2(2) _ free] same_key_same_match(1) [OF o2(1)] o'(3) by simp
qed

text \<open>Loading a rule file a second time changes nothing and posts nothing.\<close>

theorem reload_adds_nothing:
  assumes "store_inv s" "load_rule_file fleet rs s = Inr (s', n, k)"
  shows "load_rule_file fleet rs s' = Inr (s', 0, length rs)"
  by (rule reload_known [OF assms])

text \<open>The part of a condition after \<open>and not\<close>, Sigma's exclusions, has no influence on the rules: the
  condition \<open>selection and not filter\<close> compiles to the rules of \<open>selection\<close>.\<close>

theorem negated_part_ignored:
  assumes "is_word n" "x \<noteq> []" "\<not> py_space (hd x)" "\<not> py_space (last x)"
  shows "translate_rule (with_condition (excluding n x) det r) = translate_rule (with_condition n det r)"
proof -
  have n: "n \<noteq> []" using word_no_space [OF assms(1)] by simp
  have t: "translate_rule (with_condition s det r)
      = translate_condition (with_condition s det r) (get_selection_blocks det) s (parse_condition s)" if "s \<noteq> []" for s
    using that by (simp add: translate_rule_def with_condition_def get_doc_def dict_simps get_or_def blocks_with_condition)
  have b: "one_block (with_condition s det r) bs n = one_block r bs n" for s bs
    by (simp only: one_block_def translate_selection_with)
  have "excluding n x \<noteq> []" by (simp add: excluding_def)
  then show ?thesis
    using n by (simp only: t parse_and_not [OF assms] parse_simple [OF assms(1)] translate_condition_def b
        condition.case simp_thms)
qed

text \<open>A web shell: a shell below a web server, with an exclusion.\<close>

definition web_shell :: doc where
  "web_shell = [(''ParentImage|endswith'', YList [YStr ''/nginx'', YStr ''/httpd'']), (''Image|endswith'', YStr ''/bash'')]"

definition sample_sigma :: "doc \<Rightarrow> yaml \<Rightarrow> doc" where
  "sample_sigma sel cnd = [(''title'', YStr ''Web shell''), (''id'', YStr ''abcd1234-0000''), (''status'', YStr ''stable''),
     (''level'', YStr ''high''),
     (''logsource'', YMap [(''category'', YStr ''process_creation''), (''product'', YStr ''linux'')]),
     (''detection'', YMap [(''selection'', YMap sel),
        (''filter'', YMap [(''Image|endswith'', YStr ''/opt/cgi/bash'')]), (CONDITION, cnd)])]"

definition sample_files :: "string \<Rightarrow> string list" where
  "sample_files d = (if d = ''rules'' then [''a.yml'', ''README.md''] else [])"

definition sample_load :: "doc \<Rightarrow> string \<Rightarrow> yaml option" where
  "sample_load r f = (if f = ''a.yml'' then Some (YMap r) else None)"

definition shell_event :: sigma_event where
  "shell_event = \<lparr>se_image = ''/usr/bin/Bash'', se_parent = ''/usr/sbin/nginx''\<rparr>"

definition shell_attrs :: attrs where
  "shell_attrs = no_attrs\<lparr>a_process_name := ''Bash'', a_chain := Some (StepChain
     [mk_chain_step ''process'' ''h:1:1'' ''nginx'' (Some 1), mk_chain_step ''process'' ''h:2:2'' ''Bash'' (Some 2)])\<rparr>"

definition compiled_of :: "doc \<Rightarrow> compilation" where
  "compiled_of r = (case main_compile default_options (sample_load r) sample_files of Inr c \<Rightarrow> c
     | Inl _ \<Rightarrow> \<lparr>co_rules = [], co_skipped = []\<rparr>)"

definition loaded_of :: "doc \<Rightarrow> rule_store" where
  "loaded_of r = (case load_rule_file [] (co_rules (compiled_of r)) empty_store of Inr (s, _) \<Rightarrow> s | Inl _ \<Rightarrow> empty_store)"

lemma sample_compiles:
  "main_compile default_options (sample_load (sample_sigma web_shell (YStr ''selection''))) sample_files
     = Inr (compiled_of (sample_sigma web_shell (YStr ''selection'')))" by code_simp

theorem compiled_rules_exact_witness:
  "distinct (map out_key (co_rules (compiled_of (sample_sigma web_shell (YStr ''selection'')))))"
  using compiled_rules_exact [OF sample_compiles] by blast

lemma sample_loads:
  "load_rule_file [] (co_rules (compiled_of (sample_sigma web_shell (YStr ''selection'')))) empty_store
     = Inr (loaded_of (sample_sigma web_shell (YStr ''selection'')), 2, 0)" by code_simp

theorem sigma_event_is_blocked_witness:
  "\<exists>d. is_blocked (\<lambda>p s. None) (loaded_of (sample_sigma web_shell (YStr ''selection''))) shell_attrs = Inr (True, d)"
proof -
  let ?r = "d_set ''_path'' (YStr ''a.yml'') (sample_sigma web_shell (YStr ''selection''))"
  let ?det = "[(''selection'', YMap web_shell), (''filter'', YMap [(''Image|endswith'', YStr ''/opt/cgi/bash'')]),
    (CONDITION, YStr ''selection'')]"
  have f: "''a.yml'' \<in> set (find_rules sample_files)" by code_simp
  have p: "parse_sigma_rule (sample_load (sample_sigma web_shell (YStr ''selection''))) ''a.yml'' = Some ?r" by code_simp
  have q: "filter_rule default_options ?r = Inr True" by code_simp
  have d: "get_doc ?r ''detection'' = Inr ?det" by code_simp
  have c: "d_get ?det CONDITION = Some (YStr ''selection'')" by code_simp
  have w: "is_word ''selection''" by code_simp
  have nc: "''selection'' \<noteq> CONDITION" by code_simp
  have b: "d_get ?det ''selection'' = Some (YMap web_shell)" by code_simp
  have t: "rule_tags ?r = Inr []" by code_simp
  have e: "path_ends web_shell" by code_simp
  have i: "has_field IMAGE_FIELDS web_shell" by code_simp
  have pa: "has_field PARENT_IMAGE_FIELDS web_shell \<or> py_lower (basename (se_image shell_event)) \<notin> set UNSCOPED_DANGER_BINARIES"
    by code_simp
  have fr: "\<forall>q \<in> set (co_rules (compiled_of (sample_sigma web_shell (YStr ''selection'')))). regex_free_rule (as_rule q)"
    by code_simp
  have h: "sigma_holds web_shell shell_event" by code_simp
  have "extract_chain_entries (the (a_chain shell_attrs)) =
      [] @ [\<lparr>entry_name = ''nginx'', entry_cmdline = [], entry_container = []\<rparr>, \<lparr>entry_name = ''Bash'', entry_cmdline = [], entry_container = []\<rparr>]"
    by code_simp
  moreover have "a_process_name shell_attrs = basename (se_image shell_event)" "a_process_name shell_attrs \<noteq> []"
    "a_chain shell_attrs \<noteq> None" by code_simp+
  moreover have "''nginx'' = basename (se_parent shell_event)" "''Bash'' = basename (se_image shell_event)" by code_simp+
  ultimately have v: "seen_as shell_event shell_attrs"
    unfolding seen_as_def by (metis chain_entry.select_convs(1) option.collapse)
  show ?thesis
    by (rule sigma_event_is_blocked [OF sample_compiles f p q d c w nc b t e i pa sample_loads fr h v])
qed

theorem reload_adds_nothing_witness:
  "load_rule_file [] (co_rules (compiled_of (sample_sigma web_shell (YStr ''selection''))))
     (loaded_of (sample_sigma web_shell (YStr ''selection''))) = Inr (loaded_of (sample_sigma web_shell (YStr ''selection'')), 0, 2)"
proof -
  have "store_inv empty_store" by (simp add: store_inv_def empty_store_def)
  moreover have "length (co_rules (compiled_of (sample_sigma web_shell (YStr ''selection'')))) = 2" by code_simp
  ultimately show ?thesis using reload_adds_nothing [OF _ sample_loads] by simp
qed

theorem negated_part_ignored_witness:
  "translate_rule (with_condition (excluding ''selection'' ''filter'') [(''selection'', YMap web_shell)] [])
     = translate_rule (with_condition ''selection'' [(''selection'', YMap web_shell)] [])"
  by (rule negated_part_ignored) code_simp+

text \<open>Three gaps of the compiler, on concrete files.  The shield compares the pattern as text, so a
  glob that matches \<open>bash\<close> passes it.  A list of conditions, which Sigma allows, ends the whole run.
  Two blocks joined by \<open>and\<close> with the same key keep the values of the second.\<close>

theorem shield_misses_globs:
  "(\<forall>o' \<in> set (co_rules (compiled_of (sample_sigma [(''Image|contains'', YStr ''bash'')] (YStr ''selection'')))).
      so_rule_type o' = ''process_name'' \<and> so_chain_filter o' = []
      \<and> match_rule (\<lambda>p s. None) (as_rule o') (no_attrs\<lparr>a_process_name := ''bash''\<rparr>) = Inr True)
    \<and> length (co_rules (compiled_of (sample_sigma [(''Image|contains'', YStr ''bash'')] (YStr ''selection'')))) = 1"
  by code_simp

theorem condition_list_aborts:
  "main_compile default_options (sample_load (sample_sigma web_shell (YList [YStr ''selection'']))) sample_files
     = Inl (AttributeError ''strip'')"
  by code_simp

lemma merged_blocks_keep_the_last:
  "merge_blocks [[(''Image|endswith'', YStr ''/a'')], [(''Image|endswith'', YStr ''/b'')]] = [(''Image|endswith'', YStr ''/b'')]"
  by code_simp

end
