(* ===== verification/Recorder.thy ===== *)
theory Recorder
  imports EntityExtractor
begin

text \<open>
  The two recorders every event passes before any filter: the forensic ledger
  (\<open>agent/ledger/writer.py\<close>) and the flight recorder (\<open>agent/flight_recorder.py\<close>, filled by
  \<open>_record_to_dvr\<close> of \<open>agent/main.py\<close>).  Both queue rows in memory and write them in batches from a
  thread of their own.  A step of that thread is a function of the clocks and of whether the
  database accepts the batch; the JSON columns hold the values they encode.
\<close>

section \<open>Queue and table\<close>

record 'r recorder =
  rc_queue :: "'r list"
  rc_rows :: "(int \<times> 'r) list"
  rc_seq :: int
  rc_last_prune :: int

definition new_recorder :: "int \<Rightarrow> 'r recorder" where
  "new_recorder clk = \<lparr>rc_queue = [], rc_rows = [], rc_seq = 0, rc_last_prune = clk\<rparr>"

text \<open>\<open>put_nowait\<close>: whether there was room.\<close>

definition put_nowait :: "nat \<Rightarrow> 'r \<Rightarrow> 'r recorder \<Rightarrow> bool \<times> 'r recorder" where
  "put_nowait room r s =
     (if length (rc_queue s) < room then (True, s\<lparr>rc_queue := rc_queue s @ [r]\<rparr>) else (False, s))"

definition drain_queue :: "nat \<Rightarrow> 'r recorder \<Rightarrow> 'r list \<times> 'r recorder" where
  "drain_queue chunk s = (take chunk (rc_queue s), s\<lparr>rc_queue := drop chunk (rc_queue s)\<rparr>)"

text \<open>\<open>executemany\<close> and \<open>commit\<close>; a failure is logged and the batch is gone.\<close>

definition insert_batch :: "bool \<Rightarrow> 'r list \<Rightarrow> 'r recorder \<Rightarrow> 'r recorder" where
  "insert_batch db_ok rs s =
     (if db_ok then s\<lparr>rc_rows := rc_rows s @ zip [rc_seq s + 1 .. rc_seq s + int (length rs)] rs,
                      rc_seq := rc_seq s + int (length rs)\<rparr>
      else s)"

definition prune_rows :: "('r \<Rightarrow> datetime) \<Rightarrow> datetime \<Rightarrow> 'r recorder \<Rightarrow> 'r recorder" where
  "prune_rows ts cutoff s = s\<lparr>rc_rows := filter (\<lambda>(_, r). \<not> ts r < cutoff) (rc_rows s)\<rparr>"

record 'r recorder_config =
  cf_room :: nat
  cf_chunk :: nat
  cf_ttl :: int
  cf_prune_interval :: int
  cf_ts :: "'r \<Rightarrow> datetime"

definition flush_queue :: "'r recorder_config \<Rightarrow> bool \<Rightarrow> 'r recorder \<Rightarrow> 'r recorder" where
  "flush_queue cf db_ok s = (let (rs, s) = drain_queue (cf_chunk cf) s in if rs \<noteq> [] then insert_batch db_ok rs s else s)"

definition maybe_prune :: "'r recorder_config \<Rightarrow> datetime \<Rightarrow> int \<Rightarrow> 'r recorder \<Rightarrow> 'r recorder" where
  "maybe_prune cf now clk s =
     (if clk - rc_last_prune s > cf_prune_interval cf
      then prune_rows (cf_ts cf) (now - cf_ttl cf) (s\<lparr>rc_last_prune := clk\<rparr>) else s)"

text \<open>One iteration of \<open>_writer_loop\<close>, and its end after \<open>stop\<close>.\<close>

definition writer_loop_step :: "'r recorder_config \<Rightarrow> bool \<Rightarrow> datetime \<Rightarrow> int \<Rightarrow> 'r recorder \<Rightarrow> 'r recorder" where
  "writer_loop_step cf db_ok now clk s = maybe_prune cf now clk (flush_queue cf db_ok s)"

definition stop_recorder :: "'r recorder_config \<Rightarrow> bool \<Rightarrow> 'r recorder \<Rightarrow> 'r recorder" where
  "stop_recorder cf db_ok s = flush_queue cf db_ok s"

section \<open>The forensic ledger\<close>

record ledger_row =
  lr_ts :: datetime
  lr_event_type :: string
  lr_hostname :: "string option"
  lr_pid :: "int option"
  lr_parent_pid :: "int option"
  lr_process_name :: "string option"
  lr_username :: "string option"
  lr_remote_ip :: "string option"
  lr_remote_port :: "int option"
  lr_ocsf :: ocsf_event
  lr_entities :: entities

definition ledger_config :: "nat \<Rightarrow> int \<Rightarrow> ledger_row recorder_config" where
  "ledger_config room ttl_hours = \<lparr>cf_room = room, cf_chunk = 512, cf_ttl = ttl_hours * 3600000000,
     cf_prune_interval = 60000000, cf_ts = lr_ts\<rparr>"

fun event_type_name :: "ocsf_event \<Rightarrow> string" where
  "event_type_name (ProcessActivity _) = ''ProcessActivity''"
| "event_type_name (NetworkActivity _) = ''NetworkActivity''"
| "event_type_name (Authentication _) = ''Authentication''"
| "event_type_name (DnsActivity _) = ''DnsActivity''"
| "event_type_name (FileActivity _) = ''FileActivity''"
| "event_type_name (RegistryActivity _) = ''RegistryActivity''"

fun event_process :: "ocsf_event \<Rightarrow> process_info option" where
  "event_process (ProcessActivity a) = Some (pa_process a)"
| "event_process (NetworkActivity a) = na_process a"
| "event_process (Authentication a) = None"
| "event_process (DnsActivity a) = da_process a"
| "event_process (FileActivity a) = fa_process a"
| "event_process (RegistryActivity a) = ra_process a"

fun event_hostname :: "ocsf_event \<Rightarrow> string" where
  "event_hostname (ProcessActivity a) = pa_device a"
| "event_hostname (NetworkActivity a) = na_device a"
| "event_hostname (Authentication a) = au_device a"
| "event_hostname (DnsActivity a) = da_device a"
| "event_hostname (FileActivity a) = fa_device a"
| "event_hostname (RegistryActivity a) = ra_device a"

fun event_dst :: "ocsf_event \<Rightarrow> network_endpoint option" where
  "event_dst (NetworkActivity a) = na_dst_endpoint a"
| "event_dst _ = None"

fun event_src :: "ocsf_event \<Rightarrow> network_endpoint option" where
  "event_src (NetworkActivity a) = na_src_endpoint a"
| "event_src (Authentication a) = au_src_endpoint a"
| "event_src _ = None"

definition str_or_none :: "string \<Rightarrow> string option" where
  "str_or_none s = (if s = [] then None else Some s)"

definition port_or_none :: "int \<Rightarrow> int option" where
  "port_or_none p = (if p = 0 then None else Some p)"

definition first_user :: "entities \<Rightarrow> string option" where
  "first_user e = (case users e of [] \<Rightarrow> None
     | u # _ \<Rightarrow> Some (case un_name u of Some n \<Rightarrow> if n \<noteq> [] then n else un_id u | None \<Rightarrow> un_id u))"

definition event_username :: "ocsf_event \<Rightarrow> entities \<Rightarrow> string option" where
  "event_username ev e = (if users e \<noteq> [] then first_user e
     else case ev of Authentication a \<Rightarrow> Some (ui_name (au_user a)) | _ \<Rightarrow> None)"

text \<open>\<open>dst_port\<close> of the first connection to an address.\<close>

definition edge_port :: "string \<Rightarrow> entities \<Rightarrow> int option" where
  "edge_port i e = map_option ce_dst_port (find (\<lambda>c. ce_ip_id c = i) (connected_edges e))"

definition remote_of :: "ocsf_event \<Rightarrow> entities \<Rightarrow> string option \<times> int option" where
  "remote_of ev e = (case ips e of
     ip # _ \<Rightarrow> (Some (ipn_address ip), edge_port (ipn_address ip) e)
   | [] \<Rightarrow> (case event_dst ev of
       Some d \<Rightarrow> (str_or_none (ne_ip d), port_or_none (ne_port d))
     | None \<Rightarrow> (case event_src ev of Some s \<Rightarrow> (str_or_none (ne_ip s), None) | None \<Rightarrow> (None, None))))"

definition ledger_row_of :: "ocsf_event \<Rightarrow> entities \<Rightarrow> ledger_row" where
  "ledger_row_of ev e = \<lparr>lr_ts = event_time ev, lr_event_type = event_type_name ev, lr_hostname = Some (event_hostname ev),
     lr_pid = map_option pi_pid (event_process ev), lr_parent_pid = Option.bind (event_process ev) pi_parent_pid,
     lr_process_name = map_option pi_name (event_process ev), lr_username = event_username ev e,
     lr_remote_ip = fst (remote_of ev e), lr_remote_port = snd (remote_of ev e), lr_ocsf = ev, lr_entities = e\<rparr>"

text \<open>\<open>LedgerWriter.record\<close>: a full queue is waited for up to a tenth of a second, in which the writer
  may (\<open>Some\<close>, with what its step sees) or may not have made room.\<close>

type_synonym writer_turn = "(bool \<times> datetime \<times> int) option"

definition ledger_record :: "ledger_row recorder_config \<Rightarrow> writer_turn \<Rightarrow> ocsf_event \<Rightarrow> entities
    \<Rightarrow> ledger_row recorder \<Rightarrow> bool \<times> ledger_row recorder" where
  "ledger_record cf turn ev e s =
     (let (ok, s1) = put_nowait (cf_room cf) (ledger_row_of ev e) s in
      if ok then (True, s1)
      else put_nowait (cf_room cf) (ledger_row_of ev e)
        (case turn of None \<Rightarrow> s | Some (db_ok, now, clk) \<Rightarrow> writer_loop_step cf db_ok now clk s))"

section \<open>The flight recorder\<close>

record flight_event =
  fv_timestamp :: datetime
  fv_event_type :: string
  fv_process_name :: "string option"
  fv_pid :: "int option"
  fv_username :: "string option"
  fv_cmd_line :: "string option"
  fv_remote_ip :: "string option"
  fv_remote_port :: "int option"

definition flight_config :: "int \<Rightarrow> flight_event recorder_config" where
  "flight_config ttl_hours = \<lparr>cf_room = 10000, cf_chunk = 256, cf_ttl = ttl_hours * 3600000000,
     cf_prune_interval = 60000000, cf_ts = fv_timestamp\<rparr>"

definition flight_record :: "flight_event recorder_config \<Rightarrow> flight_event \<Rightarrow> flight_event recorder \<Rightarrow> flight_event recorder" where
  "flight_record cf fe s = snd (put_nowait (cf_room cf) fe s)"

definition dvr_process :: "ocsf_event \<Rightarrow> entities \<Rightarrow> string option \<times> int option \<times> string option" where
  "dvr_process ev e = (case processes e of
     p # _ \<Rightarrow> (Some (pn_name p), Some (pn_pid p), pn_cmd_line p)
   | [] \<Rightarrow> (map_option pi_name (event_process ev), map_option pi_pid (event_process ev), map_option pi_cmd_line (event_process ev)))"

definition dvr_port :: "ocsf_event \<Rightarrow> entities \<Rightarrow> ip_node \<Rightarrow> int option" where
  "dvr_port ev e ip = (case edge_port (ipn_id ip) e of
     Some p \<Rightarrow> Some p
   | None \<Rightarrow> (case (case event_dst ev of None \<Rightarrow> event_src ev | Some d \<Rightarrow> Some d) of
       Some ep \<Rightarrow> port_or_none (ne_port ep) | None \<Rightarrow> None))"

definition dvr_event :: "datetime \<Rightarrow> ocsf_event \<Rightarrow> entities \<Rightarrow> flight_event" where
  "dvr_event now ev e = (case dvr_process ev e of (n, p, c) \<Rightarrow>
     \<lparr>fv_timestamp = now, fv_event_type = event_type_name ev, fv_process_name = n, fv_pid = p,
      fv_username = first_user e, fv_cmd_line = c, fv_remote_ip = None, fv_remote_port = None\<rparr>)"

definition dvr_events :: "datetime \<Rightarrow> ocsf_event \<Rightarrow> entities \<Rightarrow> flight_event list" where
  "dvr_events now ev e =
     (if event_type_name ev \<notin> set [''ProcessActivity'', ''NetworkActivity'', ''Authentication''] then []
      else if ips e \<noteq> [] then
        map (\<lambda>ip. (dvr_event now ev e)\<lparr>fv_remote_ip := Some (ipn_address ip), fv_remote_port := dvr_port ev e ip\<rparr>) (ips e)
      else [dvr_event now ev e])"

definition record_to_dvr :: "flight_event recorder_config \<Rightarrow> datetime \<Rightarrow> entities \<Rightarrow> ocsf_event
    \<Rightarrow> flight_event recorder \<Rightarrow> flight_event recorder" where
  "record_to_dvr cf now e ev s = fold (flight_record cf) (dvr_events now ev e) s"

section \<open>The contract of a recorder\<close>

text \<open>What the processor relies on: rows go in at the end while there is room, and a turn of the writer
  moves the oldest of them to the table.\<close>

datatype 'e recorder_op = Put 'e | Turn

locale append_log =
  fixes put :: "'e \<Rightarrow> 's \<Rightarrow> 's" and turn :: "'s \<Rightarrow> 's"
    and waiting :: "'s \<Rightarrow> 'e list" and stored :: "'s \<Rightarrow> 'e list"
    and room :: nat and chunk :: nat
  assumes put_waiting: "waiting (put e s) = (if length (waiting s) < room then waiting s @ [e] else waiting s)"
    and put_stored: "stored (put e s) = stored s"
    and turn_waiting: "waiting (turn s) = drop chunk (waiting s)"
    and turn_stored: "stored (turn s) = stored s @ take chunk (waiting s)"
begin

fun exec_op :: "'e recorder_op \<Rightarrow> 's \<Rightarrow> 's" where
  "exec_op (Put e) s = put e s"
| "exec_op Turn s = turn s"

text \<open>The events that found room.\<close>

fun taken :: "'e recorder_op list \<Rightarrow> 's \<Rightarrow> 'e list" where
  "taken [] s = []"
| "taken (Put e # ops) s = (if length (waiting s) < room then [e] else []) @ taken ops (put e s)"
| "taken (Turn # ops) s = taken ops (turn s)"

lemma log_is_append_only:
  "stored (fold exec_op ops s) @ waiting (fold exec_op ops s) = stored s @ waiting s @ taken ops s"
proof (induction ops arbitrary: s)
  case (Cons op ops)
  then show ?case
    by (cases op) (simp_all add: put_waiting put_stored turn_waiting turn_stored)
qed simp

lemma waiting_bounded: "length (waiting s) \<le> room \<Longrightarrow> length (waiting (fold exec_op ops s)) \<le> room"
proof (induction ops arbitrary: s)
  case (Cons op ops)
  have "length (waiting (exec_op op s)) \<le> room"
    using Cons.prems by (cases op) (simp_all add: put_waiting turn_waiting)
  then show ?case using Cons.IH by simp
qed simp

lemma turns:
  "stored ((turn ^^ k) s) = stored s @ take (k * chunk) (waiting s) \<and> waiting ((turn ^^ k) s) = drop (k * chunk) (waiting s)"
proof (induction k)
  case (Suc k)
  have "take (chunk + k * chunk) xs = take (k * chunk) xs @ take chunk (drop (k * chunk) xs)" for xs :: "'e list"
    by (metis add.commute take_add)
  with Suc show ?case by (simp add: turn_stored turn_waiting add.commute)
qed simp

lemma enough_turns: "length (waiting s) \<le> k * chunk \<Longrightarrow> stored ((turn ^^ k) s) = stored s @ waiting s \<and> waiting ((turn ^^ k) s) = []"
  by (simp add: turns)

text \<open>As many events as the queue has room for are all taken, whatever the writer does meanwhile.\<close>

lemma none_lost_within_room:
  "length (waiting s) + length (filter (\<lambda>op. op \<noteq> Turn) ops) \<le> room \<Longrightarrow>
     map Put (taken ops s) = filter (\<lambda>op. op \<noteq> Turn) ops"
proof (induction ops arbitrary: s)
  case (Cons op ops)
  show ?case
  proof (cases op)
    case (Put e)
    with Cons show ?thesis by (simp add: put_waiting)
  next
    case Turn
    with Cons.IH [of "turn s"] Cons.prems show ?thesis by (simp add: turn_waiting)
  qed
qed simp

end

section \<open>The recorders keep the contract\<close>

definition stored_rows :: "'r recorder \<Rightarrow> 'r list" where
  "stored_rows s = map snd (rc_rows s)"

lemma drop_Nil_take: "take n xs = [] \<Longrightarrow> drop n xs = xs"
  by (metis append_Nil append_take_drop_id)

lemma flush_queue_sel:
  "rc_queue (flush_queue cf ok s) = drop (cf_chunk cf) (rc_queue s)"
  "stored_rows (flush_queue cf ok s) = stored_rows s @ (if ok then take (cf_chunk cf) (rc_queue s) else [])"
  "rc_last_prune (flush_queue cf ok s) = rc_last_prune s"
  by (auto simp: flush_queue_def drain_queue_def insert_batch_def stored_rows_def Let_def)

lemma put_nowait_sel:
  "rc_queue (snd (put_nowait n r s)) = (if length (rc_queue s) < n then rc_queue s @ [r] else rc_queue s)"
  "stored_rows (snd (put_nowait n r s)) = stored_rows s"
  "fst (put_nowait n r s) = (length (rc_queue s) < n)"
  by (simp_all add: put_nowait_def stored_rows_def)

interpretation ledger_log: append_log "\<lambda>r s. snd (put_nowait (cf_room cf) r s)" "flush_queue cf True"
    rc_queue stored_rows "cf_room cf" "cf_chunk cf" for cf :: "ledger_row recorder_config"
  by unfold_locales (simp_all add: flush_queue_sel put_nowait_sel)

interpretation flight_log: append_log "flight_record cf" "flush_queue cf True"
    rc_queue stored_rows "cf_room cf" "cf_chunk cf" for cf :: "flight_event recorder_config"
  by unfold_locales (simp_all add: flush_queue_sel put_nowait_sel flight_record_def)

section \<open>Reachable ledgers\<close>

text \<open>A ledger together with all rows that \<open>record\<close> was called with, refused ones included.\<close>

inductive ledger_reach :: "ledger_row recorder_config \<Rightarrow> ledger_row recorder \<Rightarrow> ledger_row list \<Rightarrow> bool"
  for cf :: "ledger_row recorder_config" where
  start: "ledger_reach cf (new_recorder clk) []"
| recorded: "ledger_reach cf s h \<Longrightarrow> ledger_reach cf (snd (ledger_record cf turn ev e s)) (h @ [ledger_row_of ev e])"
| turned: "ledger_reach cf s h \<Longrightarrow> ledger_reach cf (writer_loop_step cf db_ok now clk s) h"

definition rows_ok :: "'r recorder \<Rightarrow> bool" where
  "rows_ok s \<longleftrightarrow> sorted_wrt (<) (map fst (rc_rows s)) \<and> (\<forall>i \<in> fst ` set (rc_rows s). i \<le> rc_seq s)"

lemma rows_ok_filter: "rows_ok s \<Longrightarrow> rc_rows s' = filter P (rc_rows s) \<Longrightarrow> rc_seq s' = rc_seq s \<Longrightarrow> rows_ok s'"
proof -
  have "sorted_wrt (<) (map fst xs) \<Longrightarrow> sorted_wrt (<) (map fst (filter P xs))" for xs
    by (induction xs) auto
  then show "rows_ok s \<Longrightarrow> rc_rows s' = filter P (rc_rows s) \<Longrightarrow> rc_seq s' = rc_seq s \<Longrightarrow> rows_ok s'"
    by (auto simp: rows_ok_def)
qed

lemma rows_ok_insert: "rows_ok s \<Longrightarrow> rows_ok (insert_batch ok rs s)"
  by (auto simp: rows_ok_def insert_batch_def sorted_wrt_append map_fst_zip_take dest!: set_zip_leftD)

lemma rows_ok_flush: "rows_ok s \<Longrightarrow> rows_ok (flush_queue cf ok s)"
proof -
  assume "rows_ok s"
  then have "rows_ok (s\<lparr>rc_queue := q\<rparr>)" for q by (simp add: rows_ok_def)
  then show ?thesis by (simp add: flush_queue_def drain_queue_def Let_def rows_ok_insert)
qed

lemma rows_ok_turn: "rows_ok s \<Longrightarrow> rows_ok (writer_loop_step cf ok now clk s)"
  unfolding writer_loop_step_def maybe_prune_def prune_rows_def
  by (auto intro: rows_ok_flush rows_ok_filter [OF rows_ok_flush])

lemma rows_ok_put: "rows_ok s \<Longrightarrow> rows_ok (snd (put_nowait n r s))"
  by (simp add: put_nowait_def rows_ok_def)

lemma stored_filter: "stored_rows (s\<lparr>rc_rows := filter P (rc_rows s)\<rparr>) = map snd (filter P (rc_rows s))"
  by (simp add: stored_rows_def)

lemma subseq_map_filter: "subseq (map f (filter P xs)) (map f xs)"
  by (intro subseq_map) simp

lemma turn_subseq: "subseq (stored_rows (writer_loop_step cf ok now clk s) @ rc_queue (writer_loop_step cf ok now clk s))
    (stored_rows s @ rc_queue s)"
proof -
  let ?s = "flush_queue cf ok s"
  have q: "rc_queue (writer_loop_step cf ok now clk s) = rc_queue ?s"
    by (simp add: writer_loop_step_def maybe_prune_def prune_rows_def)
  have "subseq (stored_rows (writer_loop_step cf ok now clk s)) (stored_rows ?s)"
    by (simp add: writer_loop_step_def maybe_prune_def prune_rows_def stored_rows_def subseq_map_filter)
  then have "subseq (stored_rows (writer_loop_step cf ok now clk s) @ rc_queue ?s) (stored_rows ?s @ rc_queue ?s)"
    by (simp add: subseq_append')
  moreover have "subseq (stored_rows ?s @ rc_queue ?s) (stored_rows s @ rc_queue s)"
  proof (cases ok)
    case True
    then show ?thesis by (simp add: flush_queue_sel)
  next
    case False
    have "subseq (drop (cf_chunk cf) (rc_queue s)) (rc_queue s)" by (simp add: suffix_drop suffix_imp_subseq)
    with False show ?thesis by (simp add: flush_queue_sel list_emb_append_mono)
  qed
  ultimately show ?thesis unfolding q by (rule subseq_order.order_trans)
qed

lemma put_subseq:
  assumes "subseq (stored_rows s @ rc_queue s) h"
  shows "subseq (stored_rows (snd (put_nowait n r s)) @ rc_queue (snd (put_nowait n r s))) (h @ [r])"
proof -
  have "subseq ((stored_rows s @ rc_queue s) @ [r]) (h @ [r])" using assms by (intro list_emb_append_mono) simp_all
  moreover have "subseq (stored_rows s @ rc_queue s) (h @ [r])" using assms by (rule list_emb_prefix)
  ultimately show ?thesis by (simp add: put_nowait_sel)
qed

lemma turn_queue: "length (rc_queue (writer_loop_step cf ok now clk s)) = length (rc_queue s) - cf_chunk cf"
  by (simp add: writer_loop_step_def maybe_prune_def prune_rows_def flush_queue_sel)

lemma put_queue: "length (rc_queue s) \<le> n \<Longrightarrow> length (rc_queue (snd (put_nowait n r s))) \<le> n"
  by (simp add: put_nowait_sel)

text \<open>Recording is one or two attempts to put, with a turn of the writer in between.\<close>

lemma record_cases:
  obtains "length (rc_queue s) < cf_room cf" "ledger_record cf turn ev e s = put_nowait (cf_room cf) (ledger_row_of ev e) s"
  | "\<not> length (rc_queue s) < cf_room cf" "turn = None" "ledger_record cf turn ev e s = (False, s)"
  | db_ok now clk where "\<not> length (rc_queue s) < cf_room cf" "turn = Some (db_ok, now, clk)"
      "ledger_record cf turn ev e s = put_nowait (cf_room cf) (ledger_row_of ev e) (writer_loop_step cf db_ok now clk s)"
proof (cases "length (rc_queue s) < cf_room cf")
  case True
  then show ?thesis using that(1) by (simp add: ledger_record_def put_nowait_def)
next
  case False
  then show ?thesis using that(2,3) by (cases turn) (auto simp: ledger_record_def put_nowait_def)
qed

section \<open>Properties\<close>

text \<open>C23. Whatever recording, writing, pruning and failing statements happen in whatever order, the ledger
  holds the rows it was given in the order it was given them, none twice, under increasing ids, and
  its queue stays within its bound.\<close>

theorem ledger_keeps_order:
  assumes "ledger_reach cf s h"
  shows "subseq (stored_rows s @ rc_queue s) h \<and> rows_ok s \<and> length (rc_queue s) \<le> cf_room cf"
  using assms
proof induction
  case (start clk)
  then show ?case by (simp add: new_recorder_def stored_rows_def rows_ok_def)
next
  case (recorded s h turn ev e)
  then have IH: "subseq (stored_rows s @ rc_queue s) h" "rows_ok s" "length (rc_queue s) \<le> cf_room cf" by auto
  show ?case
  proof (cases rule: record_cases [of s cf turn ev e])
    case 1
    with put_subseq [OF IH(1)] rows_ok_put [OF IH(2)] put_queue [OF IH(3)] show ?thesis by simp
  next
    case 2
    with IH show ?thesis by (simp add: list_emb_prefix)
  next
    case (3 db_ok now clk)
    let ?t = "writer_loop_step cf db_ok now clk s"
    have "subseq (stored_rows ?t @ rc_queue ?t) h" using turn_subseq IH(1) by (rule subseq_order.order_trans)
    moreover have "length (rc_queue ?t) \<le> cf_room cf" using IH(3) by (simp add: turn_queue)
    ultimately show ?thesis
      using 3 put_subseq [of ?t h] rows_ok_put [OF rows_ok_turn [OF IH(2)]] put_queue [of ?t] by simp
  qed
next
  case (turned s h db_ok now clk)
  then have IH: "subseq (stored_rows s @ rc_queue s) h" "rows_ok s" "length (rc_queue s) \<le> cf_room cf" by auto
  from subseq_order.order_trans [OF turn_subseq IH(1)] rows_ok_turn [OF IH(2)] IH(3) show ?case
    by (simp add: turn_queue)
qed

lemma reach_rows_ok: "ledger_reach cf s h \<Longrightarrow> rows_ok s"
proof (induction rule: ledger_reach.induct)
  case (start clk)
  then show ?case by (simp add: new_recorder_def rows_ok_def)
next
  case (recorded s h turn ev e)
  then show ?case
    by (cases rule: record_cases [of s cf turn ev e]) (simp_all add: rows_ok_put rows_ok_turn)
next
  case (turned s h db_ok now clk)
  then show ?case by (simp add: rows_ok_turn)
qed

text \<open>The ledger refuses a row exactly when the queue is full and the writer does not get a turn within
  the wait.\<close>

theorem ledger_drops_when_full:
  assumes "0 < cf_room cf" "0 < cf_chunk cf" "length (rc_queue s) \<le> cf_room cf"
  shows "\<not> fst (ledger_record cf turn ev e s) \<longleftrightarrow> length (rc_queue s) = cf_room cf \<and> turn = None"
proof (cases rule: record_cases [of s cf turn ev e])
  case 1
  then show ?thesis by (simp add: put_nowait_sel)
next
  case 2
  with assms(3) show ?thesis by simp
next
  case (3 db_ok now clk)
  then show ?thesis using assms by (simp add: put_nowait_sel turn_queue)
qed

text \<open>As long as the database accepts its batches and no waiting row is older than the retention, every
  queued row is in the table after one turn for each 512 of them.\<close>

lemma turn_keeps_fresh:
  assumes "\<forall>r \<in> set (stored_rows s @ rc_queue s). now - cf_ttl cf \<le> cf_ts cf r"
  shows "stored_rows (writer_loop_step cf True now clk s) = stored_rows s @ take (cf_chunk cf) (rc_queue s)
    \<and> rc_queue (writer_loop_step cf True now clk s) = drop (cf_chunk cf) (rc_queue s)"
proof -
  let ?s = "flush_queue cf True s"
  have sub: "set (take (cf_chunk cf) (rc_queue s)) \<subseteq> set (rc_queue s)" by (rule set_take_subset)
  have "\<forall>r \<in> set (stored_rows ?s). now - cf_ttl cf \<le> cf_ts cf r"
    using assms sub by (auto simp: flush_queue_sel)
  then have "\<forall>(i, r) \<in> set (rc_rows ?s). \<not> cf_ts cf r < now - cf_ttl cf"
    by (force simp: stored_rows_def)
  then have "filter (\<lambda>(_, r). \<not> cf_ts cf r < now - cf_ttl cf) (rc_rows ?s) = rc_rows ?s"
    by (intro filter_True) auto
  then have "stored_rows (maybe_prune cf now clk ?s) = stored_rows ?s"
    by (simp add: maybe_prune_def prune_rows_def stored_rows_def)
  moreover have "rc_queue (maybe_prune cf now clk ?s) = rc_queue ?s" by (simp add: maybe_prune_def prune_rows_def)
  ultimately show ?thesis unfolding writer_loop_step_def by (simp add: flush_queue_sel)
qed

theorem ledger_writes_everything:
  assumes "length (rc_queue s) \<le> length turns * cf_chunk cf"
    and "\<forall>(now, clk) \<in> set turns. \<forall>r \<in> set (stored_rows s @ rc_queue s). now - cf_ttl cf \<le> cf_ts cf r"
  shows "stored_rows (fold (\<lambda>(now, clk). writer_loop_step cf True now clk) turns s) = stored_rows s @ rc_queue s
    \<and> rc_queue (fold (\<lambda>(now, clk). writer_loop_step cf True now clk) turns s) = []"
  using assms
proof (induction turns arbitrary: s)
  case (Cons t turns)
  obtain now clk where t: "t = (now, clk)" by (cases t)
  let ?s = "writer_loop_step cf True now clk s"
  have s: "stored_rows ?s = stored_rows s @ take (cf_chunk cf) (rc_queue s)" "rc_queue ?s = drop (cf_chunk cf) (rc_queue s)"
    using turn_keeps_fresh [of s now cf clk] Cons.prems(2) t by auto
  have all: "stored_rows ?s @ rc_queue ?s = stored_rows s @ rc_queue s" by (simp add: s)
  from Cons.IH [of ?s, unfolded all] Cons.prems s(2) show ?case by (simp add: t)
qed simp

text \<open>\<open>stop\<close> promises to flush what remains, but it writes one batch: of a longer queue everything after
  the first 512 rows is lost.\<close>

theorem stop_loses_backlog:
  assumes "512 < length (rc_queue s)"
  shows "stored_rows (stop_recorder (ledger_config room ttl) True s) = stored_rows s @ take 512 (rc_queue s)
    \<and> drop 512 (rc_queue s) \<noteq> []"
  using assms by (simp add: stop_recorder_def flush_queue_sel ledger_config_def)

definition small_ledger :: "ledger_row recorder_config" where
  "small_ledger = ledger_config 2 24"

definition recorded_dns :: "ledger_row recorder" where
  "recorded_dns = snd (ledger_record small_ledger None sample_dns empty_entities (new_recorder 0))"

lemma recorded_dns_reach: "ledger_reach small_ledger recorded_dns [ledger_row_of sample_dns empty_entities]"
  unfolding recorded_dns_def
  by (rule ledger_reach.recorded [OF ledger_reach.start, of _ _ _ _ _, simplified append_Nil])

theorem ledger_keeps_order_witness:
  "rows_ok recorded_dns \<and> length (rc_queue recorded_dns) \<le> 2"
  using ledger_keeps_order [OF recorded_dns_reach] by (simp add: small_ledger_def ledger_config_def)

theorem ledger_drops_when_full_witness:
  "\<not> fst (ledger_record small_ledger None sample_dns empty_entities
       (recorded_dns\<lparr>rc_queue := rc_queue recorded_dns @ rc_queue recorded_dns\<rparr>))"
proof -
  have "cf_room small_ledger = 2" "cf_chunk small_ledger = 512" by (simp_all add: small_ledger_def ledger_config_def)
  moreover have "length (rc_queue recorded_dns) = 1" by code_simp
  ultimately show ?thesis
    using ledger_drops_when_full [of small_ledger "recorded_dns\<lparr>rc_queue := rc_queue recorded_dns @ rc_queue recorded_dns\<rparr>" None]
    by simp
qed

theorem ledger_writes_everything_witness:
  "stored_rows (writer_loop_step small_ledger True 9000001 5 recorded_dns) = [ledger_row_of sample_dns empty_entities]"
proof -
  have q: "rc_queue recorded_dns = [ledger_row_of sample_dns empty_entities]" "stored_rows recorded_dns = []" by code_simp+
  have t: "cf_ttl small_ledger = 86400000000" "cf_ts small_ledger = lr_ts" "cf_chunk small_ledger = 512"
    by (simp_all add: small_ledger_def ledger_config_def)
  have "lr_ts (ledger_row_of sample_dns empty_entities) = 9000000" by (simp add: ledger_row_of_def sample_dns_def)
  then show ?thesis
    using ledger_writes_everything [of recorded_dns "[(9000001, 5)]" small_ledger] by (simp add: q t)
qed

theorem stop_loses_backlog_witness:
  "length (stored_rows (stop_recorder (ledger_config 50000 24) True
     ((new_recorder 0)\<lparr>rc_queue := replicate 600 (ledger_row_of sample_dns empty_entities)\<rparr>))) = 512"
proof -
  let ?s = "(new_recorder 0)\<lparr>rc_queue := replicate 600 (ledger_row_of sample_dns empty_entities)\<rparr>"
  have "512 < length (rc_queue ?s)" by simp
  from stop_loses_backlog [OF this, of 50000 24] show ?thesis by (simp add: stored_rows_def new_recorder_def)
qed

end
