(* ===== verification/LedgerQuery.thy ===== *)
theory LedgerQuery
  imports Recorder PidIndex EventQueue
begin

text \<open>
  Reading the recorders: the queries of \<open>agent/ledger/reader.py\<close> and of the flight recorder, and the
  requests of the fleet server that use them (\<open>agent/graph/federated_queries.py\<close>).  Rows of equal
  time come in the order of the table; the code states no order.  The order in which Python walks a
  set of pids is a parameter.
\<close>

section \<open>Queries of the ledger\<close>

definition by_newest :: "('a \<Rightarrow> datetime) \<Rightarrow> 'a list \<Rightarrow> 'a list" where
  "by_newest ts xs = sort_key (\<lambda>x. - ts x) xs"

text \<open>\<open>SELECT \<dots> WHERE \<dots> ORDER BY ts DESC LIMIT n\<close>.\<close>

definition select_newest :: "('r \<Rightarrow> datetime) \<Rightarrow> ('r \<Rightarrow> bool) \<Rightarrow> int \<Rightarrow> 'r recorder \<Rightarrow> (int \<times> 'r) list" where
  "select_newest ts P n s = sql_limit n (by_newest (\<lambda>r. ts (snd r)) (filter (\<lambda>r. P (snd r)) (rc_rows s)))"

definition query_time_range :: "datetime \<Rightarrow> datetime \<Rightarrow> string list \<Rightarrow> int \<Rightarrow> ledger_row recorder \<Rightarrow> (int \<times> ledger_row) list" where
  "query_time_range start end types n s = select_newest lr_ts
     (\<lambda>r. start \<le> lr_ts r \<and> lr_ts r \<le> end \<and> (types = [] \<or> lr_event_type r \<in> set types)) n s"

definition after :: "datetime option \<Rightarrow> datetime \<Rightarrow> bool" where
  "after since t = (case since of None \<Rightarrow> True | Some b \<Rightarrow> b \<le> t)"

definition query_by_pid :: "int \<Rightarrow> datetime option \<Rightarrow> int \<Rightarrow> ledger_row recorder \<Rightarrow> (int \<times> ledger_row) list" where
  "query_by_pid p since n s = select_newest lr_ts (\<lambda>r. lr_pid r = Some p \<and> after since (lr_ts r)) n s"

definition query_by_ip :: "string \<Rightarrow> datetime option \<Rightarrow> int \<Rightarrow> ledger_row recorder \<Rightarrow> (int \<times> ledger_row) list" where
  "query_by_ip a since n s = select_newest lr_ts (\<lambda>r. lr_remote_ip r = Some a \<and> after since (lr_ts r)) n s"

record ledger_stats =
  ls_row_count :: nat
  ls_oldest_ts :: "datetime option"
  ls_newest_ts :: "datetime option"

definition get_stats :: "ledger_row recorder \<Rightarrow> ledger_stats" where
  "get_stats s = (let ts = map lr_ts (stored_rows s) in
     \<lparr>ls_row_count = length ts, ls_oldest_ts = if ts = [] then None else Some (Min (set ts)),
      ls_newest_ts = if ts = [] then None else Some (Max (set ts))\<rparr>)"

definition iter_entities :: "datetime \<Rightarrow> datetime \<Rightarrow> ledger_row recorder \<Rightarrow> entities list" where
  "iter_entities start end s =
     map lr_entities (sort_key lr_ts (filter (\<lambda>r. start \<le> lr_ts r \<and> lr_ts r \<le> end) (stored_rows s)))"

section \<open>Queries of the flight recorder\<close>

definition UID_ALIASES :: "(string, string list) dict" where
  "UID_ALIASES = [(''root'', [''0'']), (''0'', [''root'']), (''nobody'', [''65534'']), (''65534'', [''nobody''])]"

definition SQUELCH_PROCESS_NAMES :: "string list" where
  "SQUELCH_PROCESS_NAMES = [''kworker/%'']"

definition SQUELCH_EXACT_NAMES :: "string list" where
  "SQUELCH_EXACT_NAMES = [''containerd-shim-runc-v2'', ''docker-proxy'', ''sleep'', ''watchdog.sh'', ''runningboardd'',
     ''com.apple.WebKit.Networking'', ''Mail'', ''healthcheck.sh'', ''cypher-shell'', ''java'', ''check_dns.sh'', ''dockerd'']"

text \<open>SQL's \<open>LIKE\<close>, which ignores the case of ASCII letters.\<close>

fun sql_like :: "string \<Rightarrow> string \<Rightarrow> bool" where
  "sql_like [] s = (s = [])"
| "sql_like (p # ps) [] = (p = CHR ''%'' \<and> sql_like ps [])"
| "sql_like (p # ps) (c # cs) =
     (if p = CHR ''%'' then sql_like ps (c # cs) \<or> sql_like (p # ps) cs
      else (p = CHR ''_'' \<or> lower_char p = lower_char c) \<and> sql_like ps cs)"

definition squelched :: "flight_event \<Rightarrow> bool" where
  "squelched e = (case fv_process_name e of None \<Rightarrow> False
     | Some n \<Rightarrow> list_ex (\<lambda>p. sql_like p n) SQUELCH_PROCESS_NAMES \<or> n \<in> set SQUELCH_EXACT_NAMES)"

definition user_matches :: "string \<Rightarrow> flight_event \<Rightarrow> bool" where
  "user_matches u e \<longleftrightarrow> u = [] \<or> (\<exists>v \<in> set (u # d_get_or UID_ALIASES u []). fv_username e = Some v)"

definition ip_matches :: "string \<Rightarrow> flight_event \<Rightarrow> bool" where
  "ip_matches a e \<longleftrightarrow> a = [] \<or> fv_remote_ip e = Some a"

definition pid_matches :: "int list \<Rightarrow> flight_event \<Rightarrow> bool" where
  "pid_matches ps e \<longleftrightarrow> ps = [] \<or> (\<exists>p \<in> set ps. fv_pid e = Some p)"

text \<open>An argument that is \<open>None\<close>, empty or zero sets no condition.\<close>

definition since_matches :: "datetime option \<Rightarrow> flight_event \<Rightarrow> bool" where
  "since_matches since e \<longleftrightarrow> (case since of None \<Rightarrow> True | Some b \<Rightarrow> b = 0 \<or> b \<le> fv_timestamp e)"

definition flight_query :: "string \<Rightarrow> string \<Rightarrow> int list \<Rightarrow> datetime option \<Rightarrow> int \<Rightarrow> flight_event recorder \<Rightarrow> (int \<times> flight_event) list" where
  "flight_query ip user pids since n s = select_newest fv_timestamp
     (\<lambda>e. ip_matches ip e \<and> user_matches user e \<and> pid_matches pids e \<and> since_matches since e \<and> \<not> squelched e) n s"

section \<open>Descendants of a process\<close>

text \<open>One round of the search: the set found so far and the next frontier, in the order of discovery.
  A full result ends both loops.\<close>

fun add_children :: "nat \<Rightarrow> int list \<Rightarrow> int list \<times> int list \<Rightarrow> int list \<times> int list" where
  "add_children cap [] (res, next) = (res, next)"
| "add_children cap (c # cs) (res, next) =
     (if c \<in> set res then add_children cap cs (res, next)
      else if cap \<le> length (res @ [c]) then (res @ [c], next @ [c])
      else add_children cap cs (res @ [c], next @ [c]))"

fun expand_frontier :: "nat \<Rightarrow> (int \<Rightarrow> int list) \<Rightarrow> int list \<Rightarrow> int list \<times> int list \<Rightarrow> int list \<times> int list" where
  "expand_frontier cap children [] st = st"
| "expand_frontier cap children (p # ps) st =
     (let st' = add_children cap (children p) st
      in if cap \<le> length (fst st') then st' else expand_frontier cap children ps st')"

fun descend :: "nat \<Rightarrow> nat \<Rightarrow> (int \<Rightarrow> int list) \<Rightarrow> int list \<Rightarrow> int list \<Rightarrow> int list" where
  "descend 0 cap children res frontier = res"
| "descend (Suc depth) cap children res frontier =
     (if cap \<le> length res then res
      else case expand_frontier cap children frontier (res, []) of (res', next) \<Rightarrow>
        if next = [] then res' else descend depth cap children res' next)"

definition resolve_descendant_pids :: "(int set \<Rightarrow> int list) \<Rightarrow> pid_index \<Rightarrow> int list \<Rightarrow> int list" where
  "resolve_descendant_pids order ix anchors =
     (if anchors = [] \<or> \<not> built ix then anchors
      else descend 10 200 (\<lambda>p. order (get_children_pids ix p)) (dedup anchors) (dedup anchors))"

section \<open>Requests of the fleet server\<close>

record pull_params =
  pp_anchor_pids :: "int list"
  pp_ips :: "string list"
  pp_usernames :: "string list"
  pp_since :: "datetime option"
  pp_limit :: int

text \<open>\<open>xs[:n]\<close>.\<close>

definition slice_to :: "int \<Rightarrow> 'a list \<Rightarrow> 'a list" where
  "slice_to n xs = (if 0 \<le> n then take (nat n) xs else take (length xs - nat (- n)) xs)"

fun dedup_ids :: "int set \<Rightarrow> (int \<times> 'r) list \<Rightarrow> (int \<times> 'r) list" where
  "dedup_ids seen [] = []"
| "dedup_ids seen (r # rs) = (if fst r \<in> seen then dedup_ids seen rs else r # dedup_ids (insert (fst r) seen) rs)"

definition merge_records :: "('r \<Rightarrow> datetime) \<Rightarrow> int \<Rightarrow> (int \<times> 'r) list \<Rightarrow> (int \<times> 'r) list" where
  "merge_records ts n rs = slice_to n (by_newest (\<lambda>r. ts (snd r)) (dedup_ids {} rs))"

text \<open>\<open>pull_surveillance_logs\<close> and \<open>pull_ocsf_ledger\<close> on the ledger; they differ in the columns they
  return.  \<open>LedgerReader\<close> has no \<open>query_by_username\<close>, for which the second one asks with
  \<open>hasattr\<close>.\<close>

definition range_start :: "datetime \<Rightarrow> datetime option \<Rightarrow> datetime" where
  "range_start now since = (case since of Some b \<Rightarrow> if b \<noteq> 0 then b else now - 3600000000 | None \<Rightarrow> now - 3600000000)"

definition ledger_records :: "(int set \<Rightarrow> int list) \<Rightarrow> pid_index \<Rightarrow> datetime \<Rightarrow> pull_params \<Rightarrow> ledger_row recorder \<Rightarrow> (int \<times> ledger_row) list" where
  "ledger_records order ix now q s =
     concat (map (\<lambda>p. query_by_pid p (pp_since q) (pp_limit q) s) (resolve_descendant_pids order ix (pp_anchor_pids q)))
     @ concat (map (\<lambda>a. query_by_ip a (pp_since q) (pp_limit q) s) (pp_ips q))
     @ (if pp_anchor_pids q = [] \<and> pp_ips q = [] \<and> pp_usernames q = []
        then query_time_range (range_start now (pp_since q)) now [] (pp_limit q) s else [])"

definition pull_ledger :: "(int set \<Rightarrow> int list) \<Rightarrow> pid_index \<Rightarrow> datetime \<Rightarrow> pull_params \<Rightarrow> ledger_row recorder \<Rightarrow> (int \<times> ledger_row) list" where
  "pull_ledger order ix now q s = merge_records lr_ts (pp_limit q) (ledger_records order ix now q s)"

definition flight_records :: "(int set \<Rightarrow> int list) \<Rightarrow> pid_index \<Rightarrow> pull_params \<Rightarrow> flight_event recorder \<Rightarrow> (int \<times> flight_event) list" where
  "flight_records order ix q s =
     (let ps = resolve_descendant_pids order ix (pp_anchor_pids q)
      in if ps = [] then [] else flight_query [] [] ps (pp_since q) (pp_limit q) s)
     @ concat (map (\<lambda>a. flight_query a [] [] (pp_since q) (pp_limit q) s) (pp_ips q))
     @ concat (map (\<lambda>u. flight_query [] u [] (pp_since q) (pp_limit q) s) (pp_usernames q))"

definition pull_from_flight_recorder :: "(int set \<Rightarrow> int list) \<Rightarrow> pid_index \<Rightarrow> pull_params \<Rightarrow> flight_event recorder \<Rightarrow> (int \<times> flight_event) list" where
  "pull_from_flight_recorder order ix q s = merge_records fv_timestamp (pp_limit q) (flight_records order ix q s)"

datatype pulled = LedgerRecords "(int \<times> ledger_row) list" | FlightRecords "(int \<times> flight_event) list" | NoBackend

definition pull_surveillance_logs :: "(int set \<Rightarrow> int list) \<Rightarrow> pid_index \<Rightarrow> datetime \<Rightarrow> ledger_row recorder option
    \<Rightarrow> flight_event recorder option \<Rightarrow> pull_params \<Rightarrow> pulled" where
  "pull_surveillance_logs order ix now ledger flight q = (case ledger of
     Some s \<Rightarrow> LedgerRecords (pull_ledger order ix now q s)
   | None \<Rightarrow> (case flight of Some f \<Rightarrow> FlightRecords (pull_from_flight_recorder order ix q f) | None \<Rightarrow> NoBackend))"

definition pull_ocsf_ledger :: "(int set \<Rightarrow> int list) \<Rightarrow> pid_index \<Rightarrow> datetime \<Rightarrow> ledger_row recorder option \<Rightarrow> pull_params \<Rightarrow> pulled" where
  "pull_ocsf_ledger order ix now ledger q = (case ledger of
     Some s \<Rightarrow> LedgerRecords (pull_ledger order ix now q s) | None \<Rightarrow> NoBackend)"

section \<open>The newest rows\<close>

lemma set_by_newest [simp]: "set (by_newest f xs) = set xs"
  by (simp add: by_newest_def)

lemma distinct_by_newest [simp]: "distinct (by_newest f xs) = distinct xs"
  by (simp add: by_newest_def)

lemma length_by_newest [simp]: "length (by_newest f xs) = length xs"
  by (simp add: by_newest_def)

lemma sorted_by_newest: "sorted_wrt (\<lambda>x y. f y \<le> f x) (by_newest f xs)"
proof -
  have "sorted (map (\<lambda>x. - f x) (by_newest f xs))" by (simp add: by_newest_def)
  then show ?thesis by (simp add: sorted_wrt_map)
qed

text \<open>What is cut off is not newer than what is kept, and something is cut off only from a full list.\<close>

lemma cut_is_older:
  assumes "x \<in> set xs" "x \<notin> set (take n (by_newest f xs))"
  shows "length (take n (by_newest f xs)) = n \<and> (\<forall>y \<in> set (take n (by_newest f xs)). f x \<le> f y)"
proof -
  let ?ys = "by_newest f xs"
  have "x \<in> set (take n ?ys) \<union> set (drop n ?ys)"
    using assms(1) by (metis append_take_drop_id set_append set_by_newest)
  with assms(2) have x: "x \<in> set (drop n ?ys)" by blast
  then have "n \<le> length ?ys" by (metis drop_all empty_iff linorder_le_cases list.set(1))
  moreover have "sorted_wrt (\<lambda>x y. f y \<le> f x) (take n ?ys @ drop n ?ys)" using sorted_by_newest by simp
  ultimately show ?thesis using x unfolding sorted_wrt_append by simp
qed

definition identified :: "(int \<times> 'r) set \<Rightarrow> bool" where
  "identified A \<longleftrightarrow> (\<forall>x \<in> A. \<forall>y \<in> A. fst x = fst y \<longrightarrow> x = y)"

lemma identified_sub: "A \<subseteq> B \<Longrightarrow> identified B \<Longrightarrow> identified A"
  unfolding identified_def by blast

lemma dedup_ids_spec:
  "identified (set rs) \<Longrightarrow> set (dedup_ids seen rs) = {r \<in> set rs. fst r \<notin> seen} \<and> distinct (dedup_ids seen rs)"
proof (induction rs arbitrary: seen)
  case (Cons r rs)
  have id: "identified (set rs)" using Cons.prems by (simp add: identified_def)
  have same: "x \<in> set rs \<Longrightarrow> fst x = fst r \<Longrightarrow> x = r" for x using Cons.prems by (auto simp: identified_def)
  show ?case
    using Cons.IH [OF id, of seen] Cons.IH [OF id, of "insert (fst r) seen"] same
    by (cases "fst r \<in> seen") auto
qed simp

lemma dedup_ids_all: "identified (set rs) \<Longrightarrow> set (dedup_ids {} rs) = set rs"
  by (simp add: dedup_ids_spec)

lemma select_newest_sub: "set (select_newest ts P n s) \<subseteq> {r \<in> set (rc_rows s). P (snd r)}"
  by (auto simp: select_newest_def sql_limit_def dest: in_set_takeD)

lemma distinct_rows: "rows_ok s \<Longrightarrow> distinct (rc_rows s) \<and> identified (set (rc_rows s))"
proof -
  assume "rows_ok s"
  then have d: "distinct (map fst (rc_rows s))" by (simp add: rows_ok_def strict_sorted_iff)
  then have "distinct (rc_rows s)" by (simp add: distinct_map)
  moreover have "identified (set (rc_rows s))" using d by (auto simp: identified_def dest: eq_key_imp_eq_value)
  ultimately show ?thesis ..
qed

text \<open>Several queries, each with the limit of the whole, merged: the result is the newest rows that any of
  the queries asks for.\<close>

definition merged :: "('r \<Rightarrow> datetime) \<Rightarrow> ('r \<Rightarrow> bool) list \<Rightarrow> int \<Rightarrow> 'r recorder \<Rightarrow> (int \<times> 'r) list" where
  "merged ts Ps n s = merge_records ts n (concat (map (\<lambda>P. select_newest ts P n s) Ps))"

lemma slice_to_sub: "set (slice_to n xs) \<subseteq> set xs"
  by (simp add: slice_to_def set_take_subset)

lemma merged_sub:
  assumes "rows_ok s"
  shows "set (merged ts Ps n s) \<subseteq> {r \<in> set (rc_rows s). \<exists>P \<in> set Ps. P (snd r)}"
proof -
  let ?rs = "concat (map (\<lambda>P. select_newest ts P n s) Ps)"
  have rs: "set ?rs \<subseteq> {r \<in> set (rc_rows s). \<exists>P \<in> set Ps. P (snd r)}"
  proof
    fix r assume "r \<in> set ?rs"
    then obtain P where "P \<in> set Ps" "r \<in> set (select_newest ts P n s)" by auto
    with select_newest_sub [of ts P n s] show "r \<in> {r \<in> set (rc_rows s). \<exists>P \<in> set Ps. P (snd r)}" by blast
  qed
  then have "set ?rs \<subseteq> set (rc_rows s)" by blast
  then have "identified (set ?rs)" using distinct_rows [OF assms] identified_sub by blast
  then have d: "set (dedup_ids {} ?rs) = set ?rs" by (rule dedup_ids_all)
  have "set (merged ts Ps n s) \<subseteq> set (by_newest (\<lambda>r. ts (snd r)) (dedup_ids {} ?rs))"
    unfolding merged_def merge_records_def by (rule slice_to_sub)
  then have "set (merged ts Ps n s) \<subseteq> set ?rs" unfolding set_by_newest d .
  with rs show ?thesis by (rule order_trans [rotated])
qed

lemma merged_newest:
  assumes ok: "rows_ok s" and n: "0 \<le> n" and r: "r \<in> set (rc_rows s)" "P \<in> set Ps" "P (snd r)"
    and out: "r \<notin> set (merged ts Ps n s)"
  shows "length (merged ts Ps n s) = nat n \<and> (\<forall>q \<in> set (merged ts Ps n s). ts (snd r) \<le> ts (snd q))"
proof -
  let ?f = "\<lambda>r. ts (snd r)"
  let ?rs = "concat (map (\<lambda>P. select_newest ts P n s) Ps)"
  let ?d = "dedup_ids {} ?rs"
  let ?m = "merged ts Ps n s"
  have rows: "set ?rs \<subseteq> set (rc_rows s)" using select_newest_sub [of ts _ n s] by fastforce
  then have "identified (set ?rs)" using distinct_rows [OF ok] identified_sub by blast
  then have d: "set ?d = set ?rs" "distinct ?d" using dedup_ids_spec [of ?rs "{}"] by auto
  have m: "?m = take (nat n) (by_newest ?f ?d)" using n by (simp add: merged_def merge_records_def slice_to_def)
  have dm: "distinct ?m" using d(2) by (simp add: m)
  show ?thesis
  proof (cases "r \<in> set ?rs")
    case True
    then show ?thesis using cut_is_older [of r ?d "nat n" ?f] d(1) out unfolding m by simp
  next
    case False
    let ?l = "select_newest ts P n s"
    have l: "?l = take (nat n) (by_newest ?f (filter (\<lambda>r. P (snd r)) (rc_rows s)))"
      using n by (simp add: select_newest_def sql_limit_def)
    have "set ?l \<subseteq> set ?rs" using r(2) by auto
    with False have "r \<notin> set ?l" by blast
    moreover have "r \<in> set (filter (\<lambda>r. P (snd r)) (rc_rows s))" using r by simp
    ultimately have ln: "length ?l = nat n" "\<forall>y \<in> set ?l. ?f r \<le> ?f y"
      using cut_is_older [of r "filter (\<lambda>r. P (snd r)) (rc_rows s)" "nat n" ?f] unfolding l by blast+
    have ld: "distinct ?l" using distinct_rows [OF ok] by (simp add: l)
    have lin: "set ?l \<subseteq> set ?d" using d(1) \<open>set ?l \<subseteq> set ?rs\<close> by simp
    have "nat n \<le> length ?d" using card_mono [OF _ lin] ln(1) ld d(2) by (simp add: distinct_card)
    then have len: "length ?m = nat n" by (simp add: m)
    moreover have "?f r \<le> ?f q" if q: "q \<in> set ?m" for q
    proof (rule ccontr)
      assume "\<not> ?f r \<le> ?f q"
      then have lt: "\<forall>y \<in> set ?l. ?f q < ?f y" using ln(2) by fastforce
      have "set ?l \<subseteq> set ?m"
      proof
        fix y assume y: "y \<in> set ?l"
        show "y \<in> set ?m"
        proof (rule ccontr)
          assume "y \<notin> set ?m"
          then have "?f y \<le> ?f q" using cut_is_older [of y ?d "nat n" ?f] lin y q unfolding m by blast
          with lt y show False by fastforce
        qed
      qed
      moreover have "card (set ?l) = card (set ?m)" using ld dm ln(1) len by (simp add: distinct_card)
      ultimately have "set ?l = set ?m" by (simp add: card_subset_eq)
      with q lt show False by blast
    qed
    ultimately show ?thesis by blast
  qed
qed

lemma merged_sorted:
  "0 \<le> n \<Longrightarrow> sorted_wrt (\<lambda>x y. ts (snd y) \<le> ts (snd x)) (merged ts Ps n s)"
  unfolding merged_def merge_records_def slice_to_def
  by (simp add: sorted_wrt_take sorted_by_newest)

section \<open>The search for descendants\<close>

lemma add_children_spec:
  "add_children cap cs (res, nxt) = (res', nxt') \<Longrightarrow> \<exists>new. res' = res @ new \<and> nxt' = nxt @ new
     \<and> set new \<subseteq> set cs \<and> distinct new \<and> set new \<inter> set res = {}
     \<and> (length res < cap \<longrightarrow> length res' \<le> cap) \<and> (length res' < cap \<longrightarrow> set cs \<subseteq> set res')"
proof (induction cs arbitrary: res nxt)
  case (Cons c cs)
  show ?case
  proof (cases "c \<in> set res")
    case True
    with Cons.prems have "add_children cap cs (res, nxt) = (res', nxt')" by simp
    from Cons.IH [OF this] True show ?thesis by auto
  next
    case new: False
    show ?thesis
    proof (cases "cap \<le> length (res @ [c])")
      case True
      with new Cons.prems show ?thesis by (intro exI [of _ "[c]"]) auto
    next
      case False
      with new Cons.prems have "add_children cap cs (res @ [c], nxt @ [c]) = (res', nxt')" by simp
      from Cons.IH [OF this] obtain more where "res' = (res @ [c]) @ more" "nxt' = (nxt @ [c]) @ more" "set more \<subseteq> set cs"
        "distinct more" "set more \<inter> set (res @ [c]) = {}" "length res' \<le> cap" "length res' < cap \<longrightarrow> set cs \<subseteq> set res'"
        using False by auto
      with new show ?thesis by (intro exI [of _ "c # more"]) auto
    qed
  qed
qed simp

lemma expand_frontier_spec:
  "expand_frontier cap ch ps (res, nxt) = (res', nxt') \<Longrightarrow> length res < cap \<Longrightarrow> \<exists>new. res' = res @ new \<and> nxt' = nxt @ new
     \<and> set new \<subseteq> (\<Union>p \<in> set ps. set (ch p)) \<and> distinct new \<and> set new \<inter> set res = {} \<and> length res' \<le> cap
     \<and> (length res' < cap \<longrightarrow> (\<Union>p \<in> set ps. set (ch p)) \<subseteq> set res')"
proof (induction ps arbitrary: res nxt)
  case (Cons p ps)
  obtain r1 n1 where a: "add_children cap (ch p) (res, nxt) = (r1, n1)" by (cases "add_children cap (ch p) (res, nxt)")
  obtain new where new: "r1 = res @ new" "n1 = nxt @ new" "set new \<subseteq> set (ch p)" "distinct new" "set new \<inter> set res = {}"
      "length r1 \<le> cap" "length r1 < cap \<longrightarrow> set (ch p) \<subseteq> set r1"
    using add_children_spec [OF a] Cons.prems(2) by blast
  show ?case
  proof (cases "cap \<le> length r1")
    case True
    with Cons.prems a have "res' = r1" "nxt' = n1" by (simp_all add: Let_def)
    with True new show ?thesis by (intro exI [of _ new]) auto
  next
    case False
    with Cons.prems a have e: "expand_frontier cap ch ps (r1, n1) = (res', nxt')" by (simp add: Let_def)
    from False have "length r1 < cap" by simp
    from Cons.IH [OF e this] obtain more where more: "res' = r1 @ more" "nxt' = n1 @ more"
        "set more \<subseteq> (\<Union>p \<in> set ps. set (ch p))" "distinct more" "set more \<inter> set r1 = {}" "length res' \<le> cap"
        "length res' < cap \<longrightarrow> (\<Union>p \<in> set ps. set (ch p)) \<subseteq> set res'"
      by blast
    with new False show ?thesis by (intro exI [of _ "new @ more"]) auto
  qed
qed simp

text \<open>The processes at most \<open>k\<close> steps below a set of processes.\<close>

fun below :: "(int \<Rightarrow> int list) \<Rightarrow> nat \<Rightarrow> int set \<Rightarrow> int set" where
  "below ch 0 A = A"
| "below ch (Suc k) A = below ch k (A \<union> (\<Union>p \<in> A. set (ch p)))"

lemma below_mono: "A \<subseteq> B \<Longrightarrow> below ch k A \<subseteq> below ch k B"
proof (induction k arbitrary: A B)
  case (Suc k)
  then have "A \<union> (\<Union>p \<in> A. set (ch p)) \<subseteq> B \<union> (\<Union>p \<in> B. set (ch p))" by blast
  then show ?case unfolding below.simps by (rule Suc.IH)
qed simp

lemma below_self: "A \<subseteq> below ch k A"
proof (induction k arbitrary: A)
  case (Suc k)
  show ?case unfolding below.simps using Suc.IH by (rule order_trans [OF Un_upper1])
qed simp

lemma below_closed: "(\<Union>p \<in> A. set (ch p)) \<subseteq> A \<Longrightarrow> below ch k A = A"
  by (induction k) (simp_all add: Un_absorb2)

lemma descend_extends:
  "\<exists>new. descend k cap ch res fr = res @ new \<and> (distinct res \<longrightarrow> distinct (res @ new)) \<and> length (res @ new) \<le> max cap (length res)"
proof (induction k arbitrary: res fr)
  case (Suc k)
  obtain res' nxt where e: "expand_frontier cap ch fr (res, []) = (res', nxt)" by (cases "expand_frontier cap ch fr (res, [])")
  show ?case
  proof (cases "cap \<le> length res")
    case False
    then have lt: "length res < cap" by simp
    obtain new where new: "res' = res @ new" "nxt = new" "distinct new" "set new \<inter> set res = {}" "length res' \<le> cap"
      using expand_frontier_spec [OF e lt] by auto
    obtain more where "descend k cap ch res' nxt = res' @ more" "distinct res' \<longrightarrow> distinct (res' @ more)"
        "length (res' @ more) \<le> max cap (length res')"
      using Suc.IH by blast
    with new lt e show ?thesis by (cases "nxt = []") (auto intro!: exI [of _ "new @ more"])
  qed simp
qed simp

lemma descend_sub: "set fr \<subseteq> set res \<Longrightarrow> set (descend k cap ch res fr) \<subseteq> below ch k (set res)"
proof (induction k arbitrary: res fr)
  case (Suc k)
  obtain res' nxt where e: "expand_frontier cap ch fr (res, []) = (res', nxt)" by (cases "expand_frontier cap ch fr (res, [])")
  show ?case
  proof (cases "cap \<le> length res")
    case True
    then show ?thesis using below_self [of "set res" ch "Suc k"] by simp
  next
    case False
    then have lt: "length res < cap" by simp
    obtain new where new: "res' = res @ new" "nxt = new" "set new \<subseteq> (\<Union>p \<in> set fr. set (ch p))"
      using expand_frontier_spec [OF e lt] by auto
    have sub: "set res' \<subseteq> set res \<union> (\<Union>p \<in> set res. set (ch p))" using new Suc.prems by auto
    have "set nxt \<subseteq> set res'" using new by simp
    then have "set (descend k cap ch res' nxt) \<subseteq> below ch k (set res')" by (rule Suc.IH)
    also have "\<dots> \<subseteq> below ch (Suc k) (set res)" using below_mono [OF sub] by simp
    finally have all: "set (descend k cap ch res' nxt) \<subseteq> below ch (Suc k) (set res)" .
    have "set res' \<subseteq> below ch (Suc k) (set res)"
      unfolding below.simps by (rule order_trans [OF sub below_self])
    with all False e show ?thesis by simp
  qed
qed simp

lemma descend_all:
  assumes "set fr \<subseteq> set res" "(\<Union>p \<in> set res - set fr. set (ch p)) \<subseteq> set res"
    "length (descend k cap ch res fr) < cap"
  shows "below ch k (set res) \<subseteq> set (descend k cap ch res fr)"
  using assms
proof (induction k arbitrary: res fr)
  case (Suc k)
  obtain res' nxt where e: "expand_frontier cap ch fr (res, []) = (res', nxt)" by (cases "expand_frontier cap ch fr (res, [])")
  have lt: "length res < cap"
  proof -
    obtain new where "descend (Suc k) cap ch res fr = res @ new" using descend_extends by blast
    with Suc.prems(3) show ?thesis by simp
  qed
  obtain new where new: "res' = res @ new" "nxt = new" "set new \<subseteq> (\<Union>p \<in> set fr. set (ch p))"
      "length res' < cap \<longrightarrow> (\<Union>p \<in> set fr. set (ch p)) \<subseteq> set res'"
    using expand_frontier_spec [OF e lt] by auto
  have step: "descend (Suc k) cap ch res fr = (if nxt = [] then res' else descend k cap ch res' nxt)"
    using lt e by simp
  have lt': "length res' < cap"
  proof -
    obtain more where "descend k cap ch res' nxt = res' @ more" using descend_extends by blast
    with Suc.prems(3) step show ?thesis by (auto split: if_splits)
  qed
  have kids: "(\<Union>p \<in> set res. set (ch p)) \<subseteq> set res'"
  proof -
    have "(\<Union>p \<in> set fr. set (ch p)) \<subseteq> set res'" using new(4) lt' by blast
    moreover have "set res \<subseteq> set res'" by (simp add: new(1))
    ultimately show ?thesis using Suc.prems(2) by blast
  qed
  have up: "set res \<union> (\<Union>p \<in> set res. set (ch p)) = set res'"
  proof -
    have "set new \<subseteq> (\<Union>p \<in> set res. set (ch p))" using new(3) Suc.prems(1) by blast
    then show ?thesis using kids new(1) by auto
  qed
  show ?case
  proof (cases "nxt = []")
    case True
    then have "res' = res" using new by simp
    then show ?thesis using up kids below_closed [where A = "set res"] step True by simp
  next
    case False
    have "below ch k (set res') \<subseteq> set (descend k cap ch res' nxt)"
    proof (rule Suc.IH)
      show "set nxt \<subseteq> set res'" using new by simp
      show "(\<Union>p \<in> set res' - set nxt. set (ch p)) \<subseteq> set res'" using kids new by auto
      show "length (descend k cap ch res' nxt) < cap" using Suc.prems(3) step False by simp
    qed
    then show ?thesis using up step False by simp
  qed
qed simp

section \<open>Properties\<close>

text \<open>What a request asks of the ledger: one condition for each pid below the anchors and each address,
  or the time range where nothing is named.\<close>

definition ledger_wants :: "(int set \<Rightarrow> int list) \<Rightarrow> pid_index \<Rightarrow> datetime \<Rightarrow> pull_params \<Rightarrow> (ledger_row \<Rightarrow> bool) list" where
  "ledger_wants order ix now q =
     map (\<lambda>p r. lr_pid r = Some p \<and> after (pp_since q) (lr_ts r)) (resolve_descendant_pids order ix (pp_anchor_pids q))
     @ map (\<lambda>a r. lr_remote_ip r = Some a \<and> after (pp_since q) (lr_ts r)) (pp_ips q)
     @ (if pp_anchor_pids q = [] \<and> pp_ips q = [] \<and> pp_usernames q = []
        then [\<lambda>r. range_start now (pp_since q) \<le> lr_ts r \<and> lr_ts r \<le> now] else [])"

lemma pull_ledger_merged: "pull_ledger order ix now q s = merged lr_ts (ledger_wants order ix now q) (pp_limit q) s"
  by (simp add: pull_ledger_def merged_def ledger_records_def ledger_wants_def query_by_pid_def query_by_ip_def
      query_time_range_def comp_def)


definition asked_by_pid :: pull_params where
  "asked_by_pid = \<lparr>pp_anchor_pids = [7], pp_ips = [], pp_usernames = [], pp_since = None, pp_limit = 5\<rparr>"

definition one_dns_written :: "ledger_row recorder" where
  "one_dns_written = writer_loop_step small_ledger True 9000001 5 recorded_dns"


text \<open>A request that names users only finds nothing in the ledger, whatever it holds: no query by user
  name exists, and the names keep the request from falling back to the time range.  The
  documentation promises such a query.\<close>

theorem usernames_find_nothing:
  assumes "pp_anchor_pids q = []" "pp_ips q = []" "pp_usernames q \<noteq> []"
  shows "pull_surveillance_logs order ix now (Some s) f q = LedgerRecords []
    \<and> pull_ocsf_ledger order ix now (Some s) q = LedgerRecords []"
  using assms by (simp add: pull_surveillance_logs_def pull_ocsf_ledger_def pull_ledger_def ledger_records_def
      resolve_descendant_pids_def merge_records_def by_newest_def slice_to_def)

theorem usernames_find_nothing_witness:
  "pull_surveillance_logs sorted_list_of_set new_index 9 (Some recorded_dns) None (asked_by_pid\<lparr>pp_anchor_pids := [], pp_usernames := [''root'']\<rparr>)
     = LedgerRecords []"
  by (rule usernames_find_nothing [THEN conjunct1]) (simp_all add: asked_by_pid_def)

fun pid_tree :: "pid_index \<Rightarrow> nat \<Rightarrow> int set \<Rightarrow> int set" where
  "pid_tree ix 0 A = A"
| "pid_tree ix (Suc k) A = pid_tree ix k (A \<union> (\<Union>p \<in> A. get_children_pids ix p))"

lemma below_tree: "(\<And>p. set (order (get_children_pids ix p)) = get_children_pids ix p) \<Longrightarrow> below (\<lambda>p. order (get_children_pids ix p)) k A = pid_tree ix k A"
  by (induction k arbitrary: A) simp_all

text \<open>The search below the anchors returns each pid once, all anchors among them, only descendants of at
  most ten generations, and all of these when it returns fewer than 200; it never adds one beyond
  200.\<close>

theorem descendants_found:
  assumes "\<And>p. set (order (get_children_pids ix p)) = get_children_pids ix p" "built ix" "anchors \<noteq> []"
  shows "let ps = resolve_descendant_pids order ix anchors in
    distinct ps \<and> set anchors \<subseteq> set ps \<and> set ps \<subseteq> pid_tree ix 10 (set anchors)
    \<and> length ps \<le> max 200 (length (dedup anchors)) \<and> (length ps < 200 \<longrightarrow> set ps = pid_tree ix 10 (set anchors))"
proof -
  let ?ch = "\<lambda>p. order (get_children_pids ix p)"
  let ?ps = "descend 10 200 ?ch (dedup anchors) (dedup anchors)"
  have ps: "resolve_descendant_pids order ix anchors = ?ps" using assms by (simp add: resolve_descendant_pids_def)
  have tree: "below ?ch 10 (set (dedup anchors)) = pid_tree ix 10 (set anchors)" using below_tree [of order ix] assms(1) by simp
  obtain new where new: "?ps = dedup anchors @ new" "distinct ?ps" "length ?ps \<le> max 200 (length (dedup anchors))"
    using descend_extends [of 10 200 ?ch "dedup anchors" "dedup anchors"] by auto
  have "set ?ps \<subseteq> pid_tree ix 10 (set anchors)"
    using descend_sub [of "dedup anchors" "dedup anchors" 10 200 ?ch] tree by simp
  moreover have "length ?ps < 200 \<longrightarrow> pid_tree ix 10 (set anchors) \<subseteq> set ?ps"
    using descend_all [of "dedup anchors" "dedup anchors" ?ch 10 200] tree by simp
  moreover have "set anchors \<subseteq> set ?ps" using arg_cong [OF new(1), of set] by simp
  ultimately show ?thesis unfolding ps Let_def using new(2,3) by blast
qed

definition two_generations :: pid_index where
  "two_generations = new_index\<lparr>ppid_to_children := [(1, {2}), (2, {3})], built := True\<rparr>"

theorem descendants_found_witness:
  "set (resolve_descendant_pids sorted_list_of_set two_generations [1]) = pid_tree two_generations 10 {1}"
proof -
  have c: "finite (get_children_pids two_generations p)" for p
    by (simp add: two_generations_def get_children_pids_def d_get_or_def)
  have "length (resolve_descendant_pids sorted_list_of_set two_generations [1]) < 200" by code_simp
  moreover have "built two_generations" by (simp add: two_generations_def)
  ultimately show ?thesis
    using descendants_found [of sorted_list_of_set two_generations "[1]"] c unfolding Let_def by simp
qed

end
