(* ===== verification/LedgerExport.thy ===== *)
theory LedgerExport
  imports LedgerQuery GraphStore PyStr
begin

text \<open>
  Graphs built from the ledger: the export of a time window to CSV files
  (\<open>export_entities_csv\<close> of \<open>agent/ledger/reader.py\<close>), the graph that is built for one analysis
  (\<open>agent/ledger/slicer.py\<close>) and the one that is kept for the dashboard
  (\<open>agent/ledger/warm_cache.py\<close>).  \<open>isof\<close> is \<open>datetime.isoformat\<close>, \<open>fmt\<close> the rendering in seconds
  that \<open>_fmt_ts\<close> makes of it; Kuzu's \<open>COPY\<close> is a parameter.  An edge is a relationship of
  \<open>GraphStore\<close>, whose times are cut to seconds, as both renderings are.
\<close>

section \<open>CSV\<close>

definition LF :: char where "LF = char_of (10 :: int)"
definition CR :: char where "CR = char_of (13 :: int)"
definition NUL :: char where "NUL = char_of (0 :: int)"
definition QUOTE :: char where "QUOTE = char_of (34 :: int)"

fun replace_crlf :: "string \<Rightarrow> string" where
  "replace_crlf (a # b # s) = (if a = CR \<and> b = LF then CHR '' '' # replace_crlf s else a # replace_crlf (b # s))"
| "replace_crlf s = s"

text \<open>\<open>_san\<close>; the tests for the three characters before it only save work.\<close>

definition san :: "string \<Rightarrow> string" where
  "san s = filter (\<lambda>c. c \<noteq> NUL) (replace_char CR CHR '' '' (replace_char LF CHR '' '' (replace_crlf s)))"

definition san_opt :: "string option \<Rightarrow> string" where
  "san_opt v = (case v of None \<Rightarrow> [] | Some s \<Rightarrow> san s)"

text \<open>\<open>csv.writer\<close> with \<open>QUOTE_ALL\<close> and \<open>doublequote\<close>.\<close>

definition quote_field :: "string \<Rightarrow> string" where
  "quote_field f = QUOTE # concat (map (\<lambda>c. if c = QUOTE then [QUOTE, QUOTE] else [c]) f) @ [QUOTE]"

definition csv_line :: "string list \<Rightarrow> string" where
  "csv_line fs = join_with '','' (map quote_field fs) @ [CR, LF]"

definition csv_text :: "string list list \<Rightarrow> string" where
  "csv_text rows = concat (map csv_line rows)"

section \<open>Collecting the window\<close>

fun str_less :: "string \<Rightarrow> string \<Rightarrow> bool" where
  "str_less s [] = False"
| "str_less [] (c # t) = True"
| "str_less (a # s) (b # t) = ((of_char a :: nat) < of_char b \<or> a = b \<and> str_less s t)"

type_synonym edge_bucket = "(string \<times> string, rel) dict"

record accum =
  ac_users :: "(string, user_node) dict"
  ac_processes :: "(string, process_node) dict"
  ac_ips :: "(string, ip_node) dict"
  ac_domains :: "(string, domain_node) dict"
  ac_files :: "(string, file_node) dict"
  ac_registry :: "(string, registry_key_node) dict"
  ac_edges :: "(string, edge_bucket) dict"

definition new_accum :: accum where
  "new_accum = \<lparr>ac_users = [], ac_processes = [], ac_ips = [], ac_domains = [], ac_files = [], ac_registry = [],
     ac_edges = map (\<lambda>(t, _). (t, [])) REL_TABLES\<rparr>"

text \<open>\<open>_ts_newer\<close> on the texts of the two times.\<close>

definition keep_newer :: "(datetime \<Rightarrow> string) \<Rightarrow> ('n \<Rightarrow> string) \<Rightarrow> ('n \<Rightarrow> datetime) \<Rightarrow> 'n \<Rightarrow> (string, 'n) dict \<Rightarrow> (string, 'n) dict" where
  "keep_newer isof key seen x d =
     (if key x = [] then d else case d_get d (key x) of None \<Rightarrow> d_set (key x) x d
      | Some y \<Rightarrow> if str_less (isof (seen y)) (isof (seen x)) then d_set (key x) x d else d)"

definition keep_last :: "process_node \<Rightarrow> (string, process_node) dict \<Rightarrow> (string, process_node) dict" where
  "keep_last p d = (if pn_id p = [] then d else d_set (pn_id p) p d)"

definition MAX_EDGES_PER_TYPE :: nat where
  "MAX_EDGES_PER_TYPE = 50000"

definition put_edge :: "rel \<Rightarrow> edge_bucket \<Rightarrow> edge_bucket" where
  "put_edge r b = (if length b < MAX_EDGES_PER_TYPE then d_set (rl_from r, rl_to r) r b else b)"

definition add_edge :: "rel \<Rightarrow> (string, edge_bucket) dict \<Rightarrow> (string, edge_bucket) dict" where
  "add_edge r es = (if rl_from r \<noteq> [] \<and> rl_to r \<noteq> [] then d_alter (rl_type r) [] (put_edge r) es else es)"

definition collect_row :: "(datetime \<Rightarrow> string) \<Rightarrow> entities \<Rightarrow> accum \<Rightarrow> accum" where
  "collect_row isof e a = a\<lparr>
     ac_users := fold (keep_newer isof un_id un_last_seen) (users e) (ac_users a),
     ac_processes := fold keep_last (processes e) (ac_processes a),
     ac_ips := fold (keep_newer isof ipn_id ipn_last_seen) (ips e) (ac_ips a),
     ac_domains := fold (keep_newer isof dn_id dn_last_seen) (domains e) (ac_domains a),
     ac_files := fold (keep_newer isof fn_id fn_last_seen) (files e) (ac_files a),
     ac_registry := fold (keep_newer isof rk_id rk_last_seen) (registry_keys e) (ac_registry a),
     ac_edges := fold add_edge (batch_rels [e]) (ac_edges a)\<rparr>"

definition collect :: "(datetime \<Rightarrow> string) \<Rightarrow> entities list \<Rightarrow> accum" where
  "collect isof es = fold (collect_row isof) es new_accum"

section \<open>The files\<close>

definition bool_text :: "bool \<Rightarrow> string" where
  "bool_text b = (if b then ''true'' else ''false'')"

definition NO_TIME :: string where
  "NO_TIME = ''2000-01-01 00:00:00''"

definition user_fields :: "(datetime \<Rightarrow> string) \<Rightarrow> user_node \<Rightarrow> string list" where
  "user_fields fmt u = [san (un_id u), san_opt (un_name u), san_opt (un_uid u), fmt (un_first_seen u), fmt (un_last_seen u)]"

definition process_fields :: "(datetime \<Rightarrow> string) \<Rightarrow> process_node \<Rightarrow> string list" where
  "process_fields fmt p = [san (pn_id p), san (pn_name p), int_str (pn_pid p), san_opt (pn_cmd_line p), san_opt (pn_exe_path p),
     san (pn_hostname p), (case pn_start_time p of None \<Rightarrow> NO_TIME | Some t \<Rightarrow> fmt t), int_str (none_or 0 (pn_parent_pid p)),
     san_opt (pn_bundle_id p), bool_text (none_or False (pn_code_signed p)), san_opt (pn_signing_authority p)]"

definition ip_fields :: "(datetime \<Rightarrow> string) \<Rightarrow> ip_node \<Rightarrow> string list" where
  "ip_fields fmt i = [san (ipn_id i), san (ipn_address i), bool_text (ipn_is_private i), fmt (ipn_first_seen i), fmt (ipn_last_seen i),
     san (ipn_country i), san (ipn_city i), san (ipn_isp i), san (ipn_org i), san (ipn_asn i),
     bool_text (ipn_is_hosting i), bool_text (ipn_is_proxy i), san (ipn_classification i), san (ipn_provider_name i), san (ipn_reverse_dns i)]"

definition domain_fields :: "(datetime \<Rightarrow> string) \<Rightarrow> domain_node \<Rightarrow> string list" where
  "domain_fields fmt d = [san (dn_id d), san (dn_name d), fmt (dn_first_seen d), fmt (dn_last_seen d),
     bool_text (dn_is_dga_candidate d), san (dn_tld d)]"

definition file_fields :: "(datetime \<Rightarrow> string) \<Rightarrow> file_node \<Rightarrow> string list" where
  "file_fields fmt f = [san (fn_id f), san (fn_path f), san_opt (fn_hash_sha256 f), int_str (none_or 0 (fn_size f)),
     fmt (fn_first_seen f), fmt (fn_last_seen f)]"

definition registry_fields :: "(datetime \<Rightarrow> string) \<Rightarrow> registry_key_node \<Rightarrow> string list" where
  "registry_fields fmt r = [san (rk_id r), san (rk_path r), san_opt (rk_value_name r), san_opt (rk_value_data r),
     san_opt (rk_previous_data r), fmt (rk_first_seen r), fmt (rk_last_seen r)]"

definition int_opt_text :: "int option \<Rightarrow> string" where
  "int_opt_text v = (case v of None \<Rightarrow> [] | Some i \<Rightarrow> int_str i)"

definition edge_columns :: "string \<Rightarrow> string list" where
  "edge_columns t = (if t = ''SPAWNED'' then [''timestamp'', ''activity_id'', ''event_id'']
     else if t = ''CONNECTED_TO'' then [''timestamp'', ''dst_port'', ''protocol'', ''direction'', ''event_id'']
     else [''timestamp'', ''event_id''])"

definition edge_value :: "(datetime \<Rightarrow> string) \<Rightarrow> rel \<Rightarrow> string \<Rightarrow> string" where
  "edge_value fmt r k = (if k = ''timestamp'' then fmt (rl_timestamp r) else if k = ''activity_id'' then int_opt_text (rl_activity_id r)
     else if k = ''dst_port'' then int_opt_text (rl_dst_port r) else if k = ''protocol'' then san_opt (rl_protocol r)
     else if k = ''direction'' then san_opt (rl_direction r) else int_str (rl_event_id r))"

definition edge_fields :: "(datetime \<Rightarrow> string) \<Rightarrow> rel \<Rightarrow> string list" where
  "edge_fields fmt r = [san (rl_from r), san (rl_to r)] @ map (edge_value fmt r) (edge_columns (rl_type r))"

definition label_table :: "label \<Rightarrow> string" where
  "label_table l = (case l of L_User \<Rightarrow> ''User'' | L_Process \<Rightarrow> ''Process'' | L_IP \<Rightarrow> ''IP'' | L_Domain \<Rightarrow> ''Domain''
     | L_File \<Rightarrow> ''File'' | L_RegistryKey \<Rightarrow> ''RegistryKey'')"

definition node_header :: "label \<Rightarrow> string list" where
  "node_header l = (case l of
     L_User \<Rightarrow> [''id'', ''name'', ''uid'', ''first_seen'', ''last_seen'']
   | L_Process \<Rightarrow> [''id'', ''name'', ''pid'', ''cmd_line'', ''exe_path'', ''hostname'', ''start_time'', ''parent_pid'', ''bundle_id'',
       ''code_signed'', ''signing_authority'']
   | L_IP \<Rightarrow> [''id'', ''address'', ''is_private'', ''first_seen'', ''last_seen'', ''country'', ''city'', ''isp'', ''org'', ''asn'',
       ''is_hosting'', ''is_proxy'', ''classification'', ''provider_name'', ''reverse_dns'']
   | L_Domain \<Rightarrow> [''id'', ''name'', ''first_seen'', ''last_seen'', ''is_dga_candidate'', ''tld'']
   | L_File \<Rightarrow> [''id'', ''path'', ''hash_sha256'', ''size'', ''first_seen'', ''last_seen'']
   | L_RegistryKey \<Rightarrow> [''id'', ''path'', ''value_name'', ''value_data'', ''previous_data'', ''first_seen'', ''last_seen''])"

definition node_rows :: "(datetime \<Rightarrow> string) \<Rightarrow> accum \<Rightarrow> label \<Rightarrow> string list list" where
  "node_rows fmt a l = (case l of
     L_User \<Rightarrow> map (user_fields fmt) (map snd (ac_users a)) | L_Process \<Rightarrow> map (process_fields fmt) (map snd (ac_processes a))
   | L_IP \<Rightarrow> map (ip_fields fmt) (map snd (ac_ips a)) | L_Domain \<Rightarrow> map (domain_fields fmt) (map snd (ac_domains a))
   | L_File \<Rightarrow> map (file_fields fmt) (map snd (ac_files a)) | L_RegistryKey \<Rightarrow> map (registry_fields fmt) (map snd (ac_registry a)))"

definition valid_ids :: "accum \<Rightarrow> label \<Rightarrow> string list" where
  "valid_ids a l = (case l of
     L_User \<Rightarrow> d_keys (ac_users a) | L_Process \<Rightarrow> d_keys (ac_processes a) | L_IP \<Rightarrow> d_keys (ac_ips a)
   | L_Domain \<Rightarrow> d_keys (ac_domains a) | L_File \<Rightarrow> d_keys (ac_files a) | L_RegistryKey \<Rightarrow> d_keys (ac_registry a))"

definition valid_edges :: "accum \<Rightarrow> string \<Rightarrow> rel list" where
  "valid_edges a t = (case d_get REL_TABLES t of None \<Rightarrow> []
     | Some (f, u) \<Rightarrow> filter (\<lambda>r. rl_from r \<in> set (valid_ids a f) \<and> rl_to r \<in> set (valid_ids a u))
         (map snd (d_get_or (ac_edges a) t [])))"

text \<open>\<open>LISTENING_ON\<close> has a bucket but nothing is written of it.\<close>

definition EXPORTED_EDGES :: "string list" where
  "EXPORTED_EDGES = [''SPAWNED'', ''CONNECTED_TO'', ''RESOLVED'', ''RESOLVES_TO'', ''CREATED_FILE'', ''MODIFIED_FILE'',
     ''READ_FILE'', ''DELETED_FILE'', ''CREATED_REG'', ''MODIFIED_REG'', ''DELETED_REG'']"

text \<open>The records of each file, its header first; no file for an empty table.\<close>

definition node_files :: "(datetime \<Rightarrow> string) \<Rightarrow> accum \<Rightarrow> (string \<times> string list list) list" where
  "node_files fmt a = List.map_filter (\<lambda>l. if node_rows fmt a l = [] then None
     else Some (label_table l, node_header l # node_rows fmt a l)) LABELS"

definition edge_files :: "(datetime \<Rightarrow> string) \<Rightarrow> accum \<Rightarrow> (string \<times> string list list) list" where
  "edge_files fmt a = List.map_filter (\<lambda>t. if valid_edges a t = [] then None
     else Some (t, ([''from'', ''to''] @ edge_columns t) # map (edge_fields fmt) (valid_edges a t))) EXPORTED_EDGES"

definition export_entities_csv :: "(datetime \<Rightarrow> string) \<Rightarrow> (datetime \<Rightarrow> string) \<Rightarrow> datetime \<Rightarrow> datetime \<Rightarrow> ledger_row recorder
    \<Rightarrow> (string, string) dict" where
  "export_entities_csv isof fmt start end s =
     (let a = collect isof (iter_entities start end s)
      in map (\<lambda>(t, rows). (t, csv_text rows)) (node_files fmt a @ edge_files fmt a))"

section \<open>Building graphs\<close>

text \<open>\<open>COPY table FROM file\<close>: the database after it, or \<open>None\<close> when it raises.  The exported files are
  \<open>None\<close> when the export raised.\<close>

type_synonym 'db copier = "string \<Rightarrow> string \<Rightarrow> 'db \<Rightarrow> 'db option"

definition EDGE_TABLES :: "string list" where
  "EDGE_TABLES = d_keys REL_TABLES"

fun copy_nodes :: "'db copier \<Rightarrow> (string, string) dict \<Rightarrow> string list \<Rightarrow> 'db \<Rightarrow> 'db option" where
  "copy_nodes copy csvs [] db = Some db"
| "copy_nodes copy csvs (t # ts) db = (case d_get csvs t of None \<Rightarrow> copy_nodes copy csvs ts db
     | Some c \<Rightarrow> (case copy t c db of None \<Rightarrow> None | Some db' \<Rightarrow> copy_nodes copy csvs ts db'))"

definition copy_edge :: "'db copier \<Rightarrow> (string, string) dict \<Rightarrow> string \<Rightarrow> 'db \<Rightarrow> 'db" where
  "copy_edge copy csvs t db = (case d_get csvs t of None \<Rightarrow> db
     | Some c \<Rightarrow> (case copy t c db of None \<Rightarrow> db | Some db' \<Rightarrow> db'))"

definition load_csvs :: "'db copier \<Rightarrow> (string, string) dict \<Rightarrow> 'db \<Rightarrow> 'db option" where
  "load_csvs copy csvs db = map_option (fold (copy_edge copy csvs) EDGE_TABLES)
     (copy_nodes copy csvs (map label_table LABELS) db)"

text \<open>Temporary directories that exist, by the number of their creation.\<close>

record tmpdirs =
  td_next :: nat
  td_live :: "nat list"

definition mkdtemp :: "tmpdirs \<Rightarrow> nat \<times> tmpdirs" where
  "mkdtemp d = (td_next d, d\<lparr>td_next := td_next d + 1, td_live := td_live d @ [td_next d]\<rparr>)"

definition rmtree :: "nat \<Rightarrow> tmpdirs \<Rightarrow> tmpdirs" where
  "rmtree i d = d\<lparr>td_live := filter (\<lambda>j. j \<noteq> i) (td_live d)\<rparr>"

text \<open>\<open>TransientGraph\<close>: entering the context, and leaving it.  When \<open>__enter__\<close> raises, Python does not
  call \<open>__exit__\<close>.\<close>

definition transient_enter :: "'db copier \<Rightarrow> 'db \<Rightarrow> (string, string) dict option \<Rightarrow> tmpdirs \<Rightarrow> (nat \<times> 'db) option \<times> tmpdirs" where
  "transient_enter copy blank csvs d = (let (i, d) = mkdtemp d in
     (map_option (\<lambda>db. (i, db)) (Option.bind csvs (\<lambda>c. load_csvs copy c blank)), d))"

definition transient_exit :: "nat \<Rightarrow> tmpdirs \<Rightarrow> tmpdirs" where
  "transient_exit i d = rmtree i d"

definition with_transient_graph :: "'db copier \<Rightarrow> 'db \<Rightarrow> (string, string) dict option \<Rightarrow> ('db \<Rightarrow> 'a) \<Rightarrow> tmpdirs \<Rightarrow> 'a option \<times> tmpdirs" where
  "with_transient_graph copy blank csvs body d = (case transient_enter copy blank csvs d of
     (None, d) \<Rightarrow> (None, d) | (Some (i, db), d) \<Rightarrow> (Some (body db), transient_exit i d))"

section \<open>The graph of the dashboard\<close>

record 'db warm_graph =
  wg_current :: "(nat \<times> 'db) option"
  wg_first_rebuild :: bool
  wg_ready :: bool
  wg_dirs :: tmpdirs

definition new_warm_graph :: "tmpdirs \<Rightarrow> 'db warm_graph" where
  "new_warm_graph d = \<lparr>wg_current = None, wg_first_rebuild = True, wg_ready = False, wg_dirs = d\<rparr>"

definition get_connection :: "'db warm_graph \<Rightarrow> 'db res" where
  "get_connection w = (case wg_current w of None \<Rightarrow> Inl (RuntimeError ''Warm graph not initialized'') | Some (_, db) \<Rightarrow> Inr db)"

text \<open>The start of the window: the first build takes the short one.\<close>

definition window_start :: "int \<Rightarrow> int \<Rightarrow> datetime \<Rightarrow> 'db warm_graph \<Rightarrow> datetime" where
  "window_start full first now w = now - (if wg_first_rebuild w then first else full)"

text \<open>\<open>_rebuild\<close> on what the export returned; whether it raised.\<close>

definition rebuild :: "'db copier \<Rightarrow> 'db \<Rightarrow> (string, string) dict option \<Rightarrow> 'db warm_graph \<Rightarrow> bool \<times> 'db warm_graph" where
  "rebuild copy blank csvs w =
     (let (i, d) = mkdtemp (wg_dirs w); w = w\<lparr>wg_first_rebuild := False, wg_dirs := d\<rparr>
      in if csvs = Some [] then (False, w\<lparr>wg_dirs := rmtree i d\<rparr>)
         else case Option.bind csvs (\<lambda>c. load_csvs copy c blank) of
           None \<Rightarrow> (True, w\<lparr>wg_dirs := rmtree i d\<rparr>)
         | Some db \<Rightarrow> (False, w\<lparr>wg_current := Some (i, db),
             wg_dirs := (case wg_current w of None \<Rightarrow> d | Some (j, _) \<Rightarrow> rmtree j d)\<rparr>))"

definition rebuild_loop_step :: "'db copier \<Rightarrow> 'db \<Rightarrow> (string, string) dict option \<Rightarrow> 'db warm_graph \<Rightarrow> 'db warm_graph" where
  "rebuild_loop_step copy blank csvs w = (snd (rebuild copy blank csvs w))\<lparr>wg_ready := True\<rparr>"

definition stop_warm_graph :: "'db warm_graph \<Rightarrow> 'db warm_graph" where
  "stop_warm_graph w = w\<lparr>wg_current := None,
     wg_dirs := (case wg_current w of None \<Rightarrow> wg_dirs w | Some (j, _) \<Rightarrow> rmtree j (wg_dirs w))\<rparr>"

section \<open>Reading CSV back\<close>

text \<open>The format as \<open>COPY\<close> is told to read it: fields in double quotes, a quote in a field doubled, commas
  between fields, a line end after each record.  This is the specification the writer is checked
  against; a character that does not fit makes the text unreadable.\<close>

fun read_quoted :: "string \<Rightarrow> (string \<times> string) option" where
  "read_quoted [] = None"
| "read_quoted [c] = (if c = QUOTE then Some ([], []) else None)"
| "read_quoted (c # d # s) =
     (if c = QUOTE then if d = QUOTE then map_option (\<lambda>(f, r). (QUOTE # f, r)) (read_quoted s) else Some ([], d # s)
      else map_option (\<lambda>(f, r). (c # f, r)) (read_quoted (d # s)))"

lemma read_quoted_shorter: "read_quoted s = Some (f, r) \<Longrightarrow> length r < length s"
  by (induction s arbitrary: f r rule: read_quoted.induct) (fastforce split: if_splits)+

function (sequential) read_record :: "string \<Rightarrow> (string list \<times> string) option" where
  "read_record (q # s) =
     (if q \<noteq> QUOTE then None
      else case read_quoted s of
        Some (f, c # r) \<Rightarrow>
          (if c = CHR '','' then map_option (\<lambda>(fs, t). (f # fs, t)) (read_record r)
           else if c = CR then (case r of d # t \<Rightarrow> if d = LF then Some ([f], t) else None | [] \<Rightarrow> None)
           else None)
      | _ \<Rightarrow> None)"
| "read_record [] = None"
  by pat_completeness auto
termination
  by (relation "measure length") (auto dest: read_quoted_shorter)

lemma read_record_shorter: "read_record s = Some (fs, t) \<Longrightarrow> length t < length s"
proof (induction s arbitrary: fs t rule: read_record.induct)
  case (1 q s)
  then obtain f c r where q: "q = QUOTE" and f: "read_quoted s = Some (f, c # r)"
    by (auto split: if_splits option.splits list.splits)
  have "length (c # r) < length s" using read_quoted_shorter [OF f] .
  moreover have "length t < length r"
  proof (cases "c = CHR '',''")
    case True
    with 1(2) q f obtain gs where "read_record r = Some (gs, t)" by auto
    from 1(1) [OF _ f _ _ True this] q show ?thesis by simp
  next
    case False
    with 1(2) q f show ?thesis by (auto split: if_splits list.splits)
  qed
  ultimately show ?case by simp
qed simp

function (sequential) csv_parse :: "string \<Rightarrow> string list list option" where
  "csv_parse [] = Some []"
| "csv_parse (c # s) = (case read_record (c # s) of None \<Rightarrow> None
     | Some (fs, t) \<Rightarrow> map_option (\<lambda>rows. fs # rows) (csv_parse t))"
  by pat_completeness auto
termination
  by (relation "measure length") (auto dest: read_record_shorter simp del: read_record.simps)

lemma read_quote_field:
  "r = [] \<or> hd r \<noteq> QUOTE \<Longrightarrow> read_quoted (concat (map (\<lambda>c. if c = QUOTE then [QUOTE, QUOTE] else [c]) f) @ QUOTE # r) = Some (f, r)"
proof (induction f)
  case Nil
  then show ?case by (cases r) auto
next
  case (Cons c f)
  show ?case
  proof (cases "c = QUOTE")
    case True
    with Cons show ?thesis by simp
  next
    case False
    define rest where "rest = concat (map (\<lambda>c. if c = QUOTE then [QUOTE, QUOTE] else [c]) f) @ QUOTE # r"
    have "rest \<noteq> []" by (simp add: rest_def)
    then obtain d s where "rest = d # s" by (cases rest) auto
    moreover have "read_quoted rest = Some (f, r)" using Cons by (simp add: rest_def)
    ultimately have "read_quoted (c # rest) = Some (c # f, r)" using False by simp
    with False show ?thesis by (simp add: rest_def)
  qed
qed

lemma special_chars [simp]:
  "CR \<noteq> QUOTE" "LF \<noteq> QUOTE" "QUOTE \<noteq> LF" "CR \<noteq> CHR '',''" "CHR '','' \<noteq> QUOTE" "CHR '','' \<noteq> LF" "CR \<noteq> LF" "LF \<noteq> CR"
  "LF \<noteq> CHR '',''" "LF \<noteq> NUL" "CR \<noteq> NUL" "CHR '' '' \<noteq> LF" "CHR '' '' \<noteq> CR" "LF \<noteq> CHR '' ''" "CR \<noteq> CHR '' ''"
  "LF \<noteq> CHR ''-''" "CR \<noteq> CHR ''-''"
  by code_simp+

lemma read_csv_line: "fs \<noteq> [] \<Longrightarrow> read_record (csv_line fs @ t) = Some (fs, t)"
proof (induction fs)
  case (Cons f fs)
  show ?case
  proof (cases fs)
    case Nil
    then show ?thesis
      using read_quote_field [of "CR # LF # t" f] by (simp add: csv_line_def quote_field_def)
  next
    case (Cons g gs)
    then have rest: "read_record (csv_line fs @ t) = Some (fs, t)" using Cons.IH by simp
    have "csv_line (f # fs) @ t = quote_field f @ CHR '','' # csv_line fs @ t"
      using Cons by (simp add: csv_line_def)
    then show ?thesis
      using read_quote_field [of "CHR '','' # csv_line fs @ t" f] rest by (simp add: quote_field_def)
  qed
qed simp

lemma csv_line_not_Nil: "csv_line fs \<noteq> []"
  by (simp add: csv_line_def)

lemma csv_parse_step: "fs \<noteq> [] \<Longrightarrow> csv_parse (csv_line fs @ t) = map_option (\<lambda>rows. fs # rows) (csv_parse t)"
  using read_csv_line [of fs t] csv_line_not_Nil [of fs] by (cases "csv_line fs @ t") simp_all

lemma csv_parse_text: "list_all (\<lambda>fs. fs \<noteq> []) rows \<Longrightarrow> csv_parse (csv_text rows) = Some rows"
  by (induction rows) (simp_all add: csv_text_def csv_parse_step)

section \<open>One line for each record\<close>

definition one_line :: "string \<Rightarrow> bool" where
  "one_line s \<longleftrightarrow> LF \<notin> set s \<and> CR \<notin> set s"

lemma san_one_line [simp]: "one_line (san s)"
  by (auto simp: one_line_def san_def replace_char_def)

lemma san_opt_one_line [simp]: "one_line (san_opt v)"
  by (simp add: san_opt_def one_line_def split: option.split) (use san_one_line one_line_def in blast)

lemma digits_one_line: "list_all is_digit s \<Longrightarrow> one_line s"
  by (auto simp: one_line_def list_all_iff is_digit_def LF_def CR_def Let_def)

lemma int_str_one_line [simp]: "one_line (int_str i)"
proof (cases "i < 0")
  case True
  then show ?thesis
    using digits_one_line [OF pos_str_digits [of "- i"]] by (simp add: int_str_def one_line_def)
next
  case False
  then show ?thesis using digits_one_line [OF pos_str_digits [of i]] by (simp add: int_str_def)
qed

lemma bool_text_one_line [simp]: "one_line (bool_text b)"
  by (cases b) (simp_all only: bool_text_def if_True if_False, code_simp+)

lemma no_time_one_line [simp]: "one_line NO_TIME"
  by code_simp

lemma int_opt_text_one_line [simp]: "one_line (int_opt_text v)"
  by (cases v) (simp_all add: int_opt_text_def one_line_def [of "[]"])

lemma quote_field_lines: "one_line f \<Longrightarrow> count_list (quote_field f) LF = 0"
  unfolding quote_field_def one_line_def
  by (auto simp: count_list_0_iff)

lemma csv_line_lines:
  assumes "list_all one_line fs"
  shows "count_list (csv_line fs) LF = 1"
proof -
  have "list_all one_line fs \<Longrightarrow> count_list (join_with '','' (map quote_field fs)) LF = 0"
    by (induction fs rule: induct_list012) (simp_all add: quote_field_lines)
  with assms show ?thesis by (simp add: csv_line_def)
qed

lemma csv_text_lines: "list_all (list_all one_line) rows \<Longrightarrow> count_list (csv_text rows) LF = length rows"
  by (induction rows) (simp_all add: csv_text_def csv_line_lines)

section \<open>What the files hold\<close>

lemma node_rows_shape:
  assumes "\<And>t. one_line (fmt t)" "row \<in> set (node_rows fmt a l)"
  shows "length row = length (node_header l) \<and> list_all one_line row"
proof (cases l)
  case L_Process
  with assms show ?thesis
    by (auto simp: node_rows_def node_header_def process_fields_def split: option.split)
qed (use assms in \<open>auto simp: node_rows_def node_header_def user_fields_def ip_fields_def domain_fields_def
    file_fields_def registry_fields_def\<close>)

lemma edge_fields_shape:
  assumes "\<And>t. one_line (fmt t)"
  shows "length (edge_fields fmt r) = length ([''from'', ''to''] @ edge_columns (rl_type r)) \<and> list_all one_line (edge_fields fmt r)"
proof -
  have "one_line (edge_value fmt r k)" for k using assms by (simp add: edge_value_def)
  then show ?thesis by (simp add: edge_fields_def list_all_iff)
qed

lemma node_header_one_line: "list_all one_line (node_header l)"
  by (cases l) (simp_all only:, code_simp+)

lemma edge_header_one_line: "list_all one_line ([''from'', ''to''] @ edge_columns t)"
proof -
  have "list_all one_line [''from'', ''to'', ''timestamp'', ''activity_id'', ''event_id'', ''dst_port'', ''protocol'', ''direction'']"
    by code_simp
  then show ?thesis by (simp add: edge_columns_def)
qed

definition table_ok :: "string list list \<Rightarrow> bool" where
  "table_ok rows \<longleftrightarrow> rows \<noteq> [] \<and> hd rows \<noteq> [] \<and> list_all (\<lambda>r. length r = length (hd rows)) rows \<and> list_all (list_all one_line) rows"

lemma table_ok_parse: "table_ok rows \<Longrightarrow> csv_parse (csv_text rows) = Some rows \<and> count_list (csv_text rows) LF = length rows"
  using csv_parse_text csv_text_lines unfolding table_ok_def list_all_iff by (metis length_0_conv)

lemma node_files_ok: "(\<And>t. one_line (fmt t)) \<Longrightarrow> (t, rows) \<in> set (node_files fmt a) \<Longrightarrow> table_ok rows"
proof -
  assume one: "\<And>t. one_line (fmt t)" and "(t, rows) \<in> set (node_files fmt a)"
  then obtain l where "rows = node_header l # node_rows fmt a l"
    by (auto simp: node_files_def map_filter_def split: if_splits)
  moreover have "node_header l \<noteq> []" by (cases l) (simp_all add: node_header_def)
  ultimately show ?thesis
    using node_rows_shape [OF one] node_header_one_line by (simp add: table_ok_def list_all_iff)
qed

lemma edge_files_ok:
  assumes "\<And>t. one_line (fmt t)" "\<And>t r. r \<in> set (valid_edges a t) \<Longrightarrow> rl_type r = t" "(t, rows) \<in> set (edge_files fmt a)"
  shows "table_ok rows"
proof -
  from assms(3) obtain u where rows: "rows = ([''from'', ''to''] @ edge_columns u) # map (edge_fields fmt) (valid_edges a u)"
    by (auto simp: edge_files_def map_filter_def split: if_splits)
  have "length (edge_fields fmt r) = length ([''from'', ''to''] @ edge_columns u) \<and> list_all one_line (edge_fields fmt r)"
    if "r \<in> set (valid_edges a u)" for r
    using edge_fields_shape [OF assms(1)] assms(2) [OF that] by simp
  with edge_header_one_line [of u] show ?thesis
    unfolding rows table_ok_def by (simp add: list_all_iff)
qed

section \<open>What is collected\<close>

text \<open>A bucket holds relationships of its own type under their two ends.\<close>

definition bucket :: "(string, edge_bucket) dict \<Rightarrow> string \<Rightarrow> edge_bucket" where
  "bucket es t = d_get_or es t []"

definition buckets_ok :: "(string, edge_bucket) dict \<Rightarrow> bool" where
  "buckets_ok es \<longleftrightarrow> (\<forall>t k r. (k, r) \<in> set (bucket es t) \<longrightarrow> rl_type r = t \<and> k = (rl_from r, rl_to r))"

definition real_edge :: "rel \<Rightarrow> bool" where
  "real_edge r \<longleftrightarrow> rl_from r \<noteq> [] \<and> rl_to r \<noteq> []"

lemma bucket_add: "bucket (add_edge r es) t = (if real_edge r \<and> t = rl_type r then put_edge r (bucket es t) else bucket es t)"
  by (simp add: add_edge_def real_edge_def bucket_def d_get_or_get d_get_alter)

lemma set_d_set: "set (d_set k v d) \<subseteq> insert (k, v) (set d)" "length (d_set k v d) \<le> Suc (length d)"
  by (induction d) (auto simp: d_set_def)

lemma add_edge_ok: "buckets_ok es \<Longrightarrow> buckets_ok (add_edge r es)"
  using set_d_set(1) [of "(rl_from r, rl_to r)" r] unfolding buckets_ok_def
  by (force simp: bucket_add put_edge_def split: if_splits)

lemma fold_edges_ok: "buckets_ok es \<Longrightarrow> buckets_ok (fold add_edge rs es)"
  by (induction rs arbitrary: es) (auto intro: add_edge_ok)

lemma new_buckets: "bucket (ac_edges new_accum) t = []"
proof -
  have "bucket (map (\<lambda>(u, _). (u, [])) ts) t = []" for ts :: "(string, label \<times> label) dict"
    by (induction ts) (auto simp: bucket_def d_get_or_def)
  then show ?thesis by (simp add: new_accum_def)
qed

lemma fold_edges_keys:
  "length (bucket es t) + length rs \<le> MAX_EDGES_PER_TYPE \<Longrightarrow>
     fst ` set (bucket (fold add_edge rs es) t)
     = fst ` set (bucket es t) \<union> (\<lambda>r. (rl_from r, rl_to r)) ` {r \<in> set rs. real_edge r \<and> rl_type r = t}"
proof (induction rs arbitrary: es)
  case (Cons r rs)
  have "length (bucket (add_edge r es) t) + length rs \<le> MAX_EDGES_PER_TYPE"
    using Cons.prems set_d_set(2) [of "(rl_from r, rl_to r)" r "bucket es t"]
    by (cases "t = rl_type r") (auto simp: bucket_add put_edge_def)
  from Cons.IH [OF this] Cons.prems show ?case
    by (auto simp: bucket_add put_edge_def d_set_keys)
qed simp

lemma keep_newer_keys: "fst ` set (keep_newer isof key seen x d) = fst ` set d \<union> (if key x = [] then {} else {key x})"
  using d_get_None [of d "key x"] by (auto simp: keep_newer_def d_set_keys split: option.split)

lemma fold_newer_keys: "fst ` set (fold (keep_newer isof key seen) xs d) = fst ` set d \<union> (key ` set xs - {[]})"
  by (induction xs arbitrary: d) (auto simp: keep_newer_keys)

lemma fold_last_keys: "fst ` set (fold keep_last ps d) = fst ` set d \<union> (pn_id ` set ps - {[]})"
  by (induction ps arbitrary: d) (auto simp: keep_last_def d_set_keys)

lemma collect_row_ids: "set (valid_ids (collect_row isof e a) l) = set (valid_ids a l) \<union> (entity_ids e l - {[]})"
  by (cases l) (simp_all add: valid_ids_def collect_row_def d_keys_def fold_newer_keys fold_last_keys entity_ids_def)

lemma collect_ids: "set (valid_ids (collect isof es) l) = batch_ids es l - {[]}"
proof -
  have "set (valid_ids (fold (collect_row isof) es a) l) = set (valid_ids a l) \<union> (batch_ids es l - {[]})" for a
    by (induction es arbitrary: a) (auto simp: collect_row_ids batch_ids_def)
  moreover have "valid_ids new_accum l = []"
    by (simp add: valid_ids_def new_accum_def d_keys_def split: label.split)
  ultimately show ?thesis by (simp add: collect_def)
qed

definition row_rels :: "entities list \<Rightarrow> rel list" where
  "row_rels es = concat (map (\<lambda>e. batch_rels [e]) es)"

lemma collect_edges: "ac_edges (collect isof es) = fold add_edge (row_rels es) (ac_edges new_accum)"
proof -
  have "ac_edges (fold (collect_row isof) es a) = fold add_edge (row_rels es) (ac_edges a)" for a
    by (induction es arbitrary: a) (simp_all add: row_rels_def collect_row_def)
  then show ?thesis by (simp add: collect_def)
qed

lemma row_rels_batch: "set (row_rels es) = set (batch_rels es)" "length (row_rels es) = length (batch_rels es)"
  by (induction es) (auto simp: row_rels_def batch_rels_def)

lemma collected_ok: "buckets_ok (ac_edges (collect isof es))"
  unfolding collect_edges by (rule fold_edges_ok) (simp add: buckets_ok_def new_buckets)

lemma valid_edges_type: "r \<in> set (valid_edges (collect isof es) t) \<Longrightarrow> rl_type r = t"
  using collected_ok [of isof es] by (auto simp: valid_edges_def buckets_ok_def bucket_def split: option.splits)

section \<open>Properties of the export\<close>

text \<open>C30. Every exported file reads back, record for record: whatever bytes an attacker puts into a command line, a path or a
  registry value, no record is split, none is added and every one has the columns of the header.\<close>

theorem export_reads_back:
  assumes "\<And>t. one_line (fmt t)" "(t, text) \<in> set (export_entities_csv isof fmt start end s)"
  shows "\<exists>rows. (t, rows) \<in> set (node_files fmt (collect isof (iter_entities start end s)) @ edge_files fmt (collect isof (iter_entities start end s)))
    \<and> csv_parse text = Some rows \<and> count_list text LF = length rows \<and> list_all (\<lambda>r. length r = length (hd rows)) rows"
proof -
  let ?a = "collect isof (iter_entities start end s)"
  from assms(2) obtain rows where rows: "(t, rows) \<in> set (node_files fmt ?a @ edge_files fmt ?a)" "text = csv_text rows"
    by (auto simp: export_entities_csv_def Let_def)
  then have "table_ok rows" using node_files_ok edge_files_ok assms(1) valid_edges_type by (metis Un_iff set_append)
  with table_ok_parse rows show ?thesis by (auto simp: table_ok_def)
qed

text \<open>The graph built from the ledger has the nodes and the connections of the graph that the same batch writes, apart from
  what has no id, as long as the cap on the edges is not reached; so no exported edge dangles.\<close>

theorem export_agrees_with_graph:
  assumes "length (batch_rels es) \<le> MAX_EDGES_PER_TYPE"
  shows "set (valid_ids (collect isof es) l) = set (node_ids (write_batch now es empty_graph) l) - {[]}
    \<and> (\<lambda>r. (rl_from r, rl_to r)) ` set (valid_edges (collect isof es) t)
      = (\<lambda>r. (rl_from r, rl_to r)) ` {r \<in> set (gd_rels (write_batch now es empty_graph)). real_edge r \<and> rl_type r = t}"
proof -
  let ?ends = "\<lambda>r. (rl_from r, rl_to r)" and ?b = "bucket (ac_edges (collect isof es)) t"
  have "node_ids empty_graph m = []" for m by (cases m) (simp_all add: node_ids_def empty_graph_def d_keys_def)
  then have ids: "set (node_ids (write_nodes now es empty_graph) m) = batch_ids es m" for m by (simp add: write_nodes_ids)
  have rels: "gd_rels (write_batch now es empty_graph) = filter (linked (write_nodes now es empty_graph)) (batch_rels es)"
    by (simp add: write_batch_def fold_create_rels write_nodes_rels) (simp add: empty_graph_def)
  have keys: "fst ` set ?b = ?ends ` {r \<in> set (batch_rels es). real_edge r \<and> rl_type r = t}"
    using fold_edges_keys [of "ac_edges new_accum" t "row_rels es"] assms
    by (simp add: collect_edges new_buckets row_rels_batch)
  have ends: "fst ` set (filter (\<lambda>x. P (fst x)) ?b) = ?ends ` set (filter (\<lambda>r. P (?ends r)) (map snd ?b))" for P
    using collected_ok [of isof es] by (force simp: buckets_ok_def image_iff)
  have "?ends ` set (valid_edges (collect isof es) t)
      = ?ends ` {r \<in> set (gd_rels (write_batch now es empty_graph)). real_edge r \<and> rl_type r = t}"
  proof (cases "d_get REL_TABLES t")
    case None
    then show ?thesis by (auto simp: valid_edges_def rels linked_def)
  next
    case (Some p)
    obtain f u where p: "p = (f, u)" by (cases p)
    let ?P = "\<lambda>(a, b). a \<in> batch_ids es f - {[]} \<and> b \<in> batch_ids es u - {[]}"
    have "?ends ` set (valid_edges (collect isof es) t) = fst ` set (filter (\<lambda>x. ?P (fst x)) ?b)"
      unfolding ends by (simp add: valid_edges_def Some p collect_ids bucket_def)
    also have "\<dots> = {k \<in> fst ` set ?b. ?P k}" by auto
    also have "\<dots> = ?ends ` {r \<in> set (batch_rels es). real_edge r \<and> rl_type r = t \<and> ?P (?ends r)}"
      unfolding keys by auto
    also have "{r \<in> set (batch_rels es). real_edge r \<and> rl_type r = t \<and> ?P (?ends r)}
        = {r \<in> set (gd_rels (write_batch now es empty_graph)). real_edge r \<and> rl_type r = t}"
      using Some p by (auto simp: rels linked_def ids real_edge_def)
    finally show ?thesis .
  qed
  then show ?thesis by (auto simp: collect_ids ids write_batch_def fold_create_ids)
qed

text \<open>A bucket that is full keeps what it has: the newer edge between two known nodes is dropped too.\<close>

lemma full_bucket_keeps_old: "MAX_EDGES_PER_TYPE \<le> length (bucket es t) \<Longrightarrow> bucket (add_edge r es) t = bucket es t"
  by (cases "t = rl_type r") (auto simp: bucket_add put_edge_def)

lemma listening_not_exported: "d_get (edge_files fmt a) ''LISTENING_ON'' = None"
proof -
  have "fst ` set (edge_files fmt a) \<subseteq> set EXPORTED_EDGES" by (auto simp: edge_files_def map_filter_def)
  moreover have "''LISTENING_ON'' \<notin> set EXPORTED_EDGES" by code_simp
  ultimately show ?thesis by (auto simp: d_get_None)
qed

section \<open>Names that collide\<close>

definition files_keyed :: "(string, file_node) dict \<Rightarrow> bool" where
  "files_keyed d \<longleftrightarrow> (\<forall>(k, v) \<in> set d. fn_id v = k)"

lemma newer_file_keyed: "files_keyed d \<Longrightarrow> files_keyed (keep_newer isof fn_id fn_last_seen x d)"
  using set_d_set(1) [of "fn_id x" x d] by (auto simp: files_keyed_def keep_newer_def split: option.splits)

lemma newer_files_keyed: "files_keyed d \<Longrightarrow> files_keyed (fold (keep_newer isof fn_id fn_last_seen) xs d)"
  by (induction xs arbitrary: d) (simp_all add: newer_file_keyed)

lemma collect_files_keyed: "files_keyed (ac_files (collect isof es))"
proof -
  have "files_keyed (ac_files (fold (collect_row isof) es a))" if "files_keyed (ac_files a)" for a
    using that
  proof (induction es arbitrary: a)
    case (Cons e es)
    have "files_keyed (ac_files (collect_row isof e a))"
      using newer_files_keyed [OF Cons.prems] by (simp add: collect_row_def)
    with Cons.IH show ?case by simp
  qed simp
  moreover have "files_keyed (ac_files new_accum)" by (simp add: new_accum_def files_keyed_def)
  ultimately show ?thesis unfolding collect_def by blast
qed

lemma copy_nodes_fails:
  "t \<in> set ts \<Longrightarrow> d_get csvs t = Some c \<Longrightarrow> (\<And>db. copy t c db = None) \<Longrightarrow> copy_nodes copy csvs ts db = None"
  by (induction ts arbitrary: db) (auto split: option.split)

lemma file_table:
  assumes "ac_files (collect isof (iter_entities start end s)) \<noteq> []"
  shows "d_get (export_entities_csv isof fmt start end s) ''File''
    = Some (csv_text (node_header L_File # map (file_fields fmt \<circ> snd) (ac_files (collect isof (iter_entities start end s)))))"
  using assms by (auto simp: export_entities_csv_def Let_def node_files_def map_filter_def LABELS_def label_table_def
      d_get_def node_rows_def)

definition rejects_duplicates :: "'db copier \<Rightarrow> bool" where
  "rejects_duplicates copy \<longleftrightarrow> (\<forall>l c rows db. csv_parse c = Some rows \<longrightarrow> \<not> distinct (map hd (tl rows)) \<longrightarrow> copy (label_table l) c db = None)"

text \<open>Two files whose names differ only in a line end against a blank become one key in the export.  \<open>COPY\<close> rejects
  duplicate keys, so the whole graph is lost to whoever asks for it, and its directory stays behind.\<close>

theorem colliding_names_lose_graph:
  assumes "rejects_duplicates copy" "\<And>t. one_line (fmt t)"
    "f \<in> set (valid_ids (collect isof (iter_entities start end s)) L_File)"
    "g \<in> set (valid_ids (collect isof (iter_entities start end s)) L_File)" "f \<noteq> g" "san f = san g"
  shows "with_transient_graph copy blank (Some (export_entities_csv isof fmt start end s)) body d
    = (None, d\<lparr>td_next := td_next d + 1, td_live := td_live d @ [td_next d]\<rparr>)"
proof -
  let ?d = "ac_files (collect isof (iter_entities start end s))"
  let ?rows = "node_header L_File # map (file_fields fmt \<circ> snd) ?d"
  from assms(3,4) obtain x y where xy: "(f, x) \<in> set ?d" "(g, y) \<in> set ?d"
    by (auto simp: valid_ids_def d_keys_def)
  have heads: "map hd (tl ?rows) = map (san \<circ> fst) ?d"
    using collect_files_keyed [of isof "iter_entities start end s"] by (auto simp: file_fields_def files_keyed_def)
  have "\<not> inj_on (san \<circ> fst) (set ?d)"
    using xy assms(5,6) by (force simp: inj_on_def)
  then have "\<not> distinct (map hd (tl ?rows))" unfolding heads by (simp add: distinct_map)
  moreover have "csv_parse (csv_text ?rows) = Some ?rows"
    by (rule csv_parse_text) (simp add: node_header_def file_fields_def list_all_iff)
  ultimately have fails: "copy ''File'' (csv_text ?rows) db = None" for db
    using assms(1) unfolding rejects_duplicates_def by (metis label_table_def label.simps(35))
  have "?d \<noteq> []" using xy by auto
  moreover have "''File'' \<in> set (map label_table LABELS)" by (simp add: LABELS_def label_table_def)
  ultimately have "copy_nodes copy (export_entities_csv isof fmt start end s) (map label_table LABELS) blank = None"
    using copy_nodes_fails [where copy = copy] file_table fails by metis
  then show ?thesis by (simp add: with_transient_graph_def transient_enter_def mkdtemp_def load_csvs_def)
qed

section \<open>The graph that is kept\<close>

definition dirs_ok :: "tmpdirs \<Rightarrow> bool" where
  "dirs_ok d \<longleftrightarrow> list_all (\<lambda>i. i < td_next d) (td_live d)"

text \<open>The directories of the warm graph: those that were there before and the one that is current.\<close>

definition warm_inv :: "nat list \<Rightarrow> 'db warm_graph \<Rightarrow> bool" where
  "warm_inv old w \<longleftrightarrow> dirs_ok (wg_dirs w) \<and> (case wg_current w of None \<Rightarrow> td_live (wg_dirs w) = old
     | Some (i, _) \<Rightarrow> td_live (wg_dirs w) = old @ [i] \<and> i \<notin> set old)"

lemma live_after_rm: "j \<notin> set xs \<Longrightarrow> filter (\<lambda>i. i \<noteq> j) (xs @ j # ys) = xs @ filter (\<lambda>i. i \<noteq> j) ys"
  by (simp add: filter_id_conv) (metis filter_True)

lemma rebuild_inv: "warm_inv old w \<Longrightarrow> warm_inv old (rebuild_loop_step copy blank csvs w)"
proof (cases "wg_current w")
  case None
  assume inv: "warm_inv old w"
  let ?i = "td_next (wg_dirs w)"
  from inv None have o: "td_live (wg_dirs w) = old" "list_all (\<lambda>i. i < ?i) old" by (auto simp: warm_inv_def dirs_ok_def)
  then have fresh: "?i \<notin> set old" by (auto simp: list_all_iff)
  then have drop: "filter (\<lambda>j. j \<noteq> ?i) old = old" by (auto simp: filter_id_conv)
  have "list_all (\<lambda>i. i < Suc ?i) old" using o(2) by (auto simp: list_all_iff)
  then show ?thesis
    using o fresh drop None
    by (auto simp: rebuild_loop_step_def rebuild_def mkdtemp_def warm_inv_def dirs_ok_def rmtree_def Let_def split: option.split)
next
  case (Some p)
  assume inv: "warm_inv old w"
  obtain k db where p: "p = (k, db)" by (cases p)
  let ?i = "td_next (wg_dirs w)"
  from inv Some p have o: "td_live (wg_dirs w) = old @ [k]" "list_all (\<lambda>i. i < ?i) old" "k < ?i" "k \<notin> set old"
    by (auto simp: warm_inv_def dirs_ok_def)
  then have fresh: "?i \<notin> set old" "?i \<noteq> k" "k \<noteq> ?i" by (auto simp: list_all_iff)
  with o(4) have drop: "filter (\<lambda>j. j \<noteq> ?i) old = old" "filter (\<lambda>j. j \<noteq> k) old = old" by (auto simp: filter_id_conv)
  have "list_all (\<lambda>i. i < Suc ?i) old" using o(2) by (auto simp: list_all_iff)
  then show ?thesis
    using o fresh drop Some p
    by (auto simp: rebuild_loop_step_def rebuild_def mkdtemp_def warm_inv_def dirs_ok_def rmtree_def Let_def split: option.split)
qed

lemma rebuild_keeps_serving: "wg_current w \<noteq> None \<Longrightarrow> wg_current (rebuild_loop_step copy blank csvs w) \<noteq> None"
  by (auto simp: rebuild_loop_step_def rebuild_def Let_def mkdtemp_def split: option.split)

lemma rebuilds_inv: "warm_inv old w \<Longrightarrow> warm_inv old (fold (rebuild_loop_step copy blank) cs w)"
  by (induction cs arbitrary: w) (simp_all add: rebuild_inv)

text \<open>However the rebuilds end, with a graph, with nothing to load or with an error, one directory at most is
  in use beside those of others, and stopping removes it.\<close>

theorem rebuilds_do_not_leak:
  assumes "dirs_ok d"
  shows "let w = fold (rebuild_loop_step copy blank) cs (new_warm_graph d) in
    td_live (wg_dirs w) = td_live d @ (case wg_current w of None \<Rightarrow> [] | Some (i, _) \<Rightarrow> [i])
    \<and> td_live (wg_dirs (stop_warm_graph w)) = td_live d"
proof -
  let ?w = "fold (rebuild_loop_step copy blank) cs (new_warm_graph d)"
  have inv: "warm_inv (td_live d) ?w"
    by (rule rebuilds_inv) (simp add: warm_inv_def new_warm_graph_def assms)
  then show ?thesis
    using live_after_rm [of _ "td_live d" "[]"]
    by (auto simp: Let_def warm_inv_def stop_warm_graph_def rmtree_def split: option.splits)
qed

text \<open>A rebuild that fails or finds nothing still makes the graph ready, so a caller that waits for it is told that it
  is and then cannot connect.\<close>

theorem ready_without_graph:
  "let w = rebuild_loop_step copy blank None (new_warm_graph d) in
     wg_ready w \<and> get_connection w = Inl (RuntimeError ''Warm graph not initialized'')"
  by (simp add: rebuild_loop_step_def rebuild_def new_warm_graph_def mkdtemp_def get_connection_def Let_def)

section \<open>Witnesses\<close>

definition touched :: "string \<Rightarrow> entities" where
  "touched p = empty_entities\<lparr>processes := [curl_node], files := [(seen_file None 5000000)\<lparr>fn_id := p, fn_path := p\<rparr>],
     file_edges := [\<lparr>fe_process_id = ''h:7:100'', fe_file_id = p, fe_operation = ''CREATED'', fe_timestamp = 5000000, fe_event_id = 1\<rparr>]\<rparr>"

definition touched_ledger :: "string list \<Rightarrow> ledger_row recorder" where
  "touched_ledger ps = (new_recorder 0)\<lparr>rc_rows := map (\<lambda>p. (0, (ledger_row_of sample_dns (touched p))\<lparr>lr_ts := 5\<rparr>)) ps\<rparr>"

definition broken_name :: string where
  "broken_name = ''/tmp/a'' @ LF # ''b''"

lemma int_str_lines: "one_line (int_str t)"
  by simp

lemma touched_rows: "iter_entities 0 9 (touched_ledger [p]) = [touched p]" "iter_entities 0 9 (touched_ledger [p, q]) = [touched p, touched q]"
  by (simp_all add: iter_entities_def touched_ledger_def stored_rows_def ledger_row_of_def)

lemma touched_files: "set (valid_ids (collect isof (iter_entities 0 9 (touched_ledger [p, q]))) L_File) = {p, q} - {[]}"
  by (simp add: touched_rows collect_ids batch_ids_def entity_ids_def) (auto simp: touched_def)

lemma broken_file: "map fst (ac_files (collect isof (iter_entities 0 9 (touched_ledger [broken_name])))) = [broken_name]"
  by (simp add: touched_rows collect_def collect_row_def new_accum_def)
    (simp add: touched_def keep_newer_def d_set_def broken_name_def)

theorem export_reads_back_witness:
  "\<exists>rows. csv_parse (the (d_get (export_entities_csv int_str int_str 0 9 (touched_ledger [broken_name])) ''File'')) = Some rows \<and> length rows = 2"
proof -
  let ?a = "collect int_str (iter_entities 0 9 (touched_ledger [broken_name]))"
  let ?t = "the (d_get (export_entities_csv int_str int_str 0 9 (touched_ledger [broken_name])) ''File'')"
  let ?rows = "node_header L_File # map (file_fields int_str \<circ> snd) (ac_files ?a)"
  have "ac_files ?a \<noteq> []" using broken_file [of int_str] by force
  note tab = file_table [OF this, where fmt = int_str]
  from tab have t: "?t = csv_text ?rows" by simp
  from d_get_in [OF tab] t have "(''File'', ?t) \<in> set (export_entities_csv int_str int_str 0 9 (touched_ledger [broken_name]))"
    by simp
  from export_reads_back [OF int_str_lines this] obtain rows where "csv_parse ?t = Some rows" by blast
  moreover have "csv_parse ?t = Some ?rows"
    unfolding t by (rule csv_parse_text) (simp add: node_header_def file_fields_def list_all_iff)
  moreover have "length ?rows = 2" using arg_cong [OF broken_file [of int_str], of length] by simp
  ultimately show ?thesis by metis
qed

theorem export_agrees_with_graph_witness:
  "set (valid_ids (collect int_str [touched ''/tmp/a b'']) L_File) = {''/tmp/a b''}
   \<and> (\<lambda>r. (rl_from r, rl_to r)) ` set (valid_edges (collect int_str [touched ''/tmp/a b'']) ''CREATED_FILE'') = {(''h:7:100'', ''/tmp/a b'')}"
proof -
  let ?es = "[touched ''/tmp/a b'']"
  have "length (batch_rels ?es) \<le> MAX_EDGES_PER_TYPE"
    by (simp add: batch_rels_def touched_def empty_entities_def MAX_EDGES_PER_TYPE_def)
  note * = export_agrees_with_graph [OF this, where isof = int_str and now = 0 and l = L_File and t = "''CREATED_FILE''"]
  have "closed_entities (touched ''/tmp/a b'')"
    by (simp add: touched_def closed_entities_def empty_entities_def curl_node_def seen_file_def)
  with closed_linked [of ?es] have "filter (linked (write_nodes 0 ?es empty_graph)) (batch_rels ?es) = batch_rels ?es"
    by (simp add: filter_id_conv)
  moreover have "gd_rels empty_graph = []" "node_ids empty_graph L_File = []" by (simp_all add: empty_graph_def node_ids_def d_keys_def)
  ultimately have w: "gd_rels (write_batch 0 ?es empty_graph) = batch_rels ?es"
    "set (node_ids (write_batch 0 ?es empty_graph) L_File) = batch_ids ?es L_File"
    by (simp_all add: write_batch_def fold_create_rels fold_create_ids write_nodes_rels write_nodes_ids)
  have "batch_ids ?es L_File = {''/tmp/a b''}" by (simp add: batch_ids_def entity_ids_def touched_def seen_file_def)
  moreover have "{r \<in> set (batch_rels ?es). real_edge r \<and> rl_type r = ''CREATED_FILE''} = set (batch_rels ?es)"
    "(\<lambda>r. (rl_from r, rl_to r)) ` set (batch_rels ?es) = {(''h:7:100'', ''/tmp/a b'')}"
    by (auto simp: batch_rels_def touched_def empty_entities_def real_edge_def file_rel_def plain_rel_def d_get_or_def)
  ultimately show ?thesis using * by (simp add: w)
qed

text \<open>A \<open>COPY\<close> that counts what it loads and rejects duplicate keys.\<close>

definition counting_copy :: "nat copier" where
  "counting_copy t c n = (case csv_parse c of None \<Rightarrow> None
     | Some rows \<Rightarrow> if distinct (map hd (tl rows)) \<or> t \<in> set EDGE_TABLES then Some (n + length rows - 1) else None)"

theorem colliding_names_lose_graph_witness:
  "fst (with_transient_graph counting_copy 0
     (Some (export_entities_csv int_str int_str 0 9 (touched_ledger [''/tmp/a b'', broken_name]))) (\<lambda>n. n) \<lparr>td_next = 0, td_live = []\<rparr>) = None"
proof -
  have "label_table l \<notin> set EDGE_TABLES" for l by (cases l) (simp_all only:, code_simp+)
  then have c: "rejects_duplicates counting_copy"
    by (auto simp: rejects_duplicates_def counting_copy_def)
  have "''/tmp/a b'' \<noteq> broken_name" "san ''/tmp/a b'' = san broken_name" by code_simp+
  moreover have "''/tmp/a b'' \<in> {''/tmp/a b'', broken_name} - {[]}" "broken_name \<in> {''/tmp/a b'', broken_name} - {[]}"
    by (simp_all add: broken_name_def)
  ultimately show ?thesis
    using colliding_names_lose_graph [OF c, of int_str "''/tmp/a b''" int_str 0 9 "touched_ledger [''/tmp/a b'', broken_name]" broken_name,
        unfolded touched_files, OF int_str_lines]
    by (metis fst_conv)
qed

theorem rebuilds_do_not_leak_witness:
  "td_live (wg_dirs (fold (rebuild_loop_step counting_copy 0) [Some [], Some [(''User'', csv_text [[''id''], [''u'']])], None]
     (new_warm_graph \<lparr>td_next = 4, td_live = [2]\<rparr>))) = [2, 5]"
proof -
  let ?w = "fold (rebuild_loop_step counting_copy 0) [Some [], Some [(''User'', csv_text [[''id''], [''u'']])], None]
     (new_warm_graph \<lparr>td_next = 4, td_live = [2]\<rparr>)"
  have "dirs_ok \<lparr>td_next = 4, td_live = [2]\<rparr>" by (simp add: dirs_ok_def)
  note * = rebuilds_do_not_leak [OF this, of counting_copy 0 "[Some [], Some [(''User'', csv_text [[''id''], [''u'']])], None]"]
  have "map_option fst (wg_current ?w) = Some 5" by code_simp
  then obtain db where "wg_current ?w = Some (5, db)" by auto
  with * show ?thesis by (simp only: Let_def option.case prod.case tmpdirs.simps append.simps)
qed

end
