(* ===== verification/ProcessChain.thy ===== *)
theory ProcessChain
  imports GraphStore LedgerQuery Engine EntityExtractor
begin

text \<open>
  The ancestry of a process (\<open>agent/graph/queries.py\<close>, first half): the three places a process is looked up
  (graph, forensic ledger, operating system), the walk to the root, the user on top, and the conversion to
  chain steps.  Lookups may evict stale ids from the process index, so they pass the graph on.  Python's
  dictionary for a process is a row of the process table with two more columns.  Rows that a query does not
  order come in the order of the table.
\<close>

section \<open>Processes and where they are found\<close>

text \<open>\<open>container_id\<close> is \<open>None\<close> while the key is absent; \<open>_username\<close> is the hint of the third lookup.\<close>

record found_process = process_node +
  fp_container_id :: "string option"
  fp_username :: string

record live_process =
  lp_name :: string
  lp_cmdline :: "string list option"
  lp_exe :: "string option"
  lp_ppid :: "int option"
  lp_username :: "string option"
  lp_create_time :: "datetime option"

text \<open>What the system answers: \<open>psutil\<close> (no process: it raises; a field that may not be read is \<open>None\<close>), the ledger
  if one is open, the host name, and \<open>get_container_id\<close>.\<close>

record lookup_env =
  lk_live :: "int \<Rightarrow> live_process option"
  lk_ledger :: "ledger_row recorder option"
  lk_hostname :: string
  lk_container :: "int \<Rightarrow> string"

definition ledger_process :: "string \<Rightarrow> int \<Rightarrow> ledger_row \<Rightarrow> found_process" where
  "ledger_process self pid r =
     (let host = (case lr_hostname r of Some h \<Rightarrow> if h \<noteq> [] then h else self | None \<Rightarrow> self)
      in \<lparr>pn_id = node_id host pid (lr_ts r), pn_name = none_or [] (lr_process_name r), pn_pid = pid,
          pn_cmd_line = Some [], pn_exe_path = Some [], pn_hostname = host, pn_start_time = None,
          pn_parent_pid = lr_parent_pid r, pn_bundle_id = Some [], pn_code_signed = None, pn_signing_authority = Some [],
          fp_container_id = None, fp_username = []\<rparr>)"

definition query_process_from_ledger :: "lookup_env \<Rightarrow> int \<Rightarrow> datetime option \<Rightarrow> found_process option" where
  "query_process_from_ledger env pid ts =
     (case lk_ledger env of None \<Rightarrow> None
      | Some l \<Rightarrow> (case query_by_pid pid None 1 l of [] \<Rightarrow> None
         | (_, r) # _ \<Rightarrow> (case ts of
             Some t \<Rightarrow> if lr_ts r > t then None else Some (ledger_process (lk_hostname env) pid r)
           | None \<Rightarrow> Some (ledger_process (lk_hostname env) pid r))))"

definition live_created :: "live_process \<Rightarrow> datetime" where
  "live_created p = none_or 0 (lp_create_time p)"

definition live_found :: "lookup_env \<Rightarrow> int \<Rightarrow> live_process \<Rightarrow> found_process" where
  "live_found env pid p =
     \<lparr>pn_id = node_id (lk_hostname env) pid (live_created p), pn_name = lp_name p, pn_pid = pid,
      pn_cmd_line = Some (case lp_cmdline p of None \<Rightarrow> [] | Some ws \<Rightarrow> join_with '' '' ws),
      pn_exe_path = Some (none_or [] (lp_exe p)), pn_hostname = lk_hostname env, pn_start_time = None,
      pn_parent_pid = Some (none_or 0 (lp_ppid p)), pn_bundle_id = Some [], pn_code_signed = None,
      pn_signing_authority = Some [], fp_container_id = Some (lk_container env pid),
      fp_username = none_or [] (lp_username p)\<rparr>"

definition query_process_from_os :: "lookup_env \<Rightarrow> int \<Rightarrow> datetime option \<Rightarrow> found_process option" where
  "query_process_from_os env pid ts =
     (case lk_live env pid of None \<Rightarrow> None
      | Some p \<Rightarrow> (case ts of
          Some t \<Rightarrow> if epoch_seconds (live_created p) * 1000000 > t then None else Some (live_found env pid p)
        | None \<Rightarrow> Some (live_found env pid p)))"

definition graph_found :: "process_node \<Rightarrow> found_process" where
  "graph_found r = process_node.extend r (found_process.fields None [])"

text \<open>The newest id whose row exists, and the ids before it, which have none.\<close>

fun newest_row :: "graph \<Rightarrow> string list \<Rightarrow> process_node option \<times> string list" where
  "newest_row g [] = (None, [])"
| "newest_row g (i # is) = (case d_get (gd_processes g) i of
     Some r \<Rightarrow> (Some r, [])
   | None \<Rightarrow> (case newest_row g is of (r, dead) \<Rightarrow> (r, i # dead)))"

definition evict :: "string list \<Rightarrow> graph \<Rightarrow> graph" where
  "evict dead g = g\<lparr>gd_index := snd (remove_nodes dead (gd_index g))\<rparr>"

definition rows_of_pid :: "graph \<Rightarrow> int \<Rightarrow> process_node list" where
  "rows_of_pid g pid = filter (\<lambda>r. pn_pid r = pid) (map snd (gd_processes g))"

definition head_opt :: "'a list \<Rightarrow> 'a option" where
  "head_opt xs = (case xs of [] \<Rightarrow> None | x # _ \<Rightarrow> Some x)"

definition query_process_fields :: "int \<Rightarrow> datetime option \<Rightarrow> graph \<Rightarrow> found_process option \<times> graph" where
  "query_process_fields pid ts g =
     (if built (gd_index g)
      then (case ts of
          Some t \<Rightarrow> (case get_node_id_at_time (gd_index g) pid t of None \<Rightarrow> (None, g)
            | Some i \<Rightarrow> (case d_get (gd_processes g) i of Some r \<Rightarrow> (Some (graph_found r), g) | None \<Rightarrow> (None, evict [i] g)))
        | None \<Rightarrow> (case newest_row g (get_node_ids (gd_index g) pid) of (r, dead) \<Rightarrow> (map_option graph_found r, evict dead g)))
      else (map_option graph_found (head_opt (case ts of
          Some t \<Rightarrow> sort_key (\<lambda>r. - none_or 0 (pn_start_time r)) (rows_of_pid g pid)
        | None \<Rightarrow> rows_of_pid g pid)), g))"

text \<open>The graph first, then the ledger, then the system.\<close>

definition find_process :: "lookup_env \<Rightarrow> int \<Rightarrow> datetime option \<Rightarrow> graph \<Rightarrow> found_process option \<times> graph" where
  "find_process env pid ts g = (case query_process_fields pid ts g of
     (Some p, g) \<Rightarrow> (Some p, g)
   | (None, g) \<Rightarrow> (case query_process_from_ledger env pid ts of
       Some p \<Rightarrow> (Some p, g)
     | None \<Rightarrow> (query_process_from_os env pid ts, g)))"

section \<open>The walk\<close>

definition MAX_HOPS :: nat where
  "MAX_HOPS = 20"

text \<open>The ancestors of a process, root first.\<close>

fun walk_up :: "lookup_env \<Rightarrow> datetime option \<Rightarrow> nat \<Rightarrow> found_process \<Rightarrow> int set \<Rightarrow> graph \<Rightarrow> found_process list \<times> graph" where
  "walk_up env ts 0 cur seen g = ([], g)"
| "walk_up env ts (Suc n) cur seen g =
     (let pp = none_or 0 (pn_parent_pid cur)
      in if pp = 0 \<or> pp \<in> seen then ([], g)
         else case find_process env pp ts g of (None, g) \<Rightarrow> ([], g)
           | (Some p, g) \<Rightarrow> (case walk_up env ts n p (insert pp seen) g of (up, g) \<Rightarrow> (up @ [p], g)))"

definition ancestry :: "lookup_env \<Rightarrow> int \<Rightarrow> datetime option \<Rightarrow> graph \<Rightarrow> found_process list \<times> graph" where
  "ancestry env pid ts g = (case find_process env pid ts g of (None, g) \<Rightarrow> ([], g)
     | (Some p, g) \<Rightarrow> (case walk_up env ts MAX_HOPS p {pid} g of (up, g) \<Rightarrow> (up @ [p], g)))"

section \<open>The user on top\<close>

fun first_some :: "('a \<Rightarrow> 'b option) \<Rightarrow> 'a list \<Rightarrow> 'b option" where
  "first_some f [] = None"
| "first_some f (x # xs) = (case f x of Some y \<Rightarrow> Some y | None \<Rightarrow> first_some f xs)"

text \<open>\<open>MATCH (u:User)-[:SPAWNED]->(p {id: i})\<close>: the first row.\<close>

definition spawning_user :: "graph \<Rightarrow> string \<Rightarrow> (string \<times> string option) option" where
  "spawning_user g i =
     (if i = [] then None
      else first_some (\<lambda>r. if rl_type r = ''SPAWNED'' \<and> rl_to r = i
          then map_option (\<lambda>u. (un_id u, un_name u)) (d_get (gd_users g) (rl_from r)) else None) (gd_rels g))"

definition hinted_user :: "found_process \<Rightarrow> (string \<times> string option) option" where
  "hinted_user p = (if fp_username p = [] then None else Some (fp_username p, Some (fp_username p)))"

definition live_user :: "lookup_env \<Rightarrow> found_process \<Rightarrow> (string \<times> string option) option" where
  "live_user env p = (case lk_live env (pn_pid p) of None \<Rightarrow> None
     | Some x \<Rightarrow> (case lp_username x of None \<Rightarrow> None | Some u \<Rightarrow> if u = [] then None else Some (u, Some u)))"

definition chain_user :: "lookup_env \<Rightarrow> graph \<Rightarrow> found_process list \<Rightarrow> (string \<times> string option) option" where
  "chain_user env g ps =
     (case first_some (\<lambda>p. spawning_user g (pn_id p)) (rev ps) of Some u \<Rightarrow> Some u
      | None \<Rightarrow> (case first_some hinted_user (rev ps) of Some u \<Rightarrow> Some u
      | None \<Rightarrow> first_some (live_user env) (rev ps)))"

datatype graph_entry = UserEntry string "string option" | ProcessEntry found_process

definition with_container :: "lookup_env \<Rightarrow> found_process \<Rightarrow> found_process" where
  "with_container env p = (if pn_pid p > 0 \<and> fp_container_id p = None then p\<lparr>fp_container_id := Some (lk_container env (pn_pid p))\<rparr> else p)"

definition get_process_chain :: "lookup_env \<Rightarrow> int \<Rightarrow> datetime option \<Rightarrow> graph \<Rightarrow> graph_entry list \<times> graph" where
  "get_process_chain env pid ts g = (case ancestry env pid ts g of (ps, g) \<Rightarrow>
     ((if ps = [] then [] else case chain_user env g ps of Some (i, n) \<Rightarrow> [UserEntry i n] | None \<Rightarrow> [])
        @ map (\<lambda>p. ProcessEntry (with_container env p)) ps, g))"

section \<open>Chain steps\<close>

fun chain_step_of :: "lookup_env \<Rightarrow> graph_entry \<Rightarrow> chain_step" where
  "chain_step_of env (UserEntry i n) = mk_chain_step ''user'' i (none_or [] n) None"
| "chain_step_of env (ProcessEntry p) =
     (let c = (if pn_pid p > 0 then lk_container env (pn_pid p) else [])
      in \<lparr>cs_entity_type = ''process'', cs_entity_id = pn_id p, cs_entity_name = pn_name p, cs_pid = Some (pn_pid p),
          cs_timestamp = pn_start_time p, cs_cmd_line = pn_cmd_line p, cs_container_id = if c = [] then None else Some c\<rparr>)"

definition graph_chain_to_chainsteps :: "lookup_env \<Rightarrow> graph_entry list \<Rightarrow> chain_step list" where
  "graph_chain_to_chainsteps env es = map (chain_step_of env) es"

fun entry_process :: "graph_entry \<Rightarrow> found_process option" where
  "entry_process (UserEntry i n) = None"
| "entry_process (ProcessEntry p) = Some p"

definition chain_processes :: "graph_entry list \<Rightarrow> found_process list" where
  "chain_processes es = List.map_filter entry_process es"

section \<open>The index and the rows\<close>

text \<open>Every id the index keeps for a pid belongs, if its row still exists, to a process of that pid.\<close>

definition index_sound :: "graph \<Rightarrow> bool" where
  "index_sound g \<longleftrightarrow> index_inv (gd_index g)
     \<and> (\<forall>p. \<forall>i \<in> set (ids_of (gd_index g) p). \<forall>r. d_get (gd_processes g) i = Some r \<longrightarrow> pn_pid r = p)"

lemma evict_fields [simp]:
  "gd_processes (evict dead g) = gd_processes g" "gd_users (evict dead g) = gd_users g" "gd_rels (evict dead g) = gd_rels g"
  by (simp_all add: evict_def)

lemma built_evict [simp]: "built (gd_index (evict dead g)) = built (gd_index g)"
  by (simp add: evict_def remove_nodes_def Let_def)

lemma evict_sound: "index_sound g \<Longrightarrow> index_sound (evict dead g)"
  unfolding index_sound_def evict_def by (auto simp: ids_of_remove remove_inv)

text \<open>Writing a process keeps this, unless its id is taken by a process of another pid.\<close>

lemma upsert_process_sound:
  assumes "index_sound g" "\<And>r. d_get (gd_processes g) (pn_id p) = Some r \<Longrightarrow> pn_pid r = pn_pid p"
    "\<And>q. pn_id p \<in> set (ids_of (gd_index g) q) \<Longrightarrow> q = pn_pid p"
  shows "index_sound (upsert_process now p g)"
  unfolding index_sound_def
proof (intro conjI allI ballI impI)
  show "index_inv (gd_index (upsert_process now p g))"
    using assms(1) by (simp add: index_sound_def upsert_process_def on_upsert_inv)
next
  fix q i r
  assume "i \<in> set (ids_of (gd_index (upsert_process now p g)) q)"
  then have i: "i \<in> set (ids_of (gd_index g) q) \<or> i = pn_id p \<and> q = pn_pid p"
    by (auto simp: upsert_process_def ids_of_upsert split: if_splits)
  assume r: "d_get (gd_processes (upsert_process now p g)) i = Some r"
  show "pn_pid r = q"
  proof (cases "i = pn_id p")
    case True
    with i assms(3) have "q = pn_pid p" by blast
    moreover have "pn_pid r = pn_pid p"
      using r True assms(2) by (auto simp: upsert_process_def merge_node_get process_row_def process_update_def Let_def split: option.splits)
    ultimately show ?thesis by simp
  next
    case False
    with i r assms(1) show ?thesis by (auto simp: index_sound_def upsert_process_def merge_node_get)
  qed
qed

section \<open>One lookup\<close>

lemma split_on_append: "split_on sep (a @ sep # b) = split_on sep a @ split_on sep b"
proof (induction a)
  case (Cons c a)
  then show ?case by (cases "split_on sep a") auto
qed simp

lemma last_split_on: "sep \<notin> set b \<Longrightarrow> last (split_on sep (a @ sep # b)) = b"
  by (simp add: split_on_append split_on_single)

lemma digits_no_colon: "list_all is_digit s \<Longrightarrow> CHR '':'' \<notin> set s"
  by (auto simp: list_all_iff is_digit_def)

lemma int_str_no_colon: "CHR '':'' \<notin> set (int_str n)"
  using digits_no_colon [OF pos_str_digits, of n] digits_no_colon [OF pos_str_digits, of "- n"]
  by (auto simp: int_str_def)

lemma epoch_of_node_id [simp]: "extract_epoch (node_id h p t) = epoch_seconds t"
proof -
  have "last_piece (node_id h p t) = Some (int_str (epoch_seconds t))"
    using last_split_on [OF int_str_no_colon, where a = "h @ CHR '':'' # int_str p"]
    by (simp add: last_piece_def node_id_def)
  moreover have "\<not> is_digit CHR ''-''" by (simp add: is_digit_def)
  ultimately show ?thesis
    by (auto simp: extract_epoch_def int_str_def pos_str_digits dec_val_pos_str)
qed

definition started_by :: "datetime \<Rightarrow> found_process \<Rightarrow> bool" where
  "started_by t p \<longleftrightarrow> extract_epoch (pn_id p) * 1000000 \<le> t"

lemma epoch_seconds_le: "s \<le> t \<Longrightarrow> 0 \<le> t \<Longrightarrow> epoch_seconds s * 1000000 \<le> t"
  proof -
  assume "s \<le> t" "0 \<le> t"
  moreover have "s div 1000000 * 1000000 \<le> s" by (simp add: div_times_less_eq_dividend)
  moreover have "0 \<le> (- s) div 1000000" if "s < 0" using that by (simp add: pos_imp_zdiv_nonneg_iff)
  ultimately show ?thesis by (cases "0 \<le> s") (auto simp: epoch_seconds_def intro: order.trans)
qed

lemma graph_found_simps [simp]:
  "pn_pid (graph_found r) = pn_pid r" "pn_id (graph_found r) = pn_id r" "pn_parent_pid (graph_found r) = pn_parent_pid r"
  by (simp_all add: graph_found_def process_node.defs found_process.defs)

lemma newest_row_in: "newest_row g is = (Some r, dead) \<Longrightarrow> \<exists>i \<in> set is. d_get (gd_processes g) i = Some r"
  by (induction "is" arbitrary: dead) (auto split: option.splits prod.splits)

lemma fields_pid:
  assumes "index_sound g" "query_process_fields pid ts g = (Some p, g')"
  shows "pn_pid p = pid"
proof (cases "built (gd_index g)")
  case True
  have sound: "pn_pid r = pid" if "i \<in> set (ids_of (gd_index g) pid)" "d_get (gd_processes g) i = Some r" for i r
    using assms(1) that by (auto simp: index_sound_def)
  show ?thesis
  proof (cases ts)
    case None
    have "set (get_node_ids (gd_index g) pid) = set (ids_of (gd_index g) pid)" by (simp add: get_node_ids_def ids_of_def)
    with True None assms(2) sound newest_row_in show ?thesis
      by (fastforce simp: query_process_fields_def split: prod.splits)
  next
    case (Some t)
    with True assms(2) sound at_time_spec [of "gd_index g" pid t] show ?thesis
      by (auto simp: query_process_fields_def split: option.splits)
  qed
next
  case False
  with assms(2) obtain xs r where xs: "head_opt xs = Some r" "set xs = set (rows_of_pid g pid)" "p = graph_found r"
    unfolding query_process_fields_def by (cases ts) auto
  then have "r \<in> set (rows_of_pid g pid)" by (cases xs) (auto simp: head_opt_def)
  with xs(3) show ?thesis by (simp add: rows_of_pid_def)
qed

lemma fields_state:
  assumes "query_process_fields pid ts g = (r, g')"
  shows "\<exists>dead. g' = g \<or> g' = evict dead g"
  using assms unfolding query_process_fields_def by (auto split: if_splits option.splits prod.splits)

lemma fields_time:
  assumes "built (gd_index g)" "query_process_fields pid (Some t) g = (Some p, g')" "keyed pn_id (gd_processes g)"
  shows "started_by t p"
proof -
  from assms(1,2) obtain i r where i: "get_node_id_at_time (gd_index g) pid t = Some i" "d_get (gd_processes g) i = Some r" "p = graph_found r"
    by (auto simp: query_process_fields_def split: option.splits)
  with at_time_spec [of "gd_index g" pid t] keyed_get [OF assms(3) i(2)] show ?thesis
    by (auto simp: started_by_def eligible_def)
qed

lemma ledger_found:
  assumes "query_process_from_ledger env pid ts = Some p"
  shows "pn_pid p = pid" "ts = Some t \<Longrightarrow> 0 \<le> t \<Longrightarrow> started_by t p"
  using assms epoch_seconds_le
  by (auto simp: query_process_from_ledger_def ledger_process_def started_by_def Let_def split: option.splits list.splits if_splits)

lemma os_found:
  assumes "query_process_from_os env pid ts = Some p"
  shows "pn_pid p = pid" "ts = Some t \<Longrightarrow> started_by t p"
  using assms by (auto simp: query_process_from_os_def live_found_def started_by_def split: option.splits if_splits)

definition same_tables :: "graph \<Rightarrow> graph \<Rightarrow> bool" where
  "same_tables g g' \<longleftrightarrow> gd_processes g' = gd_processes g \<and> gd_users g' = gd_users g \<and> gd_rels g' = gd_rels g
     \<and> built (gd_index g') = built (gd_index g)"

lemma same_tables_refl [simp]: "same_tables g g"
  by (simp add: same_tables_def)

lemma same_tables_trans: "same_tables g h \<Longrightarrow> same_tables h k \<Longrightarrow> same_tables g k"
  by (simp add: same_tables_def)

text \<open>A lookup only evicts; what it finds has the pid, and did not start after the event.\<close>

lemma find_process_graph:
  assumes "find_process env pid ts g = (r, g')"
  shows "same_tables g g'" "index_sound g \<Longrightarrow> index_sound g'"
proof -
  obtain r1 g1 where q: "query_process_fields pid ts g = (r1, g1)" by fastforce
  with assms have "g' = g1" by (auto simp: find_process_def split: option.splits)
  with fields_state [OF q] evict_sound show "same_tables g g'" "index_sound g \<Longrightarrow> index_sound g'"
    by (auto simp: same_tables_def)
qed

lemma find_process_found:
  assumes "find_process env pid ts g = (Some p, g')" "index_sound g"
  shows "pn_pid p = pid"
    "ts = Some t \<Longrightarrow> 0 \<le> t \<Longrightarrow> built (gd_index g) \<Longrightarrow> keyed pn_id (gd_processes g) \<Longrightarrow> started_by t p"
proof -
  obtain r1 g1 where q: "query_process_fields pid ts g = (r1, g1)" by fastforce
  from assms(1) q consider "r1 = Some p" | "query_process_from_ledger env pid ts = Some p" | "query_process_from_os env pid ts = Some p"
    by (auto simp: find_process_def split: option.splits)
  note cases = this
  from cases show "pn_pid p = pid"
    using q fields_pid [OF assms(2), of pid ts p] ledger_found(1) os_found(1) by cases auto
  assume t: "ts = Some t" "0 \<le> t" "built (gd_index g)" "keyed pn_id (gd_processes g)"
  from cases show "started_by t p"
    using q fields_time [of g pid t p g1] ledger_found(2) os_found(2) t by cases auto
qed

section \<open>The walk\<close>

definition child_of :: "found_process \<Rightarrow> found_process \<Rightarrow> bool" where
  "child_of p q \<longleftrightarrow> pn_parent_pid q = Some (pn_pid p)"

definition timely :: "datetime option \<Rightarrow> graph \<Rightarrow> found_process \<Rightarrow> bool" where
  "timely ts g p \<longleftrightarrow> (\<forall>t. ts = Some t \<and> 0 \<le> t \<and> built (gd_index g) \<and> keyed pn_id (gd_processes g) \<longrightarrow> started_by t p)"

lemma timely_same: "same_tables g g' \<Longrightarrow> timely ts g' p = timely ts g p"
  by (simp add: timely_def same_tables_def)

lemma find_process_timely: "find_process env pid ts g = (Some p, g') \<Longrightarrow> index_sound g \<Longrightarrow> timely ts g p"
  using find_process_found(2) by (auto simp: timely_def)

text \<open>What the walk adds above a process: a line of parents, none of them seen before.\<close>

definition above :: "graph \<Rightarrow> datetime option \<Rightarrow> nat \<Rightarrow> found_process \<Rightarrow> int set \<Rightarrow> found_process list \<Rightarrow> bool" where
  "above g ts n cur seen up \<longleftrightarrow> length up \<le> n \<and> distinct (map pn_pid up) \<and> pn_pid ` set up \<inter> seen = {}
     \<and> successively child_of (up @ [cur]) \<and> list_all (timely ts g) up"

lemma above_step:
  assumes "above g ts n p (insert (pn_pid p) seen) up" "child_of p cur" "pn_pid p \<notin> seen" "timely ts g p"
  shows "above g ts (Suc n) cur seen (up @ [p])"
  using assms unfolding above_def by (auto simp: successively_append_iff)

lemma walk_up_spec:
  assumes "walk_up env ts n cur seen g = (up, g')" "index_sound g"
  shows "same_tables g g' \<and> index_sound g' \<and> above g ts n cur seen up"
  using assms
proof (induction n arbitrary: cur seen g up)
  case 0
  then show ?case by (simp add: above_def)
next
  case (Suc n)
  let ?pp = "none_or 0 (pn_parent_pid cur)"
  obtain r g1 where f: "find_process env ?pp ts g = (r, g1)" by fastforce
  note g1 = find_process_graph [OF f]
  consider "?pp = 0 \<or> ?pp \<in> seen" | "?pp \<noteq> 0" "?pp \<notin> seen" "r = None" | p where "?pp \<noteq> 0" "?pp \<notin> seen" "r = Some p"
    by (cases r) auto
  then show ?case
  proof cases
    case 1
    with Suc.prems have "up = [] \<and> g' = g" by (auto simp: Let_def)
    with Suc.prems(2) show ?thesis by (simp add: above_def)
  next
    case 2
    with Suc.prems f have "up = [] \<and> g' = g1" by (auto simp: Let_def)
    with Suc.prems(2) g1 show ?thesis by (simp add: above_def)
  next
    case (3 p)
    note found = f [unfolded 3(3)]
    have pid: "pn_pid p = ?pp" by (rule find_process_found(1) [OF found Suc.prems(2)])
    from 3 Suc.prems(1) found obtain up1 where up1: "walk_up env ts n p (insert ?pp seen) g1 = (up1, g')" "up = up1 @ [p]"
      by (auto simp: Let_def split: prod.splits)
    from Suc.IH [OF up1(1) g1(2) [OF Suc.prems(2)]] have
      ih: "same_tables g1 g'" "index_sound g'" "above g1 ts n p (insert ?pp seen) up1" by auto
    have "above g ts n p (insert ?pp seen) up1" using ih(3) timely_same [OF g1(1)] by (simp add: above_def list_all_iff)
    moreover have "child_of p cur" using 3(1) pid by (auto simp: child_of_def none_or_def split: option.splits)
    ultimately have "above g ts (Suc n) cur seen up"
      unfolding up1(2) using above_step pid 3(2) find_process_timely [OF found Suc.prems(2)] by metis
    with ih same_tables_trans [OF g1(1) ih(1)] show ?thesis by simp
  qed
qed

lemma ancestry_spec:
  assumes "ancestry env pid ts g = (ps, g')" "index_sound g" "ps \<noteq> []"
  shows "pn_pid (last ps) = pid \<and> length ps \<le> Suc MAX_HOPS \<and> distinct (map pn_pid ps) \<and> successively child_of ps
    \<and> list_all (timely ts g) ps"
proof -
  obtain r g1 where f: "find_process env pid ts g = (r, g1)" by fastforce
  with assms obtain p up where p: "r = Some p" "walk_up env ts MAX_HOPS p {pid} g1 = (up, g')" "ps = up @ [p]"
    by (auto simp: ancestry_def split: option.splits prod.splits)
  note found = f [unfolded p(1)]
  have "pn_pid p = pid" by (rule find_process_found(1) [OF found assms(2)])
  moreover have "above g1 ts MAX_HOPS p {pid} up"
    using walk_up_spec [OF p(2)] find_process_graph(2) [OF f assms(2)] by blast
  ultimately show ?thesis
    using timely_same [OF find_process_graph(1) [OF f]] find_process_timely [OF found assms(2)]
    unfolding p(3) above_def by (auto simp: list_all_iff)
qed

lemma chain_processes_map: "chain_processes (map (\<lambda>p. ProcessEntry (f p)) ps) = map f ps"
  by (induction ps) (simp_all add: chain_processes_def List.map_filter_simps)

lemma chain_processes_append: "chain_processes (es @ fs) = chain_processes es @ chain_processes fs"
  by (induction es) (simp_all add: chain_processes_def List.map_filter_simps split: option.split)

lemma with_container_node [simp]:
  "pn_pid (with_container env p) = pn_pid p" "pn_id (with_container env p) = pn_id p"
  "pn_parent_pid (with_container env p) = pn_parent_pid p"
  by (simp_all add: with_container_def)

lemma get_process_chain_parts:
  assumes "get_process_chain env pid ts g = (es, g')"
  shows "\<exists>ps u. ancestry env pid ts g = (ps, g') \<and> es = u @ map (\<lambda>p. ProcessEntry (with_container env p)) ps
    \<and> chain_processes es = map (with_container env) ps \<and> (u = [] \<or> (\<exists>i n. u = [UserEntry i n])) \<and> (ps = [] \<longrightarrow> u = [])"
proof -
  obtain ps g1 where a: "ancestry env pid ts g = (ps, g1)" by fastforce
  define u where "u = (if ps = [] then [] else case chain_user env g1 ps of Some (i, n) \<Rightarrow> [UserEntry i n] | None \<Rightarrow> [])"
  have u: "u = [] \<or> (\<exists>i n. u = [UserEntry i n])" by (auto simp: u_def split: option.splits)
  have es: "g' = g1" "es = u @ map (\<lambda>p. ProcessEntry (with_container env p)) ps"
    using assms a by (simp_all add: get_process_chain_def u_def)
  from u have "chain_processes u = []" by (auto simp: chain_processes_def List.map_filter_simps)
  then have "chain_processes es = map (with_container env) ps" by (simp add: es chain_processes_append chain_processes_map)
  with a es u show ?thesis unfolding u_def by (intro exI conjI) auto
qed

section \<open>Properties\<close>


definition family_node :: "string \<Rightarrow> string \<Rightarrow> int \<Rightarrow> int \<Rightarrow> process_node" where
  "family_node i n pid pp = \<lparr>pn_id = i, pn_name = n, pn_pid = pid, pn_cmd_line = None, pn_exe_path = None, pn_hostname = ''h'',
     pn_start_time = None, pn_parent_pid = Some pp, pn_bundle_id = None, pn_code_signed = None, pn_signing_authority = None\<rparr>"

definition built_graph :: graph where
  "built_graph = empty_graph\<lparr>gd_index := new_index\<lparr>built := True\<rparr>\<rparr>"

definition family_graph :: graph where
  "family_graph = upsert_process 0 (family_node ''h:70:200'' ''curl'' 70 50) (upsert_process 0 (family_node ''h:50:100'' ''bash'' 50 1) built_graph)"

definition no_system :: lookup_env where
  "no_system = \<lparr>lk_live = (\<lambda>p. None), lk_ledger = None, lk_hostname = ''h'', lk_container = (\<lambda>p. [])\<rparr>"

lemma family_sound: "index_sound family_graph"
  unfolding family_graph_def
proof (intro upsert_process_sound)
  show "index_sound built_graph" by (simp add: index_sound_def built_graph_def empty_graph_def index_inv_built index_inv_new)
qed (auto simp: family_node_def built_graph_def empty_graph_def new_index_def ids_of_def d_get_or_get upsert_process_def merge_node_def
    ids_of_upsert d_get_set d_get_alter on_upsert_def add_child_def set_name_def split: if_splits)


text \<open>The ledger answers for a moment only if every row of the pid is from before it: one later row hides
  all the older ones, although the older ones are what the moment asks for.\<close>

theorem ledger_fallback_all_or_nothing:
  assumes "lk_ledger env = Some l"
  shows "(\<exists>p. query_process_from_ledger env pid (Some t) = Some p) \<longleftrightarrow>
    (\<exists>r \<in> snd ` set (rc_rows l). lr_pid r = Some pid) \<and> {r \<in> snd ` set (rc_rows l). lr_pid r = Some pid \<and> t < lr_ts r} = {}"
proof -
  define rows where "rows = by_newest (\<lambda>r. lr_ts (snd r)) (filter (\<lambda>r. lr_pid (snd r) = Some pid) (rc_rows l))"
  have q: "query_by_pid pid None 1 l = take 1 rows"
    by (simp add: query_by_pid_def select_newest_def sql_limit_def after_def rows_def)
  have set: "set rows = {r \<in> set (rc_rows l). lr_pid (snd r) = Some pid}" by (simp add: rows_def)
  show ?thesis
  proof (cases rows)
    case Nil
    with set have "\<not> (\<exists>r \<in> snd ` set (rc_rows l). lr_pid r = Some pid)" by force
    with Nil q assms show ?thesis by (simp add: query_process_from_ledger_def)
  next
    case (Cons x xs)
    obtain k r where x: "x = (k, r)" by fastforce
    have top: "lr_ts (snd y) \<le> lr_ts r" if "y \<in> set rows" for y
      using that sorted_by_newest [of "\<lambda>r. lr_ts (snd r)" "filter (\<lambda>r. lr_pid (snd r) = Some pid) (rc_rows l)"]
      unfolding rows_def [symmetric] Cons x by auto
    have "(k, r) \<in> set rows" by (simp add: Cons x)
    then have r: "(k, r) \<in> set (rc_rows l)" "lr_pid r = Some pid" unfolding set by auto
    then have "\<exists>r \<in> snd ` set (rc_rows l). lr_pid r = Some pid" by force
    moreover have "(\<exists>p. query_process_from_ledger env pid (Some t) = Some p) \<longleftrightarrow> lr_ts r \<le> t"
      using Cons x q assms by (auto simp: query_process_from_ledger_def)
    moreover have "lr_ts r \<le> t \<longleftrightarrow> {r \<in> snd ` set (rc_rows l). lr_pid r = Some pid \<and> t < lr_ts r} = {}"
    proof
      assume "lr_ts r \<le> t"
      with top set show "{r \<in> snd ` set (rc_rows l). lr_pid r = Some pid \<and> t < lr_ts r} = {}" by fastforce
    next
      assume "{r \<in> snd ` set (rc_rows l). lr_pid r = Some pid \<and> t < lr_ts r} = {}"
      with r show "lr_ts r \<le> t" by force
    qed
    ultimately show ?thesis by blast
  qed
qed

text \<open>Until the index is built the lookup takes the newest process of the pid, whenever the event was.\<close>

lemma unbuilt_lookup_ignores_time:
  assumes "\<not> built (gd_index g)"
  shows "query_process_fields pid (Some t) g = query_process_fields pid (Some t') g"
  using assms by (simp add: query_process_fields_def)

end
