(* ===== verification/FleetSettings.thy ===== *)
theory FleetSettings
  imports LedgerQuery PyStr "HOL-Library.List_Lexorder" "HOL-Library.Char_ord"
begin

text \<open>
  The settings database of the fleet server (\<open>server/settings_db.py\<close>): users, registration keys,
  settings, tags with their policies and rules, the queries sent to agents and the evidence that comes
  back.  A table is the list of its rows in the order of their insertion; \<open>now\<close> is the clock in
  seconds.  The columns that hold JSON hold the values they encode.
\<close>

section \<open>Rows\<close>

datatype db_error = Invalid string | Duplicate

record fleet_user =
  fu_username :: string
  fu_password_hash :: string
  fu_role :: string
  fu_created_at :: int

record registration_key =
  kk_key :: string
  kk_label :: string
  kk_created_at :: int
  kk_created_by :: string
  kk_expires_at :: "int option"
  kk_max_uses :: "int option"
  kk_use_count :: int
  kk_revoked :: bool
  kk_revoked_at :: "int option"
  kk_revoked_by :: "string option"

record tag_row =
  tw_name :: string
  tw_description :: string
  tw_color :: string
  tw_priority :: int
  tw_created_at :: int

record agent_tag =
  at_agent :: string
  at_tag :: string
  at_assigned_at :: int
  at_assigned_by :: string

record policy_row =
  pw_tag :: string
  pw_key :: string
  pw_value :: string
  pw_updated_at :: int

record fleet_rule =
  fr_action :: string
  fr_stage :: string
  fr_rule_type :: string
  fr_pattern :: string
  fr_chain_filter :: string
  fr_description :: string

record tag_rule =
  tr_id :: int
  tr_tag :: string
  tr_rule :: fleet_rule
  tr_updated_at :: int

record custom_rule =
  cr_id :: int
  cr_rule :: fleet_rule
  cr_created_by :: string
  cr_created_at :: int
  cr_updated_at :: int

record suppression =
  sp_id :: int
  sp_type :: string
  sp_pattern :: string
  sp_reason :: string
  sp_created_by :: string
  sp_created_at :: int

record disabled_rule =
  ds_rule_id :: string
  ds_disabled_at :: int
  ds_disabled_by :: string

text \<open>A record of a log as an agent sends it, and a record of a trace; a timestamp that is missing or no number is
  \<open>None\<close>.\<close>

record log_record =
  lg_id :: int
  lg_timestamp :: datetime
  lg_event_type :: string
  lg_process_name :: "string option"
  lg_pid :: "int option"
  lg_username :: "string option"
  lg_cmd_line :: "string option"
  lg_remote_ip :: "string option"
  lg_remote_port :: "int option"
  lg_ocsf :: "ocsf_event option"

text \<open>The time of a trace is a text: of a number, or of a date, which \<open>float\<close> does not read.\<close>

datatype trace_time = Epoch datetime | DateText datetime

record trace_record =
  xr_process_name :: "string option"
  xr_pid :: "int option"
  xr_cmd_line :: "string option"
  xr_from_ip :: "string option"
  xr_dst_port :: "int option"
  xr_timestamp :: "trace_time option"
  xr_username :: "string option"

text \<open>What an agent is asked, and what it answers.  A victim trace may name the time of the finding, which a source trace
  ignores.\<close>

datatype xdr_params = VictimTrace "string list" "int option" "datetime option" | SourceTrace "string list" "int option" | PullLogs pull_params

datatype xdr_result = Logs "log_record list" | Traced "trace_record list"

record xdr_query =
  xq_id :: string
  xq_agent :: string
  xq_finding :: string
  xq_type :: string
  xq_params :: xdr_params
  xq_status :: string
  xq_result :: "xdr_result option"
  xq_created_at :: int
  xq_completed_at :: "int option"

record surveillance_log =
  sv_id :: int
  sv_incident :: string
  sv_agent :: string
  sv_side :: string
  sv_record :: log_record
  sv_ingested_at :: int

record ocsf_evidence =
  oe_id :: int
  oe_incident :: string
  oe_agent :: string
  oe_record :: log_record
  oe_ingested_at :: int

record pull_state =
  ps_last_enqueue_at :: int
  ps_last_record_ts :: datetime

record diamond_row =
  da_incident :: string
  da_assessment :: string
  da_model :: string
  da_prompt_tokens :: "int option"
  da_completion_tokens :: "int option"
  da_assessed_at :: int

record settings_db =
  sd_users :: "fleet_user list"
  sd_keys :: "registration_key list"
  sd_settings :: "(string, string \<times> int) dict"
  sd_agent_keys :: "(string, string) dict"
  sd_tags :: "tag_row list"
  sd_agent_tags :: "agent_tag list"
  sd_policies :: "policy_row list"
  sd_tag_rules :: "tag_rule list"
  sd_tag_rule_seq :: int
  sd_queries :: "xdr_query list"
  sd_logs :: "surveillance_log list"
  sd_log_seq :: int
  sd_pull_states :: "(string \<times> string, pull_state) dict"
  sd_custom_rules :: "custom_rule list"
  sd_custom_seq :: int
  sd_suppressions :: "suppression list"
  sd_suppression_seq :: int
  sd_disabled :: "disabled_rule list"
  sd_evidence :: "ocsf_evidence list"
  sd_evidence_seq :: int
  sd_diamonds :: "diamond_row list"
  sd_global_rules :: "fleet_rule list"

section \<open>Constants\<close>

definition DEFAULT_SETTINGS :: "(string, string) dict" where
  "DEFAULT_SETTINGS =
     [(''jwt_ttl_hours'', ''8''), (''lateral_movement_time_window'', ''300''), (''ntp_server'', ''pool.ntp.org''),
      (''ntp_sync_interval'', ''300''), (''agent_default_response_mode'', ''learning''),
      (''agent_default_analyzer_interval'', ''60.0''), (''agent_default_collector_poll_interval'', ''1.0''),
      (''agent_default_novel_edge_threshold'', ''5''), (''agent_default_dga_score_threshold'', ''0.6''),
      (''agent_default_graph_ttl_hours'', ''24''), (''agent_default_auto_respond'', ''false''),
      (''agent_default_auto_terminate'', ''false''), (''agent_default_fleet_forward_events'', ''false''),
      (''agent_default_ioc_feeds_enabled'', ''true'')]"

definition VALID_AGENT_SETTINGS :: "string list" where
  "VALID_AGENT_SETTINGS = [''response_mode'', ''analyzer_interval'', ''collector_poll_interval'', ''novel_edge_threshold'',
     ''dga_score_threshold'', ''graph_ttl_hours'', ''auto_respond'', ''auto_terminate'', ''fleet_forward_events'', ''ioc_feeds_enabled'']"

definition VALID_RULE_ACTIONS :: "string list" where
  "VALID_RULE_ACTIONS = [''allow'', ''block'']"

definition VALID_RULE_STAGES :: "string list" where
  "VALID_RULE_STAGES = [''pre_graph'', ''fast_path'', ''response'']"

definition FLEET_RULE_TYPES :: "string list" where
  "FLEET_RULE_TYPES = [''process_name'', ''dst_ip'', ''dst_cidr'', ''domain'', ''file_path'', ''finding_title'', ''chain_pattern'']"

definition VALID_SUPPRESSION_TYPES :: "string list" where
  "VALID_SUPPRESSION_TYPES = [''ip'', ''domain'', ''hash'']"

definition tag_name_chars :: string where
  "tag_name_chars = ''abcdefghijklmnopqrstuvwxyz0123456789''"

definition hex_chars :: string where
  "hex_chars = ''0123456789abcdefABCDEF''"

text \<open>\<open>_TAG_NAME_RE.match\<close> and \<open>_TAG_COLOR_RE.match\<close>: in Python \<open>$\<close> also matches before a line end that is the last
  character.\<close>

definition drop_last_lf :: "string \<Rightarrow> string" where
  "drop_last_lf s = (if s \<noteq> [] \<and> last s = CHR 0x0A then butlast s else s)"

definition tag_name_ok :: "string \<Rightarrow> bool" where
  "tag_name_ok s = (case drop_last_lf s of [] \<Rightarrow> False
     | c # cs \<Rightarrow> c \<in> set tag_name_chars \<and> length cs \<le> 49 \<and> list_all (\<lambda>x. x \<in> set (tag_name_chars @ ''_-'')) cs)"

definition tag_color_ok :: "string \<Rightarrow> bool" where
  "tag_color_ok s = (case drop_last_lf s of [] \<Rightarrow> False
     | c # cs \<Rightarrow> c = CHR ''#'' \<and> length cs = 6 \<and> list_all (\<lambda>x. x \<in> set hex_chars) cs)"

section \<open>Opening the database\<close>

definition empty_db :: "fleet_rule list \<Rightarrow> settings_db" where
  "empty_db rules = \<lparr>sd_users = [], sd_keys = [], sd_settings = [], sd_agent_keys = [], sd_tags = [], sd_agent_tags = [],
     sd_policies = [], sd_tag_rules = [], sd_tag_rule_seq = 0, sd_queries = [], sd_logs = [], sd_log_seq = 0, sd_pull_states = [],
     sd_custom_rules = [], sd_custom_seq = 0, sd_suppressions = [], sd_suppression_seq = 0, sd_disabled = [],
     sd_evidence = [], sd_evidence_seq = 0, sd_diamonds = [], sd_global_rules = rules\<rparr>"

definition seed_defaults :: "int \<Rightarrow> settings_db \<Rightarrow> settings_db" where
  "seed_defaults now db = fold (\<lambda>(k, v) d.
     if d_get (sd_settings d) k = None then d\<lparr>sd_settings := d_set k (v, now) (sd_settings d)\<rparr> else d) DEFAULT_SETTINGS db"

text \<open>The rules of the file, \<open>None\<close> when it is missing or unreadable; each as (type, pattern, chain filter,
  description).\<close>

definition load_global_rules :: "(string \<times> string \<times> string \<times> string) list option \<Rightarrow> fleet_rule list" where
  "load_global_rules doc = (case doc of None \<Rightarrow> []
     | Some rs \<Rightarrow> map (\<lambda>(t, p, c, d). \<lparr>fr_action = ''block'', fr_stage = ''fast_path'', fr_rule_type = t, fr_pattern = p,
         fr_chain_filter = c, fr_description = d\<rparr>) rs)"

definition new_settings_db :: "int \<Rightarrow> (string \<times> string \<times> string \<times> string) list option \<Rightarrow> settings_db" where
  "new_settings_db now doc = seed_defaults now (empty_db (load_global_rules doc))"

section \<open>Users\<close>

definition count_users :: "settings_db \<Rightarrow> nat" where
  "count_users db = length (sd_users db)"

definition has_no_users :: "settings_db \<Rightarrow> bool" where
  "has_no_users db \<longleftrightarrow> count_users db = 0"

definition get_user :: "string \<Rightarrow> settings_db \<Rightarrow> fleet_user option" where
  "get_user n db = find (\<lambda>u. fu_username u = n) (sd_users db)"

definition create_user :: "int \<Rightarrow> string \<Rightarrow> string \<Rightarrow> string \<Rightarrow> settings_db \<Rightarrow> (db_error + fleet_user) \<times> settings_db" where
  "create_user now n h role db =
     (if get_user n db \<noteq> None then (Inl Duplicate, db)
      else let u = \<lparr>fu_username = n, fu_password_hash = h, fu_role = role, fu_created_at = now\<rparr>
        in (Inr u, db\<lparr>sd_users := sd_users db @ [u]\<rparr>))"

definition list_users :: "settings_db \<Rightarrow> fleet_user list" where
  "list_users db = sort_key fu_created_at (sd_users db)"

definition update_user :: "string \<Rightarrow> string option \<Rightarrow> string option \<Rightarrow> settings_db \<Rightarrow> bool \<times> settings_db" where
  "update_user n h role db =
     (if get_user n db = None then (False, db)
      else (True, db\<lparr>sd_users := map (\<lambda>u. if fu_username u = n
        then u\<lparr>fu_password_hash := none_or (fu_password_hash u) h, fu_role := none_or (fu_role u) role\<rparr> else u) (sd_users db)\<rparr>))"

definition delete_user :: "string \<Rightarrow> settings_db \<Rightarrow> bool \<times> settings_db" where
  "delete_user n db = (get_user n db \<noteq> None, db\<lparr>sd_users := filter (\<lambda>u. fu_username u \<noteq> n) (sd_users db)\<rparr>)"

section \<open>Registration keys\<close>

definition find_key :: "string \<Rightarrow> settings_db \<Rightarrow> registration_key option" where
  "find_key k db = find (\<lambda>r. kk_key r = k) (sd_keys db)"

definition create_registration_key :: "int \<Rightarrow> string \<Rightarrow> string \<Rightarrow> string \<Rightarrow> int option \<Rightarrow> int option \<Rightarrow> settings_db
    \<Rightarrow> (db_error + registration_key) \<times> settings_db" where
  "create_registration_key now k label by expires uses db =
     (if find_key k db \<noteq> None then (Inl Duplicate, db)
      else let r = \<lparr>kk_key = k, kk_label = label, kk_created_at = now, kk_created_by = by, kk_expires_at = expires,
          kk_max_uses = uses, kk_use_count = 0, kk_revoked = False, kk_revoked_at = None, kk_revoked_by = None\<rparr>
        in (Inr r, db\<lparr>sd_keys := sd_keys db @ [r]\<rparr>))"

definition nonzero :: "int option \<Rightarrow> bool" where
  "nonzero v = (case v of None \<Rightarrow> False | Some i \<Rightarrow> i \<noteq> 0)"

definition key_status :: "int \<Rightarrow> registration_key \<Rightarrow> string" where
  "key_status now r = (if kk_revoked r then ''revoked''
     else if nonzero (kk_expires_at r) \<and> the (kk_expires_at r) < now then ''expired''
     else if nonzero (kk_max_uses r) \<and> the (kk_max_uses r) \<le> kk_use_count r then ''exhausted''
     else ''active'')"

definition list_registration_keys :: "int \<Rightarrow> settings_db \<Rightarrow> (registration_key \<times> string) list" where
  "list_registration_keys now db = map (\<lambda>r. (r, key_status now r)) (sort_key (\<lambda>r. - kk_created_at r) (sd_keys db))"

definition update_key :: "string \<Rightarrow> (registration_key \<Rightarrow> registration_key) \<Rightarrow> settings_db \<Rightarrow> settings_db" where
  "update_key k f db = db\<lparr>sd_keys := map (\<lambda>r. if kk_key r = k then f r else r) (sd_keys db)\<rparr>"

definition count_use :: "registration_key \<Rightarrow> registration_key" where
  "count_use r = r\<lparr>kk_use_count := kk_use_count r + 1\<rparr>"

definition expired :: "int \<Rightarrow> registration_key \<Rightarrow> bool" where
  "expired now r = (case kk_expires_at r of None \<Rightarrow> False | Some t \<Rightarrow> t < now)"

definition validate_registration_key :: "int \<Rightarrow> string \<Rightarrow> settings_db \<Rightarrow> (bool \<times> string) \<times> settings_db" where
  "validate_registration_key now k db = (case find_key k db of
     None \<Rightarrow> ((False, ''invalid_key''), db)
   | Some r \<Rightarrow>
       if kk_revoked r then ((False, ''key_revoked''), db)
       else if expired now r then ((False, ''key_expired''), db)
       else case kk_max_uses r of
         Some m \<Rightarrow> if kk_use_count r < m then ((True, ''ok''), update_key k count_use db) else ((False, ''max_uses_exceeded''), db)
       | None \<Rightarrow> ((True, ''ok''), update_key k count_use db))"

definition check_key_status :: "int \<Rightarrow> string \<Rightarrow> settings_db \<Rightarrow> bool \<times> string" where
  "check_key_status now k db = (case find_key k db of
     None \<Rightarrow> (False, ''invalid_key'')
   | Some r \<Rightarrow> if kk_revoked r then (False, ''key_revoked'') else if expired now r then (False, ''key_expired'') else (True, ''ok''))"

definition revoke_registration_key :: "int \<Rightarrow> string \<Rightarrow> string \<Rightarrow> settings_db \<Rightarrow> bool \<times> settings_db" where
  "revoke_registration_key now k by db = (find_key k db \<noteq> None,
     update_key k (\<lambda>r. r\<lparr>kk_revoked := True, kk_revoked_at := Some now, kk_revoked_by := Some by\<rparr>) db)"

definition delete_registration_key :: "string \<Rightarrow> settings_db \<Rightarrow> bool \<times> settings_db" where
  "delete_registration_key k db = (find_key k db \<noteq> None, db\<lparr>sd_keys := filter (\<lambda>r. kk_key r \<noteq> k) (sd_keys db)\<rparr>)"

section \<open>Settings and agent keys\<close>

definition get_setting :: "string \<Rightarrow> settings_db \<Rightarrow> string option" where
  "get_setting k db = map_option fst (d_get (sd_settings db) k)"

definition set_setting :: "int \<Rightarrow> string \<Rightarrow> string \<Rightarrow> settings_db \<Rightarrow> settings_db" where
  "set_setting now k v db = db\<lparr>sd_settings := d_set k (v, now) (sd_settings db)\<rparr>"

definition get_all_settings :: "settings_db \<Rightarrow> (string, string) dict" where
  "get_all_settings db = d_map fst (sd_settings db)"

definition get_agent_defaults :: "settings_db \<Rightarrow> (string, string) dict" where
  "get_agent_defaults db = map (\<lambda>(k, v). (drop 14 k, v)) (filter (\<lambda>(k, v). prefix ''agent_default_'' k) (get_all_settings db))"

definition set_agent_default :: "int \<Rightarrow> string \<Rightarrow> string \<Rightarrow> settings_db \<Rightarrow> settings_db" where
  "set_agent_default now k v = set_setting now (''agent_default_'' @ k) v"

definition set_agent_key :: "string \<Rightarrow> string \<Rightarrow> settings_db \<Rightarrow> settings_db" where
  "set_agent_key a k db = db\<lparr>sd_agent_keys := d_set a k (sd_agent_keys db)\<rparr>"

definition get_agent_key :: "string \<Rightarrow> settings_db \<Rightarrow> string option" where
  "get_agent_key a db = d_get (sd_agent_keys db) a"

section \<open>Tags\<close>

definition get_tag :: "string \<Rightarrow> settings_db \<Rightarrow> tag_row option" where
  "get_tag n db = find (\<lambda>t. tw_name t = n) (sd_tags db)"

definition create_tag :: "int \<Rightarrow> string \<Rightarrow> string \<Rightarrow> string \<Rightarrow> int \<Rightarrow> settings_db \<Rightarrow> (db_error + tag_row) \<times> settings_db" where
  "create_tag now n desc color prio db =
     (if \<not> tag_name_ok n then (Inl (Invalid n), db)
      else if \<not> tag_color_ok color then (Inl (Invalid color), db)
      else if get_tag n db \<noteq> None then (Inl Duplicate, db)
      else let t = \<lparr>tw_name = n, tw_description = desc, tw_color = color, tw_priority = prio, tw_created_at = now\<rparr>
        in (Inr t, db\<lparr>sd_tags := sd_tags db @ [t]\<rparr>))"

text \<open>\<open>ORDER BY priority ASC, tag_name ASC\<close>.\<close>

definition by_priority :: "('a \<Rightarrow> int) \<Rightarrow> ('a \<Rightarrow> string) \<Rightarrow> 'a list \<Rightarrow> 'a list" where
  "by_priority prio name xs = sort_key prio (sort_key name xs)"

definition list_tags :: "settings_db \<Rightarrow> (tag_row \<times> nat) list" where
  "list_tags db = map (\<lambda>t. (t, length (filter (\<lambda>a. at_tag a = tw_name t) (sd_agent_tags db)))) (by_priority tw_priority tw_name (sd_tags db))"

definition set_tag :: "string \<Rightarrow> (tag_row \<Rightarrow> tag_row) \<Rightarrow> settings_db \<Rightarrow> settings_db" where
  "set_tag n f db = db\<lparr>sd_tags := map (\<lambda>t. if tw_name t = n then f t else t) (sd_tags db)\<rparr>"

text \<open>A wrong color raises after the description was updated; the connection is left with that update, which its next
  commit makes permanent.\<close>

definition update_tag :: "string \<Rightarrow> string option \<Rightarrow> string option \<Rightarrow> int option \<Rightarrow> settings_db \<Rightarrow> (db_error + bool) \<times> settings_db" where
  "update_tag n desc color prio db =
     (if get_tag n db = None then (Inr False, db)
      else let db1 = set_tag n (\<lambda>t. t\<lparr>tw_description := none_or (tw_description t) desc\<rparr>) db
        in case color of
          Some c \<Rightarrow> if tag_color_ok c then (Inr True, set_tag n (\<lambda>t. t\<lparr>tw_color := c, tw_priority := none_or (tw_priority t) prio\<rparr>) db1)
            else (Inl (Invalid c), db1)
        | None \<Rightarrow> (Inr True, set_tag n (\<lambda>t. t\<lparr>tw_priority := none_or (tw_priority t) prio\<rparr>) db1))"

text \<open>The foreign keys are declared with \<open>ON DELETE CASCADE\<close> and enforced.\<close>

definition delete_tag :: "string \<Rightarrow> settings_db \<Rightarrow> bool \<times> settings_db" where
  "delete_tag n db = (get_tag n db \<noteq> None, db\<lparr>sd_tags := filter (\<lambda>t. tw_name t \<noteq> n) (sd_tags db),
     sd_agent_tags := filter (\<lambda>a. at_tag a \<noteq> n) (sd_agent_tags db), sd_policies := filter (\<lambda>p. pw_tag p \<noteq> n) (sd_policies db),
     sd_tag_rules := filter (\<lambda>r. tr_tag r \<noteq> n) (sd_tag_rules db)\<rparr>)"

definition has_tag :: "string \<Rightarrow> string \<Rightarrow> settings_db \<Rightarrow> bool" where
  "has_tag a n db \<longleftrightarrow> list_ex (\<lambda>r. at_agent r = a \<and> at_tag r = n) (sd_agent_tags db)"

definition assign_tag :: "int \<Rightarrow> string \<Rightarrow> string \<Rightarrow> string \<Rightarrow> settings_db \<Rightarrow> (db_error + bool) \<times> settings_db" where
  "assign_tag now a n by db =
     (if get_tag n db = None then (Inl (Invalid n), db)
      else (Inr True, if has_tag a n db then db
        else db\<lparr>sd_agent_tags := sd_agent_tags db @ [\<lparr>at_agent = a, at_tag = n, at_assigned_at = now, at_assigned_by = by\<rparr>]\<rparr>))"

definition remove_tag :: "string \<Rightarrow> string \<Rightarrow> settings_db \<Rightarrow> bool \<times> settings_db" where
  "remove_tag a n db = (has_tag a n db, db\<lparr>sd_agent_tags := filter (\<lambda>r. \<not> (at_agent r = a \<and> at_tag r = n)) (sd_agent_tags db)\<rparr>)"

text \<open>\<open>agent_tags JOIN tags\<close>.\<close>

definition tags_of :: "string \<Rightarrow> settings_db \<Rightarrow> (agent_tag \<times> tag_row) list" where
  "tags_of a db = List.map_filter (\<lambda>r. if at_agent r = a then map_option (\<lambda>t. (r, t)) (get_tag (at_tag r) db) else None) (sd_agent_tags db)"

definition get_agent_tags :: "string \<Rightarrow> settings_db \<Rightarrow> (agent_tag \<times> tag_row) list" where
  "get_agent_tags a db = by_priority (\<lambda>(_, t). tw_priority t) (\<lambda>(_, t). tw_name t) (tags_of a db)"

definition get_tag_agents :: "string \<Rightarrow> settings_db \<Rightarrow> string list" where
  "get_tag_agents n db = sort (map at_agent (filter (\<lambda>r. at_tag r = n) (sd_agent_tags db)))"

definition get_bulk_agent_tags :: "string list \<Rightarrow> settings_db \<Rightarrow> (string, (string \<times> string \<times> int) list) dict" where
  "get_bulk_agent_tags as db = map (\<lambda>a. (a, map (\<lambda>(_, t). (tw_name t, tw_color t, tw_priority t)) (get_agent_tags a db))) (dedup as)"

section \<open>Policies and rules of tags\<close>

definition get_tag_policy :: "string \<Rightarrow> settings_db \<Rightarrow> (string, string) dict" where
  "get_tag_policy n db = map (\<lambda>p. (pw_key p, pw_value p)) (filter (\<lambda>p. pw_tag p = n) (sd_policies db))"

definition set_tag_policy :: "int \<Rightarrow> string \<Rightarrow> (string, string) dict \<Rightarrow> settings_db \<Rightarrow> (db_error + unit) \<times> settings_db" where
  "set_tag_policy now n overrides db =
     (if get_tag n db = None then (Inl (Invalid n), db)
      else (Inr (), db\<lparr>sd_policies := filter (\<lambda>p. pw_tag p \<noteq> n) (sd_policies db)
        @ map (\<lambda>(k, v). \<lparr>pw_tag = n, pw_key = k, pw_value = v, pw_updated_at = now\<rparr>)
            (filter (\<lambda>(k, _). k \<in> set VALID_AGENT_SETTINGS) overrides)\<rparr>))"

definition rule_valid :: "fleet_rule \<Rightarrow> bool" where
  "rule_valid r \<longleftrightarrow> fr_action r \<in> set VALID_RULE_ACTIONS \<and> fr_stage r \<in> set VALID_RULE_STAGES
     \<and> fr_rule_type r \<in> set FLEET_RULE_TYPES \<and> fr_pattern r \<noteq> []"

definition insert_tag_rule :: "int \<Rightarrow> string \<Rightarrow> fleet_rule \<Rightarrow> settings_db \<Rightarrow> settings_db" where
  "insert_tag_rule now n r db = (let i = sd_tag_rule_seq db + 1 in
     db\<lparr>sd_tag_rules := sd_tag_rules db @ [\<lparr>tr_id = i, tr_tag = n, tr_rule = r, tr_updated_at = now\<rparr>], sd_tag_rule_seq := i\<rparr>)"

definition set_tag_rules :: "int \<Rightarrow> string \<Rightarrow> fleet_rule list \<Rightarrow> settings_db \<Rightarrow> (db_error + unit) \<times> settings_db" where
  "set_tag_rules now n rs db =
     (if get_tag n db = None then (Inl (Invalid n), db)
      else (Inr (), fold (insert_tag_rule now n) (filter rule_valid rs)
        (db\<lparr>sd_tag_rules := filter (\<lambda>r. tr_tag r \<noteq> n) (sd_tag_rules db)\<rparr>)))"

definition get_tag_rules :: "string \<Rightarrow> settings_db \<Rightarrow> fleet_rule list" where
  "get_tag_rules n db = map tr_rule (sort_key tr_id (filter (\<lambda>r. tr_tag r = n) (sd_tag_rules db)))"

section \<open>Disabled, custom and suppressed\<close>

definition is_sigma_rule_disabled :: "string \<Rightarrow> settings_db \<Rightarrow> bool" where
  "is_sigma_rule_disabled i db \<longleftrightarrow> list_ex (\<lambda>r. ds_rule_id r = i) (sd_disabled db)"

definition toggle_sigma_rule :: "int \<Rightarrow> string \<Rightarrow> string \<Rightarrow> settings_db \<Rightarrow> (db_error + bool) \<times> settings_db" where
  "toggle_sigma_rule now i by db = (let i = py_strip i in
     if i = [] then (Inl (Invalid ''rule_id is required''), db)
     else if is_sigma_rule_disabled i db then (Inr False, db\<lparr>sd_disabled := filter (\<lambda>r. ds_rule_id r \<noteq> i) (sd_disabled db)\<rparr>)
     else (Inr True, db\<lparr>sd_disabled := sd_disabled db @ [\<lparr>ds_rule_id = i, ds_disabled_at = now, ds_disabled_by = by\<rparr>]\<rparr>))"

definition list_disabled_sigma_rules :: "settings_db \<Rightarrow> disabled_rule list" where
  "list_disabled_sigma_rules db = sort_key ds_rule_id (sd_disabled db)"

definition list_global_custom_rules :: "settings_db \<Rightarrow> custom_rule list" where
  "list_global_custom_rules db = sort_key cr_id (sd_custom_rules db)"

definition rule_error :: "fleet_rule \<Rightarrow> string" where
  "rule_error r = (if fr_action r \<notin> set VALID_RULE_ACTIONS then ''Invalid action: '' @ py_repr (fr_action r)
     else if fr_stage r \<notin> set VALID_RULE_STAGES then ''Invalid stage: '' @ py_repr (fr_stage r)
     else if fr_rule_type r \<notin> set FLEET_RULE_TYPES then ''Invalid rule_type: '' @ py_repr (fr_rule_type r)
     else ''Pattern must not be empty'')"

definition add_global_custom_rule :: "int \<Rightarrow> fleet_rule \<Rightarrow> string \<Rightarrow> settings_db \<Rightarrow> (db_error + int) \<times> settings_db" where
  "add_global_custom_rule now r by db =
     (if \<not> rule_valid r then (Inl (Invalid (rule_error r)), db)
      else let i = sd_custom_seq db + 1 in (Inr i, db\<lparr>sd_custom_rules := sd_custom_rules db
        @ [\<lparr>cr_id = i, cr_rule = r, cr_created_by = by, cr_created_at = now, cr_updated_at = now\<rparr>], sd_custom_seq := i\<rparr>))"

definition delete_global_custom_rule :: "int \<Rightarrow> settings_db \<Rightarrow> bool \<times> settings_db" where
  "delete_global_custom_rule i db = (list_ex (\<lambda>r. cr_id r = i) (sd_custom_rules db),
     db\<lparr>sd_custom_rules := filter (\<lambda>r. cr_id r \<noteq> i) (sd_custom_rules db)\<rparr>)"

definition list_global_intel_suppressions :: "settings_db \<Rightarrow> suppression list" where
  "list_global_intel_suppressions db = sort_key sp_type (sort_key sp_pattern (sd_suppressions db))"

definition add_global_intel_suppression :: "int \<Rightarrow> string \<Rightarrow> string \<Rightarrow> string \<Rightarrow> string \<Rightarrow> settings_db
    \<Rightarrow> (db_error + suppression) \<times> settings_db" where
  "add_global_intel_suppression now ty pat reason by db =
     (let pat = py_lower (py_strip pat) in
      if ty \<notin> set VALID_SUPPRESSION_TYPES then (Inl (Invalid (''Invalid indicator_type: '' @ py_repr ty)), db)
      else if pat = [] then (Inl (Invalid ''Pattern must not be empty''), db)
      else if list_ex (\<lambda>s. sp_type s = ty \<and> sp_pattern s = pat) (sd_suppressions db) then (Inl Duplicate, db)
      else let i = sd_suppression_seq db + 1;
          s = \<lparr>sp_id = i, sp_type = ty, sp_pattern = pat, sp_reason = reason, sp_created_by = by, sp_created_at = now\<rparr>
        in (Inr s, db\<lparr>sd_suppressions := sd_suppressions db @ [s], sd_suppression_seq := i\<rparr>))"

definition delete_global_intel_suppression :: "int \<Rightarrow> settings_db \<Rightarrow> bool \<times> settings_db" where
  "delete_global_intel_suppression i db = (list_ex (\<lambda>s. sp_id s = i) (sd_suppressions db),
     db\<lparr>sd_suppressions := filter (\<lambda>s. sp_id s \<noteq> i) (sd_suppressions db)\<rparr>)"

section \<open>What an agent is sent\<close>

definition sigma_id :: "fleet_rule \<Rightarrow> string" where
  "sigma_id r = fr_rule_type r @ '':'' @ fr_pattern r"

definition resolve_agent_rules :: "string \<Rightarrow> settings_db \<Rightarrow> fleet_rule list" where
  "resolve_agent_rules a db =
     filter (\<lambda>r. \<not> list_ex (\<lambda>d. ds_rule_id d = sigma_id r) (list_disabled_sigma_rules db)) (sd_global_rules db)
     @ map cr_rule (list_global_custom_rules db)
     @ map tr_rule (sort_key tr_id (concat (map (\<lambda>t. filter (\<lambda>r. tr_tag r = at_tag t) (sd_tag_rules db))
         (filter (\<lambda>t. at_agent t = a) (sd_agent_tags db)))))"

text \<open>The policies of the agent's tags, a later tag over an earlier one.\<close>

definition agent_policies :: "string \<Rightarrow> settings_db \<Rightarrow> (string \<times> string) list" where
  "agent_policies a db = concat (map (\<lambda>(_, t). get_tag_policy (tw_name t) db) (get_agent_tags a db))"

record agent_config =
  cg_settings :: "(string, string) dict"
  cg_rules :: "fleet_rule list"
  cg_suppressions :: "(string \<times> string) list"

definition resolve_agent_config :: "string \<Rightarrow> settings_db \<Rightarrow> agent_config" where
  "resolve_agent_config a db =
     \<lparr>cg_settings = fold (\<lambda>(k, v). d_set k v) (agent_policies a db) (get_agent_defaults db), cg_rules = resolve_agent_rules a db,
      cg_suppressions = map (\<lambda>s. (sp_type s, sp_pattern s)) (list_global_intel_suppressions db)\<rparr>"

section \<open>Queries sent to agents\<close>

definition enqueue_xdr_query :: "int \<Rightarrow> string \<Rightarrow> string \<Rightarrow> string \<Rightarrow> string \<Rightarrow> xdr_params \<Rightarrow> settings_db \<Rightarrow> settings_db" where
  "enqueue_xdr_query now i a f ty ps db =
     (if list_ex (\<lambda>q. xq_id q = i) (sd_queries db) then db
      else db\<lparr>sd_queries := sd_queries db @ [\<lparr>xq_id = i, xq_agent = a, xq_finding = f, xq_type = ty, xq_params = ps,
        xq_status = ''pending'', xq_result = None, xq_created_at = now, xq_completed_at = None\<rparr>]\<rparr>)"

definition is_pending :: "xdr_query \<Rightarrow> bool" where
  "is_pending q \<longleftrightarrow> xq_status q = ''pending''"

definition get_pending_queries_for_agent :: "string \<Rightarrow> settings_db \<Rightarrow> (string \<times> string \<times> xdr_params) list" where
  "get_pending_queries_for_agent a db = map (\<lambda>q. (xq_id q, xq_type q, xq_params q))
     (filter (\<lambda>q. xq_agent q = a \<and> is_pending q) (sd_queries db))"

definition complete_xdr_query :: "int \<Rightarrow> string \<Rightarrow> xdr_result \<Rightarrow> settings_db \<Rightarrow> (string \<times> string \<times> string) option \<times> settings_db" where
  "complete_xdr_query now i res db = (case find (\<lambda>q. xq_id q = i \<and> is_pending q) (sd_queries db) of
     None \<Rightarrow> (None, db)
   | Some q \<Rightarrow> (Some (xq_agent q, xq_finding q, xq_type q),
       db\<lparr>sd_queries := map (\<lambda>q. if xq_id q = i \<and> is_pending q
         then q\<lparr>xq_status := ''completed'', xq_result := Some res, xq_completed_at := Some now\<rparr> else q) (sd_queries db)\<rparr>))"

definition get_xdr_result :: "string \<Rightarrow> string \<Rightarrow> settings_db \<Rightarrow> (string \<times> xdr_result option) option" where
  "get_xdr_result f ty db = (case sort_key (\<lambda>q. - xq_created_at q) (filter (\<lambda>q. xq_finding q = f \<and> xq_type q = ty) (sd_queries db)) of
     [] \<Rightarrow> None | q # _ \<Rightarrow> Some (xq_status q, xq_result q))"

definition has_pending_xdr_query :: "string \<Rightarrow> string \<Rightarrow> settings_db \<Rightarrow> bool" where
  "has_pending_xdr_query f ty db \<longleftrightarrow> list_ex (\<lambda>q. xq_finding q = f \<and> xq_type q = ty \<and> is_pending q) (sd_queries db)"

section \<open>Evidence\<close>

definition logs_of :: "string \<Rightarrow> settings_db \<Rightarrow> surveillance_log list" where
  "logs_of inc db = filter (\<lambda>l. sv_incident l = inc) (sd_logs db)"

text \<open>The unique index is on incident, agent and original id, not on the side.\<close>

definition insert_log :: "int \<Rightarrow> string \<Rightarrow> string \<Rightarrow> string \<Rightarrow> log_record \<Rightarrow> settings_db \<Rightarrow> settings_db" where
  "insert_log now inc a side r db =
     (if list_ex (\<lambda>l. sv_incident l = inc \<and> sv_agent l = a \<and> lg_id (sv_record l) = lg_id r) (sd_logs db) then db
      else let i = sd_log_seq db + 1 in db\<lparr>sd_logs := sd_logs db
        @ [\<lparr>sv_id = i, sv_incident = inc, sv_agent = a, sv_side = side, sv_record = r\<lparr>lg_ocsf := None\<rparr>, sv_ingested_at = now\<rparr>], sd_log_seq := i\<rparr>)"

definition upsert_surveillance_logs :: "int \<Rightarrow> string \<Rightarrow> string \<Rightarrow> string \<Rightarrow> log_record list \<Rightarrow> settings_db \<Rightarrow> nat \<times> settings_db" where
  "upsert_surveillance_logs now inc a side rs db =
     (let db' = fold (insert_log now inc a side) rs db in (length (logs_of inc db') - length (logs_of inc db), db'))"

definition get_surveillance_logs :: "string \<Rightarrow> settings_db \<Rightarrow> log_record list \<times> log_record list" where
  "get_surveillance_logs inc db =
     (let ls = by_newest (\<lambda>l. lg_timestamp (sv_record l)) (logs_of inc db)
      in (map sv_record (filter (\<lambda>l. sv_side l = ''dst'') ls), map sv_record (filter (\<lambda>l. sv_side l \<noteq> ''dst'') ls)))"

definition get_surveillance_pull_state :: "string \<Rightarrow> string \<Rightarrow> settings_db \<Rightarrow> pull_state" where
  "get_surveillance_pull_state inc side db =
     none_or \<lparr>ps_last_enqueue_at = 0, ps_last_record_ts = 0\<rparr> (d_get (sd_pull_states db) (inc, side))"

definition set_surveillance_pull_state :: "string \<Rightarrow> string \<Rightarrow> int option \<Rightarrow> datetime option \<Rightarrow> settings_db \<Rightarrow> settings_db" where
  "set_surveillance_pull_state inc side enq ts db = db\<lparr>sd_pull_states := d_set (inc, side)
     (case d_get (sd_pull_states db) (inc, side) of
       None \<Rightarrow> \<lparr>ps_last_enqueue_at = none_or 0 enq, ps_last_record_ts = none_or 0 ts\<rparr>
     | Some s \<Rightarrow> \<lparr>ps_last_enqueue_at = none_or (ps_last_enqueue_at s) enq,
         ps_last_record_ts = (case ts of None \<Rightarrow> ps_last_record_ts s | Some t \<Rightarrow> max (ps_last_record_ts s) t)\<rparr>) (sd_pull_states db)\<rparr>"

definition evidence_of :: "string \<Rightarrow> settings_db \<Rightarrow> ocsf_evidence list" where
  "evidence_of inc db = filter (\<lambda>e. oe_incident e = inc) (sd_evidence db)"

text \<open>The columns of the evidence table.\<close>

definition evidence_columns :: "log_record \<Rightarrow> log_record" where
  "evidence_columns r = r\<lparr>lg_process_name := None, lg_pid := None, lg_username := None, lg_cmd_line := None, lg_remote_ip := None,
     lg_remote_port := None\<rparr>"

definition insert_evidence :: "int \<Rightarrow> string \<Rightarrow> string \<Rightarrow> log_record \<Rightarrow> settings_db \<Rightarrow> settings_db" where
  "insert_evidence now inc a r db =
     (if list_ex (\<lambda>e. oe_incident e = inc \<and> oe_agent e = a \<and> lg_id (oe_record e) = lg_id r) (sd_evidence db) then db
      else let i = sd_evidence_seq db + 1 in db\<lparr>sd_evidence := sd_evidence db
        @ [\<lparr>oe_id = i, oe_incident = inc, oe_agent = a, oe_record = evidence_columns r, oe_ingested_at = now\<rparr>], sd_evidence_seq := i\<rparr>)"

definition upsert_ocsf_evidence :: "int \<Rightarrow> string \<Rightarrow> string \<Rightarrow> log_record list \<Rightarrow> settings_db \<Rightarrow> nat \<times> settings_db" where
  "upsert_ocsf_evidence now inc a rs db =
     (let db' = fold (insert_evidence now inc a) rs db in (length (evidence_of inc db') - length (evidence_of inc db), db'))"

definition get_ocsf_evidence :: "string \<Rightarrow> int \<Rightarrow> settings_db \<Rightarrow> ocsf_evidence list" where
  "get_ocsf_evidence inc n db = sql_limit n (by_newest (\<lambda>e. lg_timestamp (oe_record e)) (evidence_of inc db))"

definition save_diamond_assessment :: "int \<Rightarrow> string \<Rightarrow> string \<Rightarrow> string \<Rightarrow> int option \<Rightarrow> int option \<Rightarrow> settings_db \<Rightarrow> settings_db" where
  "save_diamond_assessment now inc js model pt ct db = db\<lparr>sd_diamonds := sd_diamonds db
     @ [\<lparr>da_incident = inc, da_assessment = js, da_model = model, da_prompt_tokens = pt, da_completion_tokens = ct, da_assessed_at = now\<rparr>]\<rparr>"

definition get_latest_diamond_assessment :: "string \<Rightarrow> settings_db \<Rightarrow> diamond_row option" where
  "get_latest_diamond_assessment inc db = (case sort_key (\<lambda>d. - da_assessed_at d) (filter (\<lambda>d. da_incident d = inc) (sd_diamonds db)) of
     [] \<Rightarrow> None | d # _ \<Rightarrow> Some d)"

end
