(* ===== verification/FleetTables.thy ===== *)
theory FleetTables
  imports FleetSettings
begin

text \<open>
  What holds of the settings database whatever operations are called on it: unique keys, references that
  point somewhere, rules and settings that are valid, keys used no more often than they may be.
\<close>

section \<open>Invariant\<close>

definition users_ok :: "fleet_user list \<Rightarrow> bool" where
  "users_ok us \<longleftrightarrow> distinct (map fu_username us)"

definition within_uses :: "registration_key \<Rightarrow> bool" where
  "within_uses r \<longleftrightarrow> (case kk_max_uses r of None \<Rightarrow> True | Some m \<Rightarrow> kk_use_count r \<le> max 0 m)"

definition keys_ok :: "registration_key list \<Rightarrow> bool" where
  "keys_ok ks \<longleftrightarrow> distinct (map kk_key ks) \<and> list_all within_uses ks"

definition tag_names :: "tag_row list \<Rightarrow> string set" where
  "tag_names ts = tw_name ` set ts"

definition tags_ok :: "tag_row list \<Rightarrow> bool" where
  "tags_ok ts \<longleftrightarrow> distinct (map tw_name ts) \<and> list_all (\<lambda>t. tag_name_ok (tw_name t) \<and> tag_color_ok (tw_color t)) ts"

definition assigned_ok :: "string set \<Rightarrow> agent_tag list \<Rightarrow> bool" where
  "assigned_ok ns as \<longleftrightarrow> distinct (map (\<lambda>a. (at_agent a, at_tag a)) as) \<and> at_tag ` set as \<subseteq> ns"

definition policies_ok :: "string set \<Rightarrow> policy_row list \<Rightarrow> bool" where
  "policies_ok ns ps \<longleftrightarrow> distinct (map (\<lambda>p. (pw_tag p, pw_key p)) ps) \<and> pw_tag ` set ps \<subseteq> ns \<and> pw_key ` set ps \<subseteq> set VALID_AGENT_SETTINGS"

definition tag_rules_ok :: "string set \<Rightarrow> int \<Rightarrow> tag_rule list \<Rightarrow> bool" where
  "tag_rules_ok ns sq rs \<longleftrightarrow> sorted_wrt (<) (map tr_id rs) \<and> list_all (\<lambda>r. tr_id r \<le> sq \<and> tr_tag r \<in> ns \<and> rule_valid (tr_rule r)) rs"

definition customs_ok :: "int \<Rightarrow> custom_rule list \<Rightarrow> bool" where
  "customs_ok sq rs \<longleftrightarrow> sorted_wrt (<) (map cr_id rs) \<and> list_all (\<lambda>r. cr_id r \<le> sq \<and> rule_valid (cr_rule r)) rs"

definition suppressions_ok :: "suppression list \<Rightarrow> bool" where
  "suppressions_ok ss \<longleftrightarrow> distinct (map (\<lambda>s. (sp_type s, sp_pattern s)) ss)
     \<and> list_all (\<lambda>s. sp_type s \<in> set VALID_SUPPRESSION_TYPES \<and> sp_pattern s \<noteq> [] \<and> py_lower (sp_pattern s) = sp_pattern s) ss"

definition log_key :: "surveillance_log \<Rightarrow> string \<times> string \<times> int" where
  "log_key l = (sv_incident l, sv_agent l, lg_id (sv_record l))"

definition evidence_key :: "ocsf_evidence \<Rightarrow> string \<times> string \<times> int" where
  "evidence_key e = (oe_incident e, oe_agent e, lg_id (oe_record e))"

definition db_inv :: "settings_db \<Rightarrow> bool" where
  "db_inv db \<longleftrightarrow> users_ok (sd_users db) \<and> keys_ok (sd_keys db) \<and> tags_ok (sd_tags db)
     \<and> assigned_ok (tag_names (sd_tags db)) (sd_agent_tags db) \<and> policies_ok (tag_names (sd_tags db)) (sd_policies db)
     \<and> tag_rules_ok (tag_names (sd_tags db)) (sd_tag_rule_seq db) (sd_tag_rules db)
     \<and> customs_ok (sd_custom_seq db) (sd_custom_rules db) \<and> suppressions_ok (sd_suppressions db)
     \<and> distinct (map ds_rule_id (sd_disabled db)) \<and> distinct (map xq_id (sd_queries db))
     \<and> distinct (map log_key (sd_logs db)) \<and> distinct (map evidence_key (sd_evidence db))"

lemma find_none: "find P xs = None \<longleftrightarrow> (\<forall>x \<in> set xs. \<not> P x)"
  by (auto simp: find_None_iff)

lemma distinct_filter_map: "distinct (map k xs) \<Longrightarrow> distinct (map k (filter P xs))"
  by (induction xs) auto

lemma sorted_filter_map: "sorted_wrt (<) (map k xs) \<Longrightarrow> sorted_wrt (<) (map k (filter P xs))"
  by (induction xs) auto

text \<open>\<open>UPDATE \<dots> WHERE k = v\<close>, which leaves the keys alone.\<close>

lemma update_row_keys: "(\<And>x. k (f x) = k x) \<Longrightarrow> map k (map (\<lambda>x. if k x = v then f x else x) xs) = map k xs"
  by simp

lemma set_tag_names: "(\<And>t. tw_name (f t) = tw_name t) \<Longrightarrow> tag_names (map (\<lambda>t. if tw_name t = n then f t else t) ts) = tag_names ts"
  unfolding tag_names_def by (simp only: set_map [symmetric] update_row_keys)

lemma set_tag_ok:
  assumes "tags_ok ts" "\<And>t. tw_name (f t) = tw_name t" "\<And>t. tag_color_ok (tw_color t) \<Longrightarrow> tag_color_ok (tw_color (f t))"
  shows "tags_ok (map (\<lambda>t. if tw_name t = n then f t else t) ts)"
  using assms unfolding tags_ok_def by (simp only: update_row_keys list_all_iff set_map) auto

lemma update_key_ok:
  assumes "keys_ok ks" "\<And>r. kk_key (f r) = kk_key r" "\<And>r. r \<in> set ks \<Longrightarrow> kk_key r = k \<Longrightarrow> within_uses (f r)"
  shows "keys_ok (map (\<lambda>r. if kk_key r = k then f r else r) ks)"
  using assms unfolding keys_ok_def by (simp only: update_row_keys list_all_iff set_map) auto

lemma find_key_in: "find_key k db = Some r \<Longrightarrow> r \<in> set (sd_keys db) \<and> kk_key r = k"
  unfolding find_key_def find_Some_iff by (metis nth_mem)

lemma find_key_unique: "keys_ok (sd_keys db) \<Longrightarrow> find_key k db = Some r \<Longrightarrow> s \<in> set (sd_keys db) \<Longrightarrow> kk_key s = k \<Longrightarrow> s = r"
  using find_key_in [of k db r] unfolding keys_ok_def by (metis distinct_map inj_onD)

lemma count_use_ok:
  assumes "keys_ok (sd_keys db)" "find_key k db = Some r" "case kk_max_uses r of None \<Rightarrow> True | Some m \<Rightarrow> kk_use_count r < m"
  shows "keys_ok (sd_keys (update_key k count_use db))"
proof -
  have "within_uses (count_use s)" if "s \<in> set (sd_keys db)" "kk_key s = k" for s
    using find_key_unique [OF assms(1,2) that] assms(3) by (auto simp: within_uses_def count_use_def split: option.splits)
  then show ?thesis using update_key_ok [OF assms(1), of count_use k] by (simp add: update_key_def count_use_def)
qed

section \<open>Operations\<close>

named_theorems db_ops \<open>operations that keep the invariant\<close>

lemma create_user_inv [db_ops]: "db_inv db \<Longrightarrow> db_inv (snd (create_user now n h role db))"
  by (auto simp: create_user_def Let_def db_inv_def users_ok_def get_user_def find_none)

lemma update_user_inv [db_ops]: "db_inv db \<Longrightarrow> db_inv (snd (update_user n h role db))"
  by (simp add: update_user_def db_inv_def users_ok_def comp_def if_distrib [of fu_username] cong: if_cong)

lemma delete_user_inv [db_ops]: "db_inv db \<Longrightarrow> db_inv (snd (delete_user n db))"
  by (simp add: delete_user_def db_inv_def users_ok_def distinct_filter_map)

lemma create_key_inv [db_ops]: "db_inv db \<Longrightarrow> db_inv (snd (create_registration_key now k label by expires uses db))"
  by (auto simp: create_registration_key_def Let_def db_inv_def keys_ok_def find_key_def find_none within_uses_def split: option.split)

lemma validate_key_inv [db_ops]: "db_inv db \<Longrightarrow> db_inv (snd (validate_registration_key now k db))"
proof (cases "find_key k db")
  case (Some r)
  assume inv: "db_inv db"
  then have "keys_ok (sd_keys db)" by (simp add: db_inv_def)
  from count_use_ok [OF this Some] inv
  have "db_inv (update_key k count_use db)" if "case kk_max_uses r of None \<Rightarrow> True | Some m \<Rightarrow> kk_use_count r < m"
    using that by (simp add: db_inv_def update_key_def)
  with inv Some show ?thesis by (simp add: validate_registration_key_def split: option.split)
qed (simp add: validate_registration_key_def)

lemma revoke_key_inv [db_ops]: "db_inv db \<Longrightarrow> db_inv (snd (revoke_registration_key now k by db))"
proof -
  assume inv: "db_inv db"
  let ?f = "\<lambda>r. r\<lparr>kk_revoked := True, kk_revoked_at := Some now, kk_revoked_by := Some by\<rparr>"
  have "within_uses (?f r) = within_uses r" for r by (simp add: within_uses_def cong: option.case_cong)
  with inv have "keys_ok (map (\<lambda>r. if kk_key r = k then ?f r else r) (sd_keys db))"
    by (intro update_key_ok) (auto simp: db_inv_def keys_ok_def list_all_iff)
  with inv show ?thesis by (simp add: revoke_registration_key_def update_key_def db_inv_def)
qed

lemma delete_key_inv [db_ops]: "db_inv db \<Longrightarrow> db_inv (snd (delete_registration_key k db))"
  by (auto simp: delete_registration_key_def db_inv_def keys_ok_def distinct_filter_map list_all_iff)

lemma settings_inv [db_ops]:
  "db_inv db \<Longrightarrow> db_inv (set_setting now k v db)" "db_inv db \<Longrightarrow> db_inv (set_agent_default now k v db)"
  "db_inv db \<Longrightarrow> db_inv (set_agent_key a k db)"
  by (simp_all add: set_setting_def set_agent_default_def set_agent_key_def db_inv_def)

lemma create_tag_inv [db_ops]: "db_inv db \<Longrightarrow> db_inv (snd (create_tag now n desc color prio db))"
  by (auto simp: create_tag_def Let_def db_inv_def tags_ok_def tag_names_def get_tag_def find_none assigned_ok_def policies_ok_def
      tag_rules_ok_def list_all_iff)

lemma set_tag_inv:
  "db_inv db \<Longrightarrow> (\<And>t. tw_name (f t) = tw_name t) \<Longrightarrow> (\<And>t. tag_color_ok (tw_color t) \<Longrightarrow> tag_color_ok (tw_color (f t))) \<Longrightarrow> db_inv (set_tag n f db)"
  by (simp add: db_inv_def set_tag_def set_tag_names set_tag_ok)

lemma update_tag_inv [db_ops]: "db_inv db \<Longrightarrow> db_inv (snd (update_tag n desc color prio db))"
  by (simp add: update_tag_def Let_def set_tag_inv split: option.split)

lemma delete_tag_inv [db_ops]: "db_inv db \<Longrightarrow> db_inv (snd (delete_tag n db))"
  by (auto simp: delete_tag_def db_inv_def tags_ok_def tag_names_def assigned_ok_def policies_ok_def tag_rules_ok_def
      distinct_filter_map sorted_filter_map list_all_iff)

lemma get_tag_name: "get_tag n db = Some t \<Longrightarrow> n \<in> tag_names (sd_tags db)"
  unfolding get_tag_def find_Some_iff tag_names_def by (metis image_eqI nth_mem)

lemma assign_tag_inv [db_ops]: "db_inv db \<Longrightarrow> db_inv (snd (assign_tag now a n by db))"
  using get_tag_name [of n db]
  by (auto simp: assign_tag_def db_inv_def assigned_ok_def has_tag_def list_ex_iff)

lemma remove_tag_inv [db_ops]: "db_inv db \<Longrightarrow> db_inv (snd (remove_tag a n db))"
  by (auto simp: remove_tag_def db_inv_def assigned_ok_def distinct_filter_map)

lemma set_policy_inv [db_ops]:
  assumes "db_inv db" "d_wf overrides"
  shows "db_inv (snd (set_tag_policy now n overrides db))"
proof (cases "get_tag n db")
  case (Some t)
  let ?v = "filter (\<lambda>(k, _). k \<in> set VALID_AGENT_SETTINGS) overrides"
  have "distinct (map fst ?v)" using assms(2) d_wf_filter [of overrides] by (simp add: d_wf_def)
  then have "distinct (map (\<lambda>x. (n, fst x)) ?v)" by (simp add: distinct_map inj_on_def)
  with assms(1) get_tag_name [OF Some] show ?thesis
    by (auto simp: set_tag_policy_def Some db_inv_def policies_ok_def distinct_filter_map comp_def case_prod_beta)
qed (use assms in \<open>simp add: set_tag_policy_def\<close>)

lemma insert_tag_rule_inv: "rule_valid r \<Longrightarrow> db_inv db \<and> n \<in> tag_names (sd_tags db) \<Longrightarrow>
    db_inv (insert_tag_rule now n r db) \<and> n \<in> tag_names (sd_tags (insert_tag_rule now n r db))"
  by (fastforce simp: insert_tag_rule_def Let_def db_inv_def tag_rules_ok_def sorted_wrt_append list_all_iff)

lemma set_rules_inv [db_ops]: "db_inv db \<Longrightarrow> db_inv (snd (set_tag_rules now n rs db))"
proof (cases "get_tag n db")
  case (Some t)
  assume inv: "db_inv db"
  let ?db = "db\<lparr>sd_tag_rules := filter (\<lambda>r. tr_tag r \<noteq> n) (sd_tag_rules db)\<rparr>"
  have "db_inv ?db \<and> n \<in> tag_names (sd_tags ?db)"
    using inv get_tag_name [OF Some] by (auto simp: db_inv_def tag_rules_ok_def sorted_filter_map list_all_iff)
  then have "db_inv (fold (insert_tag_rule now n) (filter rule_valid rs) ?db)
      \<and> n \<in> tag_names (sd_tags (fold (insert_tag_rule now n) (filter rule_valid rs) ?db))"
    by (rule fold_invariant [where I = "\<lambda>d. db_inv d \<and> n \<in> tag_names (sd_tags d)", rotated])
      (simp add: insert_tag_rule_inv)
  with Some show ?thesis by (simp add: set_tag_rules_def)
qed (simp add: set_tag_rules_def)

lemma toggle_inv [db_ops]: "db_inv db \<Longrightarrow> db_inv (snd (toggle_sigma_rule now i by db))"
  by (auto simp: toggle_sigma_rule_def Let_def db_inv_def is_sigma_rule_disabled_def list_ex_iff distinct_filter_map)

lemma custom_rule_inv [db_ops]:
  "db_inv db \<Longrightarrow> db_inv (snd (add_global_custom_rule now r by db))" "db_inv db \<Longrightarrow> db_inv (snd (delete_global_custom_rule i db))"
   apply (fastforce simp: add_global_custom_rule_def Let_def db_inv_def customs_ok_def sorted_wrt_append list_all_iff)
  by (auto simp: delete_global_custom_rule_def db_inv_def customs_ok_def sorted_filter_map list_all_iff)

lemma suppression_inv [db_ops]:
  "db_inv db \<Longrightarrow> db_inv (snd (add_global_intel_suppression now ty pat reason by db))"
  "db_inv db \<Longrightarrow> db_inv (snd (delete_global_intel_suppression i db))"
  by (auto simp: add_global_intel_suppression_def delete_global_intel_suppression_def Let_def db_inv_def suppressions_ok_def
      list_ex_iff list_all_iff distinct_filter_map)

lemma enqueue_inv [db_ops]: "db_inv db \<Longrightarrow> db_inv (enqueue_xdr_query now i a f ty ps db)"
  by (auto simp: enqueue_xdr_query_def db_inv_def list_ex_iff)

lemma complete_inv [db_ops]: "db_inv db \<Longrightarrow> db_inv (snd (complete_xdr_query now i res db))"
proof -
  assume inv: "db_inv db"
  let ?u = "\<lambda>q. if xq_id q = i \<and> is_pending q
    then q\<lparr>xq_status := ''completed'', xq_result := Some res, xq_completed_at := Some now\<rparr> else q"
  have "map xq_id (map ?u (sd_queries db)) = map xq_id (sd_queries db)" by simp
  then have "db_inv (db\<lparr>sd_queries := map ?u (sd_queries db)\<rparr>)"
    using inv by (simp add: db_inv_def del: map_map)
  with inv show ?thesis by (simp add: complete_xdr_query_def split: option.split)
qed

lemma insert_log_inv: "db_inv db \<Longrightarrow> db_inv (insert_log now inc a side r db)"
  by (auto simp: insert_log_def Let_def db_inv_def log_key_def list_ex_iff)

lemma upsert_logs_inv [db_ops]: "db_inv db \<Longrightarrow> db_inv (snd (upsert_surveillance_logs now inc a side rs db))"
  unfolding upsert_surveillance_logs_def Let_def snd_conv by (rule fold_invariant) (auto intro: insert_log_inv)

lemma insert_evidence_inv: "db_inv db \<Longrightarrow> db_inv (insert_evidence now inc a r db)"
  by (auto simp: insert_evidence_def Let_def db_inv_def evidence_key_def evidence_columns_def list_ex_iff)

lemma upsert_evidence_inv [db_ops]: "db_inv db \<Longrightarrow> db_inv (snd (upsert_ocsf_evidence now inc a rs db))"
  unfolding upsert_ocsf_evidence_def Let_def snd_conv by (rule fold_invariant) (auto intro: insert_evidence_inv)

lemma other_inv [db_ops]:
  "db_inv db \<Longrightarrow> db_inv (set_surveillance_pull_state inc side enq ts db)"
  "db_inv db \<Longrightarrow> db_inv (save_diamond_assessment now inc js model pt ct db)"
  by (simp_all add: set_surveillance_pull_state_def save_diamond_assessment_def db_inv_def)

lemma seed_keeps: "db_inv db \<Longrightarrow> db_inv (fold (\<lambda>(k, v) d. if d_get (sd_settings d) k = None then d\<lparr>sd_settings := d_set k (v, now) (sd_settings d)\<rparr> else d) xs db)"
  by (rule fold_invariant) (auto simp: db_inv_def)

lemma new_db_inv: "db_inv (new_settings_db now doc)"
  unfolding new_settings_db_def seed_defaults_def
  by (rule seed_keeps) (simp add: db_inv_def empty_db_def users_ok_def keys_ok_def tags_ok_def assigned_ok_def policies_ok_def
      tag_rules_ok_def customs_ok_def suppressions_ok_def)

section \<open>All runs\<close>

text \<open>A call of an operation that changes the database.  The settings of a policy come from a dictionary, so their keys
  are distinct.\<close>

inductive db_step :: "settings_db \<Rightarrow> settings_db \<Rightarrow> bool" where
  created_user: "db_step db (snd (create_user now n h role db))"
| updated_user: "db_step db (snd (update_user n h' role' db))"
| deleted_user: "db_step db (snd (delete_user n db))"
| created_key: "db_step db (snd (create_registration_key now k label by expires uses db))"
| used_key: "db_step db (snd (validate_registration_key now k db))"
| revoked_key: "db_step db (snd (revoke_registration_key now k by db))"
| deleted_key: "db_step db (snd (delete_registration_key k db))"
| set_setting: "db_step db (set_setting now k v db)"
| set_default: "db_step db (set_agent_default now k v db)"
| set_key: "db_step db (set_agent_key a k db)"
| created_tag: "db_step db (snd (create_tag now n desc color prio db))"
| updated_tag: "db_step db (snd (update_tag n desc' color' prio' db))"
| deleted_tag: "db_step db (snd (delete_tag n db))"
| assigned_tag: "db_step db (snd (assign_tag now a n by db))"
| removed_tag: "db_step db (snd (remove_tag a n db))"
| set_policy: "d_wf overrides \<Longrightarrow> db_step db (snd (set_tag_policy now n overrides db))"
| set_rules: "db_step db (snd (set_tag_rules now n rs db))"
| toggled_rule: "db_step db (snd (toggle_sigma_rule now i by db))"
| added_rule: "db_step db (snd (add_global_custom_rule now r by db))"
| deleted_rule: "db_step db (snd (delete_global_custom_rule id' db))"
| added_suppression: "db_step db (snd (add_global_intel_suppression now ty pat reason by db))"
| deleted_suppression: "db_step db (snd (delete_global_intel_suppression id' db))"
| enqueued: "db_step db (enqueue_xdr_query now i a f ty ps db)"
| completed: "db_step db (snd (complete_xdr_query now i res db))"
| added_logs: "db_step db (snd (upsert_surveillance_logs now inc a side logs db))"
| added_evidence: "db_step db (snd (upsert_ocsf_evidence now inc a logs db))"
| set_pull: "db_step db (set_surveillance_pull_state inc side enq ts db)"
| saved_diamond: "db_step db (save_diamond_assessment now inc js model pt ct db)"

inductive db_reach :: "settings_db \<Rightarrow> bool" where
  opened: "db_reach (new_settings_db now doc)"
| stepped: "db_reach db \<Longrightarrow> db_step db db' \<Longrightarrow> db_reach db'"

lemma db_step_inv: "db_step db db' \<Longrightarrow> db_inv db \<Longrightarrow> db_inv db'"
  by (induction rule: db_step.induct) (simp_all add: db_ops)

lemma db_reach_inv: "db_reach db \<Longrightarrow> db_inv db"
  by (induction rule: db_reach.induct) (simp_all add: new_db_inv db_step_inv)


lemma new_db_tables:
  "sd_keys (new_settings_db now doc) = [] \<and> sd_tags (new_settings_db now doc) = [] \<and> sd_agent_tags (new_settings_db now doc) = []
    \<and> sd_policies (new_settings_db now doc) = []"
  unfolding new_settings_db_def seed_defaults_def
  by (rule fold_invariant [where I = "\<lambda>d. sd_keys d = [] \<and> sd_tags d = [] \<and> sd_agent_tags d = [] \<and> sd_policies d = []"])
    (auto simp: empty_db_def)


section \<open>Registration keys\<close>

lemma validate_budget:
  assumes "keys_ok (sd_keys db)" "find_key k db = Some r" "kk_max_uses r = Some m" "\<not> kk_revoked r" "\<not> expired now r"
  shows "fst (fst (validate_registration_key now k db)) = (kk_use_count r < m)
    \<and> find_key k (snd (validate_registration_key now k db)) = Some (if kk_use_count r < m then count_use r else r)"
proof -
  have "find (\<lambda>r. kk_key r = k) (map (\<lambda>r. if kk_key r = k then count_use r else r) ks) = map_option count_use (find (\<lambda>r. kk_key r = k) ks)" for ks
    by (induction ks) (auto simp: count_use_def)
  with assms show ?thesis by (auto simp: validate_registration_key_def update_key_def find_key_def)
qed

fun validate_times :: "int list \<Rightarrow> string \<Rightarrow> settings_db \<Rightarrow> nat \<times> settings_db" where
  "validate_times [] k db = (0, db)"
| "validate_times (t # ts) k db = (let ((ok, _), db1) = validate_registration_key t k db; (n, db2) = validate_times ts k db1
     in ((if ok then 1 else 0) + n, db2))"

text \<open>Of any number of registrations with a valid key that may be used \<open>m\<close> times, exactly as many succeed as it has uses
  left.\<close>

lemma validate_keeps_keys: "keys_ok (sd_keys db) \<Longrightarrow> keys_ok (sd_keys (snd (validate_registration_key now k db)))"
  using count_use_ok [of db k] by (auto simp: validate_registration_key_def split: option.split)

lemma valid_uses:
  assumes "keys_ok (sd_keys db)" "find_key k db = Some r" "kk_max_uses r = Some m" "\<not> kk_revoked r" "list_all (\<lambda>t. \<not> expired t r) ts"
  shows "fst (validate_times ts k db) = min (length ts) (nat (m - kk_use_count r))"
  using assms
proof (induction ts arbitrary: db r)
  case (Cons t ts)
  let ?r = "if kk_use_count r < m then count_use r else r"
  obtain ok why db1 where v: "validate_registration_key t k db = ((ok, why), db1)" by (metis prod.collapse)
  have b: "ok = (kk_use_count r < m)" "find_key k db1 = Some ?r"
    using validate_budget [OF Cons.prems(1-4), of t] Cons.prems(5) by (simp_all add: v)
  have "keys_ok (sd_keys db1)" using validate_keeps_keys [OF Cons.prems(1), of t k] by (simp add: v)
  moreover have "list_all (\<lambda>t. \<not> expired t ?r) ts"
    using Cons.prems(5) by (simp add: expired_def count_use_def)
  ultimately have "fst (validate_times ts k db1) = min (length ts) (nat (m - kk_use_count ?r))"
    using Cons.IH [of db1 ?r] b(2) Cons.prems(3,4) by (simp add: count_use_def)
  then show ?case
    using b(1) by (cases "validate_times ts k db1") (auto simp: v count_use_def)
qed simp

text \<open>C22. Of any number of registrations with a valid key that may be used \<open>m\<close> times, exactly as many succeed as it has uses
  left.\<close>

theorem key_admits_its_uses:
  assumes "db_reach db" "find_key k db = Some r" "kk_max_uses r = Some m" "\<not> kk_revoked r" "list_all (\<lambda>t. \<not> expired t r) ts"
  shows "fst (validate_times ts k db) = min (length ts) (nat (m - kk_use_count r))"
  using db_reach_inv [OF assms(1)] assms(2-) by (simp add: valid_uses db_inv_def)

definition keyed_db :: "int option \<Rightarrow> int option \<Rightarrow> settings_db" where
  "keyed_db expires uses = snd (create_registration_key 5 ''k'' ''lab'' ''admin'' expires uses (new_settings_db 0 None))"

lemma keyed_db_key: "find_key ''k'' (keyed_db expires uses) = Some \<lparr>kk_key = ''k'', kk_label = ''lab'', kk_created_at = 5,
    kk_created_by = ''admin'', kk_expires_at = expires, kk_max_uses = uses, kk_use_count = 0, kk_revoked = False,
    kk_revoked_at = None, kk_revoked_by = None\<rparr>"
  by (simp add: keyed_db_def create_registration_key_def find_key_def new_db_tables Let_def)

theorem key_admits_its_uses_witness: "fst (validate_times [6, 7, 8] ''k'' (keyed_db (Some 9) (Some 2))) = 2"
proof -
  have "db_reach (keyed_db (Some 9) (Some 2))" unfolding keyed_db_def by (rule stepped [OF opened created_key])
  from key_admits_its_uses [OF this keyed_db_key, of 2 "[6, 7, 8]"] show ?thesis by (simp add: expired_def)
qed

text \<open>A key that expires at time 0, or that may be used 0 times, is shown as active and refused.\<close>

theorem shown_status_differs:
  assumes "find_key k db = Some r" "\<not> kk_revoked r" "kk_expires_at r = Some 0 \<and> kk_max_uses r = None \<or> kk_expires_at r = None \<and> kk_max_uses r = Some 0"
    "0 \<le> kk_use_count r" "0 < now"
  shows "key_status now r = ''active'' \<and> \<not> fst (fst (validate_registration_key now k db))"
  using assms by (auto simp: key_status_def nonzero_def validate_registration_key_def expired_def)

theorem shown_status_differs_witness:
  "\<not> fst (fst (validate_registration_key 7 ''k'' (keyed_db None (Some 0))))"
  using shown_status_differs [OF keyed_db_key [of None "Some 0"], of 7] by simp

section \<open>The configuration of an agent\<close>

lemma fold_d_set: "d_get (fold (\<lambda>(k, v). d_set k v) kvs d) k = (case map_of (rev kvs) k of None \<Rightarrow> d_get d k | Some v \<Rightarrow> Some v)"
  by (induction kvs arbitrary: d) (auto simp: d_get_set split: option.splits)

lemma find_unique: "distinct (map f xs) \<Longrightarrow> x \<in> set xs \<Longrightarrow> find (\<lambda>y. f y = f x) xs = Some x"
  by (induction xs) auto

lemma by_priority_set: "set (by_priority p n xs) = set xs"
  by (simp add: by_priority_def)

lemma by_priority_sorted:
  "sorted_wrt (\<lambda>x y. p x < p y \<or> p x = p y \<and> n x \<le> n y) (by_priority p n xs)"
proof -
  have "sorted_wrt (\<lambda>x y. p x < p y \<or> p x = p y \<and> n x \<le> n y) (sort_key p ys)" if "sorted (map n ys)" for ys
    using that
  proof (induction ys)
    case (Cons y ys)
    then have le: "\<forall>x \<in> set ys. n y \<le> n x" and IH: "sorted_wrt (\<lambda>x y. p x < p y \<or> p x = p y \<and> n x \<le> n y) (sort_key p ys)"
      by auto
    have "sorted_wrt (\<lambda>x y. p x < p y \<or> p x = p y \<and> n x \<le> n y) zs \<Longrightarrow> sorted (map p zs) \<Longrightarrow> \<forall>x \<in> set zs. n y \<le> n x \<Longrightarrow>
        sorted_wrt (\<lambda>x y. p x < p y \<or> p x = p y \<and> n x \<le> n y) (insort_key p y zs)" for zs
      by (induction zs) (auto simp: set_insort_key)
    with IH le show ?case by simp
  qed simp
  then show ?thesis by (simp add: by_priority_def)
qed

definition policy_pairs :: "settings_db \<Rightarrow> (agent_tag \<times> tag_row) list \<Rightarrow> (string \<times> string) list" where
  "policy_pairs db ts = concat (map (\<lambda>(_, t). get_tag_policy (tw_name t) db) ts)"

lemma policy_pairs_none: "\<forall>x \<in> set ts. d_get (get_tag_policy (tw_name (snd x)) db) k = None \<Longrightarrow> k \<notin> fst ` set (policy_pairs db ts)"
  by (induction ts) (auto simp: policy_pairs_def d_get_None case_prod_beta)

lemma policy_wf: "db_inv db \<Longrightarrow> d_wf (get_tag_policy n db)"
proof -
  assume "db_inv db"
  then have d: "distinct (map (\<lambda>p. (pw_tag p, pw_key p)) (sd_policies db))" by (simp add: db_inv_def policies_ok_def)
  have "distinct (map (\<lambda>p. (pw_tag p, pw_key p)) ps) \<Longrightarrow> distinct (map pw_key (filter (\<lambda>p. pw_tag p = n) ps))" for ps
    by (induction ps) (auto simp: image_iff)
  from this [OF d] show ?thesis by (simp add: d_wf_def get_tag_policy_def comp_def)
qed

lemma tags_of_in: "x \<in> set (tags_of a db) \<longleftrightarrow> fst x \<in> set (sd_agent_tags db) \<and> at_agent (fst x) = a \<and> get_tag (at_tag (fst x)) db = Some (snd x)"
  by (cases x) (force simp: tags_of_def map_filter_def split: option.splits)

lemma get_tag_row: "get_tag n db = Some t \<Longrightarrow> tw_name t = n"
  unfolding get_tag_def find_Some_iff by blast

lemma resolved_setting:
  assumes inv: "db_inv db" and x: "x \<in> set (get_agent_tags a db)" and v: "d_get (get_tag_policy (tw_name (snd x)) db) k = Some v"
    and top: "\<And>y. y \<in> set (get_agent_tags a db) \<Longrightarrow> tw_name (snd y) \<noteq> tw_name (snd x) \<Longrightarrow> d_get (get_tag_policy (tw_name (snd y)) db) k \<noteq> None \<Longrightarrow>
      tw_priority (snd y) < tw_priority (snd x) \<or> tw_priority (snd y) = tw_priority (snd x) \<and> tw_name (snd y) < tw_name (snd x)"
  shows "d_get (cg_settings (resolve_agent_config a db)) k = Some v"
proof -
  let ?P = "\<lambda>y. d_get (get_tag_policy (tw_name (snd y)) db) k \<noteq> None"
  obtain xs y ys where s: "get_agent_tags a db = xs @ y # ys" "?P y" "\<forall>z \<in> set ys. \<not> ?P z"
    using split_list_last_prop [of "get_agent_tags a db" ?P] x v by (metis option.distinct(1))
  have same: "tw_name (snd y) = tw_name (snd x)"
  proof (rule ccontr)
    assume ne: "tw_name (snd y) \<noteq> tw_name (snd x)"
    then have "x \<in> set xs" using x s v by auto
    moreover have "sorted_wrt (\<lambda>x y. tw_priority (snd x) < tw_priority (snd y) \<or> tw_priority (snd x) = tw_priority (snd y) \<and> tw_name (snd x) \<le> tw_name (snd y)) (get_agent_tags a db)"
      using by_priority_sorted [of "\<lambda>(_, t). tw_priority t" "\<lambda>(_, t). tw_name t" "tags_of a db"]
      by (simp add: get_agent_tags_def case_prod_beta)
    ultimately have "tw_priority (snd x) < tw_priority (snd y) \<or> tw_priority (snd x) = tw_priority (snd y) \<and> tw_name (snd x) \<le> tw_name (snd y)"
      using s(1) by (auto simp: sorted_wrt_append)
    moreover have "tw_priority (snd y) < tw_priority (snd x) \<or> tw_priority (snd y) = tw_priority (snd x) \<and> tw_name (snd y) < tw_name (snd x)"
      using top [of y] s(1,2) ne by simp
    ultimately show False using leD by auto
  qed
  have none: "k \<notin> fst ` set (policy_pairs db ys)" using s(3) by (intro policy_pairs_none) simp
  have pairs: "agent_policies a db = policy_pairs db xs @ get_tag_policy (tw_name (snd x)) db @ policy_pairs db ys"
    by (simp add: agent_policies_def policy_pairs_def s(1) same case_prod_beta)
  have "map_of (rev (get_tag_policy (tw_name (snd x)) db)) k = Some v"
    using v policy_wf [OF inv, of "tw_name (snd x)"] d_get_in [OF v] by (simp add: d_wf_def rev_map [symmetric])
  then have "map_of (rev (agent_policies a db)) k = Some v"
    using none by (simp add: pairs map_add_def map_of_eq_None_iff [THEN iffD2])
  then show ?thesis by (simp add: resolve_agent_config_def fold_d_set)
qed

text \<open>C21. An agent gets for a setting what its tag of the highest priority that sets it says (of equal priorities, the last
  name).\<close>

theorem highest_tag_wins:
  assumes "db_reach db" "has_tag a n db" "get_tag n db = Some t" "d_get (get_tag_policy n db) k = Some v"
    "\<forall>m u. has_tag a m db \<and> m \<noteq> n \<and> get_tag m db = Some u \<and> d_get (get_tag_policy m db) k \<noteq> None
       \<longrightarrow> tw_priority u < tw_priority t \<or> tw_priority u = tw_priority t \<and> m < n"
  shows "d_get (cg_settings (resolve_agent_config a db)) k = Some v"
proof -
  obtain r where r: "r \<in> set (sd_agent_tags db)" "at_agent r = a" "at_tag r = n"
    using assms(2) by (auto simp: has_tag_def list_ex_iff)
  then have x: "(r, t) \<in> set (get_agent_tags a db)"
    using assms(3) by (simp add: get_agent_tags_def by_priority_set tags_of_in)
  have n: "tw_name t = n" using assms(3) by (rule get_tag_row)
  show ?thesis
  proof (rule resolved_setting [OF db_reach_inv [OF assms(1)] x])
    show "d_get (get_tag_policy (tw_name (snd (r, t))) db) k = Some v" using assms(4) n by simp
  next
    fix y assume y: "y \<in> set (get_agent_tags a db)" "tw_name (snd y) \<noteq> tw_name (snd (r, t))"
      "d_get (get_tag_policy (tw_name (snd y)) db) k \<noteq> None"
    from y(1) have "get_tag (at_tag (fst y)) db = Some (snd y)" "fst y \<in> set (sd_agent_tags db)" "at_agent (fst y) = a"
      by (simp_all add: get_agent_tags_def by_priority_set tags_of_in)
    then have "has_tag a (tw_name (snd y)) db" "get_tag (tw_name (snd y)) db = Some (snd y)"
      using get_tag_row by (auto simp: has_tag_def list_ex_iff)
    then show "tw_priority (snd y) < tw_priority (snd (r, t)) \<or> tw_priority (snd y) = tw_priority (snd (r, t)) \<and> tw_name (snd y) < tw_name (snd (r, t))"
      using assms(5) y(2,3) n by auto
  qed
qed

definition tagged_db :: settings_db where
  "tagged_db = (let db = new_settings_db 0 None; db = snd (create_tag 1 ''web'' '''' ''#3b82f6'' 1 db);
     db = snd (create_tag 1 ''prod'' '''' ''#3b82f6'' 2 db); db = snd (assign_tag 2 ''a1'' ''prod'' ''admin'' db);
     db = snd (assign_tag 2 ''a1'' ''web'' ''admin'' db); db = snd (set_tag_policy 3 ''web'' [(''response_mode'', ''learning'')] db)
     in snd (set_tag_policy 3 ''prod'' [(''response_mode'', ''active'')] db))"

lemma tagged_db_reach: "db_reach tagged_db"
  unfolding tagged_db_def Let_def
  by (intro stepped [OF _ set_policy] stepped [OF _ assigned_tag] stepped [OF _ created_tag] opened) (simp_all add: d_wf_def)

lemma tagged_db_tables:
  "map tw_name (sd_tags tagged_db) = [''web'', ''prod''] \<and> map tw_priority (sd_tags tagged_db) = [1, 2]
    \<and> map (\<lambda>r. (at_agent r, at_tag r)) (sd_agent_tags tagged_db) = [(''a1'', ''prod''), (''a1'', ''web'')]
    \<and> map (\<lambda>p. (pw_tag p, pw_key p, pw_value p)) (sd_policies tagged_db)
      = [(''web'', ''response_mode'', ''learning''), (''prod'', ''response_mode'', ''active'')]"
  by (simp add: tagged_db_def Let_def create_tag_def assign_tag_def set_tag_policy_def get_tag_def has_tag_def new_db_tables
      tag_name_ok_def tag_color_ok_def drop_last_lf_def tag_name_chars_def hex_chars_def VALID_AGENT_SETTINGS_def)

theorem highest_tag_wins_witness: "d_get (cg_settings (resolve_agent_config ''a1'' tagged_db)) ''response_mode'' = Some ''active''"
proof -
  obtain t u where t: "sd_tags tagged_db = [t, u]" "tw_name t = ''web''" "tw_name u = ''prod''" "tw_priority t = 1" "tw_priority u = 2"
    using tagged_db_tables by (auto simp: map_eq_Cons_conv)
  obtain p q where p: "sd_policies tagged_db = [p, q]" "pw_tag p = ''web''" "pw_tag q = ''prod''" "pw_key q = ''response_mode''" "pw_value q = ''active''"
    using tagged_db_tables by (auto simp: map_eq_Cons_conv)
  obtain r s where r: "sd_agent_tags tagged_db = [r, s]" "at_agent r = ''a1''" "at_tag r = ''prod''" "at_tag s = ''web''"
    using tagged_db_tables by (auto simp: map_eq_Cons_conv)
  show ?thesis
    by (rule highest_tag_wins [OF tagged_db_reach, of _ "''prod''" u])
      (auto simp: has_tag_def get_tag_def get_tag_policy_def t p r d_get_def)
qed

end
