(* ===== verification/FleetChains.thy ===== *)
theory FleetChains
  imports FleetTables
begin

text \<open>
  The attack chains that the fleet server builds from what agents answer (\<open>server/neo4j_client.py\<close>): from
  the records of a trace, and from the raw events of an incident, where the order of time decides which
  process may be the parent of which.
\<close>

section \<open>Steps\<close>

text \<open>Steps without a command line or user have \<open>None\<close>.\<close>

record xdr_step =
  xs_entity_type :: string
  xs_entity_id :: string
  xs_entity_name :: string
  xs_pid :: int
  xs_cmd_line :: "string option"
  xs_username :: "string option"
  xs_timestamp :: datetime
  xs_step_index :: nat

definition plain_step :: "string \<Rightarrow> string \<Rightarrow> xdr_step" where
  "plain_step ty i = \<lparr>xs_entity_type = ty, xs_entity_id = i, xs_entity_name = i, xs_pid = 0, xs_cmd_line = None,
     xs_username = None, xs_timestamp = 0, xs_step_index = 0\<rparr>"

definition number_steps :: "xdr_step list \<Rightarrow> xdr_step list" where
  "number_steps ss = map (\<lambda>(i, s). s\<lparr>xs_step_index := i\<rparr>) (enumerate 0 ss)"

definition is_process :: "xdr_step \<Rightarrow> bool" where
  "is_process s \<longleftrightarrow> xs_entity_type s = ''process''"

section \<open>From the records of a trace\<close>

definition has_text :: "string option \<Rightarrow> bool" where
  "has_text s = (case s of None \<Rightarrow> False | Some x \<Rightarrow> x \<noteq> [])"

definition trace_username :: "trace_record list \<Rightarrow> string" where
  "trace_username rs = (case find (\<lambda>r. has_text (xr_username r) \<and> xr_username r \<noteq> Some ''None'') rs of
     None \<Rightarrow> [] | Some r \<Rightarrow> the (xr_username r))"

definition user_step :: "string \<Rightarrow> xdr_step" where
  "user_step u = (plain_step ''user'' (if u = [] then ''unknown'' else u))\<lparr>xs_username := Some u\<rparr>"

definition usable :: "trace_record \<Rightarrow> bool" where
  "usable r \<longleftrightarrow> has_text (xr_process_name r) \<and> xr_pid r \<noteq> None \<and> xr_pid r \<noteq> Some 0"

definition epoch_of :: "trace_time option \<Rightarrow> datetime" where
  "epoch_of t = (case t of Some (Epoch x) \<Rightarrow> x | _ \<Rightarrow> 0)"

definition process_step :: "trace_record \<Rightarrow> xdr_step" where
  "process_step r = \<lparr>xs_entity_type = ''process'', xs_entity_id = the (xr_process_name r), xs_entity_name = the (xr_process_name r),
     xs_pid = the (xr_pid r), xs_cmd_line = xr_cmd_line r, xs_username = xr_username r,
     xs_timestamp = epoch_of (xr_timestamp r), xs_step_index = 0\<rparr>"

fun unique_processes :: "int set \<Rightarrow> trace_record list \<Rightarrow> xdr_step list" where
  "unique_processes seen [] = []"
| "unique_processes seen (r # rs) =
     (if usable r \<and> the (xr_pid r) \<notin> seen then process_step r # unique_processes (insert (the (xr_pid r)) seen) rs
      else unique_processes seen rs)"

definition ip_step :: "trace_record list \<Rightarrow> xdr_step list" where
  "ip_step rs = (case find (\<lambda>r. has_text (xr_from_ip r)) rs of None \<Rightarrow> [] | Some r \<Rightarrow> [plain_step ''ip'' (the (xr_from_ip r))])"

text \<open>The user goes after the first process of that user, or last.\<close>

fun place_user :: "string \<Rightarrow> xdr_step list \<Rightarrow> xdr_step list" where
  "place_user u [] = [user_step u]"
| "place_user u (p # ps) = (if xs_username p = Some u \<and> u \<noteq> [] then p # user_step u # ps else p # place_user u ps)"

definition build_chain_from_xdr_records :: "bool \<Rightarrow> trace_record list \<Rightarrow> xdr_step list" where
  "build_chain_from_xdr_records reverse rs =
     (let u = trace_username rs; procs = sort_key xs_timestamp (unique_processes {} rs); ip = ip_step rs
      in number_steps (if reverse then ip @ place_user u procs else user_step u # procs @ ip))"

section \<open>From raw events\<close>

text \<open>A row of the evidence whose JSON does not parse has no event.\<close>

record evidence_event =
  ee_type :: string
  ee_timestamp :: datetime
  ee_event :: ocsf_event

definition target_events :: "string \<Rightarrow> ocsf_evidence list \<Rightarrow> evidence_event list" where
  "target_events a rows = sort_key ee_timestamp (List.map_filter (\<lambda>r.
     if oe_agent r = a then map_option (\<lambda>e. \<lparr>ee_type = lg_event_type (oe_record r), ee_timestamp = lg_timestamp (oe_record r),
       ee_event = e\<rparr>) (lg_ocsf (oe_record r)) else None) rows)"

definition is_auth :: "evidence_event \<Rightarrow> bool" where
  "is_auth e \<longleftrightarrow> ee_type e \<in> {''Authentication'', ''authentication''}"

definition is_anchor_type :: "evidence_event \<Rightarrow> bool" where
  "is_anchor_type e \<longleftrightarrow> ee_type e \<in> {''Authentication'', ''authentication'', ''NetworkActivity'', ''network_activity''}"

definition is_process_type :: "evidence_event \<Rightarrow> bool" where
  "is_process_type e \<longleftrightarrow> ee_type e \<in> {''ProcessActivity'', ''process_activity''}"

definition src_ip :: "evidence_event \<Rightarrow> string" where
  "src_ip e = (case event_src (ee_event e) of None \<Rightarrow> [] | Some n \<Rightarrow> ne_ip n)"

definition auth_name :: "evidence_event \<Rightarrow> string" where
  "auth_name e = (case ee_event e of Authentication x \<Rightarrow> ui_name (au_user x) | _ \<Rightarrow> [])"

definition actor_name :: "evidence_event \<Rightarrow> string" where
  "actor_name e = (case ee_event e of ProcessActivity x \<Rightarrow> (case pa_actor x of None \<Rightarrow> [] | Some u \<Rightarrow> ui_name u) | _ \<Rightarrow> [])"

definition ev_process :: "evidence_event \<Rightarrow> process_info option" where
  "ev_process e = event_process (ee_event e)"

record anchors =
  an_pids :: "(int, datetime) dict"
  an_pid_users :: "(int, string) dict"
  an_user :: string
  an_ip :: string
  an_ts :: datetime

definition no_anchors :: anchors where
  "no_anchors = \<lparr>an_pids = [], an_pid_users = [], an_user = [], an_ip = [], an_ts = 0\<rparr>"

definition note_ip :: "string \<Rightarrow> anchors \<Rightarrow> anchors" where
  "note_ip ip an = (if an_ip an = [] then an\<lparr>an_ip := ip\<rparr> else an)"

definition note_user :: "string \<Rightarrow> anchors \<Rightarrow> anchors" where
  "note_user u an = (if u \<noteq> [] \<and> an_user an = [] then an\<lparr>an_user := u\<rparr> else an)"

definition note_pid :: "string \<Rightarrow> int \<Rightarrow> datetime \<Rightarrow> anchors \<Rightarrow> anchors" where
  "note_pid u p t an = an\<lparr>an_pids := d_set p t (an_pids an),
     an_pid_users := if u \<noteq> [] then d_set p u (an_pid_users an) else an_pid_users an,
     an_ts := if an_ts an = 0 \<or> t < an_ts an then t else an_ts an\<rparr>"

definition find_anchor :: "string list \<Rightarrow> evidence_event \<Rightarrow> anchors \<Rightarrow> anchors" where
  "find_anchor pivots e an =
     (if src_ip e \<notin> set pivots then an
      else let u = (if is_auth e then auth_name e else []); an = note_user u (note_ip (src_ip e) an)
        in if is_anchor_type e then
             (case ev_process e of
               Some p \<Rightarrow> if 0 < pi_pid p then note_pid u (pi_pid p) (ee_timestamp e) an else an
             | None \<Rightarrow> an)
           else an)"

record chain_proc =
  cp_name :: string
  cp_cmd_line :: string
  cp_timestamp :: datetime
  cp_username :: string

definition seed_anchor :: "anchors \<Rightarrow> evidence_event \<Rightarrow> (int, chain_proc) dict \<Rightarrow> (int, chain_proc) dict" where
  "seed_anchor an e pm = (case ev_process e of
     None \<Rightarrow> pm
   | Some p \<Rightarrow> (case d_get (an_pids an) (pi_pid p) of
       Some t \<Rightarrow> if pi_pid p \<noteq> 0 \<and> d_get pm (pi_pid p) = None
         then d_set (pi_pid p) \<lparr>cp_name = pi_name p, cp_cmd_line = pi_cmd_line p, cp_timestamp = t,
           cp_username = d_get_or (an_pid_users an) (pi_pid p) []\<rparr> pm else pm
     | None \<Rightarrow> pm))"

text \<open>The second loop: the pids known so far, their processes and the user.\<close>

record walk =
  wk_known :: "(int, datetime) dict"
  wk_procs :: "(int, chain_proc) dict"
  wk_user :: string

definition walk_child :: "datetime \<Rightarrow> evidence_event \<Rightarrow> walk \<Rightarrow> walk" where
  "walk_child floor e w =
     (if \<not> is_process_type e then w
      else case ev_process e of
        None \<Rightarrow> w
      | Some p \<Rightarrow>
          if \<not> 0 < pi_pid p then w
          else case (case pi_parent_pid p of None \<Rightarrow> None | Some pp \<Rightarrow> d_get (wk_known w) pp) of
            None \<Rightarrow> w
          | Some parent_ts \<Rightarrow>
              if d_get (wk_known w) (pi_pid p) \<noteq> None then w
              else if ee_timestamp e < floor then w
              else if ee_timestamp e < parent_ts then w
              else \<lparr>wk_known = d_set (pi_pid p) (ee_timestamp e) (wk_known w),
                wk_procs = d_set (pi_pid p) \<lparr>cp_name = pi_name p, cp_cmd_line = pi_cmd_line p, cp_timestamp = ee_timestamp e,
                  cp_username = actor_name e\<rparr> (wk_procs w),
                wk_user = if wk_user w = [] then actor_name e else wk_user w\<rparr>)"

definition proc_step :: "int \<times> chain_proc \<Rightarrow> xdr_step" where
  "proc_step pc = \<lparr>xs_entity_type = ''process'', xs_entity_id = cp_name (snd pc), xs_entity_name = cp_name (snd pc), xs_pid = fst pc,
     xs_cmd_line = Some (cp_cmd_line (snd pc)), xs_username = None, xs_timestamp = cp_timestamp (snd pc), xs_step_index = 0\<rparr>"

fun steps_with_user :: "string \<Rightarrow> (int \<times> chain_proc) list \<Rightarrow> xdr_step list" where
  "steps_with_user u [] = (if u = [] then [] else [plain_step ''user'' u])"
| "steps_with_user u (pc # pcs) =
     (if u \<noteq> [] \<and> cp_username (snd pc) = u then proc_step pc # plain_step ''user'' u # map proc_step pcs
      else proc_step pc # steps_with_user u pcs)"

definition walk_evidence :: "string list \<Rightarrow> evidence_event list \<Rightarrow> anchors \<times> walk" where
  "walk_evidence pivots es = (let an = fold (find_anchor pivots) es no_anchors
     in (an, fold (walk_child (an_ts an)) es \<lparr>wk_known = an_pids an, wk_procs = fold (seed_anchor an) es [], wk_user = an_user an\<rparr>))"

definition build_chain_from_ocsf_evidence :: "ocsf_evidence list \<Rightarrow> string \<Rightarrow> string list \<Rightarrow> xdr_step list option" where
  "build_chain_from_ocsf_evidence rows a pivots =
     (if rows = [] \<or> pivots = [] then None
      else let es = target_events a rows in
        if es = [] then None
        else let (an, w) = walk_evidence pivots es in
          if an_pids an = [] \<and> an_user an = [] then None
          else let ip = (if an_ip an = [] then hd pivots else an_ip an);
              steps = (if ip = [] then [] else [plain_step ''ip'' ip])
                @ steps_with_user (wk_user w) (sort_key (\<lambda>pc. cp_timestamp (snd pc)) (wk_procs w))
            in if length steps \<le> 1 then None else Some (number_steps steps))"

section \<open>Numbering and sorting\<close>

lemma number_map: "(\<And>s i. f (s\<lparr>xs_step_index := i\<rparr>) = f s) \<Longrightarrow> map f (number_steps ss) = map f ss"
  by (intro nth_equalityI) (simp_all add: number_steps_def nth_enumerate_eq)

lemma number_filter: "(\<And>s i. P (s\<lparr>xs_step_index := i\<rparr>) = P s) \<Longrightarrow> (\<And>s i. f (s\<lparr>xs_step_index := i\<rparr>) = f s) \<Longrightarrow>
    map f (filter P (number_steps ss)) = map f (filter P ss)"
proof -
  assume P: "\<And>s i. P (s\<lparr>xs_step_index := i\<rparr>) = P s" and f: "\<And>s i. f (s\<lparr>xs_step_index := i\<rparr>) = f s"
  have "map f (filter P (map (\<lambda>(i, s). s\<lparr>xs_step_index := i\<rparr>) (enumerate n ss))) = map f (filter P ss)" for n
    by (induction ss arbitrary: n) (simp_all add: P f)
  then show ?thesis by (simp add: number_steps_def)
qed

lemma number_index: "map xs_step_index (number_steps ss) = [0..<length ss]"
  by (intro nth_equalityI) (simp_all add: number_steps_def nth_enumerate_eq)

lemma number_length [simp]: "length (number_steps ss) = length ss"
  by (simp add: number_steps_def)

text \<open>\<open>x\<close> comes before \<open>y\<close>.\<close>

fun before :: "'a list \<Rightarrow> 'a \<Rightarrow> 'a \<Rightarrow> bool" where
  "before [] x y = False"
| "before (z # zs) x y = (z = x \<and> y \<in> set zs \<or> before zs x y)"

lemma before_in: "before xs x y \<Longrightarrow> x \<in> set xs \<and> y \<in> set xs"
  by (induction xs) auto

lemma before_append: "before (xs @ ys) x y \<longleftrightarrow> before xs x y \<or> before ys x y \<or> x \<in> set xs \<and> y \<in> set ys"
  by (induction xs) auto

lemma before_map: "before xs x y \<Longrightarrow> before (map f xs) (f x) (f y)"
  by (induction xs) auto

lemma before_insort: "before xs x y \<Longrightarrow> before (insort_key f z xs) x y"
  by (induction xs) (auto simp: set_insort_key)

lemma insort_before: "y \<in> set xs \<Longrightarrow> f x \<le> f y \<Longrightarrow> before (insort_key f x xs) x y"
  by (induction xs) auto

text \<open>A stable sort keeps the order of what is in order.\<close>

lemma before_sort: "before xs x y \<Longrightarrow> f x \<le> f y \<Longrightarrow> before (sort_key f xs) x y"
  by (induction xs) (auto simp: before_insort insort_before)

section \<open>Chains of a trace\<close>

lemma unique_processes_spec:
  "list_all is_process (unique_processes seen rs) \<and> distinct (map xs_pid (unique_processes seen rs))
   \<and> xs_pid ` set (unique_processes seen rs) = {p. \<exists>r \<in> set rs. usable r \<and> xr_pid r = Some p} - seen"
proof (induction rs arbitrary: seen)
  case (Cons r rs)
  show ?case
    using Cons.IH [of seen] Cons.IH [of "insert (the (xr_pid r)) seen"]
    by (auto simp: process_step_def is_process_def usable_def)
qed simp

lemma user_step_type [simp]: "xs_entity_type (user_step u) = ''user''"
  by (simp add: user_step_def plain_step_def)

lemma filter_place_user:
  "list_all is_process ps \<Longrightarrow> filter is_process (place_user u ps) = ps
     \<and> length (filter (\<lambda>s. xs_entity_type s = ''user'') (place_user u ps)) = 1"
proof (induction ps)
  case (Cons p ps)
  then have "filter (\<lambda>s. xs_entity_type s = ''process'') ps = ps" "filter (\<lambda>s. xs_entity_type s = ''user'') ps = []"
    by (auto simp: list_all_iff filter_id_conv filter_empty_conv is_process_def)
  with Cons show ?case by (auto simp: is_process_def)
qed (simp add: is_process_def)

lemma ip_step_type: "filter is_process (ip_step rs) = [] \<and> filter (\<lambda>s. xs_entity_type s = ''user'') (ip_step rs) = []"
  by (auto simp: ip_step_def plain_step_def is_process_def split: option.split)

definition chain_procs :: "xdr_step list \<Rightarrow> (int \<times> datetime) list" where
  "chain_procs ss = map (\<lambda>s. (xs_pid s, xs_timestamp s)) (filter is_process ss)"

lemma chain_procs_number: "chain_procs (number_steps ss) = chain_procs ss"
  unfolding chain_procs_def by (rule number_filter) (simp_all add: is_process_def)


section \<open>Chains of evidence\<close>

definition pid_of :: "evidence_event \<Rightarrow> int option" where
  "pid_of e = map_option pi_pid (ev_process e)"

text \<open>A process that talked to one of the addresses, and one that another started.\<close>

definition anchored :: "string list \<Rightarrow> evidence_event list \<Rightarrow> int \<Rightarrow> bool" where
  "anchored pivots es p \<longleftrightarrow> list_ex (\<lambda>e. is_anchor_type e \<and> src_ip e \<in> set pivots \<and> pid_of e = Some p) es"

definition spawned_by :: "evidence_event list \<Rightarrow> int \<Rightarrow> int \<Rightarrow> datetime \<Rightarrow> bool" where
  "spawned_by es q p t \<longleftrightarrow> list_ex (\<lambda>e. is_process_type e \<and> ee_timestamp e = t
     \<and> (case ev_process e of None \<Rightarrow> False | Some i \<Rightarrow> pi_pid i = p \<and> pi_parent_pid i = Some q)) es"

definition grounded :: "string list \<Rightarrow> evidence_event list \<Rightarrow> (int \<times> datetime) list \<Rightarrow> bool" where
  "grounded pivots es xs \<longleftrightarrow> (\<forall>y \<in> set xs. anchored pivots es (fst y)
     \<or> (\<exists>x \<in> set xs. before xs x y \<and> snd x \<le> snd y \<and> spawned_by es (fst x) (fst y) (snd y)))"

definition entry :: "int \<times> chain_proc \<Rightarrow> int \<times> datetime" where
  "entry pc = (fst pc, cp_timestamp (snd pc))"

lemma sort_entries: "map entry (sort_key (\<lambda>pc. cp_timestamp (snd pc)) pm) = sort_key snd (map entry pm)"
proof -
  have "map entry (insort_key (\<lambda>pc. cp_timestamp (snd pc)) x ys) = insort_key snd (entry x) (map entry ys)" for x ys
    by (induction ys) (auto simp: entry_def)
  then show ?thesis by (induction pm) simp_all
qed

lemma grounded_sort: "grounded pivots es xs \<Longrightarrow> grounded pivots es (sort_key snd xs)"
  unfolding grounded_def by (metis before_sort set_sort)

lemma anchors_from:
  fixes an :: anchors
  assumes "set es \<subseteq> set all" "\<forall>p \<in> fst ` set (an_pids an). p \<noteq> 0 \<and> anchored pivots all p"
  shows "\<forall>p \<in> fst ` set (an_pids (fold (find_anchor pivots) es an)). p \<noteq> 0 \<and> anchored pivots all p"
proof (rule fold_invariant [where I = "\<lambda>an. \<forall>p \<in> fst ` set (an_pids an). p \<noteq> 0 \<and> anchored pivots all p"])
  fix e and an :: anchors assume inv: "\<forall>p \<in> fst ` set (an_pids an). p \<noteq> 0 \<and> anchored pivots all p" and "e \<in> set es"
  then have e: "e \<in> set all" using assms(1) by blast
  show "\<forall>p \<in> fst ` set (an_pids (find_anchor pivots e an)). p \<noteq> 0 \<and> anchored pivots all p"
  proof (cases "src_ip e \<in> set pivots \<and> is_anchor_type e \<and> (\<exists>p. ev_process e = Some p \<and> 0 < pi_pid p)")
    case True
    then obtain p where p: "ev_process e = Some p" "0 < pi_pid p" "src_ip e \<in> set pivots" "is_anchor_type e" by blast
    then have a: "anchored pivots all (pi_pid p)" using e by (auto simp: anchored_def list_ex_iff pid_of_def)
    have "an_pids (find_anchor pivots e an) = d_set (pi_pid p) (ee_timestamp e) (an_pids an)"
      using p by (simp add: find_anchor_def Let_def note_pid_def note_user_def note_ip_def)
    with inv a p(2) show ?thesis by (simp add: d_set_keys)
  next
    case False
    then have "an_pids (find_anchor pivots e an) = an_pids an"
      by (auto simp: find_anchor_def Let_def note_user_def note_ip_def split: option.split)
    with inv show ?thesis by simp
  qed
qed (use assms in simp)

lemma wf_in: "d_wf d \<Longrightarrow> x \<in> set d \<longleftrightarrow> d_get d (fst x) = Some (snd x)"
  by (metis d_get_in d_in_get prod.collapse)

lemma d_set_in: "d_wf d \<Longrightarrow> x \<in> set (d_set k v d) \<longleftrightarrow> x = (k, v) \<or> x \<in> set d \<and> fst x \<noteq> k"
  by (cases x) (auto simp: wf_in d_get_set)

text \<open>The anchors, each once, at the time of its last event.\<close>

lemma seeds:
  fixes an :: anchors
  assumes "d_wf pm" "\<forall>x \<in> set pm. d_get (an_pids an) (fst x) = Some (cp_timestamp (snd x))"
  shows "d_wf (fold (seed_anchor an) es pm)
    \<and> (\<forall>x \<in> set (fold (seed_anchor an) es pm). d_get (an_pids an) (fst x) = Some (cp_timestamp (snd x)))"
  using assms
proof (induction es arbitrary: pm)
  case (Cons e es)
  have "d_wf (seed_anchor an e pm) \<and> (\<forall>x \<in> set (seed_anchor an e pm). d_get (an_pids an) (fst x) = Some (cp_timestamp (snd x)))"
    using Cons.prems by (auto simp: seed_anchor_def d_set_in split: option.split)
  from Cons.IH [OF conjunct1 [OF this] conjunct2 [OF this]] show ?case by simp
qed simp

lemma seeds_all:
  fixes an :: anchors
  shows "p \<in> fst ` set pm \<or> (p \<noteq> 0 \<and> p \<in> fst ` set (an_pids an) \<and> (\<exists>e \<in> set es. pid_of e = Some p)) \<Longrightarrow>
    p \<in> fst ` set (fold (seed_anchor an) es pm)"
proof (induction es arbitrary: pm)
  case (Cons e es)
  have "p \<in> fst ` set (seed_anchor an e pm)" if "p \<in> fst ` set pm \<or> p \<noteq> 0 \<and> p \<in> fst ` set (an_pids an) \<and> pid_of e = Some p"
    using that d_get_None [of "an_pids an" p] d_get_None [of pm p]
    by (auto simp: seed_anchor_def pid_of_def d_set_keys split: option.split)
  with Cons show ?case by auto
qed auto

text \<open>The walk: a pid is known at the time of its process, and every process is grounded.\<close>

definition walk_ok :: "string list \<Rightarrow> evidence_event list \<Rightarrow> walk \<Rightarrow> bool" where
  "walk_ok pivots es w \<longleftrightarrow> d_wf (wk_procs w) \<and> grounded pivots es (map entry (wk_procs w))
     \<and> (\<forall>p. d_get (wk_known w) p = map_option cp_timestamp (d_get (wk_procs w) p))"

lemma grounded_snoc:
  assumes "grounded pivots es xs" "anchored pivots es (fst y) \<or> (\<exists>x \<in> set xs. snd x \<le> snd y \<and> spawned_by es (fst x) (fst y) (snd y))"
  shows "grounded pivots es (xs @ [y])"
  using assms unfolding grounded_def by (fastforce simp: before_append)

lemma walk_child_ok:
  assumes "walk_ok pivots es w" "e \<in> set es"
  shows "walk_ok pivots es (walk_child floor e w)"
proof (cases "walk_child floor e w = w")
  case False
  then obtain p q tq where p: "is_process_type e" "ev_process e = Some p" "pi_parent_pid p = Some q"
    "d_get (wk_known w) q = Some tq" "d_get (wk_known w) (pi_pid p) = None" "tq \<le> ee_timestamp e"
    and new: "walk_child floor e w = \<lparr>wk_known = d_set (pi_pid p) (ee_timestamp e) (wk_known w),
                wk_procs = d_set (pi_pid p) \<lparr>cp_name = pi_name p, cp_cmd_line = pi_cmd_line p, cp_timestamp = ee_timestamp e,
                  cp_username = actor_name e\<rparr> (wk_procs w),
                wk_user = if wk_user w = [] then actor_name e else wk_user w\<rparr>"
    unfolding walk_child_def by (force split: if_splits option.splits simp: not_less)
  from assms(1) have ok: "d_wf (wk_procs w)" "grounded pivots es (map entry (wk_procs w))"
    "\<And>p. d_get (wk_known w) p = map_option cp_timestamp (d_get (wk_procs w) p)" by (simp_all add: walk_ok_def)
  from p(4) ok(3) obtain c where c: "d_get (wk_procs w) q = Some c" "cp_timestamp c = tq" by fastforce
  have fresh: "pi_pid p \<notin> fst ` set (wk_procs w)" using p(5) ok(3) by (simp add: d_get_None [symmetric])
  have "spawned_by es q (pi_pid p) (ee_timestamp e)" using p(1-3) assms(2) by (force simp: spawned_by_def list_ex_iff)
  moreover have "(q, tq) \<in> set (map entry (wk_procs w))" using d_get_in [OF c(1)] c(2) by (force simp: entry_def)
  ultimately have "grounded pivots es (map entry (wk_procs w) @ [(pi_pid p, ee_timestamp e)])"
    using p(6) by (intro grounded_snoc [OF ok(2)] disjI2 bexI [of _ "(q, tq)"]) simp_all
  with ok fresh show ?thesis
    by (simp add: new walk_ok_def d_set_fresh entry_def) (simp add: d_set_fresh [symmetric] d_get_set d_wf_set)
qed (use assms in simp)

lemma walk_start:
  fixes pivots es
  defines "an \<equiv> fold (find_anchor pivots) es no_anchors"
  shows "walk_ok pivots es \<lparr>wk_known = an_pids an, wk_procs = fold (seed_anchor an) es [], wk_user = u\<rparr>"
proof -
  let ?pm = "fold (seed_anchor an) es []"
  have an: "\<forall>p \<in> fst ` set (an_pids an). p \<noteq> 0 \<and> anchored pivots es p"
    unfolding an_def by (rule anchors_from) (simp_all add: no_anchors_def)
  have pm: "d_wf ?pm" "\<forall>x \<in> set ?pm. d_get (an_pids an) (fst x) = Some (cp_timestamp (snd x))"
    using seeds [of "[]" an es] by simp_all
  have "d_get (an_pids an) p = map_option cp_timestamp (d_get ?pm p)" for p
  proof (cases "d_get (an_pids an) p")
    case None
    then have "d_get ?pm p = None" using pm(2) d_get_in [of ?pm p] by (cases "d_get ?pm p") force+
    with None show ?thesis by simp
  next
    case (Some t)
    from d_get_in [OF Some] have k: "p \<in> fst ` set (an_pids an)" by force
    with an have "p \<noteq> 0" "anchored pivots es p" by blast+
    then have "\<exists>e \<in> set es. pid_of e = Some p" unfolding anchored_def list_ex_iff by blast
    with k \<open>p \<noteq> 0\<close> have "p \<in> fst ` set ?pm" by (intro seeds_all disjI2 conjI)
    then obtain c where c: "d_get ?pm p = Some c" using d_get_None [of ?pm p] by (cases "d_get ?pm p") simp_all
    with pm(2) Some d_get_in [OF c] show ?thesis by force
  qed
  moreover have "grounded pivots es (map entry ?pm)"
    using an pm(2) d_get_in by (force simp: grounded_def entry_def)
  ultimately show ?thesis using pm(1) by (simp add: walk_ok_def)
qed

lemma walk_done: "walk_ok pivots es (snd (walk_evidence pivots es))"
  unfolding walk_evidence_def Let_def snd_conv
  by (rule fold_invariant [where I = "walk_ok pivots es"]) (simp_all add: walk_child_ok walk_start)

lemma plain_not_process: "is_process (plain_step ty i) = (ty = ''process'')"
  by (simp add: is_process_def plain_step_def)

lemma chain_procs_walk: "chain_procs (steps_with_user u pcs) = map entry pcs"
proof -
  have p: "is_process (proc_step pc)" "(xs_pid (proc_step pc), xs_timestamp (proc_step pc)) = entry pc" for pc
    by (simp_all add: is_process_def proc_step_def entry_def)
  have "filter is_process (map proc_step pcs) = map proc_step pcs" for pcs by (simp add: p)
  then show ?thesis
    by (induction pcs) (simp_all add: chain_procs_def p plain_not_process comp_def)
qed

lemma evidence_chain:
  assumes "build_chain_from_ocsf_evidence rows a pivots = Some ss"
  shows "map xs_step_index ss = [0..<length ss]" "sorted (map snd (chain_procs ss))" "distinct (map fst (chain_procs ss))"
    "grounded pivots (target_events a rows) (chain_procs ss)"
proof -
  let ?es = "target_events a rows"
  obtain an w where w: "walk_evidence pivots ?es = (an, w)" by fastforce
  let ?l = "sort_key (\<lambda>pc. cp_timestamp (snd pc)) (wk_procs w)"
  let ?ip = "if an_ip an = [] then hd pivots else an_ip an"
  have ss: "ss = number_steps ((if ?ip = [] then [] else [plain_step ''ip'' ?ip]) @ steps_with_user (wk_user w) ?l)"
    using assms w by (simp add: build_chain_from_ocsf_evidence_def Let_def split: if_splits)
  have "chain_procs ss = chain_procs (steps_with_user (wk_user w) ?l)"
    by (simp add: ss chain_procs_number) (simp add: chain_procs_def plain_not_process)
  then have cp: "chain_procs ss = sort_key snd (map entry (wk_procs w))" by (simp add: chain_procs_walk sort_entries)
  have ok: "walk_ok pivots ?es w" using walk_done [of pivots ?es] by (simp add: w)
  show "map xs_step_index ss = [0..<length ss]" by (simp only: ss number_index number_length)
  show "sorted (map snd (chain_procs ss))" by (simp add: cp)
  show "distinct (map fst (chain_procs ss))"
  proof -
    have "distinct (map fst (map entry (wk_procs w)))" using ok by (simp add: walk_ok_def d_wf_def entry_def comp_def)
    then show ?thesis unfolding cp by (simp only: distinct_map set_sort distinct_sort)
  qed
  show "grounded pivots ?es (chain_procs ss)" unfolding cp using ok by (intro grounded_sort) (simp add: walk_ok_def)
qed

text \<open>C7. In a chain from evidence the steps are numbered, the processes come oldest first, each pid once, and every process either
  talked to one of the addresses or was started by a process that comes before it and is not younger; all according to events
  of the agent asked about.\<close>

theorem evidence_chain_causal:
  assumes "build_chain_from_ocsf_evidence rows a pivots = Some ss"
  shows "map xs_step_index ss = [0..<length ss] \<and> sorted (map snd (chain_procs ss)) \<and> distinct (map fst (chain_procs ss))
    \<and> grounded pivots (target_events a rows) (chain_procs ss)"
  using evidence_chain [OF assms] by blast

definition proc_info :: "int \<Rightarrow> string \<Rightarrow> int option \<Rightarrow> process_info" where
  "proc_info p n pp = \<lparr>pi_pid = p, pi_name = n, pi_cmd_line = n, pi_exe_path = [], pi_parent_pid = pp, pi_created_time = None\<rparr>"

definition inbound :: "string \<Rightarrow> datetime \<Rightarrow> ocsf_event" where
  "inbound ip t = NetworkActivity \<lparr>na_activity_id = 1, na_severity_id = 1, na_time = t,
     na_src_endpoint = Some \<lparr>ne_ip = ip, ne_port = 5022, ne_hostname = []\<rparr>, na_dst_endpoint = None,
     na_process = Some (proc_info 100 ''sshd'' (Some 1)), na_device = ''h'',
     na_metadata = \<lparr>md_original_time = None, md_log_source = ''audit''\<rparr>\<rparr>"

definition started :: "int \<Rightarrow> string \<Rightarrow> int \<Rightarrow> datetime \<Rightarrow> ocsf_event" where
  "started p n pp t = ProcessActivity \<lparr>pa_activity_id = 1, pa_severity_id = 1, pa_time = t, pa_actor = Some \<lparr>ui_name = ''bob'', ui_uid = []\<rparr>,
     pa_process = proc_info p n (Some pp), pa_device = ''h'', pa_metadata = \<lparr>md_original_time = None, md_log_source = ''audit''\<rparr>\<rparr>"

definition evidence_row :: "int \<Rightarrow> datetime \<Rightarrow> string \<Rightarrow> ocsf_event \<Rightarrow> ocsf_evidence" where
  "evidence_row i t ty e = \<lparr>oe_id = i, oe_incident = ''inc'', oe_agent = ''a'', oe_record = \<lparr>lg_id = i, lg_timestamp = t, lg_event_type = ty,
     lg_process_name = None, lg_pid = None, lg_username = None, lg_cmd_line = None, lg_remote_ip = None, lg_remote_port = None,
     lg_ocsf = Some e\<rparr>, oe_ingested_at = 9\<rparr>"

definition ssh_rows :: "ocsf_evidence list" where
  "ssh_rows = [evidence_row 3 7 ''ProcessActivity'' (started 101 ''bash'' 100 7),
     evidence_row 2 5 ''NetworkActivity'' (inbound ''10.0.0.9'' 5), evidence_row 1 4 ''ProcessActivity'' (started 102 ''cron'' 100 4)]"

lemma ssh_chain: "map_option (\<lambda>ss. map xs_entity_name ss) (build_chain_from_ocsf_evidence ssh_rows ''a'' [''10.0.0.9''])
    = Some [''10.0.0.9'', ''sshd'', ''bash'', ''bob'']"
  by code_simp

theorem evidence_chain_causal_witness:
  "\<exists>ss. build_chain_from_ocsf_evidence ssh_rows ''a'' [''10.0.0.9''] = Some ss
     \<and> grounded [''10.0.0.9''] (target_events ''a'' ssh_rows) (chain_procs ss)"
proof -
  obtain ss where ss: "build_chain_from_ocsf_evidence ssh_rows ''a'' [''10.0.0.9''] = Some ss" using ssh_chain by auto
  with evidence_chain_causal [OF ss] show ?thesis by blast
qed

end
