(* ===== verification/FleetGraph.thy ===== *)
theory FleetGraph
  imports FleetChains GraphStore
begin

text \<open>
  The central graph of the fleet server (\<open>server/neo4j_client.py\<close>): hosts, their findings with the chains of
  steps, incidents, users and registration keys.  A label is a dictionary of nodes by their unique property, a relation a
  list of pairs, each Cypher query a function; \<open>now\<close> is the clock in seconds.  A property that is
  not set is \<open>None\<close>.  Rows for which a query states no order come in the order of the tables.
\<close>

section \<open>Nodes and relations\<close>

record host_node =
  ho_hostname :: "string option"
  ho_platform :: "string option"
  ho_os_version :: "string option"
  ho_agent_version :: "string option"
  ho_ip_address :: "string option"
  ho_ip_addresses :: "string list option"
  ho_public_ip :: "string option"
  ho_grpc_peer_ip :: "string option"
  ho_registered_at :: "int option"
  ho_last_seen :: "int option"
  ho_clock_offset_ms :: "int option"
  ho_ioc_stats :: "string option"

definition new_host :: host_node where
  "new_host = \<lparr>ho_hostname = None, ho_platform = None, ho_os_version = None, ho_agent_version = None, ho_ip_address = None,
     ho_ip_addresses = None, ho_public_ip = None, ho_grpc_peer_ip = None, ho_registered_at = None, ho_last_seen = None,
     ho_clock_offset_ms = None, ho_ioc_stats = None\<rparr>"

text \<open>A finding as it travels (\<open>proto/fleet.proto\<close>).\<close>

record wire_step =
  ws_entity_type :: string
  ws_entity_id :: string
  ws_entity_name :: string
  ws_pid :: int
  ws_timestamp :: int

record wire_finding =
  wf_id :: string
  wf_timestamp :: int
  wf_severity :: string
  wf_title :: string
  wf_description :: string
  wf_affected_entities :: "string list"
  wf_evidence_event_ids :: "int list"
  wf_recommendation :: string
  wf_chain :: "wire_step list"
  wf_affected_pids :: "int list"
  wf_iocs :: "(string, string list) dict"

record finding_node =
  fi_timestamp :: int
  fi_severity :: string
  fi_title :: string
  fi_description :: string
  fi_recommendation :: string
  fi_affected_entities :: "string list"
  fi_affected_pids :: "int list"
  fi_iocs :: "(string, string list) dict"

record chain_node =
  cn_owner :: string
  cn_step_index :: nat
  cn_entity_type :: string
  cn_entity_id :: string
  cn_entity_name :: string
  cn_pid :: int
  cn_timestamp :: int
  cn_host_agent_id :: string
  cn_cmd_line :: "string option"
  cn_container_id :: "string option"

record incident =
  in_type :: string
  in_status :: string
  in_src_agent :: string
  in_dst_agent :: string
  in_pivot_ip :: string
  in_dst_port :: "int option"
  in_created_at :: int
  in_updated_at :: int
  in_diamond :: "(string \<times> int) option"

record dashboard_user =
  db_password_hash :: string
  db_role :: string
  db_created_at :: int

record fleet_graph =
  fg_hosts :: "(string, host_node) dict"
  fg_findings :: "(string, finding_node) dict"
  fg_chain_nodes :: "(string, chain_node) dict"
  fg_incidents :: "(string, incident) dict"
  fg_ips :: "string list"
  fg_domains :: "string list"
  fg_processes :: "(string \<times> string) list"
  fg_generated :: "(string \<times> string) list"
  fg_involves_ip :: "(string \<times> string) list"
  fg_involves_domain :: "(string \<times> string) list"
  fg_has_chain :: "(string \<times> nat \<times> string) list"
  fg_next :: "(string \<times> string) list"
  fg_source_finding :: "(string \<times> string) list"
  fg_follow_on :: "(string \<times> string) list"
  fg_involves_host :: "(string \<times> string) list"
  fg_pivot_via :: "(string \<times> string) list"
  fg_source_chain :: "(string \<times> nat \<times> string) list"
  fg_target_chain :: "(string \<times> nat \<times> string) list"
  fg_connected :: "((string \<times> string) \<times> string \<times> datetime) list"
  fg_source_of :: "(string \<times> (string \<times> string) \<times> datetime) list"
  fg_resolved :: "(string \<times> string \<times> datetime) list"
  fg_runs :: "(string \<times> (string \<times> string)) list"
  fg_keys :: "registration_key list"
  fg_registered_with :: "(string \<times> string) list"
  fg_dashboard_users :: "(string, dashboard_user) dict"

definition empty_fleet :: fleet_graph where
  "empty_fleet = \<lparr>fg_hosts = [], fg_findings = [], fg_chain_nodes = [], fg_incidents = [], fg_ips = [], fg_domains = [], fg_processes = [],
     fg_generated = [], fg_involves_ip = [], fg_involves_domain = [], fg_has_chain = [], fg_next = [], fg_source_finding = [],
     fg_follow_on = [], fg_involves_host = [], fg_pivot_via = [], fg_source_chain = [], fg_target_chain = [], fg_connected = [],
     fg_source_of = [], fg_resolved = [], fg_runs = [], fg_keys = [], fg_registered_with = [], fg_dashboard_users = []\<rparr>"

text \<open>\<open>MERGE\<close> of a node without properties, or of a relation.\<close>

definition add_once :: "'a \<Rightarrow> 'a list \<Rightarrow> 'a list" where
  "add_once x xs = (if x \<in> set xs then xs else xs @ [x])"

definition related :: "('a \<times> 'b) list \<Rightarrow> 'a \<Rightarrow> 'b list" where
  "related r a = map snd (filter (\<lambda>x. fst x = a) r)"

section \<open>Agents\<close>

record agent_info =
  ai_agent_id :: string
  ai_hostname :: string
  ai_platform :: string
  ai_os_version :: string
  ai_agent_version :: string
  ai_ip_address :: string
  ai_registered_at :: int
  ai_ip_addresses :: "string list"
  ai_public_ip :: string

definition find_node_key :: "string \<Rightarrow> fleet_graph \<Rightarrow> registration_key option" where
  "find_node_key k g = find (\<lambda>r. kk_key r = k) (fg_keys g)"

text \<open>The address of the caller is \<open>peer\<close>; \<open>RegisterAgent\<close> puts it where the agent sent none.\<close>

definition register_agent :: "agent_info \<Rightarrow> string \<Rightarrow> string \<Rightarrow> fleet_graph \<Rightarrow> fleet_graph" where
  "register_agent a peer k g = (let i = ai_agent_id a; g = g\<lparr>fg_hosts := d_alter i new_host (\<lambda>h. h\<lparr>
       ho_hostname := Some (ai_hostname a), ho_platform := Some (ai_platform a), ho_os_version := Some (ai_os_version a),
       ho_agent_version := Some (ai_agent_version a), ho_ip_address := Some (if ai_ip_address a = [] then peer else ai_ip_address a),
       ho_ip_addresses := Some (ai_ip_addresses a), ho_public_ip := Some (ai_public_ip a), ho_grpc_peer_ip := Some peer,
       ho_registered_at := Some (ai_registered_at a), ho_last_seen := Some (ai_registered_at a)\<rparr>) (fg_hosts g)\<rparr>
     in if k \<noteq> [] \<and> find_node_key k g \<noteq> None then g\<lparr>fg_registered_with := add_once (i, k) (fg_registered_with g)\<rparr> else g)"

definition keep_unless :: "'a option \<Rightarrow> 'a option \<Rightarrow> 'a option" where
  "keep_unless new old = (case new of None \<Rightarrow> old | Some x \<Rightarrow> Some x)"

definition update_heartbeat :: "string \<Rightarrow> int \<Rightarrow> int \<Rightarrow> string list option \<Rightarrow> string option \<Rightarrow> string option \<Rightarrow> fleet_graph \<Rightarrow> fleet_graph" where
  "update_heartbeat a ts offset addrs public stats g = (case d_get (fg_hosts g) a of
     None \<Rightarrow> g
   | Some h \<Rightarrow> g\<lparr>fg_hosts := d_set a (h\<lparr>ho_last_seen := Some ts, ho_clock_offset_ms := Some offset,
       ho_ip_addresses := keep_unless addrs (ho_ip_addresses h), ho_public_ip := keep_unless public (ho_public_ip h),
       ho_ioc_stats := keep_unless stats (ho_ioc_stats h)\<rparr>) (fg_hosts g)\<rparr>)"

section \<open>Findings\<close>

definition finding_of :: "wire_finding \<Rightarrow> finding_node" where
  "finding_of f = \<lparr>fi_timestamp = wf_timestamp f, fi_severity = wf_severity f, fi_title = wf_title f, fi_description = wf_description f,
     fi_recommendation = wf_recommendation f, fi_affected_entities = wf_affected_entities f, fi_affected_pids = wf_affected_pids f,
     fi_iocs = wf_iocs f\<rparr>"

definition has_finding :: "string \<Rightarrow> fleet_graph \<Rightarrow> bool" where
  "has_finding f g \<longleftrightarrow> d_get (fg_findings g) f \<noteq> None"

text \<open>Without the host the query matches nothing.\<close>

definition merge_finding_node :: "string \<Rightarrow> wire_finding \<Rightarrow> fleet_graph \<Rightarrow> fleet_graph" where
  "merge_finding_node a f g = (if d_get (fg_hosts g) a = None then g
     else g\<lparr>fg_findings := d_set (wf_id f) (finding_of f) (fg_findings g), fg_generated := add_once (a, wf_id f) (fg_generated g)\<rparr>)"

definition merge_ioc_ip :: "string \<Rightarrow> string \<Rightarrow> fleet_graph \<Rightarrow> fleet_graph" where
  "merge_ioc_ip f ip g = (let g = g\<lparr>fg_ips := add_once ip (fg_ips g)\<rparr>
     in if has_finding f g then g\<lparr>fg_involves_ip := add_once (f, ip) (fg_involves_ip g)\<rparr> else g)"

definition merge_ioc_domain :: "string \<Rightarrow> string \<Rightarrow> fleet_graph \<Rightarrow> fleet_graph" where
  "merge_ioc_domain f d g = (let g = g\<lparr>fg_domains := add_once d (fg_domains g)\<rparr>
     in if has_finding f g then g\<lparr>fg_involves_domain := add_once (f, d) (fg_involves_domain g)\<rparr> else g)"

definition chain_node_id :: "string \<Rightarrow> nat \<Rightarrow> string" where
  "chain_node_id f i = f @ '':'' @ int_str (int i)"

definition finding_chain_node :: "string \<Rightarrow> string \<Rightarrow> nat \<Rightarrow> wire_step \<Rightarrow> chain_node" where
  "finding_chain_node a f i s = \<lparr>cn_owner = f, cn_step_index = i, cn_entity_type = ws_entity_type s, cn_entity_id = ws_entity_id s,
     cn_entity_name = ws_entity_name s, cn_pid = ws_pid s, cn_timestamp = ws_timestamp s * 1000000, cn_host_agent_id = a,
     cn_cmd_line = Some [], cn_container_id = Some []\<rparr>"

definition ingest_step :: "string \<Rightarrow> string \<Rightarrow> nat \<times> wire_step \<Rightarrow> fleet_graph \<Rightarrow> fleet_graph" where
  "ingest_step a f p g = (let (i, s) = p; n = chain_node_id f i;
     g = g\<lparr>fg_chain_nodes := d_set n (finding_chain_node a f i s) (fg_chain_nodes g)\<rparr>;
     g = (if has_finding f g then g\<lparr>fg_has_chain := add_once (f, i, n) (fg_has_chain g)\<rparr> else g)
     in if i = 0 then g else g\<lparr>fg_next := add_once (chain_node_id f (i - 1), n) (fg_next g)\<rparr>)"

definition ingest_finding_chain :: "string \<Rightarrow> string \<Rightarrow> wire_step list \<Rightarrow> fleet_graph \<Rightarrow> fleet_graph" where
  "ingest_finding_chain a f ch g = fold (ingest_step a f) (enumerate 0 ch) g"

definition ingest_finding :: "string \<Rightarrow> wire_finding \<Rightarrow> fleet_graph \<Rightarrow> fleet_graph" where
  "ingest_finding a f g = ingest_finding_chain a (wf_id f) (wf_chain f)
     (fold (merge_ioc_domain (wf_id f)) (d_get_or (wf_iocs f) ''domains'' [])
       (fold (merge_ioc_ip (wf_id f)) (d_get_or (wf_iocs f) ''ips'' []) (merge_finding_node a f g)))"

section \<open>Events\<close>

text \<open>The JSON of an event holds \<open>null\<close> for a field without a value; the code then takes an attribute of
  \<open>None\<close> and the event is lost (result \<open>None\<close>).\<close>

definition ingest_network :: "string \<Rightarrow> network_activity \<Rightarrow> fleet_graph \<Rightarrow> fleet_graph option" where
  "ingest_network a ev g = (case (na_dst_endpoint ev, na_src_endpoint ev, na_process ev) of
     (Some dst, Some src, Some p) \<Rightarrow>
       if ne_ip dst = [] then Some g
       else let pr = (pi_name p, a);
            g = g\<lparr>fg_hosts := d_alter a new_host id (fg_hosts g), fg_processes := add_once pr (fg_processes g),
              fg_ips := add_once (ne_ip dst) (fg_ips g), fg_connected := add_once (pr, ne_ip dst, na_time ev) (fg_connected g),
              fg_runs := add_once (a, pr) (fg_runs g)\<rparr>
         in Some (if ne_ip src = [] then g
            else g\<lparr>fg_ips := add_once (ne_ip src) (fg_ips g), fg_source_of := add_once (ne_ip src, pr, na_time ev) (fg_source_of g)\<rparr>)
   | _ \<Rightarrow> None)"

definition ingest_ocsf_event :: "string \<Rightarrow> ocsf_event \<Rightarrow> fleet_graph \<Rightarrow> fleet_graph option" where
  "ingest_ocsf_event a ev g = (case ev of
     NetworkActivity n \<Rightarrow> ingest_network a n g
   | DnsActivity d \<Rightarrow> Some (if da_query_domain d = [] then g
       else g\<lparr>fg_hosts := d_alter a new_host id (fg_hosts g), fg_domains := add_once (da_query_domain d) (fg_domains g),
         fg_resolved := add_once (a, da_query_domain d, da_time d) (fg_resolved g)\<rparr>)
   | _ \<Rightarrow> Some g)"

section \<open>What a finding points to\<close>

definition chain_of :: "string \<Rightarrow> fleet_graph \<Rightarrow> chain_node list" where
  "chain_of f g = List.map_filter (\<lambda>(_, n). d_get (fg_chain_nodes g) n) (related (fg_has_chain g) f)"

definition candidate_ips :: "string \<Rightarrow> fleet_graph \<Rightarrow> string list" where
  "candidate_ips f g = dedup (map cn_entity_id (filter (\<lambda>c. cn_entity_type c = ''ip'') (chain_of f g)))
     @ dedup (related (fg_involves_ip g) f)"

text \<open>Other agents with one of the addresses, as (agent, host name, address).\<close>

definition check_finding_for_lateral_movement :: "string \<Rightarrow> string \<Rightarrow> fleet_graph \<Rightarrow> (string \<times> string option \<times> string) list" where
  "check_finding_for_lateral_movement a f g =
     (if d_get (fg_hosts g) a = None \<or> (a, f) \<notin> set (fg_generated g) then []
      else dedup (concat (map (\<lambda>ip. List.map_filter (\<lambda>(b, h).
        if b \<noteq> a \<and> ip \<in> set (none_or [] (ho_ip_addresses h)) then Some (b, ho_hostname h, ip) else None) (fg_hosts g)) (candidate_ips f g))))"

definition ESCALATED :: "chain_node \<Rightarrow> bool" where
  "ESCALATED c \<longleftrightarrow> cn_entity_name c = ''root'' \<or> cn_entity_id c = ''0''"

definition check_finding_for_vertical_movement :: "string \<Rightarrow> string \<Rightarrow> fleet_graph \<Rightarrow> (string \<times> string) list" where
  "check_finding_for_vertical_movement a f g =
     (if d_get (fg_hosts g) a = None \<or> (a, f) \<notin> set (fg_generated g) then []
      else concat (map (\<lambda>c1. List.map_filter (\<lambda>c2.
        if cn_entity_type c2 = ''user'' \<and> cn_step_index c1 < cn_step_index c2 \<and> cn_entity_id c2 \<noteq> cn_entity_id c1 \<and> ESCALATED c2
        then Some (cn_entity_name c1, cn_entity_name c2) else None) (chain_of f g))
        (filter (\<lambda>c. cn_entity_type c = ''user'') (chain_of f g))))"

definition extract_finding_port :: "(string \<Rightarrow> int option) \<Rightarrow> string \<Rightarrow> fleet_graph \<Rightarrow> int option" where
  "extract_finding_port parse_int f g = (case d_get (fg_findings g) f of
     None \<Rightarrow> None
   | Some n \<Rightarrow> (case d_get_or (fi_iocs n) ''ports'' [] of [] \<Rightarrow> None | p # _ \<Rightarrow> parse_int p))"

section \<open>Incidents\<close>

definition update_incident :: "string \<Rightarrow> (incident \<Rightarrow> incident) \<Rightarrow> fleet_graph \<Rightarrow> fleet_graph" where
  "update_incident i f g = (case d_get (fg_incidents g) i of
     None \<Rightarrow> g | Some n \<Rightarrow> g\<lparr>fg_incidents := d_set i (f n) (fg_incidents g)\<rparr>)"

definition update_incident_status :: "int \<Rightarrow> string \<Rightarrow> string \<Rightarrow> fleet_graph \<Rightarrow> fleet_graph" where
  "update_incident_status now i st = update_incident i (\<lambda>n. n\<lparr>in_status := st, in_updated_at := now\<rparr>)"

definition MEDIUM_UP :: "string list" where
  "MEDIUM_UP = [''medium'', ''high'', ''critical'']"

definition follow_on_incidents :: "string \<Rightarrow> fleet_graph \<Rightarrow> string list" where
  "follow_on_incidents a g = map fst (filter (\<lambda>(_, n). in_dst_agent n = a \<and> in_status n = ''active'') (fg_incidents g))"

definition check_finding_for_follow_on :: "int \<Rightarrow> string \<Rightarrow> string \<Rightarrow> fleet_graph \<Rightarrow> string list \<times> fleet_graph" where
  "check_finding_for_follow_on now a f g = (case d_get (fg_findings g) f of
     None \<Rightarrow> ([], g)
   | Some n \<Rightarrow> if fi_severity n \<notin> set MEDIUM_UP then ([], g)
       else let ids = follow_on_incidents a g
         in (ids, fold (\<lambda>i g. update_incident i (\<lambda>n. n\<lparr>in_updated_at := now\<rparr>) (g\<lparr>fg_follow_on := add_once (i, f) (fg_follow_on g)\<rparr>)) ids g))"

definition OPEN_STATUSES :: "string list" where
  "OPEN_STATUSES = [''detected'', ''sweeping'', ''active'']"

definition campaign_match :: "int \<Rightarrow> string list \<Rightarrow> string list \<Rightarrow> incident \<Rightarrow> bool" where
  "campaign_match cutoff as addrs n \<longleftrightarrow> in_status n \<in> set OPEN_STATUSES \<and> cutoff < in_created_at n
     \<and> (in_src_agent n \<in> set as \<or> in_dst_agent n \<in> set as \<or> in_pivot_ip n \<in> set addrs)"

definition find_active_campaign :: "int \<Rightarrow> string list \<Rightarrow> string list \<Rightarrow> int \<Rightarrow> fleet_graph \<Rightarrow> string option" where
  "find_active_campaign now as addrs window g =
     (case sort_key (\<lambda>(_, n). - in_created_at n) (filter (\<lambda>(_, n). campaign_match (now - window * 3600) as addrs n) (fg_incidents g)) of
       [] \<Rightarrow> None | (i, _) # _ \<Rightarrow> Some i)"

definition link_host :: "string \<Rightarrow> string \<Rightarrow> fleet_graph \<Rightarrow> fleet_graph" where
  "link_host i a g = (if d_get (fg_hosts g) a = None \<or> d_get (fg_incidents g) i = None then g
     else g\<lparr>fg_involves_host := add_once (i, a) (fg_involves_host g)\<rparr>)"

definition link_pivot :: "string \<Rightarrow> string \<Rightarrow> fleet_graph \<Rightarrow> fleet_graph" where
  "link_pivot i ip g = (if d_get (fg_incidents g) i = None then g
     else g\<lparr>fg_ips := add_once ip (fg_ips g), fg_pivot_via := add_once (i, ip) (fg_pivot_via g)\<rparr>)"

definition link_finding :: "string \<Rightarrow> string \<Rightarrow> fleet_graph \<Rightarrow> fleet_graph" where
  "link_finding i f g = (if d_get (fg_incidents g) i = None \<or> \<not> has_finding f g then g
     else g\<lparr>fg_source_finding := add_once (i, f) (fg_source_finding g)\<rparr>)"

definition upgrade_campaign :: "string \<Rightarrow> fleet_graph \<Rightarrow> fleet_graph" where
  "upgrade_campaign i g = (if length (dedup (related (fg_involves_host g) i)) > 2
     then update_incident i (\<lambda>n. n\<lparr>in_type := ''campaign''\<rparr>) g else g)"

definition append_finding_to_incident :: "int \<Rightarrow> string \<Rightarrow> string \<Rightarrow> string \<Rightarrow> string \<Rightarrow> string \<Rightarrow> fleet_graph \<Rightarrow> fleet_graph" where
  "append_finding_to_incident now i f src dst pivot g =
     (let g = (if has_finding f g then update_incident i (\<lambda>n. n\<lparr>in_updated_at := now\<rparr>) (link_finding i f g) else g);
          g = link_host i src g;
          g = (if dst \<noteq> [] \<and> dst \<noteq> src then link_host i dst g else g);
          g = (if pivot \<noteq> [] then link_pivot i pivot g else g)
      in upgrade_campaign i g)"

definition has_incident_for_finding :: "string \<Rightarrow> string \<Rightarrow> fleet_graph \<Rightarrow> bool" where
  "has_incident_for_finding f pivot g \<longleftrightarrow> list_ex (\<lambda>(i, n). in_pivot_ip n = pivot \<and> (i, f) \<in> set (fg_source_finding g)) (fg_incidents g)"

text \<open>Without the finding the query stops after the node.\<close>

definition create_incident :: "int \<Rightarrow> string \<Rightarrow> string \<Rightarrow> string \<Rightarrow> string \<Rightarrow> string \<Rightarrow> int option \<Rightarrow> fleet_graph \<Rightarrow> fleet_graph" where
  "create_incident now i f src dst pivot port g =
     (let n = \<lparr>in_type = ''lateral_movement'', in_status = ''detected'', in_src_agent = src, in_dst_agent = dst, in_pivot_ip = pivot,
            in_dst_port = port, in_created_at = now, in_updated_at = now, in_diamond = None\<rparr>;
          g = g\<lparr>fg_incidents := d_alter i n (\<lambda>old. n\<lparr>in_diamond := in_diamond old\<rparr>) (fg_incidents g)\<rparr>
      in if has_finding f g then link_pivot i pivot (link_host i dst (link_host i src (link_finding i f g))) else g)"

definition get_incidents_by_status :: "string \<Rightarrow> fleet_graph \<Rightarrow> (string \<times> incident \<times> string option) list" where
  "get_incidents_by_status st g = sort_key (\<lambda>(_, n, _). in_created_at n) (concat (map (\<lambda>(i, n).
     let fs = related (fg_source_finding g) i in map (\<lambda>f. (i, n, f)) (if fs = [] then [None] else map Some fs))
     (filter (\<lambda>(_, n). in_status n = st) (fg_incidents g))))"

definition get_incident_src_ips :: "string \<Rightarrow> fleet_graph \<Rightarrow> string list" where
  "get_incident_src_ips i g = (case d_get (fg_incidents g) i of
     None \<Rightarrow> []
   | Some n \<Rightarrow> (case d_get (fg_hosts g) (in_src_agent n) of None \<Rightarrow> [] | Some h \<Rightarrow> none_or [] (ho_ip_addresses h)))"

definition store_incident_diamond_assessment :: "int \<Rightarrow> string \<Rightarrow> string \<Rightarrow> fleet_graph \<Rightarrow> fleet_graph" where
  "store_incident_diamond_assessment now i js = update_incident i (\<lambda>n. n\<lparr>in_diamond := Some (js, now)\<rparr>)"

definition get_incident_involved_agents :: "string \<Rightarrow> fleet_graph \<Rightarrow> string list" where
  "get_incident_involved_agents i g = related (fg_involves_host g) i"

section \<open>Chains of an incident\<close>

definition incident_chain_node :: "string \<Rightarrow> xdr_step \<Rightarrow> chain_node" where
  "incident_chain_node i s = \<lparr>cn_owner = i, cn_step_index = xs_step_index s, cn_entity_type = xs_entity_type s,
     cn_entity_id = xs_entity_id s, cn_entity_name = xs_entity_name s, cn_pid = xs_pid s, cn_timestamp = xs_timestamp s,
     cn_host_agent_id = [], cn_cmd_line = None, cn_container_id = None\<rparr>"

definition persist_node :: "string \<Rightarrow> string \<Rightarrow> xdr_step \<Rightarrow> fleet_graph \<Rightarrow> fleet_graph" where
  "persist_node i n s g = g\<lparr>fg_chain_nodes := d_alter n (incident_chain_node i s)
     (\<lambda>old. (incident_chain_node i s)\<lparr>cn_cmd_line := cn_cmd_line old, cn_container_id := cn_container_id old\<rparr>) (fg_chain_nodes g)\<rparr>"

definition persist_source_step :: "string \<Rightarrow> xdr_step \<Rightarrow> fleet_graph \<Rightarrow> fleet_graph" where
  "persist_source_step i s g = (let n = i @ '':has_source_chain:'' @ int_str (int (xs_step_index s)); g = persist_node i n s g
     in if d_get (fg_incidents g) i = None then g else g\<lparr>fg_source_chain := add_once (i, xs_step_index s, n) (fg_source_chain g)\<rparr>)"

definition persist_target_step :: "string \<Rightarrow> xdr_step \<Rightarrow> fleet_graph \<Rightarrow> fleet_graph" where
  "persist_target_step i s g = (let n = i @ '':has_target_chain:'' @ int_str (int (xs_step_index s)); g = persist_node i n s g
     in if d_get (fg_incidents g) i = None then g else g\<lparr>fg_target_chain := add_once (i, xs_step_index s, n) (fg_target_chain g)\<rparr>)"

definition persist_incident_chains :: "string \<Rightarrow> xdr_step list \<Rightarrow> xdr_step list \<Rightarrow> fleet_graph \<Rightarrow> fleet_graph" where
  "persist_incident_chains i src dst g = fold (persist_target_step i) dst (fold (persist_source_step i) src g)"

definition incident_chain :: "(string \<times> nat \<times> string) list \<Rightarrow> string \<Rightarrow> fleet_graph \<Rightarrow> chain_node list" where
  "incident_chain r i g = List.map_filter (\<lambda>(_, n). d_get (fg_chain_nodes g) n) (related r i)"

definition chain_users :: "chain_node list \<Rightarrow> string list" where
  "chain_users ch = dedup (map cn_entity_name (filter (\<lambda>c. cn_entity_type c = ''user'') ch))"

definition chain_pids :: "chain_node list \<Rightarrow> int list" where
  "chain_pids ch = dedup (map cn_pid (filter (\<lambda>c. cn_entity_type c = ''process'' \<and> 0 < cn_pid c) ch))"

definition get_incident_chain_usernames :: "string \<Rightarrow> fleet_graph \<Rightarrow> string list \<times> string list" where
  "get_incident_chain_usernames i g = (if d_get (fg_incidents g) i = None then ([], [])
     else (chain_users (incident_chain (fg_source_chain g) i g), chain_users (incident_chain (fg_target_chain g) i g)))"

definition get_incident_chain_pids :: "string \<Rightarrow> fleet_graph \<Rightarrow> int list \<times> int list" where
  "get_incident_chain_pids i g = (if d_get (fg_incidents g) i = None then ([], [])
     else (chain_pids (incident_chain (fg_source_chain g) i g), chain_pids (incident_chain (fg_target_chain g) i g)))"

text \<open>\<open>None\<close> for \<open>{}\<close>.\<close>

definition get_surveillance_targets :: "string \<Rightarrow> fleet_graph \<Rightarrow> (string list \<times> string list) option" where
  "get_surveillance_targets a g =
     (let incs = filter (\<lambda>(_, n). in_status n = ''active'' \<and> (in_src_agent n = a \<or> in_dst_agent n = a)) (fg_incidents g);
          pivots = dedup (map (\<lambda>(_, n). in_pivot_ip n) incs);
          us = dedup (concat (map (\<lambda>(i, _). chain_users (incident_chain (fg_source_chain g) i g)) incs)
            @ concat (map (\<lambda>(i, _). chain_users (incident_chain (fg_target_chain g) i g)) incs))
      in if pivots = [] \<and> us = [] then None else Some (pivots, us))"

section \<open>Users and keys in the graph\<close>

definition create_dashboard_user :: "int \<Rightarrow> string \<Rightarrow> string \<Rightarrow> string \<Rightarrow> fleet_graph \<Rightarrow> fleet_graph" where
  "create_dashboard_user now n h role g = g\<lparr>fg_dashboard_users := d_set n \<lparr>db_password_hash = h, db_role = role, db_created_at = now\<rparr>
     (fg_dashboard_users g)\<rparr>"

definition verify_dashboard_user :: "string \<Rightarrow> fleet_graph \<Rightarrow> (string \<times> string \<times> string) option" where
  "verify_dashboard_user n g = map_option (\<lambda>u. (n, db_password_hash u, db_role u)) (d_get (fg_dashboard_users g) n)"

definition count_dashboard_users :: "fleet_graph \<Rightarrow> nat" where
  "count_dashboard_users g = length (fg_dashboard_users g)"

text \<open>The constraint makes a second node with the same key fail.\<close>

definition create_key_node :: "int \<Rightarrow> string \<Rightarrow> string \<Rightarrow> string \<Rightarrow> int option \<Rightarrow> int option \<Rightarrow> fleet_graph
    \<Rightarrow> (db_error + registration_key) \<times> fleet_graph" where
  "create_key_node now k label by expires uses g =
     (if find_node_key k g \<noteq> None then (Inl Duplicate, g)
      else let r = \<lparr>kk_key = k, kk_label = label, kk_created_at = now, kk_created_by = by, kk_expires_at = expires,
          kk_max_uses = uses, kk_use_count = 0, kk_revoked = False, kk_revoked_at = None, kk_revoked_by = None\<rparr>
        in (Inr r, g\<lparr>fg_keys := fg_keys g @ [r]\<rparr>))"

definition list_key_nodes :: "int \<Rightarrow> fleet_graph \<Rightarrow> (registration_key \<times> nat \<times> string) list" where
  "list_key_nodes now g = map (\<lambda>r. (r, length (filter (\<lambda>(_, k). k = kk_key r) (fg_registered_with g)), key_status now r))
     (sort_key (\<lambda>r. - kk_created_at r) (fg_keys g))"

definition update_key_node :: "string \<Rightarrow> (registration_key \<Rightarrow> registration_key) \<Rightarrow> fleet_graph \<Rightarrow> fleet_graph" where
  "update_key_node k f g = g\<lparr>fg_keys := map (\<lambda>r. if kk_key r = k then f r else r) (fg_keys g)\<rparr>"

definition revoke_key_node :: "int \<Rightarrow> string \<Rightarrow> string \<Rightarrow> fleet_graph \<Rightarrow> bool \<times> fleet_graph" where
  "revoke_key_node now k by g = (find_node_key k g \<noteq> None,
     update_key_node k (\<lambda>r. r\<lparr>kk_revoked := True, kk_revoked_at := Some now, kk_revoked_by := Some by\<rparr>) g)"

definition delete_key_node :: "string \<Rightarrow> fleet_graph \<Rightarrow> bool \<times> fleet_graph" where
  "delete_key_node k g = (find_node_key k g \<noteq> None, g\<lparr>fg_keys := filter (\<lambda>r. kk_key r \<noteq> k) (fg_keys g),
     fg_registered_with := filter (\<lambda>(_, j). j \<noteq> k) (fg_registered_with g)\<rparr>)"

definition validate_key_node :: "int \<Rightarrow> string \<Rightarrow> fleet_graph \<Rightarrow> (bool \<times> string) \<times> fleet_graph" where
  "validate_key_node now k g = (case find_node_key k g of
     None \<Rightarrow> ((False, ''invalid_key''), g)
   | Some r \<Rightarrow>
       if kk_revoked r then ((False, ''key_revoked''), g)
       else if expired now r then ((False, ''key_expired''), g)
       else if (case kk_max_uses r of None \<Rightarrow> False | Some m \<Rightarrow> m \<le> kk_use_count r) then ((False, ''max_uses_exceeded''), g)
       else ((True, ''ok''), update_key_node k count_use g))"

section \<open>Copying users and keys to the settings database\<close>

definition get_all_dashboard_users :: "fleet_graph \<Rightarrow> (string \<times> string \<times> string) list" where
  "get_all_dashboard_users g = map (\<lambda>(n, u). (n, db_password_hash u, db_role u)) (fg_dashboard_users g)"

definition get_all_registration_keys :: "fleet_graph \<Rightarrow> registration_key list" where
  "get_all_registration_keys g = fg_keys g"

definition insert_key_row :: "registration_key \<Rightarrow> settings_db \<Rightarrow> settings_db" where
  "insert_key_row r db = (if find_key (kk_key r) db \<noteq> None then db else db\<lparr>sd_keys := sd_keys db @ [r]\<rparr>)"

definition migrate_neo4j_to_sqlite :: "int \<Rightarrow> fleet_graph \<Rightarrow> settings_db \<Rightarrow> settings_db" where
  "migrate_neo4j_to_sqlite now g db = (if \<not> has_no_users db then db
     else fold insert_key_row (get_all_registration_keys g)
       (fold (\<lambda>(n, h, role) db. snd (create_user now n h role db)) (get_all_dashboard_users g) db))"

end
