(* ===== verification/FleetServer.thy ===== *)
theory FleetServer
  imports FleetGraph
begin

text \<open>
  The fleet server: the handlers of its gRPC service (\<open>server/grpc_service.py\<close>), the thread that moves incidents on
  (\<open>server/xdr_orchestrator.py\<close>) and what an operator does to an incident (\<open>server/dashboard.py\<close>).  Both
  databases answer.  The parameter \<open>uid\<close> gives the n-th \<open>uuid.uuid4()\<close>; the clock \<open>clk\<close>
  counts microseconds.
\<close>

record fleet_state =
  fl_graph :: fleet_graph
  fl_db :: settings_db
  fl_uuids :: nat

definition secs :: "datetime \<Rightarrow> int" where
  "secs clk = clk div 1000000"

definition on_graph :: "(fleet_graph \<Rightarrow> fleet_graph) \<Rightarrow> fleet_state \<Rightarrow> fleet_state" where
  "on_graph f s = s\<lparr>fl_graph := f (fl_graph s)\<rparr>"

definition on_db :: "(settings_db \<Rightarrow> settings_db) \<Rightarrow> fleet_state \<Rightarrow> fleet_state" where
  "on_db f s = s\<lparr>fl_db := f (fl_db s)\<rparr>"

section \<open>Registration\<close>

text \<open>\<open>ipv4:host:port\<close> or \<open>ipv6:[host]:port\<close>.\<close>

definition strip_brackets :: "string \<Rightarrow> string" where
  "strip_brackets s = (let b = (\<lambda>c. c \<in> set ''[]'') in rev (dropWhile b (rev (dropWhile b s))))"

definition extract_peer_ip :: "string \<Rightarrow> string" where
  "extract_peer_ip peer = (if peer = [] then []
     else let ps = split_on (CHR '':'') peer in
       if hd ps = ''ipv4'' \<and> 2 \<le> length ps then ps ! 1
       else if hd ps = ''ipv6'' \<and> 2 \<le> length ps then strip_brackets (join_with '':'' (tl (butlast ps)))
       else [])"

record register_response =
  rs_accepted :: bool
  rs_agent_id :: string
  rs_message :: string

definition is_reregistration :: "string \<Rightarrow> string \<Rightarrow> settings_db \<Rightarrow> bool" where
  "is_reregistration a k db \<longleftrightarrow> a \<noteq> [] \<and> get_agent_key a db = Some k"

definition admit :: "int \<Rightarrow> string \<Rightarrow> string \<Rightarrow> settings_db \<Rightarrow> (bool \<times> string) \<times> settings_db" where
  "admit now a k db = (if is_reregistration a k db then (check_key_status now k db, db) else validate_registration_key now k db)"

definition RegisterAgent :: "datetime \<Rightarrow> string \<Rightarrow> agent_info \<Rightarrow> string \<Rightarrow> fleet_state \<Rightarrow> register_response \<times> fleet_state" where
  "RegisterAgent clk peer info k s =
     (if k = [] then (\<lparr>rs_accepted = False, rs_agent_id = ai_agent_id info, rs_message = ''registration_key is required''\<rparr>, s)
      else let a = ai_agent_id info; ((ok, why), db) = admit (secs clk) a k (fl_db s); s = s\<lparr>fl_db := db\<rparr>
        in if \<not> ok then (\<lparr>rs_accepted = False, rs_agent_id = a, rs_message = why\<rparr>, s)
           else (\<lparr>rs_accepted = True, rs_agent_id = a, rs_message = ''registered''\<rparr>,
             on_db (set_agent_key a k) (on_graph (register_agent info (extract_peer_ip peer) k) s)))"

section \<open>Findings\<close>

definition new_incident :: "(nat \<Rightarrow> string) \<Rightarrow> datetime \<Rightarrow> string \<Rightarrow> string \<Rightarrow> string \<Rightarrow> string \<Rightarrow> int option \<Rightarrow> fleet_state \<Rightarrow> string \<times> fleet_state" where
  "new_incident uid clk f src dst pivot port s = (let i = uid (fl_uuids s)
     in (i, on_graph (create_incident (secs clk) i f src dst pivot port) (s\<lparr>fl_uuids := fl_uuids s + 1\<rparr>)))"

definition on_match :: "(string \<Rightarrow> int option) \<Rightarrow> (nat \<Rightarrow> string) \<Rightarrow> datetime \<Rightarrow> string \<Rightarrow> string \<Rightarrow> string \<times> string option \<times> string
    \<Rightarrow> fleet_state \<Rightarrow> fleet_state" where
  "on_match parse_int uid clk a f m s = (let (dst, _, pivot) = m in
     case find_active_campaign (secs clk) [a, dst] [pivot] 12 (fl_graph s) of
       Some i \<Rightarrow> on_graph (append_finding_to_incident (secs clk) i f a dst pivot) s
     | None \<Rightarrow> if has_incident_for_finding f pivot (fl_graph s) then s
         else snd (new_incident uid clk f a dst pivot (extract_finding_port parse_int f (fl_graph s)) s))"

definition mark_vertical :: "string \<Rightarrow> fleet_graph \<Rightarrow> fleet_graph" where
  "mark_vertical i = update_incident i (\<lambda>n. n\<lparr>in_type := ''vertical_movement''\<rparr>)"

definition on_escalation :: "(nat \<Rightarrow> string) \<Rightarrow> datetime \<Rightarrow> string \<Rightarrow> string \<Rightarrow> fleet_state \<Rightarrow> fleet_state" where
  "on_escalation uid clk a f s = (case find_active_campaign (secs clk) [a] [] 12 (fl_graph s) of
     Some i \<Rightarrow> on_graph (append_finding_to_incident (secs clk) i f a a []) s
   | None \<Rightarrow> (let (i, s) = new_incident uid clk f a a [] None s
       in on_graph (mark_vertical i) (on_graph (update_incident_status (secs clk) i ''detected'') s)))"

definition detect_movement :: "(string \<Rightarrow> int option) \<Rightarrow> (nat \<Rightarrow> string) \<Rightarrow> datetime \<Rightarrow> string \<Rightarrow> wire_finding \<Rightarrow> fleet_state \<Rightarrow> fleet_state" where
  "detect_movement parse_int uid clk a w s =
     (let f = wf_id w; s = on_graph (\<lambda>g. snd (check_finding_for_follow_on (secs clk) a f g)) s
      in if py_lower (wf_severity w) \<notin> set MEDIUM_UP then s
         else let ms = check_finding_for_lateral_movement a f (fl_graph s); s = fold (on_match parse_int uid clk a f) ms s
           in if ms = [] \<and> check_finding_for_vertical_movement a f (fl_graph s) \<noteq> [] then on_escalation uid clk a f s else s)"

text \<open>The number of findings accepted: those whose ingestion raises nothing, here all of them.\<close>

definition SendFindings :: "(string \<Rightarrow> int option) \<Rightarrow> (nat \<Rightarrow> string) \<Rightarrow> datetime \<Rightarrow> string \<Rightarrow> wire_finding list \<Rightarrow> fleet_state \<Rightarrow> nat \<times> fleet_state" where
  "SendFindings parse_int uid clk a fs s =
     (length fs, fold (detect_movement parse_int uid clk a) fs (fold (\<lambda>f. on_graph (ingest_finding a f)) fs s))"

fun ingest_events :: "string \<Rightarrow> ocsf_event list \<Rightarrow> fleet_graph \<Rightarrow> nat \<times> fleet_graph" where
  "ingest_events a [] g = (0, g)"
| "ingest_events a (e # es) g = (case ingest_ocsf_event a e g of
     None \<Rightarrow> ingest_events a es g | Some g' \<Rightarrow> (let (n, g'') = ingest_events a es g' in (n + 1, g'')))"

definition SendEvents :: "string \<Rightarrow> ocsf_event list \<Rightarrow> fleet_state \<Rightarrow> nat \<times> fleet_state" where
  "SendEvents a es s = (let (n, g) = ingest_events a es (fl_graph s) in (n, s\<lparr>fl_graph := g\<rparr>))"

section \<open>Heartbeats\<close>

text \<open>\<open>s.split(n)[0]\<close>.\<close>

fun before_text :: "string \<Rightarrow> string \<Rightarrow> string" where
  "before_text n [] = []"
| "before_text n (c # cs) = (if prefix n (c # cs) then [] else c # before_text n cs)"

definition surveillance_key :: "string \<Rightarrow> (string \<times> string) option" where
  "surveillance_key f =
     (let (i, side) = if py_contains '':surv_dst'' f then (before_text '':surv_dst'' f, ''dst'')
        else if py_contains '':surv_src'' f then (before_text '':surv_src'' f, ''src'') else ([], [])
      in if i = [] then None else Some (i, side))"

definition evidence_incident :: "string \<Rightarrow> string option" where
  "evidence_incident f =
     (let i = if py_contains '':ocsf_dst'' f then before_text '':ocsf_dst'' f
        else if py_contains '':ocsf_src'' f then before_text '':ocsf_src'' f else []
      in if i = [] then None else Some i)"

text \<open>An agent answers a request for logs with logs.\<close>

definition result_logs :: "xdr_result \<Rightarrow> log_record list" where
  "result_logs r = (case r of Logs ls \<Rightarrow> ls | Traced _ \<Rightarrow> [])"

definition ingest_surveillance_logs :: "int \<Rightarrow> string \<Rightarrow> string \<Rightarrow> log_record list \<Rightarrow> settings_db \<Rightarrow> settings_db" where
  "ingest_surveillance_logs now a f ls db = (case surveillance_key f of
     None \<Rightarrow> db
   | Some (i, side) \<Rightarrow> if ls = [] then db
       else let db = snd (upsert_surveillance_logs now i a side ls db); t = Max (set (map lg_timestamp ls))
         in if 0 < t then set_surveillance_pull_state i side None (Some t) db else db)"

definition ingest_ocsf_evidence :: "int \<Rightarrow> string \<Rightarrow> string \<Rightarrow> log_record list \<Rightarrow> settings_db \<Rightarrow> settings_db" where
  "ingest_ocsf_evidence now a f ls db = (case evidence_incident f of
     None \<Rightarrow> db | Some i \<Rightarrow> if ls = [] then db else snd (upsert_ocsf_evidence now i a ls db))"

definition take_answer :: "int \<Rightarrow> string \<times> xdr_result \<Rightarrow> settings_db \<Rightarrow> settings_db" where
  "take_answer now ans db = (case complete_xdr_query now (fst ans) (snd ans) db of
     (None, db) \<Rightarrow> db
   | (Some (a, f, ty), db) \<Rightarrow>
       if ty = ''pull_surveillance_logs'' then ingest_surveillance_logs now a f (result_logs (snd ans)) db
       else if ty = ''pull_ocsf_ledger'' then ingest_ocsf_evidence now a f (result_logs (snd ans)) db
       else db)"

text \<open>An entry that is no answer (\<open>None\<close>) raises and ends the loop.\<close>

fun take_answers :: "int \<Rightarrow> (string \<times> xdr_result) option list \<Rightarrow> settings_db \<Rightarrow> settings_db" where
  "take_answers now [] db = db"
| "take_answers now (None # as) db = db"
| "take_answers now (Some r # as) db = take_answers now as (take_answer now r db)"

record heartbeat =
  hb_agent_id :: string
  hb_timestamp :: int
  hb_clock_offset_ms :: int
  hb_ip_addresses :: "string list"
  hb_public_ip :: string
  hb_answers :: "(string \<times> xdr_result) option list"
  hb_ioc_stats :: string

record config_push =
  cp_config :: agent_config
  cp_pending :: "(string \<times> string \<times> xdr_params) list"
  cp_surveillance :: "(string list \<times> string list) option"

record heartbeat_response =
  hr_acknowledged :: bool
  hr_message :: string
  hr_config :: string
  hr_signature :: string

text \<open>The parameters \<open>dumps\<close>, \<open>digest\<close> and \<open>hexdigest\<close> stand for \<open>json.dumps\<close> and the two
  uses of HMAC-SHA256.\<close>

definition sign_config :: "(string \<Rightarrow> string \<Rightarrow> string) \<Rightarrow> (string \<Rightarrow> string \<Rightarrow> string) \<Rightarrow> string \<Rightarrow> string \<Rightarrow> string \<Rightarrow> string" where
  "sign_config digest hexdigest k a js = hexdigest (digest k a) js"

definition config_for :: "string \<Rightarrow> fleet_state \<Rightarrow> config_push" where
  "config_for a s = \<lparr>cp_config = resolve_agent_config a (fl_db s), cp_pending = get_pending_queries_for_agent a (fl_db s),
     cp_surveillance = (case get_surveillance_targets a (fl_graph s) of
       Some (addrs, us) \<Rightarrow> if addrs = [] then None else Some (addrs, us) | None \<Rightarrow> None)\<rparr>"

definition some_unless_empty :: "'a list \<Rightarrow> 'a list option" where
  "some_unless_empty xs = (if xs = [] then None else Some xs)"

definition Heartbeat :: "(config_push \<Rightarrow> string) \<Rightarrow> (string \<Rightarrow> string \<Rightarrow> string) \<Rightarrow> (string \<Rightarrow> string \<Rightarrow> string) \<Rightarrow> datetime \<Rightarrow> heartbeat
    \<Rightarrow> fleet_state \<Rightarrow> heartbeat_response \<times> fleet_state" where
  "Heartbeat dumps digest hexdigest clk hb s = (let a = hb_agent_id hb in
     case get_agent_key a (fl_db s) of
       None \<Rightarrow> (\<lparr>hr_acknowledged = False, hr_message = ''unregistered'', hr_config = [], hr_signature = []\<rparr>, s)
     | Some k \<Rightarrow>
         if k = [] then (\<lparr>hr_acknowledged = False, hr_message = ''unregistered'', hr_config = [], hr_signature = []\<rparr>, s)
         else let s = on_db (take_answers (secs clk) (hb_answers hb)) s;
           s = on_graph (update_heartbeat a (hb_timestamp hb) (hb_clock_offset_ms hb) (some_unless_empty (hb_ip_addresses hb))
             (some_unless_empty (hb_public_ip hb)) (some_unless_empty (hb_ioc_stats hb))) s;
           js = dumps (config_for a s)
         in (\<lparr>hr_acknowledged = True, hr_message = ''ok'', hr_config = js, hr_signature = sign_config digest hexdigest k a js\<rparr>, s))"

section \<open>Moving incidents on\<close>

record orchestrator =
  oc_query_timeout :: int
  oc_auto_close_hours :: int

definition enqueue :: "(nat \<Rightarrow> string) \<Rightarrow> int \<Rightarrow> string \<Rightarrow> string \<Rightarrow> string \<Rightarrow> xdr_params \<Rightarrow> fleet_state \<Rightarrow> fleet_state" where
  "enqueue uid now a f ty ps s = on_db (enqueue_xdr_query now (uid (fl_uuids s)) a f ty ps) (s\<lparr>fl_uuids := fl_uuids s + 1\<rparr>)"

definition ledger_pull :: "string list \<Rightarrow> xdr_params" where
  "ledger_pull addrs = PullLogs \<lparr>pp_anchor_pids = [], pp_ips = addrs, pp_usernames = [], pp_since = None, pp_limit = 300\<rparr>"

definition incident_port :: "(string \<Rightarrow> int option) \<Rightarrow> incident \<Rightarrow> string option \<Rightarrow> fleet_graph \<Rightarrow> int option" where
  "incident_port parse_int n f g = (case in_dst_port n of
     Some p \<Rightarrow> Some p
   | None \<Rightarrow> (case f of Some x \<Rightarrow> if x = [] then None else extract_finding_port parse_int x g | None \<Rightarrow> None))"

definition addr_list :: "string \<Rightarrow> string list" where
  "addr_list ip = (if ip = [] then [] else [ip])"

definition process_detected_row :: "(string \<Rightarrow> int option) \<Rightarrow> (nat \<Rightarrow> string) \<Rightarrow> datetime \<Rightarrow> string \<times> incident \<times> string option \<Rightarrow> fleet_state \<Rightarrow> fleet_state" where
  "process_detected_row parse_int uid clk row s =
     (let (i, n, f) = row; now = secs clk; src_ips = get_incident_src_ips i (fl_graph s); port = incident_port parse_int n f (fl_graph s);
          s = enqueue uid now (in_dst_agent n) (i @ '':victim'') ''lateral_victim_trace'' (VictimTrace src_ips port None) s;
          s = enqueue uid now (in_src_agent n) (i @ '':source'') ''lateral_source_trace'' (SourceTrace [in_pivot_ip n] port) s;
          s = enqueue uid now (in_dst_agent n) (i @ '':ocsf_dst'') ''pull_ocsf_ledger'' (ledger_pull src_ips) s;
          s = enqueue uid now (in_src_agent n) (i @ '':ocsf_src'') ''pull_ocsf_ledger'' (ledger_pull (addr_list (in_pivot_ip n))) s
      in on_graph (update_incident_status now i ''sweeping'') s)"

definition process_detected :: "(string \<Rightarrow> int option) \<Rightarrow> (nat \<Rightarrow> string) \<Rightarrow> datetime \<Rightarrow> fleet_state \<Rightarrow> fleet_state" where
  "process_detected parse_int uid clk s = fold (process_detected_row parse_int uid clk) (get_incidents_by_status ''detected'' (fl_graph s)) s"

definition query_done :: "string \<Rightarrow> string \<Rightarrow> settings_db \<Rightarrow> bool" where
  "query_done f ty db = (case get_xdr_result f ty db of None \<Rightarrow> False | Some (st, _) \<Rightarrow> st = ''completed'')"

definition process_sweeping_row :: "orchestrator \<Rightarrow> datetime \<Rightarrow> string \<times> incident \<times> string option \<Rightarrow> fleet_state \<Rightarrow> fleet_state" where
  "process_sweeping_row oc clk row s =
     (let (i, n, _) = row; timed_out = clk - in_created_at n * 1000000 > oc_query_timeout oc * 1000000
      in if query_done (i @ '':victim'') ''lateral_victim_trace'' (fl_db s) \<and> query_done (i @ '':source'') ''lateral_source_trace'' (fl_db s)
           \<or> timed_out
         then on_graph (update_incident_status (secs clk) i ''active'') s else s)"

definition process_sweeping :: "orchestrator \<Rightarrow> datetime \<Rightarrow> fleet_state \<Rightarrow> fleet_state" where
  "process_sweeping oc clk s = fold (process_sweeping_row oc clk) (get_incidents_by_status ''sweeping'' (fl_graph s)) s"

definition SURV_PULL_INTERVAL :: int where
  "SURV_PULL_INTERVAL = 60"

definition due_side :: "int \<Rightarrow> string \<Rightarrow> string \<Rightarrow> string \<Rightarrow> settings_db \<Rightarrow> (string \<times> string \<times> pull_state) list" where
  "due_side now i side a db = (let st = get_surveillance_pull_state i side db
     in if a \<noteq> [] \<and> now - ps_last_enqueue_at st \<ge> SURV_PULL_INTERVAL then [(side, a, st)] else [])"

definition surveillance_pull :: "string list \<Rightarrow> int list \<Rightarrow> string list \<Rightarrow> pull_state \<Rightarrow> xdr_params" where
  "surveillance_pull addrs pids us st = PullLogs \<lparr>pp_anchor_pids = pids, pp_ips = addrs, pp_usernames = us,
     pp_since = (if ps_last_record_ts st > 0 then Some (ps_last_record_ts st) else None), pp_limit = 200\<rparr>"

definition pull_side :: "(nat \<Rightarrow> string) \<Rightarrow> int \<Rightarrow> string \<Rightarrow> string list \<times> string \<Rightarrow> (int list \<times> int list) \<Rightarrow> (string list \<times> string list)
    \<Rightarrow> string \<times> string \<times> pull_state \<Rightarrow> fleet_state \<Rightarrow> fleet_state" where
  "pull_side uid now i ip_info pids us sd s =
     (let (src_ips, pivot) = ip_info; (side, a, st) = sd; key = i @ '':surv_'' @ side in
      if has_pending_xdr_query key ''pull_surveillance_logs'' (fl_db s) then s
      else let addrs = (if side = ''dst'' then src_ips else addr_list pivot);
          anchors = (if side = ''dst'' then snd pids else fst pids); names = (if side = ''dst'' then snd us else fst us)
        in if addrs = [] \<and> anchors = [] \<and> names = [] then s
           else on_db (set_surveillance_pull_state i side (Some now) None)
             (enqueue uid now a key ''pull_surveillance_logs'' (surveillance_pull addrs anchors names st) s))"

definition process_active_row :: "(nat \<Rightarrow> string) \<Rightarrow> orchestrator \<Rightarrow> datetime \<Rightarrow> string \<times> incident \<times> string option \<Rightarrow> fleet_state \<Rightarrow> fleet_state" where
  "process_active_row uid oc clk row s =
     (let (i, n, _) = row; now = secs clk in
      if clk - in_updated_at n * 1000000 > oc_auto_close_hours oc * 3600 * 1000000
      then on_graph (update_incident_status now i ''closed'') s
      else let pids = get_incident_chain_pids i (fl_graph s); us = get_incident_chain_usernames i (fl_graph s);
          sides = due_side now i ''dst'' (in_dst_agent n) (fl_db s) @ due_side now i ''src'' (in_src_agent n) (fl_db s)
        in fold (pull_side uid now i (get_incident_src_ips i (fl_graph s), in_pivot_ip n) pids us) sides s)"

definition process_active :: "(nat \<Rightarrow> string) \<Rightarrow> orchestrator \<Rightarrow> datetime \<Rightarrow> fleet_state \<Rightarrow> fleet_state" where
  "process_active uid oc clk s = fold (process_active_row uid oc clk) (get_incidents_by_status ''active'' (fl_graph s)) s"

definition orchestrate :: "(string \<Rightarrow> int option) \<Rightarrow> (nat \<Rightarrow> string) \<Rightarrow> orchestrator \<Rightarrow> datetime \<Rightarrow> fleet_state \<Rightarrow> fleet_state" where
  "orchestrate parse_int uid oc clk s =
     process_active uid oc clk (process_sweeping oc clk (process_detected parse_int uid clk s))"

definition close_incident :: "datetime \<Rightarrow> string \<Rightarrow> fleet_state \<Rightarrow> fleet_state" where
  "close_incident clk i = on_graph (update_incident_status (secs clk) i ''closed'')"

end
