(* ===== verification/FleetMovement.thy ===== *)
theory FleetMovement
  imports FleetServer
begin

text \<open>
  What the dashboard asks about movements (\<open>server/neo4j_client.py\<close>): the lists of lateral and vertical movements and
  the detail of one, which stitches the chains of both hosts together and asks the agents for what is missing.
\<close>

section \<open>Lists\<close>

record movement =
  mv_src_agent :: string
  mv_src_hostname :: "string option"
  mv_dst_agent :: string
  mv_dst_hostname :: "string option"
  mv_finding :: string
  mv_title :: string
  mv_severity :: string
  mv_timestamp :: int
  mv_pivot :: string

definition chain_addrs :: "fleet_graph \<Rightarrow> string \<Rightarrow> string list" where
  "chain_addrs g f = map cn_entity_id (filter (\<lambda>c. cn_entity_type c = ''ip'') (chain_of f g))"

definition ioc_addrs :: "fleet_graph \<Rightarrow> string \<Rightarrow> string list" where
  "ioc_addrs g f = related (fg_involves_ip g) f"

text \<open>The hosts of others that have an address.\<close>

definition hosts_at :: "fleet_graph \<Rightarrow> string \<Rightarrow> string \<Rightarrow> (string \<times> host_node) list" where
  "hosts_at g a ip = filter (\<lambda>(b, h). b \<noteq> a \<and> ip \<in> set (none_or [] (ho_ip_addresses h))) (fg_hosts g)"

definition movement_of :: "string \<Rightarrow> host_node \<Rightarrow> string \<Rightarrow> finding_node \<Rightarrow> string \<Rightarrow> string \<times> host_node \<Rightarrow> movement" where
  "movement_of a h f n ip t = \<lparr>mv_src_agent = a, mv_src_hostname = ho_hostname h, mv_dst_agent = fst t, mv_dst_hostname = ho_hostname (snd t),
     mv_finding = f, mv_title = fi_title n, mv_severity = fi_severity n, mv_timestamp = fi_timestamp n, mv_pivot = ip\<rparr>"

definition movements_of :: "(string \<Rightarrow> string list) \<Rightarrow> fleet_graph \<Rightarrow> string \<times> string \<Rightarrow> movement list" where
  "movements_of addrs g x = (case (d_get (fg_hosts g) (fst x), d_get (fg_findings g) (snd x)) of
     (Some h, Some n) \<Rightarrow> concat (map (\<lambda>ip. map (movement_of (fst x) h (snd x) n ip) (hosts_at g (fst x) ip)) (addrs (snd x))) | _ \<Rightarrow> [])"

definition movement_rows :: "(string \<Rightarrow> string list) \<Rightarrow> fleet_graph \<Rightarrow> movement list" where
  "movement_rows addrs g = concat (map (movements_of addrs g) (fg_generated g))"

definition newest_movements :: "int \<Rightarrow> movement list \<Rightarrow> movement list" where
  "newest_movements n ms = sql_limit n (by_newest mv_timestamp ms)"

definition detect_lateral_movements :: "int \<Rightarrow> fleet_graph \<Rightarrow> movement list" where
  "detect_lateral_movements n g = newest_movements n (dedup
     (newest_movements n (movement_rows (chain_addrs g) g) @ newest_movements n (movement_rows (ioc_addrs g) g)))"

text \<open>Agent, finding, its time, and the steps of the two users.\<close>

definition detect_vertical_movements :: "int \<Rightarrow> fleet_graph \<Rightarrow> (string \<times> string \<times> int \<times> chain_node \<times> chain_node) list" where
  "detect_vertical_movements n g = sql_limit n (by_newest (\<lambda>(_, _, t, _). t) (concat (map (\<lambda>(a, f).
     case (d_get (fg_hosts g) a, d_get (fg_findings g) f) of
       (Some h, Some m) \<Rightarrow> concat (map (\<lambda>c1. map (\<lambda>c2. (a, f, fi_timestamp m, c1, c2)) (filter (\<lambda>c2. cn_entity_type c2 = ''user''
         \<and> cn_step_index c1 < cn_step_index c2 \<and> cn_entity_id c2 \<noteq> cn_entity_id c1 \<and> ESCALATED c2) (chain_of f g)))
         (filter (\<lambda>c. cn_entity_type c = ''user'') (chain_of f g)))
     | _ \<Rightarrow> []) (fg_generated g))))"

section \<open>The detail of a movement\<close>

text \<open>The steps of a stored chain; the time of a finding counts seconds, that of a step microseconds.\<close>

definition step_of_node :: "chain_node \<Rightarrow> xdr_step" where
  "step_of_node c = \<lparr>xs_entity_type = cn_entity_type c, xs_entity_id = cn_entity_id c, xs_entity_name = cn_entity_name c, xs_pid = cn_pid c,
     xs_cmd_line = cn_cmd_line c, xs_username = None, xs_timestamp = cn_timestamp c, xs_step_index = cn_step_index c\<rparr>"

definition stored_chain :: "chain_node list \<Rightarrow> xdr_step list" where
  "stored_chain cs = map step_of_node (sort_key cn_step_index cs)"

definition short_chain :: "chain_node list \<Rightarrow> xdr_step list" where
  "short_chain cs = map (\<lambda>s. s\<lparr>xs_cmd_line := None\<rparr>) (stored_chain cs)"

record movement_detail =
  dt_incident :: "string option"
  dt_src_agent :: string
  dt_dst_agent :: "string option"
  dt_pivot :: "string option"
  dt_source_chain :: "xdr_step list"
  dt_target_chain :: "xdr_step list"
  dt_target_pending :: bool
  dt_target_stitched :: bool
  dt_target_synthetic :: bool
  dt_target_inferred :: bool
  dt_source_pending :: bool
  dt_source_stitched :: bool

text \<open>An incident of the finding with some chain: the finding's own chain goes first.\<close>

definition has_stored_chain :: "string \<Rightarrow> fleet_graph \<Rightarrow> string \<Rightarrow> bool" where
  "has_stored_chain f g i \<longleftrightarrow> (i, f) \<in> set (fg_source_finding g) \<and> has_finding f g
     \<and> (chain_of f g \<noteq> [] \<or> incident_chain (fg_source_chain g) i g \<noteq> [] \<or> incident_chain (fg_target_chain g) i g \<noteq> [])"

definition persisted_detail :: "string \<Rightarrow> fleet_graph \<Rightarrow> movement_detail option" where
  "persisted_detail f g = (case find (\<lambda>(i, _). has_stored_chain f g i) (fg_incidents g) of
     None \<Rightarrow> None
   | Some (i, n) \<Rightarrow> Some \<lparr>dt_incident = Some i, dt_src_agent = in_src_agent n, dt_dst_agent = Some (in_dst_agent n), dt_pivot = Some (in_pivot_ip n),
       dt_source_chain = stored_chain (if chain_of f g \<noteq> [] then chain_of f g else incident_chain (fg_source_chain g) i g),
       dt_target_chain = stored_chain (incident_chain (fg_target_chain g) i g), dt_target_pending = False, dt_target_stitched = False,
       dt_target_synthetic = False, dt_target_inferred = False, dt_source_pending = False, dt_source_stitched = False\<rparr>)"

definition initiator_of :: "string \<Rightarrow> fleet_graph \<Rightarrow> (string \<times> host_node) option" where
  "initiator_of f g = find (\<lambda>(a, _). (a, f) \<in> set (fg_generated g)) (fg_hosts g)"

definition first_target :: "string \<Rightarrow> string \<Rightarrow> fleet_graph \<Rightarrow> (string \<times> string) option" where
  "first_target a f g = (case concat (map (\<lambda>ip. map (\<lambda>(b, _). (ip, b)) (hosts_at g a ip)) (candidate_ips f g)) of [] \<Rightarrow> None | m # _ \<Rightarrow> Some m)"

text \<open>The newest finding of the target that names an address of the source, in its chain or beside it.\<close>

definition newest_finding :: "fleet_graph \<Rightarrow> string list \<Rightarrow> string list" where
  "newest_finding g fs = take 1 (by_newest (\<lambda>f. case d_get (fg_findings g) f of None \<Rightarrow> 0 | Some n \<Rightarrow> fi_timestamp n) fs)"

definition target_finding :: "string \<Rightarrow> string list \<Rightarrow> fleet_graph \<Rightarrow> string list" where
  "target_finding b addrs g = (let fs = filter (\<lambda>f. has_finding f g) (related (fg_generated g) b) in newest_finding g (dedup
     (newest_finding g (filter (\<lambda>f. \<exists>x \<in> set (chain_addrs g f). x \<in> set addrs) fs)
      @ newest_finding g (filter (\<lambda>f. \<exists>x \<in> set (ioc_addrs g f). x \<in> set addrs) fs))))"

definition findings_chain :: "string \<Rightarrow> string list \<Rightarrow> fleet_graph \<Rightarrow> xdr_step list" where
  "findings_chain b addrs g = (if addrs = [] then [] else concat (map (\<lambda>f. short_chain (chain_of f g)) (target_finding b addrs g)))"

definition incident_of_finding :: "string \<Rightarrow> fleet_graph \<Rightarrow> string option" where
  "incident_of_finding f g = map_option fst (find (\<lambda>(i, _). (i, f) \<in> set (fg_source_finding g)) (fg_incidents g))"

definition trace_records :: "xdr_result option \<Rightarrow> trace_record list" where
  "trace_records r = (case r of Some (Traced rs) \<Rightarrow> rs | _ \<Rightarrow> [])"

text \<open>The last resorts: the raw events of the incident, stored for the next request, or the address alone.\<close>

definition chain_from_evidence :: "string \<Rightarrow> string \<Rightarrow> string list \<Rightarrow> fleet_state \<Rightarrow> (string \<times> xdr_step list) option" where
  "chain_from_evidence f b addrs s = (case incident_of_finding f (fl_graph s) of None \<Rightarrow> None
     | Some i \<Rightarrow> (case get_ocsf_evidence i 500 (fl_db s) of [] \<Rightarrow> None
        | rows \<Rightarrow> (case build_chain_from_ocsf_evidence rows b addrs of None \<Rightarrow> None | Some ch \<Rightarrow> if ch = [] then None else Some (i, ch))))"

definition fall_back :: "string \<Rightarrow> string \<Rightarrow> string list \<Rightarrow> movement_detail \<Rightarrow> fleet_state \<Rightarrow> movement_detail \<times> fleet_state" where
  "fall_back f b addrs d s = (case chain_from_evidence f b addrs s of
     Some (i, ch) \<Rightarrow> (d\<lparr>dt_target_chain := ch, dt_target_synthetic := True\<rparr>, on_graph (persist_incident_chains i [] ch) s)
   | None \<Rightarrow> (d\<lparr>dt_target_chain := (case dt_pivot d of None \<Rightarrow> [] | Some ip \<Rightarrow> if ip = [] then [] else [plain_step ''ip'' ip]),
       dt_target_inferred := True\<rparr>, s))"

definition stitch_target :: "(string \<Rightarrow> int option) \<Rightarrow> (nat \<Rightarrow> string) \<Rightarrow> datetime \<Rightarrow> string \<Rightarrow> int \<Rightarrow> string list \<Rightarrow> movement_detail \<Rightarrow> fleet_state
    \<Rightarrow> movement_detail \<times> fleet_state" where
  "stitch_target parse_int uid clk f t addrs d s = (case dt_dst_agent d of None \<Rightarrow> (d, s)
   | Some b \<Rightarrow> if b = [] then (d, s) else let ch = findings_chain b addrs (fl_graph s) in
       if ch \<noteq> [] then (d\<lparr>dt_target_chain := ch\<rparr>, s)
       else case get_xdr_result (f @ '':victim'') ''lateral_victim_trace'' (fl_db s) of
         None \<Rightarrow> (d\<lparr>dt_target_pending := True\<rparr>, enqueue uid (secs clk) b (f @ '':victim'') ''lateral_victim_trace''
           (VictimTrace addrs (extract_finding_port parse_int f (fl_graph s)) (Some (t * 1000000))) s)
       | Some (st, r) \<Rightarrow> if st = ''pending'' then (d\<lparr>dt_target_pending := True\<rparr>, s)
           else if st = ''completed'' \<and> trace_records r \<noteq> []
           then (d\<lparr>dt_target_chain := build_chain_from_xdr_records True (trace_records r), dt_target_stitched := True\<rparr>, s)
           else fall_back f b addrs d s)"

definition stitch_source :: "(string \<Rightarrow> int option) \<Rightarrow> (nat \<Rightarrow> string) \<Rightarrow> datetime \<Rightarrow> string \<Rightarrow> movement_detail \<Rightarrow> fleet_state
    \<Rightarrow> movement_detail \<times> fleet_state" where
  "stitch_source parse_int uid clk f d s = (case dt_pivot d of None \<Rightarrow> (d, s)
   | Some ip \<Rightarrow>
       if dt_source_chain d \<noteq> [] \<or> dt_src_agent d = [] \<or> ip = [] then (d, s)
       else case get_xdr_result (f @ '':source'') ''lateral_source_trace'' (fl_db s) of
         None \<Rightarrow> (d\<lparr>dt_source_pending := True\<rparr>, enqueue uid (secs clk) (dt_src_agent d) (f @ '':source'') ''lateral_source_trace''
           (SourceTrace [ip] (extract_finding_port parse_int f (fl_graph s))) s)
       | Some (st, r) \<Rightarrow> if st = ''pending'' then (d\<lparr>dt_source_pending := True\<rparr>, s)
           else if st = ''completed'' \<and> trace_records r \<noteq> []
           then (d\<lparr>dt_source_chain := build_chain_from_xdr_records False (trace_records r), dt_source_stitched := True\<rparr>, s)
           else (d, s))"

definition found_detail :: "string \<Rightarrow> string \<Rightarrow> fleet_graph \<Rightarrow> movement_detail" where
  "found_detail a f g = \<lparr>dt_incident = None, dt_src_agent = a, dt_dst_agent = map_option snd (first_target a f g),
     dt_pivot = map_option fst (first_target a f g), dt_source_chain = short_chain (chain_of f g), dt_target_chain = [], dt_target_pending = False,
     dt_target_stitched = False, dt_target_synthetic = False, dt_target_inferred = False, dt_source_pending = False, dt_source_stitched = False\<rparr>"

definition get_lateral_movement_detail :: "(string \<Rightarrow> int option) \<Rightarrow> (nat \<Rightarrow> string) \<Rightarrow> datetime \<Rightarrow> string \<Rightarrow> fleet_state
    \<Rightarrow> movement_detail option \<times> fleet_state" where
  "get_lateral_movement_detail parse_int uid clk f s = (case persisted_detail f (fl_graph s) of
     Some d \<Rightarrow> (Some d, s)
   | None \<Rightarrow> (case (initiator_of f (fl_graph s), d_get (fg_findings (fl_graph s)) f) of
       (Some (a, h), Some n) \<Rightarrow>
         let (d, s) = stitch_target parse_int uid clk f (fi_timestamp n) (none_or [] (ho_ip_addresses h)) (found_detail a f (fl_graph s)) s;
             (d, s) = stitch_source parse_int uid clk f d s
         in (Some d, s)
     | _ \<Rightarrow> (None, s)))"

section \<open>Properties\<close>

lemma in_newest: "m \<in> set (newest_movements n ms) \<Longrightarrow> m \<in> set ms"
  by (auto simp: newest_movements_def sql_limit_def split: if_splits dest: in_set_takeD)

lemma newest_all: "int (length ms) \<le> n \<Longrightarrow> set (newest_movements n ms) = set ms"
  by (auto simp: newest_movements_def sql_limit_def)

lemma length_dedup: "length (dedup xs) \<le> length xs"
  by (metis card_length distinct_card distinct_dedup set_dedup)

lemma detected_rows: "m \<in> set (detect_lateral_movements n g) \<Longrightarrow>
    m \<in> set (movement_rows (chain_addrs g) g) \<union> set (movement_rows (ioc_addrs g) g)"
  unfolding detect_lateral_movements_def by (auto dest!: in_newest)

lemma all_detected:
  assumes "int (length (movement_rows (chain_addrs g) g) + length (movement_rows (ioc_addrs g) g)) \<le> n"
  shows "set (detect_lateral_movements n g) = set (movement_rows (chain_addrs g) g) \<union> set (movement_rows (ioc_addrs g) g)"
proof -
  let ?ms = "dedup (newest_movements n (movement_rows (chain_addrs g) g) @ newest_movements n (movement_rows (ioc_addrs g) g))"
  have l: "length (newest_movements n ms) \<le> length ms" for ms by (simp add: newest_movements_def sql_limit_def)
  have "length ?ms \<le> length (movement_rows (chain_addrs g) g) + length (movement_rows (ioc_addrs g) g)"
    using l [of "movement_rows (chain_addrs g) g"] l [of "movement_rows (ioc_addrs g) g"] by (intro order.trans [OF length_dedup]) simp
  then have "set (newest_movements n ?ms) = set ?ms" using assms by (intro newest_all) simp
  then show ?thesis using assms by (simp add: detect_lateral_movements_def newest_all)
qed

definition movement_key :: "movement \<Rightarrow> string \<times> string \<times> string \<times> string option \<times> string" where
  "movement_key m = (mv_src_agent m, mv_finding m, mv_dst_agent m, mv_dst_hostname m, mv_pivot m)"

lemma key_image: "(a', f', b, hn, ip') \<in> (\<lambda>t. (a, f, fst t, ho_hostname (snd t), ip)) ` S \<longleftrightarrow> a' = a \<and> f' = f \<and> ip' = ip
    \<and> (\<exists>t. (b, t) \<in> S \<and> hn = ho_hostname t)"
  by force

lemma keys_of_movements:
  "(a', f', b, hn, ip) \<in> movement_key ` set (movements_of addrs g (a, f)) \<longleftrightarrow> a' = a \<and> f' = f \<and> d_get (fg_hosts g) a \<noteq> None \<and> has_finding f g
     \<and> ip \<in> set (addrs f) \<and> (\<exists>t. (b, t) \<in> set (hosts_at g a ip) \<and> hn = ho_hostname t)"
proof (cases "d_get (fg_hosts g) a = None \<or> d_get (fg_findings g) f = None")
  case False
  then obtain h n where hn: "d_get (fg_hosts g) a = Some h" "d_get (fg_findings g) f = Some n" by auto
  have k: "movement_key (movement_of a h f n ip t) = (a, f, fst t, ho_hostname (snd t), ip)" for ip t
    by (simp add: movement_key_def movement_of_def)
  have "movement_key ` set (movements_of addrs g (a, f)) = (\<Union>ip \<in> set (addrs f). (\<lambda>t. (a, f, fst t, ho_hostname (snd t), ip)) ` set (hosts_at g a ip))"
    by (simp add: movements_of_def hn image_UN image_image k)
  then have "(a', f', b, hn, ip) \<in> movement_key ` set (movements_of addrs g (a, f)) \<longleftrightarrow> (\<exists>x \<in> set (addrs f). a' = a \<and> f' = f \<and> ip = x
      \<and> (\<exists>t. (b, t) \<in> set (hosts_at g a x) \<and> hn = ho_hostname t))" for hn
    by (simp only: UN_iff key_image)
  then show ?thesis unfolding has_finding_def using hn by auto
qed (auto simp: movements_of_def has_finding_def split: option.split)

lemma keys_of_rows:
  "(a, f, b, hn, ip) \<in> movement_key ` set (movement_rows addrs g) \<longleftrightarrow> (a, f) \<in> set (fg_generated g) \<and> d_get (fg_hosts g) a \<noteq> None
     \<and> has_finding f g \<and> ip \<in> set (addrs f) \<and> (\<exists>t. (b, t) \<in> set (hosts_at g a ip) \<and> hn = ho_hostname t)"
proof -
  have e: "movement_key ` set (movement_rows addrs g) = (\<Union>x \<in> set (fg_generated g). movement_key ` set (movements_of addrs g x))"
    by (simp add: movement_rows_def image_UN)
  show ?thesis unfolding e UN_iff Bex_def split_paired_Ex keys_of_movements by blast
qed

lemma in_map_filter: "y \<in> set (List.map_filter f xs) \<longleftrightarrow> (\<exists>x \<in> set xs. f x = Some y)"
  by (induction xs) (auto simp: List.map_filter_simps split: option.split)

lemma check_rows:
  "(b, hn, ip) \<in> set (check_finding_for_lateral_movement a f g) \<longleftrightarrow> (a, f) \<in> set (fg_generated g) \<and> d_get (fg_hosts g) a \<noteq> None
    \<and> (ip \<in> set (chain_addrs g f) \<or> ip \<in> set (ioc_addrs g f)) \<and> (\<exists>t. (b, t) \<in> set (hosts_at g a ip) \<and> hn = ho_hostname t)"
proof -
  let ?row = "\<lambda>ip. List.map_filter (\<lambda>(b, h). if b \<noteq> a \<and> ip \<in> set (none_or [] (ho_ip_addresses h)) then Some (b, ho_hostname h, ip) else None) (fg_hosts g)"
  have row: "(b, hn, ip) \<in> set (?row ip') \<longleftrightarrow> ip' = ip \<and> (\<exists>t. (b, t) \<in> set (hosts_at g a ip) \<and> hn = ho_hostname t)" for ip'
    unfolding in_map_filter hosts_at_def by (auto split: if_splits intro: rev_bexI)
  have c: "set (candidate_ips f g) = set (chain_addrs g f) \<union> set (ioc_addrs g f)"
    by (simp add: candidate_ips_def chain_addrs_def ioc_addrs_def)
  show ?thesis
  proof (cases "d_get (fg_hosts g) a = None \<or> (a, f) \<notin> set (fg_generated g)")
    case False
    then have "set (check_finding_for_lateral_movement a f g) = (\<Union>ip \<in> set (candidate_ips f g). set (?row ip))"
      unfolding check_finding_for_lateral_movement_def if_not_P [OF False] by simp
    with False show ?thesis by (simp add: row c) blast
  qed (auto simp: check_finding_for_lateral_movement_def)
qed

text \<open>C18. The list of the dashboard and the check at ingestion find the same movements, when the list is not cut.\<close>

theorem detections_agree:
  assumes "int (length (movement_rows (chain_addrs g) g) + length (movement_rows (ioc_addrs g) g)) \<le> n"
  shows "(a, f, b, hn, ip) \<in> movement_key ` set (detect_lateral_movements n g)
    \<longleftrightarrow> has_finding f g \<and> (b, hn, ip) \<in> set (check_finding_for_lateral_movement a f g)"
  unfolding all_detected [OF assms] image_Un Un_iff keys_of_rows check_rows by blast

text \<open>C34. A finding with a chain of its own that is part of an incident is answered from the store: the agents are not asked and no target
  chain is built, however often the detail is opened.\<close>

theorem detail_stops_at_own_chain:
  assumes "(i, n) \<in> set (fg_incidents (fl_graph s))" "(i, f) \<in> set (fg_source_finding (fl_graph s))" "has_finding f (fl_graph s)"
    "chain_of f (fl_graph s) \<noteq> []"
  shows "\<exists>d j. get_lateral_movement_detail parse_int uid clk f s = (Some d, s) \<and> dt_incident d = Some j
    \<and> dt_source_chain d = stored_chain (chain_of f (fl_graph s)) \<and> dt_target_chain d = stored_chain (incident_chain (fg_target_chain (fl_graph s)) j (fl_graph s))"
proof -
  have "find (\<lambda>(i, _). has_stored_chain f (fl_graph s) i) (fg_incidents (fl_graph s)) \<noteq> None"
    unfolding find_None_iff using assms by (auto simp: has_stored_chain_def)
  then show ?thesis using assms(4) by (auto simp: get_lateral_movement_detail_def persisted_detail_def split: option.split)
qed

definition ssh_finding :: finding_node where
  "ssh_finding = \<lparr>fi_timestamp = 5, fi_severity = ''high'', fi_title = ''ssh'', fi_description = [], fi_recommendation = [],
     fi_affected_entities = [], fi_affected_pids = [], fi_iocs = []\<rparr>"

definition two_hosts :: fleet_graph where
  "two_hosts = empty_fleet\<lparr>fg_hosts := [(''a1'', new_host\<lparr>ho_ip_addresses := Some [''10.0.0.1'']\<rparr>), (''a2'', new_host\<lparr>ho_ip_addresses := Some [''10.0.0.2'']\<rparr>)],
     fg_findings := [(''f1'', ssh_finding)], fg_generated := [(''a1'', ''f1'')],
     fg_chain_nodes := [(''f1:0'', \<lparr>cn_owner = ''f1'', cn_step_index = 0, cn_entity_type = ''ip'', cn_entity_id = ''10.0.0.2'', cn_entity_name = ''10.0.0.2'',
       cn_pid = 0, cn_timestamp = 0, cn_host_agent_id = ''a1'', cn_cmd_line = None, cn_container_id = None\<rparr>)], fg_has_chain := [(''f1'', 0, ''f1:0'')]\<rparr>"

definition moved_server :: fleet_state where
  "moved_server = \<lparr>fl_graph = create_incident 6 ''i1'' ''f1'' ''a1'' ''a2'' ''10.0.0.2'' None two_hosts, fl_db = empty_db [], fl_uuids = 1\<rparr>"

theorem detections_agree_witness: "(''a1'', ''f1'', ''a2'', None, ''10.0.0.2'') \<in> movement_key ` set (detect_lateral_movements 50 two_hosts)"
proof -
  have "has_finding ''f1'' two_hosts" "(''a2'', None, ''10.0.0.2'') \<in> set (check_finding_for_lateral_movement ''a1'' ''f1'' two_hosts)" by code_simp+
  moreover have "int (length (movement_rows (chain_addrs two_hosts) two_hosts) + length (movement_rows (ioc_addrs two_hosts) two_hosts)) \<le> 50"
    by code_simp
  ultimately show ?thesis using detections_agree [of two_hosts 50 "''a1''" "''f1''" "''a2''" None "''10.0.0.2''"] by blast
qed

theorem detail_stops_at_own_chain_witness:
  "snd (get_lateral_movement_detail (\<lambda>_. None) (\<lambda>_. []) 9000000 ''f1'' moved_server) = moved_server"
proof -
  have i: "(''i1'', ''f1'') \<in> set (fg_source_finding (fl_graph moved_server))" "has_finding ''f1'' (fl_graph moved_server)"
    "chain_of ''f1'' (fl_graph moved_server) \<noteq> []" "fg_incidents (fl_graph moved_server) \<noteq> []" "list_all (\<lambda>(i, _). i = ''i1'') (fg_incidents (fl_graph moved_server))"
    by code_simp+
  then obtain n where "(''i1'', n) \<in> set (fg_incidents (fl_graph moved_server))"
    by (cases "fg_incidents (fl_graph moved_server)") auto
  from detail_stops_at_own_chain [OF this i(1-3), of "\<lambda>_. None" "\<lambda>_. []" 9000000] show ?thesis by auto
qed

end
