(* ===== verification/FleetLife.thy ===== *)
theory FleetLife
  imports FleetMovement
begin

text \<open>
  The life of an incident: a state machine that the server implements whatever agents and operators do, and
  how long an incident can stay in each state.
\<close>

section \<open>The specification\<close>

text \<open>An incident is opened once, moves on one state at a time and is closed by time or by an operator.\<close>

inductive life_step :: "(string \<Rightarrow> string option) \<Rightarrow> (string \<Rightarrow> string option) \<Rightarrow> bool" where
  opened: "m i = None \<Longrightarrow> life_step m (m(i \<mapsto> ''detected''))"
| swept: "m i = Some ''detected'' \<Longrightarrow> life_step m (m(i \<mapsto> ''sweeping''))"
| activated: "m i = Some ''sweeping'' \<Longrightarrow> life_step m (m(i \<mapsto> ''active''))"
| expired: "m i = Some ''active'' \<Longrightarrow> life_step m (m(i \<mapsto> ''closed''))"
| closed: "m i \<noteq> None \<Longrightarrow> life_step m (m(i \<mapsto> ''closed''))"

definition life :: "fleet_graph \<Rightarrow> string \<Rightarrow> string option" where
  "life g i = map_option in_status (d_get (fg_incidents g) i)"

definition life_of :: "fleet_state \<Rightarrow> string \<Rightarrow> string option" where
  "life_of s = life (fl_graph s)"

section \<open>Operations that leave incidents alone\<close>

named_theorems same_incidents \<open>operations that change no incident\<close>

lemma fold_same_incidents: "(\<And>x g. fg_incidents (f x g) = fg_incidents g) \<Longrightarrow> fg_incidents (fold f xs g) = fg_incidents g"
  by (induction xs arbitrary: g) simp_all

lemma link_same [same_incidents]:
  "fg_incidents (link_host i a g) = fg_incidents g" "fg_incidents (link_pivot i ip g) = fg_incidents g"
  "fg_incidents (link_finding i f g) = fg_incidents g"
  by (simp_all add: link_host_def link_pivot_def link_finding_def)

lemma register_same [same_incidents]: "fg_incidents (register_agent a peer k g) = fg_incidents g"
  by (simp add: register_agent_def Let_def)

lemma heartbeat_same [same_incidents]: "fg_incidents (update_heartbeat a ts off addrs public stats g) = fg_incidents g"
  by (simp add: update_heartbeat_def split: option.split)

lemma ingest_same [same_incidents]: "fg_incidents (ingest_finding a f g) = fg_incidents g"
proof -
  have "fg_incidents (ingest_step a i p g) = fg_incidents g" for i p g by (cases p) (simp add: ingest_step_def Let_def)
  then show ?thesis
    by (simp add: ingest_finding_def ingest_finding_chain_def merge_finding_node_def merge_ioc_domain_def merge_ioc_ip_def Let_def fold_same_incidents)
qed

lemma event_same: "ingest_ocsf_event a e g = Some g' \<Longrightarrow> fg_incidents g' = fg_incidents g"
  by (auto simp: ingest_ocsf_event_def ingest_network_def Let_def split: ocsf_event.splits option.splits if_splits)

lemma events_same [same_incidents]: "fg_incidents (snd (ingest_events a es g)) = fg_incidents g"
proof (induction es arbitrary: g)
  case (Cons e es)
  then show ?case
    by (cases "ingest_ocsf_event a e g") (simp_all add: event_same case_prod_beta)
qed simp

section \<open>Operations on incidents\<close>

lemma get_update: "d_get (fg_incidents (update_incident i f g)) j
    = (if j = i then map_option f (d_get (fg_incidents g) i) else d_get (fg_incidents g) j)"
  by (auto simp: update_incident_def d_get_set split: option.split)

lemma life_update: "(\<And>n. in_status (f n) = in_status n) \<Longrightarrow> life (update_incident i f g) = life g"
  by (rule ext) (simp add: life_def get_update option.map_comp comp_def)

lemma life_same: "fg_incidents g = fg_incidents h \<Longrightarrow> life g = life h"
  by (rule ext) (simp add: life_def)

lemma life_status: "life (update_incident_status now i st g) = (case life g i of None \<Rightarrow> life g | Some _ \<Rightarrow> (life g)(i \<mapsto> st))"
  by (rule ext) (auto simp: update_incident_status_def life_def get_update split: option.split)

lemma life_links:
  "life (link_host i a g) = life g" "life (link_pivot i ip g) = life g" "life (link_finding i f g) = life g"
  "life (g\<lparr>fg_follow_on := r\<rparr>) = life g"
  by (rule life_same, simp add: same_incidents)+

lemma life_follow_on: "life (snd (check_finding_for_follow_on now a f g)) = life g"
proof -
  have "life (fold (\<lambda>i g. update_incident i (\<lambda>n. n\<lparr>in_updated_at := now\<rparr>) (g\<lparr>fg_follow_on := add_once (i, f) (fg_follow_on g)\<rparr>)) ids g) = life g"
    for ids by (induction ids arbitrary: g) (simp_all add: life_update life_links)
  then show ?thesis by (simp add: check_finding_for_follow_on_def Let_def split: option.split)
qed

lemma life_append: "life (append_finding_to_incident now i f src dst pivot g) = life g"
  by (simp add: append_finding_to_incident_def Let_def upgrade_campaign_def life_update life_links)

lemma incidents_create: "fg_incidents (create_incident now i f src dst pivot port g) = d_alter i
   \<lparr>in_type = ''lateral_movement'', in_status = ''detected'', in_src_agent = src, in_dst_agent = dst, in_pivot_ip = pivot,
    in_dst_port = port, in_created_at = now, in_updated_at = now, in_diamond = None\<rparr>
   (\<lambda>old. \<lparr>in_type = ''lateral_movement'', in_status = ''detected'', in_src_agent = src, in_dst_agent = dst, in_pivot_ip = pivot,
    in_dst_port = port, in_created_at = now, in_updated_at = now, in_diamond = in_diamond old\<rparr>) (fg_incidents g)"
  by (simp add: create_incident_def Let_def same_incidents)

lemma life_create: "life (create_incident now i f src dst pivot port g) = (life g)(i \<mapsto> ''detected'')"
  by (rule ext) (simp add: life_def incidents_create d_get_alter split: option.split)

section \<open>Every step of the server is a run of the specification\<close>

lemma wf_update: "d_wf (fg_incidents g) \<Longrightarrow> d_wf (fg_incidents (update_incident i f g))"
  by (simp add: update_incident_def split: option.split)

lemma wf_status: "d_wf (fg_incidents g) \<Longrightarrow> d_wf (fg_incidents (update_incident_status now i st g))"
  by (simp add: update_incident_status_def wf_update)

lemma wf_follow_on: "d_wf (fg_incidents g) \<Longrightarrow> d_wf (fg_incidents (snd (check_finding_for_follow_on now a f g)))"
proof -
  have "d_wf (fg_incidents g) \<Longrightarrow>
      d_wf (fg_incidents (fold (\<lambda>i g. update_incident i (\<lambda>n. n\<lparr>in_updated_at := now\<rparr>) (g\<lparr>fg_follow_on := add_once (i, f) (fg_follow_on g)\<rparr>)) ids g))"
    for ids by (induction ids arbitrary: g) (simp_all add: wf_update)
  then show "d_wf (fg_incidents g) \<Longrightarrow> d_wf (fg_incidents (snd (check_finding_for_follow_on now a f g)))"
    by (simp add: check_finding_for_follow_on_def Let_def split: option.split)
qed

lemma wf_append: "d_wf (fg_incidents g) \<Longrightarrow> d_wf (fg_incidents (append_finding_to_incident now i f src dst pivot g))"
  by (simp add: append_finding_to_incident_def Let_def upgrade_campaign_def wf_update same_incidents)

text \<open>Identifiers that were handed out: every incident and every query has one.\<close>

definition ids_given :: "(nat \<Rightarrow> string) \<Rightarrow> fleet_state \<Rightarrow> bool" where
  "ids_given uid s \<longleftrightarrow> d_wf (fg_incidents (fl_graph s)) \<and> fst ` set (fg_incidents (fl_graph s)) \<subseteq> uid ` {..<fl_uuids s} \<and> xq_id ` set (sd_queries (fl_db s)) \<subseteq> uid ` {..<fl_uuids s}"

definition simulates :: "(nat \<Rightarrow> string) \<Rightarrow> fleet_state \<Rightarrow> fleet_state \<Rightarrow> bool" where
  "simulates uid s s' \<longleftrightarrow> ids_given uid s' \<and> life_step\<^sup>*\<^sup>* (life_of s) (life_of s')"

lemma simulates_refl: "ids_given uid s \<Longrightarrow> simulates uid s s"
  by (simp add: simulates_def)

lemma simulates_trans: "simulates uid s s' \<Longrightarrow> simulates uid s' s'' \<Longrightarrow> simulates uid s s''"
  unfolding simulates_def by (metis rtranclp_trans)

lemma simulates_ids: "simulates uid s s' \<Longrightarrow> ids_given uid s'"
  by (simp add: simulates_def)

text \<open>A step that keeps the incidents and the queries, or the identifiers of them.\<close>

lemma simulates_same:
  assumes "ids_given uid s" "life_of s' = life_of s" "d_wf (fg_incidents (fl_graph s'))" "fst ` set (fg_incidents (fl_graph s')) \<subseteq> fst ` set (fg_incidents (fl_graph s))"
    "xq_id ` set (sd_queries (fl_db s')) \<subseteq> xq_id ` set (sd_queries (fl_db s))" "fl_uuids s \<le> fl_uuids s'"
  shows "simulates uid s s'"
proof -
  have "uid ` {..<fl_uuids s} \<subseteq> uid ` {..<fl_uuids s'}" using assms(6) by auto
  with assms show ?thesis unfolding simulates_def ids_given_def by (metis rtranclp.rtrancl_refl subset_trans)
qed

lemma simulates_fold:
  assumes "\<And>x s. x \<in> set xs \<Longrightarrow> ids_given uid s \<Longrightarrow> simulates uid s (f x s)" "ids_given uid s"
  shows "simulates uid s (fold f xs s)"
  using assms
proof (induction xs arbitrary: s)
  case (Cons x xs)
  have one: "simulates uid s (f x s)" using Cons.prems by simp
  have "simulates uid (f x s) (fold f xs (f x s))" by (rule Cons.IH) (use Cons.prems simulates_ids [OF one] in auto)
  with one show ?case using simulates_trans by fastforce
qed (simp add: simulates_refl)

lemma keys_update: "fst ` set (fg_incidents (update_incident i f g)) = fst ` set (fg_incidents g)"
proof -
  have "d_get (fg_incidents (update_incident i f g)) j = None \<longleftrightarrow> d_get (fg_incidents g) j = None" for j by (simp add: get_update)
  then show ?thesis unfolding d_get_None by blast
qed

lemma life_None: "life g i = None \<longleftrightarrow> i \<notin> fst ` set (fg_incidents g)"
  by (simp add: life_def d_get_None)

lemma keys_life: "life g = life h \<Longrightarrow> fst ` set (fg_incidents g) = fst ` set (fg_incidents h)"
  using life_None [of g] life_None [of h] by auto

lemma fresh_uuid:
  assumes "inj uid" "ids_given uid s"
  shows "life_of s (uid (fl_uuids s)) = None"
proof -
  have "uid (fl_uuids s) \<notin> uid ` {..<fl_uuids s}" using assms(1) by (auto dest: injD)
  with assms(2) show ?thesis by (auto simp: life_of_def life_None ids_given_def)
qed

lemma status_step:
  assumes "ids_given uid s" "life_step (life_of s) ((life_of s)(i \<mapsto> st)) \<or> life_of s i = Some st"
  shows "simulates uid s (on_graph (update_incident_status now i st) s)"
proof -
  let ?s = "on_graph (update_incident_status now i st) s"
  have k: "fst ` set (fg_incidents (fl_graph ?s)) = fst ` set (fg_incidents (fl_graph s))"
    by (simp add: on_graph_def update_incident_status_def keys_update)
  have "life_of ?s = (case life_of s i of None \<Rightarrow> life_of s | Some _ \<Rightarrow> (life_of s)(i \<mapsto> st))"
    by (simp add: life_of_def on_graph_def life_status split: option.split)
  then have "life_of ?s = life_of s \<or> life_of ?s = (life_of s)(i \<mapsto> st)" "life_of s i = Some st \<Longrightarrow> life_of ?s = life_of s"
    by (auto simp: fun_upd_idem split: option.splits)
  with assms(2) have "life_step\<^sup>*\<^sup>* (life_of s) (life_of ?s)" by auto
  with assms(1) k show ?thesis by (simp add: simulates_def ids_given_def on_graph_def wf_status)
qed

lemma graph_step:
  assumes "ids_given uid s" "life (f (fl_graph s)) = life (fl_graph s)" "d_wf (fg_incidents (fl_graph s)) \<Longrightarrow> d_wf (fg_incidents (f (fl_graph s)))"
  shows "simulates uid s (on_graph f s)"
  using assms keys_life [OF assms(2)] by (intro simulates_same) (simp_all add: on_graph_def life_of_def ids_given_def)

lemma same_step:
  assumes "ids_given uid s" "fg_incidents (f (fl_graph s)) = fg_incidents (fl_graph s)"
  shows "simulates uid s (on_graph f s)"
  using assms life_same [OF assms(2)] by (intro graph_step) simp_all

lemma create_step:
  assumes "inj uid" "ids_given uid s"
  shows "simulates uid s (snd (new_incident uid clk f src dst pivot port s)) \<and> fst (new_incident uid clk f src dst pivot port s) = uid (fl_uuids s)
    \<and> life_of (snd (new_incident uid clk f src dst pivot port s)) (uid (fl_uuids s)) = Some ''detected''"
proof -
  let ?i = "uid (fl_uuids s)" and ?s = "snd (new_incident uid clk f src dst pivot port s)"
  have l: "life_of ?s = (life_of s)(?i \<mapsto> ''detected'')"
    by (simp add: new_incident_def Let_def life_of_def on_graph_def life_create)
  have "life_step (life_of s) (life_of ?s)" unfolding l by (rule life_step.opened) (rule fresh_uuid [OF assms])
  moreover have "ids_given uid ?s"
  proof -
    have "fst ` set (fg_incidents (fl_graph ?s)) = insert ?i (fst ` set (fg_incidents (fl_graph s)))"
      by (simp add: new_incident_def Let_def on_graph_def incidents_create d_alter_def d_set_keys)
    then show ?thesis using assms(2) by (auto simp: ids_given_def new_incident_def Let_def on_graph_def lessThan_Suc incidents_create)
  qed
  ultimately show ?thesis using l by (auto simp: simulates_def new_incident_def Let_def)
qed

lemma on_match_step:
  assumes "inj uid" "ids_given uid s"
  shows "simulates uid s (on_match parse_int uid clk a f m s)"
  using create_step [OF assms] graph_step [OF assms(2)]
  by (auto simp: on_match_def case_prod_beta life_append wf_append simulates_refl assms(2) split: option.split)

lemma escalation_step:
  assumes "inj uid" "ids_given uid s"
  shows "simulates uid s (on_escalation uid clk a f s)"
proof (cases "find_active_campaign (secs clk) [a] [] 12 (fl_graph s)")
  case None
  let ?i = "uid (fl_uuids s)" and ?s = "snd (new_incident uid clk f a a [] None s)"
  note c = create_step [OF assms, of clk f a a "[]" None]
  have u: "simulates uid ?s (on_graph (update_incident_status (secs clk) ?i ''detected'') ?s)"
    by (rule status_step) (use c simulates_ids in auto)
  have v: "simulates uid (on_graph (update_incident_status (secs clk) ?i ''detected'') ?s)
      (on_graph (mark_vertical ?i) (on_graph (update_incident_status (secs clk) ?i ''detected'') ?s))"
    by (rule graph_step [OF simulates_ids [OF u]]) (simp_all add: mark_vertical_def life_update wf_update)
  have "on_escalation uid clk a f s = on_graph (mark_vertical ?i) (on_graph (update_incident_status (secs clk) ?i ''detected'') ?s)"
    using c None by (simp add: on_escalation_def case_prod_beta)
  with simulates_trans [OF simulates_trans [OF conjunct1 [OF c] u] v] show ?thesis by simp
next
  case (Some i)
  with graph_step [OF assms(2)] show ?thesis by (simp add: on_escalation_def life_append wf_append)
qed

lemma detect_step:
  assumes "inj uid" "ids_given uid s"
  shows "simulates uid s (detect_movement parse_int uid clk a w s)"
proof -
  let ?s = "on_graph (\<lambda>g. snd (check_finding_for_follow_on (secs clk) a (wf_id w) g)) s"
  let ?ms = "check_finding_for_lateral_movement a (wf_id w) (fl_graph ?s)"
  let ?t = "fold (on_match parse_int uid clk a (wf_id w)) ?ms ?s"
  have 1: "simulates uid s ?s" using assms(2) by (rule graph_step) (simp_all add: life_follow_on wf_follow_on)
  have 2: "simulates uid ?s ?t" by (rule simulates_fold) (simp_all add: on_match_step assms(1) simulates_ids [OF 1])
  have 3: "simulates uid ?t (on_escalation uid clk a (wf_id w) ?t)" by (rule escalation_step [OF assms(1) simulates_ids [OF 2]])
  note either = if_split [of "simulates uid s", THEN iffD2, OF conjI, OF impI impI]
  show ?thesis
    unfolding detect_movement_def Let_def
    by (rule either, rule 1, rule either, rule simulates_trans [OF simulates_trans [OF 1 2] 3], rule simulates_trans [OF 1 2])
qed

lemma findings_step:
  assumes "inj uid" "ids_given uid s"
  shows "simulates uid s (snd (SendFindings parse_int uid clk a fs s))"
proof -
  have 1: "simulates uid s (fold (\<lambda>f. on_graph (ingest_finding a f)) fs s)"
    by (rule simulates_fold [OF _ assms(2)]) (simp add: same_step same_incidents)
  have "simulates uid (fold (\<lambda>f. on_graph (ingest_finding a f)) fs s) (snd (SendFindings parse_int uid clk a fs s))"
    unfolding SendFindings_def snd_conv by (rule simulates_fold) (simp_all add: detect_step assms(1) simulates_ids [OF 1])
  with 1 show ?thesis by (rule simulates_trans)
qed

lemma enqueue_step:
  assumes "ids_given uid s"
  shows "simulates uid s (enqueue uid now a f ty ps s) \<and> life_of (enqueue uid now a f ty ps s) = life_of s"
proof -
  have "xq_id ` set (sd_queries (enqueue_xdr_query now i a f ty ps db)) \<subseteq> insert i (xq_id ` set (sd_queries db))" for i db
    by (auto simp: enqueue_xdr_query_def)
  moreover have "uid ` {..<Suc (fl_uuids s)} = insert (uid (fl_uuids s)) (uid ` {..<fl_uuids s})" by (simp add: lessThan_Suc)
  ultimately have "ids_given uid (enqueue uid now a f ty ps s)"
    using assms unfolding ids_given_def enqueue_def on_db_def by simp (meson insert_mono subset_insertI subset_trans)
  then show ?thesis by (simp add: simulates_def enqueue_def on_db_def life_of_def)
qed

text \<open>A pass over rows of incidents in one of two states.\<close>

definition in_states :: "(string \<Rightarrow> string option) \<Rightarrow> string \<Rightarrow> string \<Rightarrow> string \<Rightarrow> bool" where
  "in_states m a b i \<longleftrightarrow> m i = Some a \<or> m i = Some b"

lemma pass_rows:
  assumes step: "\<And>x s. x \<in> set rows \<Longrightarrow> in_states (life_of s) a b (fst x) \<Longrightarrow> ids_given uid s \<Longrightarrow>
      simulates uid s (f x s) \<and> (life_of (f x s) = life_of s \<or> life_of (f x s) = (life_of s)(fst x \<mapsto> b))"
    and "\<forall>x \<in> set rows. in_states (life_of s) a b (fst x)" "ids_given uid s"
  shows "simulates uid s (fold f rows s)"
  using assms
proof (induction rows arbitrary: s)
  case (Cons x xs)
  have one: "simulates uid s (f x s) \<and> (life_of (f x s) = life_of s \<or> life_of (f x s) = (life_of s)(fst x \<mapsto> b))"
    by (rule Cons.prems(1)) (use Cons.prems(2,3) in simp_all)
  have "simulates uid (f x s) (fold f xs (f x s))"
  proof (rule Cons.IH)
    show "\<forall>y \<in> set xs. in_states (life_of (f x s)) a b (fst y)"
    proof
      fix y assume "y \<in> set xs"
      with Cons.prems(2) have "in_states (life_of s) a b (fst y)" by simp
      with conjunct2 [OF one] show "in_states (life_of (f x s)) a b (fst y)" by (cases "fst y = fst x") (auto simp: in_states_def)
    qed
  qed (use Cons.prems(1) simulates_ids [OF conjunct1 [OF one]] in auto)
  with one show ?case using simulates_trans by fastforce
qed (simp add: simulates_refl)

lemma rows_status:
  assumes "ids_given uid s" "x \<in> set (get_incidents_by_status st (fl_graph s))"
  shows "life_of s (fst x) = Some st \<and> d_get (fg_incidents (fl_graph s)) (fst x) = Some (fst (snd x))"
proof -
  obtain n where "(fst x, n) \<in> set (fg_incidents (fl_graph s))" "in_status n = st" "fst (snd x) = n"
    using assms(2) by (auto simp: get_incidents_by_status_def Let_def split: if_splits)
  with assms(1) show ?thesis by (auto simp: life_of_def life_def ids_given_def dest: d_in_get)
qed

lemma detected_row:
  assumes "in_states (life_of s) ''detected'' ''sweeping'' (fst x)" "ids_given uid s"
  shows "simulates uid s (process_detected_row parse_int uid clk x s)
    \<and> life_of (process_detected_row parse_int uid clk x s) = (life_of s)(fst x \<mapsto> ''sweeping'')"
proof -
  obtain i n f where x: "x = (i, n, f)" by (cases x)
  let ?now = "secs clk" and ?ips = "get_incident_src_ips i (fl_graph s)" and ?port = "incident_port parse_int n f (fl_graph s)"
  define s1 where "s1 = enqueue uid ?now (in_dst_agent n) (i @ '':victim'') ''lateral_victim_trace'' (VictimTrace ?ips ?port None) s"
  define s2 where "s2 = enqueue uid ?now (in_src_agent n) (i @ '':source'') ''lateral_source_trace'' (SourceTrace [in_pivot_ip n] ?port) s1"
  define s3 where "s3 = enqueue uid ?now (in_dst_agent n) (i @ '':ocsf_dst'') ''pull_ocsf_ledger'' (ledger_pull ?ips) s2"
  define s4 where "s4 = enqueue uid ?now (in_src_agent n) (i @ '':ocsf_src'') ''pull_ocsf_ledger'' (ledger_pull (addr_list (in_pivot_ip n))) s3"
  have e: "process_detected_row parse_int uid clk x s = on_graph (update_incident_status ?now i ''sweeping'') s4"
    by (simp add: process_detected_row_def x s1_def s2_def s3_def s4_def Let_def)
  have s1: "simulates uid s s1" "life_of s1 = life_of s" unfolding s1_def using enqueue_step [OF assms(2)] by auto
  have s2: "simulates uid s1 s2" "life_of s2 = life_of s" unfolding s2_def using enqueue_step [OF simulates_ids [OF s1(1)]] s1(2) by auto
  have s3: "simulates uid s2 s3" "life_of s3 = life_of s" unfolding s3_def using enqueue_step [OF simulates_ids [OF s2(1)]] s2(2) by auto
  have s4: "simulates uid s3 s4" "life_of s4 = life_of s" unfolding s4_def using enqueue_step [OF simulates_ids [OF s3(1)]] s3(2) by auto
  have 5: "simulates uid s4 (on_graph (update_incident_status ?now i ''sweeping'') s4)"
    using assms(1) s4(2) by (intro status_step simulates_ids [OF s4(1)]) (auto simp: in_states_def x intro: life_step.intros)
  have "life_of (on_graph (update_incident_status ?now i ''sweeping'') s4) = (life_of s)(i \<mapsto> ''sweeping'')"
    using assms(1) s4(2) by (auto simp: life_of_def on_graph_def life_status in_states_def x)
  with simulates_trans [OF simulates_trans [OF simulates_trans [OF simulates_trans [OF s1(1) s2(1)] s3(1)] s4(1)] 5]
  show ?thesis unfolding e by (simp add: x)
qed

lemma detected_pass: "ids_given uid s \<Longrightarrow> simulates uid s (process_detected parse_int uid clk s)"
  unfolding process_detected_def
  by (rule pass_rows [where a = "''detected''" and b = "''sweeping''"]) (auto simp: detected_row in_states_def rows_status)

lemma sweeping_pass:
  assumes "ids_given uid s"
  shows "simulates uid s (process_sweeping oc clk s)"
  unfolding process_sweeping_def
proof (rule pass_rows [where a = "''sweeping''" and b = "''active''"])
  fix x :: "string \<times> incident \<times> string option" and s assume st: "in_states (life_of s) ''sweeping'' ''active'' (fst x)" and ok: "ids_given uid s"
  let ?t = "on_graph (update_incident_status (secs clk) (fst x) ''active'') s"
  have "simulates uid s ?t" using st by (intro status_step ok) (auto simp: in_states_def intro: life_step.intros)
  moreover have "life_of ?t = (life_of s)(fst x \<mapsto> ''active'')"
    using st by (auto simp: life_of_def on_graph_def life_status in_states_def)
  ultimately show "simulates uid s (process_sweeping_row oc clk x s) \<and> (life_of (process_sweeping_row oc clk x s) = life_of s
      \<or> life_of (process_sweeping_row oc clk x s) = (life_of s)(fst x \<mapsto> ''active''))"
    by (cases x) (simp add: process_sweeping_row_def Let_def simulates_refl ok)
qed (use assms rows_status in \<open>auto simp: in_states_def\<close>)

lemma pull_step:
  assumes "ids_given uid s"
  shows "simulates uid s (pull_side uid now i ip_info pids us sd s) \<and> life_of (pull_side uid now i ip_info pids us sd s) = life_of s"
proof -
  have "simulates uid s (on_db (set_surveillance_pull_state i side t r) s) \<and> life_of (on_db (set_surveillance_pull_state i side t r) s) = life_of s"
    if "ids_given uid s" for s i side t r
    using that by (simp add: simulates_def ids_given_def on_db_def life_of_def set_surveillance_pull_state_def)
  note pull = this
  have "pull_side uid now i ip_info pids us sd s = s \<or> (\<exists>a key ps side. pull_side uid now i ip_info pids us sd s
      = on_db (set_surveillance_pull_state i side (Some now) None) (enqueue uid now a key ''pull_surveillance_logs'' ps s))"
    by (simp add: pull_side_def Let_def case_prod_beta) blast
  then show ?thesis
  proof (elim disjE exE)
    fix a key ps side
    assume e: "pull_side uid now i ip_info pids us sd s
      = on_db (set_surveillance_pull_state i side (Some now) None) (enqueue uid now a key ''pull_surveillance_logs'' ps s)"
    note en = enqueue_step [OF assms, of now a key "''pull_surveillance_logs''" ps]
    note pu = pull [OF simulates_ids [OF conjunct1 [OF en]], of i side "Some now" None]
    show ?thesis unfolding e using simulates_trans [OF conjunct1 [OF en] conjunct1 [OF pu]] en pu by simp
  qed (simp add: simulates_refl assms)
qed

lemma active_pass:
  assumes "ids_given uid s"
  shows "simulates uid s (process_active uid oc clk s)"
  unfolding process_active_def
proof (rule pass_rows [where a = "''active''" and b = "''closed''"])
  fix x :: "string \<times> incident \<times> string option" and s assume st: "in_states (life_of s) ''active'' ''closed'' (fst x)" and ok: "ids_given uid s"
  let ?t = "on_graph (update_incident_status (secs clk) (fst x) ''closed'') s"
  have "simulates uid s ?t" using st by (intro status_step ok) (auto simp: in_states_def intro: life_step.intros)
  moreover have "life_of ?t = (life_of s)(fst x \<mapsto> ''closed'')"
    using st by (auto simp: life_of_def on_graph_def life_status in_states_def)
  moreover have "simulates uid s (fold (pull_side uid now i ii pids us) sides s) \<and> life_of (fold (pull_side uid now i ii pids us) sides s) = life_of s"
    for now i ii pids us sides
    using ok
  proof (induction sides arbitrary: s)
    case (Cons y ys)
    note one = pull_step [OF Cons.prems, of now i ii pids us y]
    from Cons.IH [OF simulates_ids [OF conjunct1 [OF one]]] one show ?case using simulates_trans by fastforce
  qed (simp add: simulates_refl)
  ultimately show "simulates uid s (process_active_row uid oc clk x s) \<and> (life_of (process_active_row uid oc clk x s) = life_of s
      \<or> life_of (process_active_row uid oc clk x s) = (life_of s)(fst x \<mapsto> ''closed''))"
    by (cases x) (simp add: process_active_row_def Let_def del: fold_append)
qed (use assms rows_status in \<open>auto simp: in_states_def\<close>)

lemma orchestrate_step: "ids_given uid s \<Longrightarrow> simulates uid s (orchestrate parse_int uid oc clk s)"
  unfolding orchestrate_def
  by (meson active_pass detected_pass simulates_ids simulates_trans sweeping_pass)

lemma db_step_same:
  assumes "ids_given uid s" "xq_id ` set (sd_queries (f (fl_db s))) \<subseteq> xq_id ` set (sd_queries (fl_db s))"
  shows "simulates uid s (on_db f s)"
  using assms by (intro simulates_same) (simp_all add: on_db_def life_of_def ids_given_def)

lemma queries_keep:
  "sd_queries (snd (validate_registration_key now k db)) = sd_queries db" "sd_queries (set_agent_key a k db) = sd_queries db"
  "sd_queries (set_surveillance_pull_state i side t r db) = sd_queries db"
  by (simp_all add: validate_registration_key_def update_key_def set_agent_key_def set_surveillance_pull_state_def split: option.split)

lemma upsert_queries:
  "sd_queries (snd (upsert_surveillance_logs now i a side rs db)) = sd_queries db"
  "sd_queries (snd (upsert_ocsf_evidence now i a rs db)) = sd_queries db"
proof -
  have "sd_queries (fold f rs db) = sd_queries db" if "\<And>r db. sd_queries (f r db) = sd_queries db" for f
    by (induction rs arbitrary: db) (simp_all add: that)
  from this [of "insert_log now i a side"] this [of "insert_evidence now i a"]
  show "sd_queries (snd (upsert_surveillance_logs now i a side rs db)) = sd_queries db"
    "sd_queries (snd (upsert_ocsf_evidence now i a rs db)) = sd_queries db"
    by (simp_all add: upsert_surveillance_logs_def upsert_ocsf_evidence_def Let_def insert_log_def insert_evidence_def)
qed

lemma answer_queries: "map xq_id (sd_queries (take_answer now r db)) = map xq_id (sd_queries db)"
proof -
  have 1: "sd_queries (ingest_surveillance_logs now a f ls db) = sd_queries db" "sd_queries (ingest_ocsf_evidence now a f ls db) = sd_queries db"
    for a f ls db
    by (simp_all add: ingest_surveillance_logs_def ingest_ocsf_evidence_def Let_def upsert_queries queries_keep split: option.split)
  have 2: "map xq_id (sd_queries (snd (complete_xdr_query now i res db))) = map xq_id (sd_queries db)" for i res
    by (simp add: complete_xdr_query_def comp_def split: option.split)
  show ?thesis
    using 2 [of "fst r" "snd r"] by (auto simp: take_answer_def 1 split: option.splits prod.splits)
qed

lemma answers_queries: "map xq_id (sd_queries (take_answers now as db)) = map xq_id (sd_queries db)"
  by (induction now as db rule: take_answers.induct) (simp_all add: answer_queries)

lemma answers_ids: "xq_id ` set (sd_queries (take_answers now as db)) = xq_id ` set (sd_queries db)"
  using answers_queries [of now as db] by (metis list.set_map)

section \<open>All runs of the server\<close>

text \<open>Whatever agents send and operators do, in any order; \<open>set_db\<close> is an operation of the dashboard on the settings
  database that leaves its queries alone.\<close>

inductive server_step :: "(nat \<Rightarrow> string) \<Rightarrow> fleet_state \<Rightarrow> fleet_state \<Rightarrow> bool" where
  registers: "server_step uid s (snd (RegisterAgent clk peer info k s))"
| findings: "server_step uid s (snd (SendFindings parse_int uid clk a fs s))"
| events: "server_step uid s (snd (SendEvents a es s))"
| beats: "server_step uid s (snd (Heartbeat dumps digest hexdigest clk hb s))"
| orchestrates: "server_step uid s (orchestrate parse_int uid oc clk s)"
| closes: "server_step uid s (close_incident clk i s)"
| views: "server_step uid s (snd (get_lateral_movement_detail parse_int uid clk f s))"
| assessed: "server_step uid s (on_graph (store_incident_diamond_assessment now i js) s)"
| set_db: "db_step (fl_db s) db' \<Longrightarrow> sd_queries db' = sd_queries (fl_db s) \<Longrightarrow> server_step uid s (s\<lparr>fl_db := db'\<rparr>)"

definition start_server :: "settings_db \<Rightarrow> fleet_state" where
  "start_server db = \<lparr>fl_graph = empty_fleet, fl_db = db, fl_uuids = 0\<rparr>"

inductive server_reach :: "(nat \<Rightarrow> string) \<Rightarrow> fleet_state \<Rightarrow> bool" where
  started: "server_reach uid (start_server (new_settings_db now doc))"
| ran: "server_reach uid s \<Longrightarrow> server_step uid s s' \<Longrightarrow> server_reach uid s'"

lemma register_step:
  assumes "ids_given uid s"
  shows "simulates uid s (snd (RegisterAgent clk peer info k s))"
proof -
  have "sd_queries (snd (admit now a k db)) = sd_queries db" for now a db by (simp add: admit_def queries_keep)
  then have e: "fg_incidents (fl_graph (snd (RegisterAgent clk peer info k s))) = fg_incidents (fl_graph s)"
    "sd_queries (fl_db (snd (RegisterAgent clk peer info k s))) = sd_queries (fl_db s)" "fl_uuids (snd (RegisterAgent clk peer info k s)) = fl_uuids s"
    by (auto simp: RegisterAgent_def Let_def on_db_def on_graph_def register_same queries_keep case_prod_beta)
  with assms show ?thesis
    by (intro simulates_same) (simp_all add: life_of_def life_same [OF e(1)] e ids_given_def)
qed

lemma beat_step:
  assumes "ids_given uid s"
  shows "simulates uid s (snd (Heartbeat dumps digest hexdigest clk hb s))"
proof -
  have e: "fg_incidents (fl_graph (snd (Heartbeat dumps digest hexdigest clk hb s))) = fg_incidents (fl_graph s)"
    "xq_id ` set (sd_queries (fl_db (snd (Heartbeat dumps digest hexdigest clk hb s)))) = xq_id ` set (sd_queries (fl_db s))"
    "fl_uuids (snd (Heartbeat dumps digest hexdigest clk hb s)) = fl_uuids s"
    by (simp_all add: Heartbeat_def Let_def on_db_def on_graph_def heartbeat_same answers_ids split: option.split)
  with assms show ?thesis
    by (intro simulates_same) (simp_all add: life_of_def life_same [OF e(1)] e ids_given_def)
qed

lemma persist_same [same_incidents]: "fg_incidents (persist_incident_chains i src dst g) = fg_incidents g"
  unfolding persist_incident_chains_def
  by (subst fold_same_incidents, simp add: persist_target_step_def persist_node_def Let_def)
    (rule fold_same_incidents, simp add: persist_source_step_def persist_node_def Let_def)

lemma target_step:
  assumes "ids_given uid s"
  shows "simulates uid s (snd (stitch_target parse_int uid clk f t addrs d s))"
proof -
  have "simulates uid s (snd (fall_back f b addrs d s))" for b
    using assms by (auto simp: fall_back_def same_incidents intro: simulates_refl same_step split: option.split prod.split)
  then show ?thesis
    using assms enqueue_step [OF assms] by (auto simp: stitch_target_def Let_def intro: simulates_refl split: option.split prod.split)
qed

lemma source_step:
  assumes "ids_given uid s"
  shows "simulates uid s (snd (stitch_source parse_int uid clk f d s))"
  using assms enqueue_step [OF assms] by (auto simp: stitch_source_def intro: simulates_refl split: option.split prod.split)

lemma view_step:
  assumes "ids_given uid s"
  shows "simulates uid s (snd (get_lateral_movement_detail parse_int uid clk f s))"
proof -
  have "simulates uid s (snd (case stitch_target parse_int uid clk f t addrs d s of (d, s) \<Rightarrow>
      case stitch_source parse_int uid clk f d s of (d, s) \<Rightarrow> (Some d, s)))" for t addrs d
    using target_step [OF assms, of parse_int clk f t addrs d]
    by (auto simp: split_beta intro: simulates_trans source_step simulates_ids)
  then show ?thesis
    using assms by (auto simp: get_lateral_movement_detail_def Let_def intro: simulates_refl split: option.split)
qed

lemma server_step_simulates: "server_step uid s s' \<Longrightarrow> inj uid \<Longrightarrow> ids_given uid s \<Longrightarrow> simulates uid s s'"
proof (induction rule: server_step.induct)
  case (closes uid s clk i)
  have "simulates uid s (close_incident clk i s)" if "life_of s i = None"
    using closes(2) that by (auto simp: close_incident_def life_of_def life_status on_graph_def wf_status intro!: graph_step [unfolded on_graph_def])
  moreover have "simulates uid s (close_incident clk i s)" if "life_of s i \<noteq> None"
    unfolding close_incident_def using closes(2) that by (intro status_step) (auto intro: life_step.closed)
  ultimately show ?case by blast
next
  case (events uid s a es)
  have "simulates uid s (on_graph (\<lambda>g. snd (ingest_events a es g)) s)" by (rule same_step) (simp_all add: events same_incidents)
  then show ?case by (simp add: SendEvents_def on_graph_def case_prod_beta)
next
  case (assessed uid s now i js)
  then show ?case by (intro graph_step) (simp_all add: store_incident_diamond_assessment_def life_update wf_update)
next
  case (set_db s db' uid)
  then show ?case by (intro simulates_same) (simp_all add: life_of_def ids_given_def)
qed (simp_all add: register_step findings_step beat_step orchestrate_step view_step)

lemma reach_ids: "server_reach uid s \<Longrightarrow> inj uid \<Longrightarrow> ids_given uid s"
proof (induction rule: server_reach.induct)
  case (started uid now doc)
  have "sd_queries (new_settings_db now doc) = []"
    unfolding new_settings_db_def seed_defaults_def
    by (rule fold_invariant [where I = "\<lambda>d. sd_queries d = []"]) (auto simp: empty_db_def)
  then show ?case by (simp add: ids_given_def start_server_def empty_fleet_def)
next
  case (ran uid s s')
  then show ?case using server_step_simulates simulates_ids by blast
qed


section \<open>How long an incident stays open\<close>

definition known_states :: "(string \<Rightarrow> string option) \<Rightarrow> bool" where
  "known_states m \<longleftrightarrow> (\<forall>i. m i \<in> {None, Some ''detected'', Some ''sweeping'', Some ''active'', Some ''closed''})"

lemma life_steps_known: "life_step\<^sup>*\<^sup>* m m' \<Longrightarrow> known_states m \<Longrightarrow> known_states m'"
proof (induction rule: rtranclp_induct)
  case (step m' m'')
  have "known_states (m'(i \<mapsto> st))" if "known_states m'" "st \<in> {''detected'', ''sweeping'', ''active'', ''closed''}" for i st
    using that by (auto simp: known_states_def)
  with step show ?case by (auto elim!: life_step.cases)
qed simp

lemma reach_known: "server_reach uid s \<Longrightarrow> inj uid \<Longrightarrow> known_states (life_of s)"
proof (induction rule: server_reach.induct)
  case (started uid now doc)
  then show ?case by (simp add: known_states_def life_of_def life_def start_server_def empty_fleet_def)
next
  case (ran uid s s')
  then show ?case
    using life_steps_known server_step_simulates reach_ids unfolding simulates_def by blast
qed

definition set_status :: "int \<Rightarrow> string \<Rightarrow> incident \<Rightarrow> incident" where
  "set_status now st n = n\<lparr>in_status := st, in_updated_at := now\<rparr>"

definition incident_of :: "fleet_state \<Rightarrow> string \<Rightarrow> incident option" where
  "incident_of s i = d_get (fg_incidents (fl_graph s)) i"

text \<open>A pass that sets a status for the rows of one incident, or for none of them.\<close>

lemma pass_incident:
  assumes step: "\<And>x s. x \<in> set rows \<Longrightarrow>
      fl_graph (f x s) = (if C x s then update_incident_status now (fst x) st (fl_graph s) else fl_graph s)"
    and all: "\<And>x s. x \<in> set rows \<Longrightarrow> fst x = i \<Longrightarrow> C x s = c"
  shows "incident_of (fold f rows s) i = (if c \<and> i \<in> fst ` set rows then map_option (set_status now st) (incident_of s i) else incident_of s i)"
  using assms
proof (induction rows arbitrary: s)
  case (Cons x xs)
  have idem: "set_status now st (set_status now st n) = set_status now st n" for n by (simp add: set_status_def)
  have one: "incident_of (f x s) i = (if c \<and> i = fst x then map_option (set_status now st) (incident_of s i) else incident_of s i)"
    using Cons.prems by (auto simp: incident_of_def update_incident_status_def get_update set_status_def [abs_def])
  have "incident_of (fold f xs (f x s)) i
      = (if c \<and> i \<in> fst ` set xs then map_option (set_status now st) (incident_of (f x s) i) else incident_of (f x s) i)"
    by (rule Cons.IH) (use Cons.prems in auto)
  with one show ?case by (auto simp: option.map_comp comp_def idem)
qed simp

lemma row_in: "x \<in> set (get_incidents_by_status st g) \<Longrightarrow> (fst x, fst (snd x)) \<in> set (fg_incidents g) \<and> in_status (fst (snd x)) = st"
  by (auto simp: get_incidents_by_status_def Let_def)

lemma in_row: "(i, n) \<in> set (fg_incidents g) \<Longrightarrow> in_status n = st \<Longrightarrow> \<exists>f. (i, n, f) \<in> set (get_incidents_by_status st g)"
proof -
  assume n: "(i, n) \<in> set (fg_incidents g)" "in_status n = st"
  obtain f where "f \<in> set (if related (fg_source_finding g) i = [] then [None] else map Some (related (fg_source_finding g) i))"
    by (cases "related (fg_source_finding g) i") auto
  with n have "(i, n, f) \<in> set (get_incidents_by_status st g)"
    unfolding get_incidents_by_status_def Let_def set_sort set_concat set_map
    by (intro UN_I [where a = "map (\<lambda>f. (i, n, f)) (if related (fg_source_finding g) i = [] then [None] else map Some (related (fg_source_finding g) i))"]) force+
  then show ?thesis by blast
qed

lemma rows_of:
  assumes "d_wf (fg_incidents (fl_graph s))"
  shows "i \<in> fst ` set (get_incidents_by_status st (fl_graph s)) \<longleftrightarrow> (\<exists>n. incident_of s i = Some n \<and> in_status n = st)"
    and "x \<in> set (get_incidents_by_status st (fl_graph s)) \<Longrightarrow> fst x = i \<Longrightarrow> incident_of s i = Some (fst (snd x))"
proof -
  have e: "(j, n) \<in> set (fg_incidents (fl_graph s)) \<longleftrightarrow> incident_of s j = Some n" for j n
    using assms by (simp add: incident_of_def wf_in)
  show "i \<in> fst ` set (get_incidents_by_status st (fl_graph s)) \<longleftrightarrow> (\<exists>n. incident_of s i = Some n \<and> in_status n = st)"
  proof
    assume "i \<in> fst ` set (get_incidents_by_status st (fl_graph s))"
    then obtain x where "x \<in> set (get_incidents_by_status st (fl_graph s))" "i = fst x" by blast
    with row_in [of x st "fl_graph s"] e show "\<exists>n. incident_of s i = Some n \<and> in_status n = st" by blast
  next
    assume "\<exists>n. incident_of s i = Some n \<and> in_status n = st"
    then obtain n f where "(i, n, f) \<in> set (get_incidents_by_status st (fl_graph s))" using e in_row by blast
    then show "i \<in> fst ` set (get_incidents_by_status st (fl_graph s))" by force
  qed
  show "x \<in> set (get_incidents_by_status st (fl_graph s)) \<Longrightarrow> fst x = i \<Longrightarrow> incident_of s i = Some (fst (snd x))"
    using row_in [of x st "fl_graph s"] e by blast
qed

lemma graph_enqueue [simp]: "fl_graph (enqueue uid now a f ty ps s) = fl_graph s"
  by (simp add: enqueue_def on_db_def)

lemma graph_pull: "fl_graph (fold (pull_side uid now i ii pids us) sides s) = fl_graph s"
proof -
  have "fl_graph (pull_side uid now i ii pids us sd s) = fl_graph s" for sd s
    by (simp add: pull_side_def Let_def on_db_def case_prod_beta)
  then show ?thesis by (induction sides arbitrary: s) simp_all
qed

lemma detected_row_graph:
  "fl_graph (process_detected_row parse_int uid clk x s) = update_incident_status (secs clk) (fst x) ''sweeping'' (fl_graph s)"
  by (cases x) (simp add: process_detected_row_def Let_def on_graph_def)

lemma detected_incident:
  assumes "d_wf (fg_incidents (fl_graph s))"
  shows "incident_of (process_detected parse_int uid clk s) i = (case incident_of s i of None \<Rightarrow> None
     | Some n \<Rightarrow> Some (if in_status n = ''detected'' then set_status (secs clk) ''sweeping'' n else n))"
proof -
  have "incident_of (process_detected parse_int uid clk s) i
      = (if True \<and> i \<in> fst ` set (get_incidents_by_status ''detected'' (fl_graph s))
         then map_option (set_status (secs clk) ''sweeping'') (incident_of s i) else incident_of s i)"
    unfolding process_detected_def by (intro pass_incident [where C = "\<lambda>_ _. True"]) (simp_all add: detected_row_graph)
  then show ?thesis by (auto simp: rows_of(1) [OF assms] split: option.split)
qed

lemma sweeping_incident:
  assumes "d_wf (fg_incidents (fl_graph s))" "incident_of s i = Some n"
    "in_status n = ''sweeping'' \<Longrightarrow> clk - in_created_at n * 1000000 > oc_query_timeout oc * 1000000"
  shows "incident_of (process_sweeping oc clk s) i = Some (if in_status n = ''sweeping'' then set_status (secs clk) ''active'' n else n)"
proof -
  let ?rows = "get_incidents_by_status ''sweeping'' (fl_graph s)"
  let ?C = "\<lambda>x s. query_done (fst x @ '':victim'') ''lateral_victim_trace'' (fl_db s) \<and> query_done (fst x @ '':source'') ''lateral_source_trace'' (fl_db s)
    \<or> clk - in_created_at (fst (snd x)) * 1000000 > oc_query_timeout oc * 1000000"
  have g: "fl_graph (process_sweeping_row oc clk x s) = (if ?C x s then update_incident_status (secs clk) (fst x) ''active'' (fl_graph s) else fl_graph s)" for x s
    by (cases x) (simp add: process_sweeping_row_def Let_def on_graph_def)
  have c: "?C x t = True" if x: "x \<in> set ?rows" "fst x = i" for x and t :: fleet_state
  proof -
    from x have "in_status n = ''sweeping''" using rows_of(1) [OF assms(1), of i "''sweeping''"] assms(2) by force
    with assms(3) rows_of(2) [OF assms(1) x] assms(2) show ?thesis by simp
  qed
  have "incident_of (process_sweeping oc clk s) i
      = (if True \<and> i \<in> fst ` set ?rows then map_option (set_status (secs clk) ''active'') (incident_of s i) else incident_of s i)"
    unfolding process_sweeping_def by (rule pass_incident [where C = ?C]) (rule g, rule c)
  then show ?thesis by (simp add: rows_of(1) [OF assms(1)] assms(2))
qed

definition inactive :: "orchestrator \<Rightarrow> datetime \<Rightarrow> incident \<Rightarrow> bool" where
  "inactive oc clk n \<longleftrightarrow> clk - in_updated_at n * 1000000 > oc_auto_close_hours oc * 3600 * 1000000"

lemma active_incident:
  assumes "d_wf (fg_incidents (fl_graph s))" "incident_of s i = Some n"
  shows "incident_of (process_active uid oc clk s) i = Some (if in_status n = ''active'' \<and> inactive oc clk n then set_status (secs clk) ''closed'' n else n)"
proof -
  let ?rows = "get_incidents_by_status ''active'' (fl_graph s)"
  let ?C = "\<lambda>x s. inactive oc clk (fst (snd x))"
  have g: "fl_graph (process_active_row uid oc clk x s) = (if ?C x s then update_incident_status (secs clk) (fst x) ''closed'' (fl_graph s) else fl_graph s)" for x s
    by (cases x) (simp add: process_active_row_def Let_def on_graph_def inactive_def graph_pull del: fold_append)
  have c: "?C x t = inactive oc clk n" if x: "x \<in> set ?rows" "fst x = i" for x and t :: fleet_state
    using rows_of(2) [OF assms(1) x] assms(2) by simp
  have "incident_of (process_active uid oc clk s) i
      = (if inactive oc clk n \<and> i \<in> fst ` set ?rows then map_option (set_status (secs clk) ''closed'') (incident_of s i) else incident_of s i)"
    unfolding process_active_def by (rule pass_incident [where C = ?C]) (rule g, rule c)
  then show ?thesis by (simp add: rows_of(1) [OF assms(1)] assms(2))
qed

lemma secs_le: "secs clk * 1000000 \<le> clk"
  by (simp add: secs_def)

definition round_of :: "orchestrator \<Rightarrow> datetime \<Rightarrow> incident \<Rightarrow> incident" where
  "round_of oc clk n = (let n = (if in_status n = ''detected'' then set_status (secs clk) ''sweeping'' n else n);
     n = (if in_status n = ''sweeping'' then set_status (secs clk) ''active'' n else n)
     in if in_status n = ''active'' \<and> inactive oc clk n then set_status (secs clk) ''closed'' n else n)"

text \<open>What a round does to an incident whose queries have timed out.\<close>

lemma orchestrate_incident:
  assumes "ids_given uid s" "incident_of s i = Some n"
    "in_status n \<in> {''detected'', ''sweeping''} \<Longrightarrow> clk - in_created_at n * 1000000 > oc_query_timeout oc * 1000000"
  shows "incident_of (orchestrate parse_int uid oc clk s) i = Some (round_of oc clk n)"
proof -
  let ?s1 = "process_detected parse_int uid clk s" let ?s2 = "process_sweeping oc clk ?s1"
  have ok1: "ids_given uid ?s1" by (rule simulates_ids [OF detected_pass [OF assms(1)]])
  have ok2: "ids_given uid ?s2" by (rule simulates_ids [OF sweeping_pass [OF ok1]])
  have wf: "d_wf (fg_incidents (fl_graph s))" "d_wf (fg_incidents (fl_graph ?s1))" "d_wf (fg_incidents (fl_graph ?s2))"
    using assms(1) ok1 ok2 by (simp_all add: ids_given_def)
  let ?n1 = "if in_status n = ''detected'' then set_status (secs clk) ''sweeping'' n else n"
  have 1: "incident_of ?s1 i = Some ?n1" by (simp add: detected_incident [OF wf(1)] assms(2))
  have t: "in_status ?n1 = ''sweeping'' \<Longrightarrow> clk - in_created_at ?n1 * 1000000 > oc_query_timeout oc * 1000000"
    using assms(3) by (simp add: set_status_def split: if_splits)
  from sweeping_incident [OF wf(2) 1 t]
  have "incident_of ?s2 i = Some (if in_status ?n1 = ''sweeping'' then set_status (secs clk) ''active'' ?n1 else ?n1)" .
  from active_incident [OF wf(3) this] show ?thesis by (simp only: orchestrate_def round_of_def Let_def)
qed

text \<open>C17. However the agents behave, an incident is closed when nothing happens to it: a round after the time for its queries makes it
  active, and a round after the time to live closes it.\<close>

theorem incident_closes_in_time:
  assumes "server_reach uid s" "inj uid" "incident_of s i = Some n" "in_updated_at n * 1000000 \<le> clk1" "0 \<le> oc_auto_close_hours oc"
    "clk1 - in_created_at n * 1000000 > oc_query_timeout oc * 1000000" "clk2 - clk1 > oc_auto_close_hours oc * 3600 * 1000000"
  shows "life_of (orchestrate parse_int uid oc clk2 (orchestrate parse_int uid oc clk1 s)) i = Some ''closed''"
proof -
  let ?s1 = "orchestrate parse_int uid oc clk1 s" and ?n1 = "round_of oc clk1 n"
  have ok: "ids_given uid s" by (rule reach_ids [OF assms(1,2)])
  have ok1: "ids_given uid ?s1" by (rule simulates_ids [OF orchestrate_step [OF ok]])
  have 1: "incident_of ?s1 i = Some ?n1" by (rule orchestrate_incident [OF ok assms(3,6)])
  have known: "in_status n \<in> {''detected'', ''sweeping'', ''active'', ''closed''}"
    using reach_known [OF assms(1,2)] assms(3) by (auto simp: known_states_def life_of_def life_def incident_of_def dest!: spec [of _ i])
  have st: "in_status ?n1 \<in> {''active'', ''closed''}" and up: "in_updated_at ?n1 * 1000000 \<le> clk1"
    using known assms(4) secs_le [of clk1] by (auto simp: round_of_def Let_def set_status_def)
  have "incident_of (orchestrate parse_int uid oc clk2 ?s1) i = Some (round_of oc clk2 ?n1)"
    by (rule orchestrate_incident [OF ok1 1]) (use st in auto)
  moreover have "in_status (round_of oc clk2 ?n1) = ''closed''"
    using st up assms(7) by (auto simp: round_of_def [of _ clk2] Let_def set_status_def inactive_def)
  ultimately show ?thesis by (simp add: life_of_def life_def incident_of_def)
qed

section \<open>A run\<close>

text \<open>An agent becomes known by an event and reports how a user became root.\<close>

definition user_wire_step :: "string \<Rightarrow> wire_step" where
  "user_wire_step u = \<lparr>ws_entity_type = ''user'', ws_entity_id = u, ws_entity_name = u, ws_pid = 0, ws_timestamp = 0\<rparr>"

definition escalation_finding :: wire_finding where
  "escalation_finding = \<lparr>wf_id = ''f1'', wf_timestamp = 5, wf_severity = ''high'', wf_title = [], wf_description = [], wf_affected_entities = [],
     wf_evidence_event_ids = [], wf_recommendation = [], wf_chain = [user_wire_step ''www'', user_wire_step ''root''], wf_affected_pids = [],
     wf_iocs = []\<rparr>"

definition dns_lookup :: ocsf_event where
  "dns_lookup = DnsActivity \<lparr>da_activity_id = 1, da_severity_id = 1, da_time = 5, da_process = None, da_query_domain = ''example.com'',
     da_resolved_ips = [], da_device = ''web'', da_metadata = \<lparr>md_original_time = None, md_log_source = []\<rparr>\<rparr>"

definition run_ids :: "nat \<Rightarrow> string" where
  "run_ids n = replicate n CHR ''x''"

definition escalated_server :: fleet_state where
  "escalated_server = snd (SendFindings (\<lambda>_. None) run_ids 7000000 ''a1'' [escalation_finding]
     (snd (SendEvents ''a1'' [dns_lookup] (start_server (new_settings_db 0 None)))))"

definition patient :: orchestrator where
  "patient = \<lparr>oc_query_timeout = 300, oc_auto_close_hours = 24\<rparr>"

lemma run_ids_inj: "inj run_ids"
  by (rule injI) (metis length_replicate run_ids_def)

lemma escalated_reach: "server_reach run_ids escalated_server"
  unfolding escalated_server_def by (rule server_reach.intros server_step.intros)+

definition open_incident :: incident where
  "open_incident = \<lparr>in_type = ''vertical_movement'', in_status = ''detected'', in_src_agent = ''a1'', in_dst_agent = ''a1'', in_pivot_ip = [],
     in_dst_port = None, in_created_at = 7, in_updated_at = 7, in_diamond = None\<rparr>"

lemma escalated_incident: "incident_of escalated_server [] = Some open_incident"
  by code_simp


theorem incident_closes_in_time_witness:
  "life_of (orchestrate (\<lambda>_. None) run_ids patient 90000000000 (orchestrate (\<lambda>_. None) run_ids patient 400000000 escalated_server)) []
     = Some ''closed''"
  by (rule incident_closes_in_time [OF escalated_reach run_ids_inj escalated_incident]) (simp_all add: patient_def open_incident_def)

end
