(* ===== verification/FleetTraces.thy ===== *)
theory FleetTraces
  imports FleetChains GraphStore
begin

text \<open>
  The traces an agent answers with (\<open>agent/graph/federated_queries.py\<close>): the processes connected with an address, from
  the graph database or, when it has none, from the forensic ledger and the processes of the system.  The
  parameter \<open>os\<close> is what \<open>psutil\<close> knows of a process, \<open>order\<close> the order in which Python lists a set.
\<close>

section \<open>From the graph\<close>

definition users_of_process :: "graph \<Rightarrow> string \<Rightarrow> string option list" where
  "users_of_process g p =
     (let us = List.map_filter (\<lambda>r. if rl_type r = ''SPAWNED'' \<and> rl_to r = p then map_option un_name (d_get (gd_users g) (rl_from r)) else None) (gd_rels g)
      in if us = [] then [None] else us)"

definition graph_record :: "process_node \<Rightarrow> string \<Rightarrow> rel \<Rightarrow> string option \<Rightarrow> trace_record" where
  "graph_record p addr r u = \<lparr>xr_process_name = Some (pn_name p), xr_pid = Some (pn_pid p), xr_cmd_line = pn_cmd_line p, xr_from_ip = Some addr,
     xr_dst_port = rl_dst_port r, xr_timestamp = Some (DateText (rl_timestamp r)), xr_username = u\<rparr>"

definition connected_to :: "string \<Rightarrow> int option \<Rightarrow> graph \<Rightarrow> string \<Rightarrow> rel \<Rightarrow> bool" where
  "connected_to dir port g addr r \<longleftrightarrow> rl_type r = ''CONNECTED_TO'' \<and> rl_direction r = Some dir \<and> (port = None \<or> rl_dst_port r = port)
     \<and> (case d_get (gd_ips g) (rl_to r) of None \<Rightarrow> False | Some n \<Rightarrow> ipn_address n = addr)"

definition connection_rows :: "string \<Rightarrow> int option \<Rightarrow> graph \<Rightarrow> string \<Rightarrow> rel \<Rightarrow> (datetime \<times> trace_record) list" where
  "connection_rows dir port g addr r =
     (if connected_to dir port g addr r
      then case d_get (gd_processes g) (rl_from r) of None \<Rightarrow> []
        | Some p \<Rightarrow> map (\<lambda>u. (rl_timestamp r, graph_record p addr r u)) (users_of_process g (rl_from r))
      else [])"

definition graph_trace :: "string \<Rightarrow> int option \<Rightarrow> graph \<Rightarrow> string \<Rightarrow> trace_record list" where
  "graph_trace dir port g addr = map snd (take 5 (by_newest fst (concat (map (connection_rows dir port g addr) (gd_rels g)))))"

section \<open>From the ledger\<close>

record os_process =
  op_name :: string
  op_cmdline :: "string list option"
  op_create_time :: datetime
  op_username :: string
  op_children :: "int list"

text \<open>One level of \<open>_resolve_children_from_os\<close>: the processes seen, those found and the next frontier.\<close>

fun see_children :: "int list \<Rightarrow> int set \<times> int list \<times> int list \<Rightarrow> int set \<times> int list \<times> int list" where
  "see_children [] st = st"
| "see_children (c # cs) (seen, res, next) =
     (if c \<in> seen then see_children cs (seen, res, next) else see_children cs (insert c seen, res @ [c], next @ [c]))"

definition os_children :: "(int \<Rightarrow> os_process option) \<Rightarrow> int \<Rightarrow> int list" where
  "os_children os p = (case os p of None \<Rightarrow> [] | Some x \<Rightarrow> op_children x)"

fun walk_os :: "nat \<Rightarrow> (int \<Rightarrow> int list) \<Rightarrow> int set \<times> int list \<times> int list \<Rightarrow> int list" where
  "walk_os 0 children (seen, res, frontier) = res"
| "walk_os (Suc d) children (seen, res, frontier) =
     (case fold (\<lambda>p st. see_children (children p) st) frontier (seen, res, []) of (seen', res', next) \<Rightarrow>
        if next = [] then res' else walk_os d children (seen', res', next))"

definition resolve_children_from_os :: "(int \<Rightarrow> os_process option) \<Rightarrow> int list \<Rightarrow> int list" where
  "resolve_children_from_os os anchors = walk_os 3 (os_children os) (set anchors, [], anchors)"

definition first_words :: "nat \<Rightarrow> string list \<Rightarrow> string" where
  "first_words n ws = join_with '' '' (take n ws)"

definition read_proc_info :: "(int \<Rightarrow> os_process option) \<Rightarrow> int \<Rightarrow> trace_record option" where
  "read_proc_info os p = (case os p of None \<Rightarrow> None | Some x \<Rightarrow> map_option (\<lambda>ws.
     \<lparr>xr_process_name = Some (op_name x), xr_pid = Some p, xr_cmd_line = Some (first_words 3 ws), xr_from_ip = Some [], xr_dst_port = None,
      xr_timestamp = Some (Epoch (op_create_time x)), xr_username = Some (op_username x)\<rparr>) (op_cmdline x))"

definition live_cmd_line :: "(int \<Rightarrow> os_process option) \<Rightarrow> int \<Rightarrow> string" where
  "live_cmd_line os p = (case os p of None \<Rightarrow> [] | Some x \<Rightarrow> (case op_cmdline x of None \<Rightarrow> [] | Some ws \<Rightarrow> first_words 4 ws))"

text \<open>When the process lives, its start; otherwise the time of the row.\<close>

definition start_or :: "(int \<Rightarrow> os_process option) \<Rightarrow> int \<Rightarrow> datetime \<Rightarrow> datetime" where
  "start_or os p t = (case os p of None \<Rightarrow> t | Some x \<Rightarrow> if op_cmdline x = None then t else op_create_time x)"

definition epoch :: "datetime \<Rightarrow> trace_time option" where
  "epoch t = (if t = 0 then None else Some (Epoch t))"

definition text_or :: "string option \<Rightarrow> string \<Rightarrow> string option" where
  "text_or s d = Some (case s of None \<Rightarrow> d | Some x \<Rightarrow> if x = [] then d else x)"

definition ledger_record_of :: "ledger_row \<Rightarrow> string \<Rightarrow> string \<Rightarrow> datetime \<Rightarrow> trace_record" where
  "ledger_record_of r cmd addr t = \<lparr>xr_process_name = lr_process_name r, xr_pid = lr_pid r, xr_cmd_line = Some cmd,
     xr_from_ip = text_or (lr_remote_ip r) addr, xr_dst_port = lr_remote_port r, xr_timestamp = epoch t, xr_username = lr_username r\<rparr>"

text \<open>The earliest row that matches: \<open>MIN(ts)\<close> takes the other columns from that row.\<close>

definition earliest_row :: "(ledger_row \<Rightarrow> bool) \<Rightarrow> ledger_row recorder \<Rightarrow> ledger_row option" where
  "earliest_row P s = (case sort_key lr_ts (filter P (map snd (rc_rows s))) of [] \<Rightarrow> None | r # _ \<Rightarrow> Some r)"

definition in_window :: "datetime option \<Rightarrow> datetime \<Rightarrow> bool" where
  "in_window finding_ts t = (case finding_ts of None \<Rightarrow> True | Some f \<Rightarrow> f = 0 \<or> f - 86400000000 \<le> t \<and> t \<le> f)"

definition connected_row :: "datetime option \<Rightarrow> string \<Rightarrow> ledger_row \<Rightarrow> bool" where
  "connected_row finding_ts addr r \<longleftrightarrow> lr_remote_ip r = Some addr \<and> lr_event_type r = ''NetworkActivity'' \<and> lr_pid r \<noteq> None
     \<and> in_window finding_ts (lr_ts r)"

definition anchor_rows :: "datetime option \<Rightarrow> ledger_row recorder \<Rightarrow> string list \<Rightarrow> (string \<times> ledger_row) list" where
  "anchor_rows finding_ts s addrs = List.map_filter (\<lambda>a. map_option (Pair a) (earliest_row (connected_row finding_ts a) s)) addrs"

definition anchor_record :: "(int \<Rightarrow> os_process option) \<Rightarrow> string \<times> ledger_row \<Rightarrow> trace_record" where
  "anchor_record os x = (let (a, r) = x; p = the (lr_pid r) in ledger_record_of r (live_cmd_line os p) a (start_or os p (lr_ts r)))"

definition descendant_record :: "(int \<Rightarrow> os_process option) \<Rightarrow> ledger_row recorder \<Rightarrow> int \<Rightarrow> trace_record option" where
  "descendant_record os s p = (case earliest_row (\<lambda>r. lr_pid r = Some p \<and> lr_event_type r = ''ProcessActivity'') s of
     Some r \<Rightarrow> Some (ledger_record_of r (live_cmd_line os p) [] (lr_ts r)) | None \<Rightarrow> read_proc_info os p)"

definition trace_descendants :: "(int set \<Rightarrow> int list) \<Rightarrow> pid_index \<Rightarrow> (int \<Rightarrow> os_process option) \<Rightarrow> int set \<Rightarrow> int list" where
  "trace_descendants order ix os anchors =
     (let ds = filter (\<lambda>p. p \<notin> anchors) (resolve_descendant_pids order ix (order anchors))
      in if ds = [] then resolve_children_from_os os (order anchors) else ds)"

definition latest_rows :: "ledger_row recorder \<Rightarrow> string \<Rightarrow> trace_record list" where
  "latest_rows s a = map (\<lambda>(_, r). ledger_record_of r [] a (lr_ts r)) (select_newest lr_ts (\<lambda>r. lr_remote_ip r = Some a) 5 s)"

definition ledger_trace_records :: "(int set \<Rightarrow> int list) \<Rightarrow> pid_index \<Rightarrow> (int \<Rightarrow> os_process option) \<Rightarrow> datetime option \<Rightarrow> string list
    \<Rightarrow> ledger_row recorder \<Rightarrow> trace_record list" where
  "ledger_trace_records order ix os finding_ts addrs s =
     (let rows = anchor_rows finding_ts s addrs; anchors = set (map (\<lambda>(_, r). the (lr_pid r)) rows);
          rs = map (anchor_record os) rows
            @ (if rows = [] then [] else List.map_filter (descendant_record os s) (take 20 (trace_descendants order ix os anchors)))
      in if rs = [] then concat (map (latest_rows s) addrs) else rs)"

text \<open>The direction and the port that the callers pass are not used.\<close>

definition trace_from_ledger :: "(int set \<Rightarrow> int list) \<Rightarrow> pid_index \<Rightarrow> (int \<Rightarrow> os_process option) \<Rightarrow> ledger_row recorder option \<Rightarrow> string list
    \<Rightarrow> string \<Rightarrow> int option \<Rightarrow> datetime option \<Rightarrow> trace_record list" where
  "trace_from_ledger order ix os ledger addrs direction target_port finding_ts = (case ledger of None \<Rightarrow> []
     | Some s \<Rightarrow> take 15 (by_newest (\<lambda>r. epoch_of (xr_timestamp r)) (ledger_trace_records order ix os finding_ts addrs s)))"

section \<open>The two traces\<close>

text \<open>The graph is \<open>None\<close> when it cannot be asked.\<close>

definition lateral_victim_trace :: "(int set \<Rightarrow> int list) \<Rightarrow> pid_index \<Rightarrow> (int \<Rightarrow> os_process option) \<Rightarrow> graph option \<Rightarrow> ledger_row recorder option
    \<Rightarrow> string list \<Rightarrow> int option \<Rightarrow> datetime option \<Rightarrow> trace_record list" where
  "lateral_victim_trace order ix os g ledger victim_ips target_port finding_ts =
     (let rs = (case g of None \<Rightarrow> [] | Some g \<Rightarrow> concat (map (graph_trace ''inbound'' target_port g) victim_ips))
      in if rs \<noteq> [] then rs else trace_from_ledger order ix os ledger victim_ips ''inbound'' target_port finding_ts)"

definition lateral_source_trace :: "(int set \<Rightarrow> int list) \<Rightarrow> pid_index \<Rightarrow> (int \<Rightarrow> os_process option) \<Rightarrow> graph option \<Rightarrow> ledger_row recorder option
    \<Rightarrow> string list \<Rightarrow> int option \<Rightarrow> trace_record list" where
  "lateral_source_trace order ix os g ledger dst_ips target_port =
     (let rs = (case g of None \<Rightarrow> [] | Some g \<Rightarrow> concat (map (graph_trace ''outbound'' target_port g) dst_ips))
      in if rs \<noteq> [] then rs else trace_from_ledger order ix os ledger dst_ips ''outbound'' target_port None)"

section \<open>What a trace leaves out\<close>

lemma newest_drops:
  assumes "n \<le> length (filter (\<lambda>y. f x < f y) xs)"
  shows "x \<notin> set (take n (by_newest f xs))"
proof
  let ?ys = "by_newest f xs"
  assume "x \<in> set (take n ?ys)"
  then obtain i where i: "i < n" "i < length ?ys" "?ys ! i = x" by (auto simp: in_set_conv_nth)
  have s: "sorted (map (\<lambda>y. - f y) ?ys)" by (simp add: by_newest_def)
  have "\<not> f x < f y" if y: "y \<in> set (drop i ?ys)" for y
  proof -
    from y obtain j where j: "i + j < length ?ys" "?ys ! (i + j) = y" by (auto simp: in_set_conv_nth less_diff_conv add.commute [of _ i])
    with sorted_nth_mono [OF s, of i "i + j"] i show ?thesis by simp
  qed
  then have "filter (\<lambda>y. f x < f y) ?ys = filter (\<lambda>y. f x < f y) (take i ?ys)"
    by (subst append_take_drop_id [of i ?ys, symmetric]) (simp del: append_take_drop_id add: filter_empty_conv)
  then have "length (filter (\<lambda>y. f x < f y) ?ys) \<le> i" using i length_filter_le [of "\<lambda>y. f x < f y" "take i ?ys"] by simp
  moreover have "length (filter (\<lambda>y. f x < f y) ?ys) = length (filter (\<lambda>y. f x < f y) xs)"
    by (simp add: by_newest_def filter_sort)
  ultimately show False using assms i(1) by simp
qed


definition login_row :: ledger_row where
  "login_row = \<lparr>lr_ts = 5, lr_event_type = ''NetworkActivity'', lr_hostname = None, lr_pid = Some 7, lr_parent_pid = None,
     lr_process_name = Some ''sshd'', lr_username = Some ''root'', lr_remote_ip = Some ''10.0.0.9'', lr_remote_port = Some 22,
     lr_ocsf = sample_dns, lr_entities = empty_entities\<rparr>"

definition login_ledger :: "ledger_row recorder" where
  "login_ledger = (new_recorder 0)\<lparr>rc_rows := [(1, login_row)]\<rparr>"

definition busy_session :: "int \<Rightarrow> os_process option" where
  "busy_session p = (if p < 7 \<or> 30 < p then None else Some \<lparr>op_name = ''sh'', op_cmdline = Some [], op_create_time = p, op_username = ''root'',
     op_children = (if p = 7 then [11, 12, 13, 14, 15, 16, 17, 18, 19, 20, 21, 22, 23, 24, 25] else [])\<rparr>)"


end
