(* ===== verification/FleetAgent.thy ===== *)
theory FleetAgent
  imports FleetLife FleetTraces FastBlocklist Engine IocDatabase
begin

text \<open>
  The agent's side of the fleet (\<open>agent/fleet/forwarder.py\<close>, \<open>serializers.py\<close>, the loop \<open>forwarder_thread\<close> of
  \<open>agent/main.py\<close> and the answers of \<open>agent/graph/federated_queries.py\<close>): what it sends from its queue, what it
  takes from the configuration the server pushes and how the two ends fit together.  The clock counts
  microseconds.
\<close>

section \<open>What travels\<close>

text \<open>\<open>int(t.timestamp())\<close> cuts towards zero.\<close>

definition whole_secs :: "datetime \<Rightarrow> int" where
  "whole_secs t = (if t < 0 then - ((- t) div 1000000) else t div 1000000)"

definition to_wire_step :: "chain_step \<Rightarrow> wire_step" where
  "to_wire_step s = \<lparr>ws_entity_type = cs_entity_type s, ws_entity_id = cs_entity_id s, ws_entity_name = cs_entity_name s,
     ws_pid = none_or 0 (cs_pid s), ws_timestamp = (case cs_timestamp s of None \<Rightarrow> 0 | Some t \<Rightarrow> whole_secs t)\<rparr>"

definition int32 :: "int \<Rightarrow> bool" where
  "int32 i \<longleftrightarrow> - 2147483648 \<le> i \<and> i < 2147483648"

text \<open>A number that does not fit its field of 32 bits raises (\<open>None\<close>).\<close>

definition finding_to_proto :: "security_finding \<Rightarrow> wire_finding option" where
  "finding_to_proto f =
     (if list_all (\<lambda>s. int32 (none_or 0 (cs_pid s))) (sf_chain f) \<and> list_all int32 (sf_evidence_event_ids f) \<and> list_all int32 (sf_affected_pids f)
      then Some \<lparr>wf_id = sf_id f, wf_timestamp = whole_secs (sf_timestamp f), wf_severity = sf_severity f, wf_title = sf_title f,
        wf_description = sf_description f, wf_affected_entities = sf_affected_entities f, wf_evidence_event_ids = sf_evidence_event_ids f,
        wf_recommendation = sf_recommendation f, wf_chain = map to_wire_step (sf_chain f), wf_affected_pids = sf_affected_pids f,
        wf_iocs = sf_iocs f\<rparr>
      else None)"

section \<open>State\<close>

datatype 'f setting_value = SStr string | SFloat 'f | SInt int | SBool bool

text \<open>The rules of the fast path are the rules pushed to it and its compiled tables.\<close>

record 'f fleet_agent =
  ag_agent_id :: string
  ag_key :: string
  ag_settings :: "(string, 'f setting_value) dict"
  ag_connected :: bool
  ag_surveillance :: "(string list \<times> string list) option"
  ag_results :: "(string \<times> xdr_result) list"
  ag_engine :: engine
  ag_rule_cache :: "rule_cache option"
  ag_fast :: "(rule list \<times> fast_cache) option"
  ag_ioc :: "ioc_db option"
  ag_mode_file :: "string option"
  ag_id_file :: "string option"
  ag_queue :: queue_db

text \<open>What the code asks of Python and the system: the texts that \<open>float\<close> and \<open>int\<close> read, the parsers of the queue's
  payloads, HMAC, the graph database for traces, and whether files can be written.\<close>

record 'f agent_env =
  av_parse_float :: "string \<Rightarrow> 'f option"
  av_parse_int :: "string \<Rightarrow> int option"
  av_modes_text :: string
  av_load_config :: "string \<Rightarrow> config_push option"
  av_load_finding :: "string \<Rightarrow> security_finding option"
  av_load_event :: "string \<Rightarrow> ocsf_event option"
  av_digest :: "string \<Rightarrow> string \<Rightarrow> string"
  av_hexdigest :: "string \<Rightarrow> string \<Rightarrow> string"
  av_query :: "string \<Rightarrow> xdr_params \<Rightarrow> xdr_result option"
  av_disk_ok :: bool
  av_retry_max :: int

section \<open>Configuration from the server\<close>

definition verify_config_signature :: "'f agent_env \<Rightarrow> 'f fleet_agent \<Rightarrow> string \<Rightarrow> string \<Rightarrow> bool" where
  "verify_config_signature env ag js sig \<longleftrightarrow> ag_key ag \<noteq> []
     \<and> sign_config (av_digest env) (av_hexdigest env) (ag_key ag) (ag_agent_id ag) js = sig"

definition to_rule :: "fleet_rule \<Rightarrow> rule" where
  "to_rule r = \<lparr>rule_type = fr_rule_type r, pattern = fr_pattern r, description = fr_description r, chain_filter = fr_chain_filter r,
     chain_exclude = []\<rparr>"

definition rules_for :: "string \<Rightarrow> string \<Rightarrow> fleet_rule list \<Rightarrow> rule list" where
  "rules_for action stage rs = map to_rule (filter (\<lambda>r. fr_action r = action \<and> fr_stage r = stage) rs)"

definition apply_rules :: "fleet_rule list \<Rightarrow> 'f fleet_agent \<Rightarrow> 'f fleet_agent" where
  "apply_rules rs ag = (let e = ag_engine ag; fast = rules_for ''block'' ''fast_path'' rs in
     ag\<lparr>ag_engine := e\<lparr>
          en_allowlist := map_option (set_network_rules (rules_for ''allow'' ''pre_graph'' rs @ rules_for ''allow'' ''response'' rs)) (en_allowlist e),
          en_blocklist := map_option (set_network_rules (fast @ rules_for ''block'' ''response'' rs)) (en_blocklist e)\<rparr>,
        ag_rule_cache := map_option invalidate (ag_rule_cache ag),
        ag_fast := map_option (\<lambda>(_, c). (fast, invalidate c)) (ag_fast ag)\<rparr>)"

definition CONFIG_WHITELIST :: "(string \<times> string) list" where
  "CONFIG_WHITELIST = [(''response_mode'', ''str''), (''analyzer_interval'', ''float''), (''collector_poll_interval'', ''float''),
     (''novel_edge_threshold'', ''int''), (''dga_score_threshold'', ''float''), (''graph_ttl_hours'', ''int''), (''auto_respond'', ''bool''),
     (''auto_terminate'', ''bool''), (''fleet_forward_events'', ''bool''), (''ioc_feeds_enabled'', ''bool'')]"

definition convert_setting :: "'f agent_env \<Rightarrow> string \<Rightarrow> string \<Rightarrow> string \<Rightarrow> 'f setting_value option" where
  "convert_setting env k ty raw =
     (if ty = ''bool'' then Some (SBool (py_lower raw \<in> {''true'', ''1'', ''yes''}))
      else if ty = ''float'' then map_option SFloat (av_parse_float env raw)
      else if ty = ''int'' then map_option SInt (av_parse_int env raw)
      else Some (SStr (if k = ''response_mode'' then mode_alias raw else raw)))"

definition persist_fleet_mode :: "'f agent_env \<Rightarrow> string \<Rightarrow> 'f fleet_agent \<Rightarrow> 'f fleet_agent" where
  "persist_fleet_mode env m ag = (if av_disk_ok env then ag\<lparr>ag_mode_file := Some m\<rparr> else ag)"

text \<open>The mode of the next start.\<close>

definition load_fleet_mode :: "'f fleet_agent \<Rightarrow> string option" where
  "load_fleet_mode ag = (case ag_mode_file ag of None \<Rightarrow> None
     | Some t \<Rightarrow> if py_strip t = [] then None else Some (mode_alias (py_strip t)))"

text \<open>The engine refuses a mode it does not know; by then the setting is stored.\<close>

definition apply_setting :: "'f agent_env \<Rightarrow> (string, string) dict \<Rightarrow> string \<times> string \<Rightarrow> 'f fleet_agent \<Rightarrow> 'f fleet_agent" where
  "apply_setting env cfg kt ag = (let (k, ty) = kt in
     case d_get cfg k of None \<Rightarrow> ag
     | Some raw \<Rightarrow> (case convert_setting env k ty raw of None \<Rightarrow> ag
     | Some v \<Rightarrow> (case d_get (ag_settings ag) k of None \<Rightarrow> ag
     | Some old \<Rightarrow> (let ag = ag\<lparr>ag_settings := d_set k v (ag_settings ag)\<rparr> in
         case v of SStr m \<Rightarrow>
           if k = ''response_mode'' \<and> v \<noteq> old
           then (case set_mode (av_modes_text env) m (ag_engine ag) of
             Inl _ \<Rightarrow> ag | Inr e \<Rightarrow> persist_fleet_mode env m (ag\<lparr>ag_engine := e\<rparr>))
           else ag
         | _ \<Rightarrow> ag))))"

fun run_queries :: "'f agent_env \<Rightarrow> (string \<times> string \<times> xdr_params) list \<Rightarrow> (string \<times> xdr_result) list" where
  "run_queries env [] = []"
| "run_queries env ((i, ty, ps) # qs) = (case av_query env ty ps of None \<Rightarrow> run_queries env qs | Some r \<Rightarrow> (i, r) # run_queries env qs)"

definition apply_config :: "'f agent_env \<Rightarrow> config_push \<Rightarrow> 'f fleet_agent \<Rightarrow> 'f fleet_agent" where
  "apply_config env cfg ag =
     (let ag = ag\<lparr>ag_surveillance := cp_surveillance cfg, ag_results := ag_results ag @ run_queries env (cp_pending cfg),
          ag_ioc := map_option (set_suppressions (cg_suppressions (cp_config cfg))) (ag_ioc ag)\<rparr>
      in fold (apply_setting env (cg_settings (cp_config cfg))) CONFIG_WHITELIST (apply_rules (cg_rules (cp_config cfg)) ag))"

definition apply_config_overrides :: "'f agent_env \<Rightarrow> string \<Rightarrow> string \<Rightarrow> 'f fleet_agent \<Rightarrow> 'f fleet_agent" where
  "apply_config_overrides env js sig ag =
     (if js = [] then ag
      else if sig = [] \<or> \<not> verify_config_signature env ag js sig then ag
      else case av_load_config env js of None \<Rightarrow> ag | Some cfg \<Rightarrow> apply_config env cfg ag)"

section \<open>Calls to the server\<close>

text \<open>The reply of a call, \<open>None\<close> when it fails.\<close>

text \<open>The identity of an agent: as configured, as stored, or a new one (\<open>new_id\<close>), which is stored.\<close>

definition load_or_create_agent_id :: "'f agent_env \<Rightarrow> string \<Rightarrow> string option \<Rightarrow> string \<times> string option" where
  "load_or_create_agent_id env new_id file = (case file of
     Some t \<Rightarrow> if py_strip t \<noteq> [] then (py_strip t, file) else (new_id, if av_disk_ok env then Some new_id else file)
   | None \<Rightarrow> (new_id, if av_disk_ok env then Some new_id else file))"

definition after_register :: "'f agent_env \<Rightarrow> register_response option \<Rightarrow> 'f fleet_agent \<Rightarrow> 'f fleet_agent" where
  "after_register env r ag = (case r of None \<Rightarrow> ag
     | Some r \<Rightarrow> if rs_accepted r
         then let a = (if rs_agent_id r \<noteq> [] then rs_agent_id r else ag_agent_id ag)
           in ag\<lparr>ag_agent_id := a, ag_connected := True, ag_id_file := (if av_disk_ok env then Some a else ag_id_file ag)\<rparr>
         else ag)"

definition make_heartbeat :: "int \<Rightarrow> int \<Rightarrow> string list \<Rightarrow> string \<Rightarrow> string \<Rightarrow> 'f fleet_agent \<Rightarrow> heartbeat" where
  "make_heartbeat now offset addrs public ioc_text ag = \<lparr>hb_agent_id = ag_agent_id ag, hb_timestamp = now, hb_clock_offset_ms = offset,
     hb_ip_addresses = addrs, hb_public_ip = public, hb_answers = map Some (ag_results ag), hb_ioc_stats = ioc_text\<rparr>"

definition after_heartbeat :: "'f agent_env \<Rightarrow> heartbeat_response option \<Rightarrow> 'f fleet_agent \<Rightarrow> 'f fleet_agent" where
  "after_heartbeat env r ag = (let ag = ag\<lparr>ag_results := []\<rparr> in
     case r of None \<Rightarrow> ag | Some r \<Rightarrow> if hr_config r = [] then ag else apply_config_overrides env (hr_config r) (hr_signature r) ag)"

definition forward_finding :: "datetime \<Rightarrow> (security_finding \<Rightarrow> string) \<Rightarrow> security_finding \<Rightarrow> 'f fleet_agent \<Rightarrow> 'f fleet_agent" where
  "forward_finding now dumps f ag = ag\<lparr>ag_queue := snd (push_forwarding now ''finding'' (dumps f) (ag_queue ag))\<rparr>"

definition forward_events :: "datetime \<Rightarrow> string list \<Rightarrow> 'f fleet_agent \<Rightarrow> 'f fleet_agent" where
  "forward_events now es ag = fold (\<lambda>e ag. ag\<lparr>ag_queue := snd (push_forwarding now ''event'' e (ag_queue ag))\<rparr>) es ag"

definition items_of :: "string \<Rightarrow> (int \<times> string \<times> string) list \<Rightarrow> (int \<times> string) list" where
  "items_of ty b = map (\<lambda>(i, _, p). (i, p)) (filter (\<lambda>(_, t, _). t = ty) b)"

text \<open>All items of the batch converted, \<open>None\<close> when one raises.\<close>

fun convert_all :: "('a \<Rightarrow> 'b option) \<Rightarrow> 'a list \<Rightarrow> 'b list option" where
  "convert_all f [] = Some []"
| "convert_all f (x # xs) = (case f x of None \<Rightarrow> None | Some y \<Rightarrow> map_option (Cons y) (convert_all f xs))"

definition wire_of :: "'f agent_env \<Rightarrow> string \<Rightarrow> wire_finding option" where
  "wire_of env p = Option.bind (av_load_finding env p) finding_to_proto"

definition settle :: "'f agent_env \<Rightarrow> datetime \<Rightarrow> int list \<Rightarrow> bool \<Rightarrow> 'f fleet_agent \<Rightarrow> 'f fleet_agent" where
  "settle env now ids ok ag = ag\<lparr>ag_queue := if ok then mark_forwarded ids (ag_queue ag)
     else mark_forward_failed now ids (av_retry_max env) (ag_queue ag)\<rparr>"

text \<open>One cycle of \<open>drain_queue\<close>: what is sent, if anything, or an exception (\<open>None\<close>).  The answers of the two calls are \<open>fok\<close> and
  \<open>eok\<close>.\<close>

record outbox =
  ob_findings :: "wire_finding list option"
  ob_events :: "ocsf_event list option"

definition send_findings_batch :: "'f agent_env \<Rightarrow> datetime \<Rightarrow> bool \<Rightarrow> (int \<times> string) list \<Rightarrow> 'f fleet_agent
    \<Rightarrow> (wire_finding list \<times> 'f fleet_agent) option" where
  "send_findings_batch env now fok items ag = map_option (\<lambda>fs. (fs, settle env now (map fst items) fok ag)) (convert_all (wire_of env) (map snd items))"

definition send_events_batch :: "'f agent_env \<Rightarrow> datetime \<Rightarrow> bool \<Rightarrow> (int \<times> string) list \<Rightarrow> 'f fleet_agent
    \<Rightarrow> (ocsf_event list \<times> 'f fleet_agent) option" where
  "send_events_batch env now eok items ag = map_option (\<lambda>es. (es, settle env now (map fst items) eok ag)) (convert_all (av_load_event env) (map snd items))"

definition drain_events :: "'f agent_env \<Rightarrow> datetime \<Rightarrow> bool \<Rightarrow> (int \<times> string) list \<Rightarrow> wire_finding list option \<Rightarrow> 'f fleet_agent
    \<Rightarrow> bool \<times> outbox \<times> 'f fleet_agent" where
  "drain_events env now eok items sent ag =
     (if items = [] then (True, \<lparr>ob_findings = sent, ob_events = None\<rparr>, ag)
      else case send_events_batch env now eok items ag of
        None \<Rightarrow> (False, \<lparr>ob_findings = sent, ob_events = None\<rparr>, ag)
      | Some (es, ag) \<Rightarrow> (True, \<lparr>ob_findings = sent, ob_events = Some es\<rparr>, ag))"

text \<open>Whether it returns, what it sent, and the new state.\<close>

definition drain_queue :: "'f agent_env \<Rightarrow> datetime \<Rightarrow> bool \<Rightarrow> bool \<Rightarrow> 'f fleet_agent \<Rightarrow> bool \<times> outbox \<times> 'f fleet_agent" where
  "drain_queue env now fok eok ag =
     (let b = pop_forwarding_batch 50 (ag_queue ag); fs = items_of ''finding'' b; es = items_of ''event'' b in
      if b = [] then (True, \<lparr>ob_findings = None, ob_events = None\<rparr>, ag)
      else if fs = [] then drain_events env now eok es None ag
      else case send_findings_batch env now fok fs ag of
        None \<Rightarrow> (False, \<lparr>ob_findings = None, ob_events = None\<rparr>, ag)
      | Some (sent, ag) \<Rightarrow> drain_events env now eok es (Some sent) ag)"

text \<open>A turn of \<open>forwarder_thread\<close>: an exception skips the heartbeat, whose reply would be \<open>reply\<close>.\<close>

definition forwarder_cycle :: "'f agent_env \<Rightarrow> datetime \<Rightarrow> bool \<Rightarrow> bool \<Rightarrow> bool \<Rightarrow> heartbeat_response option \<Rightarrow> 'f fleet_agent \<Rightarrow> outbox \<times> 'f fleet_agent" where
  "forwarder_cycle env now fok eok due reply ag =
     (let (ok, out, ag) = drain_queue env now fok eok ag in (out, if ok \<and> due then after_heartbeat env reply ag else ag))"

section \<open>Answers to queries\<close>

definition log_of_row :: "int \<times> ledger_row \<Rightarrow> log_record" where
  "log_of_row x = (let (i, r) = x in \<lparr>lg_id = i, lg_timestamp = lr_ts r, lg_event_type = lr_event_type r, lg_process_name = lr_process_name r,
     lg_pid = lr_pid r, lg_username = lr_username r, lg_cmd_line = None, lg_remote_ip = lr_remote_ip r, lg_remote_port = lr_remote_port r,
     lg_ocsf = None\<rparr>)"

definition ocsf_of_row :: "int \<times> ledger_row \<Rightarrow> log_record" where
  "ocsf_of_row x = (let (i, r) = x in \<lparr>lg_id = i, lg_timestamp = lr_ts r, lg_event_type = lr_event_type r, lg_process_name = lr_process_name r,
     lg_pid = lr_pid r, lg_username = lr_username r, lg_cmd_line = None, lg_remote_ip = None, lg_remote_port = None,
     lg_ocsf = Some (lr_ocsf r)\<rparr>)"

definition log_of_flight :: "int \<times> flight_event \<Rightarrow> log_record" where
  "log_of_flight x = (let (i, e) = x in \<lparr>lg_id = i, lg_timestamp = fv_timestamp e, lg_event_type = fv_event_type e,
     lg_process_name = fv_process_name e, lg_pid = fv_pid e, lg_username = fv_username e, lg_cmd_line = fv_cmd_line e,
     lg_remote_ip = fv_remote_ip e, lg_remote_port = fv_remote_port e, lg_ocsf = None\<rparr>)"

definition surveillance_answer :: "pulled \<Rightarrow> log_record list" where
  "surveillance_answer p = (case p of LedgerRecords rs \<Rightarrow> map log_of_row rs | FlightRecords fs \<Rightarrow> map log_of_flight fs | NoBackend \<Rightarrow> [])"

definition evidence_answer :: "pulled \<Rightarrow> log_record list" where
  "evidence_answer p = (case p of LedgerRecords rs \<Rightarrow> map ocsf_of_row rs | _ \<Rightarrow> [])"

text \<open>\<open>execute_query\<close>: a parameter that is not sent has its default; a type it does not know is answered with an error, which holds no
  records.\<close>

definition pull_of :: "int \<Rightarrow> xdr_params \<Rightarrow> pull_params" where
  "pull_of limit ps = (case ps of PullLogs q \<Rightarrow> q
     | _ \<Rightarrow> \<lparr>pp_anchor_pids = [], pp_ips = [], pp_usernames = [], pp_since = None, pp_limit = limit\<rparr>)"

record agent_data =
  ad_order :: "int set \<Rightarrow> int list"
  ad_index :: pid_index
  ad_os :: "int \<Rightarrow> os_process option"
  ad_graph :: "graph option"
  ad_ledger :: "ledger_row recorder option"
  ad_flight :: "flight_event recorder option"

definition execute_query :: "agent_data \<Rightarrow> datetime \<Rightarrow> string \<Rightarrow> xdr_params \<Rightarrow> xdr_result" where
  "execute_query d now ty ps =
     (if ty = ''lateral_victim_trace'' then
        (case ps of VictimTrace as port t \<Rightarrow> Traced (lateral_victim_trace (ad_order d) (ad_index d) (ad_os d) (ad_graph d) (ad_ledger d) as port t)
         | _ \<Rightarrow> Traced [])
      else if ty = ''lateral_source_trace'' then
        (case ps of SourceTrace as port \<Rightarrow> Traced (lateral_source_trace (ad_order d) (ad_index d) (ad_os d) (ad_graph d) (ad_ledger d) as port)
         | _ \<Rightarrow> Traced [])
      else if ty = ''pull_surveillance_logs'' then
        Logs (surveillance_answer (pull_surveillance_logs (ad_order d) (ad_index d) now (ad_ledger d) (ad_flight d) (pull_of 200 ps)))
      else if ty = ''pull_ocsf_ledger'' then
        Logs (evidence_answer (pull_ocsf_ledger (ad_order d) (ad_index d) now (ad_ledger d) (pull_of 300 ps)))
      else Traced [])"

end
