(* ===== verification/FleetIncidents.thy ===== *)
theory FleetIncidents
  imports FleetLife
begin

text \<open>
  What the server does with keys, findings and incidents: the keys of the graph and of the settings database
  admit the same agents, an agent that registers again uses up nothing, and what is stored of the findings an
  agent sends.
\<close>

section \<open>Keys\<close>

lemma find_keys_same: "sd_keys db = fg_keys g \<Longrightarrow> find_key k db = find_node_key k g"
  by (simp add: find_key_def find_node_key_def)

lemma create_user_keys: "sd_keys (snd (create_user now n h role db)) = sd_keys db"
  by (simp add: create_user_def Let_def)

lemma insert_new_key: "kk_key r \<notin> kk_key ` set (sd_keys db) \<Longrightarrow> sd_keys (insert_key_row r db) = sd_keys db @ [r]"
proof -
  assume "kk_key r \<notin> kk_key ` set (sd_keys db)"
  then have "find_key (kk_key r) db = None" by (auto simp: find_key_def find_None_iff) (metis imageI)
  then show ?thesis by (simp add: insert_key_row_def)
qed

lemma insert_new_keys:
  assumes "distinct (map kk_key (sd_keys db @ rs))"
  shows "sd_keys (fold insert_key_row rs db) = sd_keys db @ rs"
  using assms by (induction rs arbitrary: db) (auto simp: insert_new_key)

lemma migrated_keys:
  assumes "has_no_users db" "sd_keys db = []" "distinct (map kk_key (fg_keys g))"
  shows "sd_keys (migrate_neo4j_to_sqlite now g db) = fg_keys g"
proof -
  have "sd_keys (fold (\<lambda>(n, h, role) db. snd (create_user now n h role db)) us d) = sd_keys d" for us d
    by (induction us arbitrary: d) (auto simp: create_user_keys)
  then show ?thesis using assms by (simp add: migrate_neo4j_to_sqlite_def get_all_registration_keys_def insert_new_keys)
qed

text \<open>C33. Every answer of the new table and the counters after it are those of the old one.\<close>

theorem migration_keeps_admission:
  assumes "has_no_users db" "sd_keys db = []" "distinct (map kk_key (fg_keys g))"
  shows "fst (validate_registration_key t k (migrate_neo4j_to_sqlite now g db)) = fst (validate_key_node t k g)
    \<and> sd_keys (snd (validate_registration_key t k (migrate_neo4j_to_sqlite now g db))) = fg_keys (snd (validate_key_node t k g))"
  using migrated_keys [OF assms, of now] find_keys_same [OF migrated_keys [OF assms, of now], of k]
  by (auto simp: validate_registration_key_def validate_key_node_def update_key_def update_key_node_def split: option.splits)

definition old_key :: registration_key where
  "old_key = \<lparr>kk_key = ''k'', kk_label = [], kk_created_at = 1, kk_created_by = ''root'', kk_expires_at = None, kk_max_uses = Some 3,
     kk_use_count = 2, kk_revoked = False, kk_revoked_at = None, kk_revoked_by = None\<rparr>"

theorem migration_keeps_admission_witness:
  "fst (validate_registration_key 9 ''k'' (migrate_neo4j_to_sqlite 5 (empty_fleet\<lparr>fg_keys := [old_key]\<rparr>) (empty_db []))) = (True, ''ok'')"
  using migration_keeps_admission [of "empty_db []" "empty_fleet\<lparr>fg_keys := [old_key]\<rparr>" 9 "''k''" 5]
  by (simp add: has_no_users_def count_users_def empty_db_def empty_fleet_def validate_key_node_def find_node_key_def expired_def old_key_def)

section \<open>Registration\<close>

lemma accepted_key: "rs_accepted (fst (RegisterAgent clk peer info k s)) \<Longrightarrow>
    get_agent_key (ai_agent_id info) (fl_db (snd (RegisterAgent clk peer info k s))) = Some k \<and> k \<noteq> []"
  by (auto simp: RegisterAgent_def Let_def case_prod_beta on_db_def on_graph_def set_agent_key_def get_agent_key_def d_get_set split: if_splits)

theorem registering_again_uses_nothing:
  assumes "rs_accepted (fst (RegisterAgent clk peer info k s))" "ai_agent_id info \<noteq> []" "ai_agent_id info' = ai_agent_id info"
  defines "s' \<equiv> snd (RegisterAgent clk peer info k s)"
  shows "sd_keys (fl_db (snd (RegisterAgent clk' peer' info' k s'))) = sd_keys (fl_db s')
    \<and> rs_accepted (fst (RegisterAgent clk' peer' info' k s')) = fst (check_key_status (secs clk') k (fl_db s'))"
  using accepted_key [OF assms(1)] assms(2,3) unfolding s'_def [symmetric]
  by (auto simp: RegisterAgent_def [of clk'] Let_def case_prod_beta admit_def is_reregistration_def on_db_def on_graph_def set_agent_key_def)

definition web_agent :: agent_info where
  "web_agent = \<lparr>ai_agent_id = ''a1'', ai_hostname = ''web'', ai_platform = ''linux'', ai_os_version = [], ai_agent_version = ''0.1.0'',
     ai_ip_address = [], ai_registered_at = 6, ai_ip_addresses = [''10.0.0.1''], ai_public_ip = []\<rparr>"

definition keyed_server :: fleet_state where
  "keyed_server = start_server (keyed_db None (Some 1))"

definition registered_server :: fleet_state where
  "registered_server = snd (RegisterAgent 6000000 ''ipv4:10.0.0.1:4711'' web_agent ''k'' keyed_server)"

lemma web_agent_admitted: "rs_accepted (fst (RegisterAgent 6000000 ''ipv4:10.0.0.1:4711'' web_agent ''k'' keyed_server))"
  by code_simp

theorem registering_again_uses_nothing_witness:
  "rs_accepted (fst (RegisterAgent 7000000 [] web_agent ''k'' registered_server))"
proof -
  have "fst (check_key_status (secs 7000000) ''k'' (fl_db registered_server))" by code_simp
  with registering_again_uses_nothing [OF web_agent_admitted, of web_agent 7000000 "[]"]
  show ?thesis by (simp add: web_agent_def registered_server_def)
qed

section \<open>Findings\<close>

lemma update_incident_findings [simp]:
  "fg_findings (update_incident i f g) = fg_findings g" "fg_generated (update_incident i f g) = fg_generated g"
  "fg_hosts (update_incident i f g) = fg_hosts g"
  by (simp_all add: update_incident_def split: option.split)

definition same_findings :: "fleet_graph \<Rightarrow> fleet_graph \<Rightarrow> bool" where
  "same_findings g h \<longleftrightarrow> fg_findings g = fg_findings h \<and> fg_generated g = fg_generated h \<and> fg_hosts g = fg_hosts h"

lemma same_findings_refl: "same_findings g g"
  by (simp add: same_findings_def)

lemma same_findings_trans: "same_findings g h \<Longrightarrow> same_findings h k \<Longrightarrow> same_findings g k"
  by (simp add: same_findings_def)

lemma same_findings_fold: "(\<And>x g. same_findings (f x g) g) \<Longrightarrow> same_findings (fold f xs g) g"
  by (induction xs arbitrary: g) (auto simp: same_findings_def)

lemma link_findings:
  "same_findings (link_host i a g) g" "same_findings (link_pivot i ip g) g" "same_findings (link_finding i f g) g"
  "same_findings (upgrade_campaign i g) g"
  by (simp_all add: same_findings_def link_host_def link_pivot_def link_finding_def upgrade_campaign_def)

lemma follow_on_findings: "same_findings (snd (check_finding_for_follow_on now a f g)) g"
  by (auto simp: check_finding_for_follow_on_def Let_def same_findings_refl intro!: same_findings_fold split: option.split)
    (simp add: same_findings_def)

lemma create_incident_findings: "same_findings (create_incident now i f src dst pivot port g) g"
  using link_findings by (simp add: create_incident_def Let_def same_findings_def)

lemma append_findings: "same_findings (append_finding_to_incident now i f src dst pivot g) g"
  using link_findings by (simp add: append_finding_to_incident_def Let_def same_findings_def)

lemma detect_findings: "same_findings (fl_graph (detect_movement parse_int uid clk a w s)) (fl_graph s)"
proof -
  have m: "same_findings (fl_graph (on_match parse_int uid clk a f x s)) (fl_graph s)" for f x s
    using append_findings create_incident_findings
    by (auto simp: on_match_def new_incident_def on_graph_def Let_def same_findings_refl split: option.split prod.split)
  have ms: "same_findings (fl_graph (fold (on_match parse_int uid clk a f) xs s)) (fl_graph s)" for f xs s
    by (induction xs arbitrary: s) (auto intro: same_findings_refl same_findings_trans m)
  have e: "same_findings (fl_graph (on_escalation uid clk a f s)) (fl_graph s)" for f s
    using append_findings create_incident_findings
    by (auto simp: on_escalation_def new_incident_def on_graph_def Let_def same_findings_def mark_vertical_def update_incident_status_def split: option.split)
  let ?s = "on_graph (\<lambda>g. snd (check_finding_for_follow_on (secs clk) a (wf_id w) g)) s"
  have 1: "same_findings (fl_graph ?s) (fl_graph s)" using follow_on_findings by (simp add: on_graph_def)
  have 2: "same_findings (fl_graph (fold (on_match parse_int uid clk a (wf_id w)) xs ?s)) (fl_graph s)" for xs
    by (rule same_findings_trans [OF ms 1])
  have 3: "same_findings (fl_graph (on_escalation uid clk a (wf_id w) (fold (on_match parse_int uid clk a (wf_id w)) xs ?s))) (fl_graph s)" for xs
    by (rule same_findings_trans [OF e 2])
  show ?thesis unfolding detect_movement_def Let_def by (simp only: 1 2 3 split: if_split) simp
qed

lemma sent_findings: "same_findings (fl_graph (snd (SendFindings parse_int uid clk a fs s))) (fold (ingest_finding a) fs (fl_graph s))"
proof -
  have g: "fl_graph (fold (\<lambda>f. on_graph (ingest_finding a f)) fs s) = fold (ingest_finding a) fs (fl_graph s)" for s
    by (induction fs arbitrary: s) (simp_all add: on_graph_def)
  have "same_findings (fl_graph (fold (detect_movement parse_int uid clk a) ws s)) (fl_graph s)" for ws s
    by (induction ws arbitrary: s) (auto intro: same_findings_refl same_findings_trans detect_findings)
  then show ?thesis by (simp add: SendFindings_def g [symmetric])
qed

lemma ingest_finding_findings: "same_findings (ingest_finding a f g) (merge_finding_node a f g)"
proof -
  have c: "same_findings (ingest_step b i p g) g" for b i p g by (simp add: ingest_step_def Let_def same_findings_def split: prod.split)
  have d: "same_findings (merge_ioc_domain i x g) g" "same_findings (merge_ioc_ip i x g) g" for i x g
    by (simp_all add: merge_ioc_domain_def merge_ioc_ip_def Let_def same_findings_def)
  show ?thesis unfolding ingest_finding_def ingest_finding_chain_def
    by (intro same_findings_trans [OF same_findings_fold [OF c]] same_findings_trans [OF same_findings_fold [OF d(1)]] same_findings_fold [OF d(2)])
qed

lemma ingested_findings:
  "fg_hosts (fold (ingest_finding a) fs g) = fg_hosts g"
  "d_get (fg_hosts g) a = None \<Longrightarrow> fg_findings (fold (ingest_finding a) fs g) = fg_findings g \<and> fg_generated (fold (ingest_finding a) fs g) = fg_generated g"
  "d_get (fg_hosts g) a \<noteq> None \<Longrightarrow> d_get (fg_findings (fold (ingest_finding a) fs g)) i
     = (case map_of (rev (map (\<lambda>f. (wf_id f, finding_of f)) fs)) i of None \<Rightarrow> d_get (fg_findings g) i | Some n \<Rightarrow> Some n)"
  "d_get (fg_hosts g) a \<noteq> None \<Longrightarrow> set (fg_generated (fold (ingest_finding a) fs g)) = set (fg_generated g) \<union> (\<lambda>f. (a, wf_id f)) ` set fs"
proof -
  have one: "fg_hosts (ingest_finding a f g) = fg_hosts g"
    "d_get (fg_hosts g) a = None \<Longrightarrow> fg_findings (ingest_finding a f g) = fg_findings g \<and> fg_generated (ingest_finding a f g) = fg_generated g"
    "d_get (fg_hosts g) a \<noteq> None \<Longrightarrow> fg_findings (ingest_finding a f g) = d_set (wf_id f) (finding_of f) (fg_findings g)
       \<and> set (fg_generated (ingest_finding a f g)) = insert (a, wf_id f) (set (fg_generated g))" for f g
    using ingest_finding_findings [of a f g] by (auto simp: same_findings_def merge_finding_node_def add_once_def)
  show hosts: "fg_hosts (fold (ingest_finding a) fs g) = fg_hosts g" for fs g
    by (induction fs arbitrary: g) (simp_all add: one)
  show "d_get (fg_hosts g) a = None \<Longrightarrow> fg_findings (fold (ingest_finding a) fs g) = fg_findings g \<and> fg_generated (fold (ingest_finding a) fs g) = fg_generated g"
    by (induction fs arbitrary: g) (simp_all add: one)
  show "d_get (fg_hosts g) a \<noteq> None \<Longrightarrow> set (fg_generated (fold (ingest_finding a) fs g)) = set (fg_generated g) \<union> (\<lambda>f. (a, wf_id f)) ` set fs"
    by (induction fs arbitrary: g) (auto simp: one)
  show "d_get (fg_hosts g) a \<noteq> None \<Longrightarrow> d_get (fg_findings (fold (ingest_finding a) fs g)) i
     = (case map_of (rev (map (\<lambda>f. (wf_id f, finding_of f)) fs)) i of None \<Rightarrow> d_get (fg_findings g) i | Some n \<Rightarrow> Some n)"
    by (induction fs arbitrary: g) (auto simp: one d_get_set split: option.splits)
qed

text \<open>What is acknowledged is stored when the agent has a node, and only then.\<close>

lemma findings_stored:
  assumes "d_get (fg_hosts (fl_graph s)) a \<noteq> None" "f \<in> set fs"
  shows "has_finding (wf_id f) (fl_graph (snd (SendFindings parse_int uid clk a fs s)))
    \<and> (a, wf_id f) \<in> set (fg_generated (fl_graph (snd (SendFindings parse_int uid clk a fs s))))"
proof -
  have "wf_id f \<in> fst ` set (rev (map (\<lambda>f. (wf_id f, finding_of f)) fs))" using assms(2) by force
  then obtain n where "map_of (rev (map (\<lambda>f. (wf_id f, finding_of f)) fs)) (wf_id f) = Some n"
    by (metis map_of_eq_None_iff not_None_eq)
  with sent_findings [of parse_int uid clk a fs s] ingested_findings(3,4) [OF assms(1), of fs] assms(2)
  show ?thesis by (auto simp: same_findings_def has_finding_def)
qed

theorem unknown_agent_loses_findings:
  assumes "d_get (fg_hosts (fl_graph s)) a = None"
  shows "fst (SendFindings parse_int uid clk a fs s) = length fs
    \<and> fg_findings (fl_graph (snd (SendFindings parse_int uid clk a fs s))) = fg_findings (fl_graph s)
    \<and> fg_generated (fl_graph (snd (SendFindings parse_int uid clk a fs s))) = fg_generated (fl_graph s)"
  using sent_findings [of parse_int uid clk a fs s] ingested_findings(2) [OF assms, of fs]
  by (simp add: same_findings_def SendFindings_def)

theorem unknown_agent_loses_findings_witness:
  "fst (SendFindings (\<lambda>_. None) run_ids 7000000 ''a2'' [escalation_finding] registered_server) = 1
    \<and> fg_findings (fl_graph (snd (SendFindings (\<lambda>_. None) run_ids 7000000 ''a2'' [escalation_finding] registered_server))) = []"
proof -
  have "d_get (fg_hosts (fl_graph registered_server)) ''a2'' = None" "fg_findings (fl_graph registered_server) = []" by code_simp+
  with unknown_agent_loses_findings [of registered_server "''a2''" "\<lambda>_. None" run_ids 7000000 "[escalation_finding]"] show ?thesis by simp
qed

section \<open>Closing during a pass\<close>



end
