(* ===== verification/FleetLink.thy ===== *)
theory FleetLink
  imports FleetAgent FleetIncidents
begin

text \<open>
  Both ends of the fleet together: a configuration that the server signs takes effect at the agent, what an
  agent reports as delivered is on the server, the logs it answers with become evidence of the incident, and
  an item that cannot be sent stops everything behind it.
\<close>

section \<open>Configuration\<close>

named_theorems setting_keeps \<open>what the scalar settings of a configuration leave alone\<close>

lemma apply_setting_keeps:
  "ag_fast (apply_setting env cfg kt ag) = ag_fast ag" "ag_ioc (apply_setting env cfg kt ag) = ag_ioc ag"
  "ag_surveillance (apply_setting env cfg kt ag) = ag_surveillance ag" "ag_results (apply_setting env cfg kt ag) = ag_results ag"
  "en_blocklist (ag_engine (apply_setting env cfg kt ag)) = en_blocklist (ag_engine ag)"
  "en_allowlist (ag_engine (apply_setting env cfg kt ag)) = en_allowlist (ag_engine ag)"
  by (auto simp: apply_setting_def Let_def set_mode_def persist_fleet_mode_def split: option.split prod.split setting_value.split sum.split if_splits)

lemma apply_settings_keep [setting_keeps]:
  "ag_fast (fold (apply_setting env cfg) kts ag) = ag_fast ag" "ag_ioc (fold (apply_setting env cfg) kts ag) = ag_ioc ag"
  "ag_surveillance (fold (apply_setting env cfg) kts ag) = ag_surveillance ag" "ag_results (fold (apply_setting env cfg) kts ag) = ag_results ag"
  "en_blocklist (ag_engine (fold (apply_setting env cfg) kts ag)) = en_blocklist (ag_engine ag)"
  "en_allowlist (ag_engine (fold (apply_setting env cfg) kts ag)) = en_allowlist (ag_engine ag)"
  by (induction kts arbitrary: ag) (simp_all add: apply_setting_keeps)

definition mode_part :: "'f fleet_agent \<Rightarrow> string \<times> 'f setting_value option \<times> string option" where
  "mode_part ag = (en_mode (ag_engine ag), d_get (ag_settings ag) ''response_mode'', ag_mode_file ag)"

lemma other_setting_keeps_mode: "fst kt \<noteq> ''response_mode'' \<Longrightarrow> mode_part (apply_setting env cfg kt ag) = mode_part ag"
  by (auto simp: apply_setting_def mode_part_def Let_def d_get_set split: option.split prod.split setting_value.split)

lemma other_settings_keep_mode:
  "''response_mode'' \<notin> fst ` set kts \<Longrightarrow> mode_part (fold (apply_setting env cfg) kts ag) = mode_part ag"
  by (induction kts arbitrary: ag) (auto simp: other_setting_keeps_mode)

lemma apply_mode:
  assumes "d_get cfg ''response_mode'' = Some m" "mode_alias m \<in> set VALID_MODES" "d_get (ag_settings ag) ''response_mode'' = Some old"
    "old \<noteq> SStr (mode_alias m)"
  shows "mode_part (apply_setting env cfg (''response_mode'', ''str'') ag)
    = (mode_alias m, Some (SStr (mode_alias m)), if av_disk_ok env then Some (mode_alias m) else ag_mode_file ag)"
proof -
  have "mode_alias (mode_alias m) = mode_alias m" by (simp add: mode_alias_def)
  with assms show ?thesis by (simp add: apply_setting_def convert_setting_def mode_part_def set_mode_def persist_fleet_mode_def d_get_set)
qed

lemma apply_all_mode:
  assumes "d_get cfg ''response_mode'' = Some m" "mode_alias m \<in> set VALID_MODES" "d_get (ag_settings ag) ''response_mode'' = Some old"
    "old \<noteq> SStr (mode_alias m)"
  shows "mode_part (fold (apply_setting env cfg) CONFIG_WHITELIST ag)
    = (mode_alias m, Some (SStr (mode_alias m)), if av_disk_ok env then Some (mode_alias m) else ag_mode_file ag)"
proof -
  have w: "CONFIG_WHITELIST = (''response_mode'', ''str'') # tl CONFIG_WHITELIST" "''response_mode'' \<notin> fst ` set (tl CONFIG_WHITELIST)"
    by (simp_all add: CONFIG_WHITELIST_def)
  have "fold (apply_setting env cfg) CONFIG_WHITELIST ag
      = fold (apply_setting env cfg) (tl CONFIG_WHITELIST) (apply_setting env cfg (''response_mode'', ''str'') ag)"
    by (subst w(1)) (rule fold_simps(2))
  then show ?thesis by (simp only: other_settings_keep_mode [OF w(2)] apply_mode [OF assms])
qed

text \<open>The server and the agent share the key and the parser reads what the printer wrote: then the reply to a heartbeat is applied.\<close>

lemma heartbeat_applied:
  fixes clk :: datetime
  assumes "get_agent_key (ag_agent_id ag) (fl_db s) = Some (ag_key ag)" "ag_key ag \<noteq> []" "hb_agent_id hb = ag_agent_id ag"
    "dumps (config_for (ag_agent_id ag) (snd (Heartbeat dumps (av_digest env) (av_hexdigest env) clk hb s))) = js" "js \<noteq> []"
    "av_load_config env js = Some (config_for (ag_agent_id ag) (snd (Heartbeat dumps (av_digest env) (av_hexdigest env) clk hb s)))"
    "\<And>k t. av_hexdigest env k t \<noteq> []"
  defines "r \<equiv> Heartbeat dumps (av_digest env) (av_hexdigest env) clk hb s"
  shows "after_heartbeat env (Some (fst r)) ag = apply_config env (config_for (ag_agent_id ag) (snd r)) (ag\<lparr>ag_results := []\<rparr>)"
  using assms(1-7) by (simp add: r_def Heartbeat_def after_heartbeat_def apply_config_overrides_def verify_config_signature_def
      sign_config_def Let_def)

lemma applied_rules:
  "ag_fast (apply_config env c ag) = map_option (\<lambda>(_, x). (rules_for ''block'' ''fast_path'' (cg_rules (cp_config c)), invalidate x)) (ag_fast ag)"
  "map_option get_network_rules (en_blocklist (ag_engine (apply_config env c ag)))
     = map_option (\<lambda>_. rules_for ''block'' ''fast_path'' (cg_rules (cp_config c)) @ rules_for ''block'' ''response'' (cg_rules (cp_config c)))
         (en_blocklist (ag_engine ag))"
  "map_option get_network_rules (en_allowlist (ag_engine (apply_config env c ag)))
     = map_option (\<lambda>_. rules_for ''allow'' ''pre_graph'' (cg_rules (cp_config c)) @ rules_for ''allow'' ''response'' (cg_rules (cp_config c)))
         (en_allowlist (ag_engine ag))"
  "ag_ioc (apply_config env c ag) = map_option (set_suppressions (cg_suppressions (cp_config c))) (ag_ioc ag)"
  "ag_surveillance (apply_config env c ag) = cp_surveillance c"
  "ag_results (apply_config env c ag) = ag_results ag @ run_queries env (cp_pending c)"
  by (simp_all add: apply_config_def apply_rules_def Let_def setting_keeps option.map_comp comp_def case_prod_beta
      set_network_rules_def get_network_rules_def)

lemma refresh_invalidated: "fst (fast_refresh interval src t1 t2 (invalidate x)) = load_rules src"
  by (simp add: fast_refresh_def stale_def invalidate_def Let_def)



section \<open>The forwarder\<close>

lemma convert_all_None: "convert_all f xs = None \<longleftrightarrow> (\<exists>x \<in> set xs. f x = None)"
  by (induction xs) (auto split: option.split)

lemma convert_all_Some: "convert_all f xs = Some ys \<longleftrightarrow> map f xs = map Some ys"
  by (induction xs arbitrary: ys) (auto split: option.split simp: map_eq_Cons_conv Cons_eq_map_conv)

lemma items_of_in: "(i, ty, p) \<in> set b \<Longrightarrow> (i, p) \<in> set (items_of ty b)"
  by (force simp: items_of_def)

definition forwarder_turns :: "'f agent_env \<Rightarrow> (datetime \<times> bool \<times> bool \<times> bool \<times> heartbeat_response option) list \<Rightarrow> 'f fleet_agent \<Rightarrow> 'f fleet_agent" where
  "forwarder_turns env turns ag = fold (\<lambda>(now, fok, eok, due, reply) ag. snd (forwarder_cycle env now fok eok due reply ag)) turns ag"

lemma poisoned_cycle:
  assumes "(i, ''finding'', p) \<in> set (pop_forwarding_batch 50 (ag_queue ag))" "wire_of env p = None"
  shows "forwarder_cycle env now fok eok due reply ag = (\<lparr>ob_findings = None, ob_events = None\<rparr>, ag)"
proof -
  let ?fs = "items_of ''finding'' (pop_forwarding_batch 50 (ag_queue ag))"
  have p: "(i, p) \<in> set ?fs" by (rule items_of_in [OF assms(1)])
  with assms(2) have "send_findings_batch env now fok ?fs ag = None"
    by (force simp: send_findings_batch_def convert_all_None)
  moreover have "?fs \<noteq> []" "pop_forwarding_batch 50 (ag_queue ag) \<noteq> []" using p assms(1) by auto
  ultimately show ?thesis by (simp add: forwarder_cycle_def drain_queue_def Let_def)
qed

text \<open>C36. Neither the queue moves nor is a heartbeat sent, whatever the server answers.\<close>

theorem poison_blocks_forwarder:
  assumes "(i, ''finding'', p) \<in> set (pop_forwarding_batch 50 (ag_queue ag))" "wire_of env p = None"
  shows "forwarder_turns env turns ag = ag"
  by (induction turns) (auto simp: forwarder_turns_def poisoned_cycle [OF assms])

lemma marked_ids:
  "fw_id ` set (q_fwd (mark_forwarded ids q)) \<subseteq> fw_id ` set (q_fwd q) - set ids"
  "fw_id ` set (q_fwd (mark_forward_failed now ids n q)) \<subseteq> fw_id ` set (q_fwd q)"
  by (auto simp: mark_forwarded_def mark_forward_failed_def Let_def split: if_splits)

lemma settle_ids: "fw_id ` set (q_fwd (ag_queue (settle env now ids ok ag))) \<subseteq> fw_id ` set (q_fwd (ag_queue ag))"
  using marked_ids(1) [of ids "ag_queue ag"] marked_ids(2) [of now ids "av_retry_max env" "ag_queue ag"] by (auto simp: settle_def)


section \<open>Evidence\<close>

lemma before_marker: "CHR '':'' \<notin> set i \<Longrightarrow> n = CHR '':'' # n' \<Longrightarrow> before_text n (i @ n) = i"
  by (induction i) auto

lemma contains_key: "CHR '':'' \<notin> set i \<Longrightarrow> py_contains (CHR '':'' # x) (i @ CHR '':'' # y) \<longleftrightarrow> prefix x y \<or> py_contains (CHR '':'' # x) y"
  by (induction i) (auto simp: py_contains_def sublist_Cons_right)

lemma no_marker: "\<not> py_contains '':ocsf_dst'' ''ocsf_src''" "\<not> py_contains '':ocsf_dst'' ''ocsf_dst''" "\<not> py_contains '':ocsf_src'' ''ocsf_src''"
  by (simp_all add: py_contains_def sublist_Cons_right)

lemma evidence_key_parsed:
  assumes "CHR '':'' \<notin> set i" "i \<noteq> []" "side \<in> {''dst'', ''src''}"
  shows "evidence_incident (i @ '':ocsf_'' @ side) = Some i"
  using assms before_marker [OF assms(1), of "'':ocsf_dst''" "''ocsf_dst''"] before_marker [OF assms(1), of "'':ocsf_src''" "''ocsf_src''"]
  by (auto simp: evidence_incident_def contains_key no_marker)

lemma stored_evidence: "e \<in> set (sd_evidence db) \<Longrightarrow> e \<in> set (sd_evidence (fold (insert_evidence now i a) rs db))"
  by (induction rs arbitrary: db) (auto simp: insert_evidence_def Let_def)

lemma upserted_evidence:
  "r \<in> set rs \<Longrightarrow> \<exists>e \<in> set (sd_evidence (snd (upsert_ocsf_evidence now i a rs db))). oe_incident e = i \<and> oe_agent e = a \<and> lg_id (oe_record e) = lg_id r"
proof (induction rs arbitrary: db)
  case (Cons x xs)
  have one: "\<exists>e \<in> set (sd_evidence (insert_evidence now i a x db)). oe_incident e = i \<and> oe_agent e = a \<and> lg_id (oe_record e) = lg_id x"
    by (auto simp: insert_evidence_def Let_def list_ex_iff evidence_columns_def)
  show ?case
  proof (cases "r = x")
    case True
    with one stored_evidence show ?thesis by (fastforce simp: upsert_ocsf_evidence_def Let_def)
  next
    case False
    with Cons show ?thesis by (auto simp: upsert_ocsf_evidence_def Let_def)
  qed
qed simp

lemma find_query: "distinct (map xq_id qs) \<Longrightarrow> q \<in> set qs \<Longrightarrow> is_pending q \<Longrightarrow> find (\<lambda>x. xq_id x = xq_id q \<and> is_pending x) qs = Some q"
  by (induction qs) auto

text \<open>C31. Every log an agent answers a pull with is evidence of the incident.\<close>

theorem answered_logs_become_evidence:
  assumes "distinct (map xq_id (sd_queries db))" "q \<in> set (sd_queries db)" "is_pending q" "xq_type q = ''pull_ocsf_ledger''"
    "xq_finding q = i @ '':ocsf_'' @ side" "side \<in> {''dst'', ''src''}" "i \<noteq> []" "CHR '':'' \<notin> set i"
    "r \<in> set (result_logs (execute_query d now (xq_type q) (xq_params q)))"
  shows "\<exists>e \<in> set (sd_evidence (take_answer t (xq_id q, execute_query d now (xq_type q) (xq_params q)) db)).
    oe_incident e = i \<and> oe_agent e = xq_agent q \<and> lg_id (oe_record e) = lg_id r"
proof -
  let ?res = "execute_query d now (xq_type q) (xq_params q)"
  obtain db' where "complete_xdr_query t (xq_id q) ?res db = (Some (xq_agent q, xq_finding q, xq_type q), db')"
    using find_query [OF assms(1-3)] by (simp add: complete_xdr_query_def)
  then have "take_answer t (xq_id q, ?res) db = ingest_ocsf_evidence t (xq_agent q) (xq_finding q) (result_logs ?res) db'"
    by (simp add: take_answer_def assms(4))
  moreover have "result_logs ?res \<noteq> []" using assms(9) by auto
  ultimately show ?thesis
    using upserted_evidence [OF assms(9)] evidence_key_parsed [OF assms(8,7,6)] by (simp add: ingest_ocsf_evidence_def assms(5))
qed

section \<open>A run of both ends\<close>

definition ruled_server :: fleet_state where
  "ruled_server = registered_server\<lparr>fl_db := (fl_db registered_server)\<lparr>sd_global_rules :=
     load_global_rules (Some [(''process_name'', ''xmrig'', [], ''miner'')])\<rparr>\<rparr>"

definition web_heartbeat :: heartbeat where
  "web_heartbeat = \<lparr>hb_agent_id = ''a1'', hb_timestamp = 9, hb_clock_offset_ms = 0, hb_ip_addresses = [], hb_public_ip = [],
     hb_answers = [], hb_ioc_stats = []\<rparr>"

definition web_beat :: "heartbeat_response \<times> fleet_state" where
  "web_beat = Heartbeat (\<lambda>_. ''{}'') (\<lambda>k _. k) (\<lambda>_ _. ''ab'') 9000000 web_heartbeat ruled_server"

definition web_env :: "int agent_env" where
  "web_env = \<lparr>av_parse_float = \<lambda>_. None, av_parse_int = \<lambda>_. None, av_modes_text = [],
     av_load_config = \<lambda>_. Some (config_for ''a1'' (snd web_beat)),
     av_load_finding = \<lambda>p. if p = ''good'' then Some nameless_pid_finding else None, av_load_event = \<lambda>_. Some dns_lookup,
     av_digest = \<lambda>k _. k, av_hexdigest = \<lambda>_ _. ''ab'', av_query = \<lambda>_ _. None, av_disk_ok = True, av_retry_max = 3\<rparr>"

definition web_forwarder :: "int fleet_agent" where
  "web_forwarder = \<lparr>ag_agent_id = ''a1'', ag_key = ''k'', ag_settings = [(''response_mode'', SStr ''passive'')], ag_connected = True,
     ag_surveillance = None, ag_results = [], ag_engine = blocking_engine, ag_rule_cache = None,
     ag_fast = Some ([], \<lparr>c_value = no_rules, c_last = 0, c_invalidated = False\<rparr>), ag_ioc = Some (new_ioc_db offline_env 60 []),
     ag_mode_file = None, ag_id_file = None, ag_queue = init_queue_db\<rparr>"

lemma web_key: "get_agent_key ''a1'' (fl_db ruled_server) = Some ''k''"
  by code_simp

lemma web_mode: "d_get (cg_settings (resolve_agent_config ''a1'' (fl_db (snd web_beat)))) ''response_mode'' = Some ''learning''"
  by code_simp

lemma web_rules: "rules_for ''block'' ''fast_path'' (cg_rules (resolve_agent_config ''a1'' (fl_db (snd web_beat))))
    = [\<lparr>rule_type = ''process_name'', pattern = ''xmrig'', description = ''miner'', chain_filter = [], chain_exclude = []\<rparr>]"
  by code_simp



definition queued_forwarder :: "string \<Rightarrow> int fleet_agent" where
  "queued_forwarder p = web_forwarder\<lparr>ag_queue := snd (push_forwarding 5 ''finding'' p init_queue_db)\<rparr>"

lemma queued_batch: "pop_forwarding_batch 50 (ag_queue (queued_forwarder p)) = [(1, ''finding'', p)]"
  by (simp add: queued_forwarder_def push_forwarding_def pop_forwarding_batch_def init_queue_db_def sql_limit_def Let_def)

theorem poison_blocks_forwarder_witness:
  "forwarder_turns web_env [(6, True, True, True, Some (fst web_beat))] (queued_forwarder ''bad'') = queued_forwarder ''bad''"
  by (rule poison_blocks_forwarder [of 1 "''bad''"]) (simp_all add: queued_batch wire_of_def web_env_def)


definition ledger_agent :: agent_data where
  "ledger_agent = \<lparr>ad_order = \<lambda>_. [], ad_index = new_index, ad_os = \<lambda>_. None, ad_graph = None, ad_ledger = Some one_dns_written, ad_flight = None\<rparr>"

definition evidence_query :: xdr_query where
  "evidence_query = \<lparr>xq_id = ''q1'', xq_agent = ''a1'', xq_finding = ''i1:ocsf_dst'', xq_type = ''pull_ocsf_ledger'',
     xq_params = PullLogs \<lparr>pp_anchor_pids = [], pp_ips = [], pp_usernames = [], pp_since = None, pp_limit = 300\<rparr>,
     xq_status = ''pending'', xq_result = None, xq_created_at = 0, xq_completed_at = None\<rparr>"

definition asking_db :: settings_db where
  "asking_db = (empty_db [])\<lparr>sd_queries := [evidence_query]\<rparr>"

theorem answered_logs_become_evidence_witness:
  "sd_evidence (take_answer 10 (''q1'', execute_query ledger_agent 9000001 ''pull_ocsf_ledger'' (xq_params evidence_query)) asking_db) \<noteq> []"
proof -
  have "result_logs (execute_query ledger_agent 9000001 (xq_type evidence_query) (xq_params evidence_query)) \<noteq> []" by code_simp
  then obtain r where r: "r \<in> set (result_logs (execute_query ledger_agent 9000001 (xq_type evidence_query) (xq_params evidence_query)))"
    by (cases "result_logs (execute_query ledger_agent 9000001 (xq_type evidence_query) (xq_params evidence_query))") auto
  show ?thesis
    using answered_logs_become_evidence [of asking_db evidence_query "''i1''" "''dst''", OF _ _ _ _ _ _ _ _ r, of 10]
    by (auto simp: asking_db_def evidence_query_def is_pending_def)
qed

end
